(* ===== verification/Prelude.thy ===== *)
theory Prelude
  imports Main "HOL-Library.Word"
begin

text \<open>
  Shared vocabulary of the development: the C integer types of the 32-bit ARM kernel the
  scheduler is built for, C's truncating division, the collections of simplification rules the
  component theories add to, and generic facts on lists and words that several components use.
\<close>

section \<open>C integer types\<close>

type_synonym u8 = "8 word"
type_synonym u32 = "32 word"
type_synonym u64 = "64 word"
type_synonym ulong = "32 word" \<comment> \<open>unsigned long on 32-bit ARM\<close>

text \<open>C division of signed integers truncates towards zero (the callers exclude a zero divisor).\<close>

definition c_div :: "int \<Rightarrow> int \<Rightarrow> int" where
  "c_div a b = sgn a * sgn b * (\<bar>a\<bar> div \<bar>b\<bar>)"

lemma c_div_nonneg: "0 \<le> a \<Longrightarrow> 0 < b \<Longrightarrow> c_div a b = a div b"
  by (cases "a = 0") (auto simp: c_div_def sgn_if)

section \<open>Collections of facts\<close>

named_theorems frame_simps
  "rewrite rules that say which fields an operation leaves unchanged"

named_theorems queue_intros
  "introduction rules that keep the abstract queue contents of the intrusive lists"

section \<open>Lists\<close>

lemma distinct_removeAll_filter: "removeAll x xs = filter (\<lambda>y. y \<noteq> x) xs"
  by (induction xs) auto

lemma distinct_split_removeAll:
  "distinct (xs @ x # ys) \<Longrightarrow> removeAll x (xs @ x # ys) = xs @ ys"
  by (simp add: removeAll_id)

lemma split_removeAll:
  assumes "distinct zs" and "x \<in> set zs"
  obtains xs ys where "zs = xs @ x # ys" "x \<notin> set xs" "x \<notin> set ys" "removeAll x zs = xs @ ys"
proof -
  from assms(2) obtain xs ys where zs: "zs = xs @ x # ys" and "x \<notin> set xs"
    by (meson split_list_first)
  moreover from assms(1) zs have "x \<notin> set ys" by simp
  ultimately show ?thesis
    using that by simp
qed

lemma length_removeAll_distinct:
  "distinct zs \<Longrightarrow> x \<in> set zs \<Longrightarrow> Suc (length (removeAll x zs)) = length zs"
  by (erule (1) split_removeAll) simp

lemma removeAll_map_inj:
  "inj f \<Longrightarrow> removeAll (f x) (map f xs) = map f (removeAll x xs)"
  by (induction xs) (auto dest: injD)

section \<open>Machine words\<close>

lemma of_nat_word_eq_0_iff:
  "n < 2 ^ LENGTH('a) \<Longrightarrow> (of_nat n :: 'a::len word) = 0 \<longleftrightarrow> n = 0"
  by (metis dvd_0_right gr0I nat_dvd_not_less word_of_nat_eq_0_iff)

lemma of_nat_Suc_minus_1: "of_nat (Suc n) - (1 :: 'a::len word) = of_nat n"
  by simp

lemma unat_dec: "w \<noteq> 0 \<Longrightarrow> unat (w - 1 :: 'a::len word) = unat w - 1"
  by (simp add: unat_minus_one)

lemma word_le_sub_le: "(b :: 'a::len word) \<le> a \<Longrightarrow> a - b \<le> a"
  by (simp add: word_le_nat_alt unat_sub)

lemma unat_mult_small:
  "unat a * unat b < 2 ^ LENGTH('a) \<Longrightarrow> unat (a * b) = unat a * unat (b :: 'a::len word)"
  by (simp add: unat_word_ariths)

lemma unat_add_small:
  "unat a + unat b < 2 ^ LENGTH('a) \<Longrightarrow> unat (a + b) = unat a + unat (b :: 'a::len word)"
  by (simp add: unat_word_ariths)

lemma unsigned_less_nat: "unat (w :: 'a::len word) < 2 ^ LENGTH('a)"
  by (rule unsigned_less)

lemma unat_drop: "unat (drop_bit k w) = unat w div 2 ^ k"
  unfolding unat_drop_bit_eq by (rule drop_bit_eq_div)

lemma unat_push_bit_1:
  assumes "k < LENGTH('a)"
  shows "unat (push_bit k 1 :: 'a::len word) = 2 ^ k"
proof -
  have "(push_bit k 1 :: 'a word) = of_nat (2 ^ k)" by (simp add: push_bit_eq_mult)
  moreover have "(2 :: nat) ^ k < 2 ^ LENGTH('a)" using assms by simp
  ultimately show ?thesis by (simp only: unat_of_nat mod_less)
qed

end
