(* ===== verification/Klist.thy ===== *)
theory Klist
  imports Prelude
begin

text \<open>
  The intrusive circular lists of the kernel. The scheduler embeds a \<open>struct list_head\<close> in
  its queues and entities and reads the \<open>next\<close> and \<open>prev\<close> fields directly; the operations on
  them come from the header \<open>linux/list.h\<close>, which is not part of this repository. They are
  therefore parameters: a record \<open>klist_ops\<close> of operations on a heap of links, with their
  documented behaviour as the predicate \<open>klist_ok\<close>. The documented behaviour is stated with
  \<open>is_list h hq xs\<close>: following \<open>next\<close> from the head \<open>hq\<close> visits exactly \<open>xs\<close> and
  returns to \<open>hq\<close>, and \<open>prev\<close> is the inverse. A concrete implementation that satisfies the
  contract closes the theory; it is used in witnesses only.
\<close>

section \<open>Links and operations\<close>

record 'n list_head =
  lh_next :: 'n
  lh_prev :: 'n

type_synonym 'n links = "'n \<Rightarrow> 'n list_head"

record 'n klist_ops =
  kl_INIT_LIST_HEAD :: "'n \<Rightarrow> 'n links \<Rightarrow> 'n links"
  kl_list_add :: "'n \<Rightarrow> 'n \<Rightarrow> 'n links \<Rightarrow> 'n links" \<comment> \<open>new entry, head\<close>
  kl_list_add_tail :: "'n \<Rightarrow> 'n \<Rightarrow> 'n links \<Rightarrow> 'n links"
  kl_list_del_init :: "'n \<Rightarrow> 'n links \<Rightarrow> 'n links"
  kl_list_move :: "'n \<Rightarrow> 'n \<Rightarrow> 'n links \<Rightarrow> 'n links" \<comment> \<open>entry, head\<close>
  kl_list_move_tail :: "'n \<Rightarrow> 'n \<Rightarrow> 'n links \<Rightarrow> 'n links"
  kl_list_empty :: "'n \<Rightarrow> 'n links \<Rightarrow> bool"

section \<open>Segments and circular lists\<close>

text \<open>\<open>seg h a xs b\<close>: the links lead from \<open>a\<close> through \<open>xs\<close> to \<open>b\<close>, forwards and backwards.\<close>

fun seg :: "'n links \<Rightarrow> 'n \<Rightarrow> 'n list \<Rightarrow> 'n \<Rightarrow> bool" where
  "seg h a [] b \<longleftrightarrow> lh_next (h a) = b \<and> lh_prev (h b) = a"
| "seg h a (x # xs) b \<longleftrightarrow> lh_next (h a) = x \<and> lh_prev (h x) = a \<and> seg h x xs b"

definition is_list :: "'n links \<Rightarrow> 'n \<Rightarrow> 'n list \<Rightarrow> bool" where
  "is_list h hq xs \<longleftrightarrow> distinct (hq # xs) \<and> seg h hq xs hq"

lemma seg_append: "seg h a (xs @ x # ys) b \<longleftrightarrow> seg h a xs x \<and> seg h x ys b"
  by (induction xs arbitrary: a) auto

text \<open>
  A segment reads the \<open>next\<close> of every node but the last and the \<open>prev\<close> of every node but
  the first.
\<close>

lemma seg_cong:
  "seg h a xs b \<Longrightarrow> (\<And>n. n \<in> set (a # xs) \<Longrightarrow> lh_next (h' n) = lh_next (h n)) \<Longrightarrow>
   (\<And>n. n \<in> set (xs @ [b]) \<Longrightarrow> lh_prev (h' n) = lh_prev (h n)) \<Longrightarrow> seg h' a xs b"
  by (induction xs arbitrary: a) auto

lemma is_list_cong:
  assumes "is_list h hq xs" and "\<And>n. n \<in> set (hq # xs) \<Longrightarrow> h' n = h n"
  shows "is_list h' hq xs"
  using assms by (auto simp: is_list_def intro: seg_cong [where h = h])

lemma is_list_distinct: "is_list h hq xs \<Longrightarrow> distinct xs \<and> hq \<notin> set xs"
  by (simp add: is_list_def)

lemma is_list_Nil: "is_list h hq [] \<longleftrightarrow> lh_next (h hq) = hq \<and> lh_prev (h hq) = hq"
  by (simp add: is_list_def)

lemma is_list_next: "is_list h hq xs \<Longrightarrow> lh_next (h hq) = (case xs of [] \<Rightarrow> hq | x # _ \<Rightarrow> x)"
  by (cases xs) (auto simp: is_list_def)

lemma seg_unique: "seg h a xs b \<Longrightarrow> seg h a ys b \<Longrightarrow> b \<notin> set xs \<Longrightarrow> b \<notin> set ys \<Longrightarrow> xs = ys"
proof (induction xs arbitrary: a ys)
  case Nil
  then show ?case by (cases ys) auto
next
  case (Cons x xs)
  then show ?case by (cases ys) auto
qed

text \<open>The chain of entries is determined by the links.\<close>

lemma is_list_unique: "is_list h hq xs \<Longrightarrow> is_list h hq ys \<Longrightarrow> xs = ys"
  by (auto simp: is_list_def dest: seg_unique)

text \<open>An entry of a list is not alone: its \<open>next\<close> is another node.\<close>

lemma is_list_mem_next_neq:
  assumes l: "is_list h hq xs" and x: "x \<in> set xs"
  shows "lh_next (h x) \<noteq> x"
proof -
  from x obtain us vs where xs: "xs = us @ x # vs" by (meson split_list)
  from l xs have "seg h x vs hq" and "distinct (hq # us @ x # vs)"
    by (auto simp: is_list_def seg_append)
  then show ?thesis by (cases vs) auto
qed

text \<open>
  The test \<open>run_list.prev != run_list.next\<close> of the tick handlers: both neighbours of an entry
  coincide exactly when it is the only one on its queue.
\<close>

lemma is_list_neighbours_eq:
  assumes l: "is_list h hq xs" and x: "x \<in> set xs"
  shows "lh_prev (h x) = lh_next (h x) \<longleftrightarrow> xs = [x]"
proof -
  from x obtain us vs where xs: "xs = us @ x # vs" by (meson split_list)
  have dis: "distinct (hq # us @ x # vs)" and s1: "seg h hq us x" and s2: "seg h x vs hq"
    using l xs by (auto simp: is_list_def seg_append)
  have p: "lh_prev (h x) = (if us = [] then hq else last us)"
    using s1 by (cases us rule: rev_cases) (auto simp: seg_append)
  have n: "lh_next (h x) = (case vs of [] \<Rightarrow> hq | v # _ \<Rightarrow> v)"
    using s2 by (cases vs) auto
  show ?thesis
    using p n dis xs by (cases us rule: rev_cases; cases vs) auto
qed

section \<open>The documented contract of linux/list.h\<close>

text \<open>INIT_LIST_HEAD makes a node an empty list and touches no other node.\<close>

definition init_ok :: "('n \<Rightarrow> 'n links \<Rightarrow> 'n links) \<Rightarrow> bool" where
  "init_ok f \<longleftrightarrow> (\<forall>n h. is_list (f n h) n [] \<and> (\<forall>m. m \<noteq> n \<longrightarrow> f n h m = h m))"

text \<open>
  \<open>insert_ok f pos\<close>: \<open>f\<close> inserts a node that is not on the list at the place \<open>pos\<close> says, and
  touches only the list and the node.
\<close>

definition insert_ok :: "('n \<Rightarrow> 'n \<Rightarrow> 'n links \<Rightarrow> 'n links) \<Rightarrow> ('n \<Rightarrow> 'n list \<Rightarrow> 'n list) \<Rightarrow> bool" where
  "insert_ok f pos \<longleftrightarrow> (\<forall>n hq xs h. is_list h hq xs \<longrightarrow> n \<notin> set (hq # xs) \<longrightarrow>
     is_list (f n hq h) hq (pos n xs) \<and> (\<forall>m. m \<notin> set (n # hq # xs) \<longrightarrow> f n hq h m = h m))"

text \<open>\<open>move_ok f pos\<close>: \<open>f\<close> takes an entry off its list and puts it back at the place \<open>pos\<close> says.\<close>

definition move_ok :: "('n \<Rightarrow> 'n \<Rightarrow> 'n links \<Rightarrow> 'n links) \<Rightarrow> ('n \<Rightarrow> 'n list \<Rightarrow> 'n list) \<Rightarrow> bool" where
  "move_ok f pos \<longleftrightarrow> (\<forall>n hq xs h. is_list h hq xs \<longrightarrow> n \<in> set xs \<longrightarrow>
     is_list (f n hq h) hq (pos n (removeAll n xs)) \<and>
     (\<forall>m. m \<notin> set (hq # xs) \<longrightarrow> f n hq h m = h m))"

text \<open>list_del_init takes an entry off its list and leaves it an empty list of its own.\<close>

definition del_ok :: "('n \<Rightarrow> 'n links \<Rightarrow> 'n links) \<Rightarrow> bool" where
  "del_ok f \<longleftrightarrow> (\<forall>n hq xs h. is_list h hq xs \<longrightarrow> n \<in> set xs \<longrightarrow>
     is_list (f n h) hq (removeAll n xs) \<and> is_list (f n h) n [] \<and>
     (\<forall>m. m \<notin> set (hq # xs) \<longrightarrow> f n h m = h m))"

definition at_front :: "'a \<Rightarrow> 'a list \<Rightarrow> 'a list" where
  "at_front x xs = x # xs"

definition at_back :: "'a \<Rightarrow> 'a list \<Rightarrow> 'a list" where
  "at_back x xs = xs @ [x]"

definition klist_ok :: "'n klist_ops \<Rightarrow> bool" where
  "klist_ok K \<longleftrightarrow> init_ok (kl_INIT_LIST_HEAD K) \<and>
     insert_ok (kl_list_add K) at_front \<and> insert_ok (kl_list_add_tail K) at_back \<and>
     del_ok (kl_list_del_init K) \<and>
     move_ok (kl_list_move K) at_front \<and> move_ok (kl_list_move_tail K) at_back \<and>
     (\<forall>n h. kl_list_empty K n h \<longleftrightarrow> lh_next (h n) = n)"

lemma klist_okD:
  assumes "klist_ok K"
  shows "init_ok (kl_INIT_LIST_HEAD K)" "insert_ok (kl_list_add K) at_front"
    "insert_ok (kl_list_add_tail K) at_back" "del_ok (kl_list_del_init K)"
    "move_ok (kl_list_move K) at_front" "move_ok (kl_list_move_tail K) at_back"
  using assms by (simp_all add: klist_ok_def)

lemma init_okD:
  "init_ok f \<Longrightarrow> is_list (f n h) n []"
  "init_ok f \<Longrightarrow> m \<noteq> n \<Longrightarrow> f n h m = h m"
  by (simp_all add: init_ok_def)

lemma insert_okD:
  assumes "insert_ok f pos" "is_list h hq xs" "n \<notin> set (hq # xs)"
  shows "is_list (f n hq h) hq (pos n xs)" "m \<notin> set (n # hq # xs) \<Longrightarrow> f n hq h m = h m"
  using assms unfolding insert_ok_def by blast+

lemma move_okD:
  assumes "move_ok f pos" "is_list h hq xs" "n \<in> set xs"
  shows "is_list (f n hq h) hq (pos n (removeAll n xs))" "m \<notin> set (hq # xs) \<Longrightarrow> f n hq h m = h m"
  using assms unfolding move_ok_def by blast+

lemma del_okD:
  assumes "del_ok f" "is_list h hq xs" "n \<in> set xs"
  shows "is_list (f n h) hq (removeAll n xs)" "is_list (f n h) n []"
    "m \<notin> set (hq # xs) \<Longrightarrow> f n h m = h m"
  using assms unfolding del_ok_def by blast+

lemma klist_empty: "klist_ok K \<Longrightarrow> kl_list_empty K n h \<longleftrightarrow> lh_next (h n) = n"
  by (simp add: klist_ok_def)

lemma klist_empty_head: "klist_ok K \<Longrightarrow> is_list h hq xs \<Longrightarrow> kl_list_empty K hq h \<longleftrightarrow> xs = []"
  by (cases xs) (auto simp: klist_empty is_list_def)

lemma klist_empty_mem: "klist_ok K \<Longrightarrow> is_list h hq xs \<Longrightarrow> x \<in> set xs \<Longrightarrow> \<not> kl_list_empty K x h"
  by (simp add: klist_empty is_list_mem_next_neq)

section \<open>Lists with a fixed family of entries\<close>

text \<open>
  \<open>on_queue node h hq ts\<close>: the queue at \<open>hq\<close> holds the entries \<open>node t\<close> for \<open>t\<close> in \<open>ts\<close>, in
  that order, and the list head of every other member of the family points to itself, which is
  what the code's \<open>!list_empty(&run_list)\<close> test relies on.
\<close>

definition on_queue :: "('a \<Rightarrow> 'n) \<Rightarrow> 'n links \<Rightarrow> 'n \<Rightarrow> 'a list \<Rightarrow> bool" where
  "on_queue node h hq ts \<longleftrightarrow> inj node \<and> hq \<notin> range node \<and>
     is_list h hq (map node ts) \<and> (\<forall>t. t \<notin> set ts \<longrightarrow> is_list h (node t) [])"

lemma on_queue_distinct: "on_queue node h hq ts \<Longrightarrow> distinct ts"
  by (auto simp: on_queue_def dest!: is_list_distinct simp: distinct_map)

lemma on_queue_unique: "on_queue node h hq ts \<Longrightarrow> on_queue node h hq us \<Longrightarrow> ts = us"
proof -
  assume q: "on_queue node h hq ts" "on_queue node h hq us"
  then have "map node ts = map node us"
    unfolding on_queue_def by (meson is_list_unique)
  with q(1) show "ts = us" by (simp add: on_queue_def inj_map_eq_map)
qed

lemma on_queue_empty_iff:
  assumes "klist_ok K" and q: "on_queue node h hq ts"
  shows "kl_list_empty K (node t) h \<longleftrightarrow> t \<notin> set ts"
proof (cases "t \<in> set ts")
  case True
  with q have "is_list h hq (map node ts)" and "node t \<in> set (map node ts)"
    by (auto simp: on_queue_def)
  with assms(1) True show ?thesis using klist_empty_mem by fastforce
next
  case False
  with q have "is_list h (node t) []" by (simp add: on_queue_def)
  with assms(1) False show ?thesis by (simp add: klist_empty is_list_Nil)
qed

lemma on_queue_next:
  "on_queue node h hq ts \<Longrightarrow> lh_next (h hq) = (case ts of [] \<Rightarrow> hq | t # _ \<Rightarrow> node t)"
  by (cases ts) (auto simp: on_queue_def dest!: is_list_next)

lemma on_queue_neighbours_eq:
  assumes q: "on_queue node h hq ts" and t: "t \<in> set ts"
  shows "lh_prev (h (node t)) = lh_next (h (node t)) \<longleftrightarrow> ts = [t]"
proof -
  have l: "is_list h hq (map node ts)" and i: "inj node" using q by (auto simp: on_queue_def)
  from t have "node t \<in> set (map node ts)" by simp
  from is_list_neighbours_eq [OF l this] have
    "lh_prev (h (node t)) = lh_next (h (node t)) \<longleftrightarrow> map node ts = map node [t]" by simp
  also have "\<dots> \<longleftrightarrow> ts = [t]" using i by (rule inj_map_eq_map)
  finally show ?thesis .
qed

lemma on_queue_cong:
  assumes q: "on_queue node h hq ts" and f: "\<And>n. n \<in> insert hq (range node) \<Longrightarrow> h' n = h n"
  shows "on_queue node h' hq ts"
  unfolding on_queue_def
proof (intro conjI allI impI)
  from q have "is_list h hq (map node ts)" by (simp add: on_queue_def)
  then show "is_list h' hq (map node ts)"
    by (rule is_list_cong) (rule f, auto)
next
  fix t assume "t \<notin> set ts"
  then have "is_list h (node t) []" using q by (simp add: on_queue_def)
  then show "is_list h' (node t) []" using f by (simp add: is_list_Nil)
qed (use q in \<open>simp_all add: on_queue_def\<close>)

lemma on_queue_fresh_intro:
  assumes q: "on_queue node h hq ts" and l: "is_list h' hq (map node us)"
    and set: "set us = insert t (set ts)"
    and f: "\<And>m. m \<notin> set (node t # hq # map node ts) \<Longrightarrow> h' m = h m"
  shows "on_queue node h' hq us"
  unfolding on_queue_def
proof (intro conjI allI impI)
  fix u assume "u \<notin> set us"
  with set have u: "u \<noteq> t" "u \<notin> set ts" by auto
  have "is_list h (node u) []" using q u by (simp add: on_queue_def)
  moreover have "h' (node u) = h (node u)"
    using q u by (intro f) (auto simp: on_queue_def dest: injD)
  ultimately show "is_list h' (node u) []" by (simp add: is_list_Nil)
qed (use q l in \<open>auto simp: on_queue_def\<close>)

lemma on_queue_same_intro:
  assumes q: "on_queue node h hq ts" and l: "is_list h' hq (map node us)" and set: "set us = set ts"
    and f: "\<And>m. m \<notin> set (hq # map node ts) \<Longrightarrow> h' m = h m"
  shows "on_queue node h' hq us"
  unfolding on_queue_def
proof (intro conjI allI impI)
  fix u assume "u \<notin> set us"
  with set have u: "u \<notin> set ts" by auto
  have "is_list h (node u) []" using q u by (simp add: on_queue_def)
  moreover have "h' (node u) = h (node u)"
    using q u by (intro f) (auto simp: on_queue_def dest: injD)
  ultimately show "is_list h' (node u) []" by (simp add: is_list_Nil)
qed (use q l in \<open>auto simp: on_queue_def\<close>)

text \<open>The effect of each list operation on the abstract contents of a queue.\<close>

lemma on_queue_insert:
  assumes "insert_ok f pos" and q: "on_queue node h hq ts" and t: "t \<notin> set ts"
    and pos: "pos (node t) (map node ts) = map node us" "set us = insert t (set ts)"
  shows "on_queue node (f (node t) hq h) hq us"
proof -
  have l: "is_list h hq (map node ts)" and n: "node t \<notin> set (hq # map node ts)"
    using q t by (auto simp: on_queue_def dest: injD)
  show ?thesis
    using insert_okD [OF assms(1) l n] pos
    by (intro on_queue_fresh_intro [OF q, where t = t]) auto
qed

lemma on_queue_moved:
  assumes "move_ok f pos" and q: "on_queue node h hq ts" and t: "t \<in> set ts"
    and pos: "pos (node t) (map node (removeAll t ts)) = map node us" "set us = set ts"
  shows "on_queue node (f (node t) hq h) hq us"
proof -
  have l: "is_list h hq (map node ts)" and n: "node t \<in> set (map node ts)" and i: "inj node"
    using q t by (auto simp: on_queue_def)
  show ?thesis
    using move_okD [OF assms(1) l n] pos i
    by (intro on_queue_same_intro [OF q]) (auto simp: removeAll_map_inj)
qed

lemma on_queue_add [queue_intros]:
  "klist_ok K \<Longrightarrow> on_queue node h hq ts \<Longrightarrow> t \<notin> set ts \<Longrightarrow>
   on_queue node (kl_list_add K (node t) hq h) hq (t # ts)"
  by (rule on_queue_insert [OF klist_okD(2)]) (auto simp: at_front_def)

lemma on_queue_add_tail [queue_intros]:
  "klist_ok K \<Longrightarrow> on_queue node h hq ts \<Longrightarrow> t \<notin> set ts \<Longrightarrow>
   on_queue node (kl_list_add_tail K (node t) hq h) hq (ts @ [t])"
  by (rule on_queue_insert [OF klist_okD(3)]) (auto simp: at_back_def)

lemma on_queue_move [queue_intros]:
  "klist_ok K \<Longrightarrow> on_queue node h hq ts \<Longrightarrow> t \<in> set ts \<Longrightarrow>
   on_queue node (kl_list_move K (node t) hq h) hq (t # removeAll t ts)"
  by (rule on_queue_moved [OF klist_okD(5)]) (auto simp: at_front_def)

lemma on_queue_move_tail [queue_intros]:
  "klist_ok K \<Longrightarrow> on_queue node h hq ts \<Longrightarrow> t \<in> set ts \<Longrightarrow>
   on_queue node (kl_list_move_tail K (node t) hq h) hq (removeAll t ts @ [t])"
  by (rule on_queue_moved [OF klist_okD(6)]) (auto simp: at_back_def)

lemma on_queue_del_init [queue_intros]:
  assumes K: "klist_ok K" and q: "on_queue node h hq ts" and t: "t \<in> set ts"
  shows "on_queue node (kl_list_del_init K (node t) h) hq (removeAll t ts)"
proof -
  let ?h = "kl_list_del_init K (node t) h"
  have l: "is_list h hq (map node ts)" and n: "node t \<in> set (map node ts)" and i: "inj node"
    using q t by (auto simp: on_queue_def)
  note d = del_okD [OF klist_okD(4) [OF K] l n]
  have "is_list ?h (node u) []" if "u \<notin> set (removeAll t ts)" for u
  proof (cases "u = t")
    case True
    then show ?thesis using d(2) by simp
  next
    case False
    with that q have u: "is_list h (node u) []" and "node u \<notin> set (hq # map node ts)"
      using i by (auto simp: on_queue_def dest: injD)
    then have "?h (node u) = h (node u)" by (intro d(3))
    with u show ?thesis by (simp add: is_list_Nil)
  qed
  moreover have "is_list ?h hq (map node (removeAll t ts))"
    using d(1) i by (simp add: removeAll_map_inj)
  ultimately show ?thesis using q by (auto simp: on_queue_def)
qed

text \<open>The operations touch no node outside the queue and its family of entries.\<close>

lemma on_queue_frame:
  assumes K: "klist_ok K" and q: "on_queue node h hq ts" and m: "m \<notin> insert hq (range node)"
  shows "t \<notin> set ts \<Longrightarrow> kl_list_add K (node t) hq h m = h m"
    and "t \<notin> set ts \<Longrightarrow> kl_list_add_tail K (node t) hq h m = h m"
    and "t \<in> set ts \<Longrightarrow> kl_list_del_init K (node t) h m = h m"
    and "t \<in> set ts \<Longrightarrow> kl_list_move K (node t) hq h m = h m"
    and "t \<in> set ts \<Longrightarrow> kl_list_move_tail K (node t) hq h m = h m"
proof -
  have l: "is_list h hq (map node ts)" and i: "inj node" and hq: "hq \<notin> range node"
    using q by (auto simp: on_queue_def)
  have m': "m \<notin> set (hq # map node ts)" using m by auto
  have m'': "m \<notin> set (node t # hq # map node ts)" using m by auto
  have fresh: "t \<notin> set ts \<Longrightarrow> node t \<notin> set (hq # map node ts)"
    using i hq by (auto dest: injD)
  have mem: "t \<in> set ts \<Longrightarrow> node t \<in> set (map node ts)" by simp
  show "t \<notin> set ts \<Longrightarrow> kl_list_add K (node t) hq h m = h m"
    by (rule insert_okD(2) [OF klist_okD(2) [OF K] l fresh m''])
  show "t \<notin> set ts \<Longrightarrow> kl_list_add_tail K (node t) hq h m = h m"
    by (rule insert_okD(2) [OF klist_okD(3) [OF K] l fresh m''])
  show "t \<in> set ts \<Longrightarrow> kl_list_del_init K (node t) h m = h m"
    by (rule del_okD(3) [OF klist_okD(4) [OF K] l mem m'])
  show "t \<in> set ts \<Longrightarrow> kl_list_move K (node t) hq h m = h m"
    by (rule move_okD(2) [OF klist_okD(5) [OF K] l mem m'])
  show "t \<in> set ts \<Longrightarrow> kl_list_move_tail K (node t) hq h m = h m"
    by (rule move_okD(2) [OF klist_okD(6) [OF K] l mem m'])
qed

section \<open>An implementation that meets the contract\<close>

text \<open>
  Pointer surgery in the usual order. It shows that \<open>klist_ok\<close> can hold and instantiates the
  parameter in the witnesses.
\<close>

definition link_next :: "'n \<Rightarrow> 'n \<Rightarrow> 'n links \<Rightarrow> 'n links" where
  "link_next a b h = h(a := (h a)\<lparr>lh_next := b\<rparr>)"

definition link_prev :: "'n \<Rightarrow> 'n \<Rightarrow> 'n links \<Rightarrow> 'n links" where
  "link_prev b a h = h(b := (h b)\<lparr>lh_prev := a\<rparr>)"

definition ref_init :: "'n \<Rightarrow> 'n links \<Rightarrow> 'n links" where
  "ref_init n h = link_prev n n (link_next n n h)"

definition ref_insert :: "'n \<Rightarrow> 'n \<Rightarrow> 'n \<Rightarrow> 'n links \<Rightarrow> 'n links" where
  "ref_insert n a b h = link_next a n (link_prev n a (link_next n b (link_prev b n h)))"

definition ref_del :: "'n \<Rightarrow> 'n links \<Rightarrow> 'n links" where
  "ref_del n h = (let a = lh_prev (h n); b = lh_next (h n) in link_next a b (link_prev b a h))"

definition ref_klist :: "'n klist_ops" where
  "ref_klist = \<lparr>
     kl_INIT_LIST_HEAD = ref_init,
     kl_list_add = (\<lambda>n hq h. ref_insert n hq (lh_next (h hq)) h),
     kl_list_add_tail = (\<lambda>n hq h. ref_insert n (lh_prev (h hq)) hq h),
     kl_list_del_init = (\<lambda>n h. ref_init n (ref_del n h)),
     kl_list_move = (\<lambda>n hq h. let h' = ref_del n h in ref_insert n hq (lh_next (h' hq)) h'),
     kl_list_move_tail = (\<lambda>n hq h. let h' = ref_del n h in ref_insert n (lh_prev (h' hq)) hq h'),
     kl_list_empty = (\<lambda>n h. lh_next (h n) = n)\<rparr>"

lemmas link_defs = link_next_def link_prev_def

lemma seg_snoc: "seg h a (us @ [u]) b \<longleftrightarrow> seg h a us u \<and> lh_next (h u) = b \<and> lh_prev (h b) = u"
  by (simp add: seg_append)

lemma ref_insert_list:
  assumes l: "is_list h hq (us @ vs)" and n: "n \<notin> set (hq # us @ vs)"
  shows "is_list (ref_insert n (last (hq # us)) (hd (vs @ [hq])) h) hq (us @ n # vs)"
proof -
  let ?a = "last (hq # us)" and ?b = "hd (vs @ [hq])"
  let ?h = "ref_insert n ?a ?b h"
  have d: "distinct (hq # us @ n # vs)" using l n by (auto simp: is_list_def)
  have h: "seg h hq (us @ vs) hq" using l by (simp add: is_list_def)
  have "seg ?h hq us n"
  proof (cases us rule: rev_cases)
    case Nil
    then show ?thesis using d by (auto simp: ref_insert_def link_defs)
  next
    case (snoc us' u)
    then have "seg h hq us' u" using h by (cases vs) (simp_all add: seg_append)
    then have "seg ?h hq us' u"
      using d snoc by (elim seg_cong) (cases vs; auto simp: ref_insert_def link_defs)+
    then show ?thesis using d snoc by (auto simp: seg_snoc ref_insert_def link_defs)
  qed
  moreover have "seg ?h n vs hq"
  proof (cases vs)
    case Nil
    then show ?thesis
      using d by (cases us rule: rev_cases) (auto simp: ref_insert_def link_defs)
  next
    case (Cons v vs')
    then have "seg h v vs' hq" using h by (simp add: seg_append)
    then have "seg ?h v vs' hq"
      using d Cons by (elim seg_cong) (cases us rule: rev_cases; auto simp: ref_insert_def link_defs)+
    then show ?thesis
      using d Cons by (cases us rule: rev_cases) (auto simp: ref_insert_def link_defs)
  qed
  ultimately show ?thesis using d by (simp add: is_list_def seg_append)
qed

lemma is_list_neighbours:
  assumes "is_list h hq (us @ n # vs)"
  shows "lh_prev (h n) = last (hq # us)" "lh_next (h n) = hd (vs @ [hq])"
proof -
  have s: "seg h hq us n" "seg h n vs hq" using assms by (auto simp: is_list_def seg_append)
  show "lh_prev (h n) = last (hq # us)" using s(1) by (cases us rule: rev_cases) (auto simp: seg_snoc)
  show "lh_next (h n) = hd (vs @ [hq])" using s(2) by (cases vs) auto
qed

lemma ref_del_list:
  assumes l: "is_list h hq (us @ n # vs)"
  shows "is_list (ref_del n h) hq (us @ vs)"
proof -
  let ?a = "last (hq # us)" and ?b = "hd (vs @ [hq])"
  let ?h = "link_next ?a ?b (link_prev ?b ?a h)"
  have d: "distinct (hq # us @ n # vs)" using l by (auto simp: is_list_def)
  have s: "seg h hq us n" "seg h n vs hq" using l by (auto simp: is_list_def seg_append)
  have "seg ?h hq (us @ vs) hq"
  proof (cases us rule: rev_cases)
    case Nil
    show ?thesis
    proof (cases vs)
      case (Cons v vs')
      with s have "seg h v vs' hq" by simp
      then have "seg ?h v vs' hq"
        using d Cons Nil by (elim seg_cong) (auto simp: link_defs)
      then show ?thesis using Nil Cons d by (auto simp: link_defs)
    qed (use Nil in \<open>auto simp: link_defs\<close>)
  next
    case (snoc us' u)
    then have u: "seg h hq us' u" using s by (simp add: seg_snoc)
    show ?thesis
    proof (cases vs)
      case Nil
      have "seg ?h hq us' u" using u d snoc Nil by (elim seg_cong) (auto simp: link_defs)
      then show ?thesis using snoc Nil d by (auto simp: seg_snoc link_defs)
    next
      case (Cons v vs')
      have "seg ?h hq us' u" using u d snoc Cons by (elim seg_cong) (auto simp: link_defs)
      moreover have "seg h v vs' hq" using s(2) Cons by simp
      then have "seg ?h v vs' hq"
        using d snoc Cons by (elim seg_cong) (auto simp: link_defs)
      ultimately show ?thesis using snoc Cons d by (auto simp: seg_append link_defs)
    qed
  qed
  moreover have "ref_del n h = ?h"
    using is_list_neighbours [OF l] by (simp only: ref_del_def Let_def)
  ultimately show ?thesis using d by (simp add: is_list_def)
qed

lemma ref_insert_frame: "m \<noteq> n \<Longrightarrow> m \<noteq> a \<Longrightarrow> m \<noteq> b \<Longrightarrow> ref_insert n a b h m = h m"
  by (simp add: ref_insert_def link_defs)

lemma ref_del_frame:
  assumes "is_list h hq (us @ n # vs)" and "m \<notin> set (hq # us @ vs)"
  shows "ref_del n h m = h m"
  using is_list_neighbours [OF assms(1)] assms(2)
  by (cases us rule: rev_cases; cases vs) (auto simp: ref_del_def link_defs Let_def)

lemma ref_init_ok: "init_ok ref_init"
  by (auto simp: init_ok_def ref_init_def link_defs is_list_Nil)

lemma ref_add_ok: "insert_ok (\<lambda>n hq h. ref_insert n hq (lh_next (h hq)) h) at_front"
  unfolding insert_ok_def at_front_def
proof (intro allI impI conjI)
  fix n hq :: 'a and xs h
  assume l: "is_list h hq xs" and n: "n \<notin> set (hq # xs)"
  have nx: "lh_next (h hq) = hd (xs @ [hq])" using is_list_next [OF l] by (cases xs) auto
  show "is_list (ref_insert n hq (lh_next (h hq)) h) hq (n # xs)"
    using ref_insert_list [of h hq "[]" xs n] l n nx by simp
  fix m assume "m \<notin> set (n # hq # xs)"
  then show "ref_insert n hq (lh_next (h hq)) h m = h m"
    using nx by (intro ref_insert_frame) (cases xs; auto)+
qed

lemma is_list_last: "is_list h hq xs \<Longrightarrow> lh_prev (h hq) = last (hq # xs)"
  by (cases xs rule: rev_cases) (auto simp: is_list_def seg_snoc)

lemma ref_add_tail_ok: "insert_ok (\<lambda>n hq h. ref_insert n (lh_prev (h hq)) hq h) at_back"
  unfolding insert_ok_def at_back_def
proof (intro allI impI conjI)
  fix n hq :: 'a and xs h
  assume l: "is_list h hq xs" and n: "n \<notin> set (hq # xs)"
  show "is_list (ref_insert n (lh_prev (h hq)) hq h) hq (xs @ [n])"
    using ref_insert_list [of h hq xs "[]" n] l n is_list_last [OF l] by simp
  fix m assume "m \<notin> set (n # hq # xs)"
  then show "ref_insert n (lh_prev (h hq)) hq h m = h m"
    using is_list_last [OF l] by (intro ref_insert_frame) (cases xs rule: rev_cases; auto)+
qed

lemma ref_del_removeAll:
  assumes l: "is_list h hq xs" and n: "n \<in> set xs"
  shows "is_list (ref_del n h) hq (removeAll n xs)"
    and "m \<notin> set (hq # removeAll n xs) \<Longrightarrow> ref_del n h m = h m"
proof -
  from is_list_distinct [OF l] n obtain us vs
    where xs: "xs = us @ n # vs" and r: "removeAll n xs = us @ vs"
    by (auto elim: split_removeAll)
  show "is_list (ref_del n h) hq (removeAll n xs)"
    using l unfolding r unfolding xs by (rule ref_del_list)
  show "m \<notin> set (hq # removeAll n xs) \<Longrightarrow> ref_del n h m = h m"
    using l unfolding r unfolding xs by (rule ref_del_frame)
qed

lemma ref_del_ok: "del_ok (\<lambda>n h. ref_init n (ref_del n h))"
  unfolding del_ok_def
proof (intro allI impI conjI)
  fix n hq :: 'a and xs h
  assume l: "is_list h hq xs" and n: "n \<in> set xs"
  have i: "ref_init n (ref_del n h) m = ref_del n h m" if "m \<noteq> n" for m
    using that by (simp add: ref_init_def link_defs)
  have "n \<noteq> hq" using l n by (auto simp: is_list_def)
  then show "is_list (ref_init n (ref_del n h)) hq (removeAll n xs)"
    by (intro is_list_cong [OF ref_del_removeAll(1) [OF l n]] i) auto
  show "is_list (ref_init n (ref_del n h)) n []" by (simp add: ref_init_def link_defs is_list_Nil)
  fix m assume "m \<notin> set (hq # xs)"
  with n have "m \<noteq> n" "m \<notin> set (hq # removeAll n xs)" by auto
  then show "ref_init n (ref_del n h) m = h m"
    using i ref_del_removeAll(2) [OF l n] by simp
qed

lemma ref_move_ok:
  assumes f: "insert_ok f pos"
  shows "move_ok (\<lambda>n hq h. f n hq (ref_del n h)) pos"
  unfolding move_ok_def
proof (intro allI impI conjI)
  fix n hq :: 'a and xs h
  assume l: "is_list h hq xs" and n: "n \<in> set xs"
  note d = ref_del_removeAll [OF l n]
  have n': "n \<notin> set (hq # removeAll n xs)" using l n by (auto simp: is_list_def)
  show "is_list (f n hq (ref_del n h)) hq (pos n (removeAll n xs))"
    by (rule insert_okD(1) [OF f d(1) n'])
  fix m assume "m \<notin> set (hq # xs)"
  with n have "m \<notin> set (n # hq # removeAll n xs)" by auto
  then show "f n hq (ref_del n h) m = h m"
    using insert_okD(2) [OF f d(1) n'] d(2) by simp
qed

lemma ref_klist_ok: "klist_ok ref_klist"
  using ref_init_ok ref_add_ok ref_add_tail_ok ref_del_ok
    ref_move_ok [OF ref_add_ok] ref_move_ok [OF ref_add_tail_ok]
  by (simp add: klist_ok_def ref_klist_def Let_def)

end
