(* ===== verification/Sched_Types.thy ===== *)
theory Sched_Types
  imports Klist "HOL-Library.Sublist"
begin

text \<open>
  The data of the scheduler: the structures of \<open>Prj2/include/linux/sched.h\<close> and
  \<open>Prj2/kernel/sched/sched.h\<close> as records, the state of the machine the handlers run on, and the
  environment that stands for the code outside the repository. Configuration: one CPU
  (no CONFIG_SMP), CONFIG_FAIR_GROUP_SCHED, CONFIG_RT_GROUP_SCHED and CONFIG_CGROUP_CPUACCT,
  no CONFIG_SCHEDSTATS, 32-bit longs. Handlers run with the run queue lock held and are atomic.
\<close>

section \<open>Pointers\<close>

type_synonym task_ptr = nat

text \<open>Control groups form a tree that never changes shape, so a group is its path from the
  root, the innermost component first; \<open>[]\<close> is the root group.\<close>

type_synonym tg_ptr = "nat list"
type_synonym ca_ptr = "nat list"

datatype rt_se_ptr = TaskRtSe task_ptr | GroupRtSe tg_ptr

text \<open>Every \<open>struct list_head\<close> the scheduler links.\<close>

datatype lnode =
    WrrQueue                  \<comment> \<open>\<open>rq->wrr.wrr_queue\<close>\<close>
  | WrrRun task_ptr           \<comment> \<open>\<open>p->wrr.run_list\<close>\<close>
  | RtQueue tg_ptr nat        \<comment> \<open>\<open>rt_rq->active.queue[prio]\<close> of the group's run queue\<close>
  | RtRun rt_se_ptr           \<comment> \<open>\<open>rt_se->run_list\<close>\<close>

datatype sched_class = Stop_class | Rt_class | Wrr_class | Fair_class | Idle_class

section \<open>Constants\<close>

definition SCHED_NORMAL :: int where "SCHED_NORMAL = 0"
definition SCHED_FIFO :: int where "SCHED_FIFO = 1"
definition SCHED_RR :: int where "SCHED_RR = 2"
definition SCHED_BATCH :: int where "SCHED_BATCH = 3"
definition SCHED_IDLE :: int where "SCHED_IDLE = 5"
definition SCHED_WRR :: int where "SCHED_WRR = 6"

lemmas policy_defs = SCHED_NORMAL_def SCHED_FIFO_def SCHED_RR_def SCHED_BATCH_def
  SCHED_IDLE_def SCHED_WRR_def

definition MAX_RT_PRIO :: int where "MAX_RT_PRIO = 100"
definition MAX_PRIO :: int where "MAX_PRIO = MAX_RT_PRIO + 40"
definition DEFAULT_PRIO :: int where "DEFAULT_PRIO = MAX_RT_PRIO + 20"

definition ENQUEUE_WAKEUP :: u32 where "ENQUEUE_WAKEUP = 1"
definition ENQUEUE_HEAD :: u32 where "ENQUEUE_HEAD = 2"
definition DEQUEUE_SLEEP :: u32 where "DEQUEUE_SLEEP = 1"

definition RUNTIME_INF :: u64 where "RUNTIME_INF = - 1"
definition RLIM_INFINITY :: ulong where "RLIM_INFINITY = - 1"
definition RLIMIT_RTTIME :: nat where "RLIMIT_RTTIME = 15"
definition USEC_PER_SEC :: nat where "USEC_PER_SEC = 1000000"
definition NSEC_PER_USEC :: nat where "NSEC_PER_USEC = 1000"
definition NSEC_PER_SEC :: nat where "NSEC_PER_SEC = 1000000000"

section \<open>Structures\<close>

record load_weight =
  lw_weight :: ulong
  lw_inv_weight :: ulong

record sched_entity =
  se_load :: load_weight
  se_on_rq :: u32
  se_exec_start :: u64
  se_sum_exec_runtime :: u64
  se_vruntime :: u64
  se_prev_sum_exec_runtime :: u64
  se_nr_migrations :: u64
  se_parent :: "tg_ptr option" \<comment> \<open>the group whose entity is the parent\<close>
  se_cfs_rq :: tg_ptr \<comment> \<open>the group that owns the queue\<close>

record sched_rt_entity =
  rse_timeout :: ulong
  rse_time_slice :: u32
  rse_back :: "rt_se_ptr option"
  rse_parent :: "tg_ptr option" \<comment> \<open>of a task: the group whose entity is the parent\<close>
  rse_rt_rq :: tg_ptr \<comment> \<open>of a task: the group that owns the queue\<close>

record sched_wrr_entity =
  wse_timeout :: ulong
  wse_time_slice :: u32
  wse_back :: "task_ptr option"

record task_struct =
  t_state :: ulong
  t_usage :: int \<comment> \<open>reference count\<close>
  t_flags :: u32
  t_on_rq :: int
  t_prio :: int
  t_static_prio :: int
  t_normal_prio :: int
  t_rt_priority :: u32
  t_sched_class :: sched_class
  t_se :: sched_entity
  t_rt :: sched_rt_entity
  t_wrr :: sched_wrr_entity
  t_sched_task_group :: tg_ptr
  t_policy :: int
  t_mm :: "nat option"
  t_active_mm :: "nat option"
  t_exit_state :: int
  t_in_iowait :: bool
  t_sched_reset_on_fork :: bool
  t_sched_contributes_to_load :: bool
  t_pid :: nat
  t_utime :: ulong
  t_stime :: ulong
  t_utimescaled :: ulong
  t_stimescaled :: ulong
  t_gtime :: ulong
  t_prev_utime :: ulong
  t_prev_stime :: ulong
  t_nvcsw :: ulong
  t_nivcsw :: ulong
  t_sched_exp :: u64 \<comment> \<open>\<open>cputime_expires.sched_exp\<close>\<close>
  t_signal :: nat
  t_sigpending :: bool \<comment> \<open>the thread flag TIF_SIGPENDING\<close>
  t_sigkill_pending :: bool \<comment> \<open>SIGKILL is in \<open>pending.signal\<close>\<close>
  t_need_resched :: bool \<comment> \<open>the thread flag TIF_NEED_RESCHED\<close>
  t_preempt_count :: u32 \<comment> \<open>\<open>thread_info.preempt_count\<close>\<close>

text \<open>The part of \<open>struct signal_struct\<close> the scheduler reads: the resource limits.\<close>

record cred =
  cr_user_ns :: nat
  cr_euid :: nat
  cr_uid :: nat

record signal_struct =
  sig_rlim_cur :: "nat \<Rightarrow> ulong"
  sig_rlim_max :: "nat \<Rightarrow> ulong"

record wrr_rq =
  wrr_nr_running :: ulong
  wrr_throttled :: int
  wrr_time :: u64
  wrr_runtime :: u64

record rt_rq =
  rtq_bitmap :: "nat \<Rightarrow> bool" \<comment> \<open>the bits of \<open>active.bitmap\<close>, MAX_RT_PRIO + 1 of them\<close>
  rtq_nr_running :: ulong
  rtq_highest_prio :: int \<comment> \<open>\<open>highest_prio.curr\<close>\<close>
  rtq_throttled :: int
  rtq_time :: u64
  rtq_runtime :: u64
  rtq_nr_boosted :: ulong

record rt_bandwidth =
  rtb_period :: u64 \<comment> \<open>ktime, in nanoseconds\<close>
  rtb_runtime :: u64

record task_group =
  tg_rt_bandwidth :: rt_bandwidth
  tg_shares :: ulong

record cpuacct =
  ca_cpuusage :: u64
  ca_cpustat :: "nat \<Rightarrow> u64"

record rq =
  rq_nr_running :: ulong
  rq_cpu_load :: "ulong list" \<comment> \<open>CPU_LOAD_IDX_MAX = 5 entries\<close>
  rq_last_load_update_tick :: ulong
  rq_skip_clock_update :: int
  rq_load :: load_weight
  rq_nr_load_updates :: ulong
  rq_nr_switches :: u64
  rq_wrr :: wrr_rq
  rq_nr_uninterruptible :: ulong
  rq_curr :: task_ptr
  rq_idle :: task_ptr
  rq_stop :: "task_ptr option"
  rq_prev_mm :: "nat option"
  rq_clock :: u64
  rq_clock_task :: u64
  rq_nr_iowait :: int
  rq_calc_load_update :: ulong
  rq_calc_load_active :: ulong
  rq_leaf_rt_rqs :: "tg_ptr list" \<comment> \<open>\<open>leaf_rt_rq_list\<close>, first entry first\<close>

section \<open>The state of the machine\<close>

text \<open>
  \<open>'x\<close> is the state of the code outside the repository (the clock, the fair class, the memory
  of the other subsystems). \<open>warns\<close> counts the WARN_ON reports.
\<close>

record 'x sys =
  tasks :: "task_ptr \<Rightarrow> task_struct"
  signals :: "nat \<Rightarrow> signal_struct"
  links :: "lnode links"
  the_rq :: rq
  rt_rqs :: "tg_ptr \<Rightarrow> rt_rq" \<comment> \<open>\<open>[]\<close> is \<open>rq->rt\<close>\<close>
  group_rt_ses :: "tg_ptr \<Rightarrow> sched_rt_entity"
  tgs :: "tg_ptr \<Rightarrow> task_group"
  cpuaccts :: "ca_ptr \<Rightarrow> cpuacct"
  sysctl_rt_period :: u32 \<comment> \<open>\<open>sysctl_sched_rt_period\<close>, microseconds\<close>
  sysctl_rt_runtime :: int \<comment> \<open>\<open>sysctl_sched_rt_runtime\<close>, microseconds\<close>
  avenrun :: "ulong list"
  calc_load_tasks :: ulong \<comment> \<open>an atomic long\<close>
  calc_load_update :: ulong
  calc_load_idle :: "nat \<Rightarrow> ulong" \<comment> \<open>two atomic longs\<close>
  calc_load_idx :: u32
  mm_counts :: "nat \<Rightarrow> int" \<comment> \<open>\<open>mm->mm_count\<close> of an address space\<close>
  kcpustat :: "nat \<Rightarrow> u64" \<comment> \<open>\<open>kcpustat_this_cpu->cpustat\<close>\<close>
  warns :: nat
  ext :: 'x

text \<open>
  \<open>struct sched_class\<close>: one scheduling class as a table of operations. The run queue argument
  is the state. An operation that can hit BUG or undefined behaviour returns an option, a
  pointer the core tests for NULL is an option.
\<close>

record 'x class_ops =
  co_next :: "sched_class option"
  co_enqueue_task :: "task_ptr \<Rightarrow> u32 \<Rightarrow> 'x sys \<Rightarrow> 'x sys"
  co_dequeue_task :: "task_ptr \<Rightarrow> u32 \<Rightarrow> 'x sys \<Rightarrow> 'x sys"
  co_yield_task :: "'x sys \<Rightarrow> 'x sys"
  co_check_preempt_curr :: "task_ptr \<Rightarrow> u32 \<Rightarrow> 'x sys \<Rightarrow> 'x sys"
  co_pick_next_task :: "'x sys \<Rightarrow> ('x sys \<times> task_ptr option) option"
  co_put_prev_task :: "task_ptr \<Rightarrow> 'x sys \<Rightarrow> 'x sys"
  co_set_curr_task :: "'x sys \<Rightarrow> 'x sys"
  co_task_tick :: "task_ptr \<Rightarrow> int \<Rightarrow> 'x sys \<Rightarrow> 'x sys"
  co_task_fork :: "(task_ptr \<Rightarrow> 'x sys \<Rightarrow> 'x sys) option"
  co_switched_from :: "(task_ptr \<Rightarrow> 'x sys \<Rightarrow> 'x sys) option"
  co_switched_to :: "task_ptr \<Rightarrow> 'x sys \<Rightarrow> 'x sys"
  co_prio_changed :: "task_ptr \<Rightarrow> int \<Rightarrow> 'x sys \<Rightarrow> 'x sys"
  co_get_rr_interval :: "(task_ptr \<Rightarrow> 'x sys \<Rightarrow> u32) option"
  co_task_move_group :: "(task_ptr \<Rightarrow> int \<Rightarrow> 'x sys \<Rightarrow> 'x sys) option"

section \<open>The environment\<close>

text \<open>
  Code that is not in the repository: the list header, the clock, cgroup paths and membership,
  the stop, fair and idle classes, and the configuration constant HZ.
\<close>

record 'x env =
  cfg_HZ :: nat
  klist :: "lnode klist_ops"
  x_sched_clock :: "'x \<Rightarrow> u64 \<times> 'x"
  x_cgroup_path :: "tg_ptr \<Rightarrow> string"
  x_cpuacct_active :: bool
  x_task_ca :: "'x \<Rightarrow> task_ptr \<Rightarrow> ca_ptr"
  x_class :: "sched_class \<Rightarrow> 'x class_ops" \<comment> \<open>the stop, fair and idle classes\<close>
  x_jiffies :: "'x \<Rightarrow> ulong"
  x_hrtimer_active :: "'x \<Rightarrow> tg_ptr \<Rightarrow> bool" \<comment> \<open>the group's bandwidth timer\<close>
  x_start_bandwidth_timer :: "tg_ptr \<Rightarrow> u64 \<Rightarrow> 'x \<Rightarrow> 'x"
  x_account_group_exec :: "task_ptr \<Rightarrow> u64 \<Rightarrow> 'x \<Rightarrow> 'x" \<comment> \<open>\<open>account_group_exec_runtime\<close>\<close>
  x_sched_clock_tick :: "'x \<Rightarrow> 'x"
  x_cfs_h_nr_running :: "'x \<Rightarrow> ulong" \<comment> \<open>\<open>rq->cfs.h_nr_running\<close>\<close>
  x_wq_worker_sleeping :: "task_ptr \<Rightarrow> 'x \<Rightarrow> task_ptr option \<times> 'x"
  x_wq_worker_waking_up :: "task_ptr \<Rightarrow> 'x \<Rightarrow> 'x"
  x_switch :: "task_ptr \<Rightarrow> task_ptr \<Rightarrow> 'x \<Rightarrow> 'x" \<comment> \<open>the architecture's part of a switch\<close>
  x_mm_free :: "nat \<Rightarrow> 'x \<Rightarrow> 'x" \<comment> \<open>\<open>__mmdrop\<close>\<close>
  x_task_free :: "task_ptr \<Rightarrow> 'x \<Rightarrow> 'x" \<comment> \<open>\<open>__put_task_struct\<close>\<close>
  x_rt_mutex_getprio :: "'x \<Rightarrow> task_ptr \<Rightarrow> int \<Rightarrow> int" \<comment> \<open>boosted priority, from the normal one\<close>
  x_rt_mutex_adjust_pi :: "task_ptr \<Rightarrow> 'x sys \<Rightarrow> 'x sys"
  x_pi_blocked_on :: "'x \<Rightarrow> task_ptr \<Rightarrow> bool"
  x_capable_nice :: "'x \<Rightarrow> task_ptr \<Rightarrow> bool" \<comment> \<open>the task has CAP_SYS_NICE\<close>
  x_cred :: "'x \<Rightarrow> task_ptr \<Rightarrow> cred"
  x_security_setscheduler :: "'x \<Rightarrow> task_ptr \<Rightarrow> int"
  x_security_setnice :: "'x \<Rightarrow> task_ptr \<Rightarrow> int \<Rightarrow> int"
  x_security_getscheduler :: "'x \<Rightarrow> task_ptr \<Rightarrow> int"
  x_find_task :: "'x \<Rightarrow> int \<Rightarrow> task_ptr option" \<comment> \<open>\<open>find_task_by_vpid\<close>\<close>
  x_in_interrupt :: "'x \<Rightarrow> bool"
  cfg_PREEMPT_ACTIVE :: u32
  x_find_first_bit :: "(nat \<Rightarrow> bool) \<Rightarrow> nat" \<comment> \<open>\<open>sched_find_first_bit\<close> on a bitmap of 101 bits\<close>

section \<open>Access and update\<close>

definition upd_task :: "task_ptr \<Rightarrow> (task_struct \<Rightarrow> task_struct) \<Rightarrow> 'x sys \<Rightarrow> 'x sys" where
  "upd_task p f s = s\<lparr>tasks := (tasks s)(p := f (tasks s p))\<rparr>"

definition upd_rq :: "(rq \<Rightarrow> rq) \<Rightarrow> 'x sys \<Rightarrow> 'x sys" where
  "upd_rq f s = s\<lparr>the_rq := f (the_rq s)\<rparr>"

definition upd_rt_rq :: "tg_ptr \<Rightarrow> (rt_rq \<Rightarrow> rt_rq) \<Rightarrow> 'x sys \<Rightarrow> 'x sys" where
  "upd_rt_rq g f s = s\<lparr>rt_rqs := (rt_rqs s)(g := f (rt_rqs s g))\<rparr>"

definition upd_links :: "(lnode links \<Rightarrow> lnode links) \<Rightarrow> 'x sys \<Rightarrow> 'x sys" where
  "upd_links f s = s\<lparr>links := f (links s)\<rparr>"

definition WARN_ON :: "bool \<Rightarrow> 'x sys \<Rightarrow> 'x sys" where
  "WARN_ON b s = (if b then s\<lparr>warns := Suc (warns s)\<rparr> else s)"

abbreviation curr :: "'x sys \<Rightarrow> task_ptr" where
  "curr s \<equiv> rq_curr (the_rq s)"

lemma upd_task_simps [simp]:
  "tasks (upd_task p f s) = (tasks s)(p := f (tasks s p))"
  "signals (upd_task p f s) = signals s"
  "links (upd_task p f s) = links s"
  "the_rq (upd_task p f s) = the_rq s"
  "rt_rqs (upd_task p f s) = rt_rqs s"
  "group_rt_ses (upd_task p f s) = group_rt_ses s"
  "tgs (upd_task p f s) = tgs s"
  "cpuaccts (upd_task p f s) = cpuaccts s"
  "sysctl_rt_period (upd_task p f s) = sysctl_rt_period s"
  "sysctl_rt_runtime (upd_task p f s) = sysctl_rt_runtime s"
  "avenrun (upd_task p f s) = avenrun s"
  "calc_load_tasks (upd_task p f s) = calc_load_tasks s"
  "calc_load_update (upd_task p f s) = calc_load_update s"
  "calc_load_idle (upd_task p f s) = calc_load_idle s"
  "calc_load_idx (upd_task p f s) = calc_load_idx s"
  "mm_counts (upd_task p f s) = mm_counts s"
  "kcpustat (upd_task p f s) = kcpustat s"
  "warns (upd_task p f s) = warns s"
  "ext (upd_task p f s) = ext s"
  by (simp_all add: upd_task_def)

lemma upd_task_twice: "upd_task p g (upd_task p f s) = upd_task p (\<lambda>t. g (f t)) s"
  by (simp add: upd_task_def)

lemma upd_task_cong: "f (tasks s p) = g (tasks s p) \<Longrightarrow> upd_task p f s = upd_task p g s"
  by (simp add: upd_task_def)

lemma upd_rq_simps [simp]:
  "tasks (upd_rq f s) = tasks s"
  "signals (upd_rq f s) = signals s"
  "links (upd_rq f s) = links s"
  "the_rq (upd_rq f s) = f (the_rq s)"
  "rt_rqs (upd_rq f s) = rt_rqs s"
  "group_rt_ses (upd_rq f s) = group_rt_ses s"
  "tgs (upd_rq f s) = tgs s"
  "cpuaccts (upd_rq f s) = cpuaccts s"
  "sysctl_rt_period (upd_rq f s) = sysctl_rt_period s"
  "sysctl_rt_runtime (upd_rq f s) = sysctl_rt_runtime s"
  "avenrun (upd_rq f s) = avenrun s"
  "calc_load_tasks (upd_rq f s) = calc_load_tasks s"
  "calc_load_update (upd_rq f s) = calc_load_update s"
  "calc_load_idle (upd_rq f s) = calc_load_idle s"
  "calc_load_idx (upd_rq f s) = calc_load_idx s"
  "mm_counts (upd_rq f s) = mm_counts s"
  "kcpustat (upd_rq f s) = kcpustat s"
  "warns (upd_rq f s) = warns s"
  "ext (upd_rq f s) = ext s"
  by (simp_all add: upd_rq_def)

lemma upd_rt_rq_simps [simp]:
  "tasks (upd_rt_rq g f s) = tasks s"
  "signals (upd_rt_rq g f s) = signals s"
  "links (upd_rt_rq g f s) = links s"
  "the_rq (upd_rt_rq g f s) = the_rq s"
  "rt_rqs (upd_rt_rq g f s) = (rt_rqs s)(g := f (rt_rqs s g))"
  "group_rt_ses (upd_rt_rq g f s) = group_rt_ses s"
  "tgs (upd_rt_rq g f s) = tgs s"
  "cpuaccts (upd_rt_rq g f s) = cpuaccts s"
  "sysctl_rt_period (upd_rt_rq g f s) = sysctl_rt_period s"
  "sysctl_rt_runtime (upd_rt_rq g f s) = sysctl_rt_runtime s"
  "avenrun (upd_rt_rq g f s) = avenrun s"
  "calc_load_tasks (upd_rt_rq g f s) = calc_load_tasks s"
  "calc_load_update (upd_rt_rq g f s) = calc_load_update s"
  "calc_load_idle (upd_rt_rq g f s) = calc_load_idle s"
  "calc_load_idx (upd_rt_rq g f s) = calc_load_idx s"
  "mm_counts (upd_rt_rq g f s) = mm_counts s"
  "kcpustat (upd_rt_rq g f s) = kcpustat s"
  "warns (upd_rt_rq g f s) = warns s"
  "ext (upd_rt_rq g f s) = ext s"
  by (simp_all add: upd_rt_rq_def)

lemma upd_links_simps [simp]:
  "tasks (upd_links f s) = tasks s"
  "signals (upd_links f s) = signals s"
  "links (upd_links f s) = f (links s)"
  "the_rq (upd_links f s) = the_rq s"
  "rt_rqs (upd_links f s) = rt_rqs s"
  "group_rt_ses (upd_links f s) = group_rt_ses s"
  "tgs (upd_links f s) = tgs s"
  "cpuaccts (upd_links f s) = cpuaccts s"
  "sysctl_rt_period (upd_links f s) = sysctl_rt_period s"
  "sysctl_rt_runtime (upd_links f s) = sysctl_rt_runtime s"
  "avenrun (upd_links f s) = avenrun s"
  "calc_load_tasks (upd_links f s) = calc_load_tasks s"
  "calc_load_update (upd_links f s) = calc_load_update s"
  "calc_load_idle (upd_links f s) = calc_load_idle s"
  "calc_load_idx (upd_links f s) = calc_load_idx s"
  "mm_counts (upd_links f s) = mm_counts s"
  "kcpustat (upd_links f s) = kcpustat s"
  "warns (upd_links f s) = warns s"
  "ext (upd_links f s) = ext s"
  by (simp_all add: upd_links_def)

lemma WARN_ON_simps [simp]:
  "tasks (WARN_ON b s) = tasks s"
  "signals (WARN_ON b s) = signals s"
  "links (WARN_ON b s) = links s"
  "the_rq (WARN_ON b s) = the_rq s"
  "rt_rqs (WARN_ON b s) = rt_rqs s"
  "group_rt_ses (WARN_ON b s) = group_rt_ses s"
  "tgs (WARN_ON b s) = tgs s"
  "cpuaccts (WARN_ON b s) = cpuaccts s"
  "sysctl_rt_period (WARN_ON b s) = sysctl_rt_period s"
  "sysctl_rt_runtime (WARN_ON b s) = sysctl_rt_runtime s"
  "avenrun (WARN_ON b s) = avenrun s"
  "calc_load_tasks (WARN_ON b s) = calc_load_tasks s"
  "calc_load_update (WARN_ON b s) = calc_load_update s"
  "calc_load_idle (WARN_ON b s) = calc_load_idle s"
  "calc_load_idx (WARN_ON b s) = calc_load_idx s"
  "mm_counts (WARN_ON b s) = mm_counts s"
  "kcpustat (WARN_ON b s) = kcpustat s"
  "warns (WARN_ON b s) = (if b then Suc (warns s) else warns s)"
  "ext (WARN_ON b s) = ext s"
  by (simp_all add: WARN_ON_def)

section \<open>Small helpers of the headers\<close>

text \<open>\<open>rt_policy\<close> and \<open>task_has_rt_policy\<close>.\<close>

definition rt_policy :: "int \<Rightarrow> bool" where
  "rt_policy policy = (if policy = SCHED_FIFO \<or> policy = SCHED_RR then True else False)"

definition task_has_rt_policy :: "task_struct \<Rightarrow> bool" where
  "task_has_rt_policy p = rt_policy (t_policy p)"

definition set_tsk_need_resched :: "task_ptr \<Rightarrow> 'x sys \<Rightarrow> 'x sys" where
  "set_tsk_need_resched p = upd_task p (t_need_resched_update (\<lambda>_. True))"

definition clear_tsk_need_resched :: "task_ptr \<Rightarrow> 'x sys \<Rightarrow> 'x sys" where
  "clear_tsk_need_resched p = upd_task p (t_need_resched_update (\<lambda>_. False))"

definition test_tsk_need_resched :: "task_ptr \<Rightarrow> 'x sys \<Rightarrow> bool" where
  "test_tsk_need_resched p s = t_need_resched (tasks s p)"

text \<open>\<open>resched_task\<close> of the uniprocessor build.\<close>

definition resched_task :: "task_ptr \<Rightarrow> 'x sys \<Rightarrow> 'x sys" where
  "resched_task p s = set_tsk_need_resched p s"

definition inc_nr_running :: "'x sys \<Rightarrow> 'x sys" where
  "inc_nr_running = upd_rq (rq_nr_running_update (\<lambda>n. n + 1))"

definition dec_nr_running :: "'x sys \<Rightarrow> 'x sys" where
  "dec_nr_running = upd_rq (rq_nr_running_update (\<lambda>n. n - 1))"

definition task_rlimit :: "'x sys \<Rightarrow> task_ptr \<Rightarrow> nat \<Rightarrow> ulong" where
  "task_rlimit s p limit = sig_rlim_cur (signals s (t_signal (tasks s p))) limit"

definition task_rlimit_max :: "'x sys \<Rightarrow> task_ptr \<Rightarrow> nat \<Rightarrow> ulong" where
  "task_rlimit_max s p limit = sig_rlim_max (signals s (t_signal (tasks s p))) limit"

definition task_current :: "'x sys \<Rightarrow> task_ptr \<Rightarrow> bool" where
  "task_current s p = (rq_curr (the_rq s) = p)"

lemmas need_resched_defs = set_tsk_need_resched_def clear_tsk_need_resched_def resched_task_def

section \<open>CPU accounting groups\<close>

definition parent_ca :: "ca_ptr \<Rightarrow> ca_ptr option" where
  "parent_ca ca = (case ca of [] \<Rightarrow> None | _ # up \<Rightarrow> Some up)"

text \<open>The loop of \<open>cpuacct_charge\<close> over the group and its ancestors.\<close>

function charge_groups :: "ca_ptr option \<Rightarrow> u64 \<Rightarrow> (ca_ptr \<Rightarrow> cpuacct) \<Rightarrow> ca_ptr \<Rightarrow> cpuacct" where
  "charge_groups None cputime m = m"
| "charge_groups (Some ca) cputime m =
     charge_groups (parent_ca ca) cputime
       (m(ca := (m ca)\<lparr>ca_cpuusage := ca_cpuusage (m ca) + cputime\<rparr>))"
  by pat_completeness auto
termination
  by (relation "measure (\<lambda>(c, _, _). case c of None \<Rightarrow> 0 | Some ca \<Rightarrow> Suc (length ca))")
    (auto simp: parent_ca_def split: list.splits)

definition cpuacct_charge :: "'x env \<Rightarrow> task_ptr \<Rightarrow> u64 \<Rightarrow> 'x sys \<Rightarrow> 'x sys" where
  "cpuacct_charge E tsk cputime s =
     (if \<not> x_cpuacct_active E then s
      else s\<lparr>cpuaccts := charge_groups (Some (x_task_ca E (ext s) tsk)) cputime (cpuaccts s)\<rparr>)"

lemma cpuacct_charge_simps [simp]:
  "tasks (cpuacct_charge E p d s) = tasks s"
  "signals (cpuacct_charge E p d s) = signals s"
  "links (cpuacct_charge E p d s) = links s"
  "the_rq (cpuacct_charge E p d s) = the_rq s"
  "rt_rqs (cpuacct_charge E p d s) = rt_rqs s"
  "group_rt_ses (cpuacct_charge E p d s) = group_rt_ses s"
  "tgs (cpuacct_charge E p d s) = tgs s"
  "sysctl_rt_period (cpuacct_charge E p d s) = sysctl_rt_period s"
  "sysctl_rt_runtime (cpuacct_charge E p d s) = sysctl_rt_runtime s"
  "avenrun (cpuacct_charge E p d s) = avenrun s"
  "calc_load_tasks (cpuacct_charge E p d s) = calc_load_tasks s"
  "calc_load_update (cpuacct_charge E p d s) = calc_load_update s"
  "calc_load_idle (cpuacct_charge E p d s) = calc_load_idle s"
  "calc_load_idx (cpuacct_charge E p d s) = calc_load_idx s"
  "mm_counts (cpuacct_charge E p d s) = mm_counts s"
  "kcpustat (cpuacct_charge E p d s) = kcpustat s"
  "warns (cpuacct_charge E p d s) = warns s"
  "ext (cpuacct_charge E p d s) = ext s"
  by (simp_all add: cpuacct_charge_def)

text \<open>A charge reaches exactly the group of the task and its ancestors, each once.\<close>

lemma charge_groups_usage:
  "ca_cpuusage (charge_groups (Some ca) d m g) =
     ca_cpuusage (m g) + (if suffix g ca then d else 0)"
proof (induction ca arbitrary: m)
  case Nil
  show ?case by (simp add: parent_ca_def)
next
  case (Cons x ca)
  have "\<not> suffix (x # ca) ca" by (auto dest: suffix_length_le)
  then show ?case
    by (subst charge_groups.simps(2)) (auto simp: parent_ca_def Cons suffix_Cons simp del: charge_groups.simps)
qed

section \<open>Order of the scheduling classes\<close>

text \<open>The rank of a class in the chain \<open>stop, rt, wrr, fair, idle\<close>; a smaller class goes first.\<close>

primrec class_rank :: "sched_class \<Rightarrow> nat" where
  "class_rank Stop_class = 0"
| "class_rank Rt_class = 1"
| "class_rank Wrr_class = 2"
| "class_rank Fair_class = 3"
| "class_rank Idle_class = 4"

lemma class_rank_inj: "class_rank a = class_rank b \<longleftrightarrow> a = b"
  by (cases a; cases b) auto

instantiation sched_class :: linorder
begin

definition less_eq_sched_class :: "sched_class \<Rightarrow> sched_class \<Rightarrow> bool" where
  "less_eq_sched_class a b \<longleftrightarrow> class_rank a \<le> class_rank b"

definition less_sched_class :: "sched_class \<Rightarrow> sched_class \<Rightarrow> bool" where
  "less_sched_class a b \<longleftrightarrow> class_rank a < class_rank b"

instance
  by standard (auto simp: less_eq_sched_class_def less_sched_class_def class_rank_inj)

end

end
