(* ===== verification/Sample.thy ===== *)
theory Sample
  imports Sched_Types
begin

text \<open>
  A small concrete machine for the witnesses: HZ is 100, the lists are those of \<open>ref_klist\<close>, the
  fair class is a plain FIFO kept in the external state, the idle class always offers the idle
  task, the stop class never has a task. It shows that the hypotheses of the properties can
  hold together; no property depends on it.
\<close>

record sample_ext =
  smp_now :: u64
  smp_fairq :: "task_ptr list"

definition noop_class :: "'x class_ops" where
  "noop_class = \<lparr>
     co_next = None, co_enqueue_task = (\<lambda>_ _ s. s), co_dequeue_task = (\<lambda>_ _ s. s),
     co_yield_task = (\<lambda>s. s), co_check_preempt_curr = (\<lambda>_ _ s. s),
     co_pick_next_task = (\<lambda>s. Some (s, None)), co_put_prev_task = (\<lambda>_ s. s),
     co_set_curr_task = (\<lambda>s. s), co_task_tick = (\<lambda>_ _ s. s), co_task_fork = None,
     co_switched_from = None, co_switched_to = (\<lambda>_ s. s), co_prio_changed = (\<lambda>_ _ s. s),
     co_get_rr_interval = None, co_task_move_group = None\<rparr>"

definition sample_fair :: "sample_ext class_ops" where
  "sample_fair = noop_class\<lparr>
     co_next := Some Idle_class,
     co_enqueue_task := (\<lambda>p _ s. inc_nr_running
       (s\<lparr>ext := smp_fairq_update (\<lambda>q. q @ [p]) (ext s)\<rparr>)),
     co_dequeue_task := (\<lambda>p _ s. dec_nr_running
       (s\<lparr>ext := smp_fairq_update (removeAll p) (ext s)\<rparr>)),
     co_pick_next_task := (\<lambda>s. Some (s, case smp_fairq (ext s) of [] \<Rightarrow> None | p # _ \<Rightarrow> Some p))\<rparr>"

definition sample_class :: "sched_class \<Rightarrow> sample_ext class_ops" where
  "sample_class c = (case c of
      Stop_class \<Rightarrow> noop_class\<lparr>co_next := Some Rt_class\<rparr>
    | Fair_class \<Rightarrow> sample_fair
    | _ \<Rightarrow> noop_class\<lparr>co_pick_next_task := (\<lambda>s. Some (s, Some (rq_idle (the_rq s))))\<rparr>)"

definition sample_env :: "sample_ext env" where
  "sample_env = \<lparr>
     cfg_HZ = 100, klist = ref_klist,
     x_sched_clock = (\<lambda>x. (smp_now x, x)),
     x_cgroup_path = (\<lambda>tg. if tg = [] then ''/'' else ''/bg''),
     x_cpuacct_active = True, x_task_ca = (\<lambda>_ p. if p = 2 then [7] else []),
     x_class = sample_class, x_jiffies = (\<lambda>_. 0), x_hrtimer_active = (\<lambda>_ _. True),
     x_start_bandwidth_timer = (\<lambda>_ _ x. x), x_account_group_exec = (\<lambda>_ _ x. x),
     x_sched_clock_tick = (\<lambda>x. x), x_cfs_h_nr_running = (\<lambda>x. of_nat (length (smp_fairq x))),
     x_wq_worker_sleeping = (\<lambda>_ x. (None, x)), x_wq_worker_waking_up = (\<lambda>_ x. x),
     x_switch = (\<lambda>_ _ x. x), x_mm_free = (\<lambda>_ x. x), x_task_free = (\<lambda>_ x. x),
     x_rt_mutex_getprio = (\<lambda>_ _ prio. prio), x_rt_mutex_adjust_pi = (\<lambda>_ s. s),
     x_pi_blocked_on = (\<lambda>_ _. False), x_capable_nice = (\<lambda>_ _. False),
     x_cred = (\<lambda>_ _. \<lparr>cr_user_ns = 0, cr_euid = 1000, cr_uid = 1000\<rparr>),
     x_security_setscheduler = (\<lambda>_ _. 0), x_security_setnice = (\<lambda>_ _ _. 0),
     x_security_getscheduler = (\<lambda>_ _. 0),
     x_find_task = (\<lambda>_ pid. if 0 < pid \<and> pid < 10 then Some (nat pid) else None),
     x_in_interrupt = (\<lambda>_. False), cfg_PREEMPT_ACTIVE = 0x40000000,
     x_find_first_bit = (\<lambda>b. case find b [0..<101] of None \<Rightarrow> 101 | Some i \<Rightarrow> i)\<rparr>"

definition sample_se :: sched_entity where
  "sample_se = \<lparr>se_load = \<lparr>lw_weight = 1024, lw_inv_weight = 4194304\<rparr>, se_on_rq = 0,
     se_exec_start = 0, se_sum_exec_runtime = 0, se_vruntime = 0, se_prev_sum_exec_runtime = 0,
     se_nr_migrations = 0, se_parent = None, se_cfs_rq = []\<rparr>"

definition sample_task :: task_struct where
  "sample_task = \<lparr>t_state = 0, t_usage = 2, t_flags = 0, t_on_rq = 0, t_prio = 120, t_static_prio = 120,
     t_normal_prio = 120, t_rt_priority = 0, t_sched_class = Fair_class, t_se = sample_se,
     t_rt = \<lparr>rse_timeout = 0, rse_time_slice = 10, rse_back = None, rse_parent = None,
             rse_rt_rq = []\<rparr>,
     t_wrr = \<lparr>wse_timeout = 0, wse_time_slice = 10, wse_back = None\<rparr>,
     t_sched_task_group = [], t_policy = SCHED_NORMAL, t_mm = Some 1, t_active_mm = Some 1,
     t_exit_state = 0, t_in_iowait = False, t_sched_reset_on_fork = False,
     t_sched_contributes_to_load = False, t_pid = 0, t_utime = 0, t_stime = 0,
     t_utimescaled = 0, t_stimescaled = 0, t_gtime = 0, t_prev_utime = 0, t_prev_stime = 0,
     t_nvcsw = 0, t_nivcsw = 0, t_sched_exp = 0, t_signal = 0, t_sigpending = False,
     t_sigkill_pending = False, t_need_resched = False,
     t_preempt_count = 0\<rparr>"

definition sample_wrr_task :: task_struct where
  "sample_wrr_task = sample_task\<lparr>t_policy := SCHED_WRR, t_sched_class := Wrr_class\<rparr>"

text \<open>Task 0 idles; tasks 1 and 2 are WRR tasks, 2 in a background group; the others are fair.\<close>

definition sample_tasks :: "task_ptr \<Rightarrow> task_struct" where
  "sample_tasks = (\<lambda>_. sample_task)
     (0 := sample_task\<lparr>t_sched_class := Idle_class, t_policy := SCHED_IDLE\<rparr>,
      1 := sample_wrr_task,
      2 := sample_wrr_task\<lparr>t_sched_task_group := [7],
             t_wrr := \<lparr>wse_timeout = 0, wse_time_slice = 1, wse_back = None\<rparr>\<rparr>)"

definition sample_rq :: rq where
  "sample_rq = \<lparr>rq_nr_running = 0, rq_cpu_load = [0, 0, 0, 0, 0], rq_last_load_update_tick = 0,
     rq_skip_clock_update = 0, rq_load = \<lparr>lw_weight = 0, lw_inv_weight = 0\<rparr>,
     rq_nr_load_updates = 0, rq_nr_switches = 0,
     rq_wrr = \<lparr>wrr_nr_running = 0, wrr_throttled = 0, wrr_time = 0, wrr_runtime = 0\<rparr>,
     rq_nr_uninterruptible = 0, rq_curr = 0, rq_idle = 0, rq_stop = None, rq_prev_mm = None,
     rq_clock = 0, rq_clock_task = 0, rq_nr_iowait = 0, rq_calc_load_update = 0,
     rq_calc_load_active = 0, rq_leaf_rt_rqs = []\<rparr>"

definition sample_rt_rq :: rt_rq where
  "sample_rt_rq = \<lparr>rtq_bitmap = (\<lambda>i. i = 100), rtq_nr_running = 0, rtq_highest_prio = 100,
     rtq_throttled = 0, rtq_time = 0, rtq_runtime = 950000000, rtq_nr_boosted = 0\<rparr>"

text \<open>Every list head is initialised and empty.\<close>

definition sample_sys :: "sample_ext sys" where
  "sample_sys = \<lparr>tasks = sample_tasks,
     signals = (\<lambda>_. \<lparr>sig_rlim_cur = (\<lambda>_. - 1), sig_rlim_max = (\<lambda>_. - 1)\<rparr>),
     links = (\<lambda>n. \<lparr>lh_next = n, lh_prev = n\<rparr>), the_rq = sample_rq,
     rt_rqs = (\<lambda>_. sample_rt_rq),
     group_rt_ses = (\<lambda>_. \<lparr>rse_timeout = 0, rse_time_slice = 0, rse_back = None,
       rse_parent = None, rse_rt_rq = []\<rparr>),
     tgs = (\<lambda>_. \<lparr>tg_rt_bandwidth = \<lparr>rtb_period = 1000000000, rtb_runtime = 950000000\<rparr>, tg_shares = 1024\<rparr>),
     cpuaccts = (\<lambda>_. \<lparr>ca_cpuusage = 0, ca_cpustat = (\<lambda>_. 0)\<rparr>),
     sysctl_rt_period = 1000000, sysctl_rt_runtime = 950000, avenrun = [0, 0, 0],
     calc_load_tasks = 0, calc_load_update = 0, calc_load_idle = (\<lambda>_. 0), calc_load_idx = 0,
     mm_counts = (\<lambda>_. 1), kcpustat = (\<lambda>_. 0), warns = 0, ext = \<lparr>smp_now = 0, smp_fairq = []\<rparr>\<rparr>"

lemmas sample_defs = sample_env_def sample_sys_def sample_rq_def sample_tasks_def
  sample_wrr_task_def sample_task_def sample_se_def sample_rt_rq_def

lemma sample_env_simps [simp]:
  "cfg_HZ sample_env = 100" "x_jiffies sample_env x = 0"
  "x_sched_clock sample_env x = (smp_now x, x)" "x_class sample_env = sample_class"
  "x_cfs_h_nr_running sample_env x = of_nat (length (smp_fairq x))"
  "x_cpuacct_active sample_env" "x_rt_mutex_getprio sample_env x p prio = prio"
  "x_rt_mutex_adjust_pi sample_env p s = s" "x_security_setscheduler sample_env x p = 0"
  "x_switch sample_env p q x = x" "x_mm_free sample_env m x = x" "x_task_free sample_env p x = x"
  "x_hrtimer_active sample_env x g" "x_account_group_exec sample_env p d x = x"
  "\<not> x_in_interrupt sample_env x" "cfg_PREEMPT_ACTIVE sample_env = 0x40000000"
  "x_wq_worker_waking_up sample_env p x = x" "x_sched_clock_tick sample_env x = x"
  by (simp_all add: sample_env_def)

lemma sample_klist_ok [simp]: "klist_ok (klist sample_env)"
  by (simp add: sample_env_def ref_klist_ok)

end
