(* ===== verification/Load_Avg.thy ===== *)
theory Load_Avg
  imports Sample
begin

text \<open>
  The load averages of \<open>Prj2/kernel/sched/core.c\<close>: the global estimate \<open>avenrun\<close> with its
  tickless (CONFIG_NO_HZ) bookkeeping, and the processor's \<open>cpu_load\<close> array. All arithmetic is
  on 32-bit unsigned longs. The theory shows that the folding of per-processor deltas loses no
  task, that the fixed-point averages stay between the old value and the new load, and that the
  processor load strictly approaches the current load.
\<close>

section \<open>Fixed-point averages\<close>

definition FSHIFT :: nat where "FSHIFT = 11"
definition FIXED_1 :: ulong where "FIXED_1 = push_bit FSHIFT 1"
definition LOAD_FREQ :: "'x env \<Rightarrow> ulong" where "LOAD_FREQ E = of_nat (5 * cfg_HZ E + 1)"
definition EXP_1 :: ulong where "EXP_1 = 1884"
definition EXP_5 :: ulong where "EXP_5 = 2014"
definition EXP_15 :: ulong where "EXP_15 = 2037"

text \<open>\<open>time_before(a, b)\<close> of the jiffies header: the wrapping difference is negative.\<close>

definition time_before :: "ulong \<Rightarrow> ulong \<Rightarrow> bool" where
  "time_before a b = (sint (a - b) < 0)"

definition get_avenrun :: "'x sys \<Rightarrow> ulong \<Rightarrow> nat \<Rightarrow> ulong list" where
  "get_avenrun s offset shift =
     [push_bit shift (avenrun s ! 0 + offset), push_bit shift (avenrun s ! 1 + offset),
      push_bit shift (avenrun s ! 2 + offset)]"

definition calc_load :: "ulong \<Rightarrow> ulong \<Rightarrow> ulong \<Rightarrow> ulong" where
  "calc_load load e active =
     (let load = load * e;
          load = load + active * (FIXED_1 - e);
          load = load + push_bit (FSHIFT - 1) 1
      in drop_bit FSHIFT load)"

text \<open>The loop of \<open>fixed_power_int\<close>, entered with \<open>n \<noteq> 0\<close>.\<close>

function fixed_power_loop :: "ulong \<Rightarrow> ulong \<Rightarrow> nat \<Rightarrow> nat \<Rightarrow> ulong" where
  "fixed_power_loop result x frac_bits n =
     (let result = (if odd n
                    then drop_bit frac_bits (result * x + push_bit (frac_bits - 1) 1) else result);
          n = n div 2
      in if n = 0 then result
         else fixed_power_loop result (drop_bit frac_bits (x * x + push_bit (frac_bits - 1) 1))
                frac_bits n)"
  by pat_completeness auto
termination
  by (relation "measure (\<lambda>(_, _, _, n). n)") auto

declare fixed_power_loop.simps [simp del]

definition fixed_power_int :: "ulong \<Rightarrow> nat \<Rightarrow> u32 \<Rightarrow> ulong" where
  "fixed_power_int x frac_bits n =
     (let result = push_bit frac_bits 1
      in if n \<noteq> 0 then fixed_power_loop result x frac_bits (unat n) else result)"

definition calc_load_n :: "ulong \<Rightarrow> ulong \<Rightarrow> ulong \<Rightarrow> u32 \<Rightarrow> ulong" where
  "calc_load_n load e active n = calc_load load (fixed_power_int e FSHIFT n) active"

section \<open>Folding the processor's active count\<close>

definition calc_load_fold_active :: "'x sys \<Rightarrow> 'x sys \<times> ulong" where
  "calc_load_fold_active s =
     (let nr_active = rq_nr_running (the_rq s);
          nr_active = nr_active + rq_nr_uninterruptible (the_rq s)
      in if nr_active \<noteq> rq_calc_load_active (the_rq s) then
           (upd_rq (rq_calc_load_active_update (\<lambda>_. nr_active)) s,
            nr_active - rq_calc_load_active (the_rq s))
         else (s, 0))"

definition calc_load_write_idx :: "'x env \<Rightarrow> 'x sys \<Rightarrow> nat" where
  "calc_load_write_idx E s =
     (let idx = calc_load_idx s;
          idx = (if \<not> time_before (x_jiffies E (ext s)) (calc_load_update s) then idx + 1 else idx)
      in unat (and idx 1))"

definition calc_load_read_idx :: "'x sys \<Rightarrow> nat" where
  "calc_load_read_idx s = unat (and (calc_load_idx s) 1)"

definition calc_load_enter_idle :: "'x env \<Rightarrow> 'x sys \<Rightarrow> 'x sys" where
  "calc_load_enter_idle E s =
     (let (s, delta) = calc_load_fold_active s
      in if delta \<noteq> 0 then
           let idx = calc_load_write_idx E s
           in s\<lparr>calc_load_idle := (calc_load_idle s)(idx := calc_load_idle s idx + delta)\<rparr>
         else s)"

definition calc_load_exit_idle :: "'x env \<Rightarrow> 'x sys \<Rightarrow> 'x sys" where
  "calc_load_exit_idle E s =
     (if time_before (x_jiffies E (ext s)) (rq_calc_load_update (the_rq s)) then s
      else
        let s = upd_rq (rq_calc_load_update_update (\<lambda>_. calc_load_update s)) s
        in if time_before (x_jiffies E (ext s)) (rq_calc_load_update (the_rq s) + 10)
           then upd_rq (rq_calc_load_update_update (\<lambda>u. u + LOAD_FREQ E)) s else s)"

definition calc_load_fold_idle :: "'x sys \<Rightarrow> 'x sys \<times> ulong" where
  "calc_load_fold_idle s =
     (let idx = calc_load_read_idx s
      in if calc_load_idle s idx \<noteq> 0 then
           (s\<lparr>calc_load_idle := (calc_load_idle s)(idx := 0)\<rparr>, calc_load_idle s idx)
         else (s, 0))"

text \<open>The signed test \<open>active > 0 ? active * FIXED_1 : 0\<close>.\<close>

definition active_load :: "ulong \<Rightarrow> ulong" where
  "active_load active = (if 0 < sint active then active * FIXED_1 else 0)"

definition calc_global_nohz :: "'x env \<Rightarrow> 'x sys \<Rightarrow> 'x sys" where
  "calc_global_nohz E s =
     (let s = (if \<not> time_before (x_jiffies E (ext s)) (calc_load_update s + 10) then
                 let delta = x_jiffies E (ext s) - calc_load_update s - 10;
                     n = 1 + c_div (sint delta) (sint (LOAD_FREQ E));
                     active = active_load (calc_load_tasks s)
                 in s\<lparr>avenrun := [calc_load_n (avenrun s ! 0) EXP_1 active (of_int n),
                                  calc_load_n (avenrun s ! 1) EXP_5 active (of_int n),
                                  calc_load_n (avenrun s ! 2) EXP_15 active (of_int n)],
                      calc_load_update := calc_load_update s + of_int n * LOAD_FREQ E\<rparr>
               else s)
      in s\<lparr>calc_load_idx := calc_load_idx s + 1\<rparr>)"

definition calc_global_load :: "'x env \<Rightarrow> 'x sys \<Rightarrow> 'x sys" where
  "calc_global_load E s =
     (if time_before (x_jiffies E (ext s)) (calc_load_update s + 10) then s
      else
        let (s, delta) = calc_load_fold_idle s;
            s = (if delta \<noteq> 0 then s\<lparr>calc_load_tasks := calc_load_tasks s + delta\<rparr> else s);
            active = active_load (calc_load_tasks s);
            s = s\<lparr>avenrun := [calc_load (avenrun s ! 0) EXP_1 active,
                              calc_load (avenrun s ! 1) EXP_5 active,
                              calc_load (avenrun s ! 2) EXP_15 active]\<rparr>;
            s = s\<lparr>calc_load_update := calc_load_update s + LOAD_FREQ E\<rparr>
        in calc_global_nohz E s)"

definition calc_load_account_active :: "'x env \<Rightarrow> 'x sys \<Rightarrow> 'x sys" where
  "calc_load_account_active E s =
     (if time_before (x_jiffies E (ext s)) (rq_calc_load_update (the_rq s)) then s
      else
        let (s, delta) = calc_load_fold_active s;
            s = (if delta \<noteq> 0 then s\<lparr>calc_load_tasks := calc_load_tasks s + delta\<rparr> else s)
        in upd_rq (rq_calc_load_update_update (\<lambda>u. u + LOAD_FREQ E)) s)"

section \<open>The processor load\<close>

definition CPU_LOAD_IDX_MAX :: nat where "CPU_LOAD_IDX_MAX = 5"
definition DEGRADE_SHIFT :: nat where "DEGRADE_SHIFT = 7"

definition degrade_zero_ticks :: "ulong list" where
  "degrade_zero_ticks = [0, 8, 32, 64, 128]"

text \<open>Rows 2 to 4 of the C table have seven initialisers; the eighth element is 0.\<close>

definition degrade_factor :: "ulong list list" where
  "degrade_factor =
     [[0, 0, 0, 0, 0, 0, 0, 0],
      [64, 32, 8, 0, 0, 0, 0, 0],
      [96, 72, 40, 12, 1, 0, 0, 0],
      [112, 98, 75, 43, 15, 1, 0, 0],
      [120, 112, 98, 76, 45, 16, 2, 0]]"

text \<open>The loop of \<open>decay_load_missed\<close>; a table access out of range is None.\<close>

function decay_loop :: "ulong \<Rightarrow> nat \<Rightarrow> nat \<Rightarrow> nat \<Rightarrow> ulong option" where
  "decay_loop load missed idx j =
     (if missed = 0 then Some load
      else if missed mod 2 \<noteq> 0 then
        (if idx < length degrade_factor \<and> j < length (degrade_factor ! idx)
         then decay_loop (drop_bit DEGRADE_SHIFT (load * degrade_factor ! idx ! j))
                (missed div 2) idx (Suc j)
         else None)
      else decay_loop load (missed div 2) idx (Suc j))"
  by pat_completeness auto
termination
  by (relation "measure (\<lambda>(_, missed, _, _). missed)") auto

declare decay_loop.simps [simp del]

definition decay_load_missed :: "ulong \<Rightarrow> ulong \<Rightarrow> nat \<Rightarrow> ulong option" where
  "decay_load_missed load missed_updates idx =
     (if missed_updates = 0 then Some load
      else if degrade_zero_ticks ! idx \<le> missed_updates then Some 0
      else if idx = 1 then Some (drop_bit (unat missed_updates) load)
      else decay_loop load (unat missed_updates) idx 0)"

text \<open>The new value at one index, and the loop over the indices \<open>i, i + 1, \<dots>, 4\<close>.\<close>

definition cpu_load_step :: "ulong \<Rightarrow> ulong \<Rightarrow> nat \<Rightarrow> ulong \<Rightarrow> ulong" where
  "cpu_load_step old_load this_load i scale =
     (let new_load = this_load;
          new_load = (if old_load < new_load then new_load + (scale - 1) else new_load)
      in drop_bit i (old_load * (scale - 1) + new_load))"

function cpu_load_loop ::
  "ulong list \<Rightarrow> ulong \<Rightarrow> ulong \<Rightarrow> nat \<Rightarrow> ulong \<Rightarrow> ulong list option" where
  "cpu_load_loop loads this_load pending i scale =
     (if i < CPU_LOAD_IDX_MAX then
        (case decay_load_missed (loads ! i) (pending - 1) i of
           None \<Rightarrow> None
         | Some old_load \<Rightarrow>
             cpu_load_loop (loads[i := cpu_load_step old_load this_load i scale])
               this_load pending (Suc i) (scale + scale))
      else Some loads)"
  by pat_completeness auto
termination
  by (relation "measure (\<lambda>(_, _, _, i, _). CPU_LOAD_IDX_MAX - i)") auto

declare cpu_load_loop.simps [simp del]

definition update_cpu_load :: "'x env \<Rightarrow> 'x sys \<Rightarrow> 'x sys option" where
  "update_cpu_load E s =
     (let this_load = lw_weight (rq_load (the_rq s));
          curr_jiffies = x_jiffies E (ext s);
          s = upd_rq (rq_nr_load_updates_update (\<lambda>n. n + 1)) s
      in if curr_jiffies = rq_last_load_update_tick (the_rq s) then Some s
         else
           let pending = curr_jiffies - rq_last_load_update_tick (the_rq s);
               s = upd_rq (rq_last_load_update_tick_update (\<lambda>_. curr_jiffies)) s;
               s = upd_rq (rq_cpu_load_update (\<lambda>l. l[0 := this_load])) s
           in case cpu_load_loop (rq_cpu_load (the_rq s)) this_load pending 1 2 of
                None \<Rightarrow> None
              | Some l \<Rightarrow> Some (upd_rq (rq_cpu_load_update (\<lambda>_. l)) s))"

definition update_cpu_load_active :: "'x env \<Rightarrow> 'x sys \<Rightarrow> 'x sys option" where
  "update_cpu_load_active E s = map_option (calc_load_account_active E) (update_cpu_load E s)"

section \<open>Counters of the run queue\<close>

definition nr_running :: "'x sys \<Rightarrow> ulong" where
  "nr_running s = 0 + rq_nr_running (the_rq s)"

definition nr_uninterruptible :: "'x sys \<Rightarrow> ulong" where
  "nr_uninterruptible s =
     (let sum = 0 + rq_nr_uninterruptible (the_rq s) in if sint sum < 0 then 0 else sum)"

definition nr_context_switches :: "'x sys \<Rightarrow> u64" where
  "nr_context_switches s = 0 + rq_nr_switches (the_rq s)"

definition nr_iowait :: "'x sys \<Rightarrow> ulong" where
  "nr_iowait s = 0 + of_int (rq_nr_iowait (the_rq s))"

definition this_cpu_load :: "'x sys \<Rightarrow> ulong" where
  "this_cpu_load s = rq_cpu_load (the_rq s) ! 0"

section \<open>Arithmetic without overflow\<close>

lemma unat_FIXED_1: "unat FIXED_1 = 2048"
  by (simp add: FIXED_1_def FSHIFT_def)

text \<open>A rounded average of two numbers lies between them.\<close>

lemma rounded_average_bounds:
  fixes a b w t :: nat
  assumes "w \<le> t" and "0 < t"
  shows "min a b \<le> (a * w + b * (t - w) + t div 2) div t"
    and "(a * w + b * (t - w) + t div 2) div t \<le> max a b"
proof -
  have t: "x * w + x * (t - w) = x * t" for x
    using assms(1) by (metis add_mult_distrib2 le_add_diff_inverse)
  have "min a b * t \<le> a * w + b * (t - w)"
    unfolding t [symmetric] by (intro add_mono mult_right_mono) auto
  then have "min a b * t \<le> a * w + b * (t - w) + t div 2" by simp
  then show "min a b \<le> (a * w + b * (t - w) + t div 2) div t"
    using assms(2) by (simp add: less_eq_div_iff_mult_less_eq)
  have "a * w + b * (t - w) \<le> max a b * t"
    unfolding t [symmetric] by (intro add_mono mult_right_mono) auto
  moreover have "t div 2 < t" using assms(2) by simp
  ultimately have "a * w + b * (t - w) + t div 2 < Suc (max a b) * t" by simp
  then have "(a * w + b * (t - w) + t div 2) div t < Suc (max a b)"
    using assms(2) by (simp add: div_less_iff_less_mult)
  then show "(a * w + b * (t - w) + t div 2) div t \<le> max a b" by simp
qed

lemma calc_load_unat:
  assumes "unat load < 2 ^ 21" and "unat active < 2 ^ 21" and "unat e \<le> 2048"
  shows "unat (calc_load load e active) =
    (unat load * unat e + unat active * (2048 - unat e) + 1024) div 2048"
proof -
  define a b w where "a = unat load" and "b = unat active" and "w = unat e"
  have bnd: "a < 2097152" "b < 2097152" "w \<le> 2048" using assms by (simp_all add: a_def b_def w_def)
  have "a * w + b * (2048 - w) \<le> 2097151 * w + 2097151 * (2048 - w)"
    using bnd by (intro add_mono mult_right_mono) auto
  also have "\<dots> = 2097151 * 2048" using bnd(3) by simp
  finally have sum: "a * w + b * (2048 - w) \<le> 4294965248" by simp
  have 1: "unat (load * e) = a * w"
    using sum by (subst unat_mult_small) (simp_all add: a_def w_def)
  have 2: "unat (FIXED_1 - e) = 2048 - w"
    using bnd(3) unat_FIXED_1 by (simp add: unat_sub word_le_nat_alt w_def)
  have 3: "unat (active * (FIXED_1 - e)) = b * (2048 - w)"
    using sum 2 by (subst unat_mult_small) (simp_all add: b_def)
  have 4: "unat (load * e + active * (FIXED_1 - e)) = a * w + b * (2048 - w)"
    using sum 1 3 by (subst unat_add_small) simp_all
  have "unat (load * e + active * (FIXED_1 - e) + push_bit 10 1) = a * w + b * (2048 - w) + 1024"
    using sum 4 by (subst unat_add_small) simp_all
  then show ?thesis
    by (simp add: calc_load_def FSHIFT_def unat_drop a_def b_def w_def)
qed

lemma calc_load_between:
  assumes "unat load < 2 ^ 21" and "unat active < 2 ^ 21" and "unat e \<le> 2048"
  shows "min (unat load) (unat active) \<le> unat (calc_load load e active)"
    and "unat (calc_load load e active) \<le> max (unat load) (unat active)"
  using rounded_average_bounds [of "unat e" 2048 "unat load" "unat active"] assms(3)
  unfolding calc_load_unat [OF assms] by simp_all

section \<open>The binary power\<close>

text \<open>One rounded multiplication, on numbers that stay at most 1 in fixed point.\<close>

lemma fixed_mult_bound:
  assumes "unat r \<le> 2 ^ f" and "unat x \<le> 2 ^ f" and "0 < f" and "f \<le> 15"
  shows "unat (drop_bit f (r * x + push_bit (f - 1) 1) :: ulong) =
      (unat r * unat x + 2 ^ (f - 1)) div 2 ^ f"
    and "unat (drop_bit f (r * x + push_bit (f - 1) 1) :: ulong) \<le> 2 ^ f"
proof -
  have rx: "unat r * unat x \<le> 2 ^ f * 2 ^ f" by (rule mult_mono) (use assms in auto)
  have "(2 :: nat) ^ f \<le> 2 ^ 15" using assms(4) by (intro power_increasing) auto
  then have f: "(2 :: nat) ^ f \<le> 32768" by simp
  have "(2 :: nat) ^ f * 2 ^ f \<le> 32768 * 32768" by (rule mult_mono) (use f in auto)
  with rx have small: "unat r * unat x \<le> 1073741824" by simp
  have "(2 :: nat) ^ (f - 1) \<le> 2 ^ f" by (rule power_increasing) auto
  with f have half: "(2 :: nat) ^ (f - 1) \<le> 32768" by linarith
  have p: "unat (push_bit (f - 1) 1 :: ulong) = 2 ^ (f - 1)"
    using assms(4) by (intro unat_push_bit_1) simp
  have m: "unat (r * x) = unat r * unat x"
    by (rule unat_mult_small) (use small in simp)
  have "unat (r * x + push_bit (f - 1) 1) = unat r * unat x + 2 ^ (f - 1)"
    using small half p by (subst unat_add_small) (simp_all add: m)
  then show eq: "unat (drop_bit f (r * x + push_bit (f - 1) 1) :: ulong) =
      (unat r * unat x + 2 ^ (f - 1)) div 2 ^ f"
    by (simp add: unat_drop)
  have "(2 :: nat) ^ (f - 1) < 2 ^ f" using assms(3) by (intro power_strict_increasing) auto
  from add_le_less_mono [OF rx this]
  have "unat r * unat x + 2 ^ (f - 1) < Suc (2 ^ f) * 2 ^ f" by (simp add: add.commute)
  then show "unat (drop_bit f (r * x + push_bit (f - 1) 1) :: ulong) \<le> 2 ^ f"
    unfolding eq by (simp add: div_less_iff_less_mult flip: less_Suc_eq_le)
qed

lemma fixed_power_loop_bound:
  "unat r \<le> 2 ^ f \<Longrightarrow> unat x \<le> 2 ^ f \<Longrightarrow> 0 < f \<Longrightarrow> f \<le> 15 \<Longrightarrow>
   unat (fixed_power_loop r x f n) \<le> 2 ^ f"
proof (induction r x f n rule: fixed_power_loop.induct)
  case (1 r x f n)
  define r' where "r' = (if odd n then drop_bit f (r * x + push_bit (f - 1) 1) else r)"
  have r': "unat r' \<le> 2 ^ f"
    using 1(2-) fixed_mult_bound(2) [of r f x] by (simp add: r'_def)
  have x': "unat (drop_bit f (x * x + push_bit (f - 1) 1)) \<le> 2 ^ f"
    using 1(2-) by (intro fixed_mult_bound(2)) auto
  show ?case
    using 1(1) [OF r'_def refl _ r' x' 1(4,5)] r'
    by (subst fixed_power_loop.simps) (simp add: Let_def flip: r'_def)
qed

lemma fixed_power_int_bound:
  assumes "unat x \<le> 2 ^ f" and "0 < f" and "f \<le> 15"
  shows "unat (fixed_power_int x f n) \<le> 2 ^ f"
proof -
  have "unat (push_bit f 1 :: ulong) = 2 ^ f"
    using assms(3) by (intro unat_push_bit_1) simp
  then show ?thesis
    using assms fixed_power_loop_bound [of "push_bit f 1" f x]
    by (simp add: fixed_power_int_def Let_def)
qed

lemma calc_load_n_between:
  assumes "unat load < 2 ^ 21" and "unat active < 2 ^ 21" and "unat e \<le> 2048"
  shows "min (unat load) (unat active) \<le> unat (calc_load_n load e active n)"
    and "unat (calc_load_n load e active n) \<le> max (unat load) (unat active)"
proof -
  have "unat (fixed_power_int e FSHIFT n) \<le> 2 ^ FSHIFT"
    using assms(3) by (intro fixed_power_int_bound) (simp_all add: FSHIFT_def)
  then have "unat (fixed_power_int e FSHIFT n) \<le> 2048" by (simp add: FSHIFT_def)
  from calc_load_between [OF assms(1,2) this]
  show "min (unat load) (unat active) \<le> unat (calc_load_n load e active n)"
    "unat (calc_load_n load e active n) \<le> max (unat load) (unat active)"
    by (simp_all add: calc_load_n_def)
qed

section \<open>No load is lost\<close>

text \<open>
  The invariant of the delta folding on one processor: what has been folded, into the global
  count or into one of the two idle counters, adds up to the count the processor last reported.
\<close>

definition load_inv :: "'x sys \<Rightarrow> bool" where
  "load_inv s \<longleftrightarrow>
     calc_load_tasks s + calc_load_idle s 0 + calc_load_idle s 1 = rq_calc_load_active (the_rq s)"

lemma idx_cases: "unat (and (w :: u32) 1) = 0 \<or> unat (and w 1) = 1"
proof -
  have "and w 1 = of_bool (odd w)" by (simp add: and_one_eq odd_iff_mod_2_eq_one)
  then show ?thesis by (cases "odd w") auto
qed

lemma write_idx_cases: "calc_load_write_idx E s = 0 \<or> calc_load_write_idx E s = 1"
  unfolding calc_load_write_idx_def Let_def by (rule idx_cases)

lemma fold_active_spec:
  assumes "calc_load_fold_active s = (s', d)" and "load_inv s"
  shows "calc_load_tasks s' + calc_load_idle s' 0 + calc_load_idle s' 1 + d =
      rq_calc_load_active (the_rq s')"
  using assms by (auto simp: calc_load_fold_active_def load_inv_def Let_def split: if_splits)

lemma load_inv_add_idle:
  assumes "calc_load_tasks s + calc_load_idle s 0 + calc_load_idle s 1 + d =
      rq_calc_load_active (the_rq s)" and "i = 0 \<or> i = 1"
  shows "load_inv (s\<lparr>calc_load_idle := (calc_load_idle s)(i := calc_load_idle s i + d)\<rparr>)"
  using assms(2)
proof
  assume "i = 0"
  then show ?thesis using assms(1) by (simp add: load_inv_def ac_simps)
next
  assume "i = 1"
  then show ?thesis using assms(1) by (simp add: load_inv_def ac_simps)
qed

lemma load_inv_enter_idle:
  assumes "load_inv s"
  shows "load_inv (calc_load_enter_idle E s)"
proof -
  obtain s' d where f: "calc_load_fold_active s = (s', d)" by fastforce
  note sum = fold_active_spec [OF f assms]
  show ?thesis
    using load_inv_add_idle [OF sum write_idx_cases [of E s']] sum
    by (cases "d = 0") (simp_all add: calc_load_enter_idle_def f Let_def)
qed

lemma load_inv_exit_idle: "load_inv s \<Longrightarrow> load_inv (calc_load_exit_idle E s)"
  by (simp add: load_inv_def calc_load_exit_idle_def Let_def)

lemma load_inv_account:
  assumes "load_inv s"
  shows "load_inv (calc_load_account_active E s)"
proof (cases "time_before (x_jiffies E (ext s)) (rq_calc_load_update (the_rq s))")
  case False
  obtain s' d where f: "calc_load_fold_active s = (s', d)" by fastforce
  show ?thesis
    using fold_active_spec [OF f assms] False
    by (cases "d = 0") (simp_all add: calc_load_account_active_def f Let_def load_inv_def ac_simps)
qed (use assms in \<open>simp add: calc_load_account_active_def\<close>)

lemma load_inv_nohz: "load_inv (calc_global_nohz E s) \<longleftrightarrow> load_inv s"
  by (simp add: load_inv_def calc_global_nohz_def Let_def)

lemma load_inv_global:
  assumes "load_inv s"
  shows "load_inv (calc_global_load E s)"
proof (cases "time_before (x_jiffies E (ext s)) (calc_load_update s + 10)")
  case False
  define i where "i = calc_load_read_idx s"
  have i: "i = 0 \<or> i = 1" unfolding i_def calc_load_read_idx_def by (rule idx_cases)
  then have sum: "calc_load_tasks s + calc_load_idle s i + ((calc_load_idle s)(i := 0)) 0 +
      ((calc_load_idle s)(i := 0)) 1 = rq_calc_load_active (the_rq s)"
    using assms by (auto simp: load_inv_def ac_simps)
  have "(calc_load_idle s)(i := 0) = calc_load_idle s" if "calc_load_idle s i = 0"
    using that by (simp add: fun_upd_idem)
  then show ?thesis
    using False sum assms
    by (cases "calc_load_idle s i = 0")
      (simp_all add: calc_global_load_def calc_load_fold_idle_def load_inv_nohz Let_def
        flip: i_def, simp_all add: load_inv_def)
qed (use assms in \<open>simp add: calc_global_load_def\<close>)

section \<open>Decay of the processor load\<close>

lemma degrade_row: "idx < 5 \<Longrightarrow> idx < length degrade_factor \<and> length (degrade_factor ! idx) = 8"
  by (auto simp: degrade_factor_def less_Suc_eq numeral_eq_Suc nth_Cons')

lemma degrade_entry_list:
  "\<forall>row \<in> set degrade_factor. \<forall>w \<in> set row. unat w \<le> 128"
  by (simp add: degrade_factor_def)

lemma degrade_entry: "idx < 5 \<Longrightarrow> j < 8 \<Longrightarrow> unat (degrade_factor ! idx ! j) \<le> 128"
  using degrade_row [of idx] degrade_entry_list by (metis nth_mem)

lemma decay_step:
  assumes "unat load < 2 ^ 25" and "idx < 5" and "j < 8"
  shows "unat (drop_bit DEGRADE_SHIFT (load * degrade_factor ! idx ! j)) \<le> unat load"
proof -
  let ?w = "degrade_factor ! idx ! j"
  have w: "unat ?w \<le> 128" by (rule degrade_entry [OF assms(2,3)])
  have p: "unat load * unat ?w \<le> unat load * 128" using w by simp
  moreover have "unat load < 33554432" using assms(1) by simp
  ultimately have "unat load * unat ?w < 4294967296" by linarith
  then have "unat (load * ?w) = unat load * unat ?w" by (intro unat_mult_small) simp
  then have "unat (drop_bit DEGRADE_SHIFT (load * ?w)) = unat load * unat ?w div 128"
    by (simp add: unat_drop DEGRADE_SHIFT_def)
  also have "\<dots> \<le> unat load * 128 div 128" using p by (rule div_le_mono)
  finally show ?thesis by simp
qed

lemma decay_loop_bound:
  "unat load < 2 ^ 25 \<Longrightarrow> idx < 5 \<Longrightarrow> missed < 2 ^ (8 - j) \<Longrightarrow> j \<le> 8 \<Longrightarrow>
   \<exists>r. decay_loop load missed idx j = Some r \<and> unat r \<le> unat load"
proof (induction load missed idx j rule: decay_loop.induct)
  case (1 load missed idx j)
  show ?case
  proof (cases "missed = 0")
    case True
    then show ?thesis by (subst decay_loop.simps) simp
  next
    case False
    then have j: "j < 8" using 1(5,6) by (cases "j = 8") auto
    have "(2 :: nat) ^ (8 - j) = 2 * 2 ^ (8 - Suc j)"
      using j by (simp add: Suc_diff_Suc flip: power_Suc)
    then have half: "missed div 2 < 2 ^ (8 - Suc j)" using 1(5) by simp
    note row = degrade_row [OF 1(4)]
    show ?thesis
    proof (cases "missed mod 2 = 0")
      case True
      then show ?thesis
        using 1(2) [OF False _ 1(3,4) half] j False by (subst decay_loop.simps) simp
    next
      case odd: False
      let ?l = "drop_bit DEGRADE_SHIFT (load * degrade_factor ! idx ! j)"
      have l: "unat ?l \<le> unat load" by (rule decay_step [OF 1(3,4) j])
      then have "unat ?l < 2 ^ 25" using 1(3) by simp
      from 1(1) [OF False odd _ this 1(4) half] row j
      obtain r where "decay_loop ?l (missed div 2) idx (Suc j) = Some r" "unat r \<le> unat ?l" by auto
      then show ?thesis using l odd False row j by (subst decay_loop.simps) simp
    qed
  qed
qed

lemma decay_load_missed_bound:
  assumes "unat load < 2 ^ 25" and "idx < 5"
  shows "\<exists>r. decay_load_missed load missed idx = Some r \<and> unat r \<le> unat load"
proof -
  have "\<forall>z \<in> set degrade_zero_ticks. unat z \<le> 128" by (simp add: degrade_zero_ticks_def)
  moreover have "idx < length degrade_zero_ticks" using assms(2) by (simp add: degrade_zero_ticks_def)
  ultimately have z: "unat (degrade_zero_ticks ! idx) \<le> 128" by (metis nth_mem)
  have "\<exists>r. decay_loop load (unat missed) idx 0 = Some r \<and> unat r \<le> unat load"
    if "\<not> degrade_zero_ticks ! idx \<le> missed"
    using that z assms by (intro decay_loop_bound) (auto simp: word_le_nat_alt)
  moreover have "unat (drop_bit (unat missed) load) \<le> unat load"
    by (simp add: unat_drop)
  ultimately show ?thesis by (auto simp: decay_load_missed_def)
qed

section \<open>One step of the processor load\<close>

text \<open>\<open>approaches old target new\<close>: the new value is strictly closer to the target, or there.\<close>

definition approaches :: "nat \<Rightarrow> nat \<Rightarrow> nat \<Rightarrow> bool" where
  "approaches old target new \<longleftrightarrow>
     (if old < target then old < new \<and> new \<le> target
      else if target < old then target \<le> new \<and> new < old
      else new = old)"

lemma average_approaches:
  fixes n :: nat
  assumes "2 \<le> n"
  shows "approaches p t ((p * (n - 1) + (if p < t then t + (n - 1) else t)) div n)"
proof -
  have n0: "0 < n" using assms by simp
  obtain m where n: "n = Suc m" "0 < m" using assms by (cases n) auto
  consider "p < t" | "t < p" | "p = t" by linarith
  then show ?thesis
  proof cases
    case 1
    then obtain d where t: "t = p + Suc d" using less_imp_Suc_add by auto
    have "Suc p * n \<le> p * (n - 1) + (t + (n - 1))" using t n by (simp add: algebra_simps)
    then have lo: "Suc p \<le> (p * (n - 1) + (t + (n - 1))) div n"
      using less_eq_div_iff_mult_less_eq [OF n0] by blast
    have "p * (n - 1) + (t + (n - 1)) < Suc t * n" using t n by (simp add: algebra_simps)
    then have "(p * (n - 1) + (t + (n - 1))) div n < Suc t"
      using div_less_iff_less_mult [OF n0] by blast
    then show ?thesis using 1 lo by (simp add: approaches_def)
  next
    case 2
    then obtain d where p: "p = t + Suc d" using less_imp_Suc_add by auto
    have "t * n \<le> p * (n - 1) + t" using p n by (simp add: algebra_simps)
    then have lo: "t \<le> (p * (n - 1) + t) div n"
      using less_eq_div_iff_mult_less_eq [OF n0] by blast
    have "p * (n - 1) + t < p * n" using p n by (simp add: algebra_simps)
    then have "(p * (n - 1) + t) div n < p" using div_less_iff_less_mult [OF n0] by blast
    then show ?thesis using 2 lo by (simp add: approaches_def)
  next
    case 3
    have "p * (n - 1) + p = p * n" using n by simp
    then show ?thesis using 3 n0 by (simp add: approaches_def)
  qed
qed

lemma cpu_load_step_approaches:
  assumes "unat old < 2 ^ 25" and "unat this < 2 ^ 25" and "unat scale = 2 ^ i"
    and "1 \<le> i" and "i \<le> 4"
  shows "approaches (unat old) (unat this) (unat (cpu_load_step old this i scale))"
    and "unat (cpu_load_step old this i scale) < 2 ^ 25"
proof -
  let ?n = "(2 :: nat) ^ i"
  have "?n \<le> 2 ^ 4" using assms(5) by (intro power_increasing) auto
  then have n16: "?n \<le> 16" by simp
  have n2: "2 \<le> ?n" using assms(4) power_increasing [of 1 i "2 :: nat"] by simp
  have s1: "unat (scale - 1) = ?n - 1"
    using unat_dec [of scale] assms(3) by fastforce
  define new where "new = (if old < this then this + (scale - 1) else this)"
  have o: "unat old < 33554432" and t: "unat this < 33554432" using assms by simp_all
  have nw: "unat new = (if unat old < unat this then unat this + (?n - 1) else unat this)"
    using t n16 by (simp add: new_def word_less_nat_alt unat_add_small s1)
  have "unat old * (?n - 1) \<le> 33554432 * 15"
    by (rule mult_mono) (use o n16 in auto)
  then have m: "unat old * (?n - 1) \<le> 503316480" by simp
  have p: "unat (old * (scale - 1)) = unat old * (?n - 1)"
    using m by (subst unat_mult_small) (simp_all add: s1)
  have "unat new \<le> 33554432 + 15" using nw t n16 by auto
  then have "unat (old * (scale - 1) + new) = unat old * (?n - 1) + unat new"
    using m by (subst unat_add_small) (simp_all add: p)
  then have eq: "unat (cpu_load_step old this i scale) =
      (unat old * (?n - 1) + (if unat old < unat this then unat this + (?n - 1) else unat this)) div ?n"
    by (simp add: cpu_load_step_def Let_def unat_drop flip: new_def nw)
  show ap: "approaches (unat old) (unat this) (unat (cpu_load_step old this i scale))"
    unfolding eq by (rule average_approaches [OF n2])
  then show "unat (cpu_load_step old this i scale) < 2 ^ 25"
    using assms(1,2) by (auto simp: approaches_def split: if_splits)
qed

lemma decay_none_missed: "decay_load_missed load 0 idx = Some load"
  by (simp add: decay_load_missed_def)

lemma cpu_load_loop_unroll:
  assumes "length l = 5"
  shows "cpu_load_loop l this 1 1 2 =
    Some [l ! 0, cpu_load_step (l ! 1) this 1 2, cpu_load_step (l ! 2) this 2 4,
          cpu_load_step (l ! 3) this 3 8, cpu_load_step (l ! 4) this 4 16]"
proof -
  obtain a b c d e where l: "l = [a, b, c, d, e]"
    using assms by (auto simp: numeral_eq_Suc length_Suc_conv)
  show ?thesis
    unfolding l
    by (subst cpu_load_loop.simps, simp add: decay_none_missed CPU_LOAD_IDX_MAX_def)+
      (simp add: numeral_eq_Suc)
qed

section \<open>Properties\<close>

text \<open>
  The steps of the machine as far as the load counters are concerned: entering and leaving the
  tickless idle state, the periodic folding, the global update, and code that leaves the
  counters alone (it may change the run queue's task counts and the clock).
\<close>

inductive load_step :: "'x env \<Rightarrow> 'x sys \<Rightarrow> 'x sys \<Rightarrow> bool" for E where
  "load_step E s (calc_load_enter_idle E s)"
| "load_step E s (calc_load_exit_idle E s)"
| "load_step E s (calc_load_account_active E s)"
| "load_step E s (calc_global_load E s)"
| "calc_load_tasks s' = calc_load_tasks s \<Longrightarrow> calc_load_idle s' = calc_load_idle s \<Longrightarrow>
   rq_calc_load_active (the_rq s') = rq_calc_load_active (the_rq s) \<Longrightarrow> load_step E s s'"

lemma load_step_inv: "load_step E s s' \<Longrightarrow> load_inv s \<Longrightarrow> load_inv s'"
  by (induction rule: load_step.induct)
    (erule load_inv_enter_idle load_inv_exit_idle load_inv_account load_inv_global |
      simp add: load_inv_def)+

lemma load_steps_inv: "(load_step E)\<^sup>*\<^sup>* s s' \<Longrightarrow> load_inv s \<Longrightarrow> load_inv s'"
  by (induction rule: rtranclp_induct) (auto intro: load_step_inv)

text \<open>
  C30: No load is lost or counted twice by the distributed bookkeeping. In every reachable state
  the global count and the two idle counters together hold what the processor last reported,
  and when its sampling time has come, the report makes that sum the number of runnable and
  uninterruptible tasks of the run queue.
\<close>

theorem load_folding_conserves:
  assumes "load_inv s0" and "(load_step E)\<^sup>*\<^sup>* s0 s"
  shows "calc_load_tasks s + calc_load_idle s 0 + calc_load_idle s 1 =
      rq_calc_load_active (the_rq s) \<and>
    (\<not> time_before (x_jiffies E (ext s)) (rq_calc_load_update (the_rq s)) \<longrightarrow>
      (let s' = calc_load_account_active E s in
       calc_load_tasks s' + calc_load_idle s' 0 + calc_load_idle s' 1 =
         rq_nr_running (the_rq s) + rq_nr_uninterruptible (the_rq s)))"
proof -
  have i: "load_inv s" by (rule load_steps_inv [OF assms(2,1)])
  have "rq_calc_load_active (the_rq (calc_load_account_active E s)) =
      rq_nr_running (the_rq s) + rq_nr_uninterruptible (the_rq s)"
    if "\<not> time_before (x_jiffies E (ext s)) (rq_calc_load_update (the_rq s))"
    using that by (simp add: calc_load_account_active_def calc_load_fold_active_def Let_def)
  then show ?thesis
    using i load_inv_account [OF i, of E] by (simp add: load_inv_def Let_def)
qed

lemma mean_trans:
  fixes p a v w :: nat
  assumes "min p a \<le> v" "v \<le> max p a" "min v a \<le> w" "w \<le> max v a"
  shows "min p a \<le> w \<and> w \<le> max p a"
  using assms by linarith

text \<open>
  C40: The global update computes a weighted mean. Each of the three averages stays between its
  old value and the current load \<open>active * FIXED_1\<close> (with averages and load below 1024.0 nothing
  overflows), also when the tickless code catches up on any number of missed periods at once.
\<close>

theorem avenrun_stays_between:
  fixes s :: "'x sys"
  assumes "length (avenrun s) = 3" and "\<forall>x\<in>set (avenrun s). unat x < 2 ^ 21"
  defines "act \<equiv> active_load (calc_load_tasks s + calc_load_idle s (calc_load_read_idx s))"
  assumes "unat act < 2 ^ 21" and "i < 3"
  shows "min (unat (avenrun s ! i)) (unat act) \<le> unat (avenrun (calc_global_load E s) ! i) \<and>
    unat (avenrun (calc_global_load E s) ! i) \<le> max (unat (avenrun s ! i)) (unat act)"
proof (cases "time_before (x_jiffies E (ext s)) (calc_load_update s + 10)")
  case True
  then show ?thesis by (simp add: calc_global_load_def)
next
  case False
  obtain x y z where v: "avenrun s = [x, y, z]"
    using assms(1) by (auto simp: numeral_eq_Suc length_Suc_conv)
  have b: "unat x < 2 ^ 21" "unat y < 2 ^ 21" "unat z < 2 ^ 21" using assms(2) v by simp_all
  have e: "unat EXP_1 \<le> 2048" "unat EXP_5 \<le> 2048" "unat EXP_15 \<le> 2048"
    by (simp_all add: EXP_1_def EXP_5_def EXP_15_def)
  have one: "min (unat l) (unat act) \<le> unat (calc_load l ex act) \<and>
      unat (calc_load l ex act) \<le> max (unat l) (unat act) \<and>
      min (unat l) (unat act) \<le> unat (calc_load_n (calc_load l ex act) ex act n) \<and>
      unat (calc_load_n (calc_load l ex act) ex act n) \<le> max (unat l) (unat act)"
    if "unat l < 2 ^ 21" "unat ex \<le> 2048" for l ex n
  proof -
    note c = calc_load_between [OF that(1) assms(4) that(2)]
    have "unat (calc_load l ex act) < 2 ^ 21" using c(2) that(1) assms(4) by linarith
    note d = calc_load_n_between [OF this assms(4) that(2), of n]
    show ?thesis using c mean_trans [OF c d] by blast
  qed
  note ones = one [OF b(1) e(1)] one [OF b(2) e(2)] one [OF b(3) e(3)]
  have act: "active_load (calc_load_tasks s + snd (calc_load_fold_idle s)) = act"
    by (simp add: act_def calc_load_fold_idle_def Let_def)
  define s1 where "s1 = (let t = fst (calc_load_fold_idle s) in
    t\<lparr>calc_load_tasks := calc_load_tasks s + snd (calc_load_fold_idle s),
      avenrun := [calc_load x EXP_1 act, calc_load y EXP_5 act, calc_load z EXP_15 act],
      calc_load_update := calc_load_update s + LOAD_FREQ E\<rparr>)"
  have "calc_global_load E s = calc_global_nohz E s1"
    using False v
    by (cases "calc_load_idle s (calc_load_read_idx s) = 0")
      (simp_all add: calc_global_load_def calc_load_fold_idle_def s1_def act_def Let_def)
  moreover have "active_load (calc_load_tasks s1) = act" using act by (simp add: s1_def Let_def)
  moreover have "avenrun s1 = [calc_load x EXP_1 act, calc_load y EXP_5 act, calc_load z EXP_15 act]"
    by (simp add: s1_def Let_def)
  ultimately have "avenrun (calc_global_load E s) =
      [calc_load x EXP_1 act, calc_load y EXP_5 act, calc_load z EXP_15 act] \<or>
    (\<exists>n. avenrun (calc_global_load E s) =
      [calc_load_n (calc_load x EXP_1 act) EXP_1 act n,
       calc_load_n (calc_load y EXP_5 act) EXP_5 act n,
       calc_load_n (calc_load z EXP_15 act) EXP_15 act n])"
    by (auto simp: calc_global_nohz_def Let_def)
  moreover have "i = 0 \<or> i = 1 \<or> i = 2" using assms(5) by linarith
  ultimately show ?thesis using ones v by auto
qed

text \<open>
  Decay over missed ticks is defined for every number of missed ticks and every load index:
  the loop never reads the degradation table out of range, the result never exceeds the old
  load, it is the old load when nothing was missed, exactly \<open>load / 2^n\<close> at index 1, and 0 from
  the number of ticks the table gives on.
\<close>

lemma decay_load_missed_total:
  assumes "unat load < 2 ^ 25" and "idx < 5"
  shows "\<exists>r. decay_load_missed load n idx = Some r \<and> unat r \<le> unat load \<and>
    (n = 0 \<longrightarrow> r = load) \<and> (n \<noteq> 0 \<and> degrade_zero_ticks ! idx \<le> n \<longrightarrow> r = 0) \<and>
    (idx = 1 \<and> n < 8 \<longrightarrow> unat r = unat load div 2 ^ unat n)"
proof -
  obtain r where r: "decay_load_missed load n idx = Some r" "unat r \<le> unat load"
    using decay_load_missed_bound [OF assms] by blast
  then show ?thesis
    by (auto simp: decay_load_missed_def unat_drop degrade_zero_ticks_def split: if_splits)
qed

text \<open>
  A tick without missed updates sets the fast index to the current load and moves each of
  the four slower indices strictly towards it (never past it, and never stuck short of it: the
  rounding goes up when the load increases and down when it decreases), for loads below 2^25.
\<close>

lemma update_cpu_load_approaches:
  assumes "length (rq_cpu_load (the_rq s)) = 5"
    and "\<forall>l\<in>set (rq_cpu_load (the_rq s)). unat l < 2 ^ 25"
    and "unat (lw_weight (rq_load (the_rq s))) < 2 ^ 25"
    and "x_jiffies E (ext s) = rq_last_load_update_tick (the_rq s) + 1"
  shows "\<exists>s'. update_cpu_load E s = Some s' \<and>
    rq_cpu_load (the_rq s') ! 0 = lw_weight (rq_load (the_rq s)) \<and>
    (\<forall>i\<in>{1, 2, 3, 4}. approaches (unat (rq_cpu_load (the_rq s) ! i))
       (unat (lw_weight (rq_load (the_rq s)))) (unat (rq_cpu_load (the_rq s') ! i)))"
proof -
  obtain a b c d e where l: "rq_cpu_load (the_rq s) = [a, b, c, d, e]"
    using assms(1) by (auto simp: numeral_eq_Suc length_Suc_conv)
  let ?w = "lw_weight (rq_load (the_rq s))"
  have bd: "unat b < 2 ^ 25" "unat c < 2 ^ 25" "unat d < 2 ^ 25" "unat e < 2 ^ 25"
    using assms(2) l by simp_all
  have ap: "approaches (unat b) (unat ?w) (unat (cpu_load_step b ?w 1 2))"
    "approaches (unat c) (unat ?w) (unat (cpu_load_step c ?w 2 4))"
    "approaches (unat d) (unat ?w) (unat (cpu_load_step d ?w 3 8))"
    "approaches (unat e) (unat ?w) (unat (cpu_load_step e ?w 4 16))"
    using bd assms(3) by (intro cpu_load_step_approaches(1); simp)+
  have "update_cpu_load E s = Some (upd_rq (\<lambda>r. r\<lparr>rq_nr_load_updates := rq_nr_load_updates r + 1,
      rq_last_load_update_tick := x_jiffies E (ext s),
      rq_cpu_load := [?w, cpu_load_step b ?w 1 2, cpu_load_step c ?w 2 4,
        cpu_load_step d ?w 3 8, cpu_load_step e ?w 4 16]\<rparr>) s)"
    using assms(4) cpu_load_loop_unroll [of "[?w, b, c, d, e]" ?w]
    by (simp add: update_cpu_load_def Let_def l upd_rq_def)
  then show ?thesis using ap l by simp
qed

section \<open>Witnesses\<close>

definition sample_load :: "sample_ext sys" where
  "sample_load = sample_sys\<lparr>the_rq := sample_rq\<lparr>rq_nr_running := 3, rq_nr_uninterruptible := 1,
     rq_last_load_update_tick := - 1, rq_load := \<lparr>lw_weight = 1024, lw_inv_weight = 0\<rparr>\<rparr>,
     calc_load_update := - 20\<rparr>"

lemma load_folding_conserves_witness:
  "let s' = calc_load_account_active sample_env sample_load in
   calc_load_tasks s' + calc_load_idle s' 0 + calc_load_idle s' 1 = 4"
  using load_folding_conserves [of sample_load sample_env sample_load]
  by (simp add: sample_load_def load_inv_def sample_defs time_before_def)

lemma avenrun_stays_between_witness:
  "unat (avenrun (calc_global_load sample_env (sample_load\<lparr>calc_load_tasks := 4\<rparr>)) ! 0) \<le> 8192"
  using avenrun_stays_between [of "sample_load\<lparr>calc_load_tasks := 4\<rparr>" 0 sample_env]
  by (simp add: sample_load_def sample_defs active_load_def FIXED_1_def FSHIFT_def)

lemma decay_load_missed_total_witness:
  "\<exists>r. decay_load_missed 1024 13 4 = Some r \<and> unat r \<le> 1024"
  using decay_load_missed_total [of 1024 4 13] by auto

lemma update_cpu_load_approaches_witness:
  "\<exists>s'. update_cpu_load sample_env sample_load = Some s' \<and>
     rq_cpu_load (the_rq s') ! 0 = 1024 \<and>
     approaches 0 1024 (unat (rq_cpu_load (the_rq s') ! 1))"
  using update_cpu_load_approaches [of sample_load sample_env]
  by (auto simp: sample_load_def sample_sys_def sample_rq_def)

end
