(* ===== verification/Run_Queue.thy ===== *)
theory Run_Queue
  imports Prelude
begin

text \<open>
  The interfaces between the core of the scheduler and a scheduling class that keeps a queue of
  runnable tasks: \<open>picked_queue\<close> is the contract of pick, \<open>run_queue\<close> adds enqueue, dequeue and
  requeue over an abstract queue, \<open>sliced_queue\<close> a tick handler that runs the first task for its
  share and then rotates the queue. What the core relies on is proved here once, from the contracts.
\<close>

section \<open>Scheduling for a number of ticks\<close>

text \<open>
  One turn picks a task and delivers a timer tick to it; the result is the final state and the
  tasks that ran, or None if a pick fails or finds no task.
\<close>

primrec run_ticks :: "('s \<Rightarrow> ('s \<times> 'q option) option) \<Rightarrow> ('q \<Rightarrow> 's \<Rightarrow> 's) \<Rightarrow> nat \<Rightarrow> 's \<Rightarrow>
    ('s \<times> 'q list) option" where
  "run_ticks pick tick 0 s = Some (s, [])"
| "run_ticks pick tick (Suc n) s =
     (case pick s of
        Some (s', Some t) \<Rightarrow>
          (case run_ticks pick tick n (tick t s') of
             None \<Rightarrow> None
           | Some (s'', trace) \<Rightarrow> Some (s'', t # trace))
      | _ \<Rightarrow> None)"

lemma run_ticks_add:
  "run_ticks pick tick (m + n) s =
     (case run_ticks pick tick m s of
        None \<Rightarrow> None
      | Some (s', tr) \<Rightarrow>
          (case run_ticks pick tick n s' of
             None \<Rightarrow> None
           | Some (s'', tr') \<Rightarrow> Some (s'', tr @ tr')))"
  by (induction m arbitrary: s) (auto split: option.splits)

section \<open>The contract of a run queue\<close>

text \<open>
  \<open>picked_queue\<close>: picking finds the first task of the queue. The queue need not be all the class
  has: it may be the list of the best priority.
\<close>

locale picked_queue =
  fixes queue_is :: "'s \<Rightarrow> 'q list \<Rightarrow> bool"
    and pick :: "'s \<Rightarrow> ('s \<times> 'q option) option"
  assumes queue_distinct: "queue_is s ts \<Longrightarrow> distinct ts"
    and pick_law: "queue_is s (t # ts) \<Longrightarrow>
      \<exists>s'. pick s = Some (s', Some t) \<and> queue_is s' (t # ts)"

locale run_queue = picked_queue queue_is pick
  for queue_is :: "'s \<Rightarrow> 'q list \<Rightarrow> bool" and pick :: "'s \<Rightarrow> ('s \<times> 'q option) option" +
  fixes enq :: "'q \<Rightarrow> 's \<Rightarrow> 's"
    and deq :: "'q \<Rightarrow> 's \<Rightarrow> 's"
    and requeue :: "'q \<Rightarrow> 's \<Rightarrow> 's"
    and capacity :: nat
  assumes enq_law: "queue_is s ts \<Longrightarrow> t \<notin> set ts \<Longrightarrow> Suc (length ts) < capacity \<Longrightarrow>
      queue_is (enq t s) (ts @ [t])"
    and deq_law: "queue_is s ts \<Longrightarrow> queue_is (deq t s) (removeAll t ts)"
    and requeue_law: "queue_is s ts \<Longrightarrow> t \<in> set ts \<Longrightarrow>
      queue_is (requeue t s) (removeAll t ts @ [t])"
    and pick_empty_law: "queue_is s [] \<Longrightarrow> pick s = Some (s, None)"
begin

text \<open>A pick never fails and finds a task exactly when there is one.\<close>

lemma pick_total:
  assumes "queue_is s ts"
  shows "\<exists>s' r. pick s = Some (s', r) \<and> queue_is s' ts \<and> (r = None \<longleftrightarrow> ts = [])"
  using assms pick_empty_law pick_law by (cases ts) force+

text \<open>Dequeue undoes enqueue, and the order of the others is kept.\<close>

lemma deq_enq:
  assumes q: "queue_is s ts" and t: "t \<notin> set ts" and c: "Suc (length ts) < capacity"
  shows "queue_is (deq t (enq t s)) ts"
  using deq_law [OF enq_law [OF q t c], of t] t by (simp add: removeAll_id)

lemma deq_enq_commute:
  assumes q: "queue_is s ts" and t: "t \<notin> set ts" and c: "Suc (length ts) < capacity"
    and u: "u \<noteq> t"
  shows "queue_is (deq u (enq t s)) (removeAll u ts @ [t])"
  using deq_law [OF enq_law [OF q t c], of u] u by simp

text \<open>The first task stays the first while others come and go.\<close>

lemma pick_after_enq:
  assumes q: "queue_is s (u # us)" and t: "t \<notin> set (u # us)"
    and c: "Suc (length (u # us)) < capacity"
  shows "\<exists>s'. pick (enq t s) = Some (s', Some u)"
  using pick_law [of "enq t s" u "us @ [t]"] enq_law [OF q t c] by auto

text \<open>Picking and requeuing, one task after the other, visits the queue in order and restores it.\<close>

lemma rotate_prefix:
  "queue_is s (us @ vs) \<Longrightarrow>
   \<exists>s'. run_ticks pick requeue (length us) s = Some (s', us) \<and> queue_is s' (vs @ us)"
proof (induction us arbitrary: s vs)
  case Nil
  then show ?case by simp
next
  case (Cons u us)
  then obtain s1 where p: "pick s = Some (s1, Some u)" "queue_is s1 (u # us @ vs)"
    using pick_law [of s u "us @ vs"] by auto
  have "u \<notin> set (us @ vs)" using queue_distinct [OF p(2)] by simp
  then have "queue_is (requeue u s1) (us @ (vs @ [u]))"
    using requeue_law [OF p(2), of u] by (simp add: removeAll_id)
  from Cons.IH [OF this] p(1) show ?case by auto
qed

lemma rotate_all:
  "queue_is s ts \<Longrightarrow>
   \<exists>s'. run_ticks pick requeue (length ts) s = Some (s', ts) \<and> queue_is s' ts"
  using rotate_prefix [of s ts "[]"] by simp

end

section \<open>Queues with time slices\<close>

text \<open>
  \<open>ready s t\<close> says that task \<open>t\<close> is one the class gives slices to, \<open>ticks_left s t\<close> is the
  number of ticks it still runs before it is rotated and \<open>share t\<close> the number it is given when
  that happens.
\<close>

locale sliced_queue = picked_queue queue_is pick
  for queue_is :: "'s \<Rightarrow> 'q list \<Rightarrow> bool" and pick :: "'s \<Rightarrow> ('s \<times> 'q option) option" +
  fixes tick :: "'q \<Rightarrow> 's \<Rightarrow> 's"
    and ready :: "'s \<Rightarrow> 'q \<Rightarrow> bool"
    and ticks_left :: "'s \<Rightarrow> 'q \<Rightarrow> nat"
    and share :: "'q \<Rightarrow> nat"
  assumes left_pos: "ready s t \<Longrightarrow> 0 < ticks_left s t"
    and pick_ready: "queue_is s ts \<Longrightarrow> pick s = Some (s', r) \<Longrightarrow> ready s' u = ready s u"
    and pick_left: "queue_is s ts \<Longrightarrow> pick s = Some (s', r) \<Longrightarrow> ticks_left s' u = ticks_left s u"
    and tick_runs: "queue_is s (t # ts) \<Longrightarrow> ready s t \<Longrightarrow> 1 < ticks_left s t \<Longrightarrow>
      queue_is (tick t s) (t # ts) \<and> ticks_left (tick t s) t = ticks_left s t - 1"
    and tick_expires: "queue_is s (t # ts) \<Longrightarrow> ready s t \<Longrightarrow> ticks_left s t = 1 \<Longrightarrow>
      queue_is (tick t s) (ts @ [t]) \<and> ticks_left (tick t s) t = share t"
    and tick_others: "queue_is s (t # ts) \<Longrightarrow> ready s t \<Longrightarrow> u \<noteq> t \<Longrightarrow>
      ticks_left (tick t s) u = ticks_left s u"
    and tick_ready: "queue_is s (t # ts) \<Longrightarrow> ready s t \<Longrightarrow> ready (tick t s) u = ready s u"
begin

text \<open>The first task runs for the rest of its slice, then the queue has rotated.\<close>

lemma run_slice:
  "queue_is s (t # ts) \<Longrightarrow> ready s t \<Longrightarrow> ticks_left s t = Suc k \<Longrightarrow>
   \<exists>s'. run_ticks pick tick (Suc k) s = Some (s', replicate (Suc k) t) \<and>
     queue_is s' (ts @ [t]) \<and> ticks_left s' t = share t \<and>
     (\<forall>u. u \<noteq> t \<longrightarrow> ticks_left s' u = ticks_left s u) \<and> (\<forall>u. ready s' u = ready s u)"
proof (induction k arbitrary: s)
  case 0
  obtain s1 where p: "pick s = Some (s1, Some t)" "queue_is s1 (t # ts)"
    using pick_law [OF 0(1)] by auto
  note l = pick_left [OF 0(1) p(1)] and rd = pick_ready [OF 0(1) p(1)]
  have "ready s1 t" "ticks_left s1 t = 1" using l rd 0 by simp_all
  from tick_expires [OF p(2) this] tick_others [OF p(2) this(1)] tick_ready [OF p(2) this(1)]
  show ?case using p(1) l rd by auto
next
  case (Suc k)
  obtain s1 where p: "pick s = Some (s1, Some t)" "queue_is s1 (t # ts)"
    using pick_law [OF Suc.prems(1)] by auto
  note l = pick_left [OF Suc.prems(1) p(1)] and rd = pick_ready [OF Suc.prems(1) p(1)]
  have r1: "ready s1 t" "1 < ticks_left s1 t" using l rd Suc.prems by simp_all
  note r = tick_runs [OF p(2) r1] and rd2 = tick_ready [OF p(2) r1(1)]
  have "ready (tick t s1) t" "ticks_left (tick t s1) t = Suc k"
    using r rd2 r1 l Suc.prems(3) by simp_all
  from Suc.IH [OF conjunct1 [OF r] this] obtain s' where
    s': "run_ticks pick tick (Suc k) (tick t s1) = Some (s', replicate (Suc k) t)"
      "queue_is s' (ts @ [t])" "ticks_left s' t = share t"
      "\<forall>u. u \<noteq> t \<longrightarrow> ticks_left s' u = ticks_left (tick t s1) u"
      "\<forall>u. ready s' u = ready (tick t s1) u" by auto
  have "run_ticks pick tick (Suc (Suc k)) s = Some (s', replicate (Suc (Suc k)) t)"
    using p(1) s'(1) by (subst run_ticks.simps) simp
  then show ?case using s' tick_others [OF p(2) r1(1)] l rd rd2 by auto
qed

text \<open>The tasks of a prefix run one after the other, each for the ticks it has left.\<close>

lemma run_prefix:
  "queue_is s (us @ vs) \<Longrightarrow> \<forall>t\<in>set us. ready s t \<Longrightarrow>
   \<exists>s'. run_ticks pick tick (\<Sum>t\<leftarrow>us. ticks_left s t) s =
       Some (s', concat (map (\<lambda>t. replicate (ticks_left s t) t) us)) \<and>
     queue_is s' (vs @ us) \<and> (\<forall>t\<in>set us. ticks_left s' t = share t) \<and>
     (\<forall>t. t \<notin> set us \<longrightarrow> ticks_left s' t = ticks_left s t) \<and> (\<forall>t. ready s' t = ready s t)"
proof (induction us arbitrary: s vs)
  case Nil
  then show ?case by simp
next
  case (Cons u us)
  have d: "u \<notin> set us" "distinct us" using queue_distinct [OF Cons.prems(1)] by auto
  obtain k where k: "ticks_left s u = Suc k"
    using left_pos [of s u] Cons.prems(2) by (cases "ticks_left s u") auto
  obtain s1 where s1: "run_ticks pick tick (Suc k) s = Some (s1, replicate (Suc k) u)"
      "queue_is s1 (us @ (vs @ [u]))" "ticks_left s1 u = share u"
      "\<forall>t. t \<noteq> u \<longrightarrow> ticks_left s1 t = ticks_left s t" "\<forall>t. ready s1 t = ready s t"
    using run_slice [of s u "us @ vs" k] Cons.prems k by auto
  have same: "map (ticks_left s1) us = map (ticks_left s) us"
      "map (\<lambda>t. replicate (ticks_left s1 t) t) us = map (\<lambda>t. replicate (ticks_left s t) t) us"
    using s1(4) d(1) by (auto intro!: map_cong)
  have "\<forall>t\<in>set us. ready s1 t" using Cons.prems(2) s1(5) by simp
  from Cons.IH [OF s1(2) this]
  obtain s' where s': "run_ticks pick tick (\<Sum>t\<leftarrow>us. ticks_left s1 t) s1 =
        Some (s', concat (map (\<lambda>t. replicate (ticks_left s1 t) t) us))"
      "queue_is s' ((vs @ [u]) @ us)" "\<forall>t\<in>set us. ticks_left s' t = share t"
      "\<forall>t. t \<notin> set us \<longrightarrow> ticks_left s' t = ticks_left s1 t" "\<forall>t. ready s' t = ready s1 t"
    by blast
  have "run_ticks pick tick (\<Sum>t\<leftarrow>u # us. ticks_left s t) s =
      Some (s', concat (map (\<lambda>t. replicate (ticks_left s t) t) (u # us)))"
    using s'(1)
    by (simp only: list.map sum_list.Cons k run_ticks_add s1(1) same option.case prod.case concat.simps)
  then show ?case using s' s1 d(1) by auto
qed

text \<open>
  Weighted round robin: when every task has a full slice, one round gives every task its share,
  in queue order, and leads back to the same queue with full slices; so do any number of rounds.
\<close>

lemma run_round:
  assumes q: "queue_is s ts" and full: "\<forall>t\<in>set ts. ready s t \<and> ticks_left s t = share t"
  shows "\<exists>s'. run_ticks pick tick (\<Sum>t\<leftarrow>ts. share t) s =
      Some (s', concat (map (\<lambda>t. replicate (share t) t) ts)) \<and>
    queue_is s' ts \<and> (\<forall>t\<in>set ts. ready s' t \<and> ticks_left s' t = share t)"
proof -
  have same: "map (ticks_left s) ts = map share ts"
      "map (\<lambda>t. replicate (ticks_left s t) t) ts = map (\<lambda>t. replicate (share t) t) ts"
    using full by auto
  show ?thesis
    using run_prefix [of s ts "[]"] q full unfolding same by auto
qed

lemma run_rounds:
  assumes "queue_is s ts" and "\<forall>t\<in>set ts. ready s t \<and> ticks_left s t = share t"
  shows "\<exists>s'. run_ticks pick tick (n * (\<Sum>t\<leftarrow>ts. share t)) s =
      Some (s', concat (replicate n (concat (map (\<lambda>t. replicate (share t) t) ts)))) \<and>
    queue_is s' ts \<and> (\<forall>t\<in>set ts. ready s' t \<and> ticks_left s' t = share t)"
  using assms
proof (induction n arbitrary: s)
  case 0
  then show ?case by simp
next
  case (Suc n)
  obtain s1 where s1: "run_ticks pick tick (\<Sum>t\<leftarrow>ts. share t) s =
        Some (s1, concat (map (\<lambda>t. replicate (share t) t) ts))"
      "queue_is s1 ts" "\<forall>t\<in>set ts. ready s1 t \<and> ticks_left s1 t = share t"
    using run_round [OF Suc.prems] by blast
  obtain s' where "run_ticks pick tick (n * (\<Sum>t\<leftarrow>ts. share t)) s1 =
        Some (s', concat (replicate n (concat (map (\<lambda>t. replicate (share t) t) ts))))"
      "queue_is s' ts" "\<forall>t\<in>set ts. ready s' t \<and> ticks_left s' t = share t"
    using Suc.IH [OF s1(2,3)] by blast
  then show ?case using s1(1) by (simp add: run_ticks_add)
qed

end

section \<open>A class as the core sees it\<close>

text \<open>
  The core knows a class by the set of tasks queued in it. \<open>picking_class\<close> is the contract of the
  pick: of the tasks the class offers it takes one that is \<open>best\<close>, and it finds none exactly when
  nothing is offered, which may be so although tasks are queued. \<open>queued_class\<close> adds enqueue and
  dequeue, for the tasks that \<open>can\<close> be queued, and \<open>outside\<close>, what the other parts may do.
\<close>

locale picking_class =
  fixes holds :: "'s \<Rightarrow> 'q set \<Rightarrow> bool"
    and offers :: "'s \<Rightarrow> 'q set"
    and best :: "'s \<Rightarrow> 'q \<Rightarrow> bool"
    and took :: "'q \<Rightarrow> 's \<Rightarrow> 's"
    and pick :: "'s \<Rightarrow> ('s \<times> 'q option) option"
  assumes offers_law: "holds s M \<Longrightarrow> offers s \<subseteq> M"
    and none_law: "holds s M \<Longrightarrow> offers s = {} \<Longrightarrow> pick s = Some (s, None)"
    and some_law: "holds s M \<Longrightarrow> offers s \<noteq> {} \<Longrightarrow>
      \<exists>p\<in>offers s. best s p \<and> pick s = Some (took p s, Some p)"
begin

lemma pick_returns: "holds s M \<Longrightarrow> \<exists>s' r. pick s = Some (s', r)"
  using none_law some_law by (cases "offers s = {}") blast+

lemma pick_none_iff: "holds s M \<Longrightarrow> pick s = Some (s', None) \<longleftrightarrow> offers s = {} \<and> s' = s"
  using none_law [of s M] some_law [of s M] by (cases "offers s = {}") auto

lemma pick_offered: "holds s M \<Longrightarrow> pick s = Some (s', Some p) \<Longrightarrow>
    p \<in> offers s \<and> p \<in> M \<and> best s p \<and> s' = took p s"
  using none_law [of s M] some_law [of s M] offers_law [of s M] by (cases "offers s = {}") auto

end

locale queued_class = picking_class holds offers best took pick
  for holds :: "'s \<Rightarrow> 'q set \<Rightarrow> bool" and offers :: "'s \<Rightarrow> 'q set" and best :: "'s \<Rightarrow> 'q \<Rightarrow> bool"
    and took :: "'q \<Rightarrow> 's \<Rightarrow> 's" and pick :: "'s \<Rightarrow> ('s \<times> 'q option) option" +
  fixes outside :: "'s \<Rightarrow> 's \<Rightarrow> bool"
    and can :: "'s \<Rightarrow> 'q \<Rightarrow> bool"
    and enq :: "'q \<Rightarrow> 'f \<Rightarrow> 's \<Rightarrow> 's"
    and deq :: "'q \<Rightarrow> 'f \<Rightarrow> 's \<Rightarrow> 's"
  assumes outside_law: "holds s M \<Longrightarrow> outside s s' \<Longrightarrow> holds s' M"
    and enq_law: "holds s M \<Longrightarrow> p \<notin> M \<Longrightarrow> can s p \<Longrightarrow> holds (enq p f s) (insert p M)"
    and deq_law: "holds s M \<Longrightarrow> p \<in> M \<Longrightarrow> can s p \<Longrightarrow> holds (deq p f s) (M - {p})"
    and took_law: "holds s M \<Longrightarrow> holds (took p s) M"
begin

lemma outside_runs: "outside\<^sup>*\<^sup>* s s' \<Longrightarrow> holds s M \<Longrightarrow> holds s' M"
  by (induction rule: rtranclp_induct) (auto intro: outside_law)

text \<open>A task that leaves while others come in is gone, and they stay.\<close>

lemma enq_then_deq:
  assumes "holds s M" and "p \<notin> M" "can s p" and "q \<in> M" "can (enq p f s) q"
  shows "holds (deq q g (enq p f s)) (insert p M - {q})"
  using assms by (intro deq_law enq_law) auto

lemma pick_keeps: "holds s M \<Longrightarrow> pick s = Some (s', r) \<Longrightarrow> holds s' M"
  using none_law [of s M] some_law [of s M] took_law [of s M] by (cases "offers s = {}") auto

end

end
