(* ===== verification/Wrr.thy ===== *)
theory Wrr
  imports Run_Queue Sample
begin

text \<open>
  The weighted round-robin class, \<open>Prj2/kernel/sched/wrr.c\<close>, one definition per function. A
  \<open>struct sched_wrr_entity\<close> lives inside its task, so a pointer to one is the task's pointer.
  The theory shows that the list code implements a queue of tasks (\<open>wrr_inv\<close>), that the class
  meets the run queue interface \<open>run_queue\<close>, and that the tick handler gives every task of the
  queue the share of its group.
\<close>

section \<open>Constants and small helpers\<close>

text \<open>The file's own MAX_PRIO, which hides the kernel's 140.\<close>

definition WRR_MAX_PRIO :: int where "WRR_MAX_PRIO = 500"

definition WRR_TIMESLICE_FORE :: "'x env \<Rightarrow> u32" where
  "WRR_TIMESLICE_FORE E = of_nat (100 * cfg_HZ E div 1000)"

definition WRR_TIMESLICE_BACK :: "'x env \<Rightarrow> u32" where
  "WRR_TIMESLICE_BACK E = of_nat (10 * cfg_HZ E div 1000)"

text \<open>1 for the foreground group, the one whose cgroup path is \<open>/\<close>.\<close>

definition find_group :: "'x env \<Rightarrow> tg_ptr \<Rightarrow> int" where
  "find_group E tg = (if x_cgroup_path E tg = ''/'' then 1 else 0)"

definition on_wrr_rq :: "'x env \<Rightarrow> task_ptr \<Rightarrow> 'x sys \<Rightarrow> bool" where
  "on_wrr_rq E wrr_se s = (\<not> kl_list_empty (klist E) (WrrRun wrr_se) (links s))"

definition list_del_leaf_wrr_rq :: "'x sys \<Rightarrow> 'x sys" where
  "list_del_leaf_wrr_rq s = s"

definition list_add_leaf_wrr_rq :: "'x sys \<Rightarrow> 'x sys" where
  "list_add_leaf_wrr_rq s = s"

definition dequeue_pushable_task :: "task_ptr \<Rightarrow> 'x sys \<Rightarrow> 'x sys" where
  "dequeue_pushable_task p s = s"

definition sched_wrr_runtime :: "wrr_rq \<Rightarrow> u64" where
  "sched_wrr_runtime wrr = wrr_runtime wrr"

text \<open>\<open>wrr_task_of\<close>: the entity is the task's own. \<open>wrr_rq_of_se\<close>: the one run queue's.\<close>

definition wrr_task_of :: "task_ptr \<Rightarrow> task_ptr" where
  "wrr_task_of wrr_se = wrr_se"

definition wrr_rq_of_se :: "task_ptr \<Rightarrow> 'x sys \<Rightarrow> wrr_rq" where
  "wrr_rq_of_se wrr_se s = (let p = wrr_task_of wrr_se; rq = the_rq s in rq_wrr rq)"

definition wrr_se_prio :: "task_ptr \<Rightarrow> 'x sys \<Rightarrow> int" where
  "wrr_se_prio wrr_se s = t_prio (tasks s (wrr_task_of wrr_se))"

definition wrr_rq_throttled :: "wrr_rq \<Rightarrow> int" where
  "wrr_rq_throttled wrr = wrr_throttled wrr"

definition sched_wrr_runtime_exceeded :: "wrr_rq \<Rightarrow> int" where
  "sched_wrr_runtime_exceeded wrr =
     (if wrr_throttled wrr \<noteq> 0 then wrr_rq_throttled wrr
      else let runtime = sched_wrr_runtime wrr in
        if runtime = RUNTIME_INF then 0 else 0)"

definition init_wrr_rq :: "'x env \<Rightarrow> 'x sys \<Rightarrow> 'x sys" where
  "init_wrr_rq E s =
     (let s = upd_links (kl_INIT_LIST_HEAD (klist E) WrrQueue) s
      in upd_rq (rq_wrr_update (\<lambda>w. w\<lparr>wrr_time := 0, wrr_throttled := 0, wrr_runtime := 0\<rparr>)) s)"

section \<open>Accounting\<close>

text \<open>\<open>update_curr_wrr\<close>; the time is signed 64-bit for the comparison with 0.\<close>

definition update_curr_wrr :: "'x env \<Rightarrow> 'x sys \<Rightarrow> 'x sys" where
  "update_curr_wrr E s =
     (let c = rq_curr (the_rq s) in
      if t_sched_class (tasks s c) \<noteq> Wrr_class then s
      else
        let delta_exec = rq_clock_task (the_rq s) - se_exec_start (t_se (tasks s c));
            delta_exec = (if sint delta_exec < 0 then 0 else delta_exec);
            s = upd_task c (t_se_update (se_sum_exec_runtime_update (\<lambda>r. r + delta_exec))) s;
            s = upd_task c (t_se_update (se_exec_start_update (\<lambda>_. rq_clock_task (the_rq s)))) s
        in cpuacct_charge E c delta_exec s)"

section \<open>Queue operations\<close>

definition inc_wrr_tasks :: "'x sys \<Rightarrow> 'x sys" where
  "inc_wrr_tasks = upd_rq (rq_wrr_update (wrr_nr_running_update (\<lambda>n. n + 1)))"

definition dec_wrr_tasks :: "'x sys \<Rightarrow> 'x sys" where
  "dec_wrr_tasks s =
     (let s = WARN_ON (wrr_nr_running (rq_wrr (the_rq s)) = 0) s
      in upd_rq (rq_wrr_update (wrr_nr_running_update (\<lambda>n. n - 1))) s)"

definition enqueue_wrr_entity' :: "'x env \<Rightarrow> task_ptr \<Rightarrow> bool \<Rightarrow> 'x sys \<Rightarrow> 'x sys" where
  "enqueue_wrr_entity' E wrr_se head s =
     (let s = (if wrr_nr_running (wrr_rq_of_se wrr_se s) = 0 then list_add_leaf_wrr_rq s else s);
          s = (if head then upd_links (kl_list_add (klist E) (WrrRun wrr_se) WrrQueue) s
               else upd_links (kl_list_add_tail (klist E) (WrrRun wrr_se) WrrQueue) s)
      in inc_wrr_tasks s)"

definition dequeue_wrr_entity' :: "'x env \<Rightarrow> task_ptr \<Rightarrow> 'x sys \<Rightarrow> 'x sys" where
  "dequeue_wrr_entity' E wrr_se s =
     (let s = upd_links (kl_list_del_init (klist E) (WrrRun wrr_se)) s;
          s = dec_wrr_tasks s
      in if wrr_nr_running (wrr_rq_of_se wrr_se s) = 0 then list_del_leaf_wrr_rq s else s)"

text \<open>
  \<open>dequeue_wrr_stack\<close>. \<open>for_each_sched_wrr_entity\<close> runs its body once and clears the pointer,
  so the first loop leaves \<open>back = wrr_se\<close> with \<open>wrr_se->back = NULL\<close> and the second visits
  that one entity.
\<close>

definition dequeue_wrr_stack :: "'x env \<Rightarrow> task_ptr \<Rightarrow> 'x sys \<Rightarrow> 'x sys" where
  "dequeue_wrr_stack E wrr_se s =
     (let s = upd_task wrr_se (t_wrr_update (wse_back_update (\<lambda>_. None))) s
      in if on_wrr_rq E wrr_se s then dequeue_wrr_entity' E wrr_se s else s)"

definition enqueue_wrr_entity :: "'x env \<Rightarrow> task_ptr \<Rightarrow> bool \<Rightarrow> 'x sys \<Rightarrow> 'x sys" where
  "enqueue_wrr_entity E wrr_se head s =
     (let s = dequeue_wrr_stack E wrr_se s in enqueue_wrr_entity' E wrr_se head s)"

text \<open>The group queue the loop tests is the constant NULL, so nothing is put back.\<close>

definition dequeue_wrr_entity :: "'x env \<Rightarrow> task_ptr \<Rightarrow> 'x sys \<Rightarrow> 'x sys" where
  "dequeue_wrr_entity E wrr_se s =
     (let s = dequeue_wrr_stack E wrr_se s; group_q = (None :: wrr_rq option)
      in case group_q of
           Some q \<Rightarrow> if wrr_nr_running q \<noteq> 0 then enqueue_wrr_entity' E wrr_se False s else s
         | None \<Rightarrow> s)"

definition requeue_wrr_entity :: "'x env \<Rightarrow> task_ptr \<Rightarrow> int \<Rightarrow> 'x sys \<Rightarrow> 'x sys" where
  "requeue_wrr_entity E wrr_se head s =
     (if on_wrr_rq E wrr_se s then
        if head \<noteq> 0 then upd_links (kl_list_move (klist E) (WrrRun wrr_se) WrrQueue) s
        else upd_links (kl_list_move_tail (klist E) (WrrRun wrr_se) WrrQueue) s
      else s)"

section \<open>Operations of the class\<close>

definition enqueue_task_wrr :: "'x env \<Rightarrow> task_ptr \<Rightarrow> u32 \<Rightarrow> 'x sys \<Rightarrow> 'x sys" where
  "enqueue_task_wrr E p flags s =
     (let s = (if and flags ENQUEUE_WAKEUP \<noteq> 0
               then upd_task p (t_wrr_update (wse_timeout_update (\<lambda>_. 0))) s else s);
          s = enqueue_wrr_entity E p (and flags ENQUEUE_HEAD \<noteq> 0) s
      in inc_nr_running s)"

definition requeue_task_wrr :: "'x env \<Rightarrow> task_ptr \<Rightarrow> int \<Rightarrow> 'x sys \<Rightarrow> 'x sys" where
  "requeue_task_wrr E p head s = requeue_wrr_entity E p head s"

definition yield_task_wrr :: "'x env \<Rightarrow> 'x sys \<Rightarrow> 'x sys" where
  "yield_task_wrr E s = requeue_task_wrr E (rq_curr (the_rq s)) 0 s"

definition dequeue_task_wrr :: "'x env \<Rightarrow> task_ptr \<Rightarrow> u32 \<Rightarrow> 'x sys \<Rightarrow> 'x sys" where
  "dequeue_task_wrr E p flags s =
     (let s = update_curr_wrr E s;
          s = dequeue_wrr_entity E p s;
          s = dequeue_pushable_task p s
      in dec_nr_running s)"

definition check_preempt_curr_wrr :: "task_ptr \<Rightarrow> u32 \<Rightarrow> 'x sys \<Rightarrow> 'x sys" where
  "check_preempt_curr_wrr p flags s = s"

text \<open>
  \<open>list_entry\<close> of the first node of the queue. On an empty queue that is the head itself, and
  the pointer is outside every task: undefined behaviour, None.
\<close>

definition pick_next_wrr_entity :: "'x sys \<Rightarrow> task_ptr option" where
  "pick_next_wrr_entity s =
     (case lh_next (links s WrrQueue) of WrrRun p \<Rightarrow> Some p | _ \<Rightarrow> None)"

definition pick_next_task_wrr' :: "'x sys \<Rightarrow> ('x sys \<times> task_ptr option) option" where
  "pick_next_task_wrr' s =
     (if wrr_nr_running (rq_wrr (the_rq s)) = 0 then Some (s, None)
      else if wrr_rq_throttled (rq_wrr (the_rq s)) \<noteq> 0 then Some (s, None)
      else case pick_next_wrr_entity s of
        None \<Rightarrow> None
      | Some wrr_se \<Rightarrow>
          let p = wrr_task_of wrr_se;
              s = upd_task p (t_se_update (se_exec_start_update (\<lambda>_. rq_clock_task (the_rq s)))) s
          in Some (s, Some p))"

definition pick_next_task_wrr :: "'x sys \<Rightarrow> ('x sys \<times> task_ptr option) option" where
  "pick_next_task_wrr s =
     (case pick_next_task_wrr' s of
        None \<Rightarrow> None
      | Some (s, None) \<Rightarrow> Some (s, None)
      | Some (s, Some p) \<Rightarrow> Some (dequeue_pushable_task p s, Some p))"

definition put_prev_task_wrr :: "'x env \<Rightarrow> task_ptr \<Rightarrow> 'x sys \<Rightarrow> 'x sys" where
  "put_prev_task_wrr E p s = update_curr_wrr E s"

definition set_curr_task_wrr :: "'x sys \<Rightarrow> 'x sys" where
  "set_curr_task_wrr s =
     (let p = rq_curr (the_rq s);
          s = upd_task p (t_se_update (se_exec_start_update (\<lambda>_. rq_clock_task (the_rq s)))) s
      in dequeue_pushable_task p s)"

text \<open>\<open>watchdog\<close>; DIV_ROUND_UP rounds the unsigned quotient up (the sum wraps as in C).\<close>

definition DIV_ROUND_UP :: "ulong \<Rightarrow> ulong \<Rightarrow> ulong" where
  "DIV_ROUND_UP n d = (n + d - 1) div d"

definition watchdog_wrr :: "'x env \<Rightarrow> task_ptr \<Rightarrow> 'x sys \<Rightarrow> 'x sys" where
  "watchdog_wrr E p s =
     (let soft = task_rlimit s p RLIMIT_RTTIME; hard = task_rlimit_max s p RLIMIT_RTTIME in
      if soft \<noteq> RLIM_INFINITY then
        let s = upd_task p (t_wrr_update (wse_timeout_update (\<lambda>t. t + 1))) s;
            next = DIV_ROUND_UP (min soft hard) (of_nat (USEC_PER_SEC div cfg_HZ E))
        in if next < wse_timeout (t_wrr (tasks s p))
           then upd_task p (t_sched_exp_update (\<lambda>_. se_sum_exec_runtime (t_se (tasks s p)))) s
           else s
      else s)"

text \<open>The slice of a task: the foreground or the background constant.\<close>

definition wrr_group_slice :: "'x env \<Rightarrow> tg_ptr \<Rightarrow> u32" where
  "wrr_group_slice E tg =
     (if find_group E tg = 1 then WRR_TIMESLICE_FORE E else WRR_TIMESLICE_BACK E)"

definition set_wrr_slice :: "task_ptr \<Rightarrow> u32 \<Rightarrow> 'x sys \<Rightarrow> 'x sys" where
  "set_wrr_slice p v = upd_task p (t_wrr_update (wse_time_slice_update (\<lambda>_. v)))"

text \<open>
  \<open>task_tick_wrr\<close>: while the slice lasts the tick only raises \<open>prio\<close> (up to the file's
  MAX_PRIO); at its end the slice is refilled and the task goes to the tail of its queue, unless
  both neighbours of its list node coincide.
\<close>

definition task_tick_wrr :: "'x env \<Rightarrow> task_ptr \<Rightarrow> int \<Rightarrow> 'x sys \<Rightarrow> 'x sys" where
  "task_tick_wrr E p queued s =
     (let s = update_curr_wrr E s;
          s = watchdog_wrr E p s in
      if t_policy (tasks s p) \<noteq> SCHED_WRR then s
      else
        let s = (if wse_time_slice (t_wrr (tasks s p)) = 0
                 then (if find_group E (t_sched_task_group (tasks s p)) = 1
                       then set_wrr_slice p (WRR_TIMESLICE_FORE E) s
                       else set_wrr_slice p (WRR_TIMESLICE_BACK E) s)
                 else s);
            s = set_wrr_slice p (wse_time_slice (t_wrr (tasks s p)) - 1) s in
        if 0 < wse_time_slice (t_wrr (tasks s p)) then
          let s = upd_task p (t_prio_update (\<lambda>i. i + 1)) s
          in if WRR_MAX_PRIO < t_prio (tasks s p)
             then upd_task p (t_prio_update (\<lambda>_. WRR_MAX_PRIO)) s else s
        else
          let s = (if find_group E (t_sched_task_group (tasks s p)) = 1
                   then set_wrr_slice p (WRR_TIMESLICE_FORE E) s
                   else set_wrr_slice p (WRR_TIMESLICE_BACK E) s) in
          if lh_prev (links s (WrrRun p)) \<noteq> lh_next (links s (WrrRun p))
          then set_tsk_need_resched p (requeue_task_wrr E p 0 s)
          else s)"

definition switched_from_wrr :: "task_ptr \<Rightarrow> 'x sys \<Rightarrow> 'x sys" where
  "switched_from_wrr p s = s"

definition get_rr_interval_wrr :: "'x env \<Rightarrow> task_ptr \<Rightarrow> 'x sys \<Rightarrow> u32" where
  "get_rr_interval_wrr E task s =
     (if t_policy (tasks s task) = SCHED_WRR then
        (if find_group E (t_sched_task_group (tasks s task)) = 1
         then WRR_TIMESLICE_FORE E else WRR_TIMESLICE_BACK E)
      else 0)"

definition prio_changed_wrr :: "task_ptr \<Rightarrow> int \<Rightarrow> 'x sys \<Rightarrow> 'x sys" where
  "prio_changed_wrr p oldprio s = s"

definition switched_to_wrr :: "task_ptr \<Rightarrow> 'x sys \<Rightarrow> 'x sys" where
  "switched_to_wrr p s = s"

definition wrr_sched_class :: "'x env \<Rightarrow> 'x class_ops" where
  "wrr_sched_class E = \<lparr>
     co_next = Some Fair_class,
     co_enqueue_task = enqueue_task_wrr E,
     co_dequeue_task = dequeue_task_wrr E,
     co_yield_task = yield_task_wrr E,
     co_check_preempt_curr = check_preempt_curr_wrr,
     co_pick_next_task = pick_next_task_wrr,
     co_put_prev_task = put_prev_task_wrr E,
     co_set_curr_task = set_curr_task_wrr,
     co_task_tick = task_tick_wrr E,
     co_task_fork = None,
     co_switched_from = Some switched_from_wrr,
     co_switched_to = switched_to_wrr,
     co_prio_changed = prio_changed_wrr,
     co_get_rr_interval = Some (get_rr_interval_wrr E),
     co_task_move_group = None\<rparr>"

section \<open>The queue the lists represent\<close>

text \<open>
  \<open>wrr_inv E s ts\<close>: the links of state \<open>s\<close> represent the queue \<open>ts\<close>, the counter agrees with
  it, and the queue is not throttled.
\<close>

definition wrr_inv :: "'x env \<Rightarrow> 'x sys \<Rightarrow> task_ptr list \<Rightarrow> bool" where
  "wrr_inv E s ts \<longleftrightarrow> klist_ok (klist E) \<and> on_queue WrrRun (links s) WrrQueue ts \<and>
     wrr_nr_running (rq_wrr (the_rq s)) = of_nat (length ts) \<and> length ts < 2 ^ 32 \<and>
     wrr_throttled (rq_wrr (the_rq s)) = 0"

lemma wrr_invD:
  assumes "wrr_inv E s ts"
  shows "klist_ok (klist E)" "on_queue WrrRun (links s) WrrQueue ts"
    "wrr_nr_running (rq_wrr (the_rq s)) = of_nat (length ts)" "length ts < 2 ^ 32"
    "wrr_throttled (rq_wrr (the_rq s)) = 0"
  using assms by (simp_all add: wrr_inv_def)

lemma wrr_inv_distinct: "wrr_inv E s ts \<Longrightarrow> distinct ts"
  by (auto dest: wrr_invD(2) on_queue_distinct)

lemma wrr_inv_unique: "wrr_inv E s ts \<Longrightarrow> wrr_inv E s us \<Longrightarrow> ts = us"
  by (blast dest: wrr_invD(2) on_queue_unique)

text \<open>The invariant reads the links and the class's part of the run queue only.\<close>

lemma wrr_inv_cong:
  "links s' = links s \<Longrightarrow> rq_wrr (the_rq s') = rq_wrr (the_rq s) \<Longrightarrow>
   wrr_inv E s' ts \<longleftrightarrow> wrr_inv E s ts"
  by (simp add: wrr_inv_def)

lemma wrr_inv_empty_iff:
  "wrr_inv E s ts \<Longrightarrow> wrr_nr_running (rq_wrr (the_rq s)) = 0 \<longleftrightarrow> ts = []"
  by (simp add: wrr_inv_def of_nat_word_eq_0_iff)

lemma on_wrr_rq_iff: "wrr_inv E s ts \<Longrightarrow> on_wrr_rq E p s \<longleftrightarrow> p \<in> set ts"
  using on_queue_empty_iff [of "klist E" WrrRun "links s" WrrQueue ts p]
  by (simp add: wrr_inv_def on_wrr_rq_def)

section \<open>What the helpers leave unchanged\<close>

lemma update_curr_wrr_frame [frame_simps]:
  "links (update_curr_wrr E s) = links s" "the_rq (update_curr_wrr E s) = the_rq s"
  "warns (update_curr_wrr E s) = warns s" "rt_rqs (update_curr_wrr E s) = rt_rqs s"
  "ext (update_curr_wrr E s) = ext s" "signals (update_curr_wrr E s) = signals s"
  "t_wrr (tasks (update_curr_wrr E s) p) = t_wrr (tasks s p)"
  "t_policy (tasks (update_curr_wrr E s) p) = t_policy (tasks s p)"
  "t_prio (tasks (update_curr_wrr E s) p) = t_prio (tasks s p)"
  "t_sched_task_group (tasks (update_curr_wrr E s) p) = t_sched_task_group (tasks s p)"
  "t_sched_class (tasks (update_curr_wrr E s) p) = t_sched_class (tasks s p)"
  "t_need_resched (tasks (update_curr_wrr E s) p) = t_need_resched (tasks s p)"
  by (simp_all add: update_curr_wrr_def Let_def)

lemma watchdog_wrr_frame [frame_simps]:
  "links (watchdog_wrr E q s) = links s" "the_rq (watchdog_wrr E q s) = the_rq s"
  "warns (watchdog_wrr E q s) = warns s" "rt_rqs (watchdog_wrr E q s) = rt_rqs s"
  "ext (watchdog_wrr E q s) = ext s" "signals (watchdog_wrr E q s) = signals s"
  "wse_time_slice (t_wrr (tasks (watchdog_wrr E q s) p)) = wse_time_slice (t_wrr (tasks s p))"
  "t_policy (tasks (watchdog_wrr E q s) p) = t_policy (tasks s p)"
  "t_prio (tasks (watchdog_wrr E q s) p) = t_prio (tasks s p)"
  "t_sched_task_group (tasks (watchdog_wrr E q s) p) = t_sched_task_group (tasks s p)"
  "t_sched_class (tasks (watchdog_wrr E q s) p) = t_sched_class (tasks s p)"
  "t_need_resched (tasks (watchdog_wrr E q s) p) = t_need_resched (tasks s p)"
  by (simp_all add: watchdog_wrr_def Let_def)

lemma set_wrr_slice_frame [frame_simps]:
  "links (set_wrr_slice q v s) = links s" "the_rq (set_wrr_slice q v s) = the_rq s"
  "warns (set_wrr_slice q v s) = warns s" "ext (set_wrr_slice q v s) = ext s"
  "wse_time_slice (t_wrr (tasks (set_wrr_slice q v s) p)) =
     (if p = q then v else wse_time_slice (t_wrr (tasks s p)))"
  "t_policy (tasks (set_wrr_slice q v s) p) = t_policy (tasks s p)"
  "t_prio (tasks (set_wrr_slice q v s) p) = t_prio (tasks s p)"
  "t_sched_task_group (tasks (set_wrr_slice q v s) p) = t_sched_task_group (tasks s p)"
  by (simp_all add: set_wrr_slice_def)

lemma requeue_task_wrr_frame [frame_simps]:
  "tasks (requeue_task_wrr E p h s) = tasks s" "the_rq (requeue_task_wrr E p h s) = the_rq s"
  "warns (requeue_task_wrr E p h s) = warns s" "rt_rqs (requeue_task_wrr E p h s) = rt_rqs s"
  "ext (requeue_task_wrr E p h s) = ext s"
  by (simp_all add: requeue_task_wrr_def requeue_wrr_entity_def)

lemma pushable_simps [simp]: "dequeue_pushable_task p s = s" "wrr_task_of p = p"
  "list_add_leaf_wrr_rq s = s" "list_del_leaf_wrr_rq s = s"
  "wrr_rq_of_se p s = rq_wrr (the_rq s)"
  by (simp_all add: dequeue_pushable_task_def wrr_task_of_def list_add_leaf_wrr_rq_def
      list_del_leaf_wrr_rq_def wrr_rq_of_se_def)

lemma nr_running_frame [simp]:
  "links (inc_nr_running s) = links s" "links (dec_nr_running s) = links s"
  "tasks (inc_nr_running s) = tasks s" "tasks (dec_nr_running s) = tasks s"
  "rq_wrr (the_rq (inc_nr_running s)) = rq_wrr (the_rq s)"
  "rq_wrr (the_rq (dec_nr_running s)) = rq_wrr (the_rq s)"
  "warns (inc_nr_running s) = warns s" "warns (dec_nr_running s) = warns s"
  "rq_curr (the_rq (inc_nr_running s)) = rq_curr (the_rq s)"
  "rq_curr (the_rq (dec_nr_running s)) = rq_curr (the_rq s)"
  "rq_nr_running (the_rq (inc_nr_running s)) = rq_nr_running (the_rq s) + 1"
  "rq_nr_running (the_rq (dec_nr_running s)) = rq_nr_running (the_rq s) - 1"
  by (simp_all add: inc_nr_running_def dec_nr_running_def)

section \<open>The effect of the operations on the queue\<close>

lemma wrr_inv_upd_task [simp]: "wrr_inv E (upd_task p f s) ts \<longleftrightarrow> wrr_inv E s ts"
  by (rule wrr_inv_cong) simp_all

lemma wrr_inv_inc_dec [simp]:
  "wrr_inv E (inc_nr_running s) ts \<longleftrightarrow> wrr_inv E s ts"
  "wrr_inv E (dec_nr_running s) ts \<longleftrightarrow> wrr_inv E s ts"
  by (rule wrr_inv_cong; simp)+

lemma wrr_inv_update_curr [simp]: "wrr_inv E (update_curr_wrr F s) ts \<longleftrightarrow> wrr_inv E s ts"
  by (rule wrr_inv_cong) (simp_all add: frame_simps)

lemma wrr_inv_init:
  assumes K: "klist_ok (klist E)" and nr: "wrr_nr_running (rq_wrr (the_rq s)) = 0"
    and others: "\<And>p. is_list (links s) (WrrRun p) []"
  shows "wrr_inv E (init_wrr_rq E s) []"
proof -
  let ?h = "kl_INIT_LIST_HEAD (klist E) WrrQueue (links s)"
  note i = init_okD [OF klist_okD(1) [OF K]]
  have "is_list ?h (WrrRun p) []" for p
    using others [of p] by (simp add: is_list_Nil i(2))
  then have "on_queue WrrRun ?h WrrQueue []"
    using i(1) by (auto simp: on_queue_def inj_def)
  then show ?thesis using K nr by (simp add: wrr_inv_def init_wrr_rq_def Let_def)
qed

lemma wrr_inv_enqueue':
  assumes i: "wrr_inv E s ts" and p: "p \<notin> set ts" and room: "Suc (length ts) < 2 ^ 32"
  shows "wrr_inv E (enqueue_wrr_entity' E p head s) (if head then p # ts else ts @ [p])"
proof -
  note w = wrr_invD [OF i]
  show ?thesis
    using w(3,5) room on_queue_add [OF w(1,2) p] on_queue_add_tail [OF w(1,2) p] w(1)
    by (simp add: wrr_inv_def enqueue_wrr_entity'_def inc_wrr_tasks_def)
qed

lemma wrr_inv_dequeue':
  assumes i: "wrr_inv E s ts" and p: "p \<in> set ts"
  shows "wrr_inv E (dequeue_wrr_entity' E p s) (removeAll p ts)"
    and "warns (dequeue_wrr_entity' E p s) = warns s"
proof -
  note w = wrr_invD [OF i]
  have n: "length ts = Suc (length (removeAll p ts))"
    using length_removeAll_distinct [OF wrr_inv_distinct [OF i] p] by simp
  show "wrr_inv E (dequeue_wrr_entity' E p s) (removeAll p ts)"
    using w on_queue_del_init [OF w(1,2) p] n
    by (simp add: wrr_inv_def dequeue_wrr_entity'_def dec_wrr_tasks_def Let_def)
  have "ts \<noteq> []" using p by auto
  then show "warns (dequeue_wrr_entity' E p s) = warns s"
    using wrr_inv_empty_iff [OF i]
    by (simp add: dequeue_wrr_entity'_def dec_wrr_tasks_def Let_def)
qed

lemma wrr_inv_stack:
  assumes i: "wrr_inv E s ts"
  shows "wrr_inv E (dequeue_wrr_stack E p s) (removeAll p ts)"
    and "warns (dequeue_wrr_stack E p s) = warns s"
proof -
  let ?s = "upd_task p (t_wrr_update (wse_back_update (\<lambda>_. None))) s"
  have i': "wrr_inv E ?s ts" using i by simp
  note iff = on_wrr_rq_iff [OF i', of p]
  show "wrr_inv E (dequeue_wrr_stack E p s) (removeAll p ts)"
    using wrr_inv_dequeue'(1) [OF i', of p] i' iff by (simp add: dequeue_wrr_stack_def Let_def)
  show "warns (dequeue_wrr_stack E p s) = warns s"
    using wrr_inv_dequeue'(2) [OF i', of p] iff by (simp add: dequeue_wrr_stack_def Let_def)
qed

lemma wrr_inv_enqueue_task:
  assumes i: "wrr_inv E s ts" and room: "Suc (length (removeAll p ts)) < 2 ^ 32"
  shows "wrr_inv E (enqueue_task_wrr E p flags s)
    (if and flags ENQUEUE_HEAD \<noteq> 0 then p # removeAll p ts else removeAll p ts @ [p])"
proof -
  let ?s = "if and flags ENQUEUE_WAKEUP \<noteq> 0
    then upd_task p (t_wrr_update (wse_timeout_update (\<lambda>_. 0))) s else s"
  have "wrr_inv E ?s ts" using i by simp
  then have "wrr_inv E (dequeue_wrr_stack E p ?s) (removeAll p ts)" by (rule wrr_inv_stack)
  then show ?thesis
    using wrr_inv_enqueue' [where head = "and flags ENQUEUE_HEAD \<noteq> 0", of E _ "removeAll p ts" p] room
    by (simp add: enqueue_task_wrr_def enqueue_wrr_entity_def)
qed

lemma wrr_inv_dequeue_task:
  assumes i: "wrr_inv E s ts"
  shows "wrr_inv E (dequeue_task_wrr E p flags s) (removeAll p ts)"
    and "warns (dequeue_task_wrr E p flags s) = warns s"
  using i wrr_inv_stack [of E "update_curr_wrr E s" ts p]
  by (simp_all add: dequeue_task_wrr_def dequeue_wrr_entity_def frame_simps)

lemma wrr_inv_requeue_task:
  assumes i: "wrr_inv E s ts" and p: "p \<in> set ts"
  shows "wrr_inv E (requeue_task_wrr E p head s)
    (if head \<noteq> 0 then p # removeAll p ts else removeAll p ts @ [p])"
proof -
  note w = wrr_invD [OF i]
  have l: "Suc (length (removeAll p ts)) = length ts"
    by (rule length_removeAll_distinct [OF wrr_inv_distinct [OF i] p])
  show ?thesis
    using w on_wrr_rq_iff [OF i, of p] p on_queue_move [OF w(1,2) p] on_queue_move_tail [OF w(1,2) p] l
    by (simp add: wrr_inv_def requeue_task_wrr_def requeue_wrr_entity_def flip: of_nat_Suc)
qed

lemma requeue_task_wrr_other:
  "wrr_inv E s ts \<Longrightarrow> p \<notin> set ts \<Longrightarrow> requeue_task_wrr E p head s = s"
  by (simp add: requeue_task_wrr_def requeue_wrr_entity_def on_wrr_rq_iff)

lemma pick_next_wrr:
  assumes i: "wrr_inv E s ts"
  shows "pick_next_task_wrr s = (case ts of
      [] \<Rightarrow> Some (s, None)
    | p # _ \<Rightarrow> Some (upd_task p (t_se_update (se_exec_start_update
                (\<lambda>_. rq_clock_task (the_rq s)))) s, Some p))"
proof -
  note w = wrr_invD [OF i]
  show ?thesis
    using wrr_inv_empty_iff [OF i] w(5) on_queue_next [OF w(2)]
    by (simp add: pick_next_task_wrr_def pick_next_task_wrr'_def wrr_rq_throttled_def
        pick_next_wrr_entity_def split: list.split)
qed

section \<open>The tick\<close>

text \<open>The slice a tick starts from: an empty one is refilled first.\<close>

definition wrr_eff_slice :: "'x env \<Rightarrow> 'x sys \<Rightarrow> task_ptr \<Rightarrow> u32" where
  "wrr_eff_slice E s p =
     (if wse_time_slice (t_wrr (tasks s p)) = 0
      then wrr_group_slice E (t_sched_task_group (tasks s p))
      else wse_time_slice (t_wrr (tasks s p)))"

text \<open>A tick of a task of another policy only accounts time.\<close>

lemma tick_wrr_other_policy:
  "t_policy (tasks s p) \<noteq> SCHED_WRR \<Longrightarrow>
   task_tick_wrr E p q s = watchdog_wrr E p (update_curr_wrr E s)"
  by (simp add: task_tick_wrr_def Let_def frame_simps)

text \<open>While the slice lasts.\<close>

lemma tick_wrr_runs:
  assumes "t_policy (tasks s p) = SCHED_WRR" and "wrr_eff_slice E s p \<noteq> 1"
  shows "links (task_tick_wrr E p q s) = links s" "the_rq (task_tick_wrr E p q s) = the_rq s"
    "wse_time_slice (t_wrr (tasks (task_tick_wrr E p q s) p)) = wrr_eff_slice E s p - 1"
    "t_prio (tasks (task_tick_wrr E p q s) p) = min (t_prio (tasks s p) + 1) WRR_MAX_PRIO"
    "t_need_resched (tasks (task_tick_wrr E p q s) p) = t_need_resched (tasks s p)"
proof -
  have "wrr_eff_slice E s p - 1 \<noteq> 0" using assms(2) by simp
  then have pos: "0 < wrr_eff_slice E s p - 1" by (simp only: word_neq_0_conv)
  show "links (task_tick_wrr E p q s) = links s" "the_rq (task_tick_wrr E p q s) = the_rq s"
    "wse_time_slice (t_wrr (tasks (task_tick_wrr E p q s) p)) = wrr_eff_slice E s p - 1"
    "t_prio (tasks (task_tick_wrr E p q s) p) = min (t_prio (tasks s p) + 1) WRR_MAX_PRIO"
    "t_need_resched (tasks (task_tick_wrr E p q s) p) = t_need_resched (tasks s p)"
    using assms(1) pos
    by (simp_all add: task_tick_wrr_def Let_def frame_simps wrr_eff_slice_def wrr_group_slice_def
        set_wrr_slice_def split: if_splits)
qed

text \<open>
  When it ends. \<open>tick_wrr_refill\<close> is the state with the slice refilled, before the requeue.
\<close>

definition tick_wrr_refill :: "'x env \<Rightarrow> task_ptr \<Rightarrow> 'x sys \<Rightarrow> 'x sys" where
  "tick_wrr_refill E p s =
     (let s = watchdog_wrr E p (update_curr_wrr E s);
          s = (if wse_time_slice (t_wrr (tasks s p)) = 0
               then set_wrr_slice p (wrr_group_slice E (t_sched_task_group (tasks s p))) s else s);
          s = set_wrr_slice p (wse_time_slice (t_wrr (tasks s p)) - 1) s
      in set_wrr_slice p (wrr_group_slice E (t_sched_task_group (tasks s p))) s)"

lemma tick_wrr_refill_frame [frame_simps]:
  "links (tick_wrr_refill E p s) = links s" "the_rq (tick_wrr_refill E p s) = the_rq s"
  "warns (tick_wrr_refill E p s) = warns s"
  "wse_time_slice (t_wrr (tasks (tick_wrr_refill E p s) u)) =
     (if u = p then wrr_group_slice E (t_sched_task_group (tasks s p))
      else wse_time_slice (t_wrr (tasks s u)))"
  "t_policy (tasks (tick_wrr_refill E p s) u) = t_policy (tasks s u)"
  "t_prio (tasks (tick_wrr_refill E p s) u) = t_prio (tasks s u)"
  "t_sched_task_group (tasks (tick_wrr_refill E p s) u) = t_sched_task_group (tasks s u)"
  by (simp_all add: tick_wrr_refill_def Let_def frame_simps)

lemma wrr_inv_refill [simp]: "wrr_inv E (tick_wrr_refill F p s) ts \<longleftrightarrow> wrr_inv E s ts"
  by (rule wrr_inv_cong) (simp_all add: frame_simps)

lemma tick_wrr_expires_eq:
  assumes "t_policy (tasks s p) = SCHED_WRR" and "wrr_eff_slice E s p = 1"
  shows "task_tick_wrr E p q s =
    (if lh_prev (links s (WrrRun p)) \<noteq> lh_next (links s (WrrRun p))
     then set_tsk_need_resched p (requeue_task_wrr E p 0 (tick_wrr_refill E p s))
     else tick_wrr_refill E p s)"
  using assms
  by (simp add: task_tick_wrr_def tick_wrr_refill_def Let_def frame_simps wrr_eff_slice_def
      wrr_group_slice_def split: if_splits)

lemma tick_wrr_expires:
  assumes i: "wrr_inv E s ts" and pol: "t_policy (tasks s p) = SCHED_WRR"
    and one: "wrr_eff_slice E s p = 1"
  shows "wrr_inv E (task_tick_wrr E p q s) (if p \<in> set ts then removeAll p ts @ [p] else ts)"
    and "wse_time_slice (t_wrr (tasks (task_tick_wrr E p q s) p)) =
      wrr_group_slice E (t_sched_task_group (tasks s p))"
    and "t_prio (tasks (task_tick_wrr E p q s) p) = t_prio (tasks s p)"
    and "p \<in> set ts \<Longrightarrow> ts \<noteq> [p] \<Longrightarrow> t_need_resched (tasks (task_tick_wrr E p q s) p)"
proof -
  note w = wrr_invD [OF i]
  have neq: "lh_prev (links s (WrrRun p)) \<noteq> lh_next (links s (WrrRun p)) \<longleftrightarrow>
      p \<in> set ts \<and> ts \<noteq> [p]"
  proof (cases "p \<in> set ts")
    case True
    then show ?thesis using on_queue_neighbours_eq [OF w(2) True] by simp
  next
    case False
    then have "is_list (links s) (WrrRun p) []" using w(2) by (simp add: on_queue_def)
    then show ?thesis using False by (simp add: is_list_Nil)
  qed
  have r: "wrr_inv E (tick_wrr_refill E p s) ts" using i by simp
  note eq = tick_wrr_expires_eq [OF pol one, of q] and m = wrr_inv_requeue_task [OF r, of p 0]
  show "wrr_inv E (task_tick_wrr E p q s) (if p \<in> set ts then removeAll p ts @ [p] else ts)"
    using r m unfolding eq neq by (auto simp: need_resched_defs)
  show "wse_time_slice (t_wrr (tasks (task_tick_wrr E p q s) p)) =
      wrr_group_slice E (t_sched_task_group (tasks s p))"
    "t_prio (tasks (task_tick_wrr E p q s) p) = t_prio (tasks s p)"
    unfolding eq by (simp_all add: need_resched_defs frame_simps)
  show "p \<in> set ts \<Longrightarrow> ts \<noteq> [p] \<Longrightarrow> t_need_resched (tasks (task_tick_wrr E p q s) p)"
    unfolding eq neq by (simp add: need_resched_defs)
qed

text \<open>What a tick does to the other tasks, and to the fields no branch touches.\<close>

lemma tick_wrr_frame [frame_simps]:
  "u \<noteq> p \<Longrightarrow> wse_time_slice (t_wrr (tasks (task_tick_wrr E p q s) u)) =
     wse_time_slice (t_wrr (tasks s u))"
  "u \<noteq> p \<Longrightarrow> t_prio (tasks (task_tick_wrr E p q s) u) = t_prio (tasks s u)"
  "t_policy (tasks (task_tick_wrr E p q s) u) = t_policy (tasks s u)"
  "t_sched_task_group (tasks (task_tick_wrr E p q s) u) = t_sched_task_group (tasks s u)"
  "the_rq (task_tick_wrr E p q s) = the_rq s" "warns (task_tick_wrr E p q s) = warns s"
  by (simp_all add: task_tick_wrr_def Let_def frame_simps need_resched_defs)

lemma wrr_inv_tick:
  assumes i: "wrr_inv E s ts"
  shows "wrr_inv E (task_tick_wrr E p q s)
    (if t_policy (tasks s p) = SCHED_WRR \<and> wrr_eff_slice E s p = 1 \<and> p \<in> set ts
     then removeAll p ts @ [p] else ts)"
proof (cases "t_policy (tasks s p) = SCHED_WRR")
  case pol: True
  show ?thesis
  proof (cases "wrr_eff_slice E s p = 1")
    case True
    then show ?thesis using tick_wrr_expires(1) [OF i pol True] pol by simp
  next
    case False
    then show ?thesis
      using i tick_wrr_runs(1,2) [OF pol False] by (simp add: wrr_inv_def)
  qed
next
  case False
  then show ?thesis using i by (simp add: tick_wrr_other_policy wrr_inv_def frame_simps)
qed

section \<open>The class meets the run queue interface\<close>

text \<open>One turn of the processor: the picked task becomes current and gets a tick.\<close>

definition wrr_turn :: "'x env \<Rightarrow> task_ptr \<Rightarrow> 'x sys \<Rightarrow> 'x sys" where
  "wrr_turn E p s = task_tick_wrr E p 0 (upd_rq (rq_curr_update (\<lambda>_. p)) s)"

definition wrr_ready :: "'x env \<Rightarrow> (task_ptr \<Rightarrow> nat) \<Rightarrow> 'x sys \<Rightarrow> task_ptr \<Rightarrow> bool" where
  "wrr_ready E share s p \<longleftrightarrow> t_policy (tasks s p) = SCHED_WRR \<and> 0 < share p \<and>
     unat (wrr_group_slice E (t_sched_task_group (tasks s p))) = share p"

definition wrr_left :: "(task_ptr \<Rightarrow> nat) \<Rightarrow> 'x sys \<Rightarrow> task_ptr \<Rightarrow> nat" where
  "wrr_left share s p =
     (if wse_time_slice (t_wrr (tasks s p)) = 0 then share p
      else unat (wse_time_slice (t_wrr (tasks s p))))"

lemma wrr_eff_slice_left: "wrr_ready E share s p \<Longrightarrow> unat (wrr_eff_slice E s p) = wrr_left share s p"
  by (simp add: wrr_ready_def wrr_left_def wrr_eff_slice_def)

lemma wrr_eff_slice_cong: "tasks s' = tasks s \<Longrightarrow> wrr_eff_slice E s' p = wrr_eff_slice E s p"
  by (simp add: wrr_eff_slice_def)

lemma wrr_left_pos: "wrr_ready E share s p \<Longrightarrow> 0 < wrr_left share s p"
  by (simp add: wrr_ready_def wrr_left_def unat_gt_0)

interpretation wrr_rq: run_queue "wrr_inv E" pick_next_task_wrr "\<lambda>p. enqueue_task_wrr E p 0"
  "\<lambda>p. dequeue_task_wrr E p 0" "\<lambda>p. requeue_task_wrr E p 0" "2 ^ 32" for E :: "'x env"
proof
  fix s :: "'x sys" and ts p
  show "wrr_inv E s ts \<Longrightarrow> distinct ts" by (rule wrr_inv_distinct)
  show "wrr_inv E s ts \<Longrightarrow> p \<notin> set ts \<Longrightarrow> Suc (length ts) < 2 ^ 32 \<Longrightarrow>
      wrr_inv E (enqueue_task_wrr E p 0 s) (ts @ [p])"
    using wrr_inv_enqueue_task [of E s ts p 0] by (simp add: removeAll_id)
  show "wrr_inv E s ts \<Longrightarrow> wrr_inv E (dequeue_task_wrr E p 0 s) (removeAll p ts)"
    by (rule wrr_inv_dequeue_task)
  show "wrr_inv E s ts \<Longrightarrow> p \<in> set ts \<Longrightarrow>
      wrr_inv E (requeue_task_wrr E p 0 s) (removeAll p ts @ [p])"
    using wrr_inv_requeue_task [of E s ts p 0] by simp
  show "wrr_inv E s [] \<Longrightarrow> pick_next_task_wrr s = Some (s, None)"
    by (simp add: pick_next_wrr)
  show "wrr_inv E s (p # ts) \<Longrightarrow>
      \<exists>s'. pick_next_task_wrr s = Some (s', Some p) \<and> wrr_inv E s' (p # ts)"
    by (simp add: pick_next_wrr)
qed

lemma wrr_turn_frame:
  "u \<noteq> p \<Longrightarrow> wse_time_slice (t_wrr (tasks (wrr_turn E p s) u)) = wse_time_slice (t_wrr (tasks s u))"
  "t_policy (tasks (wrr_turn E p s) u) = t_policy (tasks s u)"
  "t_sched_task_group (tasks (wrr_turn E p s) u) = t_sched_task_group (tasks s u)"
  by (simp_all add: wrr_turn_def frame_simps)

lemma wrr_turn_runs:
  assumes i: "wrr_inv E s (p # ts)" and r: "wrr_ready E share s p" and l: "1 < wrr_left share s p"
  shows "wrr_inv E (wrr_turn E p s) (p # ts)"
    and "wrr_left share (wrr_turn E p s) p = wrr_left share s p - 1"
proof -
  let ?s = "upd_rq (rq_curr_update (\<lambda>_. p)) s"
  have e: "wrr_eff_slice E ?s p = wrr_eff_slice E s p" by (rule wrr_eff_slice_cong) simp
  have u: "unat (wrr_eff_slice E s p) = wrr_left share s p" by (rule wrr_eff_slice_left [OF r])
  have ne: "wrr_eff_slice E ?s p \<noteq> 1" "wrr_eff_slice E s p \<noteq> 0" using l u e by auto
  have pol: "t_policy (tasks ?s p) = SCHED_WRR" using r by (simp add: wrr_ready_def)
  note t = tick_wrr_runs [OF pol ne(1), of 0]
  show "wrr_inv E (wrr_turn E p s) (p # ts)"
    using i t(1,2) by (simp add: wrr_turn_def wrr_inv_def)
  have "unat (wrr_eff_slice E s p - 1) = wrr_left share s p - 1"
    using unat_dec [OF ne(2)] u by simp
  moreover from this l have "wrr_eff_slice E s p - 1 \<noteq> 0" by auto
  ultimately show "wrr_left share (wrr_turn E p s) p = wrr_left share s p - 1"
    using t(3) e by (simp add: wrr_turn_def wrr_left_def)
qed

lemma wrr_turn_expires:
  assumes i: "wrr_inv E s (p # ts)" and r: "wrr_ready E share s p" and l: "wrr_left share s p = 1"
  shows "wrr_inv E (wrr_turn E p s) (ts @ [p])" and "wrr_left share (wrr_turn E p s) p = share p"
proof -
  let ?s = "upd_rq (rq_curr_update (\<lambda>_. p)) s"
  have i': "wrr_inv E ?s (p # ts)" using i by (simp add: wrr_inv_def)
  have e: "wrr_eff_slice E ?s p = wrr_eff_slice E s p" by (rule wrr_eff_slice_cong) simp
  have "unat (wrr_eff_slice E s p) = 1" using wrr_eff_slice_left [OF r] l by simp
  then have one: "wrr_eff_slice E ?s p = 1" unfolding e by (metis unat_1 word_unat_eq_iff)
  have pol: "t_policy (tasks ?s p) = SCHED_WRR" using r by (simp add: wrr_ready_def)
  note t = tick_wrr_expires [OF i' pol one, of 0]
  have "p \<notin> set ts" using wrr_inv_distinct [OF i] by simp
  then show "wrr_inv E (wrr_turn E p s) (ts @ [p])"
    using t(1) by (simp add: wrr_turn_def removeAll_id)
  show "wrr_left share (wrr_turn E p s) p = share p"
    using t(2) r by (simp add: wrr_turn_def wrr_left_def wrr_ready_def)
qed

interpretation wrr_slices: sliced_queue "wrr_inv E" pick_next_task_wrr
  "wrr_turn E" "wrr_ready E share" "wrr_left share" share
  for E :: "'x env" and share :: "task_ptr \<Rightarrow> nat"
proof
  fix s s' :: "'x sys" and ts p u r
  show "wrr_ready E share s p \<Longrightarrow> 0 < wrr_left share s p" by (rule wrr_left_pos)
  show "wrr_ready E share s' u = wrr_ready E share s u" "wrr_left share s' u = wrr_left share s u"
    if "wrr_inv E s ts" "pick_next_task_wrr s = Some (s', r)"
    using that by (auto simp: pick_next_wrr wrr_ready_def wrr_left_def split: list.splits if_splits)
  assume i: "wrr_inv E s (p # ts)" and rd: "wrr_ready E share s p"
  show "1 < wrr_left share s p \<Longrightarrow> wrr_inv E (wrr_turn E p s) (p # ts) \<and>
      wrr_left share (wrr_turn E p s) p = wrr_left share s p - 1"
    using wrr_turn_runs [OF i rd] by simp
  show "wrr_left share s p = 1 \<Longrightarrow> wrr_inv E (wrr_turn E p s) (ts @ [p]) \<and>
      wrr_left share (wrr_turn E p s) p = share p"
    using wrr_turn_expires [OF i rd] by simp
  show "u \<noteq> p \<Longrightarrow> wrr_left share (wrr_turn E p s) u = wrr_left share s u"
    by (simp add: wrr_left_def wrr_turn_frame)
  show "wrr_ready E share (wrr_turn E p s) u = wrr_ready E share s u"
    by (simp add: wrr_ready_def wrr_turn_frame)
qed

section \<open>Reachable states\<close>

text \<open>PID_MAX_LIMIT bounds the number of tasks.\<close>

definition max_tasks :: nat where "max_tasks = 2 ^ 22"

text \<open>
  The steps of the machine as far as the class is concerned: a handler of the class, or code
  that leaves the list links, the class's part of the run queue and the warning count alone.
\<close>

inductive wrr_step :: "'x env \<Rightarrow> 'x sys \<Rightarrow> 'x sys \<Rightarrow> bool" for E where
  enqueue: "p < max_tasks \<Longrightarrow> wrr_step E s (enqueue_task_wrr E p flags s)"
| dequeue: "wrr_step E s (dequeue_task_wrr E p flags s)"
| requeue: "wrr_step E s (requeue_task_wrr E p head s)"
| yielding: "wrr_step E s (yield_task_wrr E s)"
| pick: "pick_next_task_wrr s = Some (s', r) \<Longrightarrow> wrr_step E s s'"
| put_prev: "wrr_step E s (put_prev_task_wrr E p s)"
| set_curr: "wrr_step E s (set_curr_task_wrr s)"
| tick: "wrr_step E s (task_tick_wrr E p queued s)"
| elsewhere: "links s' = links s \<Longrightarrow> rq_wrr (the_rq s') = rq_wrr (the_rq s) \<Longrightarrow>
    warns s' = warns s \<Longrightarrow> wrr_step E s s'"

inductive_cases wrr_step_cases: "wrr_step E s s'"

definition wrr_good :: "'x env \<Rightarrow> nat \<Rightarrow> 'x sys \<Rightarrow> bool" where
  "wrr_good E w s \<longleftrightarrow> (\<exists>ts. wrr_inv E s ts \<and> set ts \<subseteq> {..<max_tasks}) \<and> warns s = w"

lemma wrr_goodI:
  "wrr_inv E s ts \<Longrightarrow> set ts \<subseteq> {..<max_tasks} \<Longrightarrow> warns s = w \<Longrightarrow> wrr_good E w s"
  by (auto simp: wrr_good_def)

lemma wrr_good_upd_task [simp]: "wrr_good E w (upd_task p f s) \<longleftrightarrow> wrr_good E w s"
  by (simp add: wrr_good_def)

lemma max_tasks_room:
  assumes "distinct ts" and "set ts \<subseteq> {..<max_tasks}"
  shows "Suc (length ts) < 2 ^ 32"
proof -
  have "card (set ts) \<le> card {..<max_tasks}" by (rule card_mono) (use assms in auto)
  then have "length ts \<le> 4194304"
    using assms(1) by (simp add: distinct_card max_tasks_def)
  then show ?thesis by simp
qed

lemma enqueue_task_wrr_warns: "wrr_inv E s ts \<Longrightarrow> warns (enqueue_task_wrr E p flags s) = warns s"
  using wrr_inv_stack(2) [of E s ts p]
    wrr_inv_stack(2) [of E "upd_task p (t_wrr_update (wse_timeout_update (\<lambda>_. 0))) s" ts p]
  by (simp add: enqueue_task_wrr_def enqueue_wrr_entity_def enqueue_wrr_entity'_def Let_def
      inc_wrr_tasks_def)

lemma wrr_step_good:
  assumes st: "wrr_step E s s'" and g: "wrr_good E w s"
  shows "wrr_good E w s'"
proof -
  obtain ts where i: "wrr_inv E s ts" and b: "set ts \<subseteq> {..<max_tasks}" and w: "warns s = w"
    using g by (auto simp: wrr_good_def)
  have d: "distinct ts" by (rule wrr_inv_distinct [OF i])
  have req: "\<exists>us. wrr_inv E (requeue_task_wrr E p h s) us \<and> set us = set ts" for p h
    using wrr_inv_requeue_task [OF i, of p h] requeue_task_wrr_other [OF i, of p h] i
    by (cases "p \<in> set ts") (auto split: if_splits)
  show ?thesis
    using st
  proof (cases rule: wrr_step.cases)
    case (enqueue p flags)
    have "Suc (length (removeAll p ts)) < 2 ^ 32"
      using b d by (intro max_tasks_room) (auto simp: distinct_removeAll)
    from wrr_inv_enqueue_task [OF i this, of flags] enqueue_task_wrr_warns [OF i, of p flags]
    show ?thesis
      using enqueue b w by (auto elim!: wrr_goodI split: if_splits)
  next
    case (dequeue p flags)
    then show ?thesis using wrr_inv_dequeue_task [OF i, of p flags] b w
      by (auto elim!: wrr_goodI)
  next
    case (requeue p head)
    then show ?thesis using req [of p head] b w by (auto simp: wrr_good_def frame_simps)
  next
    case yielding
    then show ?thesis
      using req [of "curr s" 0] b w by (auto simp: wrr_good_def yield_task_wrr_def frame_simps)
  next
    case (pick r)
    then show ?thesis using g by (auto simp: pick_next_wrr [OF i] split: list.splits)
  next
    case (tick p queued)
    then show ?thesis using wrr_inv_tick [OF i, of p queued] b w
      by (auto elim!: wrr_goodI simp: frame_simps split: if_splits)
  next
    case elsewhere
    then show ?thesis using i b w by (auto simp: wrr_good_def wrr_inv_def)
  qed (use i b w in \<open>auto simp: wrr_good_def put_prev_task_wrr_def set_curr_task_wrr_def frame_simps\<close>)
qed

lemma wrr_steps_good: "(wrr_step E)\<^sup>*\<^sup>* s s' \<Longrightarrow> wrr_good E w s \<Longrightarrow> wrr_good E w s'"
  by (induction rule: rtranclp_induct) (auto intro: wrr_step_good)

lemma watchdog_wrr_step:
  assumes "task_rlimit s p RLIMIT_RTTIME \<noteq> RLIM_INFINITY"
  shows "watchdog_wrr E p s =
    (let n = wse_timeout (t_wrr (tasks s p)) + 1;
         lim = DIV_ROUND_UP (min (task_rlimit s p RLIMIT_RTTIME) (task_rlimit_max s p RLIMIT_RTTIME))
                 (of_nat (1000000 div cfg_HZ E))
     in upd_task p (\<lambda>t. t\<lparr>t_wrr := (t_wrr t)\<lparr>wse_timeout := n\<rparr>,
          t_sched_exp := (if lim < n then se_sum_exec_runtime (t_se t) else t_sched_exp t)\<rparr>) s)"
  using assms
  by (cases "tasks s p"; cases "t_wrr (tasks s p)")
    (simp add: watchdog_wrr_def Let_def upd_task_def USEC_PER_SEC_def)

lemma ticks_policy: "t_policy (tasks ((task_tick_wrr E p q ^^ n) s) u) = t_policy (tasks s u)"
  by (induction n) (simp_all add: frame_simps)

section \<open>Properties\<close>

text \<open>
  C6: In every state reachable from the initialised queue by the handlers of the class and by
  code that leaves its data alone, the linked list is a well-formed queue of distinct tasks that
  agrees with the counter, no WARN_ON has fired, the throttle flag is clear, and picking the
  next task is defined: it returns the head of the queue, or NULL exactly when it is empty.
\<close>

theorem wrr_reachable_safe:
  assumes "klist_ok (klist E)" and "wrr_nr_running (rq_wrr (the_rq s0)) = 0"
    and "\<And>p. is_list (links s0) (WrrRun p) []"
    and reach: "(wrr_step E)\<^sup>*\<^sup>* (init_wrr_rq E s0) s"
  shows "\<exists>ts. wrr_inv E s ts \<and> distinct ts \<and> warns s = warns s0 \<and>
    sched_wrr_runtime_exceeded (rq_wrr (the_rq s)) = 0 \<and>
    (\<exists>s'. pick_next_task_wrr s = Some (s', case ts of [] \<Rightarrow> None | p # _ \<Rightarrow> Some p))"
proof -
  have "warns (init_wrr_rq E s0) = warns s0" by (simp add: init_wrr_rq_def Let_def)
  then have "wrr_good E (warns s0) (init_wrr_rq E s0)"
    using wrr_inv_init [OF assms(1-3)] by (auto simp: wrr_good_def)
  from wrr_steps_good [OF reach this] obtain ts where i: "wrr_inv E s ts" "warns s = warns s0"
    by (auto simp: wrr_good_def)
  then show ?thesis
    using wrr_invD(5) [OF i(1)]
    by (intro exI [of _ ts])
      (auto simp: wrr_inv_distinct pick_next_wrr sched_wrr_runtime_exceeded_def
        wrr_rq_throttled_def split: list.split)
qed

text \<open>
  C1: Weighted round robin. When every queued task has the WRR policy and a full, nonzero slice,
  letting the picked task run tick by tick for \<open>n\<close> rounds runs the tasks in queue order, each for
  the slice of its group in every round, and ends with the same queue and full slices: in the
  long run a task gets the share \<open>slice / sum of the slices\<close> of the processor.
\<close>

theorem wrr_weighted_round_robin:
  assumes "wrr_inv E s ts" and "\<forall>p\<in>set ts. wrr_ready E share s p \<and> wrr_left share s p = share p"
  shows "\<exists>s'. run_ticks pick_next_task_wrr (wrr_turn E) (n * (\<Sum>p\<leftarrow>ts. share p)) s =
      Some (s', concat (replicate n (concat (map (\<lambda>p. replicate (share p) p) ts)))) \<and>
    wrr_inv E s' ts \<and> (\<forall>p\<in>set ts. wrr_ready E share s' p \<and> wrr_left share s' p = share p)"
  using assms by (rule wrr_slices.run_rounds)

text \<open>
  C12: The end of a slice. A tick that uses up the slice of a queued WRR task refills it with the
  slice of its group, leaves its priority alone, and moves it to the tail and asks for a
  reschedule exactly when it is not alone on the queue. (The comment above the loop in
  \<open>task_tick_wrr\<close> says the opposite: requeue if we are the only element.)
\<close>

theorem wrr_tick_end_of_slice:
  assumes "wrr_inv E s ts" and "p \<in> set ts" and "t_policy (tasks s p) = SCHED_WRR"
    and "wrr_eff_slice E s p = 1" and "\<not> t_need_resched (tasks s p)"
  shows "wrr_inv E (task_tick_wrr E p q s) (removeAll p ts @ [p]) \<and>
    wse_time_slice (t_wrr (tasks (task_tick_wrr E p q s) p)) = get_rr_interval_wrr E p s \<and>
    t_prio (tasks (task_tick_wrr E p q s) p) = t_prio (tasks s p) \<and>
    (t_need_resched (tasks (task_tick_wrr E p q s) p) \<longleftrightarrow> ts \<noteq> [p])"
proof -
  note t = tick_wrr_expires [OF assms(1,3,4), of q]
  have "ts = [p] \<Longrightarrow> \<not> t_need_resched (tasks (task_tick_wrr E p q s) p)"
    using assms on_queue_neighbours_eq [OF wrr_invD(2) [OF assms(1)] assms(2)]
    unfolding tick_wrr_expires_eq [OF assms(3,4)]
    by (simp add: tick_wrr_refill_def Let_def frame_simps set_wrr_slice_def)
  then show ?thesis
    using t assms(2,3) by (auto simp: get_rr_interval_wrr_def wrr_group_slice_def)
qed

text \<open>
  Within a slice. Over \<open>n\<close> ticks that do not use up the slice of a WRR task, the slice goes
  down by \<open>n\<close>, the queue keeps its order, no reschedule is requested, and the priority climbs
  by \<open>n\<close> up to the file's own MAX_PRIO of 500: a task at the default priority 120 leaves the
  kernel's range 0..139 after 20 such ticks.
\<close>

lemma wrr_ticks_within_slice:
  assumes "wrr_inv E s ts" and "t_policy (tasks s p) = SCHED_WRR"
    and "n < unat (wse_time_slice (t_wrr (tasks s p)))" and "t_prio (tasks s p) \<le> WRR_MAX_PRIO"
  shows "let s' = (task_tick_wrr E p 0 ^^ n) s in
    wrr_inv E s' ts \<and>
    unat (wse_time_slice (t_wrr (tasks s' p))) = unat (wse_time_slice (t_wrr (tasks s p))) - n \<and>
    t_prio (tasks s' p) = min (t_prio (tasks s p) + int n) 500 \<and>
    t_need_resched (tasks s' p) = t_need_resched (tasks s p)"
  using assms(3)
proof (induction n)
  case 0
  then show ?case using assms by (simp add: WRR_MAX_PRIO_def)
next
  case (Suc n)
  define s1 where "s1 = (task_tick_wrr E p 0 ^^ n) s"
  have pol: "t_policy (tasks s1 p) = SCHED_WRR"
    by (simp add: s1_def ticks_policy assms(2))
  have ih: "wrr_inv E s1 ts"
      "unat (wse_time_slice (t_wrr (tasks s1 p))) = unat (wse_time_slice (t_wrr (tasks s p))) - n"
      "t_prio (tasks s1 p) = min (t_prio (tasks s p) + int n) 500"
      "t_need_resched (tasks s1 p) = t_need_resched (tasks s p)"
    using Suc by (simp_all add: s1_def Let_def)
  have gt: "1 < unat (wse_time_slice (t_wrr (tasks s1 p)))" using ih(2) Suc.prems by simp
  then have nz: "wse_time_slice (t_wrr (tasks s1 p)) \<noteq> 0" by auto
  then have e: "wrr_eff_slice E s1 p = wse_time_slice (t_wrr (tasks s1 p))"
    by (simp add: wrr_eff_slice_def)
  have "wrr_eff_slice E s1 p \<noteq> 1" using gt e by auto
  note t = tick_wrr_runs [OF pol this, of 0]
  have "wrr_inv E (task_tick_wrr E p 0 s1) ts" using ih(1) t(1,2) by (simp add: wrr_inv_def)
  moreover have "unat (wse_time_slice (t_wrr (tasks (task_tick_wrr E p 0 s1) p))) =
      unat (wse_time_slice (t_wrr (tasks s p))) - Suc n"
    using t(3) e ih(2) unat_dec [OF nz] by simp
  ultimately show ?case
    using t(4,5) ih(3,4) by (simp add: Let_def WRR_MAX_PRIO_def flip: s1_def)
qed

text \<open>
  The background slice is \<open>10 * HZ / 1000\<close>, which is 0 when HZ is below 100. Then the slice of
  a background task is refilled with 0, the next tick refills it with 0 again and decrements
  it below zero: it wraps to \<open>2^32 - 1\<close> and the task keeps the processor instead of being
  rotated.
\<close>

lemma wrr_background_slice_underflow:
  assumes "wrr_inv E s ts" and "cfg_HZ E < 100"
    and "t_policy (tasks s p) = SCHED_WRR" and "wse_time_slice (t_wrr (tasks s p)) = 0"
    and "x_cgroup_path E (t_sched_task_group (tasks s p)) \<noteq> ''/''"
  shows "wse_time_slice (t_wrr (tasks (task_tick_wrr E p q s) p)) = - 1 \<and>
    wrr_inv E (task_tick_wrr E p q s) ts \<and>
    t_need_resched (tasks (task_tick_wrr E p q s) p) = t_need_resched (tasks s p)"
proof -
  have e: "wrr_eff_slice E s p = 0"
    using assms by (simp add: wrr_eff_slice_def wrr_group_slice_def find_group_def
        WRR_TIMESLICE_BACK_def)
  then have "wrr_eff_slice E s p \<noteq> 1" by simp
  note t = tick_wrr_runs [OF assms(3) this, of q]
  show ?thesis using t e assms(1) by (simp add: wrr_inv_def)
qed

text \<open>
  Accounting. Charging the running WRR task adds the time since \<open>exec_start\<close> (0 if the clock
  went backwards) to its run time, restamps it, and adds the same amount to the CPU usage of
  the task's accounting group and of each of its ancestors, once each, and to no other group;
  a second charge at the same clock adds nothing.
\<close>

lemma wrr_update_curr_accounts:
  assumes "t_sched_class (tasks s (curr s)) = Wrr_class" and "x_cpuacct_active E"
  defines "d \<equiv> rq_clock_task (the_rq s) - se_exec_start (t_se (tasks s (curr s)))"
  defines "d' \<equiv> if sint d < 0 then 0 else d"
  shows "se_sum_exec_runtime (t_se (tasks (update_curr_wrr E s) (curr s))) =
      se_sum_exec_runtime (t_se (tasks s (curr s))) + d' \<and>
    se_exec_start (t_se (tasks (update_curr_wrr E s) (curr s))) = rq_clock_task (the_rq s) \<and>
    (\<forall>g. ca_cpuusage (cpuaccts (update_curr_wrr E s) g) = ca_cpuusage (cpuaccts s g) +
       (if suffix g (x_task_ca E (ext s) (curr s)) then d' else 0)) \<and>
    (\<forall>g. ca_cpuusage (cpuaccts (update_curr_wrr E (update_curr_wrr E s)) g) =
       ca_cpuusage (cpuaccts (update_curr_wrr E s) g))"
proof -
  have *: "ca_cpuusage (cpuaccts (update_curr_wrr E r) g) = ca_cpuusage (cpuaccts r g) +
      (if suffix g (x_task_ca E (ext r) (curr r)) then
         (let e = rq_clock_task (the_rq r) - se_exec_start (t_se (tasks r (curr r)))
          in if sint e < 0 then 0 else e) else 0)"
    if "t_sched_class (tasks r (curr r)) = Wrr_class" for r g
    using that assms(2)
    by (simp add: update_curr_wrr_def Let_def cpuacct_charge_def charge_groups_usage
        del: charge_groups.simps)
  have st: "se_exec_start (t_se (tasks (update_curr_wrr E s) (curr s))) = rq_clock_task (the_rq s)"
    "se_sum_exec_runtime (t_se (tasks (update_curr_wrr E s) (curr s))) =
      se_sum_exec_runtime (t_se (tasks s (curr s))) + d'"
    using assms(1) by (simp_all add: update_curr_wrr_def Let_def d_def d'_def)
  show ?thesis
    using st * [of s] * [of "update_curr_wrr E s"] assms(1)
    by (simp add: frame_simps d_def d'_def Let_def)
qed

text \<open>
  The run time limit. A task that woke up with its timeout cleared and has a finite soft
  limit is counted once per tick; after \<open>n\<close> ticks its expiry time is armed with its run time
  exactly when \<open>n\<close> exceeds the smaller limit, rounded up to ticks, and nothing else changes.
\<close>

lemma wrr_watchdog_limit:
  fixes E :: "'x env" and s :: "'x sys"
  assumes "wse_timeout (t_wrr (tasks s p)) = 0" and "n < 2 ^ 32"
    and "task_rlimit s p RLIMIT_RTTIME \<noteq> RLIM_INFINITY"
  defines "lim \<equiv> DIV_ROUND_UP (min (task_rlimit s p RLIMIT_RTTIME) (task_rlimit_max s p RLIMIT_RTTIME))
                      (of_nat (1000000 div cfg_HZ E))"
  shows "(watchdog_wrr E p ^^ n) s = upd_task p (\<lambda>t. t\<lparr>
     t_wrr := (t_wrr t)\<lparr>wse_timeout := of_nat n\<rparr>,
     t_sched_exp := (if unat lim < n then se_sum_exec_runtime (t_se t) else t_sched_exp t)\<rparr>) s"
  using assms(2)
proof (induction n)
  case 0
  have "(t_wrr (tasks s p))\<lparr>wse_timeout := 0\<rparr> = t_wrr (tasks s p)"
    by (rule sched_wrr_entity.equality) (simp_all add: assms(1))
  then show ?case by (simp add: upd_task_def)
next
  case (Suc n)
  define s1 where "s1 = (watchdog_wrr E p ^^ n) s"
  have ih: "s1 = upd_task p (\<lambda>t. t\<lparr>t_wrr := (t_wrr t)\<lparr>wse_timeout := of_nat n\<rparr>,
     t_sched_exp := (if unat lim < n then se_sum_exec_runtime (t_se t) else t_sched_exp t)\<rparr>) s"
    using Suc by (simp add: s1_def)
  have l: "task_rlimit s1 p i = task_rlimit s p i" "task_rlimit_max s1 p i = task_rlimit_max s p i" for i
    by (simp_all add: ih task_rlimit_def task_rlimit_max_def)
  have t: "wse_timeout (t_wrr (tasks s1 p)) = of_nat n" by (simp add: ih)
  have w1: "of_nat n + 1 = (of_nat (Suc n) :: ulong)" by simp
  have c: "lim < of_nat (Suc n) \<longleftrightarrow> unat lim < Suc n"
  proof -
    have "unat (of_nat (Suc n) :: ulong) = Suc n"
      using Suc.prems by (subst unat_of_nat) simp
    then show ?thesis unfolding word_less_nat_alt by simp
  qed
  have "watchdog_wrr E p s1 = upd_task p (\<lambda>t. t\<lparr>t_wrr := (t_wrr t)\<lparr>wse_timeout := of_nat (Suc n)\<rparr>,
     t_sched_exp := (if unat lim < Suc n then se_sum_exec_runtime (t_se t) else t_sched_exp t)\<rparr>) s1"
    using watchdog_wrr_step [of s1 p E] assms(3) unfolding l lim_def [symmetric] t Let_def w1 c by blast
  also have "\<dots> = upd_task p (\<lambda>t. t\<lparr>t_wrr := (t_wrr t)\<lparr>wse_timeout := of_nat (Suc n)\<rparr>,
     t_sched_exp := (if unat lim < Suc n then se_sum_exec_runtime (t_se t) else t_sched_exp t)\<rparr>) s"
    unfolding ih upd_task_twice by (rule upd_task_cong) (simp del: of_nat_Suc)
  finally have "watchdog_wrr E p s1 = upd_task p (\<lambda>t. t\<lparr>t_wrr := (t_wrr t)\<lparr>wse_timeout := of_nat (Suc n)\<rparr>,
     t_sched_exp := (if unat lim < Suc n then se_sum_exec_runtime (t_se t) else t_sched_exp t)\<rparr>) s" .
  then show ?case by (simp add: s1_def)
qed

section \<open>Witnesses\<close>

text \<open>The sample machine with task 1 (foreground) and task 2 (background) on the queue.\<close>

definition sample_wrr :: "sample_ext sys" where
  "sample_wrr = enqueue_task_wrr sample_env 2 0
     (enqueue_task_wrr sample_env 1 0 (init_wrr_rq sample_env sample_sys))"

lemma sample_links: "is_list (links sample_sys) n []"
  by (simp add: sample_sys_def is_list_Nil)

lemma sample_wrr_init: "wrr_inv sample_env (init_wrr_rq sample_env sample_sys) []"
  by (rule wrr_inv_init) (simp_all add: sample_links, simp add: sample_sys_def sample_rq_def)

lemma sample_wrr_inv: "wrr_inv sample_env sample_wrr [1, 2]"
proof -
  have "wrr_inv sample_env (enqueue_task_wrr sample_env 1 0 (init_wrr_rq sample_env sample_sys)) ([] @ [1])"
    by (rule wrr_rq.enq_law [OF sample_wrr_init]) simp_all
  from wrr_rq.enq_law [OF this, of 2] show ?thesis by (simp add: sample_wrr_def)
qed

lemma enqueue_task_wrr_tasks:
  "tasks (enqueue_task_wrr E p 0 s) =
     (tasks s)(p := t_wrr_update (wse_back_update (\<lambda>_. None)) (tasks s p))"
  by (simp add: enqueue_task_wrr_def enqueue_wrr_entity_def enqueue_wrr_entity'_def Let_def
      dequeue_wrr_stack_def dequeue_wrr_entity'_def inc_wrr_tasks_def dec_wrr_tasks_def)

lemma enqueue_task_wrr_frame:
  "signals (enqueue_task_wrr E p 0 s) = signals s" "ext (enqueue_task_wrr E p 0 s) = ext s"
  "rq_clock_task (the_rq (enqueue_task_wrr E p 0 s)) = rq_clock_task (the_rq s)"
  "rq_curr (the_rq (enqueue_task_wrr E p 0 s)) = rq_curr (the_rq s)"
  by (simp_all add: enqueue_task_wrr_def enqueue_wrr_entity_def enqueue_wrr_entity'_def Let_def
      dequeue_wrr_stack_def dequeue_wrr_entity'_def inc_wrr_tasks_def dec_wrr_tasks_def
      inc_nr_running_def)

lemma sample_wrr_tasks: "tasks sample_wrr = sample_tasks"
proof -
  have "t_wrr_update (wse_back_update (\<lambda>_. None)) (sample_tasks p) = sample_tasks p" for p
    by (simp add: sample_defs)
  then have "sample_tasks(p := t_wrr_update (wse_back_update (\<lambda>_. None)) (sample_tasks p)) =
      sample_tasks" for p
    by simp
  moreover have "tasks (init_wrr_rq sample_env sample_sys) = sample_tasks"
    by (simp add: init_wrr_rq_def Let_def sample_sys_def)
  ultimately show ?thesis
    by (simp only: sample_wrr_def enqueue_task_wrr_tasks)
qed

lemma sample_slices:
  "wrr_group_slice sample_env [] = 10" "wrr_group_slice sample_env [7] = 1"
  by (simp_all add: wrr_group_slice_def find_group_def WRR_TIMESLICE_FORE_def
      WRR_TIMESLICE_BACK_def sample_env_def)

lemma wrr_reachable_safe_witness:
  "\<exists>ts. wrr_inv sample_env sample_wrr ts \<and> distinct ts \<and> warns sample_wrr = warns sample_sys \<and>
    sched_wrr_runtime_exceeded (rq_wrr (the_rq sample_wrr)) = 0 \<and>
    (\<exists>s'. pick_next_task_wrr sample_wrr = Some (s', case ts of [] \<Rightarrow> None | p # _ \<Rightarrow> Some p))"
proof -
  have "(wrr_step sample_env)\<^sup>*\<^sup>* (init_wrr_rq sample_env sample_sys) sample_wrr"
    unfolding sample_wrr_def
    by (rule rtranclp.rtrancl_into_rtrancl [OF rtranclp.rtrancl_into_rtrancl [OF rtranclp.rtrancl_refl]];
        rule wrr_step.enqueue; simp add: max_tasks_def)
  from wrr_reachable_safe [OF _ _ _ this] show ?thesis
    by (simp add: sample_links sample_sys_def sample_rq_def is_list_Nil)
qed

lemma wrr_weighted_round_robin_witness:
  "\<exists>s'. run_ticks pick_next_task_wrr (wrr_turn sample_env) 22 sample_wrr =
     Some (s', replicate 10 1 @ [2] @ replicate 10 1 @ [2]) \<and> wrr_inv sample_env s' [1, 2]"
proof -
  let ?share = "\<lambda>p :: nat. if p = 1 then 10 else 1"
  have "\<forall>p\<in>set [1, 2]. wrr_ready sample_env ?share sample_wrr p \<and>
      wrr_left ?share sample_wrr p = ?share p"
    by (auto simp: wrr_ready_def wrr_left_def sample_wrr_tasks sample_tasks_def
        sample_wrr_task_def sample_task_def sample_slices)
  from wrr_weighted_round_robin [OF sample_wrr_inv this, of 2] show ?thesis
    by (auto simp: numeral_2_eq_2 simp del: run_ticks.simps)
qed

lemma wrr_tick_end_of_slice_witness:
  "wrr_inv sample_env (task_tick_wrr sample_env 2 0 sample_wrr) [1, 2] \<and>
   wse_time_slice (t_wrr (tasks (task_tick_wrr sample_env 2 0 sample_wrr) 2)) = 1 \<and>
   t_need_resched (tasks (task_tick_wrr sample_env 2 0 sample_wrr) 2)"
  using wrr_tick_end_of_slice [OF sample_wrr_inv, of 2 0]
  by (simp add: sample_wrr_tasks wrr_eff_slice_def get_rr_interval_wrr_def
      find_group_def WRR_TIMESLICE_BACK_def sample_defs)

lemma wrr_ticks_within_slice_witness:
  "t_prio (tasks ((task_tick_wrr sample_env 1 0 ^^ 9) sample_wrr) 1) = 129 \<and>
   unat (wse_time_slice (t_wrr (tasks ((task_tick_wrr sample_env 1 0 ^^ 9) sample_wrr) 1))) = 1"
  using wrr_ticks_within_slice [OF sample_wrr_inv, of 1 9]
  by (simp add: sample_wrr_tasks sample_tasks_def sample_wrr_task_def sample_task_def
      WRR_MAX_PRIO_def Let_def)

text \<open>With HZ = 50 a background task whose slice is used up wraps.\<close>

lemma wrr_background_slice_underflow_witness:
  "let E = sample_env\<lparr>cfg_HZ := 50\<rparr>;
       s = set_wrr_slice 2 0 sample_wrr
   in wse_time_slice (t_wrr (tasks (task_tick_wrr E 2 0 s) 2)) = - 1"
proof -
  have "wrr_inv (sample_env\<lparr>cfg_HZ := 50\<rparr>) (set_wrr_slice 2 0 sample_wrr) [1, 2]"
    using sample_wrr_inv by (simp add: wrr_inv_def frame_simps)
  from wrr_background_slice_underflow [OF this, of 2 0] show ?thesis
    by (simp add: frame_simps sample_wrr_tasks sample_defs Let_def)
qed

lemma wrr_update_curr_accounts_witness:
  "let s = upd_rq (\<lambda>r. r\<lparr>rq_curr := 2, rq_clock_task := 5\<rparr>) sample_wrr
   in se_sum_exec_runtime (t_se (tasks (update_curr_wrr sample_env s) 2)) = 5 \<and>
      ca_cpuusage (cpuaccts (update_curr_wrr sample_env s) []) = ca_cpuusage (cpuaccts s []) + 5"
  using wrr_update_curr_accounts
    [of "upd_rq (\<lambda>r. r\<lparr>rq_curr := 2, rq_clock_task := 5\<rparr>) sample_wrr" sample_env]
  by (simp add: sample_wrr_tasks sample_defs Let_def)

lemma wrr_watchdog_limit_witness:
  "let s = sample_wrr\<lparr>signals := \<lambda>_. \<lparr>sig_rlim_cur = (\<lambda>_. 30000), sig_rlim_max = (\<lambda>_. 40000)\<rparr>\<rparr>
   in wse_timeout (t_wrr (tasks ((watchdog_wrr sample_env 1 ^^ 4) s) 1)) = 4"
  using wrr_watchdog_limit [of "sample_wrr\<lparr>signals := \<lambda>_. \<lparr>sig_rlim_cur = (\<lambda>_. 30000),
      sig_rlim_max = (\<lambda>_. 40000)\<rparr>\<rparr>" 1 4 sample_env]
  by (simp add: sample_wrr_tasks sample_defs Let_def task_rlimit_def RLIM_INFINITY_def)

end
