(* ===== verification/Klists.thy ===== *)
theory Klists
  imports Klist
begin

text \<open>
  An indexed family of lists over one family of entries: the priority array of the real-time
  class has a list for every priority of every group, and an entity is on at most one of them.
  \<open>on_queues node hq K h Q\<close>: for the indices \<open>k\<close> in \<open>K\<close> the list at \<open>hq k\<close> holds the entries
  \<open>Q k\<close>, no entry is on two lists, and an entry on none points to itself.
\<close>

definition on_queues ::
  "('a \<Rightarrow> 'n) \<Rightarrow> ('k \<Rightarrow> 'n) \<Rightarrow> 'k set \<Rightarrow> 'n links \<Rightarrow> ('k \<Rightarrow> 'a list) \<Rightarrow> bool" where
  "on_queues node hq K h Q \<longleftrightarrow> inj node \<and> inj hq \<and> range hq \<inter> range node = {} \<and>
     (\<forall>k. k \<notin> K \<longrightarrow> Q k = []) \<and>
     (\<forall>k\<in>K. is_list h (hq k) (map node (Q k))) \<and>
     (\<forall>k l t. t \<in> set (Q k) \<longrightarrow> t \<in> set (Q l) \<longrightarrow> k = l) \<and>
     (\<forall>t. (\<forall>k. t \<notin> set (Q k)) \<longrightarrow> is_list h (node t) [])"

lemma on_queuesD:
  assumes "on_queues node hq K h Q"
  shows "inj node" "inj hq" "hq k \<noteq> node t" "k \<notin> K \<Longrightarrow> Q k = []"
    "k \<in> K \<Longrightarrow> is_list h (hq k) (map node (Q k))"
    "t \<in> set (Q k) \<Longrightarrow> t \<in> set (Q l) \<Longrightarrow> k = l"
    "(\<And>k. t \<notin> set (Q k)) \<Longrightarrow> is_list h (node t) []"
  using assms unfolding on_queues_def by blast+

lemma on_queues_intro:
  assumes "on_queues node hq K h Q"
    and "\<And>k. k \<notin> K \<Longrightarrow> Q' k = []"
    and "\<And>k. k \<in> K \<Longrightarrow> is_list h' (hq k) (map node (Q' k))"
    and "\<And>k l t. t \<in> set (Q' k) \<Longrightarrow> t \<in> set (Q' l) \<Longrightarrow> k = l"
    and "\<And>t. (\<And>k. t \<notin> set (Q' k)) \<Longrightarrow> is_list h' (node t) []"
  shows "on_queues node hq K h' Q'"
  unfolding on_queues_def
proof (intro conjI allI ballI impI)
  show "inj node" "inj hq" "range hq \<inter> range node = {}"
    using assms(1) by (simp_all add: on_queues_def)
qed (use assms(2-) in blast)+

lemma on_queues_key: "on_queues node hq K h Q \<Longrightarrow> t \<in> set (Q k) \<Longrightarrow> k \<in> K"
  unfolding on_queues_def by (metis empty_iff list.set(1))

lemma on_queues_distinct: "on_queues node hq K h Q \<Longrightarrow> distinct (Q k)"
  using on_queuesD(4) [of node hq K h Q k] on_queuesD(5) [of node hq K h Q k]
  by (cases "k \<in> K") (auto dest: is_list_distinct simp: distinct_map)

lemma on_queues_cong:
  assumes q: "on_queues node hq K h Q" and f: "\<And>n. n \<in> range hq \<union> range node \<Longrightarrow> h' n = h n"
  shows "on_queues node hq K h' Q"
proof (rule on_queues_intro [OF q])
  fix k assume "k \<in> K"
  from on_queuesD(5) [OF q this] show "is_list h' (hq k) (map node (Q k))"
    by (rule is_list_cong) (rule f, auto)
next
  fix t assume "\<And>k. t \<notin> set (Q k)"
  from on_queuesD(7) [OF q this] show "is_list h' (node t) []"
    using f by (simp add: is_list_Nil)
qed (use on_queuesD(4,6) [OF q] in blast)+

lemma on_queues_empty_entry:
  assumes K: "klist_ok L" and q: "on_queues node hq K h Q"
  shows "kl_list_empty L (node t) h \<longleftrightarrow> (\<forall>k. t \<notin> set (Q k))"
proof (cases "\<exists>k. t \<in> set (Q k)")
  case True
  then obtain k where t: "t \<in> set (Q k)" by blast
  then have "k \<in> K" by (rule on_queues_key [OF q])
  from klist_empty_mem [OF K on_queuesD(5) [OF q this], of "node t"] t show ?thesis by auto
next
  case False
  then have "is_list h (node t) []" by (intro on_queuesD(7) [OF q]) blast
  with K False show ?thesis by (simp add: klist_empty is_list_Nil)
qed

lemma on_queues_empty_head:
  "klist_ok L \<Longrightarrow> on_queues node hq K h Q \<Longrightarrow> k \<in> K \<Longrightarrow> kl_list_empty L (hq k) h \<longleftrightarrow> Q k = []"
  by (drule (1) on_queuesD(5)) (simp add: klist_empty_head)

lemma on_queues_next:
  "on_queues node hq K h Q \<Longrightarrow> k \<in> K \<Longrightarrow>
   lh_next (h (hq k)) = (case Q k of [] \<Rightarrow> hq k | t # _ \<Rightarrow> node t)"
  by (drule (1) on_queuesD(5), drule is_list_next, simp split: list.splits)

lemma on_queues_neighbours_eq:
  assumes q: "on_queues node hq K h Q" and t: "t \<in> set (Q k)"
  shows "lh_prev (h (node t)) = lh_next (h (node t)) \<longleftrightarrow> Q k = [t]"
proof -
  have "k \<in> K" by (rule on_queues_key [OF q t])
  note l = on_queuesD(5) [OF q this] and i = on_queuesD(1) [OF q]
  from t have "node t \<in> set (map node (Q k))" by simp
  from is_list_neighbours_eq [OF l this] have
    "lh_prev (h (node t)) = lh_next (h (node t)) \<longleftrightarrow> map node (Q k) = map node [t]" by simp
  also have "\<dots> \<longleftrightarrow> Q k = [t]" using i by (rule inj_map_eq_map)
  finally show ?thesis .
qed

text \<open>
  Two steps cover all operations: one list is replaced, and the links change on that list and on
  the entry concerned only.
\<close>

lemma on_queues_update:
  assumes q: "on_queues node hq K h Q" and k: "k \<in> K"
    and l: "is_list h' (hq k) (map node ts)"
    and sub: "set ts \<subseteq> insert t (set (Q k))" "set (Q k) \<subseteq> insert t (set ts)"
    and t: "\<And>l. l \<noteq> k \<Longrightarrow> t \<notin> set (Q l)"
    and off: "t \<notin> set ts \<Longrightarrow> is_list h' (node t) []"
    and f: "\<And>m. m \<notin> set (node t # hq k # map node (Q k)) \<Longrightarrow> h' m = h m"
  shows "on_queues node hq K h' (Q(k := ts))"
proof (rule on_queues_intro [OF q])
  fix j assume "j \<in> K"
  show "is_list h' (hq j) (map node ((Q(k := ts)) j))"
  proof (cases "j = k")
    case False
    from on_queuesD(5) [OF q \<open>j \<in> K\<close>] have "is_list h' (hq j) (map node (Q j))"
    proof (rule is_list_cong)
      fix n assume n: "n \<in> set (hq j # map node (Q j))"
      show "h' n = h n"
      proof (rule f)
        show "n \<notin> set (node t # hq k # map node (Q k))"
          using n False t [OF False] on_queuesD(1-3,6) [OF q]
          by (auto dest: injD) (metis on_queuesD(3) [OF q])+
      qed
    qed
    then show ?thesis using False by simp
  qed (use l in simp)
next
  fix j assume "j \<notin> K"
  then show "(Q(k := ts)) j = []" using k on_queuesD(4) [OF q] by auto
next
  fix i j u assume "u \<in> set ((Q(k := ts)) i)" "u \<in> set ((Q(k := ts)) j)"
  then show "i = j" using sub(1) t on_queuesD(6) [OF q] by (auto split: if_splits)
next
  fix u assume u: "\<And>j. u \<notin> set ((Q(k := ts)) j)"
  show "is_list h' (node u) []"
  proof (cases "u = t")
    case True
    with u [of k] off show ?thesis by simp
  next
    case False
    have none: "u \<notin> set (Q j)" for j
      using u [of j] u [of k] sub(2) False by (cases "j = k") auto
    then have "is_list h (node u) []" by (intro on_queuesD(7) [OF q])
    moreover have "h' (node u) = h (node u)"
      using False none [of k] on_queuesD(1) [OF q] on_queuesD(3) [OF q, of k u]
      by (intro f) (auto dest: injD)
    ultimately show ?thesis by (simp add: is_list_Nil)
  qed
qed

lemma on_queues_insert:
  assumes "insert_ok f pos" and q: "on_queues node hq K h Q" and k: "k \<in> K"
    and t: "\<And>l. t \<notin> set (Q l)"
    and pos: "pos (node t) (map node (Q k)) = map node ts" "set ts = insert t (set (Q k))"
  shows "on_queues node hq K (f (node t) (hq k) h) (Q(k := ts))"
proof -
  have l: "is_list h (hq k) (map node (Q k))" by (rule on_queuesD(5) [OF q k])
  have n: "node t \<notin> set (hq k # map node (Q k))"
    using t [of k] on_queuesD(1) [OF q] on_queuesD(3) [OF q, of k t] by (auto dest: injD)
  show ?thesis
    by (rule on_queues_update [OF q k, where t = t])
      (use insert_okD [OF assms(1) l n] pos t in auto)
qed

lemma on_queues_moved:
  assumes "move_ok f pos" and q: "on_queues node hq K h Q" and t: "t \<in> set (Q k)"
    and pos: "pos (node t) (map node (removeAll t (Q k))) = map node ts" "set ts = set (Q k)"
  shows "on_queues node hq K (f (node t) (hq k) h) (Q(k := ts))"
proof -
  have k: "k \<in> K" by (rule on_queues_key [OF q t])
  have l: "is_list h (hq k) (map node (Q k))" by (rule on_queuesD(5) [OF q k])
  have n: "node t \<in> set (map node (Q k))" using t by simp
  show ?thesis
    by (rule on_queues_update [OF q k, where t = t])
      (use move_okD [OF assms(1) l n] pos t on_queuesD(1,6) [OF q] in
        \<open>auto simp: removeAll_map_inj\<close>)
qed

lemma on_queues_add [queue_intros]:
  "klist_ok L \<Longrightarrow> on_queues node hq K h Q \<Longrightarrow> k \<in> K \<Longrightarrow> (\<And>l. t \<notin> set (Q l)) \<Longrightarrow>
   on_queues node hq K (kl_list_add L (node t) (hq k) h) (Q(k := t # Q k))"
  by (rule on_queues_insert [OF klist_okD(2)]) (auto simp: at_front_def)

lemma on_queues_add_tail [queue_intros]:
  "klist_ok L \<Longrightarrow> on_queues node hq K h Q \<Longrightarrow> k \<in> K \<Longrightarrow> (\<And>l. t \<notin> set (Q l)) \<Longrightarrow>
   on_queues node hq K (kl_list_add_tail L (node t) (hq k) h) (Q(k := Q k @ [t]))"
  by (rule on_queues_insert [OF klist_okD(3)]) (auto simp: at_back_def)

lemma on_queues_move [queue_intros]:
  "klist_ok L \<Longrightarrow> on_queues node hq K h Q \<Longrightarrow> t \<in> set (Q k) \<Longrightarrow>
   on_queues node hq K (kl_list_move L (node t) (hq k) h) (Q(k := t # removeAll t (Q k)))"
  by (rule on_queues_moved [OF klist_okD(5)]) (auto simp: at_front_def)

lemma on_queues_move_tail [queue_intros]:
  "klist_ok L \<Longrightarrow> on_queues node hq K h Q \<Longrightarrow> t \<in> set (Q k) \<Longrightarrow>
   on_queues node hq K (kl_list_move_tail L (node t) (hq k) h) (Q(k := removeAll t (Q k) @ [t]))"
  by (rule on_queues_moved [OF klist_okD(6)]) (auto simp: at_back_def)

lemma on_queues_del_init [queue_intros]:
  assumes L: "klist_ok L" and q: "on_queues node hq K h Q" and t: "t \<in> set (Q k)"
  shows "on_queues node hq K (kl_list_del_init L (node t) h) (Q(k := removeAll t (Q k)))"
proof -
  have k: "k \<in> K" by (rule on_queues_key [OF q t])
  have l: "is_list h (hq k) (map node (Q k))" by (rule on_queuesD(5) [OF q k])
  have n: "node t \<in> set (map node (Q k))" using t by simp
  show ?thesis
    by (rule on_queues_update [OF q k, where t = t])
      (use del_okD [OF klist_okD(4) [OF L] l n] t on_queuesD(1,6) [OF q] in
        \<open>auto simp: removeAll_map_inj\<close>)
qed

text \<open>A node of another family keeps its links.\<close>

lemma on_queues_frame:
  assumes L: "klist_ok L" and q: "on_queues node hq K h Q" and m: "m \<notin> range hq \<union> range node"
  shows "k \<in> K \<Longrightarrow> (\<And>l. t \<notin> set (Q l)) \<Longrightarrow> kl_list_add L (node t) (hq k) h m = h m"
    and "k \<in> K \<Longrightarrow> (\<And>l. t \<notin> set (Q l)) \<Longrightarrow> kl_list_add_tail L (node t) (hq k) h m = h m"
    and "t \<in> set (Q k) \<Longrightarrow> kl_list_del_init L (node t) h m = h m"
    and "t \<in> set (Q k) \<Longrightarrow> kl_list_move L (node t) (hq k) h m = h m"
    and "t \<in> set (Q k) \<Longrightarrow> kl_list_move_tail L (node t) (hq k) h m = h m"
proof -
  have l: "k \<in> K \<Longrightarrow> is_list h (hq k) (map node (Q k))" for k by (rule on_queuesD(5) [OF q])
  have m': "m \<notin> set (hq k # map node (Q k))" and m'': "m \<notin> set (node t # hq k # map node (Q k))"
    for k using m by auto
  have fresh: "(\<And>l. t \<notin> set (Q l)) \<Longrightarrow> node t \<notin> set (hq k # map node (Q k))"
    using on_queuesD(1) [OF q] on_queuesD(3) [OF q, of k t] by (auto dest: injD)
  have mem: "t \<in> set (Q k) \<Longrightarrow> node t \<in> set (map node (Q k))" for k by simp
  note key = on_queues_key [OF q]
  show "k \<in> K \<Longrightarrow> (\<And>l. t \<notin> set (Q l)) \<Longrightarrow> kl_list_add L (node t) (hq k) h m = h m"
    by (rule insert_okD(2) [OF klist_okD(2) [OF L] l fresh m''])
  show "k \<in> K \<Longrightarrow> (\<And>l. t \<notin> set (Q l)) \<Longrightarrow> kl_list_add_tail L (node t) (hq k) h m = h m"
    by (rule insert_okD(2) [OF klist_okD(3) [OF L] l fresh m''])
  show "t \<in> set (Q k) \<Longrightarrow> kl_list_del_init L (node t) h m = h m"
    by (rule del_okD(3) [OF klist_okD(4) [OF L] l [OF key] mem m'])
  show "t \<in> set (Q k) \<Longrightarrow> kl_list_move L (node t) (hq k) h m = h m"
    by (rule move_okD(2) [OF klist_okD(5) [OF L] l [OF key] mem m'])
  show "t \<in> set (Q k) \<Longrightarrow> kl_list_move_tail L (node t) (hq k) h m = h m"
    by (rule move_okD(2) [OF klist_okD(6) [OF L] l [OF key] mem m'])
qed

end
