(* ===== verification/Rt.thy ===== *)
theory Rt
  imports Wrr
begin

text \<open>
  The real-time class, \<open>Prj2/kernel/sched/rt.c\<close>, in the uniprocessor build with group
  scheduling: a hierarchy of priority arrays, one per task group, in which a group is itself an
  entity of its parent's array. The theory has the operations of the class; what they do to the queues is in
  \<open>Rt_Queues\<close>, \<open>Rt_Hierarchy\<close>, \<open>Rt_Pick\<close> and \<open>Rt_Class\<close>, the properties in \<open>Rt_Spec\<close>,
  \<open>Rt_Throttle\<close> (the accounting of run time) and \<open>Rt_Round\<close> (the time slices).

  A task group is its path, so what \<open>init_tg_rt_entry\<close> stores in a group's entity (its parent,
  the queue it is on and the queue it owns) is read off the path. A primed name is the source
  function with leading underscores.
\<close>

section \<open>Entities and their queues\<close>

definition RR_TIMESLICE :: "'x env \<Rightarrow> u32" where
  "RR_TIMESLICE E = of_nat (100 * cfg_HZ E div 1000)"

definition get_rt_se :: "'x sys \<Rightarrow> rt_se_ptr \<Rightarrow> sched_rt_entity" where
  "get_rt_se s e = (case e of TaskRtSe p \<Rightarrow> t_rt (tasks s p) | GroupRtSe g \<Rightarrow> group_rt_ses s g)"

definition set_rt_se :: "rt_se_ptr \<Rightarrow> (sched_rt_entity \<Rightarrow> sched_rt_entity) \<Rightarrow> 'x sys \<Rightarrow> 'x sys" where
  "set_rt_se e f s = (case e of
      TaskRtSe p \<Rightarrow> upd_task p (t_rt_update f) s
    | GroupRtSe g \<Rightarrow> s\<lparr>group_rt_ses := (group_rt_ses s)(g := f (group_rt_ses s g))\<rparr>)"

definition rt_entity_is_task :: "rt_se_ptr \<Rightarrow> bool" where
  "rt_entity_is_task e = (case e of TaskRtSe _ \<Rightarrow> True | GroupRtSe _ \<Rightarrow> False)"

text \<open>\<open>tg->rt_se[cpu]\<close>: the root group has no entity.\<close>

definition tg_rt_se :: "tg_ptr \<Rightarrow> rt_se_ptr option" where
  "tg_rt_se g = (case g of [] \<Rightarrow> None | _ # _ \<Rightarrow> Some (GroupRtSe g))"

text \<open>\<open>rt_se->rt_rq\<close>, \<open>rt_se->my_q\<close> and \<open>rt_se->parent\<close>.\<close>

definition rt_rq_of_se :: "'x sys \<Rightarrow> rt_se_ptr \<Rightarrow> tg_ptr" where
  "rt_rq_of_se s e = (case e of
      TaskRtSe p \<Rightarrow> rse_rt_rq (t_rt (tasks s p))
    | GroupRtSe g \<Rightarrow> tl g)"

definition group_rt_rq :: "rt_se_ptr \<Rightarrow> tg_ptr option" where
  "group_rt_rq e = (case e of TaskRtSe _ \<Rightarrow> None | GroupRtSe g \<Rightarrow> Some g)"

definition rt_se_parent :: "'x sys \<Rightarrow> rt_se_ptr \<Rightarrow> rt_se_ptr option" where
  "rt_se_parent s e = (case e of
      TaskRtSe p \<Rightarrow> map_option GroupRtSe (rse_parent (t_rt (tasks s p)))
    | GroupRtSe g \<Rightarrow> tg_rt_se (tl g))"

lemma tl_Cons_length: "tl g = x # xs \<Longrightarrow> Suc (length xs) < length g"
  by (cases g) auto

text \<open>The entities \<open>for_each_sched_rt_entity\<close> visits, in order.\<close>

function rt_chain :: "'x sys \<Rightarrow> rt_se_ptr option \<Rightarrow> rt_se_ptr list" where
  "rt_chain s None = []"
| "rt_chain s (Some e) = e # rt_chain s (rt_se_parent s e)"
  by pat_completeness auto
termination
  by (relation "measures [\<lambda>(_, e). case e of Some (TaskRtSe _) \<Rightarrow> 1 | _ \<Rightarrow> 0,
        \<lambda>(_, e). case e of Some (GroupRtSe g) \<Rightarrow> Suc (length g) | _ \<Rightarrow> 0]")
    (auto simp: rt_se_parent_def tg_rt_se_def dest: tl_Cons_length
      split: rt_se_ptr.splits list.splits option.splits)

definition on_rt_rq :: "'x env \<Rightarrow> rt_se_ptr \<Rightarrow> 'x sys \<Rightarrow> bool" where
  "on_rt_rq E e s = (\<not> kl_list_empty (klist E) (RtRun e) (links s))"

section \<open>Bandwidth parameters\<close>

definition rt_bandwidth_enabled :: "'x sys \<Rightarrow> bool" where
  "rt_bandwidth_enabled s = (0 \<le> sysctl_rt_runtime s)"

text \<open>The test for a queue without group does not arise: every queue has its group.\<close>

definition sched_rt_runtime :: "'x sys \<Rightarrow> tg_ptr \<Rightarrow> u64" where
  "sched_rt_runtime s g = rtq_runtime (rt_rqs s g)"

definition sched_rt_period :: "'x sys \<Rightarrow> tg_ptr \<Rightarrow> u64" where
  "sched_rt_period s g = rtb_period (tg_rt_bandwidth (tgs s g))"

definition sched_rt_bandwidth :: "'x sys \<Rightarrow> tg_ptr \<Rightarrow> rt_bandwidth" where
  "sched_rt_bandwidth s g = tg_rt_bandwidth (tgs s g)"

definition init_rt_bandwidth :: "u64 \<Rightarrow> u64 \<Rightarrow> rt_bandwidth" where
  "init_rt_bandwidth period runtime = \<lparr>rtb_period = period, rtb_runtime = runtime\<rparr>"

text \<open>\<open>start_rt_bandwidth\<close> of the bandwidth of group \<open>g\<close>.\<close>

definition start_rt_bandwidth :: "'x env \<Rightarrow> tg_ptr \<Rightarrow> 'x sys \<Rightarrow> 'x sys" where
  "start_rt_bandwidth E g s =
     (if \<not> rt_bandwidth_enabled s \<or> rtb_runtime (sched_rt_bandwidth s g) = RUNTIME_INF then s
      else if x_hrtimer_active E (ext s) g then s
      else s\<lparr>ext := x_start_bandwidth_timer E g (rtb_period (sched_rt_bandwidth s g)) (ext s)\<rparr>)"

section \<open>Initialisation\<close>

definition init_rt_rq :: "'x env \<Rightarrow> tg_ptr \<Rightarrow> 'x sys \<Rightarrow> 'x sys" where
  "init_rt_rq E g s =
     (let s = fold (\<lambda>i s. upd_rt_rq g (rtq_bitmap_update (\<lambda>b. b(i := False)))
                (upd_links (kl_INIT_LIST_HEAD (klist E) (RtQueue g i)) s))
                [0..<nat MAX_RT_PRIO] s;
          s = upd_rt_rq g (rtq_bitmap_update (\<lambda>b. b(nat MAX_RT_PRIO := True))) s
      in upd_rt_rq g (\<lambda>q. q\<lparr>rtq_time := 0, rtq_throttled := 0, rtq_runtime := 0\<rparr>) s)"

text \<open>The root group passes no entity; the others get one, with an empty list node.\<close>

definition init_tg_rt_entry :: "'x env \<Rightarrow> tg_ptr \<Rightarrow> 'x sys \<Rightarrow> 'x sys" where
  "init_tg_rt_entry E g s =
     (let s = upd_rt_rq g (\<lambda>q. q\<lparr>rtq_highest_prio := MAX_RT_PRIO, rtq_nr_boosted := 0\<rparr>) s
      in case tg_rt_se g of
           None \<Rightarrow> s
         | Some e \<Rightarrow> upd_links (kl_INIT_LIST_HEAD (klist E) (RtRun e)) s)"

text \<open>
  \<open>alloc_rt_sched_group\<close>; whether each of the four allocations succeeds is an argument, and the
  result says whether all did. The memory is zeroed.
\<close>

definition zero_rt_rq :: rt_rq where
  "zero_rt_rq = \<lparr>rtq_bitmap = (\<lambda>_. False), rtq_nr_running = 0, rtq_highest_prio = 0,
     rtq_throttled = 0, rtq_time = 0, rtq_runtime = 0, rtq_nr_boosted = 0\<rparr>"

definition alloc_rt_sched_group ::
  "'x env \<Rightarrow> bool \<Rightarrow> bool \<Rightarrow> bool \<Rightarrow> bool \<Rightarrow> u64 \<Rightarrow> tg_ptr \<Rightarrow> 'x sys \<Rightarrow> 'x sys \<times> int" where
  "alloc_rt_sched_group E a1 a2 a3 a4 def_period g s =
     (if \<not> a1 then (s, 0)
      else if \<not> a2 then (s, 0)
      else
        let s = s\<lparr>tgs := (tgs s)(g := (tgs s g)\<lparr>tg_rt_bandwidth := init_rt_bandwidth def_period 0\<rparr>)\<rparr>
        in if \<not> a3 then (s, 0)
           else if \<not> a4 then (s, 0)
           else
             let s = upd_rt_rq g (\<lambda>_. zero_rt_rq) s;
                 s = init_rt_rq E g s;
                 s = upd_rt_rq g (rtq_runtime_update (\<lambda>_. rtb_runtime (tg_rt_bandwidth (tgs s g)))) s
             in (init_tg_rt_entry E g s, 1))"

section \<open>Priorities and counters of a queue\<close>

definition rt_prio :: "int \<Rightarrow> bool" where
  "rt_prio prio = (if prio < MAX_RT_PRIO then True else False)"

definition rt_se_prio :: "'x sys \<Rightarrow> rt_se_ptr \<Rightarrow> int" where
  "rt_se_prio s e = (case e of
      GroupRtSe g \<Rightarrow> rtq_highest_prio (rt_rqs s g)
    | TaskRtSe p \<Rightarrow> t_prio (tasks s p))"

definition rt_rq_throttled :: "'x sys \<Rightarrow> tg_ptr \<Rightarrow> bool" where
  "rt_rq_throttled s g = (rtq_throttled (rt_rqs s g) \<noteq> 0 \<and> rtq_nr_boosted (rt_rqs s g) = 0)"

definition rt_se_boosted :: "'x sys \<Rightarrow> rt_se_ptr \<Rightarrow> bool" where
  "rt_se_boosted s e = (case e of
      GroupRtSe g \<Rightarrow> rtq_nr_boosted (rt_rqs s g) \<noteq> 0
    | TaskRtSe p \<Rightarrow> t_prio (tasks s p) \<noteq> t_normal_prio (tasks s p))"

definition inc_rt_prio :: "tg_ptr \<Rightarrow> int \<Rightarrow> 'x sys \<Rightarrow> 'x sys" where
  "inc_rt_prio g prio s =
     (let prev_prio = rtq_highest_prio (rt_rqs s g) in
      if prio < prev_prio then upd_rt_rq g (rtq_highest_prio_update (\<lambda>_. prio)) s else s)"

definition dec_rt_prio :: "'x env \<Rightarrow> tg_ptr \<Rightarrow> int \<Rightarrow> 'x sys \<Rightarrow> 'x sys" where
  "dec_rt_prio E g prio s =
     (let prev_prio = rtq_highest_prio (rt_rqs s g) in
      if rtq_nr_running (rt_rqs s g) \<noteq> 0 then
        let s = WARN_ON (prio < prev_prio) s in
        if prio = prev_prio
        then upd_rt_rq g (\<lambda>q. q\<lparr>rtq_highest_prio := int (x_find_first_bit E (rtq_bitmap q))\<rparr>) s
        else s
      else upd_rt_rq g (rtq_highest_prio_update (\<lambda>_. MAX_RT_PRIO)) s)"

definition inc_rt_group :: "'x env \<Rightarrow> rt_se_ptr \<Rightarrow> tg_ptr \<Rightarrow> 'x sys \<Rightarrow> 'x sys" where
  "inc_rt_group E e g s =
     (let s = (if rt_se_boosted s e then upd_rt_rq g (rtq_nr_boosted_update (\<lambda>n. n + 1)) s else s)
      in start_rt_bandwidth E g s)"

definition dec_rt_group :: "rt_se_ptr \<Rightarrow> tg_ptr \<Rightarrow> 'x sys \<Rightarrow> 'x sys" where
  "dec_rt_group e g s =
     (let s = (if rt_se_boosted s e then upd_rt_rq g (rtq_nr_boosted_update (\<lambda>n. n - 1)) s else s)
      in WARN_ON (rtq_nr_running (rt_rqs s g) = 0 \<and> rtq_nr_boosted (rt_rqs s g) \<noteq> 0) s)"

definition inc_rt_tasks :: "'x env \<Rightarrow> rt_se_ptr \<Rightarrow> tg_ptr \<Rightarrow> 'x sys \<Rightarrow> 'x sys" where
  "inc_rt_tasks E e g s =
     (let prio = rt_se_prio s e;
          s = WARN_ON (\<not> rt_prio prio) s;
          s = upd_rt_rq g (rtq_nr_running_update (\<lambda>n. n + 1)) s;
          s = inc_rt_prio g prio s
      in inc_rt_group E e g s)"

definition dec_rt_tasks :: "'x env \<Rightarrow> rt_se_ptr \<Rightarrow> tg_ptr \<Rightarrow> 'x sys \<Rightarrow> 'x sys" where
  "dec_rt_tasks E e g s =
     (let s = WARN_ON (\<not> rt_prio (rt_se_prio s e)) s;
          s = WARN_ON (rtq_nr_running (rt_rqs s g) = 0) s;
          s = upd_rt_rq g (rtq_nr_running_update (\<lambda>n. n - 1)) s;
          s = dec_rt_prio E g (rt_se_prio s e) s
      in dec_rt_group e g s)"

definition list_add_leaf_rt_rq :: "tg_ptr \<Rightarrow> 'x sys \<Rightarrow> 'x sys" where
  "list_add_leaf_rt_rq g = upd_rq (rq_leaf_rt_rqs_update (\<lambda>l. g # l))"

definition list_del_leaf_rt_rq :: "tg_ptr \<Rightarrow> 'x sys \<Rightarrow> 'x sys" where
  "list_del_leaf_rt_rq g = upd_rq (rq_leaf_rt_rqs_update (removeAll g))"

section \<open>Queueing an entity\<close>

definition enqueue_rt_entity' :: "'x env \<Rightarrow> rt_se_ptr \<Rightarrow> bool \<Rightarrow> 'x sys \<Rightarrow> 'x sys" where
  "enqueue_rt_entity' E e head s =
     (let g = rt_rq_of_se s e;
          queue = RtQueue g (nat (rt_se_prio s e)) in
      case group_rt_rq e of
        Some my \<Rightarrow>
          if rt_rq_throttled s my \<or> rtq_nr_running (rt_rqs s my) = 0 then s
          else
            let s = (if rtq_nr_running (rt_rqs s g) = 0 then list_add_leaf_rt_rq g s else s);
                s = (if head then upd_links (kl_list_add (klist E) (RtRun e) queue) s
                     else upd_links (kl_list_add_tail (klist E) (RtRun e) queue) s);
                s = upd_rt_rq g (rtq_bitmap_update (\<lambda>b. b(nat (rt_se_prio s e) := True))) s
            in inc_rt_tasks E e g s
      | None \<Rightarrow>
          let s = (if rtq_nr_running (rt_rqs s g) = 0 then list_add_leaf_rt_rq g s else s);
              s = (if head then upd_links (kl_list_add (klist E) (RtRun e) queue) s
                   else upd_links (kl_list_add_tail (klist E) (RtRun e) queue) s);
              s = upd_rt_rq g (rtq_bitmap_update (\<lambda>b. b(nat (rt_se_prio s e) := True))) s
          in inc_rt_tasks E e g s)"

definition dequeue_rt_entity' :: "'x env \<Rightarrow> rt_se_ptr \<Rightarrow> 'x sys \<Rightarrow> 'x sys" where
  "dequeue_rt_entity' E e s =
     (let g = rt_rq_of_se s e;
          s = upd_links (kl_list_del_init (klist E) (RtRun e)) s;
          s = (if kl_list_empty (klist E) (RtQueue g (nat (rt_se_prio s e))) (links s)
               then upd_rt_rq g (rtq_bitmap_update (\<lambda>b. b(nat (rt_se_prio s e) := False))) s else s);
          s = dec_rt_tasks E e g s
      in if rtq_nr_running (rt_rqs s g) = 0 then list_del_leaf_rt_rq g s else s)"

text \<open>
  \<open>dequeue_rt_stack\<close>: the first loop threads the \<open>back\<close> pointers up the chain, the second
  follows them down again.
\<close>

primrec set_back_chain :: "rt_se_ptr option \<Rightarrow> rt_se_ptr list \<Rightarrow> 'x sys \<Rightarrow> 'x sys" where
  "set_back_chain back [] s = s"
| "set_back_chain back (e # es) s =
     set_back_chain (Some e) es (set_rt_se e (rse_back_update (\<lambda>_. back)) s)"

definition dequeue_rt_stack :: "'x env \<Rightarrow> rt_se_ptr \<Rightarrow> 'x sys \<Rightarrow> 'x sys" where
  "dequeue_rt_stack E e s =
     (let chain = rt_chain s (Some e);
          s = set_back_chain None chain s
      in fold (\<lambda>e s. if on_rt_rq E e s then dequeue_rt_entity' E e s else s) (rev chain) s)"

definition enqueue_rt_entity :: "'x env \<Rightarrow> rt_se_ptr \<Rightarrow> bool \<Rightarrow> 'x sys \<Rightarrow> 'x sys" where
  "enqueue_rt_entity E e head s =
     (let s = dequeue_rt_stack E e s
      in fold (\<lambda>e s. enqueue_rt_entity' E e head s) (rt_chain s (Some e)) s)"

definition dequeue_rt_entity :: "'x env \<Rightarrow> rt_se_ptr \<Rightarrow> 'x sys \<Rightarrow> 'x sys" where
  "dequeue_rt_entity E e s =
     (let s = dequeue_rt_stack E e s
      in fold (\<lambda>e s. case group_rt_rq e of
             Some my \<Rightarrow> if rtq_nr_running (rt_rqs s my) \<noteq> 0 then enqueue_rt_entity' E e False s else s
           | None \<Rightarrow> s)
         (rt_chain s (Some e)) s)"

text \<open>\<open>sched_rt_rq_enqueue\<close> and \<open>sched_rt_rq_dequeue\<close>: a whole group enters or leaves its parent.\<close>

definition sched_rt_rq_enqueue :: "'x env \<Rightarrow> tg_ptr \<Rightarrow> 'x sys \<Rightarrow> 'x sys" where
  "sched_rt_rq_enqueue E g s =
     (if rtq_nr_running (rt_rqs s g) \<noteq> 0 then
        let s = (case tg_rt_se g of
                   Some e \<Rightarrow> if \<not> on_rt_rq E e s then enqueue_rt_entity E e False s else s
                 | None \<Rightarrow> s)
        in if rtq_highest_prio (rt_rqs s g) < t_prio (tasks s (rq_curr (the_rq s)))
           then resched_task (rq_curr (the_rq s)) s else s
      else s)"

definition sched_rt_rq_dequeue :: "'x env \<Rightarrow> tg_ptr \<Rightarrow> 'x sys \<Rightarrow> 'x sys" where
  "sched_rt_rq_dequeue E g s =
     (case tg_rt_se g of
        Some e \<Rightarrow> if on_rt_rq E e s then dequeue_rt_entity E e s else s
      | None \<Rightarrow> s)"

section \<open>Accounting of run time\<close>

text \<open>\<open>balance_runtime\<close> of the uniprocessor build.\<close>

definition balance_runtime :: "tg_ptr \<Rightarrow> int" where
  "balance_runtime g = 0"

definition sched_rt_runtime_exceeded :: "'x env \<Rightarrow> tg_ptr \<Rightarrow> 'x sys \<Rightarrow> 'x sys \<times> bool" where
  "sched_rt_runtime_exceeded E g s =
     (let runtime = sched_rt_runtime s g in
      if rtq_throttled (rt_rqs s g) \<noteq> 0 then (s, rt_rq_throttled s g)
      else if sched_rt_period s g \<le> runtime then (s, False)
      else
        let runtime = sched_rt_runtime s g in
        if runtime = RUNTIME_INF then (s, False)
        else if runtime < rtq_time (rt_rqs s g) then
          let s = (if rtb_runtime (sched_rt_bandwidth s g) \<noteq> 0
                   then upd_rt_rq g (rtq_throttled_update (\<lambda>_. 1)) s
                   else upd_rt_rq g (rtq_time_update (\<lambda>_. 0)) s)
          in if rt_rq_throttled s g then (sched_rt_rq_dequeue E g s, True) else (s, False)
        else (s, False))"

text \<open>One round of the loop of \<open>update_curr_rt\<close>: the queue of one entity of the chain.\<close>

definition charge_rt_rq :: "'x env \<Rightarrow> task_ptr \<Rightarrow> u64 \<Rightarrow> tg_ptr \<Rightarrow> 'x sys \<Rightarrow> 'x sys" where
  "charge_rt_rq E c delta_exec g s =
     (if sched_rt_runtime s g \<noteq> RUNTIME_INF then
        let s = upd_rt_rq g (rtq_time_update (\<lambda>t. t + delta_exec)) s;
            (s, exceeded) = sched_rt_runtime_exceeded E g s
        in if exceeded then resched_task c s else s
      else s)"

definition update_curr_rt :: "'x env \<Rightarrow> 'x sys \<Rightarrow> 'x sys" where
  "update_curr_rt E s =
     (let c = rq_curr (the_rq s) in
      if t_sched_class (tasks s c) \<noteq> Rt_class then s
      else
        let delta_exec = rq_clock_task (the_rq s) - se_exec_start (t_se (tasks s c));
            delta_exec = (if sint delta_exec < 0 then 0 else delta_exec);
            s = upd_task c (t_se_update (se_sum_exec_runtime_update (\<lambda>r. r + delta_exec))) s;
            s = s\<lparr>ext := x_account_group_exec E c delta_exec (ext s)\<rparr>;
            s = upd_task c (t_se_update (se_exec_start_update (\<lambda>_. rq_clock_task (the_rq s)))) s;
            s = cpuacct_charge E c delta_exec s in
        if \<not> rt_bandwidth_enabled s then s
        else fold (\<lambda>e s. charge_rt_rq E c delta_exec (rt_rq_of_se s e) s)
               (rt_chain s (Some (TaskRtSe c))) s)"

text \<open>
  \<open>do_sched_rt_period_timer\<close> for the bandwidth of group \<open>g\<close> on the one processor; the product
  of the overrun count and the run time wraps at 64 bits. The result is the new state and
  whether the timer may stop.
\<close>

definition do_sched_rt_period_timer :: "'x env \<Rightarrow> tg_ptr \<Rightarrow> u64 \<Rightarrow> 'x sys \<Rightarrow> 'x sys \<times> bool" where
  "do_sched_rt_period_timer E g overrun s =
     (let (s, idle, enqueue) =
        (if rtq_time (rt_rqs s g) \<noteq> 0 then
           let runtime = rtq_runtime (rt_rqs s g);
               s = upd_rt_rq g (rtq_time_update (\<lambda>t. t - min t (overrun * runtime))) s;
               unthrottle = (rtq_throttled (rt_rqs s g) \<noteq> 0 \<and> rtq_time (rt_rqs s g) < runtime);
               s = (if unthrottle then
                      let s = upd_rt_rq g (rtq_throttled_update (\<lambda>_. 0)) s
                      in if rtq_nr_running (rt_rqs s g) \<noteq> 0 \<and>
                            rq_curr (the_rq s) = rq_idle (the_rq s)
                         then upd_rq (rq_skip_clock_update_update (\<lambda>_. - 1)) s else s
                    else s);
               idle = (if rtq_time (rt_rqs s g) \<noteq> 0 \<or> rtq_nr_running (rt_rqs s g) \<noteq> 0
                       then False else True)
           in (s, idle, unthrottle)
         else if rtq_nr_running (rt_rqs s g) \<noteq> 0 then (s, False, \<not> rt_rq_throttled s g)
         else (s, True, False));
        throttled = (rtq_throttled (rt_rqs s g) \<noteq> 0);
        s = (if enqueue then sched_rt_rq_enqueue E g s else s)
      in if \<not> throttled \<and> (\<not> rt_bandwidth_enabled s \<or>
              rtb_runtime (sched_rt_bandwidth s g) = RUNTIME_INF)
         then (s, True) else (s, idle))"

section \<open>Operations of the class\<close>

definition enqueue_task_rt :: "'x env \<Rightarrow> task_ptr \<Rightarrow> u32 \<Rightarrow> 'x sys \<Rightarrow> 'x sys" where
  "enqueue_task_rt E p flags s =
     (let s = (if and flags ENQUEUE_WAKEUP \<noteq> 0
               then upd_task p (t_rt_update (rse_timeout_update (\<lambda>_. 0))) s else s);
          s = enqueue_rt_entity E (TaskRtSe p) (and flags ENQUEUE_HEAD \<noteq> 0) s
      in inc_nr_running s)"

definition dequeue_task_rt :: "'x env \<Rightarrow> task_ptr \<Rightarrow> u32 \<Rightarrow> 'x sys \<Rightarrow> 'x sys" where
  "dequeue_task_rt E p flags s =
     (let s = update_curr_rt E s;
          s = dequeue_rt_entity E (TaskRtSe p) s
      in dec_nr_running s)"

definition requeue_rt_entity :: "'x env \<Rightarrow> tg_ptr \<Rightarrow> rt_se_ptr \<Rightarrow> int \<Rightarrow> 'x sys \<Rightarrow> 'x sys" where
  "requeue_rt_entity E g e head s =
     (if on_rt_rq E e s then
        let queue = RtQueue g (nat (rt_se_prio s e)) in
        if head \<noteq> 0 then upd_links (kl_list_move (klist E) (RtRun e) queue) s
        else upd_links (kl_list_move_tail (klist E) (RtRun e) queue) s
      else s)"

definition requeue_task_rt :: "'x env \<Rightarrow> task_ptr \<Rightarrow> int \<Rightarrow> 'x sys \<Rightarrow> 'x sys" where
  "requeue_task_rt E p head s =
     fold (\<lambda>e s. requeue_rt_entity E (rt_rq_of_se s e) e head s) (rt_chain s (Some (TaskRtSe p))) s"

definition yield_task_rt :: "'x env \<Rightarrow> 'x sys \<Rightarrow> 'x sys" where
  "yield_task_rt E s = requeue_task_rt E (rq_curr (the_rq s)) 0 s"

definition check_preempt_curr_rt :: "task_ptr \<Rightarrow> u32 \<Rightarrow> 'x sys \<Rightarrow> 'x sys" where
  "check_preempt_curr_rt p flags s =
     (if t_prio (tasks s p) < t_prio (tasks s (rq_curr (the_rq s)))
      then resched_task (rq_curr (the_rq s)) s else s)"

text \<open>None is BUG_ON or a pointer that is not an entity's list node.\<close>

definition pick_next_rt_entity :: "'x env \<Rightarrow> tg_ptr \<Rightarrow> 'x sys \<Rightarrow> rt_se_ptr option" where
  "pick_next_rt_entity E g s =
     (let idx = x_find_first_bit E (rtq_bitmap (rt_rqs s g)) in
      if MAX_RT_PRIO \<le> int idx then None
      else case lh_next (links s (RtQueue g idx)) of RtRun e \<Rightarrow> Some e | _ \<Rightarrow> None)"

text \<open>The do-while loop down the hierarchy; not ending is None as well.\<close>

partial_function (option) pick_rt_loop :: "'x env \<Rightarrow> 'x sys \<Rightarrow> tg_ptr \<Rightarrow> task_ptr option" where
  "pick_rt_loop E s g =
     (case pick_next_rt_entity E g s of
        None \<Rightarrow> None
      | Some (TaskRtSe p) \<Rightarrow> Some p
      | Some (GroupRtSe my) \<Rightarrow> pick_rt_loop E s my)"

definition pick_next_task_rt' :: "'x env \<Rightarrow> 'x sys \<Rightarrow> ('x sys \<times> task_ptr option) option" where
  "pick_next_task_rt' E s =
     (if rtq_nr_running (rt_rqs s []) = 0 then Some (s, None)
      else if rt_rq_throttled s [] then Some (s, None)
      else case pick_rt_loop E s [] of
        None \<Rightarrow> None
      | Some p \<Rightarrow>
          Some (upd_task p (t_se_update (se_exec_start_update (\<lambda>_. rq_clock_task (the_rq s)))) s,
                Some p))"

definition pick_next_task_rt :: "'x env \<Rightarrow> 'x sys \<Rightarrow> ('x sys \<times> task_ptr option) option" where
  "pick_next_task_rt E s = pick_next_task_rt' E s"

definition put_prev_task_rt :: "'x env \<Rightarrow> task_ptr \<Rightarrow> 'x sys \<Rightarrow> 'x sys" where
  "put_prev_task_rt E p s = update_curr_rt E s"

definition switched_to_rt :: "task_ptr \<Rightarrow> 'x sys \<Rightarrow> 'x sys" where
  "switched_to_rt p s =
     (if t_on_rq (tasks s p) \<noteq> 0 \<and> rq_curr (the_rq s) \<noteq> p then
        (if t_prio (tasks s p) < t_prio (tasks s (rq_curr (the_rq s)))
         then resched_task (rq_curr (the_rq s)) s else s)
      else s)"

definition prio_changed_rt :: "task_ptr \<Rightarrow> int \<Rightarrow> 'x sys \<Rightarrow> 'x sys" where
  "prio_changed_rt p oldprio s =
     (if t_on_rq (tasks s p) = 0 then s
      else if rq_curr (the_rq s) = p then
        (if oldprio < t_prio (tasks s p) then resched_task p s else s)
      else
        (if t_prio (tasks s p) < t_prio (tasks s (rq_curr (the_rq s)))
         then resched_task (rq_curr (the_rq s)) s else s))"

definition watchdog_rt :: "'x env \<Rightarrow> task_ptr \<Rightarrow> 'x sys \<Rightarrow> 'x sys" where
  "watchdog_rt E p s =
     (let soft = task_rlimit s p RLIMIT_RTTIME; hard = task_rlimit_max s p RLIMIT_RTTIME in
      if soft \<noteq> RLIM_INFINITY then
        let s = upd_task p (t_rt_update (rse_timeout_update (\<lambda>t. t + 1))) s;
            next = DIV_ROUND_UP (min soft hard) (of_nat (USEC_PER_SEC div cfg_HZ E))
        in if next < rse_timeout (t_rt (tasks s p))
           then upd_task p (t_sched_exp_update (\<lambda>_. se_sum_exec_runtime (t_se (tasks s p)))) s
           else s
      else s)"

definition set_rt_slice :: "task_ptr \<Rightarrow> u32 \<Rightarrow> 'x sys \<Rightarrow> 'x sys" where
  "set_rt_slice p v = upd_task p (t_rt_update (rse_time_slice_update (\<lambda>_. v)))"

text \<open>The search for an entity of the chain that is not alone on its queue.\<close>

fun rt_not_alone :: "'x sys \<Rightarrow> rt_se_ptr list \<Rightarrow> bool" where
  "rt_not_alone s [] = False"
| "rt_not_alone s (e # es) =
     (if lh_prev (links s (RtRun e)) \<noteq> lh_next (links s (RtRun e)) then True
      else rt_not_alone s es)"

definition task_tick_rt :: "'x env \<Rightarrow> task_ptr \<Rightarrow> int \<Rightarrow> 'x sys \<Rightarrow> 'x sys" where
  "task_tick_rt E p queued s =
     (let s = update_curr_rt E s;
          s = watchdog_rt E p s in
      if t_policy (tasks s p) \<noteq> SCHED_RR then s
      else
        let s = set_rt_slice p (rse_time_slice (t_rt (tasks s p)) - 1) s in
        if rse_time_slice (t_rt (tasks s p)) \<noteq> 0 then s
        else
          let s = set_rt_slice p (RR_TIMESLICE E) s in
          if rt_not_alone s (rt_chain s (Some (TaskRtSe p)))
          then set_tsk_need_resched p (requeue_task_rt E p 0 s)
          else s)"

definition set_curr_task_rt :: "'x sys \<Rightarrow> 'x sys" where
  "set_curr_task_rt s =
     (let p = rq_curr (the_rq s)
      in upd_task p (t_se_update (se_exec_start_update (\<lambda>_. rq_clock_task (the_rq s)))) s)"

definition get_rr_interval_rt :: "'x env \<Rightarrow> task_ptr \<Rightarrow> 'x sys \<Rightarrow> u32" where
  "get_rr_interval_rt E task s =
     (if t_policy (tasks s task) = SCHED_RR then RR_TIMESLICE E else 0)"

definition rt_sched_class :: "'x env \<Rightarrow> 'x class_ops" where
  "rt_sched_class E = \<lparr>
     co_next = Some Wrr_class,
     co_enqueue_task = enqueue_task_rt E,
     co_dequeue_task = dequeue_task_rt E,
     co_yield_task = yield_task_rt E,
     co_check_preempt_curr = check_preempt_curr_rt,
     co_pick_next_task = pick_next_task_rt E,
     co_put_prev_task = put_prev_task_rt E,
     co_set_curr_task = set_curr_task_rt,
     co_task_tick = task_tick_rt E,
     co_task_fork = None,
     co_switched_from = None,
     co_switched_to = switched_to_rt,
     co_prio_changed = prio_changed_rt,
     co_get_rr_interval = Some (get_rr_interval_rt E),
     co_task_move_group = None\<rparr>"

end
