(* ===== verification/Rt_Queues.thy ===== *)
theory Rt_Queues
  imports Klists Rt
begin

text \<open>
  The queues of the real-time class. Every task group has an array of 100 lists, one per
  priority, with a bitmap, a counter, the highest priority and a count of boosted entities
  beside it; a group is an entity of its parent's array, at the priority of its own best entity.
  The theory states the invariant that ties these together over the whole hierarchy, shows that
  every operation of the class keeps it, and what each does to the queued tasks.
\<close>

section \<open>One array\<close>

text \<open>The number of entities of an array, the number of those that satisfy \<open>b\<close>, and the first
  nonempty list, 100 if there is none.\<close>

definition arr_size :: "(nat \<Rightarrow> 'a list) \<Rightarrow> nat" where
  "arr_size qa = (\<Sum>i<100. length (qa i))"

definition arr_count :: "('a \<Rightarrow> bool) \<Rightarrow> (nat \<Rightarrow> 'a list) \<Rightarrow> nat" where
  "arr_count b qa = (\<Sum>i<100. length (filter b (qa i)))"

definition arr_top :: "(nat \<Rightarrow> 'a list) \<Rightarrow> nat" where
  "arr_top qa = (LEAST i. qa i \<noteq> [] \<or> i = 100)"

lemma arr_top_le: "arr_top qa \<le> 100"
  unfolding arr_top_def by (rule Least_le) simp

lemma arr_top_nonempty: "arr_top qa < 100 \<Longrightarrow> qa (arr_top qa) \<noteq> []"
  unfolding arr_top_def using LeastI [of "\<lambda>i. qa i \<noteq> [] \<or> i = 100" 100] by auto

lemma arr_top_lower: "qa i \<noteq> [] \<Longrightarrow> arr_top qa \<le> i"
  unfolding arr_top_def by (rule Least_le) simp

lemma arr_top_eqI:
  "qa i \<noteq> [] \<or> i = 100 \<Longrightarrow> (\<And>j. j < i \<Longrightarrow> qa j = [] \<and> j \<noteq> 100) \<Longrightarrow> arr_top qa = i"
  unfolding arr_top_def by (rule Least_equality) (auto simp: not_less [symmetric])

lemma arr_size_eq_0_iff: "arr_size qa = 0 \<longleftrightarrow> (\<forall>i<100. qa i = [])"
  by (auto simp: arr_size_def)

lemma arr_size_pos: "i < 100 \<Longrightarrow> e \<in> set (qa i) \<Longrightarrow> 0 < arr_size qa"
  using arr_size_eq_0_iff [of qa] by (cases "arr_size qa") auto

lemma arr_top_empty: "arr_size qa = 0 \<Longrightarrow> arr_top qa = 100"
  by (rule arr_top_eqI) (auto simp: arr_size_eq_0_iff)

lemma arr_top_less: "0 < arr_size qa \<Longrightarrow> arr_top qa < 100"
proof -
  assume "0 < arr_size qa"
  then obtain i where "i < 100" "qa i \<noteq> []" using arr_size_eq_0_iff [of qa] by auto
  then show ?thesis using arr_top_lower [of qa i] by simp
qed

lemma arr_top_insert:
  assumes "ts \<noteq> []" and "i < 100"
  shows "arr_top (qa(i := ts)) = min i (arr_top qa)"
proof (rule arr_top_eqI)
  show "(qa(i := ts)) (min i (arr_top qa)) \<noteq> [] \<or> min i (arr_top qa) = 100"
    using assms arr_top_nonempty [of qa] arr_top_le [of qa] by (auto simp: min_def)
  fix j assume "j < min i (arr_top qa)"
  then show "(qa(i := ts)) j = [] \<and> j \<noteq> 100"
    using assms arr_top_lower [of qa j] by fastforce
qed

lemma arr_top_keep:
  assumes "arr_top qa < i"
  shows "arr_top (qa(i := ts)) = arr_top qa"
proof (rule arr_top_eqI)
  show "(qa(i := ts)) (arr_top qa) \<noteq> [] \<or> arr_top qa = 100"
    using assms arr_top_nonempty [of qa] arr_top_le [of qa]
    by (cases "arr_top qa = 100") (auto simp: le_less)
  fix j assume "j < arr_top qa"
  then show "(qa(i := ts)) j = [] \<and> j \<noteq> 100"
    using assms arr_top_lower [of qa j] arr_top_le [of qa] by fastforce
qed

lemma arr_sum_upd:
  fixes f :: "'a list \<Rightarrow> nat"
  assumes "i < (100 :: nat)"
  shows "(\<Sum>j<100. f ((qa(i := ts)) j)) + f (qa i) = (\<Sum>j<100. f (qa j)) + f ts"
proof -
  have "(\<Sum>j\<in>{..<100} - {i}. f ((qa(i := ts)) j)) = (\<Sum>j\<in>{..<100} - {i}. f (qa j))"
    by (rule sum.cong) auto
  moreover have "i \<in> {..<100}" using assms by simp
  ultimately show ?thesis by (simp add: sum.remove [where x = i])
qed

lemma arr_size_upd: "i < 100 \<Longrightarrow> arr_size (qa(i := ts)) + length (qa i) = arr_size qa + length ts"
  unfolding arr_size_def by (rule arr_sum_upd)

lemma arr_count_upd:
  "i < 100 \<Longrightarrow> arr_count b (qa(i := ts)) + length (filter b (qa i)) =
    arr_count b qa + length (filter b ts)"
  unfolding arr_count_def by (rule arr_sum_upd [where f = "\<lambda>ts. length (filter b ts)"])

lemma arr_count_le: "arr_count b qa \<le> arr_size qa"
  unfolding arr_count_def arr_size_def by (rule sum_mono) simp

lemma arr_count_cong:
  "(\<And>i e. e \<in> set (qa i) \<Longrightarrow> b e = b' e) \<Longrightarrow> arr_count b qa = arr_count b' qa"
  unfolding arr_count_def by (intro sum.cong refl arg_cong [where f = length] filter_cong) auto

text \<open>
  The fields of a run queue agree with the array. Counters are words, so the array must be
  smaller than \<open>2^32\<close> for a counter of 0 to mean an empty array.
\<close>

definition rq_agrees :: "rt_rq \<Rightarrow> ('a \<Rightarrow> bool) \<Rightarrow> (nat \<Rightarrow> 'a list) \<Rightarrow> bool" where
  "rq_agrees R b qa \<longleftrightarrow> arr_size qa < 2 ^ 32 \<and>
     (\<forall>i<100. rtq_bitmap R i \<longleftrightarrow> qa i \<noteq> []) \<and> rtq_bitmap R 100 \<and>
     rtq_nr_running R = of_nat (arr_size qa) \<and>
     rtq_highest_prio R = int (arr_top qa) \<and>
     rtq_nr_boosted R = of_nat (arr_count b qa)"

lemma rq_agreesD:
  assumes "rq_agrees R b qa"
  shows "arr_size qa < 2 ^ 32" "i < 100 \<Longrightarrow> rtq_bitmap R i \<longleftrightarrow> qa i \<noteq> []" "rtq_bitmap R 100"
    "rtq_nr_running R = of_nat (arr_size qa)" "rtq_highest_prio R = int (arr_top qa)"
    "rtq_nr_boosted R = of_nat (arr_count b qa)"
    "rtq_nr_running R = 0 \<longleftrightarrow> arr_size qa = 0"
  using assms by (simp_all add: rq_agrees_def of_nat_word_eq_0_iff)

lemma rq_agrees_cong:
  "rq_agrees R b qa \<Longrightarrow> (\<And>i e. e \<in> set (qa i) \<Longrightarrow> b e = b' e) \<Longrightarrow> rq_agrees R b' qa"
  using arr_count_cong [of qa b b'] by (simp add: rq_agrees_def)

text \<open>The documented behaviour of \<open>sched_find_first_bit\<close> on a bitmap whose last bit is set.\<close>

definition ffb_ok :: "'x env \<Rightarrow> bool" where
  "ffb_ok E \<longleftrightarrow> (\<forall>b. b 100 \<longrightarrow> x_find_first_bit E b = (LEAST i. b i))"

lemma ffb_top:
  assumes E: "ffb_ok E" and a: "\<And>i. i < 100 \<Longrightarrow> b i \<longleftrightarrow> qa i \<noteq> []" "b 100"
  shows "x_find_first_bit E b = arr_top qa"
proof -
  have "(LEAST i. b i) = arr_top qa"
  proof (rule Least_equality)
    show "b (arr_top qa)"
      using a arr_top_nonempty [of qa] arr_top_le [of qa] by (cases "arr_top qa = 100") auto
    fix i assume "b i"
    then show "arr_top qa \<le> i"
      using a(1) arr_top_lower [of qa i] arr_top_le [of qa] by (cases "i < 100") auto
  qed
  with E a(2) show ?thesis by (simp add: ffb_ok_def)
qed

text \<open>What \<open>__enqueue_rt_entity\<close> and \<open>__dequeue_rt_entity\<close> do to the fields.\<close>

definition enq_rq :: "nat \<Rightarrow> bool \<Rightarrow> rt_rq \<Rightarrow> rt_rq" where
  "enq_rq i b R = R\<lparr>rtq_bitmap := (rtq_bitmap R)(i := True),
     rtq_nr_running := rtq_nr_running R + 1,
     rtq_highest_prio := (if int i < rtq_highest_prio R then int i else rtq_highest_prio R),
     rtq_nr_boosted := (if b then rtq_nr_boosted R + 1 else rtq_nr_boosted R)\<rparr>"

lemma rq_agrees_enq:
  assumes a: "rq_agrees R b qa" and i: "i < 100" and sz: "Suc (arr_size qa) < 2 ^ 32"
    and ts: "length ts = Suc (length (qa i))"
      "length (filter b ts) = (if b e then Suc (length (filter b (qa i))) else length (filter b (qa i)))"
  shows "rq_agrees (enq_rq i (b e) R) b (qa(i := ts))"
proof -
  have ne: "ts \<noteq> []" using ts(1) by auto
  have s: "arr_size (qa(i := ts)) = Suc (arr_size qa)"
    using arr_size_upd [OF i, of qa ts] ts(1) by simp
  have c: "arr_count b (qa(i := ts)) = (if b e then Suc (arr_count b qa) else arr_count b qa)"
    using arr_count_upd [OF i, of b qa ts] ts(2) by (simp split: if_splits)
  show ?thesis
    unfolding rq_agrees_def s c arr_top_insert [OF ne i] using rq_agreesD [OF a] i sz ne
    by (auto simp: enq_rq_def)
qed

definition deq_rq :: "'x env \<Rightarrow> nat \<Rightarrow> bool \<Rightarrow> bool \<Rightarrow> rt_rq \<Rightarrow> rt_rq" where
  "deq_rq E i emptied b R =
     (let bm = (if emptied then (rtq_bitmap R)(i := False) else rtq_bitmap R);
          n = rtq_nr_running R - 1
      in R\<lparr>rtq_bitmap := bm, rtq_nr_running := n,
           rtq_highest_prio :=
             (if n \<noteq> 0 then (if int i = rtq_highest_prio R then int (x_find_first_bit E bm)
                             else rtq_highest_prio R)
              else 100),
           rtq_nr_boosted := (if b then rtq_nr_boosted R - 1 else rtq_nr_boosted R)\<rparr>)"

lemma rq_agrees_deq:
  assumes E: "ffb_ok E" and a: "rq_agrees R b qa" and i: "i < 100"
    and ts: "length (qa i) = Suc (length ts)"
      "length (filter b (qa i)) = (if b e then Suc (length (filter b ts)) else length (filter b ts))"
  shows "rq_agrees (deq_rq E i (ts = []) (b e) R) b (qa(i := ts))"
proof -
  let ?qa = "qa(i := ts)"
  let ?bm = "if ts = [] then (rtq_bitmap R)(i := False) else rtq_bitmap R"
  note d = rq_agreesD [OF a]
  have s: "arr_size qa = Suc (arr_size ?qa)"
    using arr_size_upd [OF i, of qa ts] ts(1) by simp
  have c: "arr_count b qa = (if b e then Suc (arr_count b ?qa) else arr_count b ?qa)"
    using arr_count_upd [OF i, of b qa ts] ts(2) by (simp split: if_splits)
  have bm: "\<And>j. j < 100 \<Longrightarrow> ?bm j \<longleftrightarrow> ?qa j \<noteq> []" "?bm 100"
    using d(2,3) ts(1) i by (auto simp: fun_upd_def)
  have n: "rtq_nr_running R - 1 = of_nat (arr_size ?qa)" using d(4) s by simp
  have n0: "rtq_nr_running R - 1 = 0 \<longleftrightarrow> arr_size ?qa = 0"
    using n d(1) s by (simp add: of_nat_word_eq_0_iff)
  have top: "arr_top qa \<le> i" using ts(1) by (intro arr_top_lower) auto
  have hp: "(if rtq_nr_running R - 1 \<noteq> 0
      then if int i = rtq_highest_prio R then int (x_find_first_bit E ?bm) else rtq_highest_prio R
      else 100) = int (arr_top ?qa)"
  proof (cases "arr_size ?qa = 0")
    case True
    then show ?thesis using n0 arr_top_empty [OF True] by simp
  next
    case False
    show ?thesis
    proof (cases "i = arr_top qa")
      case True
      have "x_find_first_bit E ?bm = arr_top ?qa" by (rule ffb_top [OF E]) (use bm in blast)+
      then show ?thesis using True False n0 d(5) by simp
    next
      case neq: False
      then have "arr_top qa < i" using top by simp
      then show ?thesis using False neq n0 d(5) by (simp add: arr_top_keep)
    qed
  qed
  have sz: "arr_size ?qa < 2 ^ 32" using d(1) s by simp
  show ?thesis
    unfolding rq_agrees_def
  proof (intro conjI allI impI)
    show "arr_size ?qa < 2 ^ 32" by (rule sz)
    show "rtq_bitmap (deq_rq E i (ts = []) (b e) R) j \<longleftrightarrow> ?qa j \<noteq> []" if "j < 100" for j
      using bm(1) [OF that] by (simp add: deq_rq_def Let_def)
    show "rtq_bitmap (deq_rq E i (ts = []) (b e) R) 100"
      using bm(2) by (simp add: deq_rq_def Let_def)
    show "rtq_nr_running (deq_rq E i (ts = []) (b e) R) = of_nat (arr_size ?qa)"
      using n by (simp add: deq_rq_def Let_def)
    show "rtq_highest_prio (deq_rq E i (ts = []) (b e) R) = int (arr_top ?qa)"
      using hp by (simp add: deq_rq_def Let_def)
    show "rtq_nr_boosted (deq_rq E i (ts = []) (b e) R) = of_nat (arr_count b ?qa)"
      using d(6) c by (simp add: deq_rq_def Let_def split: if_splits)
  qed
qed

section \<open>The invariant of the hierarchy\<close>

text \<open>
  \<open>Q (g, i)\<close> is the list at priority \<open>i\<close> of group \<open>g\<close>, and \<open>U\<close> the entities that exist.
  \<open>X\<close> is the set of groups whose entity is off its queue for the moment, while the code changes
  the group's own array, and \<open>Y\<close> the set of groups whose throttling is being changed. Outside an
  operation both are empty: a group is queued exactly when it has a runnable entity and is not
  throttled.
\<close>

definition rt_links :: "'x sys \<Rightarrow> (tg_ptr \<times> nat \<Rightarrow> rt_se_ptr list) \<Rightarrow> bool" where
  "rt_links s Q \<longleftrightarrow>
     on_queues RtRun (\<lambda>(g, i). RtQueue g i) {(g, i). i < 100} (links s) Q"

definition rt_array :: "(tg_ptr \<times> nat \<Rightarrow> rt_se_ptr list) \<Rightarrow> tg_ptr \<Rightarrow> nat \<Rightarrow> rt_se_ptr list" where
  "rt_array Q g i = Q (g, i)"

definition rt_on :: "(tg_ptr \<times> nat \<Rightarrow> rt_se_ptr list) \<Rightarrow> rt_se_ptr \<Rightarrow> bool" where
  "rt_on Q e \<longleftrightarrow> (\<exists>k. e \<in> set (Q k))"

definition rt_active :: "'x sys \<Rightarrow> tg_ptr \<Rightarrow> bool" where
  "rt_active s g \<longleftrightarrow> rtq_nr_running (rt_rqs s g) \<noteq> 0 \<and> \<not> rt_rq_throttled s g"

definition rt_universe :: "rt_se_ptr set \<Rightarrow> bool" where
  "rt_universe U \<longleftrightarrow> finite U \<and> card U < 2 ^ 32 \<and> GroupRtSe [] \<notin> U \<and>
     (\<forall>g. GroupRtSe g \<in> U \<longrightarrow> tl g \<noteq> [] \<longrightarrow> GroupRtSe (tl g) \<in> U)"

definition rt_placed :: "rt_se_ptr set \<Rightarrow> 'x sys \<Rightarrow> (tg_ptr \<times> nat \<Rightarrow> rt_se_ptr list) \<Rightarrow> bool" where
  "rt_placed U s Q \<longleftrightarrow> (\<forall>g i. \<forall>e\<in>set (Q (g, i)).
     e \<in> U \<and> rt_rq_of_se s e = g \<and> rt_se_prio s e = int i)"

definition rt_groups_queued ::
  "tg_ptr set \<Rightarrow> tg_ptr set \<Rightarrow> 'x sys \<Rightarrow> (tg_ptr \<times> nat \<Rightarrow> rt_se_ptr list) \<Rightarrow> bool" where
  "rt_groups_queued Y X s Q \<longleftrightarrow>
     (\<forall>g. g \<noteq> [] \<longrightarrow> (g \<in> X \<longrightarrow> \<not> rt_on Q (GroupRtSe g)) \<and>
        (g \<notin> X \<longrightarrow> g \<notin> Y \<longrightarrow> (rt_on Q (GroupRtSe g) \<longleftrightarrow> rt_active s g)))"

definition rt_inv ::
  "'x env \<Rightarrow> rt_se_ptr set \<Rightarrow> tg_ptr set \<Rightarrow> tg_ptr set \<Rightarrow> 'x sys \<Rightarrow>
   (tg_ptr \<times> nat \<Rightarrow> rt_se_ptr list) \<Rightarrow> bool"
where
  "rt_inv E U Y X s Q \<longleftrightarrow> klist_ok (klist E) \<and> ffb_ok E \<and> rt_universe U \<and> rt_links s Q \<and>
     rt_placed U s Q \<and> (\<forall>g. rq_agrees (rt_rqs s g) (rt_se_boosted s) (rt_array Q g)) \<and>
     rt_groups_queued Y X s Q"

lemma rt_invD:
  assumes "rt_inv E U Y X s Q"
  shows "klist_ok (klist E)" "ffb_ok E" "rt_universe U" "rt_links s Q" "rt_placed U s Q"
    "rq_agrees (rt_rqs s g) (rt_se_boosted s) (rt_array Q g)" "rt_groups_queued Y X s Q"
  using assms by (simp_all add: rt_inv_def)

lemma rt_placedD:
  assumes "rt_placed U s Q" and "e \<in> set (Q (g, i))"
  shows "e \<in> U" "rt_rq_of_se s e = g" "rt_se_prio s e = int i"
  using assms by (auto simp: rt_placed_def)

lemma rt_key: "rt_links s Q \<Longrightarrow> e \<in> set (Q (g, i)) \<Longrightarrow> i < 100"
  by (auto simp: rt_links_def dest: on_queues_key)

lemma rt_on_place:
  assumes i: "rt_inv E U Y X s Q" and e: "rt_on Q e"
  obtains j where "e \<in> set (Q (rt_rq_of_se s e, j))" "j < 100" "rt_se_prio s e = int j" "e \<in> U"
proof -
  from e obtain g j where j: "e \<in> set (Q (g, j))" by (auto simp: rt_on_def)
  note d = rt_invD [OF i]
  show thesis using that [of j] j rt_placedD [OF d(5) j] rt_key [OF d(4) j] by simp
qed

lemma rt_on_iff: "rt_inv E U Y X s Q \<Longrightarrow> on_rt_rq E e s \<longleftrightarrow> rt_on Q e"
  by (auto simp: rt_inv_def on_rt_rq_def rt_on_def rt_links_def
    dest: on_queues_empty_entry [where t = e])

text \<open>An array is no larger than the set of existing entities, so its counter cannot wrap.\<close>

lemma rt_array_size:
  assumes l: "rt_links s Q" and sub: "\<And>i e. e \<in> set (Q (g, i)) \<Longrightarrow> e \<in> V" and fin: "finite V"
  shows "arr_size (rt_array Q g) \<le> card V"
proof -
  have q: "on_queues RtRun (\<lambda>(g, i). RtQueue g i) {(g, i). i < 100} (links s) Q"
    using l by (simp add: rt_links_def)
  have d: "length (Q (g, i)) = card (set (Q (g, i)))" for i
    using on_queues_distinct [OF q, of "(g, i)"] by (simp add: distinct_card)
  have "arr_size (rt_array Q g) = card (\<Union>i<100. set (Q (g, i)))"
  proof (subst card_UN_disjoint)
    show "\<forall>i\<in>{..<100}. \<forall>j\<in>{..<100}. i \<noteq> j \<longrightarrow> set (Q (g, i)) \<inter> set (Q (g, j)) = {}"
      using on_queuesD(6) [OF q] by blast
  qed (simp_all add: arr_size_def rt_array_def d)
  also have "\<dots> \<le> card V" by (rule card_mono [OF fin]) (use sub in blast)
  finally show ?thesis .
qed

section \<open>What the operations leave alone\<close>

text \<open>
  \<open>rt_frame s s'\<close>: at most the \<open>back\<close> pointers of the tasks, the list of leaf queues, the
  group run queues and the links of the real-time nodes differ, and the state outside.
\<close>

definition rt_node :: "lnode \<Rightarrow> bool" where
  "rt_node n = (case n of RtQueue _ _ \<Rightarrow> True | RtRun _ \<Rightarrow> True | _ \<Rightarrow> False)"

definition task_same_but_back :: "task_struct \<Rightarrow> task_struct \<Rightarrow> bool" where
  "task_same_but_back t t' \<longleftrightarrow> (\<exists>b. t' = t_rt_update (rse_back_update (\<lambda>_. b)) t)"

definition rt_frame :: "'x sys \<Rightarrow> 'x sys \<Rightarrow> bool" where
  "rt_frame s s' \<longleftrightarrow>
     (\<forall>p. task_same_but_back (tasks s p) (tasks s' p)) \<and> signals s' = signals s \<and>
     (\<exists>l. the_rq s' = rq_leaf_rt_rqs_update (\<lambda>_. l) (the_rq s)) \<and>
     (\<forall>n. \<not> rt_node n \<longrightarrow> links s' n = links s n) \<and>
     (\<forall>g. rtq_throttled (rt_rqs s' g) = rtq_throttled (rt_rqs s g) \<and>
        rtq_time (rt_rqs s' g) = rtq_time (rt_rqs s g) \<and>
        rtq_runtime (rt_rqs s' g) = rtq_runtime (rt_rqs s g)) \<and>
     tgs s' = tgs s \<and> cpuaccts s' = cpuaccts s \<and> sysctl_rt_period s' = sysctl_rt_period s \<and>
     sysctl_rt_runtime s' = sysctl_rt_runtime s \<and> warns s' = warns s"

lemma task_same_refl: "task_same_but_back t t"
  unfolding task_same_but_back_def by (rule exI [of _ "rse_back (t_rt t)"]) simp

lemma task_same_trans: "task_same_but_back t u \<Longrightarrow> task_same_but_back u v \<Longrightarrow> task_same_but_back t v"
  unfolding task_same_but_back_def by (elim exE, rule exI) (simp add: o_def)

lemma rt_frame_refl: "rt_frame s s"
  unfolding rt_frame_def using task_same_refl
  by (auto intro!: exI [of _ "rq_leaf_rt_rqs (the_rq s)"])

lemma rt_frame_trans: "rt_frame s t \<Longrightarrow> rt_frame t u \<Longrightarrow> rt_frame s u"
  unfolding rt_frame_def by (auto intro: task_same_trans)

lemma rt_frame_task:
  assumes "rt_frame s s'"
  shows "t_prio (tasks s' p) = t_prio (tasks s p)"
    "t_normal_prio (tasks s' p) = t_normal_prio (tasks s p)"
    "rse_rt_rq (t_rt (tasks s' p)) = rse_rt_rq (t_rt (tasks s p))"
    "rse_parent (t_rt (tasks s' p)) = rse_parent (t_rt (tasks s p))"
    "rse_time_slice (t_rt (tasks s' p)) = rse_time_slice (t_rt (tasks s p))"
    "t_sched_class (tasks s' p) = t_sched_class (tasks s p)"
    "t_on_rq (tasks s' p) = t_on_rq (tasks s p)"
    "t_policy (tasks s' p) = t_policy (tasks s p)"
    "t_need_resched (tasks s' p) = t_need_resched (tasks s p)"
    "t_se (tasks s' p) = t_se (tasks s p)"
    "t_wrr (tasks s' p) = t_wrr (tasks s p)"
  using assms by (auto simp: rt_frame_def task_same_but_back_def dest!: spec [where x = p])

lemma rt_frame_rq:
  assumes "rt_frame s s'"
  shows "rq_curr (the_rq s') = rq_curr (the_rq s)" "rq_wrr (the_rq s') = rq_wrr (the_rq s)"
    "rq_idle (the_rq s') = rq_idle (the_rq s)" "rq_stop (the_rq s') = rq_stop (the_rq s)"
    "rq_nr_running (the_rq s') = rq_nr_running (the_rq s)"
    "rq_clock_task (the_rq s') = rq_clock_task (the_rq s)"
  using assms by (auto simp: rt_frame_def)

text \<open>The chain of an entity depends on the parent pointers only.\<close>

primrec rt_ups :: "tg_ptr \<Rightarrow> tg_ptr list" where
  "rt_ups [] = []"
| "rt_ups (x # g) = (x # g) # rt_ups g"

lemma rt_ups_tl: "g \<noteq> [] \<Longrightarrow> rt_ups g = g # rt_ups (tl g)"
  by (cases g) auto

lemma rt_ups_length: "h \<in> set (rt_ups g) \<Longrightarrow> length h \<le> length g \<and> h \<noteq> []"
  by (induction g) auto

lemma rt_ups_mem: "g \<noteq> [] \<Longrightarrow> g \<in> set (rt_ups g)"
  by (cases g) auto

lemma rt_ups_up: "h \<in> set (rt_ups g) \<Longrightarrow> tl h \<noteq> [] \<Longrightarrow> tl h \<in> set (rt_ups g)"
  by (induction g) (auto intro: rt_ups_mem)

lemma rt_chain_group: "rt_chain s (tg_rt_se g) = map GroupRtSe (rt_ups g)"
  by (induction g) (simp_all add: tg_rt_se_def rt_se_parent_def split: list.splits)

text \<open>\<open>p\<close>'s real-time entity is set up for a group that exists.\<close>

definition rt_task_ok :: "rt_se_ptr set \<Rightarrow> 'x sys \<Rightarrow> task_ptr \<Rightarrow> bool" where
  "rt_task_ok U s p \<longleftrightarrow> TaskRtSe p \<in> U \<and>
     (let g = rse_rt_rq (t_rt (tasks s p)) in
      if g = [] then rse_parent (t_rt (tasks s p)) = None
      else rse_parent (t_rt (tasks s p)) = Some g \<and> GroupRtSe g \<in> U)"

lemma rt_chain_task:
  "rt_task_ok U s p \<Longrightarrow> rt_chain s (Some (TaskRtSe p)) =
     TaskRtSe p # map GroupRtSe (rt_ups (rse_rt_rq (t_rt (tasks s p))))" (is "_ \<Longrightarrow> ?thesis")
proof -
  assume "rt_task_ok U s p"
  then have "rt_se_parent s (TaskRtSe p) = tg_rt_se (rse_rt_rq (t_rt (tasks s p)))"
    by (cases "rse_rt_rq (t_rt (tasks s p))")
      (simp_all add: rt_task_ok_def rt_se_parent_def tg_rt_se_def Let_def)
  then show ?thesis by (simp add: rt_chain_group)
qed

section \<open>Entering and leaving one array\<close>

lemma rt_se_upd_simps [simp]:
  "e \<noteq> GroupRtSe g \<Longrightarrow> rt_se_prio (upd_rt_rq g f s) e = rt_se_prio s e"
  "e \<noteq> GroupRtSe g \<Longrightarrow> rt_se_boosted (upd_rt_rq g f s) e = rt_se_boosted s e"
  "rt_rq_of_se (upd_rt_rq g f s) e = rt_rq_of_se s e"
  "rt_se_prio (upd_links k s) e = rt_se_prio s e"
  "rt_se_boosted (upd_links k s) e = rt_se_boosted s e"
  "rt_rq_of_se (upd_links k s) e = rt_rq_of_se s e"
  "rt_se_prio (WARN_ON b s) e = rt_se_prio s e"
  "rt_se_boosted (WARN_ON b s) e = rt_se_boosted s e"
  "rt_se_prio (upd_rq r s) e = rt_se_prio s e"
  "rt_se_boosted (upd_rq r s) e = rt_se_boosted s e"
  by (auto simp: rt_se_prio_def rt_se_boosted_def rt_rq_of_se_def split: rt_se_ptr.splits)

lemma rt_se_cong:
  assumes "tasks s' = tasks s" and "\<And>h. e = GroupRtSe h \<Longrightarrow> rt_rqs s' h = rt_rqs s h"
  shows "rt_se_prio s' e = rt_se_prio s e" "rt_se_boosted s' e = rt_se_boosted s e"
    "rt_rq_of_se s' e = rt_rq_of_se s e"
  using assms by (auto simp: rt_se_prio_def rt_se_boosted_def rt_rq_of_se_def split: rt_se_ptr.splits)

lemma rt_own_queue:
  "rt_universe U \<Longrightarrow> e \<in> U \<Longrightarrow> e \<noteq> GroupRtSe (rt_rq_of_se s e)"
  by (auto simp: rt_universe_def rt_rq_of_se_def split: rt_se_ptr.splits)
    (metis list.exhaust_sel not_Cons_self2 list.sel(2))

text \<open>The list of one priority of a group whose own entity is off its queue is replaced.\<close>

lemma rt_replace_list:
  assumes i: "rt_inv E U Y X s Q" and g: "g = [] \<or> g \<in> X" and j: "j < 100"
    and t: "tasks s' = tasks s" and r: "rt_rqs s' = (rt_rqs s)(g := R)"
    and l: "on_queues RtRun (\<lambda>(g, i). RtQueue g i) {(g, i). i < 100} (links s') (Q((g, j) := ts))"
    and R: "rq_agrees R (rt_se_boosted s) ((rt_array Q g)(j := ts))"
    and ts: "\<And>e. e \<in> set ts \<Longrightarrow> e \<in> U \<and> rt_rq_of_se s e = g \<and> rt_se_prio s e = int j"
    and q: "rt_groups_queued Y X' s (Q((g, j) := ts))" and gX: "g = [] \<or> g \<in> X'"
  shows "rt_inv E U Y X' s' (Q((g, j) := ts))"
proof -
  let ?Q = "Q((g, j) := ts)"
  note d = rt_invD [OF i]
  have pl: "e \<in> U \<and> rt_rq_of_se s e = h \<and> rt_se_prio s e = int k" if "e \<in> set (?Q (h, k))" for e h k
    using that ts rt_placedD [OF d(5)] by (auto split: if_splits)
  have off: "e \<noteq> GroupRtSe g" if "e \<in> set (?Q (h, k))" for e h k
  proof
    assume e: "e = GroupRtSe g"
    show False
    proof (cases "g = []")
      case True
      then show False using e pl [OF that] d(3) by (auto simp: rt_universe_def)
    next
      case False
      then have "\<not> rt_on ?Q e" using q gX e by (auto simp: rt_groups_queued_def)
      with that show False unfolding rt_on_def by blast
    qed
  qed
  have same: "rt_se_prio s' e = rt_se_prio s e" "rt_se_boosted s' e = rt_se_boosted s e"
    "rt_rq_of_se s' e = rt_rq_of_se s e" if "e \<in> set (?Q (h, k))" for e h k
  proof -
    have n: "rt_rqs s' f = rt_rqs s f" if "e = GroupRtSe f" for f
      using off [OF \<open>e \<in> set (?Q (h, k))\<close>] that r by auto
    show "rt_se_prio s' e = rt_se_prio s e" "rt_se_boosted s' e = rt_se_boosted s e"
      "rt_rq_of_se s' e = rt_rq_of_se s e" using rt_se_cong [OF t n] by simp_all
  qed
  show ?thesis
    unfolding rt_inv_def
  proof (intro conjI allI)
    show "rt_placed U s' ?Q"
      unfolding rt_placed_def using pl same by auto
    fix h
    have "rq_agrees (rt_rqs s' h) (rt_se_boosted s) (rt_array ?Q h)"
    proof (cases "h = g")
      case True
      have "rt_array ?Q g = (rt_array Q g)(j := ts)" by (auto simp: rt_array_def)
      with True show ?thesis using R r by simp
    next
      case False
      then have "rt_array ?Q h = rt_array Q h" by (auto simp: rt_array_def)
      with False show ?thesis using d(6) [of h] r by simp
    qed
    then show "rq_agrees (rt_rqs s' h) (rt_se_boosted s') (rt_array ?Q h)"
      by (rule rq_agrees_cong) (use same(2) in \<open>simp add: rt_array_def\<close>)
  next
    show "rt_groups_queued Y X' s' ?Q"
      using q gX r by (auto simp: rt_groups_queued_def rt_active_def rt_rq_throttled_def)
  qed (use d l in \<open>simp_all add: rt_links_def\<close>)
qed

text \<open>State equations for the steps of \<open>dec_rt_tasks\<close> and \<open>inc_rt_tasks\<close>.\<close>

lemma WARN_ON_False [simp]: "WARN_ON False s = s"
  by (simp add: WARN_ON_def)

lemma upd_rq_leaf:
  "\<exists>l. (if c then upd_rq (rq_leaf_rt_rqs_update f) s else s) =
    upd_rq (rq_leaf_rt_rqs_update (\<lambda>_. l)) s"
proof (cases c)
  case True
  then show ?thesis by (intro exI [of _ "f (rq_leaf_rt_rqs (the_rq s))"]) (simp add: upd_rq_def)
next
  case False
  then show ?thesis by (intro exI [of _ "rq_leaf_rt_rqs (the_rq s)"]) (simp add: upd_rq_def)
qed

lemma WARN_ON_no: "\<not> b \<Longrightarrow> WARN_ON b s = s"
  by (simp add: WARN_ON_def)

lemma upd_rt_rq_twice: "upd_rt_rq g f (upd_rt_rq g h s) = upd_rt_rq g (\<lambda>q. f (h q)) s"
  by (simp add: upd_rt_rq_def)

lemma upd_rt_rq_cong: "f (rt_rqs s g) = h (rt_rqs s g) \<Longrightarrow> upd_rt_rq g f s = upd_rt_rq g h s"
  by (simp add: upd_rt_rq_def)

lemma upd_rt_rq_id: "f (rt_rqs s g) = rt_rqs s g \<Longrightarrow> upd_rt_rq g f s = s"
  by (simp add: upd_rt_rq_def)

lemma dec_rt_prio_eq:
  assumes "rtq_nr_running (rt_rqs s g) \<noteq> 0 \<Longrightarrow> rtq_highest_prio (rt_rqs s g) \<le> prio"
  shows "dec_rt_prio E g prio s = upd_rt_rq g (\<lambda>q. q\<lparr>rtq_highest_prio :=
      (if rtq_nr_running q \<noteq> 0 then (if prio = rtq_highest_prio q
         then int (x_find_first_bit E (rtq_bitmap q)) else rtq_highest_prio q) else 100)\<rparr>) s"
  using assms by (auto simp: dec_rt_prio_def Let_def MAX_RT_PRIO_def intro!: upd_rt_rq_cong
    upd_rt_rq_id [symmetric])

lemma dec_rt_group_eq:
  assumes "e \<noteq> GroupRtSe g"
    and "rtq_nr_running (rt_rqs s g) = 0 \<Longrightarrow>
      (if rt_se_boosted s e then rtq_nr_boosted (rt_rqs s g) - 1 else rtq_nr_boosted (rt_rqs s g)) = 0"
  shows "dec_rt_group e g s = upd_rt_rq g (\<lambda>q. q\<lparr>rtq_nr_boosted :=
      (if rt_se_boosted s e then rtq_nr_boosted q - 1 else rtq_nr_boosted q)\<rparr>) s"
proof (cases "rt_se_boosted s e")
  case True
  then have "\<not> (rtq_nr_running (rt_rqs s g) = 0 \<and> rtq_nr_boosted (rt_rqs s g) - 1 \<noteq> 0)"
    using assms(2) by simp
  then show ?thesis
    using True by (simp add: dec_rt_group_def WARN_ON_no) (intro upd_rt_rq_cong; simp)
next
  case False
  then have "\<not> (rtq_nr_running (rt_rqs s g) = 0 \<and> rtq_nr_boosted (rt_rqs s g) \<noteq> 0)"
    using assms(2) by simp
  then show ?thesis
    using False by (simp add: dec_rt_group_def WARN_ON_no upd_rt_rq_id)
qed

lemma dec_rt_tasks_eq:
  assumes own: "e \<noteq> GroupRtSe g" and prio: "rt_se_prio s e = int j" and "j < 100"
    and nr: "rtq_nr_running (rt_rqs s g) \<noteq> 0" and hp: "rtq_highest_prio (rt_rqs s g) \<le> int j"
    and bo: "rtq_nr_running (rt_rqs s g) - 1 = 0 \<Longrightarrow>
      (if rt_se_boosted s e then rtq_nr_boosted (rt_rqs s g) - 1 else rtq_nr_boosted (rt_rqs s g)) = 0"
  shows "dec_rt_tasks E e g s = upd_rt_rq g (deq_rq E j False (rt_se_boosted s e)) s"
proof -
  have p: "rt_prio (int j)" using assms(3) by (simp add: rt_prio_def MAX_RT_PRIO_def)
  let ?s1 = "upd_rt_rq g (rtq_nr_running_update (\<lambda>n. n - 1)) s"
  let ?s2 = "upd_rt_rq g (\<lambda>q. q\<lparr>rtq_highest_prio :=
      (if rtq_nr_running q \<noteq> 0 then (if int j = rtq_highest_prio q
         then int (x_find_first_bit E (rtq_bitmap q)) else rtq_highest_prio q) else 100)\<rparr>) ?s1"
  have 2: "dec_rt_prio E g (int j) ?s1 = ?s2" by (rule dec_rt_prio_eq) (use hp in simp)
  have "dec_rt_group e g ?s2 = upd_rt_rq g (\<lambda>q. q\<lparr>rtq_nr_boosted :=
      (if rt_se_boosted ?s2 e then rtq_nr_boosted q - 1 else rtq_nr_boosted q)\<rparr>) ?s2"
    by (rule dec_rt_group_eq [OF own]) (use bo own in \<open>simp split: if_splits\<close>)
  also have "\<dots> = upd_rt_rq g (deq_rq E j False (rt_se_boosted s e)) s"
    unfolding upd_rt_rq_twice using own
    by (intro upd_rt_rq_cong rt_rq.equality) (simp_all add: deq_rq_def Let_def)
  finally show ?thesis
    using prio nr p own 2 by (simp add: dec_rt_tasks_def Let_def)
qed

lemma rt_list_del:
  assumes i: "rt_inv E U Y X s Q" and e: "e \<in> set (Q (g, j))"
  shows "on_queues RtRun (\<lambda>(g, i). RtQueue g i) {(g, i). i < 100}
      (kl_list_del_init (klist E) (RtRun e) (links s)) (Q((g, j) := removeAll e (Q (g, j))))"
    and "distinct (Q (g, j))"
    and "rq_agrees (deq_rq E j (removeAll e (Q (g, j)) = []) (rt_se_boosted s e) (rt_rqs s g))
      (rt_se_boosted s) ((rt_array Q g)(j := removeAll e (Q (g, j))))"
    and "\<not> rt_node n \<Longrightarrow> kl_list_del_init (klist E) (RtRun e) (links s) n = links s n"
proof -
  note d = rt_invD [OF i]
  have q: "on_queues RtRun (\<lambda>(g, i). RtQueue g i) {(g, i). i < 100} (links s) Q"
    using d(4) by (simp add: rt_links_def)
  have j: "j < 100" by (rule rt_key [OF d(4) e])
  show dist: "distinct (Q (g, j))" by (rule on_queues_distinct [OF q])
  show "on_queues RtRun (\<lambda>(g, i). RtQueue g i) {(g, i). i < 100}
      (kl_list_del_init (klist E) (RtRun e) (links s)) (Q((g, j) := removeAll e (Q (g, j))))"
    by (rule on_queues_del_init [OF d(1) q e])
  show "\<not> rt_node n \<Longrightarrow> kl_list_del_init (klist E) (RtRun e) (links s) n = links s n"
    by (intro on_queues_frame(3) [OF d(1) q _ e]) (auto simp: rt_node_def)
  obtain us vs where l: "Q (g, j) = us @ e # vs" "e \<notin> set us" "e \<notin> set vs"
    by (rule split_removeAll [OF dist e])
  show "rq_agrees (deq_rq E j (removeAll e (Q (g, j)) = []) (rt_se_boosted s e) (rt_rqs s g))
      (rt_se_boosted s) ((rt_array Q g)(j := removeAll e (Q (g, j))))"
    by (rule rq_agrees_deq [OF d(2,6) j]) (use l(2,3) in \<open>simp_all add: rt_array_def l(1)\<close>)
qed

lemma dequeue_entity_fields:
  assumes i: "rt_inv E U Y X s Q" and e: "e \<in> set (Q (g, j))"
  defines "s' \<equiv> dequeue_rt_entity' E e s"
  shows "tasks s' = tasks s" "group_rt_ses s' = group_rt_ses s" "ext s' = ext s"
    "links s' = kl_list_del_init (klist E) (RtRun e) (links s)"
    "rt_rqs s' = (rt_rqs s)(g :=
       deq_rq E j (removeAll e (Q (g, j)) = []) (rt_se_boosted s e) (rt_rqs s g))"
    "rt_frame s s'"
proof -
  note d = rt_invD [OF i] and pl = rt_placedD [OF rt_invD(5) [OF i] e]
  have j: "j < 100" by (rule rt_key [OF d(4) e])
  have own: "e \<noteq> GroupRtSe g" using rt_own_queue [OF d(3) pl(1), of s] pl(2) by simp
  let ?R = "rt_rqs s g"
  let ?ts = "removeAll e (Q (g, j))"
  note del = rt_list_del [OF i e] and a = d(6) [of g]
  have empty: "kl_list_empty (klist E) (RtQueue g j) (kl_list_del_init (klist E) (RtRun e) (links s))
      \<longleftrightarrow> ?ts = []"
    using on_queues_empty_head [OF d(1) del(1), of "(g, j)"] j by simp
  have nr: "rtq_nr_running ?R \<noteq> 0"
    using rq_agreesD(7) [OF a] arr_size_pos [OF j, of e "rt_array Q g"] e by (auto simp: rt_array_def)
  have hp: "rtq_highest_prio ?R \<le> int j"
    using rq_agreesD(5) [OF a] arr_top_lower [of "rt_array Q g" j] e by (force simp: rt_array_def)
  have bo: "rtq_nr_running ?R - 1 = 0 \<Longrightarrow>
      (if rt_se_boosted s e then rtq_nr_boosted ?R - 1 else rtq_nr_boosted ?R) = 0"
    using rq_agreesD(6,7) [OF del(3)] arr_count_le [of "rt_se_boosted s" "(rt_array Q g)(j := ?ts)"]
    by (simp add: deq_rq_def Let_def)
  have eq: "\<exists>l. s' = upd_rq (rq_leaf_rt_rqs_update (\<lambda>_. l))
      (upd_rt_rq g (deq_rq E j (?ts = []) (rt_se_boosted s e))
        (upd_links (kl_list_del_init (klist E) (RtRun e)) s))"
  proof -
    let ?s1 = "upd_links (kl_list_del_init (klist E) (RtRun e)) s"
    let ?s2 = "if ?ts = [] then upd_rt_rq g (rtq_bitmap_update (\<lambda>b. b(j := False))) ?s1 else ?s1"
    have s2: "e \<noteq> GroupRtSe g" "rt_se_prio ?s2 e = int j" "rt_se_boosted ?s2 e = rt_se_boosted s e"
      "rtq_nr_running (rt_rqs ?s2 g) = rtq_nr_running ?R"
      "rtq_highest_prio (rt_rqs ?s2 g) = rtq_highest_prio ?R"
      "rtq_nr_boosted (rt_rqs ?s2 g) = rtq_nr_boosted ?R"
      using own pl(3) by simp_all
    have "dec_rt_tasks E e g ?s2 = upd_rt_rq g (deq_rq E j False (rt_se_boosted s e)) ?s2"
      using dec_rt_tasks_eq [OF s2(1,2) j] nr hp bo unfolding s2(3-6) by simp
    also have "\<dots> = upd_rt_rq g (deq_rq E j (?ts = []) (rt_se_boosted s e)) ?s1"
      by (auto simp: upd_rt_rq_twice deq_rq_def Let_def intro!: upd_rt_rq_cong)
    finally have 3: "dec_rt_tasks E e g ?s2 = upd_rt_rq g (deq_rq E j (?ts = []) (rt_se_boosted s e)) ?s1" .
    have "dequeue_rt_entity' E e s =
        (let t = dec_rt_tasks E e g ?s2 in
         if rtq_nr_running (rt_rqs t g) = 0 then list_del_leaf_rt_rq g t else t)"
      unfolding dequeue_rt_entity'_def Let_def pl(2) using pl(3) empty by simp
    then show ?thesis
      unfolding 3 s'_def Let_def list_del_leaf_rt_rq_def
      by (simp only: upd_rq_leaf)
  qed
  then obtain l where s': "s' = upd_rq (rq_leaf_rt_rqs_update (\<lambda>_. l))
      (upd_rt_rq g (deq_rq E j (?ts = []) (rt_se_boosted s e))
        (upd_links (kl_list_del_init (klist E) (RtRun e)) s))" by blast
  show "tasks s' = tasks s" "group_rt_ses s' = group_rt_ses s" "ext s' = ext s"
    "links s' = kl_list_del_init (klist E) (RtRun e) (links s)"
    "rt_rqs s' = (rt_rqs s)(g := deq_rq E j (?ts = []) (rt_se_boosted s e) ?R)"
    by (simp_all add: s')
  show "rt_frame s s'"
    by (auto simp: rt_frame_def s' del(4) task_same_refl deq_rq_def Let_def)
qed

text \<open>Taking an entity off marks its group, if it is one; putting it back clears the mark.\<close>

definition off_add :: "rt_se_ptr \<Rightarrow> tg_ptr set \<Rightarrow> tg_ptr set" where
  "off_add e X = (case e of GroupRtSe h \<Rightarrow> insert h X | TaskRtSe _ \<Rightarrow> X)"

definition off_del :: "rt_se_ptr \<Rightarrow> tg_ptr set \<Rightarrow> tg_ptr set" where
  "off_del e X = (case e of GroupRtSe h \<Rightarrow> X - {h} | TaskRtSe _ \<Rightarrow> X)"

lemma ex_split_at: "(\<exists>k. P k) \<longleftrightarrow> P a \<or> (\<exists>k. k \<noteq> a \<and> P k)"
  by metis

lemma rt_on_replace:
  assumes "rt_links s Q"
    and "e \<in> set (Q (g, j)) \<or> \<not> rt_on Q e" and "set ts - {e} = set (Q (g, j)) - {e}"
  shows "rt_on (Q((g, j) := ts)) f \<longleftrightarrow> (if f = e then e \<in> set ts else rt_on Q f)"
proof -
  have u: "k = l" if "x \<in> set (Q k)" "x \<in> set (Q l)" for x k l
    using assms(1) that by (auto simp: rt_links_def dest: on_queuesD(6))
  have 1: "rt_on (Q((g, j) := ts)) f \<longleftrightarrow> f \<in> set ts \<or> (\<exists>k. k \<noteq> (g, j) \<and> f \<in> set (Q k))"
    unfolding rt_on_def by (subst ex_split_at [where a = "(g, j)"]) (simp cong: conj_cong del: split_paired_Ex)
  have 2: "rt_on Q f \<longleftrightarrow> f \<in> set (Q (g, j)) \<or> (\<exists>k. k \<noteq> (g, j) \<and> f \<in> set (Q k))"
    unfolding rt_on_def by (rule ex_split_at)
  show ?thesis
  proof (cases "f = e")
    case True
    then have "\<not> (\<exists>k. k \<noteq> (g, j) \<and> f \<in> set (Q k))"
      using assms(2) u [of e _ "(g, j)"] unfolding rt_on_def by metis
    with 1 True show ?thesis by (simp only: simp_thms if_True)
  next
    case False
    then have "f \<in> set ts \<longleftrightarrow> f \<in> set (Q (g, j))" using assms(3) by blast
    with 1 2 False show ?thesis by simp
  qed
qed

lemma dequeue_entity_inv:
  assumes i: "rt_inv E U Y X s Q" and e: "e \<in> set (Q (g, j))" and g: "g = [] \<or> g \<in> X"
  shows "rt_inv E U Y (off_add e X) (dequeue_rt_entity' E e s) (Q((g, j) := removeAll e (Q (g, j))))"
proof -
  note d = rt_invD [OF i] and f = dequeue_entity_fields [OF i e] and del = rt_list_del [OF i e]
  have j: "j < 100" by (rule rt_key [OF d(4) e])
  have on: "rt_on (Q((g, j) := removeAll e (Q (g, j)))) x \<longleftrightarrow> x \<noteq> e \<and> rt_on Q x" for x
    by (subst rt_on_replace [OF d(4), where e = e]) (use e in auto)
  have "rt_groups_queued Y (off_add e X) s (Q((g, j) := removeAll e (Q (g, j))))"
    using d(7) by (auto simp: rt_groups_queued_def on off_add_def split: rt_se_ptr.splits)
  moreover have "g = [] \<or> g \<in> off_add e X"
    using g by (auto simp: off_add_def split: rt_se_ptr.splits)
  ultimately show ?thesis
    using f(4) del(1) rt_placedD [OF d(5)]
    by (intro rt_replace_list [OF i g j f(1,5) _ del(3)]) auto
qed

definition insert_at :: "bool \<Rightarrow> 'a \<Rightarrow> 'a list \<Rightarrow> 'a list" where
  "insert_at head x xs = (if head then x # xs else xs @ [x])"

lemma insert_at_simps [simp]:
  "length (insert_at head x xs) = Suc (length xs)" "set (insert_at head x xs) = insert x (set xs)"
  "length (filter b (insert_at head x xs)) =
     (if b x then Suc (length (filter b xs)) else length (filter b xs))"
  by (auto simp: insert_at_def)

definition list_insert :: "'x env \<Rightarrow> bool \<Rightarrow> lnode \<Rightarrow> lnode \<Rightarrow> lnode links \<Rightarrow> lnode links" where
  "list_insert E head n q =
     (if head then kl_list_add (klist E) n q else kl_list_add_tail (klist E) n q)"

lemma rt_list_insert:
  assumes i: "rt_inv E U Y X s Q" and e: "e \<in> U" "\<not> rt_on Q e" and j: "j < 100"
    and U: "\<And>k x. x \<in> set (Q k) \<Longrightarrow> x \<in> U"
  shows "on_queues RtRun (\<lambda>(g, i). RtQueue g i) {(g, i). i < 100}
      (list_insert E head (RtRun e) (RtQueue g j) (links s))
      (Q((g, j) := insert_at head e (Q (g, j))))"
    and "rq_agrees (enq_rq j (rt_se_boosted s e) (rt_rqs s g)) (rt_se_boosted s)
      ((rt_array Q g)(j := insert_at head e (Q (g, j))))"
    and "\<not> rt_node n \<Longrightarrow> list_insert E head (RtRun e) (RtQueue g j) (links s) n = links s n"
proof -
  note d = rt_invD [OF i]
  have q: "on_queues RtRun (\<lambda>(g, i). RtQueue g i) {(g, i). i < 100} (links s) Q"
    using d(4) by (simp add: rt_links_def)
  have off: "e \<notin> set (Q k)" for k using e(2) unfolding rt_on_def by blast
  show "on_queues RtRun (\<lambda>(g, i). RtQueue g i) {(g, i). i < 100}
      (list_insert E head (RtRun e) (RtQueue g j) (links s))
      (Q((g, j) := insert_at head e (Q (g, j))))"
    using on_queues_add [OF d(1) q _ off, of "(g, j)"] on_queues_add_tail [OF d(1) q _ off, of "(g, j)"] j
    by (simp add: list_insert_def insert_at_def)
  show "list_insert E head (RtRun e) (RtQueue g j) (links s) n = links s n" if "\<not> rt_node n"
  proof -
    have n: "n \<notin> range (\<lambda>(g, i). RtQueue g i) \<union> range RtRun" using that by (auto simp: rt_node_def)
    show ?thesis
      using on_queues_frame(1,2) [OF d(1) q n _ off, of "(g, j)"] j by (simp add: list_insert_def)
  qed
  have "arr_size (rt_array Q g) \<le> card (U - {e})"
    using d(3) U off by (intro rt_array_size [OF d(4)]) (auto simp: rt_universe_def)
  moreover have "Suc (card (U - {e})) = card U"
    using d(3) e(1) by (intro card_Suc_Diff1) (auto simp: rt_universe_def)
  ultimately have sz: "Suc (arr_size (rt_array Q g)) < 2 ^ 32"
    using d(3) by (simp add: rt_universe_def)
  show "rq_agrees (enq_rq j (rt_se_boosted s e) (rt_rqs s g)) (rt_se_boosted s)
      ((rt_array Q g)(j := insert_at head e (Q (g, j))))"
    by (rule rq_agrees_enq [OF d(6) j sz]) (simp_all add: rt_array_def)
qed

lemma start_rt_bandwidth_simps [simp]:
  "tasks (start_rt_bandwidth E g s) = tasks s" "links (start_rt_bandwidth E g s) = links s"
  "the_rq (start_rt_bandwidth E g s) = the_rq s" "rt_rqs (start_rt_bandwidth E g s) = rt_rqs s"
  "group_rt_ses (start_rt_bandwidth E g s) = group_rt_ses s"
  "signals (start_rt_bandwidth E g s) = signals s" "tgs (start_rt_bandwidth E g s) = tgs s"
  "cpuaccts (start_rt_bandwidth E g s) = cpuaccts s" "warns (start_rt_bandwidth E g s) = warns s"
  "sysctl_rt_period (start_rt_bandwidth E g s) = sysctl_rt_period s"
  "sysctl_rt_runtime (start_rt_bandwidth E g s) = sysctl_rt_runtime s"
  by (simp_all add: start_rt_bandwidth_def)

lemma inc_rt_tasks_eq:
  assumes own: "e \<noteq> GroupRtSe g" and prio: "rt_se_prio s e = int j" and j: "j < 100"
  shows "inc_rt_tasks E e g s = start_rt_bandwidth E g (upd_rt_rq g (\<lambda>q. q\<lparr>
     rtq_nr_running := rtq_nr_running q + 1,
     rtq_highest_prio := (if int j < rtq_highest_prio q then int j else rtq_highest_prio q),
     rtq_nr_boosted := (if rt_se_boosted s e then rtq_nr_boosted q + 1 else rtq_nr_boosted q)\<rparr>) s)"
proof -
  have p: "rt_prio (int j)" using j by (simp add: rt_prio_def MAX_RT_PRIO_def)
  let ?s1 = "upd_rt_rq g (rtq_nr_running_update (\<lambda>n. n + 1)) s"
  have hp: "inc_rt_prio g (int j) ?s1 = upd_rt_rq g (\<lambda>q. q\<lparr>rtq_highest_prio :=
      (if int j < rtq_highest_prio q then int j else rtq_highest_prio q)\<rparr>) ?s1" (is "_ = ?s2")
    by (auto simp: inc_rt_prio_def Let_def intro!: upd_rt_rq_cong upd_rt_rq_id [symmetric])
  have "(if rt_se_boosted ?s2 e then upd_rt_rq g (rtq_nr_boosted_update (\<lambda>n. n + 1)) ?s2 else ?s2) =
      upd_rt_rq g (\<lambda>q. q\<lparr>rtq_nr_boosted :=
        (if rt_se_boosted s e then rtq_nr_boosted q + 1 else rtq_nr_boosted q)\<rparr>) ?s2"
    using own by (auto intro!: upd_rt_rq_cong upd_rt_rq_id [symmetric])
  then show ?thesis
    using hp p prio own
    by (simp add: inc_rt_tasks_def inc_rt_group_def Let_def)
      (auto simp: upd_rt_rq_twice intro!: arg_cong [where f = "start_rt_bandwidth E g"]
        upd_rt_rq_cong rt_rq.equality)
qed

text \<open>The entity is a task at a real-time priority, or a group that has something to run.\<close>

definition rt_ready :: "'x sys \<Rightarrow> rt_se_ptr \<Rightarrow> bool" where
  "rt_ready s e = (case e of
      TaskRtSe p \<Rightarrow> 0 \<le> t_prio (tasks s p) \<and> t_prio (tasks s p) < 100
    | GroupRtSe h \<Rightarrow> rt_active s h)"

lemma rt_active_prio:
  assumes "rt_inv E U Y X s Q" and "rt_active s h"
  shows "rtq_highest_prio (rt_rqs s h) = int (arr_top (rt_array Q h))"
    "arr_top (rt_array Q h) < 100"
proof -
  note a = rt_invD(6) [OF assms(1), of h]
  show "rtq_highest_prio (rt_rqs s h) = int (arr_top (rt_array Q h))" by (rule rq_agreesD(5) [OF a])
  show "arr_top (rt_array Q h) < 100"
    using assms(2) rq_agreesD(7) [OF a] by (intro arr_top_less) (auto simp: rt_active_def)
qed

lemma rt_ready_prio:
  assumes "rt_inv E U Y X s Q" and "rt_ready s e"
  shows "rt_se_prio s e = int (nat (rt_se_prio s e))" "nat (rt_se_prio s e) < 100"
  using assms rt_active_prio [OF assms(1)]
  by (auto simp: rt_ready_def rt_se_prio_def split: rt_se_ptr.splits)

lemma enqueue_entity_idle: "e = GroupRtSe h \<Longrightarrow> \<not> rt_active s h \<Longrightarrow> enqueue_rt_entity' E e head s = s"
  by (auto simp: enqueue_rt_entity'_def rt_active_def group_rt_rq_def)

lemma enqueue_entity_fields:
  fixes head :: bool
  assumes i: "rt_inv E U Y X s Q" and e: "e \<in> U" "\<not> rt_on Q e" and r: "rt_ready s e"
  defines "g \<equiv> rt_rq_of_se s e" and "j \<equiv> nat (rt_se_prio s e)"
    and "s' \<equiv> enqueue_rt_entity' E e head s"
  shows "tasks s' = tasks s" "group_rt_ses s' = group_rt_ses s"
    "links s' = list_insert E head (RtRun e) (RtQueue g j) (links s)"
    "rt_rqs s' = (rt_rqs s)(g := enq_rq j (rt_se_boosted s e) (rt_rqs s g))"
    "rt_frame s s'"
proof -
  note d = rt_invD [OF i]
  have j: "rt_se_prio s e = int j" "j < 100" using rt_ready_prio [OF i r] by (simp_all add: j_def)
  have own: "e \<noteq> GroupRtSe g" unfolding g_def by (rule rt_own_queue [OF d(3) e(1)])
  have ins: "\<not> rt_node n \<Longrightarrow> list_insert E head (RtRun e) (RtQueue g j) (links s) n = links s n" for n
    by (rule rt_list_insert(3) [OF i e j(2)]) (use d(5) in \<open>auto simp: rt_placed_def\<close>)
  let ?f = "list_insert E head (RtRun e) (RtQueue g j)"
  have "\<exists>l. s' = start_rt_bandwidth E g (upd_rt_rq g (enq_rq j (rt_se_boosted s e))
      (upd_links ?f (upd_rq (rq_leaf_rt_rqs_update (\<lambda>_. l)) s)))"
  proof -
    let ?s1 = "if rtq_nr_running (rt_rqs s g) = 0 then list_add_leaf_rt_rq g s else s"
    obtain l where l: "?s1 = upd_rq (rq_leaf_rt_rqs_update (\<lambda>_. l)) s"
      using upd_rq_leaf [of "rtq_nr_running (rt_rqs s g) = 0" "\<lambda>l. g # l" s]
      unfolding list_add_leaf_rt_rq_def by blast
    let ?s2 = "upd_links ?f ?s1"
    let ?s3 = "upd_rt_rq g (rtq_bitmap_update (\<lambda>b. b(j := True))) ?s2"
    have same: "rt_se_prio ?s1 e = rt_se_prio s e" "rt_se_boosted ?s1 e = rt_se_boosted s e"
      unfolding l by simp_all
    have "inc_rt_tasks E e g ?s3 = start_rt_bandwidth E g (upd_rt_rq g (\<lambda>q. q\<lparr>
       rtq_nr_running := rtq_nr_running q + 1,
       rtq_highest_prio := (if int j < rtq_highest_prio q then int j else rtq_highest_prio q),
       rtq_nr_boosted := (if rt_se_boosted ?s3 e then rtq_nr_boosted q + 1 else rtq_nr_boosted q)\<rparr>) ?s3)"
      by (rule inc_rt_tasks_eq [OF own _ j(2)]) (use own j same in simp)
    also have "\<dots> = start_rt_bandwidth E g (upd_rt_rq g (enq_rq j (rt_se_boosted s e)) ?s2)"
      unfolding upd_rt_rq_twice using own same
      by (intro arg_cong [where f = "start_rt_bandwidth E g"] upd_rt_rq_cong rt_rq.equality)
        (simp_all add: enq_rq_def)
    finally have 3: "inc_rt_tasks E e g ?s3 =
        start_rt_bandwidth E g (upd_rt_rq g (enq_rq j (rt_se_boosted s e)) ?s2)" .
    have act: "case e of GroupRtSe h \<Rightarrow> \<not> (rt_rq_throttled s h \<or> rtq_nr_running (rt_rqs s h) = 0)
        | TaskRtSe _ \<Rightarrow> True"
      using r by (auto simp: rt_ready_def rt_active_def split: rt_se_ptr.splits)
    have "s' = inc_rt_tasks E e g ?s3"
      unfolding s'_def enqueue_rt_entity'_def Let_def g_def [symmetric] j_def [symmetric]
      using act own same j(1)
      by (cases e) (simp_all add: group_rt_rq_def list_insert_def)
    then have "s' = start_rt_bandwidth E g (upd_rt_rq g (enq_rq j (rt_se_boosted s e)) ?s2)"
      unfolding 3 .
    then show ?thesis unfolding l by (rule exI)
  qed
  then obtain l where s': "s' = start_rt_bandwidth E g (upd_rt_rq g (enq_rq j (rt_se_boosted s e))
      (upd_links ?f (upd_rq (rq_leaf_rt_rqs_update (\<lambda>_. l)) s)))" by blast
  show "tasks s' = tasks s" "group_rt_ses s' = group_rt_ses s"
    "links s' = ?f (links s)"
    "rt_rqs s' = (rt_rqs s)(g := enq_rq j (rt_se_boosted s e) (rt_rqs s g))"
    by (simp_all add: s')
  show "rt_frame s s'"
    by (auto simp: rt_frame_def s' ins task_same_refl enq_rq_def)
qed

lemma enqueue_entity_inv:
  assumes i: "rt_inv E U Y X s Q" and e: "e \<in> U" "\<not> rt_on Q e" and r: "rt_ready s e"
    and g: "rt_rq_of_se s e = [] \<or> rt_rq_of_se s e \<in> X"
  defines "k \<equiv> (rt_rq_of_se s e, nat (rt_se_prio s e))"
  shows "rt_inv E U Y (off_del e X) (enqueue_rt_entity' E e head s) (Q(k := insert_at head e (Q k)))"
proof -
  let ?g = "rt_rq_of_se s e" and ?j = "nat (rt_se_prio s e)"
  note d = rt_invD [OF i] and f = enqueue_entity_fields [OF i e r, of head]
  note j = rt_ready_prio [OF i r]
  have own: "e \<noteq> GroupRtSe ?g" by (rule rt_own_queue [OF d(3) e(1)])
  have U: "\<And>k x. x \<in> set (Q k) \<Longrightarrow> x \<in> U" using d(5) by (auto simp: rt_placed_def)
  note ins = rt_list_insert [OF i e j(2) U, where g = "?g" and head = head]
  let ?Q = "Q((?g, ?j) := insert_at head e (Q (?g, ?j)))"
  have on: "rt_on ?Q x \<longleftrightarrow> x = e \<or> rt_on Q x" for x
    by (subst rt_on_replace [OF d(4), where e = e]) (use e in auto)
  have "e = GroupRtSe h \<Longrightarrow> rt_active s h" for h using r by (simp add: rt_ready_def)
  then have "rt_groups_queued Y (off_del e X) s ?Q"
    using d(7) by (auto simp: rt_groups_queued_def on off_del_def split: rt_se_ptr.splits)
  moreover have "?g = [] \<or> ?g \<in> off_del e X"
    using g own by (auto simp: off_del_def split: rt_se_ptr.splits)
  ultimately show ?thesis
    unfolding k_def using f(3) ins(1) rt_placedD [OF d(5)] e(1) j
    by (intro rt_replace_list [OF i g j(2) f(1,4) _ ins(2)]) auto
qed

end
