(* ===== verification/Rt_Hierarchy.thy ===== *)
theory Rt_Hierarchy
  imports Rt_Queues
begin

text \<open>
  The walk over the hierarchy of real-time groups. Entering or leaving a queue first takes the
  whole chain of groups above the entity off their queues, from the top down, and puts it back
  from the bottom up; in between, the priority of a group may change without its queue noticing.
  The theory shows that the walk restores the invariant and what it does to the tasks of every
  list.
\<close>

section \<open>The tasks of a list\<close>

definition se_task :: "rt_se_ptr \<Rightarrow> task_ptr list" where
  "se_task e = (case e of TaskRtSe p \<Rightarrow> [p] | GroupRtSe _ \<Rightarrow> [])"

definition rt_tasks :: "(tg_ptr \<times> nat \<Rightarrow> rt_se_ptr list) \<Rightarrow> tg_ptr \<times> nat \<Rightarrow> task_ptr list" where
  "rt_tasks Q k = concat (map se_task (Q k))"

lemma se_task_simps [simp]: "se_task (TaskRtSe p) = [p]" "se_task (GroupRtSe g) = []"
  by (simp_all add: se_task_def)

lemma rt_tasks_mem: "p \<in> set (rt_tasks Q k) \<longleftrightarrow> TaskRtSe p \<in> set (Q k)"
  by (auto simp: rt_tasks_def se_task_def split: rt_se_ptr.splits)

lemma rt_tasks_removeAll_group:
  "rt_tasks (Q(k := removeAll (GroupRtSe g) (Q k))) = rt_tasks Q"
proof -
  have "concat (map se_task (removeAll (GroupRtSe g) xs)) = concat (map se_task xs)" for xs
    by (induction xs) auto
  then show ?thesis by (auto simp: rt_tasks_def)
qed

lemma rt_tasks_removeAll_task:
  "rt_tasks (Q(k := removeAll (TaskRtSe p) (Q k))) = (rt_tasks Q)(k := removeAll p (rt_tasks Q k))"
proof -
  have "concat (map se_task (removeAll (TaskRtSe p) xs)) = removeAll p (concat (map se_task xs))" for xs
    by (induction xs) (auto simp: se_task_def split: rt_se_ptr.splits)
  then show ?thesis by (auto simp: rt_tasks_def)
qed

lemma rt_tasks_insert:
  "rt_tasks (Q(k := insert_at head (GroupRtSe g) (Q k))) = rt_tasks Q"
  "rt_tasks (Q(k := insert_at head (TaskRtSe p) (Q k))) =
     (rt_tasks Q)(k := insert_at head p (rt_tasks Q k))"
  by (auto simp: rt_tasks_def insert_at_def)

section \<open>States that look the same to the queues\<close>

definition rt_same :: "'x sys \<Rightarrow> 'x sys \<Rightarrow> bool" where
  "rt_same s s' \<longleftrightarrow> (\<forall>n. rt_node n \<longrightarrow> links s' n = links s n) \<and>
     (\<forall>g. rtq_bitmap (rt_rqs s' g) = rtq_bitmap (rt_rqs s g) \<and>
        rtq_nr_running (rt_rqs s' g) = rtq_nr_running (rt_rqs s g) \<and>
        rtq_highest_prio (rt_rqs s' g) = rtq_highest_prio (rt_rqs s g) \<and>
        rtq_nr_boosted (rt_rqs s' g) = rtq_nr_boosted (rt_rqs s g)) \<and>
     (\<forall>p. t_prio (tasks s' p) = t_prio (tasks s p) \<and>
        t_normal_prio (tasks s' p) = t_normal_prio (tasks s p) \<and>
        rse_rt_rq (t_rt (tasks s' p)) = rse_rt_rq (t_rt (tasks s p)))"

definition rt_throttle_same :: "'x sys \<Rightarrow> 'x sys \<Rightarrow> bool" where
  "rt_throttle_same s s' \<longleftrightarrow> (\<forall>g. rtq_throttled (rt_rqs s' g) = rtq_throttled (rt_rqs s g))"

lemma rt_inv_cong:
  assumes i: "rt_inv E U Y X s Q" and c: "rt_same s s'"
    and q: "rt_groups_queued Y' X' s' Q"
  shows "rt_inv E U Y' X' s' Q"
proof -
  note d = rt_invD [OF i]
  have se: "rt_se_prio s' e = rt_se_prio s e" "rt_se_boosted s' e = rt_se_boosted s e"
    "rt_rq_of_se s' e = rt_rq_of_se s e" for e
    using c by (auto simp: rt_same_def rt_se_prio_def rt_se_boosted_def rt_rq_of_se_def
      split: rt_se_ptr.splits)
  have "rt_links s' Q"
    unfolding rt_links_def
    by (rule on_queues_cong [OF d(4) [unfolded rt_links_def]])
      (use c in \<open>auto simp: rt_same_def rt_node_def\<close>)
  moreover have "rq_agrees (rt_rqs s' g) (rt_se_boosted s') (rt_array Q g)" for g
  proof -
    have "rt_se_boosted s' = rt_se_boosted s" using se(2) by blast
    then show ?thesis
      using d(6) [of g] c unfolding rq_agrees_def rt_same_def by simp
  qed
  ultimately show ?thesis
    unfolding rt_inv_def using d q by (auto simp: rt_placed_def se)
qed

lemma rt_active_same:
  "rt_same s s' \<Longrightarrow> rt_throttle_same s s' \<Longrightarrow> rt_active s' g \<longleftrightarrow> rt_active s g"
  by (simp add: rt_same_def rt_throttle_same_def rt_active_def rt_rq_throttled_def)

lemma rt_groups_queued_same:
  "rt_same s s' \<Longrightarrow> rt_throttle_same s s' \<Longrightarrow> rt_groups_queued Y X s' Q \<longleftrightarrow> rt_groups_queued Y X s Q"
  by (simp add: rt_groups_queued_def rt_active_same)

lemma rt_inv_same:
  "rt_inv E U Y X s Q \<Longrightarrow> rt_same s s' \<Longrightarrow> rt_throttle_same s s' \<Longrightarrow> rt_inv E U Y X s' Q"
  using rt_inv_cong [of E U Y X s Q s' Y X] rt_groups_queued_same [of s s' Y X Q]
  by (simp add: rt_inv_def)

text \<open>Marking a group that is off its queue, and dropping the mark when it need not be queued.\<close>

lemma rt_inv_mark:
  assumes "rt_inv E U Y X s Q" and "\<not> rt_on Q (GroupRtSe h)"
  shows "rt_inv E U Y (insert h X) s Q"
  using assms by (auto simp: rt_inv_def rt_groups_queued_def)

lemma rt_inv_unmark:
  assumes "rt_inv E U Y X s Q" and "h \<in> X" and "\<not> rt_active s h"
  shows "rt_inv E U Y (X - {h}) s Q"
  using assms by (auto simp: rt_inv_def rt_groups_queued_def)

lemma rt_inv_known: "rt_inv E U Y X s Q \<Longrightarrow> Y \<subseteq> X \<Longrightarrow> rt_inv E U {} X s Q"
  by (auto simp: rt_inv_def rt_groups_queued_def)

section \<open>The back pointers\<close>

lemma set_back_chain_frame:
  "rt_frame s (set_back_chain b es s) \<and> rt_same s (set_back_chain b es s) \<and>
   rt_rqs (set_back_chain b es s) = rt_rqs s"
proof (induction es arbitrary: b s)
  case Nil
  show ?case by (simp add: rt_frame_refl rt_same_def)
next
  case (Cons e es)
  let ?t = "set_rt_se e (rse_back_update (\<lambda>_. b)) s"
  have bk: "task_same_but_back t (t_rt_update (rse_back_update (\<lambda>_. b)) t)" for t
    by (auto simp: task_same_but_back_def)
  have leaf: "\<exists>l. the_rq s = the_rq s\<lparr>rq_leaf_rt_rqs := l\<rparr>"
    by (rule exI [of _ "rq_leaf_rt_rqs (the_rq s)"]) simp
  have f: "rt_frame s ?t"
    by (cases e) (auto simp: set_rt_se_def rt_frame_def task_same_refl bk leaf)
  have c: "rt_same s ?t" "rt_rqs ?t = rt_rqs s"
    by (cases e; simp add: set_rt_se_def rt_same_def)+
  show ?case
    using Cons [of ?t "Some e"] f c by (auto simp: rt_same_def intro: rt_frame_trans)
qed

section \<open>The chain of groups, top down and bottom up\<close>

definition deq_if_on :: "'x env \<Rightarrow> rt_se_ptr \<Rightarrow> 'x sys \<Rightarrow> 'x sys" where
  "deq_if_on E e s = (if on_rt_rq E e s then dequeue_rt_entity' E e s else s)"

lemma deq_if_on_group:
  assumes i: "rt_inv E U Y X s Q" and h: "h \<noteq> []" and g: "tl h = [] \<or> tl h \<in> X"
  shows "\<exists>Q'. rt_inv E U Y (insert h X) (deq_if_on E (GroupRtSe h) s) Q' \<and>
    rt_frame s (deq_if_on E (GroupRtSe h) s) \<and> rt_tasks Q' = rt_tasks Q"
proof (cases "rt_on Q (GroupRtSe h)")
  case True
  obtain j where j: "GroupRtSe h \<in> set (Q (tl h, j))"
    by (rule rt_on_place [OF i True]) (simp add: rt_rq_of_se_def)
  show ?thesis
    using dequeue_entity_inv [OF i j g] dequeue_entity_fields(6) [OF i j]
      rt_tasks_removeAll_group [of Q "(tl h, j)" h] True rt_on_iff [OF i, of "GroupRtSe h"]
    by (auto simp: deq_if_on_def off_add_def)
next
  case False
  then show ?thesis
    using rt_inv_mark [OF i False] rt_on_iff [OF i, of "GroupRtSe h"]
    by (auto simp: deq_if_on_def rt_frame_refl)
qed

lemma dequeue_groups:
  "rt_inv E U Y X s Q \<Longrightarrow>
   \<exists>Q'. rt_inv E U Y (X \<union> set (rt_ups g))
         (fold (deq_if_on E) (map GroupRtSe (rev (rt_ups g))) s) Q' \<and>
       rt_frame s (fold (deq_if_on E) (map GroupRtSe (rev (rt_ups g))) s) \<and>
       rt_tasks Q' = rt_tasks Q"
proof (induction g)
  case Nil
  then show ?case by (auto simp: rt_frame_refl)
next
  case (Cons x g)
  let ?s = "fold (deq_if_on E) (map GroupRtSe (rev (rt_ups g))) s"
  obtain Q1 where 1: "rt_inv E U Y (X \<union> set (rt_ups g)) ?s Q1" "rt_frame s ?s" "rt_tasks Q1 = rt_tasks Q"
    using Cons by blast
  have "g = [] \<or> g \<in> X \<union> set (rt_ups g)" using rt_ups_mem by auto
  then show ?case
    using deq_if_on_group [OF 1(1), of "x # g"] 1(2,3) by (auto intro: rt_frame_trans)
qed

lemma enqueue_group:
  assumes i: "rt_inv E U Y X s Q" and h: "GroupRtSe h \<in> U" "h \<in> X" and g: "tl h = [] \<or> tl h \<in> X"
  shows "\<exists>Q'. rt_inv E U Y (X - {h}) (enqueue_rt_entity' E (GroupRtSe h) head s) Q' \<and>
    rt_frame s (enqueue_rt_entity' E (GroupRtSe h) head s) \<and> rt_tasks Q' = rt_tasks Q"
proof (cases "rt_active s h")
  case True
  have "h \<noteq> []" using rt_invD(3) [OF i] h(1) by (auto simp: rt_universe_def)
  then have off: "\<not> rt_on Q (GroupRtSe h)"
    using rt_invD(7) [OF i] h(2) by (auto simp: rt_groups_queued_def)
  have r: "rt_ready s (GroupRtSe h)" using True by (simp add: rt_ready_def)
  have g': "rt_rq_of_se s (GroupRtSe h) = [] \<or> rt_rq_of_se s (GroupRtSe h) \<in> X"
    using g by (simp add: rt_rq_of_se_def)
  show ?thesis
    using enqueue_entity_inv [OF i h(1) off r g', of head]
      enqueue_entity_fields(5) [OF i h(1) off r, of head]
    by (auto simp: off_del_def rt_tasks_insert)
next
  case False
  then show ?thesis
    using rt_inv_unmark [OF i h(2) False] by (auto simp: enqueue_entity_idle rt_frame_refl)
qed

lemma enqueue_groups:
  "rt_inv E U Y X s Q \<Longrightarrow> set (rt_ups g) \<subseteq> X \<Longrightarrow> GroupRtSe ` set (rt_ups g) \<subseteq> U \<Longrightarrow>
   \<exists>Q'. rt_inv E U Y (X - set (rt_ups g))
         (fold (\<lambda>e s. enqueue_rt_entity' E e head s) (map GroupRtSe (rt_ups g)) s) Q' \<and>
       rt_frame s (fold (\<lambda>e s. enqueue_rt_entity' E e head s) (map GroupRtSe (rt_ups g)) s) \<and>
       rt_tasks Q' = rt_tasks Q"
proof (induction g arbitrary: X s Q)
  case Nil
  then show ?case by (auto simp: rt_frame_refl)
next
  case (Cons x g)
  let ?s = "enqueue_rt_entity' E (GroupRtSe (x # g)) head s"
  have "g = [] \<or> g \<in> X" using Cons.prems(2) rt_ups_mem by auto
  then obtain Q1 where 1: "rt_inv E U Y (X - {x # g}) ?s Q1" "rt_frame s ?s" "rt_tasks Q1 = rt_tasks Q"
    using enqueue_group [OF Cons.prems(1), of "x # g" head] Cons.prems(2,3) by auto
  have "x # g \<notin> set (rt_ups g)" using rt_ups_length [of "x # g" g] by auto
  then have "set (rt_ups g) \<subseteq> X - {x # g}" using Cons.prems(2) by auto
  from Cons.IH [OF 1(1) this] Cons.prems(3) obtain Q2 where
    2: "rt_inv E U Y (X - {x # g} - set (rt_ups g))
        (fold (\<lambda>e s. enqueue_rt_entity' E e head s) (map GroupRtSe (rt_ups g)) ?s) Q2"
      "rt_frame ?s (fold (\<lambda>e s. enqueue_rt_entity' E e head s) (map GroupRtSe (rt_ups g)) ?s)"
      "rt_tasks Q2 = rt_tasks Q1" by auto
  moreover have "X - set (rt_ups (x # g)) = X - {x # g} - set (rt_ups g)" by auto
  ultimately show ?case using 1 by (auto intro: rt_frame_trans)
qed

text \<open>The loop of \<open>dequeue_rt_entity\<close> puts the same groups back.\<close>

lemma put_back_groups:
  "fold (\<lambda>e s. case group_rt_rq e of
       Some my \<Rightarrow> if rtq_nr_running (rt_rqs s my) \<noteq> 0 then enqueue_rt_entity' E e False s else s
     | None \<Rightarrow> s) (map GroupRtSe gs) s =
   fold (\<lambda>e s. enqueue_rt_entity' E e False s) (map GroupRtSe gs) s"
proof (induction gs arbitrary: s)
  case (Cons h gs)
  have "enqueue_rt_entity' E (GroupRtSe h) False s = s" if "rtq_nr_running (rt_rqs s h) = 0"
    using that by (intro enqueue_entity_idle) (auto simp: rt_active_def)
  then show ?case using Cons by (simp add: group_rt_rq_def)
qed simp

lemma rt_ups_known:
  "rt_universe U \<Longrightarrow> g = [] \<or> GroupRtSe g \<in> U \<Longrightarrow> GroupRtSe ` set (rt_ups g) \<subseteq> U"
proof (induction g)
  case (Cons x g)
  then have "GroupRtSe (x # g) \<in> U" by simp
  with Cons.prems(1) have "g = [] \<or> GroupRtSe g \<in> U"
    unfolding rt_universe_def by (metis list.sel(3))
  with Cons show ?case by auto
qed simp

lemma stack_groups_fold:
  "dequeue_rt_stack E e s =
     fold (deq_if_on E) (rev (rt_chain s (Some e))) (set_back_chain None (rt_chain s (Some e)) s)"
  unfolding dequeue_rt_stack_def Let_def deq_if_on_def ..

section \<open>The stack of an entity\<close>

abbreviation rt_good ::
  "'x env \<Rightarrow> rt_se_ptr set \<Rightarrow> 'x sys \<Rightarrow> (tg_ptr \<times> nat \<Rightarrow> rt_se_ptr list) \<Rightarrow> bool" where
  "rt_good E U s Q \<equiv> rt_inv E U {} {} s Q"

abbreviation rt_group :: "'x sys \<Rightarrow> task_ptr \<Rightarrow> tg_ptr" where
  "rt_group s p \<equiv> rse_rt_rq (t_rt (tasks s p))"

lemma rt_task_ok_frame: "rt_frame s s' \<Longrightarrow> rt_task_ok U s' p \<longleftrightarrow> rt_task_ok U s p"
  by (simp add: rt_task_ok_def rt_frame_task)

lemma rt_frame_throttle: "rt_frame s s' \<Longrightarrow> rt_throttle_same s s'"
  by (simp add: rt_frame_def rt_throttle_same_def)

lemma set_back_inv:
  "rt_inv E U Y X s Q \<Longrightarrow> rt_inv E U Y X (set_back_chain b es s) Q"
  using set_back_chain_frame [of s b es]
  by (auto intro: rt_inv_same rt_frame_throttle)

lemma rt_on_task:
  "\<not> rt_on Q (TaskRtSe p) \<Longrightarrow> p \<notin> set (rt_tasks Q k)"
  unfolding rt_on_def rt_tasks_mem by blast

lemma deq_if_on_task:
  assumes i: "rt_inv E U Y X s Q" and g: "rt_group s p = [] \<or> rt_group s p \<in> X"
  shows "\<exists>Q'. rt_inv E U Y X (deq_if_on E (TaskRtSe p) s) Q' \<and>
    rt_frame s (deq_if_on E (TaskRtSe p) s) \<and> \<not> rt_on Q' (TaskRtSe p) \<and>
    rt_tasks Q' = (\<lambda>k. removeAll p (rt_tasks Q k))"
proof (cases "rt_on Q (TaskRtSe p)")
  case True
  let ?g = "rt_group s p"
  obtain j where j: "TaskRtSe p \<in> set (Q (?g, j))"
    by (rule rt_on_place [OF i True]) (simp add: rt_rq_of_se_def)
  let ?Q = "Q((?g, j) := removeAll (TaskRtSe p) (Q (?g, j)))"
  have u: "k = (?g, j)" if "TaskRtSe p \<in> set (Q k)" for k
    using rt_invD(4) [OF i] that j by (auto simp: rt_links_def dest: on_queuesD(6))
  have "\<not> rt_on ?Q (TaskRtSe p)"
    using rt_on_replace [OF rt_invD(4) [OF i], of "TaskRtSe p" ?g j] j by auto
  moreover have "removeAll p (rt_tasks Q k) = rt_tasks Q k" if "k \<noteq> (?g, j)" for k
  proof -
    have "p \<notin> set (rt_tasks Q k)" using u [of k] that by (auto simp: rt_tasks_mem)
    then show ?thesis by simp
  qed
  then have "rt_tasks ?Q = (\<lambda>k. removeAll p (rt_tasks Q k))"
    unfolding rt_tasks_removeAll_task by (intro ext) (metis fun_upd_apply)
  ultimately show ?thesis
    using dequeue_entity_inv [OF i j g] dequeue_entity_fields(6) [OF i j]
      True rt_on_iff [OF i, of "TaskRtSe p"]
    by (auto simp: deq_if_on_def off_add_def)
next
  case False
  then have "removeAll p (rt_tasks Q k) = rt_tasks Q k" for k
    using rt_on_task [OF False] by simp
  then show ?thesis
    using i False rt_on_iff [OF i, of "TaskRtSe p"] by (auto simp: deq_if_on_def rt_frame_refl)
qed

lemma dequeue_stack_task:
  assumes i: "rt_inv E U Y X s Q" and p: "rt_task_ok U s p"
  shows "\<exists>Q'. rt_inv E U Y (X \<union> set (rt_ups (rt_group s p))) (dequeue_rt_stack E (TaskRtSe p) s) Q' \<and>
    rt_frame s (dequeue_rt_stack E (TaskRtSe p) s) \<and> \<not> rt_on Q' (TaskRtSe p) \<and>
    rt_tasks Q' = (\<lambda>k. removeAll p (rt_tasks Q k))"
proof -
  let ?g = "rt_group s p"
  let ?c = "rt_chain s (Some (TaskRtSe p))"
  let ?s0 = "set_back_chain None ?c s"
  let ?s1 = "fold (deq_if_on E) (map GroupRtSe (rev (rt_ups ?g))) ?s0"
  have c: "?c = TaskRtSe p # map GroupRtSe (rt_ups ?g)" by (rule rt_chain_task [OF p])
  obtain Q1 where 1: "rt_inv E U Y (X \<union> set (rt_ups ?g)) ?s1 Q1" "rt_frame ?s0 ?s1"
    "rt_tasks Q1 = rt_tasks Q"
    using dequeue_groups [OF set_back_inv [OF i, of None ?c], of ?g] by blast
  have f: "rt_frame s ?s1" using set_back_chain_frame [of s None ?c] 1(2) by (blast intro: rt_frame_trans)
  have g: "rt_group ?s1 p = ?g" using rt_frame_task(3) [OF f] by simp
  then have "rt_group ?s1 p = [] \<or> rt_group ?s1 p \<in> X \<union> set (rt_ups ?g)"
    using rt_ups_mem by auto
  from deq_if_on_task [OF 1(1) this] obtain Q2 where
    2: "rt_inv E U Y (X \<union> set (rt_ups ?g)) (deq_if_on E (TaskRtSe p) ?s1) Q2"
      "rt_frame ?s1 (deq_if_on E (TaskRtSe p) ?s1)" "\<not> rt_on Q2 (TaskRtSe p)"
      "rt_tasks Q2 = (\<lambda>k. removeAll p (rt_tasks Q1 k))" by blast
  have "dequeue_rt_stack E (TaskRtSe p) s = deq_if_on E (TaskRtSe p) ?s1"
    unfolding stack_groups_fold c by (simp add: rev_map)
  then show ?thesis using 1(3) 2 f by (auto intro: rt_frame_trans)
qed

lemma dequeue_stack_group:
  assumes i: "rt_inv E U Y X s Q" and h: "h \<noteq> []"
  shows "\<exists>Q'. rt_inv E U Y (X \<union> set (rt_ups h)) (dequeue_rt_stack E (GroupRtSe h) s) Q' \<and>
    rt_frame s (dequeue_rt_stack E (GroupRtSe h) s) \<and> rt_tasks Q' = rt_tasks Q"
proof -
  let ?c = "rt_chain s (Some (GroupRtSe h))"
  let ?s0 = "set_back_chain None ?c s"
  have c: "?c = map GroupRtSe (rt_ups h)"
    using rt_chain_group [of s h] h by (cases h) (simp_all add: tg_rt_se_def)
  have f: "rt_frame s ?s0" using set_back_chain_frame by blast
  show ?thesis
    using dequeue_groups [OF set_back_inv [OF i, of None ?c], of h] f
    unfolding stack_groups_fold c by (auto simp: rev_map intro: rt_frame_trans)
qed

section \<open>Enqueueing and dequeueing a task\<close>

lemma enqueue_rt_entity_task:
  assumes i: "rt_good E U s Q" and p: "rt_task_ok U s p"
    and prio: "0 \<le> t_prio (tasks s p)" "t_prio (tasks s p) < 100"
  defines "k \<equiv> (rt_group s p, nat (t_prio (tasks s p)))"
  shows "\<exists>Q'. rt_good E U (enqueue_rt_entity E (TaskRtSe p) head s) Q' \<and>
    rt_frame s (enqueue_rt_entity E (TaskRtSe p) head s) \<and>
    rt_tasks Q' = (\<lambda>k. removeAll p (rt_tasks Q k))
      (k := insert_at head p (removeAll p (rt_tasks Q k)))"
proof -
  let ?g = "rt_group s p" and ?e = "TaskRtSe p"
  let ?s1 = "dequeue_rt_stack E ?e s"
  let ?s2 = "enqueue_rt_entity' E ?e head ?s1"
  let ?s3 = "fold (\<lambda>e s. enqueue_rt_entity' E e head s) (map GroupRtSe (rt_ups ?g)) ?s2"
  obtain Q1 where 1: "rt_inv E U {} (set (rt_ups ?g)) ?s1 Q1" "rt_frame s ?s1" "\<not> rt_on Q1 ?e"
    "rt_tasks Q1 = (\<lambda>k. removeAll p (rt_tasks Q k))"
    using dequeue_stack_task [OF i p] by auto
  have r: "rt_ready ?s1 ?e" using prio rt_frame_task(1) [OF 1(2)] by (simp add: rt_ready_def)
  have U: "?e \<in> U" "?g = [] \<or> GroupRtSe ?g \<in> U" using p by (auto simp: rt_task_ok_def Let_def split: if_splits)
  have se: "rt_rq_of_se ?s1 ?e = ?g" "rt_se_prio ?s1 ?e = t_prio (tasks s p)"
    using rt_frame_task(1,3) [OF 1(2)] by (simp_all add: rt_rq_of_se_def rt_se_prio_def)
  have g: "rt_rq_of_se ?s1 ?e = [] \<or> rt_rq_of_se ?s1 ?e \<in> set (rt_ups ?g)"
    unfolding se using rt_ups_mem by auto
  let ?Q2 = "Q1(k := insert_at head ?e (Q1 k))"
  have 2: "rt_inv E U {} (set (rt_ups ?g)) ?s2 ?Q2" "rt_frame ?s1 ?s2"
    using enqueue_entity_inv [OF 1(1) U(1) 1(3) r g, of head]
      enqueue_entity_fields(5) [OF 1(1) U(1) 1(3) r, of head]
    unfolding se k_def by (simp_all add: off_del_def)
  have ups: "GroupRtSe ` set (rt_ups ?g) \<subseteq> U" by (rule rt_ups_known [OF rt_invD(3) [OF i] U(2)])
  obtain Q3 where 3: "rt_good E U ?s3 Q3" "rt_frame ?s2 ?s3" "rt_tasks Q3 = rt_tasks ?Q2"
    using enqueue_groups [OF 2(1) _ ups, of head] by auto
  have "rt_chain ?s1 (Some ?e) = ?e # map GroupRtSe (rt_ups ?g)"
    using rt_chain_task [of U ?s1 p] p rt_task_ok_frame [OF 1(2)] rt_frame_task(3) [OF 1(2)] by simp
  then have "enqueue_rt_entity E ?e head s = ?s3" by (simp add: enqueue_rt_entity_def)
  moreover have "rt_tasks Q3 = (\<lambda>k. removeAll p (rt_tasks Q k))
      (k := insert_at head p (removeAll p (rt_tasks Q k)))"
    unfolding 3(3) rt_tasks_insert 1(4) ..
  moreover have "rt_frame s ?s3"
    by (rule rt_frame_trans [OF 1(2) rt_frame_trans [OF 2(2) 3(2)]])
  ultimately show ?thesis using 3(1) by auto
qed

lemma dequeue_rt_entity_task:
  assumes i: "rt_good E U s Q" and p: "rt_task_ok U s p"
  shows "\<exists>Q'. rt_good E U (dequeue_rt_entity E (TaskRtSe p) s) Q' \<and>
    rt_frame s (dequeue_rt_entity E (TaskRtSe p) s) \<and>
    rt_tasks Q' = (\<lambda>k. removeAll p (rt_tasks Q k))"
proof -
  let ?g = "rt_group s p" and ?e = "TaskRtSe p"
  let ?s1 = "dequeue_rt_stack E ?e s"
  let ?s2 = "fold (\<lambda>e s. enqueue_rt_entity' E e False s) (map GroupRtSe (rt_ups ?g)) ?s1"
  obtain Q1 where 1: "rt_inv E U {} (set (rt_ups ?g)) ?s1 Q1" "rt_frame s ?s1"
    "rt_tasks Q1 = (\<lambda>k. removeAll p (rt_tasks Q k))"
    using dequeue_stack_task [OF i p] by auto
  have "?g = [] \<or> GroupRtSe ?g \<in> U" using p by (auto simp: rt_task_ok_def Let_def split: if_splits)
  note ups = rt_ups_known [OF rt_invD(3) [OF i] this]
  obtain Q2 where 2: "rt_good E U ?s2 Q2" "rt_frame ?s1 ?s2" "rt_tasks Q2 = rt_tasks Q1"
    using enqueue_groups [OF 1(1) _ ups, of False] by auto
  have "rt_chain ?s1 (Some ?e) = ?e # map GroupRtSe (rt_ups ?g)"
    using rt_chain_task [of U ?s1 p] p rt_task_ok_frame [OF 1(2)] rt_frame_task(3) [OF 1(2)] by simp
  then have "dequeue_rt_entity E ?e s = ?s2"
    unfolding dequeue_rt_entity_def Let_def using put_back_groups [of E "rt_ups ?g" ?s1]
    by (simp add: group_rt_rq_def)
  then show ?thesis using 1 2 by (auto intro: rt_frame_trans)
qed

section \<open>Enqueueing and dequeueing a group\<close>

lemma group_chain: "h \<noteq> [] \<Longrightarrow> rt_chain s (Some (GroupRtSe h)) = map GroupRtSe (rt_ups h)"
  using rt_chain_group [of s h] by (cases h) (simp_all add: tg_rt_se_def)

lemma enqueue_rt_entity_group:
  assumes i: "rt_inv E U {} X s Q" and X: "X \<subseteq> {h}" and h: "GroupRtSe h \<in> U"
  shows "\<exists>Q'. rt_good E U (enqueue_rt_entity E (GroupRtSe h) head s) Q' \<and>
    rt_frame s (enqueue_rt_entity E (GroupRtSe h) head s) \<and> rt_tasks Q' = rt_tasks Q"
proof -
  let ?s1 = "dequeue_rt_stack E (GroupRtSe h) s"
  have ne: "h \<noteq> []" using rt_invD(3) [OF i] h by (auto simp: rt_universe_def)
  then have XU: "X \<union> set (rt_ups h) = set (rt_ups h)" using X rt_ups_mem by auto
  obtain Q1 where 1: "rt_inv E U {} (set (rt_ups h)) ?s1 Q1" "rt_frame s ?s1"
    "rt_tasks Q1 = rt_tasks Q"
    using dequeue_stack_group [OF i ne] unfolding XU by blast
  note ups = rt_ups_known [OF rt_invD(3) [OF i], of h]
  have eq: "enqueue_rt_entity E (GroupRtSe h) head s =
      fold (\<lambda>e s. enqueue_rt_entity' E e head s) (map GroupRtSe (rt_ups h)) ?s1" (is "_ = ?s2")
    unfolding enqueue_rt_entity_def Let_def group_chain [OF ne] ..
  obtain Q2 where "rt_good E U ?s2 Q2" "rt_frame ?s1 ?s2" "rt_tasks Q2 = rt_tasks Q1"
    using enqueue_groups [OF 1(1) _ ups, of head] h by auto
  then show ?thesis unfolding eq using 1(2,3) by (auto intro: rt_frame_trans)
qed

lemma dequeue_rt_entity_group:
  assumes i: "rt_inv E U Y {} s Q" and Y: "Y \<subseteq> {h}" and h: "GroupRtSe h \<in> U"
  shows "\<exists>Q'. rt_good E U (dequeue_rt_entity E (GroupRtSe h) s) Q' \<and>
    rt_frame s (dequeue_rt_entity E (GroupRtSe h) s) \<and> rt_tasks Q' = rt_tasks Q"
proof -
  let ?s1 = "dequeue_rt_stack E (GroupRtSe h) s"
  have ne: "h \<noteq> []" using rt_invD(3) [OF i] h by (auto simp: rt_universe_def)
  then have "Y \<subseteq> set (rt_ups h)" using Y rt_ups_mem by auto
  moreover obtain Q1 where 1: "rt_inv E U Y (set (rt_ups h)) ?s1 Q1" "rt_frame s ?s1"
    "rt_tasks Q1 = rt_tasks Q"
    using dequeue_stack_group [OF i ne] by auto
  ultimately have 2: "rt_inv E U {} (set (rt_ups h)) ?s1 Q1" by (blast intro: rt_inv_known)
  note ups = rt_ups_known [OF rt_invD(3) [OF i], of h]
  have eq: "dequeue_rt_entity E (GroupRtSe h) s =
      fold (\<lambda>e s. enqueue_rt_entity' E e False s) (map GroupRtSe (rt_ups h)) ?s1" (is "_ = ?s2")
    unfolding dequeue_rt_entity_def Let_def group_chain [OF ne] put_back_groups ..
  obtain Q2 where "rt_good E U ?s2 Q2" "rt_frame ?s1 ?s2" "rt_tasks Q2 = rt_tasks Q1"
    using enqueue_groups [OF 2 _ ups, of False] h by auto
  then show ?thesis unfolding eq using 1(2,3) by (auto intro: rt_frame_trans)
qed

end
