(* ===== verification/Rt_Pick.thy ===== *)
theory Rt_Pick
  imports Rt_Hierarchy
begin

text \<open>
  Which task the real-time class picks: it follows the first entity of the best list of each
  group down to a task. A task can run when no group above it is throttled; the pick is the
  first of its list among the tasks of the best priority that can run, and the class has
  nothing to offer exactly when none can.
\<close>

section \<open>Tasks that can run\<close>

definition rt_open :: "'x sys \<Rightarrow> tg_ptr \<Rightarrow> bool" where
  "rt_open s g \<longleftrightarrow> (\<forall>k\<in>set (rt_ups g). \<not> rt_rq_throttled s k) \<and> \<not> rt_rq_throttled s []"

definition rt_runnable :: "'x sys \<Rightarrow> (tg_ptr \<times> nat \<Rightarrow> rt_se_ptr list) \<Rightarrow> task_ptr set" where
  "rt_runnable s Q = {p. \<exists>g i. p \<in> set (rt_tasks Q (g, i)) \<and> rt_open s g}"

text \<open>The queues are determined by the links.\<close>

lemma rt_links_unique:
  assumes "rt_links s Q" and "rt_links s Q'"
  shows "Q = Q'"
proof (rule ext)
  fix k :: "tg_ptr \<times> nat"
  let ?hq = "\<lambda>(g, i). RtQueue g i" and ?K = "{(g, i). i < 100}"
  have q: "on_queues RtRun ?hq ?K (links s) Q" "on_queues RtRun ?hq ?K (links s) Q'"
    using assms by (simp_all add: rt_links_def)
  show "Q k = Q' k"
  proof (cases "k \<in> ?K")
    case True
    have "map RtRun (Q k) = map RtRun (Q' k)"
      by (rule is_list_unique [OF on_queuesD(5) [OF q(1) True] on_queuesD(5) [OF q(2) True]])
    then show ?thesis using inj_map_eq_map [OF on_queuesD(1) [OF q(1)]] by simp
  next
    case False
    then show ?thesis using on_queuesD(4) [OF q(1)] on_queuesD(4) [OF q(2)] by simp
  qed
qed

section \<open>The priority of a group bounds the priorities below it\<close>

lemma rt_nr_running_pos:
  assumes i: "rt_inv E U Y X s Q" and e: "e \<in> set (Q (g, j))"
  shows "rtq_nr_running (rt_rqs s g) \<noteq> 0" "rtq_highest_prio (rt_rqs s g) \<le> int j"
proof -
  note a = rt_invD(6) [OF i, of g]
  have "j < 100" by (rule rt_key [OF rt_invD(4) [OF i] e])
  then show "rtq_nr_running (rt_rqs s g) \<noteq> 0"
    using arr_size_pos [of j e "rt_array Q g"] e rq_agreesD(7) [OF a] by (auto simp: rt_array_def)
  have "rt_array Q g j \<noteq> []" using e by (auto simp: rt_array_def)
  from arr_top_lower [where qa = "rt_array Q g", OF this]
  show "rtq_highest_prio (rt_rqs s g) \<le> int j" using rq_agreesD(5) [OF a] by simp
qed

lemma rt_group_bound:
  assumes i: "rt_good E U s Q" and h: "h \<noteq> []" "rt_active s h"
  shows "rtq_nr_running (rt_rqs s (tl h)) \<noteq> 0"
    "rtq_highest_prio (rt_rqs s (tl h)) \<le> rtq_highest_prio (rt_rqs s h)"
proof -
  have "rt_on Q (GroupRtSe h)" using rt_invD(7) [OF i] h by (auto simp: rt_groups_queued_def)
  then obtain j where j: "GroupRtSe h \<in> set (Q (tl h, j))" "rt_se_prio s (GroupRtSe h) = int j"
    by (rule rt_on_place [OF i]) (simp add: rt_rq_of_se_def)
  show "rtq_nr_running (rt_rqs s (tl h)) \<noteq> 0"
    "rtq_highest_prio (rt_rqs s (tl h)) \<le> rtq_highest_prio (rt_rqs s h)"
    using rt_nr_running_pos [OF i j(1)] j(2) by (simp_all add: rt_se_prio_def)
qed

lemma rt_root_bound:
  assumes i: "rt_good E U s Q"
  shows "rtq_nr_running (rt_rqs s g) \<noteq> 0 \<Longrightarrow> (\<And>k. k \<in> set (rt_ups g) \<Longrightarrow> \<not> rt_rq_throttled s k) \<Longrightarrow>
    rtq_nr_running (rt_rqs s []) \<noteq> 0 \<and>
    rtq_highest_prio (rt_rqs s []) \<le> rtq_highest_prio (rt_rqs s g)"
proof (induction g)
  case (Cons x g)
  then have a: "rt_active s (x # g)" by (simp add: rt_active_def)
  from rt_group_bound [OF i _ a] Cons show ?case by force
qed simp

lemma rt_runnable_bound:
  assumes i: "rt_good E U s Q" and p: "p \<in> rt_runnable s Q"
  shows "rtq_nr_running (rt_rqs s []) \<noteq> 0" "\<not> rt_rq_throttled s []"
    "rtq_highest_prio (rt_rqs s []) \<le> t_prio (tasks s p)"
proof -
  obtain g j where j: "TaskRtSe p \<in> set (Q (g, j))" and o: "rt_open s g"
    using p by (auto simp: rt_runnable_def rt_tasks_mem)
  note b = rt_nr_running_pos [OF i j]
  have "t_prio (tasks s p) = int j"
    using rt_placedD(3) [OF rt_invD(5) [OF i] j] by (simp add: rt_se_prio_def)
  then show "rtq_nr_running (rt_rqs s []) \<noteq> 0" "\<not> rt_rq_throttled s []"
    "rtq_highest_prio (rt_rqs s []) \<le> t_prio (tasks s p)"
    using rt_root_bound [OF i b(1)] b(2) o by (auto simp: rt_open_def)
qed

section \<open>The way down\<close>

lemma pick_next_rt_entity_spec:
  assumes i: "rt_good E U s Q" and nr: "rtq_nr_running (rt_rqs s g) \<noteq> 0"
  shows "\<exists>e es. pick_next_rt_entity E g s = Some e \<and>
    Q (g, nat (rtq_highest_prio (rt_rqs s g))) = e # es \<and>
    rt_rq_of_se s e = g \<and> rt_se_prio s e = rtq_highest_prio (rt_rqs s g)"
proof -
  note d = rt_invD [OF i] and a = rt_invD(6) [OF i, of g]
  let ?j = "arr_top (rt_array Q g)"
  have hp: "rtq_highest_prio (rt_rqs s g) = int ?j" by (rule rq_agreesD(5) [OF a])
  have j: "?j < 100" using nr rq_agreesD(7) [OF a] by (intro arr_top_less) auto
  from arr_top_nonempty [OF j] obtain e es where e: "Q (g, ?j) = e # es"
    by (auto simp: rt_array_def neq_Nil_conv)
  have "x_find_first_bit E (rtq_bitmap (rt_rqs s g)) = ?j"
    by (rule ffb_top [OF d(2)]) (use rq_agreesD(2,3) [OF a] in auto)
  moreover have "lh_next (links s (RtQueue g ?j)) = RtRun e"
    using on_queues_next [OF d(4) [unfolded rt_links_def], of "(g, ?j)"] j e by simp
  ultimately have "pick_next_rt_entity E g s = Some e"
    using j by (simp add: pick_next_rt_entity_def MAX_RT_PRIO_def)
  moreover have mem: "e \<in> set (Q (g, ?j))" using e by simp
  ultimately show ?thesis using e hp rt_placedD(2,3) [OF d(5) mem] by auto
qed

text \<open>
  The loop ends because every step goes down to a group that exists; \<open>N\<close> bounds the depth of
  the groups.
\<close>

lemma pick_rt_loop_spec:
  assumes i: "rt_good E U s Q" and N: "\<And>h. GroupRtSe h \<in> U \<Longrightarrow> length h \<le> N"
  shows "rtq_nr_running (rt_rqs s g) \<noteq> 0 \<Longrightarrow> \<exists>p h. pick_rt_loop E s g = Some p \<and>
    (\<exists>ps. rt_tasks Q (h, nat (t_prio (tasks s p))) = p # ps) \<and>
    t_prio (tasks s p) = rtq_highest_prio (rt_rqs s g) \<and>
    (\<forall>k\<in>set (rt_ups h) - set (rt_ups g). \<not> rt_rq_throttled s k)"
proof (induction "N - length g" arbitrary: g rule: less_induct)
  case less
  obtain e es where e: "pick_next_rt_entity E g s = Some e"
    "Q (g, nat (rtq_highest_prio (rt_rqs s g))) = e # es"
    "rt_rq_of_se s e = g" "rt_se_prio s e = rtq_highest_prio (rt_rqs s g)"
    using pick_next_rt_entity_spec [OF i less.prems] by blast
  show ?case
  proof (cases e)
    case (TaskRtSe p)
    then have "pick_rt_loop E s g = Some p" by (subst pick_rt_loop.simps) (simp add: e(1))
    then show ?thesis
      using e(2,4) TaskRtSe
      by (intro exI [of _ p] exI [of _ g]) (auto simp: rt_tasks_def rt_se_prio_def)
  next
    case (GroupRtSe h)
    have mem: "e \<in> set (Q (g, nat (rtq_highest_prio (rt_rqs s g))))" using e(2) by simp
    have "GroupRtSe h \<in> U" using rt_placedD(1) [OF rt_invD(5) [OF i] mem] GroupRtSe by simp
    then have h: "h \<noteq> []" "length h \<le> N"
      using rt_invD(3) [OF i] N by (auto simp: rt_universe_def)
    have tl: "tl h = g" using e(3) GroupRtSe by (simp add: rt_rq_of_se_def)
    have "rt_on Q (GroupRtSe h)" unfolding rt_on_def using mem GroupRtSe by blast
    then have act: "rt_active s h" using rt_invD(7) [OF i] h(1) by (auto simp: rt_groups_queued_def)
    have shorter: "N - length h < N - length g" using tl h by (cases h) auto
    have "rtq_nr_running (rt_rqs s h) \<noteq> 0" using act by (simp add: rt_active_def)
    from less.hyps [OF shorter this] obtain p k where
      pk: "pick_rt_loop E s h = Some p" "\<exists>ps. rt_tasks Q (k, nat (t_prio (tasks s p))) = p # ps"
        "t_prio (tasks s p) = rtq_highest_prio (rt_rqs s h)"
        "\<forall>x\<in>set (rt_ups k) - set (rt_ups h). \<not> rt_rq_throttled s x" by blast
    have "pick_rt_loop E s g = Some p"
      by (subst pick_rt_loop.simps) (simp add: e(1) GroupRtSe pk(1))
    moreover have "rtq_highest_prio (rt_rqs s h) = rtq_highest_prio (rt_rqs s g)"
      using e(4) GroupRtSe by (simp add: rt_se_prio_def)
    moreover have "\<forall>x\<in>set (rt_ups k) - set (rt_ups g). \<not> rt_rq_throttled s x"
      using pk(4) act rt_ups_tl [OF h(1)] tl by (auto simp: rt_active_def)
    ultimately show ?thesis using pk(2,3) by auto
  qed
qed

section \<open>The pick\<close>

lemma pick_next_task_rt_spec:
  assumes i: "rt_good E U s Q"
  shows "(rt_runnable s Q = {} \<and> pick_next_task_rt E s = Some (s, None)) \<or>
    (\<exists>p h ps. p \<in> rt_runnable s Q \<and> (\<forall>q\<in>rt_runnable s Q. t_prio (tasks s p) \<le> t_prio (tasks s q)) \<and>
       rt_tasks Q (h, nat (t_prio (tasks s p))) = p # ps \<and>
       pick_next_task_rt E s = Some (upd_task p (t_se_update (se_exec_start_update
         (\<lambda>_. rq_clock_task (the_rq s)))) s, Some p))"
proof (cases "rtq_nr_running (rt_rqs s []) = 0 \<or> rt_rq_throttled s []")
  case True
  then show ?thesis
    using rt_runnable_bound [OF i] by (auto simp: pick_next_task_rt_def pick_next_task_rt'_def)
next
  case False
  have "finite (length ` {h. GroupRtSe h \<in> U})"
    using rt_invD(3) [OF i] inj_on_finite [of GroupRtSe "{h. GroupRtSe h \<in> U}" U]
    by (auto simp: rt_universe_def inj_on_def)
  then obtain N where N: "\<And>h. GroupRtSe h \<in> U \<Longrightarrow> length h \<le> N"
    by (metis (mono_tags, lifting) Max_ge imageI mem_Collect_eq)
  obtain p h ps where p: "pick_rt_loop E s [] = Some p"
    "rt_tasks Q (h, nat (t_prio (tasks s p))) = p # ps"
    "t_prio (tasks s p) = rtq_highest_prio (rt_rqs s [])"
    "\<forall>k\<in>set (rt_ups h). \<not> rt_rq_throttled s k"
    using pick_rt_loop_spec [OF i N, of "[]"] False by auto
  have "p \<in> set (rt_tasks Q (h, nat (t_prio (tasks s p))))" using p(2) by simp
  then have "p \<in> rt_runnable s Q"
    unfolding rt_runnable_def rt_open_def using p(4) False by blast
  moreover have "\<forall>q\<in>rt_runnable s Q. t_prio (tasks s p) \<le> t_prio (tasks s q)"
    using rt_runnable_bound(3) [OF i] p(3) by auto
  ultimately show ?thesis
    using p(1,2) False by (auto simp: pick_next_task_rt_def pick_next_task_rt'_def)
qed

end
