(* ===== verification/Rt_Class.thy ===== *)
theory Rt_Class
  imports Rt_Pick "HOL-Library.Multiset"
begin

text \<open>
  The operations of the real-time class on the hierarchy of queues: each keeps the invariant,
  changes the queued tasks as its name says, and leaves the rest of the scheduler alone; then
  the accounting of run time, throttling and the period timer.
\<close>

section \<open>What the class leaves alone\<close>

text \<open>The fields of a task and of the run queue the class never writes.\<close>

definition task_core :: "task_struct \<Rightarrow> _" where
  "task_core t = (t_state t, t_on_rq t, t_flags t, t_prio t, t_static_prio t, t_normal_prio t,
     t_rt_priority t, t_sched_class t, t_wrr t, t_sched_task_group t, t_policy t,
     rse_parent (t_rt t), rse_rt_rq (t_rt t), t_preempt_count t,
     t_sched_reset_on_fork t)"

definition rq_core :: "rq \<Rightarrow> _" where
  "rq_core r = (rq_wrr r, rq_curr r, rq_idle r, rq_stop r, rq_clock_task r)"

definition rt_only :: "'x sys \<Rightarrow> 'x sys \<Rightarrow> bool" where
  "rt_only s s' \<longleftrightarrow> (\<forall>p. task_core (tasks s' p) = task_core (tasks s p)) \<and>
     rq_core (the_rq s') = rq_core (the_rq s) \<and>
     (\<forall>n. \<not> rt_node n \<longrightarrow> links s' n = links s n) \<and> warns s' = warns s"

lemma rt_only_refl: "rt_only s s"
  by (simp add: rt_only_def)

lemma rt_only_trans: "rt_only s t \<Longrightarrow> rt_only t u \<Longrightarrow> rt_only s u"
  by (simp add: rt_only_def)

lemma task_same_core: "task_same_but_back t t' \<Longrightarrow> task_core t' = task_core t"
  by (auto simp: task_same_but_back_def task_core_def)

lemma rt_frame_only: "rt_frame s s' \<Longrightarrow> rt_only s s'"
  unfolding rt_frame_def rt_only_def by (auto simp: rq_core_def task_same_core)

lemma rt_only_task:
  assumes "rt_only s s'"
  shows "t_prio (tasks s' p) = t_prio (tasks s p)"
    "t_normal_prio (tasks s' p) = t_normal_prio (tasks s p)"
    "rt_group s' p = rt_group s p"
    "rse_parent (t_rt (tasks s' p)) = rse_parent (t_rt (tasks s p))"
    "t_sched_class (tasks s' p) = t_sched_class (tasks s p)"
    "t_on_rq (tasks s' p) = t_on_rq (tasks s p)"
    "t_policy (tasks s' p) = t_policy (tasks s p)"
    "rq_curr (the_rq s') = rq_curr (the_rq s)" "rq_wrr (the_rq s') = rq_wrr (the_rq s)"
  using assms by (auto simp: rt_only_def task_core_def rq_core_def)

lemma rt_task_ok_only: "rt_only s s' \<Longrightarrow> rt_task_ok U s' p \<longleftrightarrow> rt_task_ok U s p"
  by (simp add: rt_task_ok_def rt_only_task)

lemma rt_only_upd_task:
  "(\<And>t. task_core (f t) = task_core t) \<Longrightarrow> rt_only s (upd_task p f s)"
  by (simp add: rt_only_def)

lemma rt_same_upd_task:
  "(\<And>t. task_core (f t) = task_core t) \<Longrightarrow> rt_same s (upd_task p f s) \<and> rt_throttle_same s (upd_task p f s)"
  by (auto simp: rt_same_def rt_throttle_same_def task_core_def)

text \<open>
  \<open>rt_keeps E U s Q s'\<close>: the step from \<open>s\<close> to \<open>s'\<close> keeps the invariant and the tasks of every
  list, and changes nothing outside the class.
\<close>

definition rt_keeps ::
  "'x env \<Rightarrow> rt_se_ptr set \<Rightarrow> 'x sys \<Rightarrow> (tg_ptr \<times> nat \<Rightarrow> rt_se_ptr list) \<Rightarrow> 'x sys \<Rightarrow> bool" where
  "rt_keeps E U s Q s' \<longleftrightarrow> (\<exists>Q'. rt_good E U s' Q' \<and> rt_tasks Q' = rt_tasks Q) \<and> rt_only s s'"

lemma rt_keeps_refl: "rt_good E U s Q \<Longrightarrow> rt_keeps E U s Q s"
  by (auto simp: rt_keeps_def rt_only_refl)

lemma rt_keeps_trans:
  assumes "rt_keeps E U s Q t" and "\<And>Q'. rt_good E U t Q' \<Longrightarrow> rt_keeps E U t Q' u"
  shows "rt_keeps E U s Q u"
  using assms unfolding rt_keeps_def by (metis rt_only_trans)

lemma rt_keeps_same:
  "rt_good E U s Q \<Longrightarrow> rt_same s s' \<Longrightarrow> rt_throttle_same s s' \<Longrightarrow> rt_only s s' \<Longrightarrow> rt_keeps E U s Q s'"
  unfolding rt_keeps_def by (blast intro: rt_inv_same)

lemma rt_keeps_upd_task:
  "rt_good E U s Q \<Longrightarrow> (\<And>t. task_core (f t) = task_core t) \<Longrightarrow> rt_keeps E U s Q (upd_task p f s)"
  using rt_same_upd_task [of f s p] rt_only_upd_task [of f s p] by (auto intro: rt_keeps_same)

lemma rt_keeps_resched: "rt_good E U s Q \<Longrightarrow> rt_keeps E U s Q (resched_task p s)"
  unfolding resched_task_def set_tsk_need_resched_def
  by (erule rt_keeps_upd_task) (simp add: task_core_def)

lemma rt_keeps_fold:
  assumes "\<And>x s Q. x \<in> set xs \<Longrightarrow> P s \<Longrightarrow> rt_good E U s Q \<Longrightarrow> rt_keeps E U s Q (f x s)"
    and "\<And>s s'. P s \<Longrightarrow> rt_only s s' \<Longrightarrow> P s'"
  shows "rt_good E U s Q \<Longrightarrow> P s \<Longrightarrow> rt_keeps E U s Q (fold f xs s)"
  using assms(1)
proof (induction xs arbitrary: s Q)
  case Nil
  then show ?case by (simp add: rt_keeps_refl)
next
  case (Cons x xs)
  have 1: "rt_keeps E U s Q (f x s)" by (rule Cons.prems(3)) (simp_all add: Cons.prems)
  then have "P (f x s)" using assms(2) [OF Cons.prems(2)] by (simp add: rt_keeps_def)
  then have "rt_keeps E U (f x s) Q' (fold f xs (f x s))" if "rt_good E U (f x s) Q'" for Q'
    using that by (intro Cons.IH) (auto intro: Cons.prems(3))
  from rt_keeps_trans [OF 1 this] show ?case by simp
qed

section \<open>Throttling\<close>

definition rt_group_ok :: "rt_se_ptr set \<Rightarrow> tg_ptr \<Rightarrow> bool" where
  "rt_group_ok U g \<longleftrightarrow> g = [] \<or> GroupRtSe g \<in> U"

lemma rt_only_upd_rt_rq: "rt_only s (upd_rt_rq g f s)"
  by (simp add: rt_only_def)

lemma rt_same_upd_rt_rq:
  "(\<And>q. (rtq_bitmap (f q), rtq_nr_running (f q), rtq_highest_prio (f q), rtq_nr_boosted (f q)) =
     (rtq_bitmap q, rtq_nr_running q, rtq_highest_prio q, rtq_nr_boosted q)) \<Longrightarrow>
   rt_same s (upd_rt_rq g f s)"
  by (simp add: rt_same_def)

lemma rt_keeps_upd_time:
  "rt_good E U s Q \<Longrightarrow> rt_keeps E U s Q (upd_rt_rq g (rtq_time_update f) s)"
  by (rule rt_keeps_same) (simp_all add: rt_only_upd_rt_rq rt_same_upd_rt_rq rt_throttle_same_def)

text \<open>The fields of the run queues that hold the bandwidth, and its configuration.\<close>

definition rt_times_same :: "'x sys \<Rightarrow> 'x sys \<Rightarrow> bool" where
  "rt_times_same s s' \<longleftrightarrow> tgs s' = tgs s \<and>
     (\<forall>h. rtq_throttled (rt_rqs s' h) = rtq_throttled (rt_rqs s h) \<and>
        rtq_time (rt_rqs s' h) = rtq_time (rt_rqs s h) \<and>
        rtq_runtime (rt_rqs s' h) = rtq_runtime (rt_rqs s h))"

lemma rt_times_refl: "rt_times_same s s"
  by (simp add: rt_times_same_def)

lemma rt_times_trans: "rt_times_same s t \<Longrightarrow> rt_times_same t u \<Longrightarrow> rt_times_same s u"
  by (simp add: rt_times_same_def)

lemma rt_frame_times: "rt_frame s s' \<Longrightarrow> rt_times_same s s'"
  by (simp add: rt_frame_def rt_times_same_def)

lemma rt_times_resched: "rt_times_same s (resched_task p s)"
  by (simp add: rt_times_same_def resched_task_def set_tsk_need_resched_def)

text \<open>
  A group whose throttling changes is put on or taken off its parent's queue, unless nothing
  changes for the queue.
\<close>

lemma throttle_group:
  assumes i: "rt_good E U s Q" and g: "rt_group_ok U g"
    and f: "\<And>q. (rtq_bitmap (f q), rtq_nr_running (f q), rtq_highest_prio (f q), rtq_nr_boosted (f q)) =
     (rtq_bitmap q, rtq_nr_running q, rtq_highest_prio q, rtq_nr_boosted q)"
    and off: "\<not> rt_active (upd_rt_rq g f s) g"
  shows "rt_keeps E U s Q (sched_rt_rq_dequeue E g (upd_rt_rq g f s)) \<and>
    rt_times_same (upd_rt_rq g f s) (sched_rt_rq_dequeue E g (upd_rt_rq g f s))"
proof -
  let ?s = "upd_rt_rq g f s"
  have c: "rt_same s ?s" by (rule rt_same_upd_rt_rq [OF f])
  have act: "rt_active ?s h \<longleftrightarrow> rt_active s h" if "h \<noteq> g" for h
    using that by (simp add: rt_active_def rt_rq_throttled_def)
  have y: "rt_groups_queued {g} {} ?s Q"
    using rt_invD(7) [OF i] act by (auto simp: rt_groups_queued_def)
  have i': "rt_inv E U {g} {} ?s Q" by (rule rt_inv_cong [OF i c y])
  show ?thesis
  proof (cases "g \<noteq> [] \<and> rt_on Q (GroupRtSe g)")
    case True
    then have "sched_rt_rq_dequeue E g ?s = dequeue_rt_entity E (GroupRtSe g) ?s"
      using rt_on_iff [OF i', of "GroupRtSe g"]
      by (cases g) (auto simp: sched_rt_rq_dequeue_def tg_rt_se_def)
    moreover have "GroupRtSe g \<in> U" using True g by (simp add: rt_group_ok_def)
    ultimately show ?thesis
      using dequeue_rt_entity_group [OF i', of g] rt_only_upd_rt_rq [of s g f]
      by (auto simp: rt_keeps_def intro: rt_only_trans rt_frame_only rt_frame_times)
  next
    case False
    then have eq: "sched_rt_rq_dequeue E g ?s = ?s"
      using rt_on_iff [OF i', of "GroupRtSe g"]
      by (cases g) (auto simp: sched_rt_rq_dequeue_def tg_rt_se_def)
    have "rt_groups_queued {} {} ?s Q"
      using y off False by (auto simp: rt_groups_queued_def)
    then show ?thesis
      unfolding eq rt_keeps_def
      using rt_inv_cong [OF i c] rt_only_upd_rt_rq [of s g f] rt_times_refl by blast
  qed
qed

lemma unthrottle_group:
  assumes i: "rt_good E U s Q" and g: "rt_group_ok U g"
    and f: "\<And>q. (rtq_bitmap (f q), rtq_nr_running (f q), rtq_highest_prio (f q), rtq_nr_boosted (f q)) =
     (rtq_bitmap q, rtq_nr_running q, rtq_highest_prio q, rtq_nr_boosted q)"
    and on: "\<not> rt_rq_throttled (upd_rt_rq g f s) g"
    and t: "tasks t = tasks s" "links t = links s" "rt_rqs t = rt_rqs (upd_rt_rq g f s)"
      "rq_core (the_rq t) = rq_core (the_rq s)" "warns t = warns s"
  shows "rt_keeps E U s Q (sched_rt_rq_enqueue E g t) \<and>
    rt_times_same t (sched_rt_rq_enqueue E g t)"
proof -
  have c: "rt_same s t" using t f by (simp add: rt_same_def)
  have o: "rt_only s t" using t by (simp add: rt_only_def)
  have act: "rt_active t h \<longleftrightarrow> rt_active s h" if "h \<noteq> g" for h
    using that t by (simp add: rt_active_def rt_rq_throttled_def)
  have on': "\<not> rt_rq_throttled t g" using on t by (simp add: rt_rq_throttled_def)
  have nr: "rtq_nr_running (rt_rqs t g) = rtq_nr_running (rt_rqs s g)" using t f [of "rt_rqs s g"] by simp
  let ?t1 = "if g \<noteq> [] \<and> \<not> on_rt_rq E (GroupRtSe g) t then enqueue_rt_entity E (GroupRtSe g) False t else t"
  have 1: "rt_keeps E U s Q t" if "g = [] \<or> rtq_nr_running (rt_rqs s g) = 0 \<or> rt_on Q (GroupRtSe g)"
  proof -
    have s: "rt_on Q (GroupRtSe h) \<longleftrightarrow> rt_active s h" if "h \<noteq> []" for h
      using rt_invD(7) [OF i] that by (simp add: rt_groups_queued_def)
    have "rt_on Q (GroupRtSe h) \<longleftrightarrow> rt_active t h" if "h \<noteq> []" for h
      using s [OF that] act [of h] on' nr \<open>g = [] \<or> _\<close> that
      by (cases "h = g") (auto simp: rt_active_def)
    then have "rt_groups_queued {} {} t Q" by (simp add: rt_groups_queued_def)
    from rt_inv_cong [OF i c this] show ?thesis using o by (auto simp: rt_keeps_def)
  qed
  have on_iff: "on_rt_rq E (GroupRtSe g) t \<longleftrightarrow> rt_on Q (GroupRtSe g)"
    using rt_on_iff [OF i, of "GroupRtSe g"] t by (simp add: on_rt_rq_def)
  have 2: "rt_keeps E U s Q (enqueue_rt_entity E (GroupRtSe g) False t) \<and>
      rt_times_same t (enqueue_rt_entity E (GroupRtSe g) False t)"
    if ne: "g \<noteq> []" and off: "\<not> rt_on Q (GroupRtSe g)"
  proof -
    have "rt_groups_queued {} {g} t Q"
      using rt_invD(7) [OF i] act off by (auto simp: rt_groups_queued_def)
    note i' = rt_inv_cong [OF i c this]
    have "GroupRtSe g \<in> U" using ne g by (simp add: rt_group_ok_def)
    from enqueue_rt_entity_group [OF i' _ this, of False] show ?thesis
      using o by (auto simp: rt_keeps_def intro: rt_only_trans rt_frame_only rt_frame_times)
  qed
  show ?thesis
  proof (cases "rtq_nr_running (rt_rqs t g) = 0")
    case True
    then show ?thesis using 1 nr by (simp add: sched_rt_rq_enqueue_def rt_times_refl)
  next
    case False
    have k: "rt_keeps E U s Q ?t1" "rt_times_same t ?t1" using 1 2 on_iff rt_times_refl by auto
    have eq: "sched_rt_rq_enqueue E g t =
        (if rtq_highest_prio (rt_rqs ?t1 g) < t_prio (tasks ?t1 (rq_curr (the_rq ?t1)))
         then resched_task (rq_curr (the_rq ?t1)) ?t1 else ?t1)"
      using False by (cases g) (simp_all add: sched_rt_rq_enqueue_def tg_rt_se_def Let_def)
    have "rt_keeps E U s Q (resched_task c ?t1)" for c
      by (rule rt_keeps_trans [OF k(1) rt_keeps_resched])
    then show ?thesis
      unfolding eq using k rt_times_trans [OF k(2) rt_times_resched] by simp
  qed
qed

section \<open>Accounting of run time\<close>

lemma sched_rt_runtime_exceeded_keeps:
  assumes i: "rt_good E U s Q" and g: "rt_group_ok U g"
  shows "rt_keeps E U s Q (fst (sched_rt_runtime_exceeded E g s))"
proof (cases "rtq_throttled (rt_rqs s g) = 0 \<and> \<not> sched_rt_period s g \<le> sched_rt_runtime s g \<and>
    sched_rt_runtime s g \<noteq> RUNTIME_INF \<and> sched_rt_runtime s g < rtq_time (rt_rqs s g)")
  case False
  then have "fst (sched_rt_runtime_exceeded E g s) = s"
    by (auto simp: sched_rt_runtime_exceeded_def Let_def)
  then show ?thesis using rt_keeps_refl [OF i] by simp
next
  case True
  let ?thr = "upd_rt_rq g (rtq_throttled_update (\<lambda>_. 1)) s"
  let ?time = "upd_rt_rq g (rtq_time_update (\<lambda>_. 0)) s"
  let ?on = "rtb_runtime (sched_rt_bandwidth s g) \<noteq> 0"
  have eq: "fst (sched_rt_runtime_exceeded E g s) =
      (if ?on then (if rt_rq_throttled ?thr g then sched_rt_rq_dequeue E g ?thr else ?thr) else ?time)"
    using True by (auto simp: sched_rt_runtime_exceeded_def Let_def rt_rq_throttled_def)
  show ?thesis
  proof (cases "?on \<and> rt_rq_throttled ?thr g")
    case t: True
    then have "\<not> rt_active ?thr g" by (simp add: rt_active_def)
    from throttle_group [OF i g _ this] t eq show ?thesis by simp
  next
    case f: False
    show ?thesis
    proof (cases ?on)
      case on: True
      then have "rt_active ?thr h \<longleftrightarrow> rt_active s h" for h
        using f True by (auto simp: rt_active_def rt_rq_throttled_def)
      then have "rt_groups_queued {} {} ?thr Q" using rt_invD(7) [OF i] by (simp add: rt_groups_queued_def)
      from rt_inv_cong [OF i _ this] have "rt_good E U ?thr Q"
        by (simp add: rt_same_upd_rt_rq)
      then show ?thesis
        using f on eq rt_only_upd_rt_rq by (auto simp: rt_keeps_def)
    next
      case False
      then show ?thesis using eq rt_keeps_upd_time [OF i] by simp
    qed
  qed
qed

lemma charge_rt_rq_keeps:
  assumes i: "rt_good E U s Q" and g: "rt_group_ok U g"
  shows "rt_keeps E U s Q (charge_rt_rq E c d g s)"
proof (cases "sched_rt_runtime s g = RUNTIME_INF")
  case True
  then show ?thesis using rt_keeps_refl [OF i] by (simp add: charge_rt_rq_def)
next
  case False
  let ?s1 = "upd_rt_rq g (rtq_time_update (\<lambda>t. t + d)) s"
  let ?r = "sched_rt_runtime_exceeded E g ?s1"
  have "rt_keeps E U s Q (fst ?r)"
    by (rule rt_keeps_trans [OF rt_keeps_upd_time [OF i]])
      (rule sched_rt_runtime_exceeded_keeps [OF _ g])
  moreover have "charge_rt_rq E c d g s = (if snd ?r then resched_task c (fst ?r) else fst ?r)"
    using False by (simp add: charge_rt_rq_def split: prod.splits)
  ultimately show ?thesis using rt_keeps_trans [OF _ rt_keeps_resched] by auto
qed

lemma rt_chain_groups_ok:
  assumes u: "rt_universe U" and p: "rt_task_ok U s p" and e: "e \<in> set (rt_chain s (Some (TaskRtSe p)))"
    and o: "rt_only s s'"
  shows "rt_group_ok U (rt_rq_of_se s' e)"
proof -
  have g: "rt_group_ok U (rt_group s p)"
    using p by (auto simp: rt_task_ok_def rt_group_ok_def Let_def split: if_splits)
  note ups = rt_ups_known [OF u, of "rt_group s p"]
  have "e = TaskRtSe p \<or> (\<exists>h\<in>set (rt_ups (rt_group s p)). e = GroupRtSe h)"
    using e unfolding rt_chain_task [OF p] by auto
  then show ?thesis
  proof
    assume "e = TaskRtSe p"
    then show ?thesis using g rt_only_task(3) [OF o] by (simp add: rt_rq_of_se_def)
  next
    assume "\<exists>h\<in>set (rt_ups (rt_group s p)). e = GroupRtSe h"
    then obtain h where h: "h \<in> set (rt_ups (rt_group s p))" "e = GroupRtSe h" by blast
    then have "GroupRtSe h \<in> U" using ups g by (auto simp: rt_group_ok_def)
    then show ?thesis
      using u h(2) by (cases "tl h") (auto simp: rt_group_ok_def rt_rq_of_se_def rt_universe_def)
  qed
qed

lemma rt_keeps_ext:
  assumes "rt_good E U s Q" and "tasks s' = tasks s" "links s' = links s" "rt_rqs s' = rt_rqs s"
    "rq_core (the_rq s') = rq_core (the_rq s)" "warns s' = warns s"
  shows "rt_keeps E U s Q s'"
  by (rule rt_keeps_same [OF assms(1)])
    (use assms(2-) in \<open>simp_all add: rt_same_def rt_throttle_same_def rt_only_def\<close>)

lemma update_curr_rt_keeps:
  assumes i: "rt_good E U s Q"
    and c: "t_sched_class (tasks s (curr s)) = Rt_class \<Longrightarrow> rt_task_ok U s (curr s)"
  shows "rt_keeps E U s Q (update_curr_rt E s)"
proof (cases "t_sched_class (tasks s (curr s)) = Rt_class")
  case False
  then show ?thesis using rt_keeps_refl [OF i] by (simp add: update_curr_rt_def)
next
  case True
  let ?c = "curr s"
  let ?d0 = "rq_clock_task (the_rq s) - se_exec_start (t_se (tasks s ?c))"
  let ?d = "if sint ?d0 < 0 then 0 else ?d0"
  let ?s1 = "upd_task ?c (t_se_update (se_sum_exec_runtime_update (\<lambda>r. r + ?d))) s"
  let ?s2 = "?s1\<lparr>ext := x_account_group_exec E ?c ?d (ext ?s1)\<rparr>"
  let ?s3 = "upd_task ?c (t_se_update (se_exec_start_update (\<lambda>_. rq_clock_task (the_rq ?s2)))) ?s2"
  let ?s4 = "cpuacct_charge E ?c ?d ?s3"
  let ?f = "\<lambda>e s. charge_rt_rq E ?c ?d (rt_rq_of_se s e) s"
  have 1: "rt_keeps E U s Q ?s1" by (rule rt_keeps_upd_task [OF i]) (simp add: task_core_def)
  have 2: "rt_keeps E U s Q ?s2" by (rule rt_keeps_trans [OF 1]) (auto intro: rt_keeps_ext)
  have 3: "rt_keeps E U s Q ?s3"
    by (rule rt_keeps_trans [OF 2], rule rt_keeps_upd_task) (simp_all add: task_core_def)
  have 4: "rt_keeps E U s Q ?s4" by (rule rt_keeps_trans [OF 3]) (auto intro: rt_keeps_ext)
  have eq: "update_curr_rt E s = (if \<not> rt_bandwidth_enabled ?s4 then ?s4
      else fold ?f (rt_chain ?s4 (Some (TaskRtSe ?c))) ?s4)"
    using True by (simp add: update_curr_rt_def Let_def)
  have p: "rt_task_ok U ?s4 ?c"
    using rt_task_ok_only [of s ?s4 U ?c] c [OF True] 4 by (simp add: rt_keeps_def)
  have "rt_keeps E U ?s4 Q4 (fold ?f (rt_chain ?s4 (Some (TaskRtSe ?c))) ?s4)"
    if q: "rt_good E U ?s4 Q4" for Q4
  proof (rule rt_keeps_fold [where P = "rt_only ?s4", OF _ _ q rt_only_refl])
    fix e t Q' assume e: "e \<in> set (rt_chain ?s4 (Some (TaskRtSe ?c)))" and o: "rt_only ?s4 t"
      and t: "rt_good E U t Q'"
    show "rt_keeps E U t Q' (?f e t)"
      by (rule charge_rt_rq_keeps [OF t rt_chain_groups_ok [OF rt_invD(3) [OF i] p e o]])
  next
    fix t t' assume "rt_only ?s4 t" "rt_only t t'"
    then show "rt_only ?s4 t'" by (rule rt_only_trans)
  qed
  then show ?thesis unfolding eq using 4 rt_keeps_trans [OF 4] by auto
qed

lemma fst_if_same: "fst (if c then (a, x) else (a, y)) = a"
  by simp

text \<open>The state after the period timer, without the bookkeeping of the result.\<close>

lemma timer_state:
  fixes s :: "'x sys"
  defines "T \<equiv> \<lambda>(s::'x sys) g (m::u64). rtq_time (rt_rqs s g) - min (rtq_time (rt_rqs s g)) (m * rtq_runtime (rt_rqs s g))"
  defines "s1 \<equiv> \<lambda>(s::'x sys) g (m::u64). upd_rt_rq g (rtq_time_update (\<lambda>t. t - min t (m * rtq_runtime (rt_rqs s g)))) s"
  shows "fst (do_sched_rt_period_timer E g m s) =
      (if rtq_time (rt_rqs s g) \<noteq> 0 then
         if rtq_throttled (rt_rqs s g) \<noteq> 0 \<and> T s g m < rtq_runtime (rt_rqs s g)
         then sched_rt_rq_enqueue E g
           (if rtq_nr_running (rt_rqs s g) \<noteq> 0 \<and> rq_curr (the_rq s) = rq_idle (the_rq s)
            then upd_rq (rq_skip_clock_update_update (\<lambda>_. - 1))
              (upd_rt_rq g (rtq_throttled_update (\<lambda>_. 0)) (s1 s g m))
            else upd_rt_rq g (rtq_throttled_update (\<lambda>_. 0)) (s1 s g m))
         else s1 s g m
       else if rtq_nr_running (rt_rqs s g) \<noteq> 0 \<and> \<not> rt_rq_throttled s g then sched_rt_rq_enqueue E g s
       else s)"
proof (cases "rtq_time (rt_rqs s g) = 0")
  case True
  then show ?thesis by (simp add: do_sched_rt_period_timer_def fst_if_same Let_def)
next
  case False
  show ?thesis
  proof (cases "rtq_throttled (rt_rqs s g) \<noteq> 0 \<and> T s g m < rtq_runtime (rt_rqs s g)")
    case True
    then show ?thesis
      using False by (simp add: do_sched_rt_period_timer_def fst_if_same Let_def T_def s1_def)
  next
    case un: False
    then show ?thesis
      using False by (cases "rtq_throttled (rt_rqs s g) = 0")
        (simp_all add: do_sched_rt_period_timer_def fst_if_same Let_def T_def s1_def)
  qed
qed

lemma do_sched_rt_period_timer_keeps:
  assumes i: "rt_good E U s Q" and g: "rt_group_ok U g"
  shows "rt_keeps E U s Q (fst (do_sched_rt_period_timer E g overrun s))"
proof -
  let ?R = "rt_rqs s g"
  let ?s1 = "upd_rt_rq g (rtq_time_update (\<lambda>t. t - min t (overrun * rtq_runtime ?R))) s"
  let ?s2 = "upd_rt_rq g (rtq_throttled_update (\<lambda>_. 0)) ?s1"
  let ?s3 = "if rtq_nr_running ?R \<noteq> 0 \<and> rq_curr (the_rq s) = rq_idle (the_rq s)
    then upd_rq (rq_skip_clock_update_update (\<lambda>_. - 1)) ?s2 else ?s2"
  let ?f = "\<lambda>q. (rtq_time_update (\<lambda>t. t - min t (overrun * rtq_runtime ?R)) q)\<lparr>rtq_throttled := 0\<rparr>"
  have s2: "?s2 = upd_rt_rq g ?f s" by (simp add: upd_rt_rq_twice)
  have "rt_keeps E U s Q (sched_rt_rq_enqueue E g ?s3)"
    by (rule unthrottle_group [OF i g, of ?f, THEN conjunct1])
      (auto simp: rt_rq_throttled_def rq_core_def)
  moreover have "rt_keeps E U s Q (sched_rt_rq_enqueue E g s)" if "\<not> rt_rq_throttled s g"
    by (rule unthrottle_group [OF i g, of "\<lambda>q. q", THEN conjunct1]) (use that in \<open>simp_all add: upd_rt_rq_id\<close>)
  ultimately show ?thesis
    unfolding timer_state using rt_keeps_upd_time [OF i] rt_keeps_refl [OF i] by auto
qed

section \<open>Queueing tasks\<close>

text \<open>\<open>rt_moves\<close>: like \<open>rt_keeps\<close>, with \<open>T\<close> for the tasks of the lists afterwards.\<close>

definition rt_moves ::
  "'x env \<Rightarrow> rt_se_ptr set \<Rightarrow> 'x sys \<Rightarrow> (tg_ptr \<times> nat \<Rightarrow> task_ptr list) \<Rightarrow> 'x sys \<Rightarrow> bool" where
  "rt_moves E U s T s' \<longleftrightarrow> (\<exists>Q'. rt_good E U s' Q' \<and> rt_tasks Q' = T) \<and> rt_only s s'"

lemma rt_keeps_moves: "rt_keeps E U s Q s' \<longleftrightarrow> rt_moves E U s (rt_tasks Q) s'"
  by (simp add: rt_keeps_def rt_moves_def)

lemma rt_moves_trans:
  assumes "rt_moves E U s T t" and "\<And>Q'. rt_good E U t Q' \<Longrightarrow> rt_tasks Q' = T \<Longrightarrow> rt_moves E U t T' u"
  shows "rt_moves E U s T' u"
  using assms unfolding rt_moves_def by (metis rt_only_trans)

lemma rt_moves_then_same:
  assumes "rt_moves E U s T t" and "\<And>Q'. rt_good E U t Q' \<Longrightarrow> rt_keeps E U t Q' u"
  shows "rt_moves E U s T u"
  by (rule rt_moves_trans [OF assms(1)]) (use assms(2) rt_keeps_moves in blast)

abbreviation rt_place :: "'x sys \<Rightarrow> task_ptr \<Rightarrow> tg_ptr \<times> nat" where
  "rt_place s p \<equiv> (rt_group s p, nat (t_prio (tasks s p)))"

lemma rt_off_tasks: "\<not> rt_on Q (TaskRtSe p) \<Longrightarrow> (\<lambda>k. removeAll p (rt_tasks Q k)) = rt_tasks Q"
  using rt_on_task [of Q p] by (intro ext) simp

lemma enqueue_task_rt_moves:
  assumes i: "rt_good E U s Q" and p: "rt_task_ok U s p" and off: "\<not> rt_on Q (TaskRtSe p)"
    and prio: "0 \<le> t_prio (tasks s p)" "t_prio (tasks s p) < 100"
  shows "rt_moves E U s ((rt_tasks Q)(rt_place s p :=
      insert_at (and flags ENQUEUE_HEAD \<noteq> 0) p (rt_tasks Q (rt_place s p)))) (enqueue_task_rt E p flags s)"
proof -
  let ?h = "and flags ENQUEUE_HEAD \<noteq> 0"
  let ?s1 = "if and flags ENQUEUE_WAKEUP \<noteq> 0
    then upd_task p (t_rt_update (rse_timeout_update (\<lambda>_. 0))) s else s"
  let ?s2 = "enqueue_rt_entity E (TaskRtSe p) ?h ?s1"
  have same: "rt_same s ?s1" "rt_throttle_same s ?s1" "rt_only s ?s1"
    using rt_same_upd_task [of "t_rt_update (rse_timeout_update (\<lambda>_. 0))" s p]
      rt_only_upd_task [of "t_rt_update (rse_timeout_update (\<lambda>_. 0))" s p]
    by (auto simp: task_core_def rt_only_refl) (simp_all add: rt_same_def rt_throttle_same_def)
  have i1: "rt_good E U ?s1 Q" by (rule rt_inv_same [OF i same(1,2)])
  have p1: "rt_task_ok U ?s1 p" using rt_task_ok_only [OF same(3)] p by simp
  note core = rt_only_task [OF same(3)]
  have off': "removeAll p (rt_tasks Q k) = rt_tasks Q k" for k
    using rt_off_tasks [OF off] by (rule fun_cong)
  have "\<exists>Q'. rt_good E U ?s2 Q' \<and> rt_frame ?s1 ?s2 \<and>
      rt_tasks Q' = (rt_tasks Q)(rt_place s p := insert_at ?h p (rt_tasks Q (rt_place s p)))"
    by (rule enqueue_rt_entity_task [OF i1 p1, where head = "?h", unfolded core(1,3) off', OF prio])
  then obtain Q' where Q': "rt_good E U ?s2 Q'" "rt_frame ?s1 ?s2"
    "rt_tasks Q' = (rt_tasks Q)(rt_place s p := insert_at ?h p (rt_tasks Q (rt_place s p)))"
    by blast
  have "rt_only s ?s2" by (rule rt_only_trans [OF same(3) rt_frame_only [OF Q'(2)]])
  then have m: "rt_moves E U s ((rt_tasks Q)(rt_place s p :=
      insert_at ?h p (rt_tasks Q (rt_place s p)))) ?s2"
    unfolding rt_moves_def using Q'(1,3) by auto
  have eq: "enqueue_task_rt E p flags s = inc_nr_running ?s2"
    by (simp add: enqueue_task_rt_def Let_def)
  have k: "rt_keeps E U ?s2 Q2 (inc_nr_running ?s2)" if "rt_good E U ?s2 Q2" for Q2
    using that by (rule rt_keeps_ext) (simp_all add: inc_nr_running_def rq_core_def)
  show ?thesis unfolding eq by (rule rt_moves_then_same [OF m k])
qed

lemma dequeue_task_rt_moves:
  assumes i: "rt_good E U s Q" and p: "rt_task_ok U s p"
    and c: "t_sched_class (tasks s (curr s)) = Rt_class \<Longrightarrow> rt_task_ok U s (curr s)"
  shows "rt_moves E U s (\<lambda>k. removeAll p (rt_tasks Q k)) (dequeue_task_rt E p flags s)"
proof -
  let ?s1 = "update_curr_rt E s"
  let ?s2 = "dequeue_rt_entity E (TaskRtSe p) ?s1"
  obtain Q1 where 1: "rt_good E U ?s1 Q1" "rt_tasks Q1 = rt_tasks Q" "rt_only s ?s1"
    using update_curr_rt_keeps [OF i c] by (auto simp: rt_keeps_def)
  have p1: "rt_task_ok U ?s1 p" using rt_task_ok_only [OF 1(3)] p by simp
  obtain Q2 where 2: "rt_good E U ?s2 Q2" "rt_frame ?s1 ?s2"
    "rt_tasks Q2 = (\<lambda>k. removeAll p (rt_tasks Q1 k))"
    using dequeue_rt_entity_task [OF 1(1) p1] by blast
  have "rt_only s ?s2" by (rule rt_only_trans [OF 1(3) rt_frame_only [OF 2(2)]])
  then have m: "rt_moves E U s (\<lambda>k. removeAll p (rt_tasks Q k)) ?s2"
    unfolding rt_moves_def using 2(1,3) 1(2) by auto
  have eq: "dequeue_task_rt E p flags s = dec_nr_running ?s2"
    by (simp add: dequeue_task_rt_def Let_def)
  have k: "rt_keeps E U ?s2 Q2 (dec_nr_running ?s2)" if "rt_good E U ?s2 Q2" for Q2
    using that by (rule rt_keeps_ext) (simp_all add: dec_nr_running_def rq_core_def)
  show ?thesis unfolding eq by (rule rt_moves_then_same [OF m k])
qed

section \<open>Moving a task behind its equals\<close>

text \<open>One list is permuted.\<close>

lemma rt_permute_list:
  assumes i: "rt_good E U s Q" and e: "e \<in> set (Q (g, j))"
    and l: "on_queues RtRun (\<lambda>(g, i). RtQueue g i) {(g, i). i < 100} (links s') (Q((g, j) := ts))"
    and m: "mset ts = mset (Q (g, j))"
    and t: "tasks s' = tasks s" "rt_rqs s' = rt_rqs s"
  shows "rt_good E U s' (Q((g, j) := ts))"
proof -
  let ?Q = "Q((g, j) := ts)"
  note d = rt_invD [OF i]
  have st: "set ts = set (Q (g, j))" using m by (rule mset_eq_setD)
  have se: "rt_se_prio s' x = rt_se_prio s x" "rt_se_boosted s' x = rt_se_boosted s x"
    "rt_rq_of_se s' x = rt_rq_of_se s x" for x by (rule rt_se_cong; simp add: t)+
  have mem: "x \<in> set (?Q k) \<longleftrightarrow> x \<in> set (Q k)" for x k using st by auto
  have on: "rt_on ?Q x \<longleftrightarrow> rt_on Q x" for x unfolding rt_on_def mem ..
  have "rq_agrees (rt_rqs s' h) (rt_se_boosted s) (rt_array ?Q h)" for h
  proof -
    have len: "length (rt_array ?Q h k) = length (rt_array Q h k)" for k
      using mset_eq_length [OF m] by (simp add: rt_array_def)
    have fil: "length (filter b (rt_array ?Q h k)) = length (filter b (rt_array Q h k))" for b k
      using arg_cong [OF m, of "\<lambda>M. size (filter_mset b M)"] by (simp add: rt_array_def flip: mset_filter)
    have emp: "rt_array ?Q h k = [] \<longleftrightarrow> rt_array Q h k = []" for k
      using len [of k] by (metis length_0_conv)
    show ?thesis
      using d(6) [of h] t unfolding rq_agrees_def arr_size_def arr_count_def arr_top_def
      by (simp add: len fil emp)
  qed
  moreover have "rt_se_boosted s' = rt_se_boosted s" using se(2) by blast
  moreover have "rt_placed U s' ?Q" using d(5) mem unfolding rt_placed_def se by blast
  moreover have "rt_groups_queued {} {} s' ?Q"
    using d(7) t by (simp add: rt_groups_queued_def on rt_active_def rt_rq_throttled_def)
  ultimately show ?thesis using d(1-4) l by (simp add: rt_inv_def rt_links_def)
qed

definition move_to :: "int \<Rightarrow> 'a \<Rightarrow> 'a list \<Rightarrow> 'a list" where
  "move_to head x xs = (if x \<in> set xs then insert_at (head \<noteq> 0) x (removeAll x xs) else xs)"

lemma mset_move_to: "distinct xs \<Longrightarrow> mset (move_to head x xs) = mset xs"
  by (auto simp: move_to_def insert_at_def elim!: split_removeAll)

lemma rt_tasks_move:
  assumes "e \<in> set (Q k)"
  shows "rt_tasks (Q(k := move_to head e (Q k))) =
    (case e of GroupRtSe _ \<Rightarrow> rt_tasks Q
     | TaskRtSe p \<Rightarrow> (rt_tasks Q)(k := move_to head p (rt_tasks Q k)))"
proof -
  have q: "Q(k := move_to head e (Q k)) =
      (Q(k := removeAll e (Q k)))(k := insert_at (head \<noteq> 0) e ((Q(k := removeAll e (Q k))) k))"
    using assms by (simp add: move_to_def)
  show ?thesis
  proof (cases e)
    case (TaskRtSe p)
    then have "p \<in> set (rt_tasks Q k)" using assms by (simp add: rt_tasks_mem)
    then show ?thesis
      unfolding q unfolding TaskRtSe rt_tasks_insert rt_tasks_removeAll_task
      by (simp add: move_to_def)
  next
    case (GroupRtSe g)
    then show ?thesis unfolding q unfolding GroupRtSe rt_tasks_insert rt_tasks_removeAll_group by simp
  qed
qed

text \<open>\<open>T\<close> after \<open>e\<close> has been moved within its list; a group moves no task.\<close>

definition move_task ::
  "'x sys \<Rightarrow> int \<Rightarrow> rt_se_ptr \<Rightarrow> (tg_ptr \<times> nat \<Rightarrow> task_ptr list) \<Rightarrow> tg_ptr \<times> nat \<Rightarrow> task_ptr list" where
  "move_task s head e T = (case e of GroupRtSe _ \<Rightarrow> T
     | TaskRtSe p \<Rightarrow> T(rt_place s p := move_to head p (T (rt_place s p))))"

lemma requeue_rt_entity_moves:
  assumes i: "rt_good E U s Q"
  shows "rt_moves E U s (move_task s head e (rt_tasks Q))
    (requeue_rt_entity E (rt_rq_of_se s e) e head s)"
proof (cases "rt_on Q e")
  case False
  have "p \<notin> set (rt_tasks Q (rt_place s p))" if "e = TaskRtSe p" for p
    using rt_on_task [of Q p] False that by simp
  then have "move_task s head e (rt_tasks Q) = rt_tasks Q"
    by (auto simp: move_task_def move_to_def split: rt_se_ptr.splits)
  then show ?thesis
    using rt_keeps_refl [OF i] False rt_on_iff [OF i]
    by (simp add: requeue_rt_entity_def rt_keeps_moves)
next
  case True
  let ?g = "rt_rq_of_se s e"
  obtain j where j: "e \<in> set (Q (?g, j))" "j < 100" "rt_se_prio s e = int j"
    by (rule rt_on_place [OF i True])
  let ?Q = "Q((?g, j) := move_to head e (Q (?g, j)))"
  let ?s = "requeue_rt_entity E ?g e head s"
  note d = rt_invD [OF i]
  have q: "on_queues RtRun (\<lambda>(g, i). RtQueue g i) {(g, i). i < 100} (links s) Q"
    using d(4) by (simp add: rt_links_def)
  have s: "?s = upd_links (if head \<noteq> 0 then kl_list_move (klist E) (RtRun e) (RtQueue ?g j)
      else kl_list_move_tail (klist E) (RtRun e) (RtQueue ?g j)) s"
    using True rt_on_iff [OF i] j(3) by (simp add: requeue_rt_entity_def)
  have l: "on_queues RtRun (\<lambda>(g, i). RtQueue g i) {(g, i). i < 100} (links ?s) ?Q"
    using on_queues_move [OF d(1) q j(1)] on_queues_move_tail [OF d(1) q j(1)] j(1)
    by (simp add: s move_to_def insert_at_def)
  have good: "rt_good E U ?s ?Q"
    by (rule rt_permute_list [OF i j(1) l])
      (simp_all add: s mset_move_to on_queues_distinct [OF q])
  have "n \<notin> range (\<lambda>(g, i). RtQueue g i) \<union> range RtRun" if "\<not> rt_node n" for n
    using that by (auto simp: rt_node_def)
  then have "rt_only s ?s"
    unfolding rt_only_def s using on_queues_frame(4,5) [OF d(1) q _ j(1)] by simp
  moreover have "rt_tasks ?Q = move_task s head e (rt_tasks Q)"
    using j by (auto simp: rt_tasks_move move_task_def rt_rq_of_se_def rt_se_prio_def
      split: rt_se_ptr.splits)
  ultimately show ?thesis unfolding rt_moves_def using good by auto
qed

lemma requeue_task_rt_moves:
  assumes i: "rt_good E U s Q" and p: "rt_task_ok U s p"
  shows "rt_moves E U s (move_task s head (TaskRtSe p) (rt_tasks Q)) (requeue_task_rt E p head s)"
proof -
  let ?f = "\<lambda>e s. requeue_rt_entity E (rt_rq_of_se s e) e head s"
  have eq: "requeue_task_rt E p head s =
      fold ?f (map GroupRtSe (rt_ups (rt_group s p))) (?f (TaskRtSe p) s)"
    unfolding requeue_task_rt_def rt_chain_task [OF p] by simp
  show ?thesis
    unfolding eq
  proof (rule rt_moves_then_same [OF requeue_rt_entity_moves [OF i]])
    fix Q' assume q: "rt_good E U (?f (TaskRtSe p) s) Q'"
    show "rt_keeps E U (?f (TaskRtSe p) s) Q'
        (fold ?f (map GroupRtSe (rt_ups (rt_group s p))) (?f (TaskRtSe p) s))"
    proof (rule rt_keeps_fold [where P = "\<lambda>_. True", OF _ _ q TrueI])
      fix e t Q2 assume "e \<in> set (map GroupRtSe (rt_ups (rt_group s p)))" and t: "rt_good E U t Q2"
      then have "move_task t head e (rt_tasks Q2) = rt_tasks Q2" by (auto simp: move_task_def)
      then show "rt_keeps E U t Q2 (?f e t)"
        using requeue_rt_entity_moves [OF t, of head e] by (simp add: rt_keeps_moves)
    qed simp
  qed
qed

section \<open>The tick\<close>

lemma watchdog_rt_keeps: "rt_good E U s Q \<Longrightarrow> rt_keeps E U s Q (watchdog_rt E p s)"
proof -
  assume i: "rt_good E U s Q"
  let ?s1 = "upd_task p (t_rt_update (rse_timeout_update (\<lambda>t. t + 1))) s"
  have 1: "rt_keeps E U s Q ?s1" by (rule rt_keeps_upd_task [OF i]) (simp add: task_core_def)
  have 2: "rt_keeps E U s Q (upd_task p (t_sched_exp_update f) ?s1)" for f
    by (rule rt_keeps_trans [OF 1], rule rt_keeps_upd_task) (simp_all add: task_core_def)
  show ?thesis
    using 1 2 rt_keeps_refl [OF i] by (auto simp: watchdog_rt_def Let_def)
qed

lemma set_rt_slice_keeps: "rt_good E U s Q \<Longrightarrow> rt_keeps E U s Q (set_rt_slice p v s)"
  unfolding set_rt_slice_def by (erule rt_keeps_upd_task) (simp add: task_core_def)

lemma task_tick_rt_moves:
  assumes i: "rt_good E U s Q" and p: "rt_task_ok U s p"
    and c: "t_sched_class (tasks s (curr s)) = Rt_class \<Longrightarrow> rt_task_ok U s (curr s)"
  shows "rt_moves E U s (rt_tasks Q) (task_tick_rt E p queued s) \<or>
    rt_moves E U s (move_task s 0 (TaskRtSe p) (rt_tasks Q)) (task_tick_rt E p queued s)"
proof -
  let ?s1 = "update_curr_rt E s"
  let ?s2 = "watchdog_rt E p ?s1"
  let ?s3 = "set_rt_slice p (rse_time_slice (t_rt (tasks ?s2 p)) - 1) ?s2"
  let ?s4 = "set_rt_slice p (RR_TIMESLICE E) ?s3"
  let ?s5 = "requeue_task_rt E p 0 ?s4"
  have 1: "rt_keeps E U s Q ?s1" by (rule update_curr_rt_keeps [OF i c])
  have 2: "rt_keeps E U s Q ?s2" by (rule rt_keeps_trans [OF 1 watchdog_rt_keeps])
  have 3: "rt_keeps E U s Q ?s3" by (rule rt_keeps_trans [OF 2 set_rt_slice_keeps])
  have 4: "rt_keeps E U s Q ?s4" by (rule rt_keeps_trans [OF 3 set_rt_slice_keeps])
  have o: "rt_only s ?s4" using 4 by (simp add: rt_keeps_def)
  have p4: "rt_task_ok U ?s4 p" using rt_task_ok_only [OF o] p by simp
  have mt: "move_task ?s4 0 (TaskRtSe p) T = move_task s 0 (TaskRtSe p) T" for T
    using rt_only_task [OF o] by (simp add: move_task_def)
  have 5: "rt_moves E U s (move_task s 0 (TaskRtSe p) (rt_tasks Q)) ?s5"
    by (rule rt_moves_trans [OF 4 [unfolded rt_keeps_moves]])
      (use requeue_task_rt_moves [OF _ p4, of E _ 0] mt in metis)
  have 6: "rt_moves E U s (move_task s 0 (TaskRtSe p) (rt_tasks Q)) (set_tsk_need_resched p ?s5)"
    by (rule rt_moves_then_same [OF 5]) (use rt_keeps_resched in \<open>auto simp: resched_task_def\<close>)
  show ?thesis
    using 2 3 4 6 by (auto simp: task_tick_rt_def Let_def rt_keeps_moves)
qed

section \<open>Picking and switching\<close>

lemma pick_next_task_rt_keeps:
  assumes i: "rt_good E U s Q" and "pick_next_task_rt E s = Some (s', r)"
  shows "rt_keeps E U s Q s'"
  using pick_next_task_rt_spec [OF i] assms(2) rt_keeps_refl [OF i]
    rt_keeps_upd_task [OF i, of "t_se_update (se_exec_start_update (\<lambda>_. rq_clock_task (the_rq s)))"]
  by (auto simp: task_core_def)

lemma set_curr_task_rt_keeps: "rt_good E U s Q \<Longrightarrow> rt_keeps E U s Q (set_curr_task_rt s)"
  unfolding set_curr_task_rt_def Let_def by (erule rt_keeps_upd_task) (simp add: task_core_def)

lemma rt_notice_keeps:
  assumes "rt_good E U s Q"
  shows "rt_keeps E U s Q (check_preempt_curr_rt p flags s)"
    "rt_keeps E U s Q (switched_to_rt p s)" "rt_keeps E U s Q (prio_changed_rt p oldprio s)"
  using rt_keeps_refl [OF assms] rt_keeps_resched [OF assms]
  by (auto simp: check_preempt_curr_rt_def switched_to_rt_def prio_changed_rt_def)

end
