(* ===== verification/Rt_Spec.thy ===== *)
theory Rt_Spec
  imports Rt_Class Sample
begin

text \<open>
  The properties of the real-time class: what every reachable state satisfies, that queueing
  refines operations on lists of tasks, that the pick is the first task of the best priority,
  and what throttling and the period timer guarantee.
\<close>

section \<open>Steps of the class\<close>

text \<open>
  \<open>rt_other E s s'\<close>: the rest of the kernel runs. It may change anything but the class's queues
  and the priority and group of a task that is queued there.
\<close>

definition rt_other :: "'x env \<Rightarrow> 'x sys \<Rightarrow> 'x sys \<Rightarrow> bool" where
  "rt_other E s s' \<longleftrightarrow> (\<forall>n. rt_node n \<longrightarrow> links s' n = links s n) \<and> rt_rqs s' = rt_rqs s \<and>
     warns s' = warns s \<and>
     (\<forall>p. on_rt_rq E (TaskRtSe p) s \<longrightarrow> t_prio (tasks s' p) = t_prio (tasks s p) \<and>
        t_normal_prio (tasks s' p) = t_normal_prio (tasks s p) \<and>
        rt_group s' p = rt_group s p)"

text \<open>The running task, if it is of the class, belongs to a group that exists.\<close>

definition rt_curr_ok :: "rt_se_ptr set \<Rightarrow> 'x sys \<Rightarrow> bool" where
  "rt_curr_ok U s \<longleftrightarrow> (t_sched_class (tasks s (curr s)) = Rt_class \<longrightarrow> rt_task_ok U s (curr s))"

inductive rt_step :: "'x env \<Rightarrow> rt_se_ptr set \<Rightarrow> 'x sys \<Rightarrow> 'x sys \<Rightarrow> bool"
  for E :: "'x env" and U :: "rt_se_ptr set" where
  enqueue: "rt_step E U s (enqueue_task_rt E p flags s)"
    if "rt_task_ok U s p" "\<not> on_rt_rq E (TaskRtSe p) s" "0 \<le> t_prio (tasks s p)"
      "rt_prio (t_prio (tasks s p))"
| dequeue: "rt_step E U s (dequeue_task_rt E p flags s)" if "rt_task_ok U s p" "rt_curr_ok U s"
| requeue: "rt_step E U s (requeue_task_rt E p head s)" if "rt_task_ok U s p"
| yield: "rt_step E U s (yield_task_rt E s)" if "rt_task_ok U s (curr s)"
| tick: "rt_step E U s (task_tick_rt E p queued s)" if "rt_task_ok U s p" "rt_curr_ok U s"
| pick: "rt_step E U s s'" if "pick_next_task_rt E s = Some (s', r)"
| put_prev: "rt_step E U s (put_prev_task_rt E p s)" if "rt_curr_ok U s"
| set_curr: "rt_step E U s (set_curr_task_rt s)"
| notice_preempt: "rt_step E U s (check_preempt_curr_rt p flags s)"
| notice_switched: "rt_step E U s (switched_to_rt p s)"
| notice_prio: "rt_step E U s (prio_changed_rt p oldprio s)"
| timer: "rt_step E U s (fst (do_sched_rt_period_timer E g overrun s))" if "rt_group_ok U g"
| other: "rt_step E U s s'" if "rt_other E s s'"

inductive_cases rt_step_cases: "rt_step E U s s'"

text \<open>The invariant reads the class's queues and, of a queued task, priority and group.\<close>

lemma rt_good_outside:
  assumes i: "rt_good E U s Q" and l: "\<forall>n. rt_node n \<longrightarrow> links s' n = links s n"
    and r: "rt_rqs s' = rt_rqs s"
    and t: "\<And>p. rt_on Q (TaskRtSe p) \<Longrightarrow> t_prio (tasks s' p) = t_prio (tasks s p) \<and>
        t_normal_prio (tasks s' p) = t_normal_prio (tasks s p) \<and> rt_group s' p = rt_group s p"
  shows "rt_good E U s' Q"
proof -
  note d = rt_invD [OF i]
  have se: "rt_se_prio s' e = rt_se_prio s e \<and> rt_se_boosted s' e = rt_se_boosted s e \<and>
      rt_rq_of_se s' e = rt_rq_of_se s e" if e: "e \<in> set (Q k)" for e k
  proof -
    have "rt_on Q e" using e unfolding rt_on_def by blast
    then show ?thesis
      using r t by (cases e) (simp_all add: rt_se_prio_def rt_se_boosted_def rt_rq_of_se_def)
  qed
  have "rt_links s' Q"
    unfolding rt_links_def
    by (rule on_queues_cong [OF d(4) [unfolded rt_links_def]]) (use l in \<open>auto simp: rt_node_def\<close>)
  moreover have "rq_agrees (rt_rqs s' g) (rt_se_boosted s') (rt_array Q g)" for g
    unfolding r by (rule rq_agrees_cong [OF d(6) [of g]]) (use se in \<open>auto simp: rt_array_def\<close>)
  moreover have "rt_placed U s' Q" using d(5) se by (auto simp: rt_placed_def)
  moreover have "rt_groups_queued {} {} s' Q"
    using d(7) r by (simp add: rt_groups_queued_def rt_active_def rt_rq_throttled_def)
  ultimately show ?thesis using d(1-3) by (simp add: rt_inv_def)
qed

lemma rt_other_inv:
  assumes i: "rt_good E U s Q" and o: "rt_other E s s'"
  shows "rt_good E U s' Q"
  by (rule rt_good_outside [OF i]) (use o rt_on_iff [OF i] in \<open>auto simp: rt_other_def\<close>)

definition rt_safe :: "'x env \<Rightarrow> rt_se_ptr set \<Rightarrow> 'x sys \<Rightarrow> nat \<Rightarrow> bool" where
  "rt_safe E U s n \<longleftrightarrow> (\<exists>Q. rt_good E U s Q) \<and> warns s = n"

lemma rt_keeps_safe: "rt_keeps E U s Q s' \<Longrightarrow> rt_safe E U s' (warns s)"
  by (auto simp: rt_keeps_def rt_safe_def rt_only_def)

lemma rt_moves_safe: "rt_moves E U s T s' \<Longrightarrow> rt_safe E U s' (warns s)"
  by (auto simp: rt_moves_def rt_safe_def rt_only_def)

lemma rt_step_safe:
  assumes "rt_step E U s s'" and i: "rt_good E U s Q"
  shows "rt_safe E U s' (warns s)"
  using assms(1)
proof cases
  case (enqueue p flags)
  then have "\<not> rt_on Q (TaskRtSe p)" using rt_on_iff [OF i] by simp
  with enqueue show ?thesis
    using enqueue_task_rt_moves [OF i, of p flags] rt_moves_safe
    by (auto simp: rt_prio_def MAX_RT_PRIO_def split: if_splits)
next
  case (dequeue p flags)
  then show ?thesis
    using dequeue_task_rt_moves [OF i, of p flags] rt_moves_safe by (auto simp: rt_curr_ok_def)
next
  case (requeue p head)
  then show ?thesis using requeue_task_rt_moves [OF i, of p head] rt_moves_safe by auto
next
  case yield
  then show ?thesis
    using requeue_task_rt_moves [OF i, of "curr s" 0] rt_moves_safe by (auto simp: yield_task_rt_def)
next
  case (tick p queued)
  then show ?thesis
    using task_tick_rt_moves [OF i, of p queued] rt_moves_safe by (auto simp: rt_curr_ok_def)
next
  case (pick r)
  then show ?thesis using pick_next_task_rt_keeps [OF i] rt_keeps_safe by auto
next
  case (put_prev p)
  then show ?thesis
    using update_curr_rt_keeps [OF i] rt_keeps_safe by (auto simp: put_prev_task_rt_def rt_curr_ok_def)
next
  case set_curr
  then show ?thesis using set_curr_task_rt_keeps [OF i] rt_keeps_safe by auto
next
  case (notice_preempt p flags)
  then show ?thesis by (simp add: rt_keeps_safe [OF rt_notice_keeps(1) [OF i]])
next
  case (notice_switched p)
  then show ?thesis by (simp add: rt_keeps_safe [OF rt_notice_keeps(2) [OF i]])
next
  case (notice_prio p oldprio)
  then show ?thesis by (simp add: rt_keeps_safe [OF rt_notice_keeps(3) [OF i]])
next
  case (timer g overrun)
  then show ?thesis using do_sched_rt_period_timer_keeps [OF i, of g overrun] rt_keeps_safe by auto
next
  case other
  then show ?thesis using rt_other_inv [OF i, of s'] by (auto simp: rt_safe_def rt_other_def)
qed

lemma rt_steps_safe:
  "(rt_step E U)\<^sup>*\<^sup>* s s' \<Longrightarrow> rt_good E U s Q \<Longrightarrow> rt_safe E U s' (warns s)"
proof (induction rule: rtranclp_induct)
  case base
  then show ?case by (auto simp: rt_safe_def)
next
  case (step t u)
  from step.IH [OF step.prems] obtain Q' where q: "rt_good E U t Q'" "warns t = warns s"
    by (auto simp: rt_safe_def)
  show ?case using rt_step_safe [OF step.hyps(2) q(1)] q(2) by simp
qed

section \<open>A sample hierarchy\<close>

text \<open>Tasks 5 and 8 are real-time tasks of the root group, task 6 of the group \<open>[7]\<close>.\<close>

definition rt_sample_tasks :: "task_ptr \<Rightarrow> task_struct" where
  "rt_sample_tasks = (\<lambda>_. sample_task\<lparr>t_policy := SCHED_RR, t_sched_class := Rt_class,
       t_prio := 50, t_normal_prio := 50, t_rt_priority := 49\<rparr>)
     (0 := sample_task\<lparr>t_sched_class := Idle_class, t_policy := SCHED_IDLE\<rparr>,
      6 := sample_task\<lparr>t_policy := SCHED_FIFO, t_sched_class := Rt_class,
        t_prio := 40, t_normal_prio := 40, t_rt_priority := 59,
        t_rt := \<lparr>rse_timeout = 0, rse_time_slice = 10, rse_back = None,
          rse_parent = Some [7], rse_rt_rq = [7]\<rparr>\<rparr>)"

definition rt_sample :: "sample_ext sys" where
  "rt_sample = sample_sys\<lparr>tasks := rt_sample_tasks\<rparr>"

definition rt_sample_universe :: "rt_se_ptr set" where
  "rt_sample_universe = {TaskRtSe 5, TaskRtSe 6, TaskRtSe 8, GroupRtSe [7]}"

lemma sample_ffb_ok: "ffb_ok sample_env"
proof -
  have "(case find b [0..<101] of None \<Rightarrow> 101 | Some i \<Rightarrow> i) = (LEAST i. b i)" if "b 100"
    for b :: "nat \<Rightarrow> bool"
  proof (cases "find b [0..<101]")
    case None
    then have "\<not> b 100" by (simp add: find_None_iff)
    with that show ?thesis by simp
  next
    case (Some i)
    then obtain k where k: "k < 101" "b i" "i = k" "\<forall>j<k. \<not> b j"
      by (auto simp: find_Some_iff)
    then have "(LEAST i. b i) = i" by (intro Least_equality) (auto simp: not_less [symmetric])
    then show ?thesis using Some by simp
  qed
  then show ?thesis by (simp add: ffb_ok_def sample_env_def)
qed

lemma rt_sample_empty:
  assumes "rt_universe U"
  shows "rt_good sample_env U (rt_sample\<lparr>sysctl_rt_runtime := r\<rparr>) (\<lambda>_. [])"
proof -
  have q: "on_queues RtRun (\<lambda>(g, i). RtQueue g i) {(g, i). i < 100} (links rt_sample) (\<lambda>_. [])"
    by (auto simp: on_queues_def rt_sample_def sample_sys_def is_list_Nil inj_on_def)
  have a: "rq_agrees (rt_rqs rt_sample g) b (rt_array (\<lambda>_. []) g)" for g and b :: "rt_se_ptr \<Rightarrow> bool"
  proof -
    have "arr_top (rt_array (\<lambda>_. []) g) = 100" by (rule arr_top_eqI) (auto simp: rt_array_def)
    then show ?thesis
      by (simp add: rq_agrees_def rt_sample_def sample_sys_def sample_rt_rq_def arr_size_def
        arr_count_def rt_array_def)
  qed
  show ?thesis
    using assms sample_ffb_ok q a
    by (auto simp: rt_inv_def rt_links_def rt_placed_def rt_groups_queued_def rt_on_def rt_active_def)
      (auto simp: rt_sample_def sample_sys_def sample_rt_rq_def)
qed

lemma rt_sample_good: "rt_good sample_env rt_sample_universe rt_sample (\<lambda>_. [])"
proof -
  have "rt_sample\<lparr>sysctl_rt_runtime := sysctl_rt_runtime rt_sample\<rparr> = rt_sample"
    by (rule sys.equality) simp_all
  then show ?thesis
    using rt_sample_empty [of rt_sample_universe "sysctl_rt_runtime rt_sample"]
    by (simp add: rt_universe_def rt_sample_universe_def)
qed

lemma rt_sample_tasks_ok:
  "rt_task_ok rt_sample_universe rt_sample 5" "rt_task_ok rt_sample_universe rt_sample 6"
  "rt_task_ok rt_sample_universe rt_sample 8" "rt_curr_ok rt_sample_universe rt_sample"
  by (simp_all add: rt_task_ok_def rt_sample_universe_def rt_sample_def rt_sample_tasks_def
    sample_task_def rt_curr_ok_def sample_sys_def sample_rq_def)

section \<open>Properties\<close>

text \<open>
  C8: In every state that the class's operations, the bandwidth timer and the rest of the kernel
  reach from a well-formed one, every list of every group's priority array is a well-formed
  list of distinct entities, each in the list of its group and priority; the bitmaps, counters
  and best priorities agree with the lists, a group is queued in its parent exactly when it has
  something to run and is not throttled; no WARN_ON has fired; and picking the next task ends,
  with NULL exactly when no task can run.
\<close>

theorem rt_reachable_safe:
  assumes "rt_good E U s0 Q0" and "(rt_step E U)\<^sup>*\<^sup>* s0 s"
  shows "\<exists>Q. rt_good E U s Q \<and> warns s = warns s0 \<and>
    (\<exists>s' r. pick_next_task_rt E s = Some (s', r) \<and> (r = None \<longleftrightarrow> rt_runnable s Q = {}))"
proof -
  from rt_steps_safe [OF assms(2,1)] obtain Q where q: "rt_good E U s Q" "warns s = warns s0"
    by (auto simp: rt_safe_def)
  show ?thesis
    using pick_next_task_rt_spec [OF q(1)] q by (intro exI [of _ Q]) auto
qed

text \<open>
  \<open>rt_view E U s T\<close>: the state \<open>s\<close> is well formed and \<open>T\<close> gives the tasks of each list. The
  three operations below are the specification over \<open>T\<close>.
\<close>

definition rt_view :: "'x env \<Rightarrow> rt_se_ptr set \<Rightarrow> 'x sys \<Rightarrow> (tg_ptr \<times> nat \<Rightarrow> task_ptr list) \<Rightarrow> bool" where
  "rt_view E U s T \<longleftrightarrow> (\<exists>Q. rt_good E U s Q \<and> rt_tasks Q = T)"

definition spec_enqueue where
  "spec_enqueue k head p T = (if \<exists>k. p \<in> set (T k) then T else T(k := insert_at head p (T k)))"

definition spec_dequeue where
  "spec_dequeue p T = (\<lambda>k. removeAll p (T k))"

definition spec_requeue where
  "spec_requeue k head p T = T(k := move_to head p (T k))"

lemma rt_tasks_on: "(\<exists>k. p \<in> set (rt_tasks Q k)) \<longleftrightarrow> rt_on Q (TaskRtSe p)"
  unfolding rt_on_def rt_tasks_mem ..

lemma rt_moves_view: "rt_moves E U s T s' \<Longrightarrow> rt_view E U s' T"
  by (auto simp: rt_moves_def rt_view_def)

text \<open>
  C7: Refinement. Whatever the nesting of the groups, and whether or not some are throttled,
  enqueueing a task that is not queued, dequeueing a task and requeueing it have, on the tasks of
  all lists, the effect of one list operation on the list of the task's group and priority: the
  walks over the hierarchy, which take all the groups above the task off their queues and put
  them back, cancel out.
\<close>

theorem rt_queue_refinement:
  assumes "rt_view E U s T" and p: "rt_task_ok U s p" and c: "rt_curr_ok U s"
    and prio: "0 \<le> t_prio (tasks s p)" "rt_prio (t_prio (tasks s p))"
  shows "(\<not> on_rt_rq E (TaskRtSe p) s \<longrightarrow> rt_view E U (enqueue_task_rt E p flags s)
       (spec_enqueue (rt_place s p) (and flags ENQUEUE_HEAD \<noteq> 0) p T)) \<and>
    rt_view E U (dequeue_task_rt E p flags s) (spec_dequeue p T) \<and>
    rt_view E U (requeue_task_rt E p head s) (spec_requeue (rt_place s p) head p T)"
proof -
  obtain Q where q: "rt_good E U s Q" "rt_tasks Q = T" using assms(1) by (auto simp: rt_view_def)
  have lt: "t_prio (tasks s p) < 100" using prio by (simp add: rt_prio_def MAX_RT_PRIO_def split: if_splits)
  have 1: "rt_view E U (enqueue_task_rt E p flags s)
       (spec_enqueue (rt_place s p) (and flags ENQUEUE_HEAD \<noteq> 0) p T)"
    if "\<not> on_rt_rq E (TaskRtSe p) s"
  proof -
    have off: "\<not> rt_on Q (TaskRtSe p)" using that rt_on_iff [OF q(1)] by simp
    then have "\<not> (\<exists>k. p \<in> set (T k))" using rt_tasks_on [of p Q] q(2) by simp
    then show ?thesis
      using rt_moves_view [OF enqueue_task_rt_moves [OF q(1) p off prio(1) lt, of flags]] q(2)
      by (simp add: spec_enqueue_def)
  qed
  have 2: "rt_view E U (dequeue_task_rt E p flags s) (spec_dequeue p T)"
    using rt_moves_view [OF dequeue_task_rt_moves [OF q(1) p]] c q(2)
    by (simp add: spec_dequeue_def rt_curr_ok_def)
  have 3: "rt_view E U (requeue_task_rt E p head s) (spec_requeue (rt_place s p) head p T)"
    using rt_moves_view [OF requeue_task_rt_moves [OF q(1) p]] q(2)
    by (simp add: spec_requeue_def move_task_def)
  show ?thesis using 1 2 3 by blast
qed

text \<open>
  C22: The pick is a task that can run and has the best priority of all that can; it is the first
  of its list, its start time is stamped, and nothing else changes.
\<close>

theorem rt_pick_highest:
  assumes i: "rt_good E U s Q" and some: "rt_runnable s Q \<noteq> {}"
  shows "\<exists>p. p \<in> rt_runnable s Q \<and> (\<forall>q\<in>rt_runnable s Q. t_prio (tasks s p) \<le> t_prio (tasks s q)) \<and>
    (\<exists>ps. rt_tasks Q (rt_place s p) = p # ps) \<and>
    pick_next_task_rt E s = Some (upd_task p (t_se_update (se_exec_start_update
      (\<lambda>_. rq_clock_task (the_rq s)))) s, Some p)"
proof -
  from pick_next_task_rt_spec [OF i] some obtain p h ps where p: "p \<in> rt_runnable s Q"
    "\<forall>q\<in>rt_runnable s Q. t_prio (tasks s p) \<le> t_prio (tasks s q)"
    "rt_tasks Q (h, nat (t_prio (tasks s p))) = p # ps"
    "pick_next_task_rt E s = Some (upd_task p (t_se_update (se_exec_start_update
         (\<lambda>_. rq_clock_task (the_rq s)))) s, Some p)" by blast
  have "TaskRtSe p \<in> set (Q (h, nat (t_prio (tasks s p))))"
    using p(3) rt_tasks_mem [of p Q "(h, nat (t_prio (tasks s p)))"] by simp
  then have "rt_group s p = h"
    using rt_placedD(2) [OF rt_invD(5) [OF i]] by (fastforce simp: rt_rq_of_se_def)
  then show ?thesis using p by blast
qed

section \<open>The properties on the sample\<close>

lemma rt_sample_prio:
  "t_prio (tasks rt_sample 5) = 50" "t_prio (tasks rt_sample 6) = 40" "t_prio (tasks rt_sample 8) = 50"
  "rt_group rt_sample 5 = []" "rt_group rt_sample 6 = [7]" "rt_group rt_sample 8 = []"
  "rt_prio 50" "rt_prio 40"
  by (simp_all add: rt_sample_def rt_sample_tasks_def sample_task_def rt_prio_def MAX_RT_PRIO_def)

lemma rt_sample_off: "\<not> on_rt_rq sample_env e rt_sample"
  using rt_on_iff [OF rt_sample_good, of e] by (simp add: rt_on_def)

lemma rt_sample_view: "rt_view sample_env rt_sample_universe rt_sample (\<lambda>_. [])"
  using rt_sample_good by (force simp: rt_view_def rt_tasks_def)

theorem rt_queue_refinement_witness:
  "rt_view sample_env rt_sample_universe (enqueue_task_rt sample_env 6 0 rt_sample)
     ((\<lambda>_. [])(([7], 40) := [6]))"
  using rt_queue_refinement [OF rt_sample_view rt_sample_tasks_ok(2,4), of 0 0] rt_sample_off
  by (simp add: rt_sample_prio spec_enqueue_def insert_at_def)

theorem rt_reachable_safe_witness:
  "\<exists>Q. rt_good sample_env rt_sample_universe (enqueue_task_rt sample_env 6 0 rt_sample) Q \<and>
     warns (enqueue_task_rt sample_env 6 0 rt_sample) = 0 \<and>
     (\<exists>s' r. pick_next_task_rt sample_env (enqueue_task_rt sample_env 6 0 rt_sample) = Some (s', r) \<and>
       (r = None \<longleftrightarrow> rt_runnable (enqueue_task_rt sample_env 6 0 rt_sample) Q = {}))"
proof -
  have "rt_step sample_env rt_sample_universe rt_sample (enqueue_task_rt sample_env 6 0 rt_sample)"
    by (rule rt_step.enqueue) (simp_all add: rt_sample_tasks_ok rt_sample_off rt_sample_prio)
  from rt_reachable_safe [OF rt_sample_good r_into_rtranclp [of "rt_step _ _", OF this]]
  show ?thesis by (simp add: rt_sample_def sample_sys_def)
qed

text \<open>A state in which task 6, two levels down, can run.\<close>

lemma enqueue_task_rt_frame:
  assumes "rt_good E U s Q" and "rt_task_ok U s p"
    and "0 \<le> t_prio (tasks s p)" "t_prio (tasks s p) < 100"
  obtains t where "rt_frame s t" "enqueue_task_rt E p 0 s = inc_nr_running t"
proof -
  have "rt_frame s (enqueue_rt_entity E (TaskRtSe p) False s)"
    using enqueue_rt_entity_task [OF assms, of False] by blast
  then show thesis using that by (simp add: enqueue_task_rt_def)
qed

lemma enqueue_task_rt_times:
  assumes "rt_good E U s Q" and "rt_task_ok U s p"
    and "0 \<le> t_prio (tasks s p)" "t_prio (tasks s p) < 100"
  shows "rt_times_same s (enqueue_task_rt E p 0 s)"
  by (rule enqueue_task_rt_frame [OF assms])
    (use rt_frame_times in \<open>auto simp: inc_nr_running_def rt_times_same_def\<close>)

abbreviation rt_sample1 :: "sample_ext sys" where
  "rt_sample1 \<equiv> enqueue_task_rt sample_env 6 0 rt_sample"

lemma rt_sample_queued:
  obtains Q where "rt_good sample_env rt_sample_universe rt_sample1 Q"
    "rt_tasks Q = (\<lambda>_. [])(([7], 40) := [6])" "rt_only rt_sample rt_sample1"
    "rt_times_same rt_sample rt_sample1"
proof -
  have off: "\<not> rt_on (\<lambda>_. []) (TaskRtSe 6)" by (simp add: rt_on_def)
  have nil: "rt_tasks (\<lambda>_. []) = (\<lambda>_. [])" by (rule ext) (simp add: rt_tasks_def)
  have "rt_moves sample_env rt_sample_universe rt_sample ((\<lambda>_. [])(([7], 40) := [6])) rt_sample1"
    using enqueue_task_rt_moves [OF rt_sample_good rt_sample_tasks_ok(2) off, of 0]
    by (simp add: rt_sample_prio nil insert_at_def)
  then obtain Q where "rt_good sample_env rt_sample_universe rt_sample1 Q"
    "rt_tasks Q = (\<lambda>_. [])(([7], 40) := [6])" "rt_only rt_sample rt_sample1"
    by (auto simp: rt_moves_def)
  then show thesis
    using that enqueue_task_rt_times [OF rt_sample_good rt_sample_tasks_ok(2)]
    by (simp add: rt_sample_prio)
qed

lemma rt_sample_not_throttled: "rt_times_same rt_sample s \<Longrightarrow> \<not> rt_rq_throttled s g"
  by (simp add: rt_times_same_def rt_rq_throttled_def rt_sample_def sample_sys_def sample_rt_rq_def)

theorem rt_pick_highest_witness:
  "pick_next_task_rt sample_env rt_sample1 = Some (upd_task 6 (t_se_update (se_exec_start_update
     (\<lambda>_. rq_clock_task (the_rq rt_sample1)))) rt_sample1, Some 6)"
proof -
  obtain Q where q: "rt_good sample_env rt_sample_universe rt_sample1 Q"
    "rt_tasks Q = (\<lambda>_. [])(([7], 40) := [6])" "rt_times_same rt_sample rt_sample1"
    by (rule rt_sample_queued)
  have "rt_runnable rt_sample1 Q = {6}"
    using rt_sample_not_throttled [OF q(3)] by (auto simp: rt_runnable_def q(2) rt_open_def)
  then show ?thesis using rt_pick_highest [OF q(1)] by auto
qed

end
