(* ===== verification/Core.thy ===== *)
theory Core
  imports Rt Load_Avg
begin

text \<open>
  The core of the scheduler, \<open>Prj2/kernel/sched/core.c\<close>: the dispatch over the scheduling
  classes, priorities and load weights, wakeup and fork, the context switch and \<open>__schedule\<close>,
  the timer tick, and changes of nice value, priority and policy. The run queue lock is held
  throughout a definition; trace points, statistics, lock debugging and high-resolution
  preemption ticks are left out. A primed name is the source function with leading underscores.
\<close>

section \<open>Task states, flags and errors\<close>

definition TASK_RUNNING :: ulong where "TASK_RUNNING = 0"
definition TASK_INTERRUPTIBLE :: ulong where "TASK_INTERRUPTIBLE = 1"
definition TASK_UNINTERRUPTIBLE :: ulong where "TASK_UNINTERRUPTIBLE = 2"
definition TASK_STOPPED' :: ulong where "TASK_STOPPED' = 4"
definition TASK_TRACED' :: ulong where "TASK_TRACED' = 8"
definition TASK_DEAD :: ulong where "TASK_DEAD = 64"
definition TASK_WAKEKILL :: ulong where "TASK_WAKEKILL = 128"
definition TASK_NORMAL :: ulong where "TASK_NORMAL = or TASK_INTERRUPTIBLE TASK_UNINTERRUPTIBLE"
definition PF_WQ_WORKER :: u32 where "PF_WQ_WORKER = 0x20"
definition PF_FROZEN :: u32 where "PF_FROZEN = 0x10000"
definition WF_FORK :: u32 where "WF_FORK = 2"
definition EPERM :: int where "EPERM = 1"
definition ESRCH :: int where "ESRCH = 3"
definition EFAULT :: int where "EFAULT = 14"
definition EINVAL :: int where "EINVAL = 22"
definition RLIMIT_NICE :: nat where "RLIMIT_NICE = 13"
definition RLIMIT_RTPRIO :: nat where "RLIMIT_RTPRIO = 14"
definition MAX_USER_RT_PRIO :: int where "MAX_USER_RT_PRIO = 100"

section \<open>The scheduling classes\<close>

definition class_of :: "'x env \<Rightarrow> sched_class \<Rightarrow> 'x class_ops" where
  "class_of E c = (case c of
      Rt_class \<Rightarrow> rt_sched_class E
    | Wrr_class \<Rightarrow> wrr_sched_class E
    | _ \<Rightarrow> x_class E c)"

definition task_class :: "'x env \<Rightarrow> 'x sys \<Rightarrow> task_ptr \<Rightarrow> 'x class_ops" where
  "task_class E s p = class_of E (t_sched_class (tasks s p))"

text \<open>
  The classes \<open>for_each_class\<close> visits from a given one. The bound of 5 is the number of classes;
  a chain without repetition is not longer.
\<close>

primrec class_chain :: "'x env \<Rightarrow> nat \<Rightarrow> sched_class option \<Rightarrow> sched_class list" where
  "class_chain E 0 c = []"
| "class_chain E (Suc n) c =
     (case c of None \<Rightarrow> [] | Some c \<Rightarrow> c # class_chain E n (co_next (class_of E c)))"

definition all_classes :: "'x env \<Rightarrow> sched_class list" where
  "all_classes E = class_chain E 5 (Some Stop_class)"

section \<open>The clock\<close>

definition update_rq_clock_task :: "u64 \<Rightarrow> 'x sys \<Rightarrow> 'x sys" where
  "update_rq_clock_task delta = upd_rq (rq_clock_task_update (\<lambda>c. c + delta))"

definition update_rq_clock :: "'x env \<Rightarrow> 'x sys \<Rightarrow> 'x sys" where
  "update_rq_clock E s =
     (if 0 < rq_skip_clock_update (the_rq s) then s
      else
        let (now, x) = x_sched_clock E (ext s);
            s = s\<lparr>ext := x\<rparr>;
            delta = now - rq_clock (the_rq s);
            s = upd_rq (rq_clock_update (\<lambda>c. c + delta)) s
        in update_rq_clock_task delta s)"

section \<open>Priorities and load weights\<close>

definition NICE_TO_PRIO :: "int \<Rightarrow> int" where "NICE_TO_PRIO nice = MAX_RT_PRIO + nice + 20"
definition PRIO_TO_NICE :: "int \<Rightarrow> int" where "PRIO_TO_NICE prio = prio - MAX_RT_PRIO - 20"

definition task_nice :: "task_struct \<Rightarrow> int" where
  "task_nice p = PRIO_TO_NICE (t_static_prio p)"

definition task_prio :: "task_struct \<Rightarrow> int" where
  "task_prio p = t_prio p - MAX_RT_PRIO"

definition WEIGHT_IDLEPRIO :: ulong where "WEIGHT_IDLEPRIO = 3"
definition WMULT_IDLEPRIO :: ulong where "WMULT_IDLEPRIO = 1431655765"

definition prio_to_weight :: "ulong list" where
  "prio_to_weight =
     [88761, 71755, 56483, 46273, 36291,
      29154, 23254, 18705, 14949, 11916,
      9548, 7620, 6100, 4904, 3906,
      3121, 2501, 1991, 1586, 1277,
      1024, 820, 655, 526, 423,
      335, 272, 215, 172, 137,
      110, 87, 70, 56, 45,
      36, 29, 23, 18, 15]"

definition prio_to_wmult :: "ulong list" where
  "prio_to_wmult =
     [48388, 59856, 76040, 92818, 118348,
      147320, 184698, 229616, 287308, 360437,
      449829, 563644, 704093, 875809, 1099582,
      1376151, 1717300, 2157191, 2708050, 3363326,
      4194304, 5237765, 6557202, 8165337, 10153587,
      12820798, 15790321, 19976592, 24970740, 31350126,
      39045157, 49367440, 61356676, 76695844, 95443717,
      119304647, 148102320, 186737708, 238609294, 286331153]"

text \<open>The index is in range for the static priorities 100 to 139 a task can have.\<close>

definition set_load_weight :: "task_ptr \<Rightarrow> 'x sys \<Rightarrow> 'x sys" where
  "set_load_weight p s =
     (let prio = t_static_prio (tasks s p) - MAX_RT_PRIO
      in if t_policy (tasks s p) = SCHED_IDLE
         then upd_task p (t_se_update (se_load_update
                (\<lambda>_. \<lparr>lw_weight = WEIGHT_IDLEPRIO, lw_inv_weight = WMULT_IDLEPRIO\<rparr>))) s
         else upd_task p (t_se_update (se_load_update
                (\<lambda>_. \<lparr>lw_weight = prio_to_weight ! nat prio,
                      lw_inv_weight = prio_to_wmult ! nat prio\<rparr>))) s)"

definition update_load_add :: "ulong \<Rightarrow> load_weight \<Rightarrow> load_weight" where
  "update_load_add inc lw = \<lparr>lw_weight = lw_weight lw + inc, lw_inv_weight = 0\<rparr>"

definition update_load_sub :: "ulong \<Rightarrow> load_weight \<Rightarrow> load_weight" where
  "update_load_sub dec lw = \<lparr>lw_weight = lw_weight lw - dec, lw_inv_weight = 0\<rparr>"

definition update_load_set :: "ulong \<Rightarrow> load_weight \<Rightarrow> load_weight" where
  "update_load_set w lw = \<lparr>lw_weight = w, lw_inv_weight = 0\<rparr>"

definition normal_prio' :: "task_struct \<Rightarrow> int" where
  "normal_prio' p = t_static_prio p"

text \<open>\<open>normal_prio\<close>; the subtraction of the unsigned \<open>rt_priority\<close> is read back as an int.\<close>

definition normal_prio :: "task_struct \<Rightarrow> int" where
  "normal_prio p =
     (if task_has_rt_policy p then sint (of_int (MAX_RT_PRIO - 1) - t_rt_priority p)
      else normal_prio' p)"

definition effective_prio :: "task_ptr \<Rightarrow> 'x sys \<Rightarrow> 'x sys \<times> int" where
  "effective_prio p s =
     (let s = upd_task p (\<lambda>t. t\<lparr>t_normal_prio := normal_prio t\<rparr>) s
      in if \<not> rt_prio (t_prio (tasks s p)) then (s, t_normal_prio (tasks s p))
         else (s, t_prio (tasks s p)))"

definition rt_task :: "task_struct \<Rightarrow> bool" where
  "rt_task p = rt_prio (t_prio p)"

section \<open>Queueing a task\<close>

definition enqueue_task :: "'x env \<Rightarrow> task_ptr \<Rightarrow> u32 \<Rightarrow> 'x sys \<Rightarrow> 'x sys" where
  "enqueue_task E p flags s =
     (let s = update_rq_clock E s in co_enqueue_task (task_class E s p) p flags s)"

definition dequeue_task :: "'x env \<Rightarrow> task_ptr \<Rightarrow> u32 \<Rightarrow> 'x sys \<Rightarrow> 'x sys" where
  "dequeue_task E p flags s =
     (let s = update_rq_clock E s in co_dequeue_task (task_class E s p) p flags s)"

definition task_contributes_to_load :: "task_struct \<Rightarrow> bool" where
  "task_contributes_to_load t =
     (and (t_state t) TASK_UNINTERRUPTIBLE \<noteq> 0 \<and> and (t_flags t) PF_FROZEN = 0)"

definition activate_task :: "'x env \<Rightarrow> task_ptr \<Rightarrow> u32 \<Rightarrow> 'x sys \<Rightarrow> 'x sys" where
  "activate_task E p flags s =
     (let s = (if task_contributes_to_load (tasks s p)
               then upd_rq (rq_nr_uninterruptible_update (\<lambda>n. n - 1)) s else s)
      in enqueue_task E p flags s)"

definition deactivate_task :: "'x env \<Rightarrow> task_ptr \<Rightarrow> u32 \<Rightarrow> 'x sys \<Rightarrow> 'x sys" where
  "deactivate_task E p flags s =
     (let s = (if task_contributes_to_load (tasks s p)
               then upd_rq (rq_nr_uninterruptible_update (\<lambda>n. n + 1)) s else s)
      in dequeue_task E p flags s)"

definition check_class_changed :: "'x env \<Rightarrow> task_ptr \<Rightarrow> sched_class \<Rightarrow> int \<Rightarrow> 'x sys \<Rightarrow> 'x sys" where
  "check_class_changed E p prev_class oldprio s =
     (if prev_class \<noteq> t_sched_class (tasks s p) then
        let s = (case co_switched_from (class_of E prev_class) of Some f \<Rightarrow> f p s | None \<Rightarrow> s)
        in co_switched_to (task_class E s p) p s
      else if oldprio \<noteq> t_prio (tasks s p) then
        co_prio_changed (task_class E s p) p oldprio s
      else s)"

text \<open>The search over the classes for the one of the running task or of \<open>p\<close>.\<close>

fun preempt_search :: "sched_class \<Rightarrow> sched_class \<Rightarrow> sched_class list \<Rightarrow> bool" where
  "preempt_search curr_class p_class [] = False"
| "preempt_search curr_class p_class (c # cs) =
     (if c = curr_class then False
      else if c = p_class then True
      else preempt_search curr_class p_class cs)"

definition check_preempt_curr :: "'x env \<Rightarrow> task_ptr \<Rightarrow> u32 \<Rightarrow> 'x sys \<Rightarrow> 'x sys" where
  "check_preempt_curr E p flags s =
     (let c = rq_curr (the_rq s);
          s = (if t_sched_class (tasks s p) = t_sched_class (tasks s c)
               then co_check_preempt_curr (task_class E s c) p flags s
               else if preempt_search (t_sched_class (tasks s c)) (t_sched_class (tasks s p))
                         (all_classes E)
               then resched_task c s else s)
      in if t_on_rq (tasks s (rq_curr (the_rq s))) \<noteq> 0 \<and>
            test_tsk_need_resched (rq_curr (the_rq s)) s
         then upd_rq (rq_skip_clock_update_update (\<lambda>_. 1)) s else s)"

section \<open>Wakeup\<close>

definition ttwu_activate :: "'x env \<Rightarrow> task_ptr \<Rightarrow> u32 \<Rightarrow> 'x sys \<Rightarrow> 'x sys" where
  "ttwu_activate E p en_flags s =
     (let s = activate_task E p en_flags s;
          s = upd_task p (t_on_rq_update (\<lambda>_. 1)) s
      in if and (t_flags (tasks s p)) PF_WQ_WORKER \<noteq> 0
         then s\<lparr>ext := x_wq_worker_waking_up E p (ext s)\<rparr> else s)"

definition ttwu_do_wakeup :: "'x env \<Rightarrow> task_ptr \<Rightarrow> u32 \<Rightarrow> 'x sys \<Rightarrow> 'x sys" where
  "ttwu_do_wakeup E p wake_flags s =
     (let s = check_preempt_curr E p wake_flags s
      in upd_task p (t_state_update (\<lambda>_. TASK_RUNNING)) s)"

definition ttwu_do_activate :: "'x env \<Rightarrow> task_ptr \<Rightarrow> u32 \<Rightarrow> 'x sys \<Rightarrow> 'x sys" where
  "ttwu_do_activate E p wake_flags s =
     (let s = ttwu_activate E p ENQUEUE_WAKEUP s in ttwu_do_wakeup E p wake_flags s)"

definition ttwu_remote :: "'x env \<Rightarrow> task_ptr \<Rightarrow> u32 \<Rightarrow> 'x sys \<Rightarrow> 'x sys \<times> bool" where
  "ttwu_remote E p wake_flags s =
     (if t_on_rq (tasks s p) \<noteq> 0 then (ttwu_do_wakeup E p wake_flags s, True) else (s, False))"

definition ttwu_queue :: "'x env \<Rightarrow> task_ptr \<Rightarrow> 'x sys \<Rightarrow> 'x sys" where
  "ttwu_queue E p s = ttwu_do_activate E p 0 s"

definition try_to_wake_up :: "'x env \<Rightarrow> task_ptr \<Rightarrow> ulong \<Rightarrow> u32 \<Rightarrow> 'x sys \<Rightarrow> 'x sys \<times> bool" where
  "try_to_wake_up E p state wake_flags s =
     (if and (t_state (tasks s p)) state = 0 then (s, False)
      else if t_on_rq (tasks s p) \<noteq> 0 \<and> snd (ttwu_remote E p wake_flags s)
      then (fst (ttwu_remote E p wake_flags s), True)
      else (ttwu_queue E p s, True))"

definition try_to_wake_up_local :: "'x env \<Rightarrow> task_ptr \<Rightarrow> 'x sys \<Rightarrow> 'x sys" where
  "try_to_wake_up_local E p s =
     (if p = rq_curr (the_rq s) then WARN_ON True s
      else if and (t_state (tasks s p)) TASK_NORMAL = 0 then s
      else
        let s = (if t_on_rq (tasks s p) = 0 then ttwu_activate E p ENQUEUE_WAKEUP s else s)
        in ttwu_do_wakeup E p 0 s)"

definition wake_up_process :: "'x env \<Rightarrow> task_ptr \<Rightarrow> 'x sys \<Rightarrow> 'x sys \<times> bool" where
  "wake_up_process E p s =
     (let s = WARN_ON (and (t_state (tasks s p)) (or TASK_STOPPED' TASK_TRACED') \<noteq> 0) s
      in try_to_wake_up E p TASK_NORMAL 0 s)"

definition wake_up_state :: "'x env \<Rightarrow> task_ptr \<Rightarrow> ulong \<Rightarrow> 'x sys \<Rightarrow> 'x sys \<times> bool" where
  "wake_up_state E p state s = try_to_wake_up E p state 0 s"

end
