(* ===== verification/Switch.thy ===== *)
theory Switch
  imports Core
begin

text \<open>
  Fork, the context switch, \<open>__schedule\<close> and the timer tick of \<open>Prj2/kernel/sched/core.c\<close>.
  The thread that executes is \<open>rq->curr\<close>; after the switch a function continues as the next
  task, whose frame is at the same place. Of the preemption count only the PREEMPT_ACTIVE part
  matters to the code; the nesting of locks and \<open>preempt_disable\<close> is left out.
  \<open>None\<close> is a BUG or an access through NULL.
\<close>

section \<open>Fork\<close>

definition set_task_rq :: "task_ptr \<Rightarrow> 'x sys \<Rightarrow> 'x sys" where
  "set_task_rq p s =
     (let tg = t_sched_task_group (tasks s p);
          s = upd_task p (t_se_update (se_cfs_rq_update (\<lambda>_. tg))) s;
          s = upd_task p (t_se_update (se_parent_update (\<lambda>_. if tg = [] then None else Some tg))) s;
          s = upd_task p (t_rt_update (rse_rt_rq_update (\<lambda>_. tg))) s
      in upd_task p (t_rt_update (rse_parent_update (\<lambda>_. if tg = [] then None else Some tg))) s)"

definition sched_fork' :: "'x env \<Rightarrow> task_ptr \<Rightarrow> 'x sys \<Rightarrow> 'x sys" where
  "sched_fork' E p s =
     (let s = upd_task p (t_on_rq_update (\<lambda>_. 0)) s;
          s = upd_task p (t_se_update (\<lambda>se. se\<lparr>se_on_rq := 0, se_exec_start := 0,
                se_sum_exec_runtime := 0, se_prev_sum_exec_runtime := 0,
                se_nr_migrations := 0, se_vruntime := 0\<rparr>)) s;
          s = upd_links (kl_INIT_LIST_HEAD (klist E) (RtRun (TaskRtSe p))) s
      in upd_links (kl_INIT_LIST_HEAD (klist E) (WrrRun p)) s)"

definition sched_fork :: "'x env \<Rightarrow> task_ptr \<Rightarrow> 'x sys \<Rightarrow> 'x sys" where
  "sched_fork E p s =
     (let s = sched_fork' E p s;
          s = upd_task p (t_state_update (\<lambda>_. TASK_RUNNING)) s;
          s = upd_task p (t_prio_update (\<lambda>_. t_normal_prio (tasks s (curr s)))) s;
          s = (if t_sched_reset_on_fork (tasks s p) then
                 let s = (if task_has_rt_policy (tasks s p) then
                            upd_task p (\<lambda>t. t\<lparr>t_policy := SCHED_NORMAL,
                              t_static_prio := NICE_TO_PRIO 0, t_rt_priority := 0\<rparr>) s
                          else if PRIO_TO_NICE (t_static_prio (tasks s p)) < 0 then
                            upd_task p (t_static_prio_update (\<lambda>_. NICE_TO_PRIO 0)) s
                          else s);
                     s = upd_task p (\<lambda>t. t\<lparr>t_normal_prio := normal_prio' t\<rparr>) s;
                     s = upd_task p (\<lambda>t. t\<lparr>t_prio := t_normal_prio t\<rparr>) s;
                     s = set_load_weight p s
                 in upd_task p (t_sched_reset_on_fork_update (\<lambda>_. False)) s
               else s);
          s = (if \<not> rt_prio (t_prio (tasks s p))
               then upd_task p (t_sched_class_update (\<lambda>_. Fair_class)) s else s);
          s = (case co_task_fork (task_class E s p) of Some f \<Rightarrow> f p s | None \<Rightarrow> s)
      in upd_task p (t_preempt_count_update (\<lambda>_. 1)) s)"

definition wake_up_new_task :: "'x env \<Rightarrow> task_ptr \<Rightarrow> 'x sys \<Rightarrow> 'x sys" where
  "wake_up_new_task E p s =
     (let s = activate_task E p 0 s;
          s = upd_task p (t_on_rq_update (\<lambda>_. 1)) s
      in check_preempt_curr E p WF_FORK s)"

section \<open>The context switch\<close>

definition mmdrop :: "'x env \<Rightarrow> nat \<Rightarrow> 'x sys \<Rightarrow> 'x sys" where
  "mmdrop E mm s =
     (let s = s\<lparr>mm_counts := (mm_counts s)(mm := mm_counts s mm - 1)\<rparr>
      in if mm_counts s mm = 0 then s\<lparr>ext := x_mm_free E mm (ext s)\<rparr> else s)"

definition put_task_struct :: "'x env \<Rightarrow> task_ptr \<Rightarrow> 'x sys \<Rightarrow> 'x sys" where
  "put_task_struct E t s =
     (let s = upd_task t (t_usage_update (\<lambda>n. n - 1)) s
      in if t_usage (tasks s t) = 0 then s\<lparr>ext := x_task_free E t (ext s)\<rparr> else s)"

definition finish_task_switch :: "'x env \<Rightarrow> task_ptr \<Rightarrow> 'x sys \<Rightarrow> 'x sys" where
  "finish_task_switch E prev s =
     (let mm = rq_prev_mm (the_rq s);
          s = upd_rq (rq_prev_mm_update (\<lambda>_. None)) s;
          prev_state = t_state (tasks s prev);
          s = (case mm of Some mm \<Rightarrow> mmdrop E mm s | None \<Rightarrow> s)
      in if prev_state = TASK_DEAD then put_task_struct E prev s else s)"

definition context_switch :: "'x env \<Rightarrow> task_ptr \<Rightarrow> task_ptr \<Rightarrow> 'x sys \<Rightarrow> 'x sys option" where
  "context_switch E prev nxt s =
     (let mm = t_mm (tasks s nxt);
          oldmm = t_active_mm (tasks s prev);
          s' = (case mm of
                  None \<Rightarrow>
                    (case oldmm of
                       None \<Rightarrow> None
                     | Some m \<Rightarrow>
                         let s = upd_task nxt (t_active_mm_update (\<lambda>_. oldmm)) s
                         in Some (s\<lparr>mm_counts := (mm_counts s)(m := mm_counts s m + 1)\<rparr>))
                | Some _ \<Rightarrow> Some s)
      in case s' of
           None \<Rightarrow> None
         | Some s \<Rightarrow>
             let s = (if t_mm (tasks s prev) = None
                      then let s = upd_task prev (t_active_mm_update (\<lambda>_. None)) s
                           in upd_rq (rq_prev_mm_update (\<lambda>_. oldmm)) s
                      else s);
                 s = s\<lparr>ext := x_switch E prev nxt (ext s)\<rparr>
             in Some (finish_task_switch E prev s))"

text \<open>The first thing a new thread runs, on the frame of the switch that started it.\<close>

definition schedule_tail :: "'x env \<Rightarrow> task_ptr \<Rightarrow> 'x sys \<Rightarrow> 'x sys" where
  "schedule_tail E prev s = finish_task_switch E prev s"

section \<open>Choosing the next task\<close>

definition put_prev_task :: "'x env \<Rightarrow> task_ptr \<Rightarrow> 'x sys \<Rightarrow> 'x sys" where
  "put_prev_task E prev s =
     (let s = (if t_on_rq (tasks s prev) \<noteq> 0 \<or> rq_skip_clock_update (the_rq s) < 0
               then update_rq_clock E s else s)
      in co_put_prev_task (task_class E s prev) prev s)"

text \<open>The loop over the classes; the empty list is the BUG at its end.\<close>

fun pick_from :: "'x env \<Rightarrow> sched_class list \<Rightarrow> 'x sys \<Rightarrow> ('x sys \<times> task_ptr) option" where
  "pick_from E [] s = None"
| "pick_from E (c # cs) s =
     (case co_pick_next_task (class_of E c) s of
        None \<Rightarrow> None
      | Some (s, Some p) \<Rightarrow> Some (s, p)
      | Some (s, None) \<Rightarrow> pick_from E cs s)"

definition pick_next_task :: "'x env \<Rightarrow> 'x sys \<Rightarrow> ('x sys \<times> task_ptr) option" where
  "pick_next_task E s =
     (if rq_nr_running (the_rq s) = x_cfs_h_nr_running E (ext s) then
        case co_pick_next_task (class_of E Fair_class) s of
          None \<Rightarrow> None
        | Some (s, Some p) \<Rightarrow> Some (s, p)
        | Some (s, None) \<Rightarrow> pick_from E (all_classes E) s
      else pick_from E (all_classes E) s)"

definition signal_pending_state :: "ulong \<Rightarrow> task_struct \<Rightarrow> bool" where
  "signal_pending_state state p =
     (if and state (or TASK_INTERRUPTIBLE TASK_WAKEKILL) = 0 then False
      else if \<not> t_sigpending p then False
      else and state TASK_INTERRUPTIBLE \<noteq> 0 \<or> t_sigkill_pending p)"

section \<open>\<open>__schedule\<close>\<close>

text \<open>
  The first half of a pass: the previous task leaves its queue unless it is runnable, preempted
  or has a signal to handle. The result says whether the switch counts as voluntary.
\<close>

definition deactivate_prev :: "'x env \<Rightarrow> task_ptr \<Rightarrow> 'x sys \<Rightarrow> 'x sys \<times> bool" where
  "deactivate_prev E prev s =
     (if t_state (tasks s prev) \<noteq> 0 \<and> and (t_preempt_count (tasks s prev)) (cfg_PREEMPT_ACTIVE E) = 0
      then
        (if signal_pending_state (t_state (tasks s prev)) (tasks s prev)
         then upd_task prev (t_state_update (\<lambda>_. TASK_RUNNING)) s
         else
           let s = deactivate_task E prev DEQUEUE_SLEEP s;
               s = upd_task prev (t_on_rq_update (\<lambda>_. 0)) s
           in if and (t_flags (tasks s prev)) PF_WQ_WORKER \<noteq> 0 then
                let (to_wakeup, x) = x_wq_worker_sleeping E prev (ext s);
                    s = s\<lparr>ext := x\<rparr>
                in (case to_wakeup of Some p \<Rightarrow> try_to_wake_up_local E p s | None \<Rightarrow> s)
              else s, True)
      else (s, False))"

text \<open>One pass from the label \<open>need_resched\<close> to the test at its end.\<close>

definition schedule_pass :: "'x env \<Rightarrow> 'x sys \<Rightarrow> 'x sys option" where
  "schedule_pass E s =
     (let prev = curr s;
          (s, voluntary) = deactivate_prev E prev s;
          s = put_prev_task E prev s
      in case pick_next_task E s of
           None \<Rightarrow> None
         | Some (s, nxt) \<Rightarrow>
             let s = clear_tsk_need_resched prev s;
                 s = upd_rq (rq_skip_clock_update_update (\<lambda>_. 0)) s
             in if prev \<noteq> nxt then
                  let s = upd_rq (rq_nr_switches_update (\<lambda>n. n + 1)) s;
                      s = upd_rq (rq_curr_update (\<lambda>_. nxt)) s;
                      s = upd_task prev (if voluntary then t_nvcsw_update (\<lambda>n. n + 1)
                                         else t_nivcsw_update (\<lambda>n. n + 1)) s
                  in context_switch E prev nxt s
                else Some s)"

partial_function (option) schedule' :: "'x env \<Rightarrow> 'x sys \<Rightarrow> 'x sys option" where
  "schedule' E s =
     (case schedule_pass E s of
        None \<Rightarrow> None
      | Some s \<Rightarrow> if test_tsk_need_resched (curr s) s then schedule' E s else Some s)"

definition schedule :: "'x env \<Rightarrow> 'x sys \<Rightarrow> 'x sys option" where
  "schedule E s = schedule' E s"

text \<open>
  \<open>__cond_resched\<close>, up to the point where another task continues and from the point where the
  caller is resumed.
\<close>

definition should_resched :: "'x env \<Rightarrow> 'x sys \<Rightarrow> bool" where
  "should_resched E s =
     (test_tsk_need_resched (curr s) s \<and>
      and (t_preempt_count (tasks s (curr s))) (cfg_PREEMPT_ACTIVE E) = 0)"

definition cond_resched_enter :: "'x env \<Rightarrow> 'x sys \<Rightarrow> 'x sys option" where
  "cond_resched_enter E s =
     schedule' E (upd_task (curr s) (t_preempt_count_update (\<lambda>n. n + cfg_PREEMPT_ACTIVE E)) s)"

definition cond_resched_leave :: "'x env \<Rightarrow> 'x sys \<Rightarrow> 'x sys" where
  "cond_resched_leave E s =
     upd_task (curr s) (t_preempt_count_update (\<lambda>n. n - cfg_PREEMPT_ACTIVE E)) s"

definition sys_sched_yield :: "'x env \<Rightarrow> 'x sys \<Rightarrow> 'x sys option" where
  "sys_sched_yield E s =
     (let s = co_yield_task (task_class E s (curr s)) s in schedule E s)"

definition yield :: "'x env \<Rightarrow> 'x sys \<Rightarrow> 'x sys option" where
  "yield E s = sys_sched_yield E (upd_task (curr s) (t_state_update (\<lambda>_. TASK_RUNNING)) s)"

text \<open>\<open>io_schedule\<close>, split at the switch in the same way.\<close>

definition io_schedule_enter :: "'x env \<Rightarrow> 'x sys \<Rightarrow> 'x sys option" where
  "io_schedule_enter E s =
     (let s = upd_rq (rq_nr_iowait_update (\<lambda>n. n + 1)) s;
          s = upd_task (curr s) (t_in_iowait_update (\<lambda>_. True)) s
      in schedule E s)"

definition io_schedule_leave :: "'x sys \<Rightarrow> 'x sys" where
  "io_schedule_leave s =
     (let s = upd_task (curr s) (t_in_iowait_update (\<lambda>_. False)) s
      in upd_rq (rq_nr_iowait_update (\<lambda>n. n - 1)) s)"

section \<open>The timer tick\<close>

text \<open>\<open>None\<close>: the load update reads out of its tables.\<close>

definition scheduler_tick :: "'x env \<Rightarrow> 'x sys \<Rightarrow> 'x sys option" where
  "scheduler_tick E s =
     (let curr = rq_curr (the_rq s);
          s = s\<lparr>ext := x_sched_clock_tick E (ext s)\<rparr>;
          s = update_rq_clock E s
      in case update_cpu_load_active E s of
           None \<Rightarrow> None
         | Some s \<Rightarrow> Some (co_task_tick (task_class E s curr) curr 0 s))"

end
