(* ===== verification/Setsched.thy ===== *)
theory Setsched
  imports Switch
begin

text \<open>
  Changing a task's nice value, priority and policy: \<open>set_user_nice\<close>, \<open>rt_mutex_setprio\<close>,
  \<open>sched_setscheduler\<close> and the system calls on top of them, from \<open>Prj2/kernel/sched/core.c\<close>.
  A system call returns the new state and its return value, a negative error number or a result;
  \<open>None\<close> is BUG. A user pointer is \<open>None\<close> for NULL, \<open>Some None\<close> for an address that faults and
  \<open>Some (Some v)\<close> for readable memory that holds \<open>v\<close>.
\<close>

section \<open>Priority inheritance\<close>

definition rt_mutex_setprio :: "'x env \<Rightarrow> task_ptr \<Rightarrow> int \<Rightarrow> 'x sys \<Rightarrow> 'x sys option" where
  "rt_mutex_setprio E p prio s =
     (if prio < 0 \<or> MAX_PRIO < prio then None
      else if p = rq_idle (the_rq s) then
        Some (WARN_ON (x_pi_blocked_on E (ext s) p) (WARN_ON (p \<noteq> curr s) s))
      else
        let oldprio = t_prio (tasks s p);
            prev_class = t_sched_class (tasks s p);
            on_rq = t_on_rq (tasks s p);
            running = task_current s p;
            s = (if on_rq \<noteq> 0 then dequeue_task E p 0 s else s);
            s = (if running then co_put_prev_task (task_class E s p) p s else s);
            s = (if rt_prio prio then upd_task p (t_sched_class_update (\<lambda>_. Rt_class)) s
                 else upd_task p (t_sched_class_update (\<lambda>_. Fair_class)) s);
            s = upd_task p (t_prio_update (\<lambda>_. prio)) s;
            s = (if running then co_set_curr_task (task_class E s p) s else s);
            s = (if on_rq \<noteq> 0 then enqueue_task E p (if oldprio < prio then ENQUEUE_HEAD else 0) s
                 else s)
        in Some (check_class_changed E p prev_class oldprio s))"

section \<open>Nice values\<close>

definition set_user_nice :: "'x env \<Rightarrow> task_ptr \<Rightarrow> int \<Rightarrow> 'x sys \<Rightarrow> 'x sys" where
  "set_user_nice E p nice s =
     (if task_nice (tasks s p) = nice \<or> nice < -20 \<or> 19 < nice then s
      else if task_has_rt_policy (tasks s p) then
        upd_task p (t_static_prio_update (\<lambda>_. NICE_TO_PRIO nice)) s
      else
        let on_rq = t_on_rq (tasks s p);
            s = (if on_rq \<noteq> 0 then dequeue_task E p 0 s else s);
            s = upd_task p (t_static_prio_update (\<lambda>_. NICE_TO_PRIO nice)) s;
            s = set_load_weight p s;
            old_prio = t_prio (tasks s p);
            (s, prio) = effective_prio p s;
            s = upd_task p (t_prio_update (\<lambda>_. prio)) s;
            delta = t_prio (tasks s p) - old_prio
        in if on_rq \<noteq> 0 then
             let s = enqueue_task E p 0 s
             in if delta < 0 \<or> (0 < delta \<and> task_current s p)
                then resched_task (curr s) s else s
           else s)"

definition capable_nice :: "'x env \<Rightarrow> 'x sys \<Rightarrow> bool" where
  "capable_nice E s = x_capable_nice E (ext s) (curr s)"

text \<open>The comparison is done in unsigned long, the type of the limit.\<close>

definition can_nice :: "'x env \<Rightarrow> task_ptr \<Rightarrow> int \<Rightarrow> 'x sys \<Rightarrow> bool" where
  "can_nice E p nice s =
     (let nice_rlim = 20 - nice
      in of_int nice_rlim \<le> task_rlimit s p RLIMIT_NICE \<or> capable_nice E s)"

definition sys_nice :: "'x env \<Rightarrow> int \<Rightarrow> 'x sys \<Rightarrow> 'x sys \<times> int" where
  "sys_nice E increment s =
     (let increment = (if increment < -40 then -40 else increment);
          increment = (if 40 < increment then 40 else increment);
          nice = task_nice (tasks s (curr s)) + increment;
          nice = (if nice < -20 then -20 else nice);
          nice = (if 19 < nice then 19 else nice)
      in if increment < 0 \<and> \<not> can_nice E (curr s) nice s then (s, - EPERM)
         else
           let retval = x_security_setnice E (ext s) (curr s) nice
           in if retval \<noteq> 0 then (s, retval)
              else (set_user_nice E (curr s) nice s, 0))"

definition idle_cpu :: "'x sys \<Rightarrow> bool" where
  "idle_cpu s =
     (if rq_curr (the_rq s) \<noteq> rq_idle (the_rq s) then False
      else if rq_nr_running (the_rq s) \<noteq> 0 then False
      else True)"

definition idle_task :: "'x sys \<Rightarrow> task_ptr" where
  "idle_task s = rq_idle (the_rq s)"

definition find_process_by_pid :: "'x env \<Rightarrow> int \<Rightarrow> 'x sys \<Rightarrow> task_ptr option" where
  "find_process_by_pid E pid s =
     (if pid \<noteq> 0 then x_find_task E (ext s) pid else Some (curr s))"

section \<open>Changing the policy\<close>

definition SCHED_RESET_ON_FORK :: int where "SCHED_RESET_ON_FORK = 0x40000000"

definition setscheduler' :: "'x env \<Rightarrow> task_ptr \<Rightarrow> int \<Rightarrow> int \<Rightarrow> 'x sys \<Rightarrow> 'x sys" where
  "setscheduler' E p policy prio s =
     (let s = upd_task p (t_policy_update (\<lambda>_. policy)) s;
          s = upd_task p (t_rt_priority_update (\<lambda>_. of_int prio)) s;
          s = upd_task p (\<lambda>t. t\<lparr>t_normal_prio := normal_prio t\<rparr>) s;
          s = upd_task p (\<lambda>t. t\<lparr>t_prio := x_rt_mutex_getprio E (ext s) p (t_normal_prio t)\<rparr>) s;
          s = (if policy = 6 then upd_task p (t_sched_class_update (\<lambda>_. Wrr_class)) s
               else if rt_prio (t_prio (tasks s p))
               then upd_task p (t_sched_class_update (\<lambda>_. Rt_class)) s
               else upd_task p (t_sched_class_update (\<lambda>_. Fair_class)) s)
      in set_load_weight p s)"

definition check_same_owner :: "'x env \<Rightarrow> task_ptr \<Rightarrow> 'x sys \<Rightarrow> bool" where
  "check_same_owner E p s =
     (let cr = x_cred E (ext s) (curr s);
          pcred = x_cred E (ext s) p
      in if cr_user_ns cr = cr_user_ns pcred
         then cr_euid cr = cr_euid pcred \<or> cr_euid cr = cr_uid pcred
         else False)"

text \<open>
  The checks before the run queue lock is taken: an error number, or the policy to set, the
  policy read when the caller passed a negative one (\<open>-1\<close> otherwise) and the flag to keep.
\<close>

datatype sched_check = Refuse int | Accept int int bool

definition setscheduler_policy :: "'x sys \<Rightarrow> task_ptr \<Rightarrow> int \<Rightarrow> int \<Rightarrow> sched_check" where
  "setscheduler_policy s p policy oldpolicy =
     (if policy < 0
      then Accept (t_policy (tasks s p)) (t_policy (tasks s p)) (t_sched_reset_on_fork (tasks s p))
      else
        let reset_on_fork = (and policy SCHED_RESET_ON_FORK \<noteq> 0);
            policy = and policy (not SCHED_RESET_ON_FORK)
        in if policy \<noteq> SCHED_FIFO \<and> policy \<noteq> SCHED_RR \<and> policy \<noteq> SCHED_WRR \<and>
              policy \<noteq> SCHED_NORMAL \<and> policy \<noteq> SCHED_BATCH \<and> policy \<noteq> SCHED_IDLE
           then Refuse (- EINVAL)
           else Accept policy oldpolicy reset_on_fork)"

definition setscheduler_perm ::
  "'x env \<Rightarrow> task_ptr \<Rightarrow> int \<Rightarrow> int \<Rightarrow> bool \<Rightarrow> 'x sys \<Rightarrow> bool" where
  "setscheduler_perm E p policy prio reset_on_fork s =
     (let rlim_rtprio = task_rlimit s p RLIMIT_RTPRIO in
      if rt_policy policy \<and> policy \<noteq> t_policy (tasks s p) \<and> rlim_rtprio = 0 then False
      else if rt_policy policy \<and> t_rt_priority (tasks s p) < of_int prio \<and>
              rlim_rtprio < of_int prio then False
      else if t_policy (tasks s p) = SCHED_IDLE \<and> policy \<noteq> SCHED_IDLE \<and>
              \<not> can_nice E p (task_nice (tasks s p)) s then False
      else if \<not> check_same_owner E p s then False
      else if t_sched_reset_on_fork (tasks s p) \<and> \<not> reset_on_fork then False
      else True)"

definition setscheduler_check ::
  "'x env \<Rightarrow> task_ptr \<Rightarrow> int \<Rightarrow> int \<Rightarrow> int \<Rightarrow> bool \<Rightarrow> 'x sys \<Rightarrow> sched_check" where
  "setscheduler_check E p policy oldpolicy prio user s =
     (case setscheduler_policy s p policy oldpolicy of
        Refuse e \<Rightarrow> Refuse e
      | Accept policy oldpolicy reset_on_fork \<Rightarrow>
          if prio < 0 \<or> (t_mm (tasks s p) \<noteq> None \<and> MAX_USER_RT_PRIO - 1 < prio) \<or>
             (t_mm (tasks s p) = None \<and> MAX_RT_PRIO - 1 < prio)
          then Refuse (- EINVAL)
          else if rt_policy policy \<noteq> (prio \<noteq> 0) \<and> policy \<noteq> SCHED_WRR then Refuse (- EINVAL)
          else if user \<and> \<not> capable_nice E s \<and>
                  \<not> setscheduler_perm E p policy prio reset_on_fork s
          then Refuse (- EPERM)
          else if user \<and> x_security_setscheduler E (ext s) p \<noteq> 0
          then Refuse (x_security_setscheduler E (ext s) p)
          else Accept policy oldpolicy reset_on_fork)"

text \<open>
  The part under the lock: an early return, or \<open>Recheck\<close> when the policy that was read has been
  changed before the lock was taken.
\<close>

datatype 'x sched_commit = Return "'x sys" int | Recheck

definition setscheduler_commit ::
  "'x env \<Rightarrow> task_ptr \<Rightarrow> int \<Rightarrow> int \<Rightarrow> bool \<Rightarrow> int \<Rightarrow> bool \<Rightarrow> 'x sys \<Rightarrow> 'x sched_commit" where
  "setscheduler_commit E p policy oldpolicy reset_on_fork prio user s =
     (if rq_stop (the_rq s) = Some p then Return s (- EINVAL)
      else if policy = t_policy (tasks s p) \<and>
              (\<not> rt_policy policy \<or> of_int prio = t_rt_priority (tasks s p)) then Return s 0
      else if user \<and> rt_bandwidth_enabled s \<and> rt_policy policy \<and>
              rtb_runtime (tg_rt_bandwidth (tgs s (t_sched_task_group (tasks s p)))) = 0
      then Return s (- EPERM)
      else if oldpolicy \<noteq> -1 \<and> oldpolicy \<noteq> t_policy (tasks s p) then Recheck
      else
        let on_rq = t_on_rq (tasks s p);
            running = task_current s p;
            s = (if on_rq \<noteq> 0 then dequeue_task E p 0 s else s);
            s = (if running then co_put_prev_task (task_class E s p) p s else s);
            s = upd_task p (t_sched_reset_on_fork_update (\<lambda>_. reset_on_fork)) s;
            oldprio = t_prio (tasks s p);
            prev_class = t_sched_class (tasks s p);
            s = setscheduler' E p policy prio s;
            s = (if running then co_set_curr_task (task_class E s p) s else s);
            s = (if on_rq \<noteq> 0 then enqueue_task E p 0 s else s);
            s = check_class_changed E p prev_class oldprio s
        in Return (x_rt_mutex_adjust_pi E p s) 0)"

text \<open>
  \<open>I n\<close> is what other tasks do to the state between the checks of the \<open>n\<close>-th attempt and its
  locked part; with no interference it is the identity.
\<close>

partial_function (option) setscheduler_attempt ::
  "'x env \<Rightarrow> (nat \<Rightarrow> 'x sys \<Rightarrow> 'x sys) \<Rightarrow> nat \<Rightarrow> task_ptr \<Rightarrow> int \<Rightarrow> int \<Rightarrow> int \<Rightarrow> bool \<Rightarrow> 'x sys \<Rightarrow>
   ('x sys \<times> int) option" where
  "setscheduler_attempt E I n p policy oldpolicy prio user s =
     (case setscheduler_check E p policy oldpolicy prio user s of
        Refuse e \<Rightarrow> Some (s, e)
      | Accept policy oldpolicy reset_on_fork \<Rightarrow>
          (let s = I n s in
           case setscheduler_commit E p policy oldpolicy reset_on_fork prio user s of
             Return s r \<Rightarrow> Some (s, r)
           | Recheck \<Rightarrow> setscheduler_attempt E I (Suc n) p (-1) (-1) prio user s))"

definition sched_setscheduler'' ::
  "'x env \<Rightarrow> (nat \<Rightarrow> 'x sys \<Rightarrow> 'x sys) \<Rightarrow> task_ptr \<Rightarrow> int \<Rightarrow> int \<Rightarrow> bool \<Rightarrow> 'x sys \<Rightarrow>
   ('x sys \<times> int) option" where
  "sched_setscheduler'' E I p policy prio user s =
     (if x_in_interrupt E (ext s) then None
      else setscheduler_attempt E I 0 p policy (-1) prio user s)"

definition sched_setscheduler ::
  "'x env \<Rightarrow> (nat \<Rightarrow> 'x sys \<Rightarrow> 'x sys) \<Rightarrow> task_ptr \<Rightarrow> int \<Rightarrow> int \<Rightarrow> 'x sys \<Rightarrow> ('x sys \<times> int) option"
where
  "sched_setscheduler E I p policy prio s = sched_setscheduler'' E I p policy prio True s"

definition sched_setscheduler_nocheck ::
  "'x env \<Rightarrow> (nat \<Rightarrow> 'x sys \<Rightarrow> 'x sys) \<Rightarrow> task_ptr \<Rightarrow> int \<Rightarrow> int \<Rightarrow> 'x sys \<Rightarrow> ('x sys \<times> int) option"
where
  "sched_setscheduler_nocheck E I p policy prio s = sched_setscheduler'' E I p policy prio False s"

definition do_sched_setscheduler ::
  "'x env \<Rightarrow> (nat \<Rightarrow> 'x sys \<Rightarrow> 'x sys) \<Rightarrow> int \<Rightarrow> int \<Rightarrow> int option option \<Rightarrow> 'x sys \<Rightarrow>
   ('x sys \<times> int) option" where
  "do_sched_setscheduler E I pid policy param s =
     (case param of
        None \<Rightarrow> Some (s, - EINVAL)
      | Some lparam \<Rightarrow>
          if pid < 0 then Some (s, - EINVAL)
          else (case lparam of
                  None \<Rightarrow> Some (s, - EFAULT)
                | Some prio \<Rightarrow>
                    (case find_process_by_pid E pid s of
                       None \<Rightarrow> Some (s, - ESRCH)
                     | Some p \<Rightarrow> sched_setscheduler E I p policy prio s)))"

definition sys_sched_setscheduler ::
  "'x env \<Rightarrow> (nat \<Rightarrow> 'x sys \<Rightarrow> 'x sys) \<Rightarrow> int \<Rightarrow> int \<Rightarrow> int option option \<Rightarrow> 'x sys \<Rightarrow>
   ('x sys \<times> int) option" where
  "sys_sched_setscheduler E I pid policy param s =
     (if policy < 0 then Some (s, - EINVAL) else do_sched_setscheduler E I pid policy param s)"

definition sys_sched_setparam ::
  "'x env \<Rightarrow> (nat \<Rightarrow> 'x sys \<Rightarrow> 'x sys) \<Rightarrow> int \<Rightarrow> int option option \<Rightarrow> 'x sys \<Rightarrow>
   ('x sys \<times> int) option" where
  "sys_sched_setparam E I pid param s = do_sched_setscheduler E I pid (-1) param s"

definition sys_sched_getscheduler :: "'x env \<Rightarrow> int \<Rightarrow> 'x sys \<Rightarrow> int" where
  "sys_sched_getscheduler E pid s =
     (if pid < 0 then - EINVAL
      else (case find_process_by_pid E pid s of
              None \<Rightarrow> - ESRCH
            | Some p \<Rightarrow>
                let retval = x_security_getscheduler E (ext s) p
                in if retval = 0
                   then or (t_policy (tasks s p))
                     (if t_sched_reset_on_fork (tasks s p) then SCHED_RESET_ON_FORK else 0)
                   else retval))"

text \<open>The user buffer: \<open>None\<close> for NULL, \<open>Some b\<close> for a pointer, where \<open>b\<close> says it is writable.
  The result is the return value and what was written.\<close>

definition sys_sched_getparam ::
  "'x env \<Rightarrow> int \<Rightarrow> bool option \<Rightarrow> 'x sys \<Rightarrow> int \<times> u32 option" where
  "sys_sched_getparam E pid param s =
     (case param of
        None \<Rightarrow> (- EINVAL, None)
      | Some writable \<Rightarrow>
          if pid < 0 then (- EINVAL, None)
          else (case find_process_by_pid E pid s of
                  None \<Rightarrow> (- ESRCH, None)
                | Some p \<Rightarrow>
                    let retval = x_security_getscheduler E (ext s) p
                    in if retval \<noteq> 0 then (retval, None)
                       else if writable then (0, Some (t_rt_priority (tasks s p)))
                       else (- EFAULT, None)))"

definition sched_set_stop_task ::
  "'x env \<Rightarrow> (nat \<Rightarrow> 'x sys \<Rightarrow> 'x sys) \<Rightarrow> task_ptr option \<Rightarrow> 'x sys \<Rightarrow> 'x sys option" where
  "sched_set_stop_task E I stop s =
     (let old_stop = rq_stop (the_rq s);
          s' = (case stop of
                  None \<Rightarrow> Some s
                | Some p \<Rightarrow>
                    (case sched_setscheduler_nocheck E I p SCHED_FIFO (MAX_RT_PRIO - 1) s of
                       None \<Rightarrow> None
                     | Some (s, _) \<Rightarrow> Some (upd_task p (t_sched_class_update (\<lambda>_. Stop_class)) s)))
      in case s' of
           None \<Rightarrow> None
         | Some s \<Rightarrow>
             let s = upd_rq (rq_stop_update (\<lambda>_. stop)) s
             in Some (case old_stop of
                        Some q \<Rightarrow> upd_task q (t_sched_class_update (\<lambda>_. Rt_class)) s
                      | None \<Rightarrow> s))"

section \<open>Queries\<close>

definition sys_sched_get_priority_max :: "int \<Rightarrow> int" where
  "sys_sched_get_priority_max policy =
     (if policy = SCHED_FIFO \<or> policy = SCHED_RR then MAX_USER_RT_PRIO - 1
      else if policy = SCHED_NORMAL \<or> policy = SCHED_BATCH \<or> policy = SCHED_IDLE then 0
      else - EINVAL)"

definition sys_sched_get_priority_min :: "int \<Rightarrow> int" where
  "sys_sched_get_priority_min policy =
     (if policy = SCHED_FIFO \<or> policy = SCHED_RR then 1
      else if policy = SCHED_NORMAL \<or> policy = SCHED_BATCH \<or> policy = SCHED_IDLE then 0
      else - EINVAL)"

text \<open>The slice in jiffies, before its conversion to a timespec; \<open>None\<close>: the class has no
  \<open>get_rr_interval\<close>.\<close>

definition sys_sched_rr_get_interval ::
  "'x env \<Rightarrow> int \<Rightarrow> bool \<Rightarrow> 'x sys \<Rightarrow> (int \<times> u32 option) option" where
  "sys_sched_rr_get_interval E pid writable s =
     (if pid < 0 then Some (- EINVAL, None)
      else (case find_process_by_pid E pid s of
              None \<Rightarrow> Some (- ESRCH, None)
            | Some p \<Rightarrow>
                let retval = x_security_getscheduler E (ext s) p
                in if retval \<noteq> 0 then Some (retval, None)
                   else (case co_get_rr_interval (task_class E s p) of
                           None \<Rightarrow> None
                         | Some f \<Rightarrow>
                             let time_slice = f p s
                             in Some (if writable then (0, Some time_slice) else (- EFAULT, None)))))"

end
