(* ===== verification/System.thy ===== *)
theory System
  imports Rt_Spec Setsched
begin

text \<open>
  The scheduling classes side by side: every handler of the real-time and of the round-robin class
  leaves the core and the other class alone, and both meet the contract by which the core knows a
  class, \<open>queued_class\<close>.
\<close>

section \<open>Handlers that leave the core alone\<close>

text \<open>
  \<open>J x F\<close> stands for the fair class's own invariant: in the external state \<open>x\<close> exactly the tasks
  \<open>F\<close> are queued there. \<open>quiet J s s'\<close>: between the two states no field of the core has changed, the
  fair class's queue has not either, and only the running task may have been marked for
  rescheduling. \<open>quiet0\<close> leaves out the number of running tasks and the fair class.
\<close>

type_synonym 'x fair_inv = "'x \<Rightarrow> task_ptr set \<Rightarrow> bool"

definition quiet0 :: "'x sys \<Rightarrow> 'x sys \<Rightarrow> bool" where
  "quiet0 s s' \<longleftrightarrow> rq_curr (the_rq s') = rq_curr (the_rq s) \<and> rq_idle (the_rq s') = rq_idle (the_rq s) \<and>
     rq_stop (the_rq s') = rq_stop (the_rq s) \<and> rq_prev_mm (the_rq s') = rq_prev_mm (the_rq s) \<and>
     mm_counts s' = mm_counts s \<and>
     (\<forall>p. t_state (tasks s' p) = t_state (tasks s p) \<and> t_mm (tasks s' p) = t_mm (tasks s p) \<and>
        t_active_mm (tasks s' p) = t_active_mm (tasks s p) \<and>
        (t_need_resched (tasks s' p) \<longrightarrow> t_need_resched (tasks s p) \<or> p = rq_curr (the_rq s)))"

definition quiet :: "'x fair_inv \<Rightarrow> 'x sys \<Rightarrow> 'x sys \<Rightarrow> bool" where
  "quiet J s s' \<longleftrightarrow> quiet0 s s' \<and> rq_nr_running (the_rq s') = rq_nr_running (the_rq s) \<and>
     (\<forall>F. J (ext s) F \<longrightarrow> J (ext s') F)"

lemma quiet_refl [simp]: "quiet J s s"
  by (simp add: quiet_def quiet0_def)

lemma quiet_trans: "quiet J s t \<Longrightarrow> quiet J t u \<Longrightarrow> quiet J s u"
  unfolding quiet_def quiet0_def by (metis (no_types, lifting))

lemma quiet_curr: "quiet J s s' \<Longrightarrow> rq_curr (the_rq s') = rq_curr (the_rq s)"
  by (simp add: quiet_def quiet0_def)

named_theorems quiet_intros "rules that extend a quiet run by one more operation"

lemma quiet_basic [quiet_intros]:
  "quiet J s0 s \<Longrightarrow> quiet J s0 (upd_rt_rq g h s)" "quiet J s0 s \<Longrightarrow> quiet J s0 (upd_links l s)"
  "quiet J s0 s \<Longrightarrow> quiet J s0 (WARN_ON b s)" "quiet J s0 s \<Longrightarrow> quiet J s0 (cpuacct_charge E p d s)"
  "quiet J s0 s \<Longrightarrow> quiet J s0 (set_rt_se e r s)"
  by (auto simp: quiet_def quiet0_def set_rt_se_def split: rt_se_ptr.split)

lemma quiet_upd_task [quiet_intros]:
  "quiet J s0 s \<Longrightarrow> (\<And>t. t_state (f t) = t_state t \<and> t_mm (f t) = t_mm t \<and> t_active_mm (f t) = t_active_mm t \<and>
     t_need_resched (f t) = t_need_resched t) \<Longrightarrow> quiet J s0 (upd_task p f s)"
  by (simp add: quiet_def quiet0_def)

lemma quiet_upd_rq [quiet_intros]:
  "quiet J s0 s \<Longrightarrow> (\<And>r. rq_curr (f r) = rq_curr r \<and> rq_idle (f r) = rq_idle r \<and> rq_stop (f r) = rq_stop r \<and>
     rq_prev_mm (f r) = rq_prev_mm r \<and> rq_nr_running (f r) = rq_nr_running r) \<Longrightarrow>
   quiet J s0 (upd_rq f s)"
  by (simp add: quiet_def quiet0_def)

lemma quiet_resched [quiet_intros]:
  "quiet J s0 s \<Longrightarrow> p = rq_curr (the_rq s0) \<Longrightarrow> quiet J s0 (resched_task p s)"
  "quiet J s0 s \<Longrightarrow> p = rq_curr (the_rq s0) \<Longrightarrow> quiet J s0 (set_tsk_need_resched p s)"
  by (auto simp: quiet_def quiet0_def need_resched_defs)

lemma quiet_ext [quiet_intros]:
  "quiet J s0 s \<Longrightarrow> (\<And>F. J (ext s) F \<Longrightarrow> J x F) \<Longrightarrow> quiet J s0 (s\<lparr>ext := x\<rparr>)"
  by (auto simp: quiet_def quiet0_def)

lemma quiet_fold:
  "(\<And>x s. x \<in> set xs \<Longrightarrow> quiet J s (f x s)) \<Longrightarrow> quiet J s (fold f xs s)"
  by (induction xs arbitrary: s) (auto intro: quiet_trans)

text \<open>What the code outside may do to the fair class's queue: nothing.\<close>

definition env_ok :: "'x env \<Rightarrow> 'x fair_inv \<Rightarrow> bool" where
  "env_ok E J \<longleftrightarrow> (\<forall>x F. J x F \<longrightarrow> J (snd (x_sched_clock E x)) F \<and> J (x_sched_clock_tick E x) F \<and>
     (\<forall>g t. J (x_start_bandwidth_timer E g t x) F) \<and> (\<forall>p d. J (x_account_group_exec E p d x) F) \<and>
     (\<forall>p. J (snd (x_wq_worker_sleeping E p x)) F) \<and> (\<forall>p. J (x_wq_worker_waking_up E p x) F) \<and>
     (\<forall>p q. J (x_switch E p q x) F) \<and> (\<forall>m. J (x_mm_free E m x) F) \<and> (\<forall>p. J (x_task_free E p x) F))"

lemma env_okD:
  assumes "env_ok E J" and "J x F"
  shows "J (snd (x_sched_clock E x)) F" "J (x_sched_clock_tick E x) F"
    "J (x_start_bandwidth_timer E g t x) F" "J (x_account_group_exec E p d x) F"
    "J (snd (x_wq_worker_sleeping E p x)) F" "J (x_wq_worker_waking_up E p x) F"
    "J (x_switch E p q x) F" "J (x_mm_free E m x) F" "J (x_task_free E p x) F"
  using assms unfolding env_ok_def by blast+


section \<open>The handlers of the real-time class are quiet\<close>

lemma quiet_cond [quiet_intros]:
  "(c \<Longrightarrow> quiet J s0 a) \<Longrightarrow> (\<not> c \<Longrightarrow> quiet J s0 b) \<Longrightarrow> quiet J s0 (if c then a else b)"
  by simp

lemma quiet_fold_intro [quiet_intros]:
  "quiet J s0 s \<Longrightarrow> (\<And>x s1. quiet J s0 s1 \<Longrightarrow> quiet J s0 (f x s1)) \<Longrightarrow> quiet J s0 (fold f xs s)"
  by (induction xs arbitrary: s) auto

lemma quiet_start_rt_bandwidth [quiet_intros]:
  "env_ok E J \<Longrightarrow> quiet J s0 s \<Longrightarrow> quiet J s0 (start_rt_bandwidth E g s)"
  unfolding start_rt_bandwidth_def by (intro quiet_intros) (auto dest: env_okD)

lemma quiet_rt_tasks [quiet_intros]:
  "env_ok E J \<Longrightarrow> quiet J s0 s \<Longrightarrow> quiet J s0 (inc_rt_tasks E e g s)"
  "quiet J s0 s \<Longrightarrow> quiet J s0 (dec_rt_tasks E e g s)"
  unfolding inc_rt_tasks_def inc_rt_prio_def inc_rt_group_def dec_rt_tasks_def dec_rt_prio_def
    dec_rt_group_def Let_def
  by (intro quiet_intros; assumption)+

lemma quiet_entity [quiet_intros]:
  "env_ok E J \<Longrightarrow> quiet J s0 s \<Longrightarrow> quiet J s0 (enqueue_rt_entity' E e head s)"
  "quiet J s0 s \<Longrightarrow> quiet J s0 (dequeue_rt_entity' E e s)"
  unfolding enqueue_rt_entity'_def dequeue_rt_entity'_def Let_def list_add_leaf_rt_rq_def
    list_del_leaf_rt_rq_def
  by (cases "group_rt_rq e"; simp only: option.case; intro quiet_intros; simp)
    (intro quiet_intros; simp)

lemma quiet_set_back_chain [quiet_intros]:
  "quiet J s0 s \<Longrightarrow> quiet J s0 (set_back_chain b es s)"
  by (induction es arbitrary: b s) (simp_all add: quiet_intros)

lemma quiet_entities [quiet_intros]:
  assumes "env_ok E J" and "quiet J s0 s"
  shows "quiet J s0 (enqueue_rt_entity E e head s)" "quiet J s0 (dequeue_rt_entity E e s)"
  unfolding enqueue_rt_entity_def dequeue_rt_entity_def dequeue_rt_stack_def Let_def
  by (intro quiet_intros; simp add: assms quiet_intros split: option.split)+

lemma quiet_rt_rq [quiet_intros]:
  assumes "env_ok E J" and "quiet J s0 s"
  shows "quiet J s0 (sched_rt_rq_enqueue E g s)" "quiet J s0 (sched_rt_rq_dequeue E g s)"
proof -
  let ?s = "case tg_rt_se g of
      Some e \<Rightarrow> if \<not> on_rt_rq E e s then enqueue_rt_entity E e False s else s | None \<Rightarrow> s"
  have "quiet J s0 ?s" using assms by (simp add: quiet_intros split: option.split)
  then show "quiet J s0 (sched_rt_rq_enqueue E g s)"
    unfolding sched_rt_rq_enqueue_def Let_def using assms(2)
    by (intro quiet_intros) (simp_all add: quiet_curr)
  show "quiet J s0 (sched_rt_rq_dequeue E g s)"
    using assms by (simp add: sched_rt_rq_dequeue_def quiet_intros split: option.split)
qed

lemma quiet_runtime_exceeded [quiet_intros]:
  "env_ok E J \<Longrightarrow> quiet J s0 s \<Longrightarrow> quiet J s0 (fst (sched_rt_runtime_exceeded E g s))"
  by (simp add: sched_rt_runtime_exceeded_def Let_def quiet_intros)

lemma quiet_charge [quiet_intros]:
  "env_ok E J \<Longrightarrow> quiet J s0 s \<Longrightarrow> c = rq_curr (the_rq s0) \<Longrightarrow> quiet J s0 (charge_rt_rq E c d g s)"
  by (simp add: charge_rt_rq_def Let_def case_prod_beta quiet_intros)

lemma quiet_update_curr_rt [quiet_intros]:
  assumes "env_ok E J" and "quiet J s0 s"
  shows "quiet J s0 (update_curr_rt E s)"
  unfolding update_curr_rt_def Let_def
  by (intro quiet_intros) (use assms in \<open>auto simp: quiet_curr dest: env_okD\<close>)


lemma quiet_requeue [quiet_intros]:
  "quiet J s0 s \<Longrightarrow> quiet J s0 (requeue_task_rt E p head s)"
  "quiet J s0 s \<Longrightarrow> quiet J s0 (requeue_task_wrr E p head s)"
  unfolding requeue_task_rt_def requeue_rt_entity_def requeue_task_wrr_def requeue_wrr_entity_def Let_def
  by (intro quiet_intros; assumption)+

lemma enqueue_task_rt_quiet:
  assumes "env_ok E J"
  shows "\<exists>t. quiet J s t \<and> enqueue_task_rt E p flags s = inc_nr_running t"
proof -
  have "quiet J s (if and flags ENQUEUE_WAKEUP \<noteq> 0
      then upd_task p (t_rt_update (rse_timeout_update (\<lambda>_. 0))) s else s)"
    by (intro quiet_intros) simp_all
  then show ?thesis
    using quiet_entities(1) [OF assms] unfolding enqueue_task_rt_def Let_def by blast
qed

lemma dequeue_task_rt_quiet:
  assumes "env_ok E J"
  shows "\<exists>t. quiet J s t \<and> dequeue_task_rt E p flags s = dec_nr_running t"
  using quiet_entities(2) [OF assms quiet_update_curr_rt [OF assms quiet_refl]]
  unfolding dequeue_task_rt_def Let_def by blast

lemma rt_notices_quiet:
  "quiet J s (check_preempt_curr_rt p flags s)" "quiet J s (switched_to_rt p s)"
  "quiet J s (prio_changed_rt p oldprio s)" "quiet J s (set_curr_task_rt s)" "quiet J s (yield_task_rt E s)"
  unfolding check_preempt_curr_rt_def switched_to_rt_def prio_changed_rt_def set_curr_task_rt_def
    yield_task_rt_def Let_def
  by (intro quiet_intros; simp)+

lemma task_tick_rt_quiet:
  assumes e: "env_ok E J"
  shows "quiet J s (task_tick_rt E (rq_curr (the_rq s)) queued s)"
proof -
  let ?p = "rq_curr (the_rq s)"
  have "quiet J s (watchdog_rt E ?p (update_curr_rt E s))"
    unfolding watchdog_rt_def Let_def by (intro quiet_intros) (simp_all add: e)
  then show ?thesis
    unfolding task_tick_rt_def set_rt_slice_def Let_def by (intro quiet_intros) simp_all
qed

lemma period_timer_quiet:
  assumes "env_ok E J"
  shows "quiet J s (fst (do_sched_rt_period_timer E g overrun s))"
  by (subst timer_state, intro quiet_cond quiet_rt_rq quiet_upd_rq quiet_basic assms quiet_refl) simp

section \<open>The handlers of the round-robin class are quiet\<close>

lemma quiet_update_curr_wrr [quiet_intros]: "quiet J s0 s \<Longrightarrow> quiet J s0 (update_curr_wrr E s)"
  unfolding update_curr_wrr_def Let_def by (intro quiet_intros) simp_all

lemma quiet_wrr_entities [quiet_intros]:
  "quiet J s0 s \<Longrightarrow> quiet J s0 (dequeue_wrr_stack E p s)"
  "quiet J s0 s \<Longrightarrow> quiet J s0 (enqueue_wrr_entity' E p head s)"
  unfolding dequeue_wrr_stack_def dequeue_wrr_entity'_def dec_wrr_tasks_def enqueue_wrr_entity'_def
    inc_wrr_tasks_def pushable_simps Let_def
  by (intro quiet_intros; simp)+

lemma enqueue_task_wrr_quiet: "\<exists>t. quiet J s t \<and> enqueue_task_wrr E p flags s = inc_nr_running t"
proof -
  let ?s = "if and flags ENQUEUE_WAKEUP \<noteq> 0
    then upd_task p (t_wrr_update (wse_timeout_update (\<lambda>_. 0))) s else s"
  let ?t = "enqueue_wrr_entity' E p (and flags ENQUEUE_HEAD \<noteq> 0) (dequeue_wrr_stack E p ?s)"
  have "quiet J s ?t" by (intro quiet_intros) simp_all
  moreover have "enqueue_task_wrr E p flags s = inc_nr_running ?t"
    by (simp add: enqueue_task_wrr_def enqueue_wrr_entity_def)
  ultimately show ?thesis by metis
qed

lemma dequeue_task_wrr_quiet: "\<exists>t. quiet J s t \<and> dequeue_task_wrr E p flags s = dec_nr_running t"
proof -
  have "quiet J s (dequeue_wrr_stack E p (update_curr_wrr E s))" by (intro quiet_intros) simp
  then show ?thesis
    unfolding dequeue_task_wrr_def dequeue_wrr_entity_def Let_def pushable_simps option.case by blast
qed

lemma wrr_quiet:
  "quiet J s (yield_task_wrr E s)" "quiet J s (set_curr_task_wrr s)" "quiet J s (put_prev_task_wrr E p s)"
  unfolding yield_task_wrr_def set_curr_task_wrr_def put_prev_task_wrr_def pushable_simps Let_def
  by (intro quiet_intros; simp)+

lemma task_tick_wrr_quiet: "quiet J s (task_tick_wrr E (rq_curr (the_rq s)) queued s)"
proof -
  let ?p = "rq_curr (the_rq s)"
  have "quiet J s (watchdog_wrr E ?p (update_curr_wrr E s))"
    unfolding watchdog_wrr_def Let_def by (intro quiet_intros) simp_all
  then show ?thesis
    unfolding task_tick_wrr_def set_wrr_slice_def Let_def by (intro quiet_intros) simp_all
qed


section \<open>What the handlers leave to the other classes\<close>

text \<open>What the core keeps of a task; the effective priority matters to the real-time class only.\<close>

definition sys_core :: "task_struct \<Rightarrow> _" where
  "sys_core t = (t_on_rq t, t_sched_class t, rse_rt_rq (t_rt t), rse_parent (t_rt t),
     t_static_prio t, t_normal_prio t, t_policy t, t_rt_priority t,
     t_sched_reset_on_fork t, t_sched_task_group t, if t_sched_class t = Rt_class then Some (t_prio t) else None)"

lemma sys_coreD:
  assumes "sys_core t' = sys_core t"
  shows "t_on_rq t' = t_on_rq t" "t_sched_class t' = t_sched_class t"
    "rse_rt_rq (t_rt t') = rse_rt_rq (t_rt t)" "rse_parent (t_rt t') = rse_parent (t_rt t)"
    "t_sched_class t = Rt_class \<Longrightarrow> t_prio t' = t_prio t"
    "t_normal_prio t' = t_normal_prio t" "t_static_prio t' = t_static_prio t" "t_policy t' = t_policy t"
    "t_sched_task_group t' = t_sched_task_group t" "t_rt_priority t' = t_rt_priority t"
    "t_sched_reset_on_fork t' = t_sched_reset_on_fork t"
  using assms by (auto simp: sys_core_def split: if_splits)

text \<open>
  \<open>not_rt\<close>: nothing of the real-time class has changed; \<open>not_wrr\<close>: nothing of the round-robin class.
\<close>

definition not_rt :: "'x sys \<Rightarrow> 'x sys \<Rightarrow> bool" where
  "not_rt s s' \<longleftrightarrow> (\<forall>n. rt_node n \<longrightarrow> links s' n = links s n) \<and> rt_rqs s' = rt_rqs s \<and>
     (\<forall>p. sys_core (tasks s' p) = sys_core (tasks s p))"

definition not_wrr :: "'x sys \<Rightarrow> 'x sys \<Rightarrow> bool" where
  "not_wrr s s' \<longleftrightarrow> (\<forall>n. \<not> rt_node n \<longrightarrow> links s' n = links s n) \<and>
     rq_wrr (the_rq s') = rq_wrr (the_rq s) \<and> (\<forall>p. sys_core (tasks s' p) = sys_core (tasks s p))"

lemma not_rt_refl [simp]: "not_rt s s" and not_wrr_refl [simp]: "not_wrr s s"
  by (simp_all add: not_rt_def not_wrr_def)

lemma not_rt_trans: "not_rt s t \<Longrightarrow> not_rt t u \<Longrightarrow> not_rt s u"
  and not_wrr_trans: "not_wrr s t \<Longrightarrow> not_wrr t u \<Longrightarrow> not_wrr s u"
  by (simp_all add: not_rt_def not_wrr_def)

lemma not_upd_task:
  "(\<And>t. sys_core (f t) = sys_core t) \<Longrightarrow> not_rt s (upd_task p f s) \<and> not_wrr s (upd_task p f s)"
  by (simp add: not_rt_def not_wrr_def)

lemma rt_only_not_wrr: "rt_only s s' \<Longrightarrow> not_wrr s s'"
  by (auto simp: rt_only_def not_wrr_def task_core_def sys_core_def rq_core_def)

text \<open>A node of the real-time lists is not touched by the round-robin class.\<close>

lemma rt_node_not_wrr: "rt_node n \<Longrightarrow> n \<notin> insert WrrQueue (range WrrRun)"
  by (auto simp: rt_node_def)

lemma wrr_links_frame:
  assumes i: "wrr_inv E s ts" and n: "rt_node n"
  shows "links (dequeue_wrr_stack E p s) n = links s n"
    and "p \<notin> set ts \<Longrightarrow> links (enqueue_wrr_entity' E p head s) n = links s n"
    and "links (requeue_task_wrr E p k s) n = links s n"
proof -
  note w = wrr_invD [OF i]
  note f = on_queue_frame [OF w(1,2) rt_node_not_wrr [OF n]]
  have on: "on_wrr_rq E p (upd_task p g s) \<longleftrightarrow> p \<in> set ts" for g
    using on_wrr_rq_iff [of E "upd_task p g s" ts p] i by simp
  show "links (dequeue_wrr_stack E p s) n = links s n"
    using f(3) on
    by (simp add: dequeue_wrr_stack_def dequeue_wrr_entity'_def dec_wrr_tasks_def Let_def)
  show "links (enqueue_wrr_entity' E p head s) n = links s n" if "p \<notin> set ts"
    using f(1,2) that by (simp add: enqueue_wrr_entity'_def inc_wrr_tasks_def Let_def)
  show "links (requeue_task_wrr E p k s) n = links s n"
    using f(4,5) on_wrr_rq_iff [OF i, of p]
    by (simp add: requeue_task_wrr_def requeue_wrr_entity_def)
qed

lemma wrr_entity_frame:
  "rt_rqs (dequeue_wrr_stack E p s) = rt_rqs s" "rt_rqs (enqueue_wrr_entity' E p head s) = rt_rqs s"
  "sys_core (tasks (dequeue_wrr_stack E p s) q) = sys_core (tasks s q)"
  "tasks (enqueue_wrr_entity' E p head s) = tasks s"
  by (simp_all add: dequeue_wrr_stack_def dequeue_wrr_entity'_def dec_wrr_tasks_def
      enqueue_wrr_entity'_def inc_wrr_tasks_def sys_core_def Let_def)

lemma nr_running_core [simp]:
  "rt_rqs (inc_nr_running s) = rt_rqs s" "rt_rqs (dec_nr_running s) = rt_rqs s"
  by (simp_all add: inc_nr_running_def dec_nr_running_def)

lemma update_curr_wrr_not_rt: "not_rt s (update_curr_wrr E s)"
  by (auto simp: not_rt_def frame_simps update_curr_wrr_def sys_core_def Let_def)

lemma wrr_task_not_rt:
  assumes i: "wrr_inv E s ts"
  shows "not_rt s (enqueue_task_wrr E p flags s)" "not_rt s (dequeue_task_wrr E p flags s)"
proof -
  let ?s = "if and flags ENQUEUE_WAKEUP \<noteq> 0
    then upd_task p (t_wrr_update (wse_timeout_update (\<lambda>_. 0))) s else s"
  have i1: "wrr_inv E ?s ts" using i by simp
  have 1: "not_rt s ?s"
    using not_upd_task [of "t_wrr_update (wse_timeout_update (\<lambda>_. 0))" s p] by (simp add: sys_core_def)
  have i2: "wrr_inv E (dequeue_wrr_stack E p ?s) (removeAll p ts)" by (rule wrr_inv_stack(1) [OF i1])
  show "not_rt s (enqueue_task_wrr E p flags s)"
    using 1 wrr_links_frame(1) [OF i1] wrr_links_frame(2) [OF i2, of _ p]
    unfolding enqueue_task_wrr_def enqueue_wrr_entity_def Let_def not_rt_def nr_running_core
      nr_running_frame wrr_entity_frame by simp
  have i3: "wrr_inv E (update_curr_wrr E s) ts" using i by simp
  show "not_rt s (dequeue_task_wrr E p flags s)"
    using update_curr_wrr_not_rt [of s E] wrr_links_frame(1) [OF i3]
    by (simp add: not_rt_def dequeue_task_wrr_def dequeue_wrr_entity_def Let_def wrr_entity_frame)
qed


lemma wrr_others_not_rt:
  assumes i: "wrr_inv E s ts"
  shows "not_rt s (requeue_task_wrr E p k s)" "not_rt s (yield_task_wrr E s)"
    "not_rt s (put_prev_task_wrr E p s)" "not_rt s (set_curr_task_wrr s)"
    "t_sched_class (tasks s p) = Wrr_class \<Longrightarrow> not_rt s (task_tick_wrr E p q s)"
proof -
  have req: "not_rt s' (requeue_task_wrr E p k s')" if "wrr_inv E s' ts" for s' p k
    using wrr_links_frame(3) [OF that] by (simp add: not_rt_def frame_simps)
  show "not_rt s (requeue_task_wrr E p k s)" "not_rt s (yield_task_wrr E s)"
    using req [OF i] by (simp_all add: yield_task_wrr_def)
  show "not_rt s (put_prev_task_wrr E p s)"
    using update_curr_wrr_not_rt by (simp add: put_prev_task_wrr_def)
  show "not_rt s (set_curr_task_wrr s)"
    by (simp add: set_curr_task_wrr_def not_rt_def sys_core_def)
  assume c: "t_sched_class (tasks s p) = Wrr_class"
  let ?s1 = "watchdog_wrr E p (update_curr_wrr E s)"
  have upd: "not_rt s (upd_task p f s')" if "not_rt s s'" and
    f: "\<And>t. t_sched_class t = Wrr_class \<Longrightarrow> sys_core (f t) = sys_core t" for f and s' :: "'a sys"
  proof -
    have "t_sched_class (tasks s' p) = Wrr_class"
      using that(1) c sys_coreD(2) by (metis not_rt_def)
    then show ?thesis using that(1) f by (auto simp: not_rt_def)
  qed
  have 1: "not_rt s ?s1"
    using update_curr_wrr_not_rt [of s E] unfolding watchdog_wrr_def Let_def
    by (auto intro!: upd simp: sys_core_def)
  have slice: "not_rt s (set_wrr_slice p v s')" if "not_rt s s'" for v s'
    unfolding set_wrr_slice_def by (rule upd [OF that]) (simp add: sys_core_def)
  have prio: "not_rt s (upd_task p (t_prio_update f) s')" if "not_rt s s'" for f s'
    by (rule upd [OF that]) (simp add: sys_core_def)
  have flag: "not_rt s (set_tsk_need_resched p s')" if "not_rt s s'" for s'
    unfolding set_tsk_need_resched_def by (rule upd [OF that]) (simp add: sys_core_def)
  have rq: "not_rt s (requeue_task_wrr E p 0 s')" if "not_rt s s'" and "wrr_inv E s' ts" for s'
    using not_rt_trans [OF that(1) req [OF that(2)]] .
  have i1: "wrr_inv E ?s1 ts"
    by (rule wrr_inv_cong [THEN iffD2, OF _ _ i]) (simp_all add: frame_simps)
  have ii: "wrr_inv E (set_wrr_slice p v s') ts \<longleftrightarrow> wrr_inv E s' ts" for v s'
    by (simp add: set_wrr_slice_def)
  show "not_rt s (task_tick_wrr E p q s)"
    unfolding task_tick_wrr_def Let_def
    by (simp add: 1 i1 slice prio flag rq ii)
qed

section \<open>The queues of a class as a set of tasks\<close>

definition rt_holds :: "'x env \<Rightarrow> rt_se_ptr set \<Rightarrow> 'x sys \<Rightarrow> task_ptr set \<Rightarrow> bool" where
  "rt_holds E U s M \<longleftrightarrow> (\<exists>Q. rt_good E U s Q \<and> (\<forall>p. rt_on Q (TaskRtSe p) \<longleftrightarrow> p \<in> M)) \<and>
     (\<forall>p\<in>M. t_sched_class (tasks s p) = Rt_class)"

definition wrr_holds :: "'x env \<Rightarrow> 'x sys \<Rightarrow> task_ptr set \<Rightarrow> bool" where
  "wrr_holds E s M \<longleftrightarrow> (\<exists>ts. wrr_inv E s ts \<and> set ts = M) \<and> M \<subseteq> {..<max_tasks}"

definition rt_can :: "rt_se_ptr set \<Rightarrow> 'x sys \<Rightarrow> task_ptr \<Rightarrow> bool" where
  "rt_can U s p \<longleftrightarrow> rt_task_ok U s p \<and> t_sched_class (tasks s p) = Rt_class \<and>
     0 \<le> t_prio (tasks s p) \<and> t_prio (tasks s p) < 100 \<and> rt_curr_ok U s"

definition wrr_can :: "'x sys \<Rightarrow> task_ptr \<Rightarrow> bool" where
  "wrr_can s p \<longleftrightarrow> p < max_tasks"

lemma rt_tasks_members:
  "rt_tasks Q' = rt_tasks Q \<Longrightarrow> rt_on Q' (TaskRtSe p) \<longleftrightarrow> rt_on Q (TaskRtSe p)"
  by (simp flip: rt_tasks_on)

lemma rt_holdsI:
  "rt_good E U s Q \<Longrightarrow> (\<And>p. rt_on Q (TaskRtSe p) \<longleftrightarrow> p \<in> M) \<Longrightarrow>
   (\<And>p. p \<in> M \<Longrightarrow> t_sched_class (tasks s p) = Rt_class) \<Longrightarrow> rt_holds E U s M"
  by (auto simp: rt_holds_def)

lemma rt_holdsE:
  assumes "rt_holds E U s M"
  obtains Q where "rt_good E U s Q" "\<And>p. rt_on Q (TaskRtSe p) \<longleftrightarrow> p \<in> M"
    "\<And>p. p \<in> M \<Longrightarrow> t_sched_class (tasks s p) = Rt_class"
  using assms by (auto simp: rt_holds_def)

lemma rt_holds_keeps:
  assumes h: "rt_holds E U s M" and k: "\<And>Q. rt_good E U s Q \<Longrightarrow> rt_keeps E U s Q s'"
  shows "rt_holds E U s' M"
proof -
  obtain Q where Q: "rt_good E U s Q" "\<And>p. rt_on Q (TaskRtSe p) \<longleftrightarrow> p \<in> M"
    "\<And>p. p \<in> M \<Longrightarrow> t_sched_class (tasks s p) = Rt_class"
    by (rule rt_holdsE [OF h]) blast
  from k [OF Q(1)] obtain Q' where Q': "rt_good E U s' Q'" "rt_tasks Q' = rt_tasks Q" "rt_only s s'"
    by (auto simp: rt_keeps_def)
  show ?thesis
    by (rule rt_holdsI [OF Q'(1)]) (use Q rt_tasks_members [OF Q'(2)] rt_only_task [OF Q'(3)] in simp_all)
qed

lemma rt_holds_moves:
  assumes h: "rt_holds E U s M" and q: "\<And>q. q \<in> M' \<Longrightarrow> t_sched_class (tasks s q) = Rt_class"
    and k: "\<And>Q. rt_good E U s Q \<Longrightarrow> (\<And>p. rt_on Q (TaskRtSe p) \<longleftrightarrow> p \<in> M) \<Longrightarrow>
      \<exists>T. rt_moves E U s T s' \<and> (\<forall>p. (\<exists>k. p \<in> set (T k)) \<longleftrightarrow> p \<in> M')"
  shows "rt_holds E U s' M'"
proof -
  obtain Q where Q: "rt_good E U s Q" "\<And>p. rt_on Q (TaskRtSe p) \<longleftrightarrow> p \<in> M"
    by (rule rt_holdsE [OF h]) blast
  from k [OF this] obtain T where T: "rt_moves E U s T s'" "\<And>p. (\<exists>k. p \<in> set (T k)) \<longleftrightarrow> p \<in> M'"
    by blast
  then obtain Q' where Q': "rt_good E U s' Q'" "rt_tasks Q' = T" "rt_only s s'"
    by (auto simp: rt_moves_def)
  show ?thesis
    by (rule rt_holdsI [OF Q'(1)]) (use T(2) Q'(2) q rt_only_task [OF Q'(3)] in \<open>simp_all flip: rt_tasks_on\<close>)
qed

lemma rt_holds_outside: "rt_holds E U s M \<Longrightarrow> not_rt s s' \<Longrightarrow> rt_holds E U s' M"
proof -
  assume h: "rt_holds E U s M" and n: "not_rt s s'"
  obtain Q where Q: "rt_good E U s Q" "\<And>p. rt_on Q (TaskRtSe p) \<longleftrightarrow> p \<in> M"
    "\<And>p. p \<in> M \<Longrightarrow> t_sched_class (tasks s p) = Rt_class"
    by (rule rt_holdsE [OF h]) blast
  have c: "sys_core (tasks s' p) = sys_core (tasks s p)" for p using n by (simp add: not_rt_def)
  have "rt_good E U s' Q"
    by (rule rt_good_outside [OF Q(1)]) (use n Q(2,3) sys_coreD [OF c] in \<open>simp_all add: not_rt_def\<close>)
  then show ?thesis
    by (rule rt_holdsI) (use Q(2,3) sys_coreD(2) [OF c] in simp_all)
qed


section \<open>Both classes meet the contract of the core\<close>

definition stamp_exec_start :: "task_ptr \<Rightarrow> 'x sys \<Rightarrow> 'x sys" where
  "stamp_exec_start p s = upd_task p (t_se_update (se_exec_start_update (\<lambda>_. rq_clock_task (the_rq s)))) s"

definition rt_offers :: "'x env \<Rightarrow> rt_se_ptr set \<Rightarrow> 'x sys \<Rightarrow> task_ptr set" where
  "rt_offers E U s = {p. \<exists>Q. rt_good E U s Q \<and> p \<in> rt_runnable s Q}"

definition rt_best :: "'x env \<Rightarrow> rt_se_ptr set \<Rightarrow> 'x sys \<Rightarrow> task_ptr \<Rightarrow> bool" where
  "rt_best E U s p \<longleftrightarrow> (\<forall>q\<in>rt_offers E U s. t_prio (tasks s p) \<le> t_prio (tasks s q))"

definition wrr_offers :: "'x env \<Rightarrow> 'x sys \<Rightarrow> task_ptr set" where
  "wrr_offers E s = {p. \<exists>ts. wrr_inv E s ts \<and> p \<in> set ts}"

definition wrr_head :: "'x env \<Rightarrow> 'x sys \<Rightarrow> task_ptr \<Rightarrow> bool" where
  "wrr_head E s p \<longleftrightarrow> (\<exists>ts. wrr_inv E s (p # ts))"

lemma rt_offers_eq: "rt_good E U s Q \<Longrightarrow> rt_offers E U s = rt_runnable s Q"
  unfolding rt_offers_def by (auto dest: rt_links_unique rt_invD(4))

lemma wrr_offers_eq: "wrr_inv E s ts \<Longrightarrow> wrr_offers E s = set ts"
  by (auto simp: wrr_offers_def dest: wrr_inv_unique)

lemma rt_runnable_on: "rt_runnable s Q \<subseteq> {p. rt_on Q (TaskRtSe p)}"
  by (auto simp: rt_runnable_def simp flip: rt_tasks_on)

lemma rt_pick_laws:
  assumes "rt_holds E U s M"
  shows "rt_offers E U s \<subseteq> M" and "rt_offers E U s = {} \<Longrightarrow> pick_next_task_rt E s = Some (s, None)"
    and "rt_offers E U s \<noteq> {} \<Longrightarrow> \<exists>p\<in>rt_offers E U s. rt_best E U s p \<and>
      pick_next_task_rt E s = Some (stamp_exec_start p s, Some p)"
proof -
  obtain Q where Q: "rt_good E U s Q" "\<And>p. rt_on Q (TaskRtSe p) \<longleftrightarrow> p \<in> M"
    by (rule rt_holdsE [OF assms]) blast
  note o = rt_offers_eq [OF Q(1)] and k = pick_next_task_rt_spec [OF Q(1)]
  show "rt_offers E U s \<subseteq> M" using rt_runnable_on Q(2) unfolding o by fastforce
  show "rt_offers E U s = {} \<Longrightarrow> pick_next_task_rt E s = Some (s, None)" using k unfolding o by auto
  show "rt_offers E U s \<noteq> {} \<Longrightarrow> \<exists>p\<in>rt_offers E U s. rt_best E U s p \<and>
      pick_next_task_rt E s = Some (stamp_exec_start p s, Some p)"
    using k unfolding rt_best_def o stamp_exec_start_def by blast
qed

lemma ex_in_updated:
  "set xs = insert p (set (f k0)) \<Longrightarrow>
   (\<exists>k. q \<in> set ((f(k0 := xs)) k)) \<longleftrightarrow> q = p \<or> (\<exists>k. q \<in> set (f k))"
  by (metis fun_upd_apply insert_iff)

lemma rt_enq_law:
  assumes h: "rt_holds E U s M" and p: "p \<notin> M" and c: "rt_can U s p"
  shows "rt_holds E U (enqueue_task_rt E p flags s) (insert p M)"
proof (rule rt_holds_moves [OF h])
  fix Q assume Q: "rt_good E U s Q" "\<And>p. rt_on Q (TaskRtSe p) \<longleftrightarrow> p \<in> M"
  have "(\<exists>k. q \<in> set (((rt_tasks Q)(rt_place s p := insert_at h p (rt_tasks Q (rt_place s p)))) k)) \<longleftrightarrow>
      q \<in> insert p M" for q h
    by (subst ex_in_updated [of _ p], simp add: insert_at_def, simp only: rt_tasks_on Q(2) insert_iff)
  then show "\<exists>T. rt_moves E U s T (enqueue_task_rt E p flags s) \<and>
      (\<forall>q. (\<exists>k. q \<in> set (T k)) \<longleftrightarrow> q \<in> insert p M)"
    using enqueue_task_rt_moves [OF Q(1), of p flags] Q(2) p c unfolding rt_can_def by blast
qed (use c h in \<open>auto simp: rt_can_def rt_holds_def\<close>)

lemma rt_deq_law:
  assumes h: "rt_holds E U s M" and c: "rt_can U s p"
  shows "rt_holds E U (dequeue_task_rt E p flags s) (M - {p})"
proof (rule rt_holds_moves [OF h])
  fix Q assume Q: "rt_good E U s Q" "\<And>p. rt_on Q (TaskRtSe p) \<longleftrightarrow> p \<in> M"
  have "(\<exists>k. q \<in> set (removeAll p (rt_tasks Q k))) \<longleftrightarrow> q \<in> M - {p}" for q
    using rt_tasks_on [of q Q] Q(2) [of q] by auto
  then show "\<exists>T. rt_moves E U s T (dequeue_task_rt E p flags s) \<and>
      (\<forall>q. (\<exists>k. q \<in> set (T k)) \<longleftrightarrow> q \<in> M - {p})"
    using dequeue_task_rt_moves [OF Q(1), of p flags] c unfolding rt_can_def rt_curr_ok_def by blast
qed (use h in \<open>auto simp: rt_holds_def\<close>)

lemma rt_took_law: "rt_holds E U s M \<Longrightarrow> rt_holds E U (stamp_exec_start p s) M"
  unfolding stamp_exec_start_def
  by (erule rt_holds_keeps, erule rt_keeps_upd_task) (simp add: task_core_def)

interpretation rt_cl: queued_class "rt_holds E U" "rt_offers E U" "rt_best E U" stamp_exec_start
  "pick_next_task_rt E" not_rt "rt_can U" "enqueue_task_rt E" "dequeue_task_rt E"
  by unfold_locales (rule rt_pick_laws rt_enq_law rt_deq_law rt_took_law rt_holds_outside, assumption+)+


lemma wrr_holdsI: "wrr_inv E s ts \<Longrightarrow> set ts = M \<Longrightarrow> M \<subseteq> {..<max_tasks} \<Longrightarrow> wrr_holds E s M"
  by (auto simp: wrr_holds_def)

lemma wrr_holdsE:
  assumes "wrr_holds E s M"
  obtains ts where "wrr_inv E s ts" "set ts = M" "set ts \<subseteq> {..<max_tasks}"
  using assms by (auto simp: wrr_holds_def)

lemma wrr_holds_outside: "wrr_holds E s M \<Longrightarrow> not_wrr s s' \<Longrightarrow> wrr_holds E s' M"
proof -
  assume h: "wrr_holds E s M" and n: "not_wrr s s'"
  obtain ts where ts: "wrr_inv E s ts" "set ts = M" "set ts \<subseteq> {..<max_tasks}"
    by (rule wrr_holdsE [OF h])
  note w = wrr_invD [OF ts(1)]
  have "on_queue WrrRun (links s') WrrQueue ts"
    by (rule on_queue_cong [OF w(2)]) (use n in \<open>auto simp: not_wrr_def rt_node_def\<close>)
  then have "wrr_inv E s' ts" using w n by (simp add: wrr_inv_def not_wrr_def)
  then show ?thesis by (rule wrr_holdsI) (use ts in simp_all)
qed

lemma wrr_pick_laws:
  assumes "wrr_holds E s M"
  shows "wrr_offers E s \<subseteq> M" and "wrr_offers E s = {} \<Longrightarrow> pick_next_task_wrr s = Some (s, None)"
    and "wrr_offers E s \<noteq> {} \<Longrightarrow> \<exists>p\<in>wrr_offers E s. wrr_head E s p \<and>
      pick_next_task_wrr s = Some (stamp_exec_start p s, Some p)"
proof -
  obtain ts where ts: "wrr_inv E s ts" "set ts = M" by (rule wrr_holdsE [OF assms])
  note o = wrr_offers_eq [OF ts(1)] and k = pick_next_wrr [OF ts(1)]
  show "wrr_offers E s \<subseteq> M" using o ts(2) by simp
  show "wrr_offers E s = {} \<Longrightarrow> pick_next_task_wrr s = Some (s, None)" using k unfolding o by simp
  show "wrr_offers E s \<noteq> {} \<Longrightarrow> \<exists>p\<in>wrr_offers E s. wrr_head E s p \<and>
      pick_next_task_wrr s = Some (stamp_exec_start p s, Some p)"
    using k ts(1) unfolding o stamp_exec_start_def wrr_head_def by (cases ts) auto
qed

lemma wrr_enq_law:
  assumes h: "wrr_holds E s M" and p: "p \<notin> M" and c: "wrr_can s p"
  shows "wrr_holds E (enqueue_task_wrr E p flags s) (insert p M)"
proof -
  obtain ts where ts: "wrr_inv E s ts" "set ts = M" "set ts \<subseteq> {..<max_tasks}"
    by (rule wrr_holdsE [OF h])
  have room: "Suc (length (removeAll p ts)) < 2 ^ 32"
    using ts(3) wrr_inv_distinct [OF ts(1)] by (intro max_tasks_room) (auto simp: distinct_removeAll)
  show ?thesis
    by (rule wrr_holdsI [OF wrr_inv_enqueue_task [OF ts(1) room]])
      (use ts c p in \<open>auto simp: wrr_can_def\<close>)
qed

lemma wrr_deq_law:
  assumes h: "wrr_holds E s M"
  shows "wrr_holds E (dequeue_task_wrr E p flags s) (M - {p})"
proof -
  obtain ts where ts: "wrr_inv E s ts" "set ts = M" "set ts \<subseteq> {..<max_tasks}"
    by (rule wrr_holdsE [OF h])
  show ?thesis
    by (rule wrr_holdsI [OF wrr_inv_dequeue_task(1) [OF ts(1)]]) (use ts in auto)
qed

lemma wrr_took_law: "wrr_holds E s M \<Longrightarrow> wrr_holds E (stamp_exec_start p s) M"
  by (simp add: wrr_holds_def stamp_exec_start_def)

interpretation wrr_cl: queued_class "wrr_holds E" "wrr_offers E" "wrr_head E" stamp_exec_start
  pick_next_task_wrr not_wrr wrr_can "enqueue_task_wrr E" "dequeue_task_wrr E"
  by unfold_locales (rule wrr_pick_laws wrr_enq_law wrr_deq_law wrr_took_law wrr_holds_outside, assumption+)+

text \<open>The other handlers of the two classes keep their queues.\<close>

lemma rt_holds_only:
  assumes h: "rt_holds E U s M"
    and k: "\<And>Q. rt_good E U s Q \<Longrightarrow> (\<And>p. rt_on Q (TaskRtSe p) \<longleftrightarrow> p \<in> M) \<Longrightarrow> \<exists>T. rt_moves E U s T s'"
  shows "not_wrr s s'"
proof -
  obtain Q where Q: "rt_good E U s Q" "\<And>p. rt_on Q (TaskRtSe p) \<longleftrightarrow> p \<in> M"
    by (rule rt_holdsE [OF h]) blast
  from k [OF this] show ?thesis by (auto simp: rt_moves_def intro: rt_only_not_wrr)
qed

lemma rt_handlers_not_wrr:
  assumes h: "rt_holds E U s M" and c: "rt_curr_ok U s"
  shows "not_wrr s (update_curr_rt E s)" "not_wrr s (set_curr_task_rt s)"
    "not_wrr s (check_preempt_curr_rt p flags s)" "not_wrr s (switched_to_rt p s)"
    "not_wrr s (prio_changed_rt p oldprio s)"
    "rt_group_ok U g \<Longrightarrow> not_wrr s (fst (do_sched_rt_period_timer E g n s))"
    "rt_task_ok U s p \<Longrightarrow> not_wrr s (task_tick_rt E p queued s)"
    "rt_task_ok U s p \<Longrightarrow> not_wrr s (requeue_task_rt E p head s)"
    "rt_can U s p \<Longrightarrow> p \<notin> M \<Longrightarrow> not_wrr s (enqueue_task_rt E p flags s)"
    "rt_can U s p \<Longrightarrow> not_wrr s (dequeue_task_rt E p flags s)"
  using rt_holds_only [OF h] update_curr_rt_keeps set_curr_task_rt_keeps rt_notice_keeps
    do_sched_rt_period_timer_keeps task_tick_rt_moves requeue_task_rt_moves enqueue_task_rt_moves
    dequeue_task_rt_moves c
  unfolding rt_curr_ok_def rt_can_def rt_keeps_moves by metis+

lemma rt_holds_handlers:
  assumes h: "rt_holds E U s M" and c: "rt_curr_ok U s"
  shows "rt_holds E U (update_curr_rt E s) M" "rt_holds E U (set_curr_task_rt s) M"
    "rt_holds E U (check_preempt_curr_rt p flags s) M" "rt_holds E U (switched_to_rt p s) M"
    "rt_holds E U (prio_changed_rt p oldprio s) M"
    "rt_group_ok U g \<Longrightarrow> rt_holds E U (fst (do_sched_rt_period_timer E g n s)) M"
  using rt_holds_keeps [OF h] update_curr_rt_keeps set_curr_task_rt_keeps rt_notice_keeps
    do_sched_rt_period_timer_keeps c
  unfolding rt_curr_ok_def by metis+

lemma move_task_members:
  "(\<exists>k. q \<in> set (move_task s head e T k)) \<longleftrightarrow> (\<exists>k. q \<in> set (T k))"
proof (cases e)
  case (TaskRtSe p)
  then show ?thesis
  proof (cases "p \<in> set (T (rt_place s p))")
    case True
    then have "set (move_to head p (T (rt_place s p))) = insert p (set (T (rt_place s p)))"
      by (auto simp: move_to_def insert_at_def)
    from ex_in_updated [where f = T and q = q, OF this] True TaskRtSe show ?thesis
      unfolding move_task_def by auto
  next
    case False
    then show ?thesis using TaskRtSe by (simp add: move_task_def move_to_def)
  qed
qed (simp add: move_task_def)

lemma rt_holds_tick:
  assumes h: "rt_holds E U s M" and p: "rt_task_ok U s p" and c: "rt_curr_ok U s"
  shows "rt_holds E U (task_tick_rt E p queued s) M" "rt_holds E U (requeue_task_rt E p head s) M"
proof -
  have m: "q \<in> M \<Longrightarrow> t_sched_class (tasks s q) = Rt_class" for q using h by (auto simp: rt_holds_def)
  have mem: "(\<exists>k. q \<in> set (rt_tasks Q k)) \<longleftrightarrow> q \<in> M"
    "(\<exists>k. q \<in> set (move_task s hd' e (rt_tasks Q) k)) \<longleftrightarrow> q \<in> M"
    if "\<And>p. rt_on Q (TaskRtSe p) \<longleftrightarrow> p \<in> M" for Q q hd' e
    using that unfolding move_task_members rt_tasks_on by simp_all
  show "rt_holds E U (task_tick_rt E p queued s) M"
    by (rule rt_holds_moves [OF h m], assumption)
      (use task_tick_rt_moves [of E U s _ p queued] p c mem in \<open>unfold rt_curr_ok_def, metis\<close>)
  show "rt_holds E U (requeue_task_rt E p head s) M"
    by (rule rt_holds_moves [OF h m], assumption)
      (use requeue_task_rt_moves [of E U s _ p head] p mem in metis)
qed

lemma wrr_holds_requeue:
  assumes "wrr_holds E s M"
  shows "wrr_holds E (requeue_task_wrr E p k s) M"
proof -
  obtain ts where ts: "wrr_inv E s ts" "set ts = M" "set ts \<subseteq> {..<max_tasks}"
    by (rule wrr_holdsE [OF assms])
  show ?thesis
  proof (cases "p \<in> set ts")
    case True
    show ?thesis
      by (rule wrr_holdsI [OF wrr_inv_requeue_task [OF ts(1) True]]) (use ts True in auto)
  qed (use assms requeue_task_wrr_other [OF ts(1)] in simp)
qed

lemma wrr_holds_tick:
  assumes "wrr_holds E s M"
  shows "wrr_holds E (task_tick_wrr E p queued s) M"
proof -
  obtain ts where ts: "wrr_inv E s ts" "set ts = M" "set ts \<subseteq> {..<max_tasks}"
    by (rule wrr_holdsE [OF assms])
  show ?thesis
    by (rule wrr_holdsI [OF wrr_inv_tick [OF ts(1)]]) (use ts in auto)
qed

end
