(* ===== verification/Kernel_Inv.thy ===== *)
theory Kernel_Inv
  imports System
begin

text \<open>
  The invariant of the whole scheduler, over the queues of the real-time and the round-robin
  class, the fair class and the core's counters, and what each handler of a class does to it.
  The fair, idle and stop classes are outside the repository: \<open>classes_contract\<close> says what their
  handlers promise.
\<close>

section \<open>Code outside the repository\<close>

definition foreign :: "'x fair_inv \<Rightarrow> 'x sys \<Rightarrow> 'x sys \<Rightarrow> bool" where
  "foreign J s s' \<longleftrightarrow> quiet J s s' \<and> not_rt s s' \<and> not_wrr s s'"

text \<open>The handlers of a class that only tell it something.\<close>

definition notices_foreign :: "'x fair_inv \<Rightarrow> 'x class_ops \<Rightarrow> bool" where
  "notices_foreign J c \<longleftrightarrow> (\<forall>s p flags. foreign J s (co_check_preempt_curr c p flags s)) \<and>
     (\<forall>s. foreign J s (co_yield_task c s)) \<and> (\<forall>s p. foreign J s (co_put_prev_task c p s)) \<and>
     (\<forall>s. foreign J s (co_set_curr_task c s)) \<and> (\<forall>s p queued. foreign J s (co_task_tick c p queued s)) \<and>
     (\<forall>s p. foreign J s (co_switched_to c p s)) \<and> (\<forall>s p prio. foreign J s (co_prio_changed c p prio s)) \<and>
     (\<forall>f s p. co_switched_from c = Some f \<longrightarrow> foreign J s (f p s)) \<and>
     (\<forall>f s p. co_task_fork c = Some f \<longrightarrow> foreign J s (f p s))"

text \<open>
  The fair class queues and dequeues what it is told to, counts it, and picks a task of its queue;
  the idle class always has the idle task; there is no stop task. The classes are in order.
\<close>

definition classes_contract :: "'x env \<Rightarrow> 'x fair_inv \<Rightarrow> bool" where
  "classes_contract E J \<longleftrightarrow>
     (let fair = x_class E Fair_class; idle = x_class E Idle_class; stop = x_class E Stop_class in
      co_next stop = Some Rt_class \<and> co_next fair = Some Idle_class \<and> co_next idle = None \<and>
      notices_foreign J fair \<and> notices_foreign J idle \<and>
      (\<forall>x F. J x F \<longrightarrow> x_cfs_h_nr_running E x = of_nat (card F)) \<and>
      (\<forall>s F p flags. J (ext s) F \<longrightarrow> p \<notin> F \<longrightarrow> (let s' = co_enqueue_task fair p flags s in
         quiet0 s s' \<and> not_rt s s' \<and> not_wrr s s' \<and> J (ext s') (insert p F) \<and>
         rq_nr_running (the_rq s') = rq_nr_running (the_rq s) + 1)) \<and>
      (\<forall>s F p flags. J (ext s) F \<longrightarrow> p \<in> F \<longrightarrow> (let s' = co_dequeue_task fair p flags s in
         quiet0 s s' \<and> not_rt s s' \<and> not_wrr s s' \<and> J (ext s') (F - {p}) \<and>
         rq_nr_running (the_rq s') = rq_nr_running (the_rq s) - 1)) \<and>
      (\<forall>s. J (ext s) {} \<longrightarrow> co_pick_next_task fair s = Some (s, None)) \<and>
      (\<forall>s F. J (ext s) F \<longrightarrow> F \<noteq> {} \<longrightarrow>
         (\<exists>s' p. p \<in> F \<and> co_pick_next_task fair s = Some (s', Some p) \<and> foreign J s s')) \<and>
      (\<forall>s. \<exists>s'. co_pick_next_task idle s = Some (s', Some (rq_idle (the_rq s))) \<and> foreign J s s') \<and>
      (\<forall>s. rq_stop (the_rq s) = None \<longrightarrow> co_pick_next_task stop s = Some (s, None)))"

section \<open>The invariant of the scheduler\<close>

text \<open>
  \<open>kernel_inv E U J A s\<close>: exactly the tasks \<open>A\<close> are queued, each with its class, and the run queue
  counts them. \<open>U\<close> is the set of entities that exist; its tasks are set up for their group and
  have a class that fits them.
\<close>

definition live :: "rt_se_ptr set \<Rightarrow> task_ptr set" where
  "live U = {p. TaskRtSe p \<in> U}"

definition task_ok :: "rt_se_ptr set \<Rightarrow> 'x sys \<Rightarrow> task_ptr \<Rightarrow> bool" where
  "task_ok U s p \<longleftrightarrow> p < max_tasks \<and> rt_task_ok U s p \<and> t_sched_class (tasks s p) \<noteq> Stop_class \<and>
     (t_sched_class (tasks s p) = Idle_class \<longleftrightarrow> p = rq_idle (the_rq s)) \<and>
     (t_sched_class (tasks s p) = Rt_class \<longrightarrow> 0 \<le> t_prio (tasks s p) \<and> t_prio (tasks s p) < 100) \<and>
     100 \<le> t_static_prio (tasks s p) \<and> t_static_prio (tasks s p) < 140 \<and> 0 \<le> t_normal_prio (tasks s p)"

abbreviation of_class :: "task_ptr set \<Rightarrow> 'x sys \<Rightarrow> sched_class \<Rightarrow> task_ptr set" where
  "of_class A s c \<equiv> {p \<in> A. t_sched_class (tasks s p) = c}"

definition kernel_inv ::
  "'x env \<Rightarrow> rt_se_ptr set \<Rightarrow> 'x fair_inv \<Rightarrow> task_ptr set \<Rightarrow> 'x sys \<Rightarrow> bool" where
  "kernel_inv E U J A s \<longleftrightarrow>
     rt_holds E U s (of_class A s Rt_class) \<and> wrr_holds E s (of_class A s Wrr_class) \<and>
     J (ext s) (of_class A s Fair_class) \<and> rq_nr_running (the_rq s) = of_nat (card A) \<and>
     A \<subseteq> live U - {rq_idle (the_rq s)} \<and> (\<forall>p\<in>live U. task_ok U s p) \<and>
     rq_curr (the_rq s) \<in> live U \<and> rq_idle (the_rq s) \<in> live U \<and> rq_stop (the_rq s) = None"

lemma kernel_invD:
  assumes "kernel_inv E U J A s"
  shows "rt_holds E U s (of_class A s Rt_class)" "wrr_holds E s (of_class A s Wrr_class)"
    "J (ext s) (of_class A s Fair_class)" "rq_nr_running (the_rq s) = of_nat (card A)"
    "A \<subseteq> live U" "rq_idle (the_rq s) \<notin> A" "p \<in> live U \<Longrightarrow> task_ok U s p"
    "rq_curr (the_rq s) \<in> live U" "rq_idle (the_rq s) \<in> live U" "rq_stop (the_rq s) = None"
  using assms by (auto simp: kernel_inv_def)

lemma task_ok_core:
  assumes "sys_core (tasks s' p) = sys_core (tasks s p)" and "rq_idle (the_rq s') = rq_idle (the_rq s)"
  shows "task_ok U s' p \<longleftrightarrow> task_ok U s p"
  using sys_coreD [OF assms(1)] assms(2) by (auto simp: task_ok_def rt_task_ok_def)

text \<open>A step that keeps the tasks' core and leaves \<open>A'\<close> in the queues of the classes.\<close>

definition requeued ::
  "'x env \<Rightarrow> rt_se_ptr set \<Rightarrow> 'x fair_inv \<Rightarrow> task_ptr set \<Rightarrow> 'x sys \<Rightarrow> 'x sys \<Rightarrow> bool" where
  "requeued E U J A' s s' \<longleftrightarrow> kernel_inv E U J A' s' \<and> quiet0 s s' \<and>
     (\<forall>p. sys_core (tasks s' p) = sys_core (tasks s p))"

lemma kernel_inv_moved:
  assumes i: "kernel_inv E U J A s" and q: "quiet0 s s'"
    and c: "\<And>p. sys_core (tasks s' p) = sys_core (tasks s p)"
    and n: "rq_nr_running (the_rq s') = of_nat (card A')" and A': "A' \<subseteq> live U - {rq_idle (the_rq s)}"
    and rt: "rt_holds E U s' (of_class A' s Rt_class)" and wrr: "wrr_holds E s' (of_class A' s Wrr_class)"
    and fair: "J (ext s') (of_class A' s Fair_class)"
  shows "requeued E U J A' s s'"
proof -
  note d = kernel_invD [OF i]
  have cls: "of_class B s' k = of_class B s k" for k B using sys_coreD(2) [OF c] by simp
  have "\<forall>p\<in>live U. task_ok U s' p"
    using d(7) task_ok_core [OF c] q by (simp add: quiet0_def)
  then have "kernel_inv E U J A' s'"
    using d rt wrr fair n A' q unfolding kernel_inv_def cls quiet0_def by auto
  then show ?thesis using q c by (simp add: requeued_def)
qed

lemma kernel_inv_step:
  assumes i: "kernel_inv E U J A s" and q: "quiet J s s'"
    and c: "\<And>p. sys_core (tasks s' p) = sys_core (tasks s p)"
    and rt: "rt_holds E U s' (of_class A s Rt_class)" and wrr: "wrr_holds E s' (of_class A s Wrr_class)"
  shows "kernel_inv E U J A s'"
proof -
  have "requeued E U J A s s'"
    by (rule kernel_inv_moved [OF i _ c _ _ rt wrr]) (use q i in \<open>auto simp: quiet_def kernel_inv_def\<close>)
  then show ?thesis by (simp add: requeued_def)
qed

lemma kernel_inv_foreign:
  assumes i: "kernel_inv E U J A s" and f: "foreign J s s'"
  shows "kernel_inv E U J A s'"
  using rt_holds_outside [OF kernel_invD(1) [OF i]] wrr_holds_outside [OF kernel_invD(2) [OF i]] f
  by (intro kernel_inv_step [OF i]) (auto simp: foreign_def not_rt_def)

lemma kernel_curr_ok:
  assumes "kernel_inv E U J A s"
  shows "rt_curr_ok U s"
  using kernel_invD(7) [OF assms kernel_invD(8) [OF assms]] by (simp add: rt_curr_ok_def task_ok_def)


section \<open>Queueing through the class\<close>

lemma classes_contractD:
  assumes "classes_contract E J"
  shows "co_next (x_class E Stop_class) = Some Rt_class" "co_next (x_class E Fair_class) = Some Idle_class"
    "co_next (x_class E Idle_class) = None" "notices_foreign J (x_class E Fair_class)"
    "notices_foreign J (x_class E Idle_class)" "J x F \<Longrightarrow> x_cfs_h_nr_running E x = of_nat (card F)"
    "J (ext s) {} \<Longrightarrow> co_pick_next_task (x_class E Fair_class) s = Some (s, None)"
    "J (ext s) F \<Longrightarrow> F \<noteq> {} \<Longrightarrow> \<exists>s' p. p \<in> F \<and>
       co_pick_next_task (x_class E Fair_class) s = Some (s', Some p) \<and> foreign J s s'"
    "\<exists>s'. co_pick_next_task (x_class E Idle_class) s = Some (s', Some (rq_idle (the_rq s))) \<and> foreign J s s'"
    "rq_stop (the_rq s) = None \<Longrightarrow> co_pick_next_task (x_class E Stop_class) s = Some (s, None)"
  using assms by (simp_all add: classes_contract_def Let_def)

lemma fair_queueing:
  assumes "classes_contract E J" and "J (ext s) F"
  shows "p \<notin> F \<Longrightarrow> s' = co_enqueue_task (x_class E Fair_class) p flags s \<Longrightarrow>
      quiet0 s s' \<and> not_rt s s' \<and> not_wrr s s' \<and> J (ext s') (insert p F) \<and>
      rq_nr_running (the_rq s') = rq_nr_running (the_rq s) + 1"
    and "p \<in> F \<Longrightarrow> s' = co_dequeue_task (x_class E Fair_class) p flags s \<Longrightarrow>
      quiet0 s s' \<and> not_rt s s' \<and> not_wrr s s' \<and> J (ext s') (F - {p}) \<and>
      rq_nr_running (the_rq s') = rq_nr_running (the_rq s) - 1"
  using assms by (simp_all add: classes_contract_def Let_def)

lemma counted:
  assumes "\<exists>t. quiet J s t \<and> s' = f t"
  shows "f = inc_nr_running \<Longrightarrow> quiet0 s s' \<and> rq_nr_running (the_rq s') = rq_nr_running (the_rq s) + 1 \<and>
      (J (ext s) F \<longrightarrow> J (ext s') F)"
    and "f = dec_nr_running \<Longrightarrow> quiet0 s s' \<and> rq_nr_running (the_rq s') = rq_nr_running (the_rq s) - 1 \<and>
      (J (ext s) F \<longrightarrow> J (ext s') F)"
  using assms by (auto simp: quiet_def quiet0_def inc_nr_running_def dec_nr_running_def)

lemma not_wrr_core: "not_wrr s s' \<Longrightarrow> sys_core (tasks s' p) = sys_core (tasks s p)"
  and not_rt_core: "not_rt s s' \<Longrightarrow> sys_core (tasks s' p) = sys_core (tasks s p)"
  by (simp_all add: not_wrr_def not_rt_def)

lemma class_of_simps [simp]:
  "class_of E Rt_class = rt_sched_class E" "class_of E Wrr_class = wrr_sched_class E"
  "class_of E Fair_class = x_class E Fair_class" "class_of E Idle_class = x_class E Idle_class"
  "class_of E Stop_class = x_class E Stop_class"
  by (simp_all add: class_of_def)

lemma finite_live: "kernel_inv E U J A s \<Longrightarrow> finite (live U)"
proof -
  assume "kernel_inv E U J A s"
  then have "live U \<subseteq> {..<max_tasks}" using kernel_invD(7) by (fastforce simp: task_ok_def)
  then show ?thesis by (rule finite_subset) simp
qed

lemma class_cases:
  assumes "task_ok U s p" and "p \<noteq> rq_idle (the_rq s)"
  obtains "t_sched_class (tasks s p) = Rt_class" | "t_sched_class (tasks s p) = Wrr_class"
    | "t_sched_class (tasks s p) = Fair_class"
  using assms by (cases "t_sched_class (tasks s p)") (auto simp: task_ok_def)

lemma kernel_can:
  assumes "kernel_inv E U J A s" and "p \<in> live U"
  shows "t_sched_class (tasks s p) = Rt_class \<Longrightarrow> rt_can U s p" "wrr_can s p"
  using kernel_invD(7) [OF assms] kernel_curr_ok [OF assms(1)]
  by (simp_all add: rt_can_def wrr_can_def task_ok_def)

lemma kernel_class_enqueue:
  assumes e: "env_ok E J" and cc: "classes_contract E J" and i: "kernel_inv E U J A s"
    and p: "p \<in> live U" "p \<noteq> rq_idle (the_rq s)" "p \<notin> A"
  shows "requeued E U J (insert p A) s (co_enqueue_task (task_class E s p) p flags s)"
proof -
  note d = kernel_invD [OF i]
  let ?s = "co_enqueue_task (task_class E s p) p flags s"
  have card: "of_nat (card (insert p A)) = rq_nr_running (the_rq s) + (1 :: ulong)"
    using d(4,5) p(3) finite_live [OF i] by (simp add: finite_subset)
  have sub: "insert p A \<subseteq> live U - {rq_idle (the_rq s)}" using d(5,6) p by auto
  have ins: "of_class (insert p A) s k =
      (if t_sched_class (tasks s p) = k then insert p (of_class A s k) else of_class A s k)" for k by auto
  have off: "p \<notin> of_class A s k" for k using p(3) by simp
  show ?thesis
  proof (cases rule: class_cases [OF d(7) [OF p(1)] p(2)])
    case 1
    note c = kernel_can(1) [OF i p(1) 1]
    have s: "?s = enqueue_task_rt E p flags s" using 1 by (simp add: task_class_def rt_sched_class_def)
    note n = rt_handlers_not_wrr(9) [OF d(1) kernel_curr_ok [OF i] c off, of flags]
    note q = counted(1) [OF enqueue_task_rt_quiet [OF e] refl]
    show ?thesis
      unfolding s using 1 q rt_cl.enq_law [OF d(1) off c] wrr_cl.outside_law [OF d(2) n] d(3)
      by (intro kernel_inv_moved [OF i _ not_wrr_core [OF n] _ sub]) (simp_all only: ins card, simp_all)
  next
    case 2
    obtain ts where ts: "wrr_inv E s ts" by (rule wrr_holdsE [OF d(2)])
    have s: "?s = enqueue_task_wrr E p flags s" using 2 by (simp add: task_class_def wrr_sched_class_def)
    note n = wrr_task_not_rt(1) [OF ts, of p flags]
    note q = counted(1) [OF enqueue_task_wrr_quiet [where J = J and E = E and p = p and flags = flags and s = s] refl]
    show ?thesis
      unfolding s using 2 q wrr_cl.enq_law [OF d(2) off kernel_can(2) [OF i p(1)]]
        rt_cl.outside_law [OF d(1) n] d(3)
      by (intro kernel_inv_moved [OF i _ not_rt_core [OF n] _ sub]) (simp_all only: ins card, simp_all)
  next
    case 3
    have s: "?s = co_enqueue_task (x_class E Fair_class) p flags s" using 3 by (simp add: task_class_def)
    note f = fair_queueing(1) [OF cc d(3) off s]
    show ?thesis
      using 3 f rt_cl.outside_law [OF d(1)] wrr_cl.outside_law [OF d(2)]
      by (intro kernel_inv_moved [OF i _ not_rt_core _ sub]) (simp_all only: ins card, simp_all)
  qed
qed


lemma kernel_class_dequeue:
  assumes e: "env_ok E J" and cc: "classes_contract E J" and i: "kernel_inv E U J A s" and p: "p \<in> A"
  shows "requeued E U J (A - {p}) s (co_dequeue_task (task_class E s p) p flags s)"
proof -
  note d = kernel_invD [OF i]
  let ?s = "co_dequeue_task (task_class E s p) p flags s"
  have fin: "finite A" using finite_subset [OF d(5) finite_live [OF i]] .
  have "card A = Suc (card (A - {p}))" using card_Suc_Diff1 [OF fin p] by simp
  then have card: "of_nat (card (A - {p})) = rq_nr_running (the_rq s) - (1 :: ulong)"
    unfolding d(4) by simp
  have l: "p \<in> live U" "p \<noteq> rq_idle (the_rq s)" using d(5,6) p by auto
  have sub: "A - {p} \<subseteq> live U - {rq_idle (the_rq s)}" using d(5,6) by auto
  have del: "of_class (A - {p}) s k =
      (if t_sched_class (tasks s p) = k then of_class A s k - {p} else of_class A s k)" for k by auto
  have on: "t_sched_class (tasks s p) = k \<Longrightarrow> p \<in> of_class A s k" for k using p by simp
  show ?thesis
  proof (cases rule: class_cases [OF d(7) [OF l(1)] l(2)])
    case 1
    note c = kernel_can(1) [OF i l(1) 1]
    have s: "?s = dequeue_task_rt E p flags s" using 1 by (simp add: task_class_def rt_sched_class_def)
    note n = rt_handlers_not_wrr(10) [OF d(1) kernel_curr_ok [OF i] c, of flags]
    note q = counted(2) [OF dequeue_task_rt_quiet [OF e] refl]
    show ?thesis
      unfolding s using 1 q rt_cl.deq_law [OF d(1) on [OF 1] c] wrr_cl.outside_law [OF d(2) n] d(3)
      by (intro kernel_inv_moved [OF i _ not_wrr_core [OF n] _ sub]) (simp_all only: del card, simp_all)
  next
    case 2
    obtain ts where ts: "wrr_inv E s ts" by (rule wrr_holdsE [OF d(2)])
    have s: "?s = dequeue_task_wrr E p flags s" using 2 by (simp add: task_class_def wrr_sched_class_def)
    note n = wrr_task_not_rt(2) [OF ts, of p flags]
    note q = counted(2) [OF dequeue_task_wrr_quiet [where J = J and E = E and p = p and flags = flags and s = s] refl]
    show ?thesis
      unfolding s using 2 q wrr_cl.deq_law [OF d(2) on [OF 2] kernel_can(2) [OF i l(1)]]
        rt_cl.outside_law [OF d(1) n] d(3)
      by (intro kernel_inv_moved [OF i _ not_rt_core [OF n] _ sub]) (simp_all only: del card, simp_all)
  next
    case 3
    have s: "?s = co_dequeue_task (x_class E Fair_class) p flags s" using 3 by (simp add: task_class_def)
    note f = fair_queueing(2) [OF cc d(3) on [OF 3] s]
    show ?thesis
      using 3 f rt_cl.outside_law [OF d(1)] wrr_cl.outside_law [OF d(2)]
      by (intro kernel_inv_moved [OF i _ not_rt_core _ sub]) (simp_all only: del card, simp_all)
  qed
qed

section \<open>Telling a class something\<close>

text \<open>\<open>notice_ok\<close>: the handler leaves the queued tasks and the core alone.\<close>

lemma kernel_inv_rt_handler:
  assumes i: "kernel_inv E U J A s" and q: "quiet J s s'" and n: "not_wrr s s'"
    and h: "rt_holds E U s' (of_class A s Rt_class)"
  shows "kernel_inv E U J A s'"
  by (rule kernel_inv_step [OF i q not_wrr_core [OF n] h wrr_cl.outside_law [OF kernel_invD(2) [OF i] n]])

lemma kernel_inv_wrr_handler:
  assumes i: "kernel_inv E U J A s" and q: "quiet J s s'" and n: "not_rt s s'"
    and h: "wrr_holds E s' (of_class A s Wrr_class)"
  shows "kernel_inv E U J A s'"
  by (rule kernel_inv_step [OF i q not_rt_core [OF n] rt_cl.outside_law [OF kernel_invD(1) [OF i] n] h])

lemma notices_foreignD:
  assumes "notices_foreign J c"
  shows "foreign J s (co_check_preempt_curr c p flags s)" "foreign J s (co_yield_task c s)"
    "foreign J s (co_put_prev_task c p s)" "foreign J s (co_set_curr_task c s)"
    "foreign J s (co_task_tick c p queued s)" "foreign J s (co_switched_to c p s)"
    "foreign J s (co_prio_changed c p prio s)"
    "co_switched_from c = Some f \<Longrightarrow> foreign J s (f p s)" "co_task_fork c = Some f \<Longrightarrow> foreign J s (f p s)"
  using assms by (simp_all add: notices_foreign_def)

text \<open>
  \<open>told E U J A s s'\<close>: the step from \<open>s\<close> to \<open>s'\<close> keeps the invariant, the tasks' core and what is
  queued, and is quiet.
\<close>

definition told ::
  "'x env \<Rightarrow> rt_se_ptr set \<Rightarrow> 'x fair_inv \<Rightarrow> task_ptr set \<Rightarrow> 'x sys \<Rightarrow> 'x sys \<Rightarrow> bool" where
  "told E U J A s s' \<longleftrightarrow> (kernel_inv E U J A s \<longrightarrow> kernel_inv E U J A s' \<and> quiet J s s' \<and>
     (\<forall>p. sys_core (tasks s' p) = sys_core (tasks s p)))"

lemma toldD:
  assumes "told E U J A s s'" and "kernel_inv E U J A s"
  shows "kernel_inv E U J A s'" "quiet J s s'" "sys_core (tasks s' p) = sys_core (tasks s p)"
  using assms by (auto simp: told_def)

lemma told_refl: "told E U J A s s"
  by (simp add: told_def)

lemma told_trans: "told E U J A s t \<Longrightarrow> told E U J A t u \<Longrightarrow> told E U J A s u"
  unfolding told_def using quiet_trans [of J s t u] by simp

lemma told_foreign: "foreign J s s' \<Longrightarrow> told E U J A s s'"
  unfolding told_def using kernel_inv_foreign [of E U J A s s'] not_rt_core [of s s']
  by (simp add: foreign_def)

lemma told_rt:
  assumes q: "quiet J s s'"
    and h: "\<And>M. rt_holds E U s M \<Longrightarrow> rt_curr_ok U s \<Longrightarrow> rt_task_ok U s (rq_curr (the_rq s)) \<Longrightarrow>
      not_wrr s s' \<and> rt_holds E U s' M"
  shows "told E U J A s s'"
  unfolding told_def
proof
  assume i: "kernel_inv E U J A s"
  have "rt_task_ok U s (rq_curr (the_rq s))"
    using kernel_invD(7) [OF i kernel_invD(8) [OF i]] by (simp add: task_ok_def)
  note n = h [OF kernel_invD(1) [OF i] kernel_curr_ok [OF i] this]
  show "kernel_inv E U J A s' \<and> quiet J s s' \<and> (\<forall>p. sys_core (tasks s' p) = sys_core (tasks s p))"
    using kernel_inv_rt_handler [OF i q conjunct1 [OF n] conjunct2 [OF n]] q
      not_wrr_core [OF conjunct1 [OF n]] by blast
qed

lemma told_wrr:
  assumes q: "quiet J s s'"
    and h: "\<And>ts M. wrr_inv E s ts \<Longrightarrow> wrr_holds E s M \<Longrightarrow> not_rt s s' \<and> wrr_holds E s' M"
  shows "told E U J A s s'"
  unfolding told_def
proof
  assume i: "kernel_inv E U J A s"
  obtain ts where ts: "wrr_inv E s ts" by (rule wrr_holdsE [OF kernel_invD(2) [OF i]])
  note n = h [OF ts kernel_invD(2) [OF i]]
  show "kernel_inv E U J A s' \<and> quiet J s s' \<and> (\<forall>p. sys_core (tasks s' p) = sys_core (tasks s p))"
    using kernel_inv_wrr_handler [OF i q conjunct1 [OF n] conjunct2 [OF n]] q
      not_rt_core [OF conjunct1 [OF n]] by blast
qed

text \<open>The handlers of the three classes by which a task can be queued, and of the idle class.\<close>

lemma rt_told:
  assumes e: "env_ok E J"
  shows "told E U J A s (update_curr_rt E s)" "told E U J A s (set_curr_task_rt s)"
    "told E U J A s (check_preempt_curr_rt p flags s)" "told E U J A s (switched_to_rt p s)"
    "told E U J A s (prio_changed_rt p oldprio s)" "told E U J A s (yield_task_rt E s)"
    "told E U J A s (task_tick_rt E (rq_curr (the_rq s)) queued s)"
    "rt_group_ok U g \<Longrightarrow> told E U J A s (fst (do_sched_rt_period_timer E g n s))"
proof -
  note k = rt_handlers_not_wrr and h = rt_holds_handlers and q = rt_notices_quiet
  show "told E U J A s (update_curr_rt E s)"
    by (rule told_rt [OF quiet_update_curr_rt [OF e quiet_refl] conjI [OF k(1) h(1)]])
  show "told E U J A s (set_curr_task_rt s)" by (rule told_rt [OF q(4) conjI [OF k(2) h(2)]])
  show "told E U J A s (check_preempt_curr_rt p flags s)" by (rule told_rt [OF q(1) conjI [OF k(3) h(3)]])
  show "told E U J A s (switched_to_rt p s)" by (rule told_rt [OF q(2) conjI [OF k(4) h(4)]])
  show "told E U J A s (prio_changed_rt p oldprio s)" by (rule told_rt [OF q(3) conjI [OF k(5) h(5)]])
  show "told E U J A s (task_tick_rt E (rq_curr (the_rq s)) queued s)"
    by (rule told_rt [OF task_tick_rt_quiet [OF e] conjI [OF k(7) rt_holds_tick(1)]])
  show "told E U J A s (yield_task_rt E s)"
    by (rule told_rt [OF q(5)], unfold yield_task_rt_def) (rule conjI [OF k(8) rt_holds_tick(2)])
  show "told E U J A s (fst (do_sched_rt_period_timer E g n s))" if "rt_group_ok U g"
    by (rule told_rt [OF period_timer_quiet [OF e] conjI [OF k(6) h(6)]]) (assumption | rule that)+
qed

lemma wrr_told:
  shows "told E U J A s (put_prev_task_wrr E p s)" "told E U J A s (set_curr_task_wrr s)"
    "told E U J A s (yield_task_wrr E s)"
    "t_sched_class (tasks s (rq_curr (the_rq s))) = Wrr_class \<Longrightarrow>
       told E U J A s (task_tick_wrr E (rq_curr (the_rq s)) queued s)"
proof -
  have h: "wrr_holds E (put_prev_task_wrr E p s) M \<longleftrightarrow> wrr_holds E s M"
    "wrr_holds E (set_curr_task_wrr s) M \<longleftrightarrow> wrr_holds E s M" for M
    by (simp_all add: wrr_holds_def put_prev_task_wrr_def set_curr_task_wrr_def)
  show "told E U J A s (put_prev_task_wrr E p s)" "told E U J A s (set_curr_task_wrr s)"
    by (rule told_wrr [OF wrr_quiet(3) conjI] told_wrr [OF wrr_quiet(2) conjI];
      use wrr_others_not_rt(3,4) h in \<open>simp; fail | blast\<close>)+
  show "told E U J A s (yield_task_wrr E s)"
    by (rule told_wrr [OF wrr_quiet(1) conjI [OF wrr_others_not_rt(2)]])
      (simp_all add: yield_task_wrr_def wrr_holds_requeue)
  show "told E U J A s (task_tick_wrr E (rq_curr (the_rq s)) queued s)"
    if "t_sched_class (tasks s (rq_curr (the_rq s))) = Wrr_class"
    by (rule told_wrr [OF task_tick_wrr_quiet conjI [OF wrr_others_not_rt(5) wrr_holds_tick]])
      (assumption | rule that)+
qed

lemmas wrr_idle_handlers = check_preempt_curr_wrr_def switched_to_wrr_def prio_changed_wrr_def
  switched_from_wrr_def

lemma class_told:
  assumes e: "env_ok E J" and cc: "classes_contract E J" and c: "c \<noteq> Stop_class"
  shows "told E U J A s (co_check_preempt_curr (class_of E c) p flags s)"
    "told E U J A s (co_put_prev_task (class_of E c) p s)" "told E U J A s (co_set_curr_task (class_of E c) s)"
    "told E U J A s (co_switched_to (class_of E c) p s)"
    "told E U J A s (co_prio_changed (class_of E c) p oldprio s)"
    "told E U J A s (case co_switched_from (class_of E c) of Some f \<Rightarrow> f p s | None \<Rightarrow> s)"
    "told E U J A s (case co_task_fork (class_of E c) of Some f \<Rightarrow> f p s | None \<Rightarrow> s)"
    "told E U J A s (co_yield_task (class_of E c) s)"
proof -
  note f = told_foreign [OF notices_foreignD(1)] told_foreign [OF notices_foreignD(2)]
    told_foreign [OF notices_foreignD(3)] told_foreign [OF notices_foreignD(4)]
    told_foreign [OF notices_foreignD(6)] told_foreign [OF notices_foreignD(7)]
    told_foreign [OF notices_foreignD(8)] told_foreign [OF notices_foreignD(9)]
  note r = rt_told [OF e] wrr_told told_refl f [OF classes_contractD(4) [OF cc]]
    f [OF classes_contractD(5) [OF cc]]
  note d = rt_sched_class_def wrr_sched_class_def put_prev_task_rt_def wrr_idle_handlers
  show "told E U J A s (co_check_preempt_curr (class_of E c) p flags s)"
    "told E U J A s (co_put_prev_task (class_of E c) p s)" "told E U J A s (co_set_curr_task (class_of E c) s)"
    "told E U J A s (co_switched_to (class_of E c) p s)"
    "told E U J A s (co_prio_changed (class_of E c) p oldprio s)"
    "told E U J A s (co_yield_task (class_of E c) s)"
    using c by (cases c; simp add: d r)+
  show "told E U J A s (case co_switched_from (class_of E c) of Some f \<Rightarrow> f p s | None \<Rightarrow> s)"
    "told E U J A s (case co_task_fork (class_of E c) of Some f \<Rightarrow> f p s | None \<Rightarrow> s)"
    using c by (cases c; simp add: d r split: option.split)+
qed

lemma class_tick_told:
  assumes "env_ok E J" and cc: "classes_contract E J"
    and "t_sched_class (tasks s (rq_curr (the_rq s))) = c" "c \<noteq> Stop_class"
  shows "told E U J A s (co_task_tick (class_of E c) (rq_curr (the_rq s)) queued s)"
  using assms(3,4) rt_told(7) [OF assms(1)] wrr_told(4)
    told_foreign [OF notices_foreignD(5) [OF classes_contractD(4) [OF cc]]]
    told_foreign [OF notices_foreignD(5) [OF classes_contractD(5) [OF cc]]]
  by (cases c) (simp_all add: rt_sched_class_def wrr_sched_class_def)

end
