(* ===== verification/Dispatch.thy ===== *)
theory Dispatch
  imports Kernel_Inv
begin

text \<open>
  The choice of the next task, \<open>pick_next_task\<close>: the loop over the classes takes a real-time task
  of the best priority that can run, else the head of the round-robin queue, else a fair task, else
  the idle task, and the shortcut for the fair class finds the same one.
\<close>

section \<open>The chain of the classes\<close>

lemma all_classes_eq:
  assumes "classes_contract E J"
  shows "all_classes E = [Stop_class, Rt_class, Wrr_class, Fair_class, Idle_class]"
  using classes_contractD(1-3) [OF assms]
  by (simp add: all_classes_def eval_nat_numeral rt_sched_class_def wrr_sched_class_def)

lemma pick_ops [simp]:
  "co_pick_next_task (rt_sched_class E) = pick_next_task_rt E"
  "co_pick_next_task (wrr_sched_class E) = pick_next_task_wrr"
  by (simp_all add: rt_sched_class_def wrr_sched_class_def)

section \<open>The loop over the classes\<close>

text \<open>
  \<open>chosen E U A s s' p\<close>: a pick may take \<open>p\<close> and lead to \<open>s'\<close> in a state where the tasks \<open>A\<close> are
  queued. A real-time task can be queued and not be offered, when its group is throttled.
\<close>

inductive chosen ::
  "'x env \<Rightarrow> rt_se_ptr set \<Rightarrow> task_ptr set \<Rightarrow> 'x sys \<Rightarrow> 'x sys \<Rightarrow> task_ptr \<Rightarrow> bool" for E U A s where
  rt: "chosen E U A s (stamp_exec_start p s) p" if "p \<in> rt_offers E U s" "rt_best E U s p"
| wrr: "chosen E U A s (stamp_exec_start p s) p" if "rt_offers E U s = {}" "wrr_head E s p"
| fair: "chosen E U A s s' p"
    if "rt_offers E U s = {}" "of_class A s Wrr_class = {}" "p \<in> of_class A s Fair_class"
      "co_pick_next_task (x_class E Fair_class) s = Some (s', Some p)"
| idle: "chosen E U A s s' (rq_idle (the_rq s))"
    if "rt_offers E U s = {}" "of_class A s Wrr_class = {}" "of_class A s Fair_class = {}"
      "co_pick_next_task (x_class E Idle_class) s = Some (s', Some (rq_idle (the_rq s)))"

inductive_cases chosen_cases: "chosen E U A s s' p"

lemma wrr_offers_holds: "wrr_holds E s M \<Longrightarrow> wrr_offers E s = M"
  using wrr_offers_eq by (auto elim!: wrr_holdsE)

lemma pick_loop_chosen:
  assumes cc: "classes_contract E J" and i: "kernel_inv E U J A s"
  shows "\<exists>s' p. pick_from E (all_classes E) s = Some (s', p) \<and> chosen E U A s s' p"
proof -
  note d = kernel_invD [OF i]
  note w = wrr_offers_holds [OF d(2)] and c = classes_contractD [OF cc]
  have stop: "co_pick_next_task (x_class E Stop_class) s = Some (s, None)" by (rule c(10) [OF d(10)])
  note loop = all_classes_eq [OF cc] pick_from.simps class_of_simps pick_ops stop option.case prod.case
  show ?thesis
  proof (cases "rt_offers E U s = {}")
    case False
    from rt_cl.some_law [OF d(1) this] obtain p where
      "p \<in> rt_offers E U s" "rt_best E U s p" "pick_next_task_rt E s = Some (stamp_exec_start p s, Some p)"
      by blast
    then show ?thesis by (simp only: loop) (blast intro: chosen.rt)
  next
    case rt: True
    note rtp = rt_cl.none_law [OF d(1) rt]
    show ?thesis
    proof (cases "wrr_offers E s = {}")
      case False
      from wrr_cl.some_law [OF d(2) this] obtain p where
        "wrr_head E s p" "pick_next_task_wrr s = Some (stamp_exec_start p s, Some p)" by blast
      then show ?thesis by (simp only: loop rtp) (blast intro: chosen.wrr [OF rt])
    next
      case wrr: True
      note wp = wrr_cl.none_law [OF d(2) wrr]
      show ?thesis
      proof (cases "of_class A s Fair_class = {}")
        case False
        from c(8) [OF d(3) False] obtain s' p where
          "p \<in> of_class A s Fair_class" "co_pick_next_task (x_class E Fair_class) s = Some (s', Some p)"
          by blast
        then show ?thesis
          by (simp only: loop rtp wp) (blast intro: chosen.fair [OF rt wrr [unfolded w]])
      next
        case True
        have "J (ext s) {}" using d(3) unfolding True .
        then have fair: "co_pick_next_task (x_class E Fair_class) s = Some (s, None)" by (rule c(7))
        obtain s' where "co_pick_next_task (x_class E Idle_class) s = Some (s', Some (rq_idle (the_rq s)))"
          using c(9) by blast
        then show ?thesis
          by (simp only: loop rtp wp fair) (blast intro: chosen.idle [OF rt wrr [unfolded w] True])
      qed
    qed
  qed
qed

section \<open>The shortcut\<close>

text \<open>When the counts agree every queued task is a fair one.\<close>

lemma counts_agree:
  assumes cc: "classes_contract E J" and i: "kernel_inv E U J A s"
    and n: "rq_nr_running (the_rq s) = x_cfs_h_nr_running E (ext s)"
  shows "of_class A s Fair_class = A"
proof -
  note d = kernel_invD [OF i]
  have fin: "finite A" by (rule finite_subset [OF d(5) finite_live [OF i]])
  have "live U \<subseteq> {..<max_tasks}" using d(7) by (fastforce simp: task_ok_def)
  then have "card A \<le> max_tasks"
    using card_mono [of "{..<max_tasks}" A] d(5) by auto
  then have small: "card A < 2 ^ 32" by (simp add: max_tasks_def)
  have le: "card (of_class A s Fair_class) \<le> card A" by (rule card_mono [OF fin]) auto
  have "(of_nat (card A) :: ulong) = of_nat (card (of_class A s Fair_class))"
    using n d(4) classes_contractD(6) [OF cc d(3)] by simp
  then have "unat (of_nat (card A) :: ulong) = unat (of_nat (card (of_class A s Fair_class)) :: ulong)"
    by simp
  then have "card A = card (of_class A s Fair_class)"
    using small le by (simp add: unat_of_nat)
  then show ?thesis by (intro card_subset_eq [OF fin]) auto
qed

lemma shortcut_same:
  assumes cc: "classes_contract E J" and i: "kernel_inv E U J A s"
  shows "pick_next_task E s = pick_from E (all_classes E) s"
proof (cases "rq_nr_running (the_rq s) = x_cfs_h_nr_running E (ext s)")
  case True
  note d = kernel_invD [OF i] and c = classes_contractD [OF cc]
  have all: "of_class A s Fair_class = A" by (rule counts_agree [OF cc i True])
  then have no: "of_class A s Rt_class = {}" "of_class A s Wrr_class = {}"
    by (auto dest!: equalityD2 [THEN subsetD])
  have stop: "co_pick_next_task (x_class E Stop_class) s = Some (s, None)" by (rule c(10) [OF d(10)])
  have rt: "pick_next_task_rt E s = Some (s, None)"
    using rt_cl.none_law [OF d(1)] rt_cl.offers_law [OF d(1)] no(1) by simp
  have wrr: "pick_next_task_wrr s = Some (s, None)"
    using wrr_cl.none_law [OF d(2)] wrr_cl.offers_law [OF d(2)] no(2) by simp
  have "pick_next_task E s = (case co_pick_next_task (x_class E Fair_class) s of
      None \<Rightarrow> None | Some (s, Some p) \<Rightarrow> Some (s, p) | Some (s, None) \<Rightarrow> pick_from E (all_classes E) s)"
    using True by (simp add: pick_next_task_def)
  moreover have "co_pick_next_task (x_class E Fair_class) s = Some (s, None) \<or>
      (\<exists>s' p. co_pick_next_task (x_class E Fair_class) s = Some (s', Some p))"
    using c(7) [of s] c(8) [OF d(3)] d(3) by (cases "of_class A s Fair_class = {}") force+
  ultimately show ?thesis
    using stop rt wrr by (auto simp: all_classes_eq [OF cc])
qed (simp add: pick_next_task_def)

lemma pick_next_task_chosen:
  "classes_contract E J \<Longrightarrow> kernel_inv E U J A s \<Longrightarrow>
   \<exists>s' p. pick_next_task E s = Some (s', p) \<and> chosen E U A s s' p"
  by (simp add: shortcut_same pick_loop_chosen)

text \<open>The pick changes nothing the invariant is about, and finds a queued task or the idle task.\<close>

lemma stamp_foreign: "foreign J s (stamp_exec_start p s)"
  by (simp add: foreign_def stamp_exec_start_def quiet_intros not_rt_def not_wrr_def sys_core_def)

lemma chosen_told:
  assumes cc: "classes_contract E J" and i: "kernel_inv E U J A s" and "chosen E U A s s' p"
  shows "told E U J A s s' \<and> (p \<in> A \<or> p = rq_idle (the_rq s))"
proof -
  note d = kernel_invD [OF i] and c = classes_contractD [OF cc]
  note st = told_foreign [OF stamp_foreign]
  show ?thesis
    using assms(3)
  proof cases
    case rt
    then show ?thesis using st rt_cl.offers_law [OF d(1)] by auto
  next
    case wrr
    then obtain ts where "wrr_inv E s (p # ts)" by (auto simp: wrr_head_def)
    from wrr_offers_eq [OF this] wrr_offers_holds [OF d(2)] show ?thesis using st wrr(1) by auto
  next
    case fair
    then have "of_class A s Fair_class \<noteq> {}" by blast
    from c(8) [OF d(3) this] fair(4) have "foreign J s s'" by auto
    then show ?thesis using told_foreign fair(3) by simp
  next
    case idle
    then have "foreign J s s'" using c(9) [of s] by auto
    then show ?thesis using told_foreign idle(1) by simp
  qed
qed

section \<open>Properties\<close>

text \<open>
  C35: The shortcut of pick_next_task for the case that all runnable tasks are in the fair class,
  recognised by equal counts, never changes its answer: it is that of the loop over the classes.
\<close>

theorem pick_next_task_shortcut:
  assumes "classes_contract E J" and "kernel_inv E U J A s"
  shows "pick_next_task E s = pick_from E (all_classes E) s"
  by (rule shortcut_same [OF assms])

text \<open>
  C3: The next task is a real-time task that can run, of the best priority of all those, if there is
  one; else the head of the round-robin queue, if any task is queued there; else a queued fair task,
  if there is one; else the idle task. pick_next_task always returns.
\<close>

theorem pick_next_task_order:
  assumes "classes_contract E J" and "kernel_inv E U J A s"
  shows "\<exists>s' p. pick_next_task E s = Some (s', p) \<and>
    (if rt_offers E U s \<noteq> {}
     then p \<in> rt_offers E U s \<and> (\<forall>q\<in>rt_offers E U s. t_prio (tasks s p) \<le> t_prio (tasks s q))
     else if of_class A s Wrr_class \<noteq> {} then \<exists>ts. wrr_inv E s (p # ts) \<and> set (p # ts) = of_class A s Wrr_class
     else if of_class A s Fair_class \<noteq> {} then p \<in> of_class A s Fair_class
     else p = rq_idle (the_rq s))"
proof -
  note d = kernel_invD [OF assms(2)]
  obtain s' p where p: "pick_next_task E s = Some (s', p)" and ch: "chosen E U A s s' p"
    using pick_next_task_chosen [OF assms] by blast
  show ?thesis
    using ch
  proof cases
    case rt
    then have "rt_offers E U s \<noteq> {}" by blast
    then show ?thesis using p rt by (simp add: rt_best_def)
  next
    case wrr
    then obtain ts where ts: "wrr_inv E s (p # ts)" by (auto simp: wrr_head_def)
    have eq: "set (p # ts) = of_class A s Wrr_class"
      by (rule trans [OF wrr_offers_eq [OF ts, symmetric] wrr_offers_holds [OF d(2)]])
    then have "of_class A s Wrr_class \<noteq> {}" by (metis list.set_intros(1) empty_iff)
    then show ?thesis using p wrr(2) ts eq by (simp only: if_not_P if_P not_not not_False_eq_True simp_thms) blast
  next
    case fair
    then have "of_class A s Fair_class \<noteq> {}" by blast
    then show ?thesis using p fair by (simp only: if_not_P if_P not_not not_False_eq_True simp_thms) blast
  next
    case idle
    then show ?thesis using p by (simp only: if_not_P not_not simp_thms) blast
  qed
qed

end
