(* ===== verification/Kernel.thy ===== *)
theory Kernel
  imports Dispatch
begin

text \<open>
  The operations of the core keep the invariant of the scheduler: wakeup and fork, a pass of
  \<open>__schedule\<close> and the switch of address spaces. \<open>Kernel_Ops\<close> and \<open>Regroup\<close> have the other operations.
\<close>

section \<open>Writes of the core\<close>

lemma kernel_inv_cong:
  assumes i: "kernel_inv E U J A s" and l: "links s' = links s" "rt_rqs s' = rt_rqs s"
    and t: "\<And>p. p \<in> live U \<Longrightarrow> sys_core ((tasks s' p)\<lparr>t_on_rq := 0\<rparr>) = sys_core ((tasks s p)\<lparr>t_on_rq := 0\<rparr>)"
    and r: "rq_wrr (the_rq s') = rq_wrr (the_rq s)" "rq_nr_running (the_rq s') = rq_nr_running (the_rq s)"
      "rq_idle (the_rq s') = rq_idle (the_rq s)" "rq_stop (the_rq s') = rq_stop (the_rq s)"
      "rq_curr (the_rq s') \<in> live U"
    and x: "\<And>F. J (ext s) F \<Longrightarrow> J (ext s') F"
  shows "kernel_inv E U J A s'"
proof -
  note d = kernel_invD [OF i]
  have c: "p \<in> live U \<Longrightarrow> t_sched_class (tasks s' p) = t_sched_class (tasks s p)"
    "p \<in> live U \<Longrightarrow> rse_rt_rq (t_rt (tasks s' p)) = rse_rt_rq (t_rt (tasks s p))"
    "p \<in> live U \<Longrightarrow> rse_parent (t_rt (tasks s' p)) = rse_parent (t_rt (tasks s p))"
    "p \<in> live U \<Longrightarrow> t_sched_class (tasks s p) = Rt_class \<Longrightarrow>
       t_prio (tasks s' p) = t_prio (tasks s p)"
    "p \<in> live U \<Longrightarrow> t_normal_prio (tasks s' p) = t_normal_prio (tasks s p)"
    "p \<in> live U \<Longrightarrow> t_static_prio (tasks s' p) = t_static_prio (tasks s p)" for p
    using sys_coreD [OF t, of p] by simp_all
  have A: "p \<in> A \<Longrightarrow> p \<in> live U" for p using d(5) by auto
  have cls: "of_class A s' k = of_class A s k" for k using c(1) A by auto
  obtain Q where Q: "rt_good E U s Q" "\<And>p. rt_on Q (TaskRtSe p) \<longleftrightarrow> p \<in> of_class A s Rt_class"
    by (rule rt_holdsE [OF d(1)]) blast
  have "rt_good E U s' Q"
    by (rule rt_good_outside [OF Q(1)]) (use l Q(2) c A in auto)
  then have rt: "rt_holds E U s' (of_class A s' Rt_class)"
    by (rule rt_holdsI) (use Q(2) cls in auto)
  have "wrr_inv E s' ts \<longleftrightarrow> wrr_inv E s ts" for ts by (rule wrr_inv_cong [OF l(1) r(1)])
  then have wrr: "wrr_holds E s' (of_class A s' Wrr_class)"
    using d(2) unfolding wrr_holds_def cls by simp
  have "rt_task_ok U s' p \<longleftrightarrow> rt_task_ok U s p" if "p \<in> live U" for p
    using c(2,3) [OF that] by (simp add: rt_task_ok_def)
  then have "\<forall>p\<in>live U. task_ok U s' p"
    using d(7) c r(3) by (simp add: task_ok_def)
  then show ?thesis
    using rt wrr d x r unfolding kernel_inv_def cls by auto
qed

text \<open>Fields the invariant does not read.\<close>

lemma kernel_inv_upd_task:
  assumes "kernel_inv E U J A s"
    and "\<And>t. sys_core ((f t)\<lparr>t_on_rq := 0\<rparr>) = sys_core (t\<lparr>t_on_rq := 0\<rparr>)"
  shows "kernel_inv E U J A (upd_task p f s)"
  by (rule kernel_inv_cong [OF assms(1)]) (use assms(2) kernel_invD(8) [OF assms(1)] in auto)

lemma kernel_inv_upd_rq:
  assumes "kernel_inv E U J A s"
    and "\<And>r. rq_wrr (f r) = rq_wrr r \<and> rq_nr_running (f r) = rq_nr_running r \<and> rq_idle (f r) = rq_idle r \<and>
      rq_stop (f r) = rq_stop r"
    and "rq_curr (f (the_rq s)) \<in> live U"
  shows "kernel_inv E U J A (upd_rq f s)"
  by (rule kernel_inv_cong [OF assms(1)]) (use assms(2,3) in auto)

text \<open>A task that is not queued may change its class and priorities, as long as they fit.\<close>

lemma kernel_inv_modify:
  assumes i: "kernel_inv E U J A s" and p: "p \<notin> A" and ok: "task_ok U (upd_task p f s) p"
  shows "kernel_inv E U J A (upd_task p f s)"
proof -
  note d = kernel_invD [OF i]
  let ?s = "upd_task p f s"
  have cls: "of_class A ?s k = of_class A s k" for k using p by auto
  obtain Q where Q: "rt_good E U s Q" "\<And>p. rt_on Q (TaskRtSe p) \<longleftrightarrow> p \<in> of_class A s Rt_class"
    by (rule rt_holdsE [OF d(1)]) blast
  have "rt_good E U ?s Q"
    by (rule rt_good_outside [OF Q(1)]) (use Q(2) p in auto)
  then have rt: "rt_holds E U ?s (of_class A ?s Rt_class)"
    by (rule rt_holdsI) (use Q(2) cls in auto)
  have "\<forall>q\<in>live U. task_ok U ?s q"
  proof
    fix q assume "q \<in> live U"
    moreover have "q \<noteq> p \<Longrightarrow> rt_task_ok U ?s q = rt_task_ok U s q" by (simp add: rt_task_ok_def)
    ultimately show "task_ok U ?s q" using d(7) [of q] ok
      by (cases "q = p") (simp_all add: task_ok_def)
  qed
  then show ?thesis
    using rt d unfolding kernel_inv_def cls by (auto simp: wrr_holds_def)
qed

section \<open>The clock, and queueing a task\<close>

lemma told_upd_rq:
  assumes "\<And>r. rq_wrr (f r) = rq_wrr r \<and> rq_nr_running (f r) = rq_nr_running r \<and> rq_idle (f r) = rq_idle r \<and>
      rq_stop (f r) = rq_stop r \<and> rq_curr (f r) = rq_curr r \<and> rq_prev_mm (f r) = rq_prev_mm r"
  shows "told E U J A s (upd_rq f s)"
  by (rule told_foreign) (use assms in \<open>simp add: foreign_def quiet_def quiet0_def not_rt_def not_wrr_def\<close>)

lemma told_ext: "(\<And>F. J (ext s) F \<Longrightarrow> J x F) \<Longrightarrow> told E U J A s (s\<lparr>ext := x\<rparr>)"
  by (rule told_foreign) (simp add: foreign_def quiet_def quiet0_def not_rt_def not_wrr_def)

lemma told_clock:
  assumes "env_ok E J"
  shows "told E U J A s (update_rq_clock E s)"
proof -
  obtain now x where nx: "x_sched_clock E (ext s) = (now, x)" by fastforce
  have "J (ext s) F \<Longrightarrow> J x F" for F using env_okD(1) [OF assms, of "ext s" F] nx by simp
  then have "told E U J A s (upd_rq (rq_clock_task_update f) (upd_rq (rq_clock_update g) (s\<lparr>ext := x\<rparr>)))"
    for f g
    by (intro told_trans [OF told_ext told_trans [OF told_upd_rq told_upd_rq]]) simp_all
  then show ?thesis
    unfolding update_rq_clock_def update_rq_clock_task_def Let_def nx prod.case by (simp add: told_refl)
qed

lemma requeued_told:
  assumes "kernel_inv E U J A s" and "told E U J A s t" and "kernel_inv E U J A t \<Longrightarrow> requeued E U J A' t u"
  shows "requeued E U J A' s u"
proof -
  note d = toldD [OF assms(2,1)]
  note r = assms(3) [OF d(1)]
  have "quiet0 s u" using d(2) r unfolding quiet_def requeued_def quiet0_def by (metis (no_types, lifting))
  then show ?thesis using r d(3) by (simp add: requeued_def)
qed

lemma requeued_then_told:
  assumes "requeued E U J A' s t" and "told E U J A' t u"
  shows "requeued E U J A' s u"
proof -
  have i: "kernel_inv E U J A' t" using assms(1) by (simp add: requeued_def)
  note d = toldD [OF assms(2) i]
  have "quiet0 s u"
    using d(2) assms(1) unfolding quiet_def requeued_def quiet0_def by (metis (no_types, lifting))
  then show ?thesis using d assms(1) by (simp add: requeued_def)
qed

lemma requeuedD:
  assumes "requeued E U J A' s s'"
  shows "kernel_inv E U J A' s'" "quiet0 s s'" "sys_core (tasks s' p) = sys_core (tasks s p)"
    "rq_curr (the_rq s') = rq_curr (the_rq s)" "rq_idle (the_rq s') = rq_idle (the_rq s)"
    "t_on_rq (tasks s' p) = t_on_rq (tasks s p)" "t_sched_class (tasks s' p) = t_sched_class (tasks s p)"
    "t_state (tasks s' p) = t_state (tasks s p)"
  using assms sys_coreD(1,2) [of "tasks s' p" "tasks s p"] by (auto simp: requeued_def quiet0_def)

lemma enqueue_task_requeued:
  assumes e: "env_ok E J" and cc: "classes_contract E J" and i: "kernel_inv E U J A s"
    and p: "p \<in> live U" "p \<noteq> rq_idle (the_rq s)" "p \<notin> A"
  shows "requeued E U J (insert p A) s (enqueue_task E p flags s)"
  unfolding enqueue_task_def Let_def
proof (rule requeued_told [OF i told_clock [OF e]])
  assume k: "kernel_inv E U J A (update_rq_clock E s)"
  have "rq_idle (the_rq (update_rq_clock E s)) = rq_idle (the_rq s)"
    using toldD(2) [OF told_clock [OF e] i] by (simp add: quiet_def quiet0_def)
  with p show "requeued E U J (insert p A) (update_rq_clock E s)
      (co_enqueue_task (task_class E (update_rq_clock E s) p) p flags (update_rq_clock E s))"
    by (intro kernel_class_enqueue [OF e cc k]) simp_all
qed

lemma dequeue_task_requeued:
  assumes e: "env_ok E J" and cc: "classes_contract E J" and i: "kernel_inv E U J A s" and p: "p \<in> A"
  shows "requeued E U J (A - {p}) s (dequeue_task E p flags s)"
  unfolding dequeue_task_def Let_def
  by (rule requeued_told [OF i told_clock [OF e]], rule kernel_class_dequeue [OF e cc _ p])

lemma activate_task_requeued:
  assumes e: "env_ok E J" and cc: "classes_contract E J" and i: "kernel_inv E U J A s"
    and p: "p \<in> live U" "p \<noteq> rq_idle (the_rq s)" "p \<notin> A"
  shows "requeued E U J (insert p A) s (activate_task E p flags s)"
  unfolding activate_task_def Let_def
proof (rule requeued_told [OF i])
  let ?s = "if task_contributes_to_load (tasks s p)
    then upd_rq (rq_nr_uninterruptible_update (\<lambda>n. n - 1)) s else s"
  show t: "told E U J A s ?s"
    by (cases "task_contributes_to_load (tasks s p)") (simp_all add: told_refl told_upd_rq)
  assume k: "kernel_inv E U J A ?s"
  have "rq_idle (the_rq ?s) = rq_idle (the_rq s)" by simp
  with p show "requeued E U J (insert p A) ?s (enqueue_task E p flags ?s)"
    by (intro enqueue_task_requeued [OF e cc k]) simp_all
qed

lemma deactivate_task_requeued:
  assumes e: "env_ok E J" and cc: "classes_contract E J" and i: "kernel_inv E U J A s" and p: "p \<in> A"
  shows "requeued E U J (A - {p}) s (deactivate_task E p flags s)"
  unfolding deactivate_task_def Let_def
  by (rule requeued_told [OF i _ dequeue_task_requeued [OF e cc _ p]])
    (cases "task_contributes_to_load (tasks s p)", simp_all add: told_refl told_upd_rq)


section \<open>Preemption and wakeup\<close>

lemma told_resched: "p = rq_curr (the_rq s) \<Longrightarrow> told E U J A s (resched_task p s)"
  using quiet_resched(1) [OF quiet_refl, of p s J]
  by (intro told_foreign) (simp add: foreign_def not_rt_def not_wrr_def need_resched_defs sys_core_def)

lemma not_stop: "kernel_inv E U J A s \<Longrightarrow> p \<in> live U \<Longrightarrow> t_sched_class (tasks s p) \<noteq> Stop_class"
  using kernel_invD(7) [of E U J A s p] by (simp add: task_ok_def)

lemma told_if: "(c \<Longrightarrow> told E U J A s a) \<Longrightarrow> (\<not> c \<Longrightarrow> told E U J A s b) \<Longrightarrow>
    told E U J A s (if c then a else b)"
  by simp

lemma told_given: "(kernel_inv E U J A s \<Longrightarrow> told E U J A s s') \<Longrightarrow> told E U J A s s'"
  by (simp add: told_def)

lemma told_check_preempt:
  assumes e: "env_ok E J" and cc: "classes_contract E J"
  shows "told E U J A s (check_preempt_curr E p flags s)"
proof (rule told_given)
  assume i: "kernel_inv E U J A s"
  have c: "t_sched_class (tasks s (rq_curr (the_rq s))) \<noteq> Stop_class"
    by (rule not_stop [OF i kernel_invD(8) [OF i]])
  let ?s = "if t_sched_class (tasks s p) = t_sched_class (tasks s (rq_curr (the_rq s)))
    then co_check_preempt_curr (task_class E s (rq_curr (the_rq s))) p flags s
    else if preempt_search (t_sched_class (tasks s (rq_curr (the_rq s)))) (t_sched_class (tasks s p))
              (all_classes E)
    then resched_task (rq_curr (the_rq s)) s else s"
  have 1: "told E U J A s ?s"
    unfolding task_class_def by (intro told_if class_told(1) [OF e cc c] told_resched told_refl refl)
  have 2: "told E U J A t (if b then upd_rq (rq_skip_clock_update_update (\<lambda>_. 1)) t else t)" for t b
    by (intro told_if told_upd_rq told_refl) simp
  show "told E U J A s (check_preempt_curr E p flags s)"
    unfolding check_preempt_curr_def Let_def by (rule told_trans [OF 1 2])
qed

text \<open>The tasks with \<open>on_rq\<close> set are those queued, whenever no operation is under way.\<close>

definition on_rqs :: "rt_se_ptr set \<Rightarrow> 'x sys \<Rightarrow> task_ptr set" where
  "on_rqs U s = {p \<in> live U. t_on_rq (tasks s p) \<noteq> 0}"

text \<open>
  \<open>mm_ok\<close>: a task with an address space of its own runs in it, and the running task runs in some.
  \<open>kernel_at\<close> is the invariant between operations: the queued tasks are those with \<open>on_rq\<close> set, and
  the idle task does not sleep; \<open>kernel_ok\<close>: moreover the running task is one of them or the idle
  task, which fails only in the middle of \<open>__schedule\<close>.
\<close>

definition mm_ok :: "rt_se_ptr set \<Rightarrow> 'x sys \<Rightarrow> bool" where
  "mm_ok U s \<longleftrightarrow> rq_prev_mm (the_rq s) = None \<and> t_active_mm (tasks s (rq_curr (the_rq s))) \<noteq> None \<and>
     (\<forall>p\<in>live U. t_mm (tasks s p) \<noteq> None \<longrightarrow> t_active_mm (tasks s p) = t_mm (tasks s p))"

definition kernel_at :: "'x env \<Rightarrow> rt_se_ptr set \<Rightarrow> 'x fair_inv \<Rightarrow> bool \<Rightarrow> 'x sys \<Rightarrow> bool" where
  "kernel_at E U J b s \<longleftrightarrow> kernel_inv E U J (on_rqs U s) s \<and> mm_ok U s \<and>
     t_state (tasks s (rq_idle (the_rq s))) = TASK_RUNNING \<and>
     (b \<longrightarrow> rq_curr (the_rq s) \<noteq> rq_idle (the_rq s) \<longrightarrow> t_on_rq (tasks s (rq_curr (the_rq s))) \<noteq> 0)"

abbreviation kernel_ok :: "'x env \<Rightarrow> rt_se_ptr set \<Rightarrow> 'x fair_inv \<Rightarrow> 'x sys \<Rightarrow> bool" where
  "kernel_ok E U J \<equiv> kernel_at E U J True"

lemma kernel_atD:
  assumes "kernel_at E U J b s"
  shows "kernel_inv E U J (on_rqs U s) s" "mm_ok U s"
    "t_state (tasks s (rq_idle (the_rq s))) = TASK_RUNNING"
    "b \<Longrightarrow> rq_curr (the_rq s) \<noteq> rq_idle (the_rq s) \<Longrightarrow> t_on_rq (tasks s (rq_curr (the_rq s))) \<noteq> 0"
  using assms by (simp_all add: kernel_at_def)

lemma mm_ok_cong:
  assumes "mm_ok U s" and "rq_curr (the_rq s') = rq_curr (the_rq s)" "rq_prev_mm (the_rq s') = rq_prev_mm (the_rq s)"
    and "\<And>p. t_mm (tasks s' p) = t_mm (tasks s p) \<and> t_active_mm (tasks s' p) = t_active_mm (tasks s p)"
  shows "mm_ok U s'"
  using assms by (simp add: mm_ok_def)

lemma quiet0_mm_ok: "quiet0 s s' \<Longrightarrow> mm_ok U s \<Longrightarrow> mm_ok U s'"
  by (rule mm_ok_cong) (simp_all add: quiet0_def)

text \<open>The address space that the running task borrows, when it has none of its own.\<close>

definition borrows :: "'x sys \<Rightarrow> nat option" where
  "borrows s = (if t_mm (tasks s (curr s)) = None then t_active_mm (tasks s (curr s)) else None)"

lemma quiet0_borrows: "quiet0 s s' \<Longrightarrow> borrows s' = borrows s"
  by (simp add: quiet0_def borrows_def)

text \<open>
  \<open>stays E U J b s s'\<close>: the step keeps the invariant, the running and the idle task and the address
  spaces, and marks at most the running task for rescheduling.
\<close>

definition stays :: "'x env \<Rightarrow> rt_se_ptr set \<Rightarrow> 'x fair_inv \<Rightarrow> bool \<Rightarrow> 'x sys \<Rightarrow> 'x sys \<Rightarrow> bool" where
  "stays E U J b s s' \<longleftrightarrow> (kernel_at E U J b s \<longrightarrow> kernel_at E U J b s' \<and>
     rq_curr (the_rq s') = rq_curr (the_rq s) \<and> rq_idle (the_rq s') = rq_idle (the_rq s) \<and>
     (\<forall>p. t_need_resched (tasks s' p) \<longrightarrow> t_need_resched (tasks s p) \<or> p = rq_curr (the_rq s)) \<and>
     borrows s' = borrows s \<and> mm_counts s' = mm_counts s)"

lemma staysD:
  assumes "stays E U J b s s'" and "kernel_at E U J b s"
  shows "kernel_at E U J b s'" "rq_curr (the_rq s') = rq_curr (the_rq s)"
    "rq_idle (the_rq s') = rq_idle (the_rq s)"
    "t_need_resched (tasks s' p) \<Longrightarrow> t_need_resched (tasks s p) \<or> p = rq_curr (the_rq s)"
    "borrows s' = borrows s" "mm_counts s' = mm_counts s"
  using assms by (auto simp: stays_def)

lemma stays_refl: "stays E U J b s s"
  by (simp add: stays_def)

lemma stays_trans:
  assumes "stays E U J b s t" and "stays E U J b t u"
  shows "stays E U J b s u"
  using assms unfolding stays_def by (metis (no_types, lifting))

lemma stays_if: "(c \<Longrightarrow> stays E U J b s t) \<Longrightarrow> (\<not> c \<Longrightarrow> stays E U J b s u) \<Longrightarrow>
    stays E U J b s (if c then t else u)"
  by simp

lemma stays_given: "(kernel_at E U J b s \<Longrightarrow> stays E U J b s s') \<Longrightarrow> stays E U J b s s'"
  by (simp add: stays_def)

lemma stays_told:
  assumes t: "\<And>A. told E U J A s s'"
  shows "stays E U J b s s'"
  unfolding stays_def
proof
  assume k: "kernel_at E U J b s"
  note o = kernel_atD [OF k] and d = toldD [OF t kernel_atD(1) [OF k]]
  have q: "quiet0 s s'" using d(2) by (simp add: quiet_def)
  have on: "t_on_rq (tasks s' p) = t_on_rq (tasks s p)" for p using sys_coreD(1) [OF d(3)] .
  then have "on_rqs U s' = on_rqs U s" by (simp add: on_rqs_def)
  then have "kernel_at E U J b s'"
    unfolding kernel_at_def using d(1) quiet0_mm_ok [OF q o(2)] o(3,4) q on by (simp add: quiet0_def)
  then show "kernel_at E U J b s' \<and> rq_curr (the_rq s') = rq_curr (the_rq s) \<and>
      rq_idle (the_rq s') = rq_idle (the_rq s) \<and>
      (\<forall>p. t_need_resched (tasks s' p) \<longrightarrow> t_need_resched (tasks s p) \<or> p = rq_curr (the_rq s)) \<and>
      borrows s' = borrows s \<and> mm_counts s' = mm_counts s"
    using q quiet0_borrows [OF q] by (simp add: quiet0_def)
qed

text \<open>Once the tasks queued and the flags \<open>on_rq\<close> agree again, the invariant holds again.\<close>

lemma staysI:
  assumes k: "kernel_at E U J b s" and i: "kernel_inv E U J (on_rqs U s') s'" and q: "quiet0 s s'"
    and c: "b \<Longrightarrow> rq_curr (the_rq s) \<noteq> rq_idle (the_rq s) \<Longrightarrow> t_on_rq (tasks s' (rq_curr (the_rq s))) \<noteq> 0"
  shows "stays E U J b s s'"
  using quiet0_mm_ok [OF q kernel_atD(2) [OF k]] quiet0_borrows [OF q] i c q kernel_atD(3) [OF k]
  by (simp add: stays_def kernel_at_def quiet0_def)

lemma stays_upd_task:
  assumes c: "\<And>t. sys_core (f t) = sys_core t \<and> t_mm (f t) = t_mm t \<and> t_active_mm (f t) = t_active_mm t \<and>
      (t_need_resched (f t) \<longrightarrow> t_need_resched t)"
    and st: "kernel_at E U J b s \<Longrightarrow> p = rq_idle (the_rq s) \<Longrightarrow> t_state (f (tasks s p)) = TASK_RUNNING"
  shows "stays E U J b s (upd_task p f s)"
  unfolding stays_def
proof
  assume k: "kernel_at E U J b s"
  note o = kernel_atD [OF k]
  have on: "t_on_rq (f t) = t_on_rq t" for t using sys_coreD(1) [of "f t" t] c by simp
  have "sys_core ((f t)\<lparr>t_on_rq := 0\<rparr>) = sys_core (t\<lparr>t_on_rq := 0\<rparr>)" for t
    using c [of t] by (auto simp: sys_core_def split: if_splits)
  from kernel_inv_upd_task [where f = f and p = p, OF o(1) this]
  moreover have "on_rqs U (upd_task p f s) = on_rqs U s" by (auto simp: on_rqs_def on)
  ultimately have "kernel_inv E U J (on_rqs U (upd_task p f s)) (upd_task p f s)" by simp
  moreover have "mm_ok U (upd_task p f s)" using o(2) c by (auto simp: mm_ok_def)
  ultimately have "kernel_at E U J b (upd_task p f s)"
    using o(3,4) st [OF k] on by (auto simp: kernel_at_def)
  moreover have "t_mm (tasks (upd_task p f s) q) = t_mm (tasks s q) \<and>
      t_active_mm (tasks (upd_task p f s) q) = t_active_mm (tasks s q)" for q using c by simp
  moreover from this have "borrows (upd_task p f s) = borrows s" unfolding borrows_def by (metis upd_task_simps(4))
  moreover have "t_need_resched (tasks (upd_task p f s) q) \<longrightarrow> t_need_resched (tasks s q)" for q
    using c by simp
  ultimately show "kernel_at E U J b (upd_task p f s) \<and>
      rq_curr (the_rq (upd_task p f s)) = rq_curr (the_rq s) \<and>
      rq_idle (the_rq (upd_task p f s)) = rq_idle (the_rq s) \<and>
      (\<forall>q. t_need_resched (tasks (upd_task p f s) q) \<longrightarrow> t_need_resched (tasks s q) \<or> q = rq_curr (the_rq s)) \<and>
      borrows (upd_task p f s) = borrows s \<and> mm_counts (upd_task p f s) = mm_counts s"
    by simp
qed

lemma stays_running: "stays E U J b s (upd_task p (t_state_update (\<lambda>_. TASK_RUNNING)) s)"
  by (rule stays_upd_task) (simp_all add: sys_core_def)

lemma stays_activated:
  assumes e: "env_ok E J" and cc: "classes_contract E J"
    and p: "p \<in> live U" "p \<noteq> rq_idle (the_rq s)" "t_on_rq (tasks s p) = 0"
  shows "stays E U J b s (upd_task p (t_on_rq_update (\<lambda>_. 1)) (activate_task E p flags s))"
proof (rule stays_given)
  assume k: "kernel_at E U J b s"
  let ?A = "on_rqs U s"
  let ?s = "upd_task p (t_on_rq_update (\<lambda>_. 1)) (activate_task E p flags s)"
  have "p \<notin> ?A" using p(3) by (simp add: on_rqs_def)
  note r = requeuedD [OF activate_task_requeued [OF e cc kernel_atD(1) [OF k] p(1,2) this, of flags]]
  have on: "on_rqs U ?s = insert p ?A" using r(6) p(1) by (auto simp: on_rqs_def)
  show "stays E U J b s ?s"
  proof (rule staysI [OF k])
    show "kernel_inv E U J (on_rqs U ?s) ?s"
      unfolding on by (rule kernel_inv_upd_task [OF r(1)]) (simp add: sys_core_def)
    show "quiet0 s ?s" using r(2) by (simp add: quiet0_def)
    show "t_on_rq (tasks ?s (rq_curr (the_rq s))) \<noteq> 0"
      if b "rq_curr (the_rq s) \<noteq> rq_idle (the_rq s)"
      using kernel_atD(4) [OF k that] r(6) by simp
  qed
qed

lemma told_waking_up:
  "env_ok E J \<Longrightarrow> told E U J A s (if b then s\<lparr>ext := x_wq_worker_waking_up E p (ext s)\<rparr> else s)"
  by (intro told_if told_ext told_refl) (rule env_okD)

lemma stays_ttwu_activate:
  assumes "env_ok E J" and "classes_contract E J"
    and "p \<in> live U" "p \<noteq> rq_idle (the_rq s)" "t_on_rq (tasks s p) = 0"
  shows "stays E U J b s (ttwu_activate E p flags s)"
  unfolding ttwu_activate_def Let_def
  by (rule stays_trans [OF stays_activated [OF assms] stays_told [OF told_waking_up [OF assms(1)]]])

lemma stays_ttwu_do_wakeup:
  assumes "env_ok E J" and "classes_contract E J"
  shows "stays E U J b s (ttwu_do_wakeup E p flags s)"
  unfolding ttwu_do_wakeup_def Let_def
  by (rule stays_trans [OF stays_told [OF told_check_preempt [OF assms]] stays_running])

lemma stays_try_to_wake_up:
  assumes e: "env_ok E J" and cc: "classes_contract E J" and p: "p \<in> live U" "p \<noteq> rq_idle (the_rq s)"
  shows "stays E U J b s (fst (try_to_wake_up E p state flags s))"
proof (cases "and (t_state (tasks s p)) state = 0")
  case False
  note w = stays_ttwu_do_wakeup [OF e cc]
  show ?thesis
    using False w stays_trans [OF stays_ttwu_activate [OF e cc p] w]
    by (cases "t_on_rq (tasks s p) = 0")
      (simp_all add: try_to_wake_up_def ttwu_remote_def ttwu_queue_def ttwu_do_activate_def)
qed (simp add: try_to_wake_up_def stays_refl)

lemma stays_wake_up_local:
  assumes e: "env_ok E J" and cc: "classes_contract E J" and p: "p \<in> live U" "p \<noteq> rq_idle (the_rq s)"
  shows "stays E U J b s (try_to_wake_up_local E p s)"
proof -
  have "told E U J A s (WARN_ON True s)" for A
    by (rule told_foreign) (simp add: foreign_def quiet_intros not_rt_def not_wrr_def)
  note w = stays_ttwu_do_wakeup [OF e cc] stays_told [OF this] stays_refl
  show ?thesis
    unfolding try_to_wake_up_local_def Let_def
    by (intro stays_if w stays_trans [OF _ w(1)] stays_ttwu_activate [OF e cc p])
qed

lemma stays_wake_up_new_task:
  assumes "env_ok E J" and "classes_contract E J"
    and "p \<in> live U" "p \<noteq> rq_idle (the_rq s)" "t_on_rq (tasks s p) = 0"
  shows "stays E U J b s (wake_up_new_task E p s)"
  unfolding wake_up_new_task_def Let_def
  by (rule stays_trans [OF stays_activated [OF assms] stays_told [OF told_check_preempt [OF assms(1,2)]]])

section \<open>A pass of \<open>__schedule\<close>\<close>

text \<open>The worker a sleeping worker of a work queue wakes is a task that exists, and not the idle task.\<close>

definition wq_contract :: "'x env \<Rightarrow> rt_se_ptr set \<Rightarrow> 'x fair_inv \<Rightarrow> bool" where
  "wq_contract E U J \<longleftrightarrow> (\<forall>s p q. kernel_at E U J False s \<longrightarrow>
     fst (x_wq_worker_sleeping E p (ext s)) = Some q \<longrightarrow> q \<in> live U \<and> q \<noteq> rq_idle (the_rq s))"

lemma kernel_at_weaken: "kernel_at E U J b s \<Longrightarrow> kernel_at E U J False s"
  by (simp add: kernel_at_def)

lemma stays_deactivated:
  assumes e: "env_ok E J" and cc: "classes_contract E J" and k: "kernel_ok E U J s"
    and p: "p = rq_curr (the_rq s)" "t_state (tasks s p) \<noteq> 0"
  shows "stays E U J False s (upd_task p (t_on_rq_update (\<lambda>_. 0)) (deactivate_task E p flags s))"
proof -
  let ?A = "on_rqs U s"
  let ?s = "upd_task p (t_on_rq_update (\<lambda>_. 0)) (deactivate_task E p flags s)"
  have "p \<noteq> rq_idle (the_rq s)" using p(2) kernel_atD(3) [OF k] by (auto simp: TASK_RUNNING_def)
  then have pA: "p \<in> ?A"
    using kernel_atD(4) [OF k] kernel_invD(8) [OF kernel_atD(1) [OF k]] p(1) by (simp add: on_rqs_def)
  note r = requeuedD [OF deactivate_task_requeued [OF e cc kernel_atD(1) [OF k] pA, of flags]]
  have on: "on_rqs U ?s = ?A - {p}" using r(6) by (auto simp: on_rqs_def)
  show ?thesis
  proof (rule staysI [OF kernel_at_weaken [OF k]])
    show "kernel_inv E U J (on_rqs U ?s) ?s"
      unfolding on by (rule kernel_inv_upd_task [OF r(1)]) (simp add: sys_core_def)
    show "quiet0 s ?s" using r(2) by (simp add: quiet0_def)
  qed simp
qed

lemma stays_deactivate_prev:
  assumes e: "env_ok E J" and cc: "classes_contract E J" and wq: "wq_contract E U J"
    and k: "kernel_ok E U J s"
  shows "stays E U J False s (fst (deactivate_prev E (rq_curr (the_rq s)) s))"
proof -
  let ?p = "rq_curr (the_rq s)"
  let ?s = "upd_task ?p (t_on_rq_update (\<lambda>_. 0)) (deactivate_task E ?p DEQUEUE_SLEEP s)"
  have wake: "stays E U J False t (case r of (w, x) \<Rightarrow>
      (case w of Some q \<Rightarrow> try_to_wake_up_local E q (t\<lparr>ext := x\<rparr>) | None \<Rightarrow> t\<lparr>ext := x\<rparr>))"
    if r: "r = x_wq_worker_sleeping E ?p (ext t)" for t r
  proof (rule stays_given)
    assume kt: "kernel_at E U J False t"
    obtain w x where wx: "r = (w, x)" by fastforce
    have t: "stays E U J False t (t\<lparr>ext := x\<rparr>)"
      by (rule stays_told, rule told_ext) (use env_okD(5) [OF e] r wx in \<open>metis snd_conv\<close>)
    have "stays E U J False (t\<lparr>ext := x\<rparr>) (try_to_wake_up_local E q (t\<lparr>ext := x\<rparr>))" if "w = Some q" for q
    proof -
      have "q \<in> live U \<and> q \<noteq> rq_idle (the_rq t)"
        using wq kt r wx that unfolding wq_contract_def by (metis fst_conv)
      then show ?thesis by (intro stays_wake_up_local [OF e cc]) simp_all
    qed
    then show "stays E U J False t (case r of (w, x) \<Rightarrow>
        (case w of Some q \<Rightarrow> try_to_wake_up_local E q (t\<lparr>ext := x\<rparr>) | None \<Rightarrow> t\<lparr>ext := x\<rparr>))"
      using t stays_trans [OF t] by (simp add: wx split: option.split)
  qed
  show ?thesis
  proof (cases "t_state (tasks s ?p) \<noteq> 0 \<and>
      and (t_preempt_count (tasks s ?p)) (cfg_PREEMPT_ACTIVE E) = 0 \<and>
      \<not> signal_pending_state (t_state (tasks s ?p)) (tasks s ?p)")
    case True
    have d: "stays E U J False s ?s" by (rule stays_deactivated [OF e cc k refl]) (use True in simp)
    show ?thesis
      using True d stays_trans [OF d wake [OF refl, where t = ?s]]
      by (simp add: deactivate_prev_def Let_def case_prod_beta)
  next
    case False
    then show ?thesis
      using stays_refl stays_running
      by (auto simp: deactivate_prev_def Let_def)
  qed
qed

lemma stays_put_prev:
  assumes e: "env_ok E J" and cc: "classes_contract E J" and p: "p \<in> live U"
  shows "stays E U J b s (put_prev_task E p s)"
proof (rule stays_given)
  assume k: "kernel_at E U J b s"
  let ?s = "if t_on_rq (tasks s p) \<noteq> 0 \<or> rq_skip_clock_update (the_rq s) < 0
    then update_rq_clock E s else s"
  have 1: "told E U J A s ?s" for A by (intro told_if told_clock [OF e] told_refl)
  have "told E U J A ?s (co_put_prev_task (task_class E ?s p) p ?s)" for A
    unfolding task_class_def
    by (rule told_given, rule class_told(2) [OF e cc]) (rule not_stop [OF _ p])
  from stays_told [OF told_trans [OF 1 this]] show "stays E U J b s (put_prev_task E p s)"
    by (simp add: put_prev_task_def Let_def)
qed

text \<open>The switch of address spaces and the end of the previous task, seen from the invariant.\<close>

definition same_but_mm :: "'x fair_inv \<Rightarrow> 'x sys \<Rightarrow> 'x sys \<Rightarrow> bool" where
  "same_but_mm J s s' \<longleftrightarrow> links s' = links s \<and> rt_rqs s' = rt_rqs s \<and>
     rq_prev_mm_update (\<lambda>_. None) (the_rq s') = rq_prev_mm_update (\<lambda>_. None) (the_rq s) \<and>
     (\<forall>p. sys_core (tasks s' p) = sys_core (tasks s p) \<and> t_state (tasks s' p) = t_state (tasks s p) \<and>
        t_mm (tasks s' p) = t_mm (tasks s p) \<and> t_need_resched (tasks s' p) = t_need_resched (tasks s p)) \<and>
     (\<forall>F. J (ext s) F \<longrightarrow> J (ext s') F)"

lemma same_but_mm_refl: "same_but_mm J s s"
  by (simp add: same_but_mm_def)

lemma same_but_mm_trans: "same_but_mm J s t \<Longrightarrow> same_but_mm J t u \<Longrightarrow> same_but_mm J s u"
  by (simp add: same_but_mm_def)

lemma same_but_mm_rq:
  assumes "same_but_mm J s s'"
  shows "rq_wrr (the_rq s') = rq_wrr (the_rq s)" "rq_nr_running (the_rq s') = rq_nr_running (the_rq s)"
    "rq_idle (the_rq s') = rq_idle (the_rq s)" "rq_stop (the_rq s') = rq_stop (the_rq s)"
    "rq_curr (the_rq s') = rq_curr (the_rq s)"
proof -
  have e: "rq_prev_mm_update (\<lambda>_. None) (the_rq s') = rq_prev_mm_update (\<lambda>_. None) (the_rq s)"
    using assms by (simp add: same_but_mm_def)
  show "rq_wrr (the_rq s') = rq_wrr (the_rq s)" "rq_nr_running (the_rq s') = rq_nr_running (the_rq s)"
    "rq_idle (the_rq s') = rq_idle (the_rq s)" "rq_stop (the_rq s') = rq_stop (the_rq s)"
    "rq_curr (the_rq s') = rq_curr (the_rq s)"
    using arg_cong [OF e, of rq_wrr] arg_cong [OF e, of rq_nr_running] arg_cong [OF e, of rq_idle]
      arg_cong [OF e, of rq_stop] arg_cong [OF e, of rq_curr] by simp_all
qed

lemma same_but_mm_inv:
  assumes i: "kernel_inv E U J A s" and m: "same_but_mm J s s'"
  shows "kernel_inv E U J A s'"
proof (rule kernel_inv_cong [OF i])
  show "sys_core ((tasks s' p)\<lparr>t_on_rq := 0\<rparr>) = sys_core ((tasks s p)\<lparr>t_on_rq := 0\<rparr>)" for p
    using m by (auto simp: same_but_mm_def sys_core_def split: if_splits)
qed (use m same_but_mm_rq [OF m] kernel_invD(8) [OF i] in \<open>simp_all add: same_but_mm_def\<close>)

lemma mmdrop_same:
  assumes "env_ok E J"
  shows "same_but_mm J s (mmdrop E m s)" "the_rq (mmdrop E m s) = the_rq s" "tasks (mmdrop E m s) = tasks s"
  using env_okD(8) [OF assms] by (auto simp: mmdrop_def same_but_mm_def Let_def)

lemma put_task_struct_same:
  assumes "env_ok E J"
  shows "same_but_mm J s (put_task_struct E q s)" "the_rq (put_task_struct E q s) = the_rq s"
    "t_active_mm (tasks (put_task_struct E q s) p) = t_active_mm (tasks s p)"
    "mm_counts (put_task_struct E q s) = mm_counts s"
  using env_okD(9) [OF assms] by (auto simp: put_task_struct_def same_but_mm_def sys_core_def Let_def)

lemma finish_task_switch_alt:
  "finish_task_switch E prev s =
     (let s1 = (case rq_prev_mm (the_rq s) of
                  Some m \<Rightarrow> mmdrop E m (upd_rq (rq_prev_mm_update (\<lambda>_. None)) s)
                | None \<Rightarrow> upd_rq (rq_prev_mm_update (\<lambda>_. None)) s)
      in if t_state (tasks s prev) = TASK_DEAD then put_task_struct E prev s1 else s1)"
  by (simp add: finish_task_switch_def Let_def)

lemma finish_task_switch_same:
  assumes e: "env_ok E J"
  shows "same_but_mm J s (finish_task_switch E prev s)"
    and "rq_prev_mm (the_rq (finish_task_switch E prev s)) = None"
    and "t_active_mm (tasks (finish_task_switch E prev s) p) = t_active_mm (tasks s p)"
proof -
  let ?s0 = "upd_rq (rq_prev_mm_update (\<lambda>_. None)) s"
  let ?s1 = "case rq_prev_mm (the_rq s) of Some m \<Rightarrow> mmdrop E m ?s0 | None \<Rightarrow> ?s0"
  have "same_but_mm J s ?s0" by (simp add: same_but_mm_def)
  moreover have "same_but_mm J ?s0 ?s1"
    by (simp add: mmdrop_same [OF e] same_but_mm_refl split: option.split)
  ultimately have 1: "same_but_mm J s ?s1" by (rule same_but_mm_trans)
  have 2: "rq_prev_mm (the_rq ?s1) = None" "tasks ?s1 = tasks s"
    by (simp_all add: mmdrop_same [OF e] split: option.split)
  note p = put_task_struct_same [OF e, where s = ?s1 and q = prev]
  show "same_but_mm J s (finish_task_switch E prev s)"
    "rq_prev_mm (the_rq (finish_task_switch E prev s)) = None"
    "t_active_mm (tasks (finish_task_switch E prev s) p) = t_active_mm (tasks s p)"
    using 1 2 p same_but_mm_trans [OF 1 p(1)] unfolding finish_task_switch_alt Let_def by simp_all
qed

lemma finish_task_switch_counts:
  assumes "env_ok E J"
  shows "mm_counts (finish_task_switch E prev s) n =
    mm_counts s n - (if rq_prev_mm (the_rq s) = Some n then 1 else 0)"
  unfolding finish_task_switch_alt Let_def
  by (simp add: put_task_struct_same [OF assms] mmdrop_def Let_def split: option.split)

text \<open>
  The references to an address space besides the one of a running task that borrows it.
\<close>

definition mm_held :: "'x sys \<Rightarrow> nat \<Rightarrow> int" where
  "mm_held s m = mm_counts s m - (if borrows s = Some m then 1 else 0)"

lemma stays_held: "stays E U J b s s' \<Longrightarrow> kernel_at E U J b s \<Longrightarrow> mm_held s' = mm_held s"
  using staysD(5,6) [of E U J b s s'] by (simp add: mm_held_def fun_eq_iff)

lemma context_switch_at:
  assumes e: "env_ok E J" and i: "kernel_inv E U J A s"
    and p: "prev \<noteq> nxt" "nxt = rq_curr (the_rq s)" "prev \<in> live U"
    and mm: "rq_prev_mm (the_rq s) = None" "t_active_mm (tasks s prev) \<noteq> None"
      "\<And>p. p \<in> live U \<Longrightarrow> t_mm (tasks s p) \<noteq> None \<Longrightarrow> t_active_mm (tasks s p) = t_mm (tasks s p)"
  obtains s' where "context_switch E prev nxt s = Some s'" "same_but_mm J s s'" "mm_ok U s'"
    "mm_held s' = mm_held (upd_rq (rq_curr_update (\<lambda>_. prev)) s)"
proof -
  obtain m where m: "t_active_mm (tasks s prev) = Some m" using mm(2) by blast
  let ?s1 = "case t_mm (tasks s nxt) of
      None \<Rightarrow> let s = upd_task nxt (t_active_mm_update (\<lambda>_. Some m)) s
              in s\<lparr>mm_counts := (mm_counts s)(m := mm_counts s m + 1)\<rparr>
    | Some _ \<Rightarrow> s"
  let ?s2 = "if t_mm (tasks s prev) = None
    then upd_rq (rq_prev_mm_update (\<lambda>_. Some m)) (upd_task prev (t_active_mm_update (\<lambda>_. None)) ?s1)
    else ?s1"
  let ?s3 = "?s2\<lparr>ext := x_switch E prev nxt (ext ?s2)\<rparr>"
  have mm1: "t_mm (tasks ?s1 p) = t_mm (tasks s p)" for p
    by (simp add: Let_def split: option.split)
  have eq: "context_switch E prev nxt s = Some (finish_task_switch E prev ?s3)"
    using m p(1) by (cases "t_mm (tasks s nxt)"; cases "t_mm (tasks s prev)")
      (simp_all add: context_switch_def Let_def)
  have same1: "same_but_mm J s ?s1"
    by (auto simp: same_but_mm_def sys_core_def Let_def split: option.split)
  have same2: "same_but_mm J ?s1 ?s3"
    using env_okD(7) [OF e] by (auto simp: same_but_mm_def sys_core_def)
  note same = same_but_mm_trans [OF same_but_mm_trans [OF same1 same2] finish_task_switch_same(1) [OF e]]
  have n: "nxt \<in> live U" using kernel_invD(8) [OF i] p(2) by simp
  have act: "t_active_mm (tasks ?s3 nxt) = (if t_mm (tasks s nxt) = None then Some m else t_mm (tasks s nxt))"
    using mm(3) [OF n] p(1) by (simp add: Let_def split: option.split)
  have others: "t_mm (tasks s q) \<noteq> None \<Longrightarrow> t_active_mm (tasks ?s3 q) = t_mm (tasks s q)" if "q \<in> live U" for q
    using mm(3) [OF that] p(1) by (auto simp: Let_def split: option.split)
  let ?f = "finish_task_switch E prev ?s3"
  have "rq_curr (the_rq ?f) = nxt" using same_but_mm_rq(5) [OF same] p(2) by simp
  moreover have "t_mm (tasks ?f q) = t_mm (tasks s q)" for q using same by (simp add: same_but_mm_def)
  ultimately have "mm_ok U ?f"
    unfolding mm_ok_def using finish_task_switch_same(2,3) [OF e, of prev ?s3] act others by simp
  moreover have "borrows ?f = (if t_mm (tasks s nxt) = None then Some m else None)"
    using \<open>rq_curr (the_rq ?f) = nxt\<close> \<open>\<And>q. t_mm (tasks ?f q) = t_mm (tasks s q)\<close>
      finish_task_switch_same(3) [OF e, of prev ?s3] act by (simp add: borrows_def)
  then have "mm_held ?f = mm_held (upd_rq (rq_curr_update (\<lambda>_. prev)) s)"
    using finish_task_switch_counts [OF e, of prev ?s3] mm(1) m
    by (auto simp: mm_held_def borrows_def fun_eq_iff Let_def split: option.split)
  ultimately show thesis using that eq same by blast
qed


text \<open>The tasks marked for rescheduling.\<close>

definition flagged :: "rt_se_ptr set \<Rightarrow> 'x sys \<Rightarrow> task_ptr set" where
  "flagged U s = {p \<in> live U. t_need_resched (tasks s p)}"

lemma same_on_rqs:
  assumes "same_but_mm J s s'"
  shows "on_rqs U s' = on_rqs U s" "flagged U s' = flagged U s" "t_on_rq (tasks s' p) = t_on_rq (tasks s p)"
proof -
  have on: "t_on_rq (tasks s' p) = t_on_rq (tasks s p)" for p
    using assms sys_coreD(1) [of "tasks s' p" "tasks s p"] by (simp add: same_but_mm_def)
  then show "on_rqs U s' = on_rqs U s" "t_on_rq (tasks s' p) = t_on_rq (tasks s p)"
    by (simp_all add: on_rqs_def)
  show "flagged U s' = flagged U s" using assms by (simp add: flagged_def same_but_mm_def)
qed

text \<open>The end of a pass: the switch to the task that was picked.\<close>

lemma switch_ok:
  assumes e: "env_ok E J" and k: "kernel_at E U J False s" and c: "prev = rq_curr (the_rq s)"
    and nxt: "nxt \<in> on_rqs U s \<or> nxt = rq_idle (the_rq s)" "prev \<noteq> nxt"
    and g: "\<And>t. sys_core (g t) = sys_core t \<and> t_mm (g t) = t_mm t \<and> t_active_mm (g t) = t_active_mm t \<and>
      t_state (g t) = t_state t \<and> t_need_resched (g t) = t_need_resched t"
  obtains s' where "context_switch E prev nxt
      (upd_task prev g (upd_rq (rq_curr_update (\<lambda>_. nxt)) (upd_rq (rq_nr_switches_update f) s))) = Some s'"
    "kernel_ok E U J s'" "flagged U s' = flagged U s" "rq_curr (the_rq s') = nxt" "mm_held s' = mm_held s"
    "rq_idle (the_rq s') = rq_idle (the_rq s)"
proof -
  let ?s = "upd_task prev g (upd_rq (rq_curr_update (\<lambda>_. nxt)) (upd_rq (rq_nr_switches_update f) s))"
  note o = kernel_atD [OF k]
  have l: "prev \<in> live U" "nxt \<in> live U"
    using kernel_invD(8,9) [OF o(1)] c nxt(1) by (auto simp: on_rqs_def)
  have gon: "t_on_rq (g t) = t_on_rq t" for t using sys_coreD(1) [of "g t" t] g by simp
  have "sys_core ((g t)\<lparr>t_on_rq := 0\<rparr>) = sys_core (t\<lparr>t_on_rq := 0\<rparr>)" for t
    using g [of t] by (auto simp: sys_core_def split: if_splits)
  then have i: "kernel_inv E U J (on_rqs U s) ?s"
    using l by (intro kernel_inv_cong [OF o(1)]) auto
  have mm: "rq_prev_mm (the_rq ?s) = None" "t_active_mm (tasks ?s prev) \<noteq> None"
    "\<And>p. p \<in> live U \<Longrightarrow> t_mm (tasks ?s p) \<noteq> None \<Longrightarrow> t_active_mm (tasks ?s p) = t_mm (tasks ?s p)"
    using o(2) c g by (auto simp: mm_ok_def)
  have "nxt = rq_curr (the_rq ?s)" by simp
  then obtain s' where s': "context_switch E prev nxt ?s = Some s'" "same_but_mm J ?s s'" "mm_ok U s'"
    "mm_held s' = mm_held (upd_rq (rq_curr_update (\<lambda>_. prev)) ?s)"
    by (rule context_switch_at [OF e i nxt(2) _ l(1) mm])
  note sr = same_but_mm_rq [OF s'(2)] and so = same_on_rqs [OF s'(2)]
  have on: "on_rqs U s' = on_rqs U s" "flagged U s' = flagged U s"
    using so(1,2) g by (auto simp: on_rqs_def flagged_def gon)
  have "t_state (tasks ?s p) = t_state (tasks s p)" "t_on_rq (tasks ?s p) = t_on_rq (tasks s p)" for p
    using g gon by simp_all
  then have st: "t_state (tasks s' p) = t_state (tasks s p)" "t_on_rq (tasks s' p) = t_on_rq (tasks s p)" for p
    using s'(2) so(3) by (simp_all add: same_but_mm_def)
  have "nxt \<noteq> rq_idle (the_rq s) \<Longrightarrow> t_on_rq (tasks s nxt) \<noteq> 0" using nxt(1) by (auto simp: on_rqs_def)
  then have "kernel_ok E U J s'"
    unfolding kernel_at_def on(1)
    using same_but_mm_inv [OF i s'(2)] s'(3) sr o(3) st by simp
  moreover have "mm_held (upd_rq (rq_curr_update (\<lambda>_. prev)) ?s) = mm_held s"
    using g c by (simp add: mm_held_def borrows_def fun_eq_iff)
  ultimately show thesis using that s'(1,4) on(2) sr by simp
qed


lemma stays_flagged:
  assumes "stays E U J b s s'" and "kernel_at E U J b s"
  shows "flagged U s' \<subseteq> insert (rq_curr (the_rq s)) (flagged U s)"
  using staysD(4) [OF assms] by (auto simp: flagged_def)

lemma schedule_pass_ok:
  assumes e: "env_ok E J" and cc: "classes_contract E J" and wq: "wq_contract E U J"
    and k: "kernel_ok E U J s"
  obtains s' where "schedule_pass E s = Some s'" "kernel_ok E U J s'"
    "flagged U s' \<subseteq> flagged U s - {rq_curr (the_rq s)}" "mm_held s' = mm_held s"
    "rq_idle (the_rq s') = rq_idle (the_rq s)"
proof -
  let ?p = "rq_curr (the_rq s)"
  obtain s1 v where d: "deactivate_prev E ?p s = (s1, v)" by fastforce
  let ?s2 = "put_prev_task E ?p s1"
  have l: "?p \<in> live U" by (rule kernel_invD(8) [OF kernel_atD(1) [OF k]])
  have k0: "kernel_at E U J False s" using k by (rule kernel_at_weaken)
  have "stays E U J False s s1" using stays_deactivate_prev [OF e cc wq k] d by simp
  from stays_trans [OF this stays_put_prev [OF e cc l]] have st2: "stays E U J False s ?s2" .
  note k2 = staysD(1) [OF st2 k0]
  obtain s3 nxt where pk: "pick_next_task E ?s2 = Some (s3, nxt)" "told E U J (on_rqs U ?s2) ?s2 s3"
    "nxt \<in> on_rqs U ?s2 \<or> nxt = rq_idle (the_rq ?s2)"
    using pick_next_task_chosen [OF cc kernel_atD(1) [OF k2]] chosen_told [OF cc kernel_atD(1) [OF k2]] by blast
  note t3 = toldD [OF pk(2) kernel_atD(1) [OF k2]]
  have on3: "t_on_rq (tasks s3 p) = t_on_rq (tasks ?s2 p)" for p using sys_coreD(1) [OF t3(3)] .
  have q3: "quiet0 ?s2 s3" using t3(2) by (simp add: quiet_def)
  have st3: "stays E U J False ?s2 s3"
    by (rule staysI [OF k2 _ q3]) (use t3(1) on3 in \<open>simp_all add: on_rqs_def\<close>)
  note st = stays_trans [OF st2 st3]
  note k3 = staysD(1) [OF st k0] and c3 = staysD(2) [OF st k0] and i3 = staysD(3) [OF st3 k2]
  let ?s5 = "upd_rq (rq_skip_clock_update_update (\<lambda>_. 0)) (clear_tsk_need_resched ?p s3)"
  have "stays E U J False s3 (clear_tsk_need_resched ?p s3)"
    unfolding clear_tsk_need_resched_def
    by (rule stays_upd_task) (use kernel_atD(3) [OF k3] in \<open>auto simp: sys_core_def\<close>)
  then have st5: "stays E U J False s3 ?s5"
    by (rule stays_trans [OF _ stays_told [OF told_upd_rq]]) simp
  note k5 = staysD(1) [OF st5 k3]
  have on5: "nxt \<in> on_rqs U ?s5 \<or> nxt = rq_idle (the_rq ?s5)"
    using pk(3) on3 i3 by (auto simp: on_rqs_def clear_tsk_need_resched_def)
  have c5: "?p = rq_curr (the_rq ?s5)" using c3 by (simp add: clear_tsk_need_resched_def)
  have "flagged U s3 \<subseteq> insert ?p (flagged U s)" by (rule stays_flagged [OF st k0])
  then have fl: "flagged U ?s5 \<subseteq> flagged U s - {?p}"
    by (auto simp: flagged_def clear_tsk_need_resched_def)
  have held: "mm_held ?s5 = mm_held s"
    using stays_held [OF st5 k3] stays_held [OF st k0] by simp
  have idle: "rq_idle (the_rq ?s5) = rq_idle (the_rq s)"
    using staysD(3) [OF st5 k3] staysD(3) [OF st k0] by simp
  have pass: "schedule_pass E s = (if ?p \<noteq> nxt then
      context_switch E ?p nxt (upd_task ?p (if v then t_nvcsw_update (\<lambda>n. n + 1) else t_nivcsw_update (\<lambda>n. n + 1))
        (upd_rq (rq_curr_update (\<lambda>_. nxt)) (upd_rq (rq_nr_switches_update (\<lambda>n. n + 1)) ?s5)))
      else Some ?s5)"
    by (simp add: schedule_pass_def Let_def d pk(1))
  show thesis
  proof (cases "?p = nxt")
    case True
    have "nxt \<noteq> rq_idle (the_rq ?s5) \<Longrightarrow> t_on_rq (tasks ?s5 nxt) \<noteq> 0" using on5 by (auto simp: on_rqs_def)
    then have "kernel_ok E U J ?s5" using k5 c5 True by (simp add: kernel_at_def)
    then show ?thesis using that pass True fl held idle by simp
  next
    case False
    let ?g = "if v then t_nvcsw_update (\<lambda>n. n + 1) else t_nivcsw_update (\<lambda>n. n + 1)"
    obtain s' where "context_switch E ?p nxt
        (upd_task ?p ?g (upd_rq (rq_curr_update (\<lambda>_. nxt)) (upd_rq (rq_nr_switches_update (\<lambda>n. n + 1)) ?s5))) = Some s'"
      "kernel_ok E U J s'" "flagged U s' = flagged U ?s5" "rq_curr (the_rq s') = nxt" "mm_held s' = mm_held ?s5"
      "rq_idle (the_rq s') = rq_idle (the_rq ?s5)"
      by (rule switch_ok [OF e k5 c5 on5 False, of ?g "\<lambda>n. n + 1"]) (simp_all add: sys_core_def)
    then show ?thesis using that pass False fl held idle by simp
  qed
qed

text \<open>
  \<open>__schedule\<close> returns: a pass clears the mark of the task it leaves and sets no other, so the
  number of marked tasks bounds the number of rounds.
\<close>

definition sched_rounds :: "rt_se_ptr set \<Rightarrow> 'x sys \<Rightarrow> nat" where
  "sched_rounds U s = 2 * card (flagged U s) + (if rq_curr (the_rq s) \<in> flagged U s then 0 else 1)"

lemma schedule'_ok:
  assumes e: "env_ok E J" and cc: "classes_contract E J" and wq: "wq_contract E U J"
  shows "kernel_ok E U J s \<Longrightarrow> \<exists>s'. schedule' E s = Some s' \<and> kernel_ok E U J s' \<and>
    \<not> test_tsk_need_resched (rq_curr (the_rq s')) s' \<and> mm_held s' = mm_held s \<and>
    rq_idle (the_rq s') = rq_idle (the_rq s)"
proof (induction "sched_rounds U s" arbitrary: s rule: less_induct)
  case less
  obtain s1 where s1: "schedule_pass E s = Some s1" "kernel_ok E U J s1"
    "flagged U s1 \<subseteq> flagged U s - {rq_curr (the_rq s)}" "mm_held s1 = mm_held s"
    "rq_idle (the_rq s1) = rq_idle (the_rq s)"
    by (rule schedule_pass_ok [OF e cc wq less.prems])
  show ?case
  proof (cases "test_tsk_need_resched (rq_curr (the_rq s1)) s1")
    case False
    then show ?thesis using s1 by (subst schedule'.simps) simp
  next
    case True
    have fin: "finite (flagged U s)"
      using finite_live [OF kernel_atD(1) [OF less.prems]] by (simp add: flagged_def)
    have c1: "rq_curr (the_rq s1) \<in> flagged U s1"
      using True kernel_invD(8) [OF kernel_atD(1) [OF s1(2)]] by (simp add: flagged_def test_tsk_need_resched_def)
    have "sched_rounds U s1 < sched_rounds U s"
    proof (cases "rq_curr (the_rq s) \<in> flagged U s")
      case True
      then have "card (flagged U s1) < card (flagged U s)"
        using s1(3) by (intro psubset_card_mono [OF fin]) auto
      then show ?thesis using c1 by (simp add: sched_rounds_def)
    next
      case False
      have "card (flagged U s1) \<le> card (flagged U s)" by (rule card_mono [OF fin]) (use s1(3) in auto)
      then show ?thesis using c1 False by (simp add: sched_rounds_def)
    qed
    from less.hyps [OF this s1(2)] True s1(1,4,5) show ?thesis by (subst schedule'.simps) simp
  qed
qed

end
