(* ===== verification/Kernel_Ops.thy ===== *)
theory Kernel_Ops
  imports Kernel
begin

text \<open>
  The rest of the core on top of the invariant of \<open>Kernel\<close>: the changes of nice value, priority
  and policy, and fork. \<open>Regroup\<close> adds the moves between groups, and
  \<open>Kernel_Steps\<close> collects the operations as the steps of one machine.
\<close>

section \<open>Changing a task between two queueings\<close>

lemma quiet0_trans: "quiet0 s t \<Longrightarrow> quiet0 t u \<Longrightarrow> quiet0 s u"
  unfolding quiet0_def by (metis (no_types, lifting))

text \<open>
  \<open>moved E U J A s A' s'\<close>: from \<open>s\<close>, where the tasks \<open>A\<close> are queued, the step leads to \<open>s'\<close>, where \<open>A'\<close>
  are, and it leaves the flags \<open>on_rq\<close> alone.
\<close>

definition moved :: "'x env \<Rightarrow> rt_se_ptr set \<Rightarrow> 'x fair_inv \<Rightarrow> task_ptr set \<Rightarrow> 'x sys \<Rightarrow>
    task_ptr set \<Rightarrow> 'x sys \<Rightarrow> bool" where
  "moved E U J A s A' s' \<longleftrightarrow> (kernel_inv E U J A s \<longrightarrow> kernel_inv E U J A' s' \<and> quiet0 s s' \<and>
     (\<forall>p. t_on_rq (tasks s' p) = t_on_rq (tasks s p)))"

lemma movedD:
  assumes "moved E U J A s A' s'" and "kernel_inv E U J A s"
  shows "kernel_inv E U J A' s'" "quiet0 s s'" "t_on_rq (tasks s' p) = t_on_rq (tasks s p)"
    "rq_curr (the_rq s') = rq_curr (the_rq s)" "rq_idle (the_rq s') = rq_idle (the_rq s)"
  using assms by (auto simp: moved_def quiet0_def)

lemma moved_trans [trans]:
  "moved E U J A s B t \<Longrightarrow> moved E U J B t C u \<Longrightarrow> moved E U J A s C u"
  unfolding moved_def using quiet0_trans [of s t u] by simp

lemma moved_given: "(kernel_inv E U J A s \<Longrightarrow> moved E U J A s A' s') \<Longrightarrow> moved E U J A s A' s'"
  by (simp add: moved_def)

lemma moved_told: "told E U J A s s' \<Longrightarrow> moved E U J A s A s'"
  using sys_coreD(1) [OF toldD(3), of E U J A s s'] by (simp add: moved_def told_def quiet_def)

lemma moved_refl: "moved E U J A s A s"
  by (rule moved_told [OF told_refl])

lemma moved_requeued: "(kernel_inv E U J A s \<Longrightarrow> requeued E U J A' s s') \<Longrightarrow> moved E U J A s A' s'"
  using requeuedD(6) [of E U J A' s s'] by (simp add: moved_def requeued_def)

lemma moved_stays: "moved E U J (on_rqs U s) s (on_rqs U s) s' \<Longrightarrow> stays E U J b s s'"
proof (rule stays_given)
  assume m: "moved E U J (on_rqs U s) s (on_rqs U s) s'" and k: "kernel_at E U J b s"
  note d = movedD [OF m kernel_atD(1) [OF k]]
  have "on_rqs U s' = on_rqs U s" using d(3) by (simp add: on_rqs_def)
  then show "stays E U J b s s'"
    by (intro staysI [OF k _ d(2)]) (use d(1,3) kernel_atD(4) [OF k] in simp_all)
qed

text \<open>The step changes nothing but the task \<open>p\<close>.\<close>

definition only_task :: "task_ptr \<Rightarrow> 'x sys \<Rightarrow> 'x sys \<Rightarrow> bool" where
  "only_task p s s' \<longleftrightarrow> (\<exists>t. s' = upd_task p (\<lambda>_. t) s)"

lemma only_task_upd: "only_task p s s' \<Longrightarrow> only_task p s (upd_task p f s')"
  by (auto simp: only_task_def upd_task_twice)

lemma only_task_upd1: "only_task p s (upd_task p f s)"
  unfolding only_task_def by (rule exI, rule upd_task_cong) (rule refl)

lemma only_task_set: "only_task p s s' \<Longrightarrow> s' = upd_task p (\<lambda>_. tasks s' p) s"
  by (auto simp: only_task_def)

text \<open>A class and priorities that fit each other, for any task but the idle one.\<close>

definition fits :: "task_struct \<Rightarrow> bool" where
  "fits t \<longleftrightarrow> t_sched_class t \<noteq> Stop_class \<and> t_sched_class t \<noteq> Idle_class \<and>
     (t_sched_class t = Rt_class \<longrightarrow> 0 \<le> t_prio t \<and> t_prio t < 100) \<and>
     100 \<le> t_static_prio t \<and> t_static_prio t < 140 \<and> 0 \<le> t_normal_prio t"

lemma task_ok_fits:
  "p \<noteq> rq_idle (the_rq s) \<Longrightarrow> task_ok U s p \<longleftrightarrow> p < max_tasks \<and> rt_task_ok U s p \<and> fits (tasks s p)"
  by (auto simp: task_ok_def fits_def)

lemma moved_change:
  assumes o: "only_task p s s'" and p: "p \<notin> A"
    and f: "t_on_rq (tasks s' p) = t_on_rq (tasks s p)" "t_state (tasks s' p) = t_state (tasks s p)"
      "t_mm (tasks s' p) = t_mm (tasks s p)" "t_active_mm (tasks s' p) = t_active_mm (tasks s p)"
      "t_need_resched (tasks s' p) = t_need_resched (tasks s p)"
    and ok: "kernel_inv E U J A s \<Longrightarrow> task_ok U s' p"
  shows "moved E U J A s A s'"
proof (rule moved_given)
  assume i: "kernel_inv E U J A s"
  let ?s = "upd_task p (\<lambda>_. tasks s' p) s"
  have s': "s' = ?s" by (rule only_task_set [OF o])
  from ok [OF i] have "task_ok U ?s p" using s' by simp
  from kernel_inv_modify [OF i p this] have "kernel_inv E U J A s'" using s' by simp
  moreover have "tasks s' q = (if q = p then tasks s' p else tasks s q)" "the_rq s' = the_rq s"
    "mm_counts s' = mm_counts s" for q
    by (subst s', simp)+
  then have "quiet0 s s'" "t_on_rq (tasks s' q) = t_on_rq (tasks s q)" for q
    unfolding quiet0_def using f by metis+
  ultimately show "moved E U J A s A s'" by (simp add: moved_def)
qed

lemma only_task_rq: "only_task p s s' \<Longrightarrow> the_rq s' = the_rq s"
  by (auto simp: only_task_def)

lemma moved_modify:
  assumes o: "only_task p s s'" and p: "p \<notin> A" "p \<in> live U" "p \<noteq> rq_idle (the_rq s)"
    and f: "t_on_rq (tasks s' p) = t_on_rq (tasks s p)" "t_state (tasks s' p) = t_state (tasks s p)"
      "t_mm (tasks s' p) = t_mm (tasks s p)" "t_active_mm (tasks s' p) = t_active_mm (tasks s p)"
      "t_need_resched (tasks s' p) = t_need_resched (tasks s p)" "rt_group s' p = rt_group s p"
      "rse_parent (t_rt (tasks s' p)) = rse_parent (t_rt (tasks s p))"
    and ok: "task_ok U s p \<Longrightarrow> fits (tasks s p) \<Longrightarrow> fits (tasks s' p)"
  shows "moved E U J A s A s'"
proof (rule moved_change [OF o p(1) f(1-5)])
  assume "kernel_inv E U J A s"
  note t = kernel_invD(7) [OF this p(2)]
  have "rt_task_ok U s' p = rt_task_ok U s p" using f by (simp add: rt_task_ok_def)
  then show "task_ok U s' p" using ok [OF t] t p(3) only_task_rq [OF o] by (simp add: task_ok_fits)
qed

lemma moved_if: "(c \<Longrightarrow> moved E U J A s A' t) \<Longrightarrow> (\<not> c \<Longrightarrow> moved E U J A s A' u) \<Longrightarrow>
    moved E U J A s A' (if c then t else u)"
  by simp

text \<open>Taking a task off its queue when it is on one, and putting it back.\<close>

lemma moved_dequeue:
  assumes "env_ok E J" and "classes_contract E J" and "on \<longleftrightarrow> p \<in> A"
  shows "moved E U J A s (A - {p}) (if on then dequeue_task E p flags s else s)"
proof (cases on)
  case True
  then show ?thesis
    using moved_requeued [OF dequeue_task_requeued [OF assms(1,2)]] assms(3) by simp
next
  case False
  then show ?thesis using moved_refl [of E U J A s] assms(3) by simp
qed

lemma moved_enqueue:
  assumes "env_ok E J" and "classes_contract E J" and "on \<longleftrightarrow> p \<in> A" and "p \<in> live U" "p \<noteq> rq_idle (the_rq s)"
  shows "moved E U J (A - {p}) s A (if on then enqueue_task E p flags s else s)"
proof (cases on)
  case True
  have "moved E U J (A - {p}) s (insert p (A - {p})) (enqueue_task E p flags s)"
    by (rule moved_requeued [OF enqueue_task_requeued [OF assms(1,2) _ assms(4,5)]]) simp_all
  moreover have "insert p (A - {p}) = A" using True assms(3) by auto
  ultimately show ?thesis using True by simp
next
  case False
  then show ?thesis using moved_refl [of E U J A s] assms(3) by simp
qed

lemma told_class:
  assumes "env_ok E J" and "classes_contract E J" and "p \<in> live U"
  shows "told E U J A s (co_put_prev_task (task_class E s p) q s)"
    "told E U J A s (co_set_curr_task (task_class E s p) s)"
  unfolding task_class_def
  by (rule told_given, rule class_told [OF assms(1,2)], rule not_stop [OF _ assms(3)], assumption)+

lemma told_class_changed:
  assumes e: "env_ok E J" and cc: "classes_contract E J" and p: "p \<in> live U" and c: "c \<noteq> Stop_class"
  shows "told E U J A s (check_class_changed E p c oldprio s)"
proof (rule told_given)
  assume i: "kernel_inv E U J A s"
  let ?s = "case co_switched_from (class_of E c) of Some f \<Rightarrow> f p s | None \<Rightarrow> s"
  have 1: "told E U J A s ?s" by (rule class_told(6) [OF e cc c])
  have 2: "told E U J A ?s (co_switched_to (task_class E ?s p) p ?s)"
    unfolding task_class_def by (rule told_given, rule class_told(4) [OF e cc not_stop [OF _ p]])
  have 3: "told E U J A s (co_prio_changed (task_class E s p) p oldprio s)"
    unfolding task_class_def by (rule class_told(5) [OF e cc not_stop [OF i p]])
  show "told E U J A s (check_class_changed E p c oldprio s)"
    unfolding check_class_changed_def Let_def by (intro told_if told_trans [OF 1 2] 3 told_refl)
qed

text \<open>
  The pattern of every change of a task's class or priority: off the queue, off the CPU, the
  change, and back, where \<open>s0\<close> is the state before it. The change \<open>g\<close> may rely on the invariant.
\<close>

definition off_queue :: "'x env \<Rightarrow> task_ptr \<Rightarrow> 'x sys \<Rightarrow> 'x sys" where
  "off_queue E p s0 =
     (let s = (if t_on_rq (tasks s0 p) \<noteq> 0 then dequeue_task E p 0 s0 else s0)
      in if task_current s0 p then co_put_prev_task (task_class E s p) p s else s)"

definition back_on_queue :: "'x env \<Rightarrow> task_ptr \<Rightarrow> u32 \<Rightarrow> 'x sys \<Rightarrow> 'x sys \<Rightarrow> 'x sys" where
  "back_on_queue E p flags s0 s =
     (let s = (if task_current s0 p then co_set_curr_task (task_class E s p) s else s)
      in if t_on_rq (tasks s0 p) \<noteq> 0 then enqueue_task E p flags s else s)"

definition requeue_changed ::
  "'x env \<Rightarrow> task_ptr \<Rightarrow> u32 \<Rightarrow> ('x sys \<Rightarrow> 'x sys) \<Rightarrow> 'x sys \<Rightarrow> 'x sys" where
  "requeue_changed E p flags g s = back_on_queue E p flags s (g (off_queue E p s))"

lemma on_queue_on_rqs: "p \<in> live U \<Longrightarrow> t_on_rq (tasks s p) \<noteq> 0 \<longleftrightarrow> p \<in> on_rqs U s"
  by (simp add: on_rqs_def)

lemma moved_off_queue:
  assumes e: "env_ok E J" and cc: "classes_contract E J" and p: "p \<in> live U"
  shows "moved E U J (on_rqs U s) s (on_rqs U s - {p}) (off_queue E p s)"
  unfolding off_queue_def Let_def
  by (rule moved_trans [OF moved_dequeue [OF e cc on_queue_on_rqs [OF p], where flags = 0]])
    (rule moved_if, rule moved_told, rule told_class [OF e cc p], rule moved_refl)

lemma moved_back_on_queue:
  assumes e: "env_ok E J" and cc: "classes_contract E J" and p: "p \<in> live U" "p \<noteq> rq_idle (the_rq s)"
  shows "moved E U J (on_rqs U s0 - {p}) s (on_rqs U s0) (back_on_queue E p flags s0 s)"
proof (rule moved_given)
  let ?A = "on_rqs U s0"
  let ?s = "if task_current s0 p then co_set_curr_task (task_class E s p) s else s"
  assume i: "kernel_inv E U J (?A - {p}) s"
  have m: "moved E U J (?A - {p}) s (?A - {p}) ?s"
    by (intro moved_if moved_told told_class [OF e cc p(1)] told_refl)
  have "p \<noteq> rq_idle (the_rq ?s)" using movedD(5) [OF m i] p(2) by simp
  from moved_trans [OF m moved_enqueue [OF e cc on_queue_on_rqs [OF p(1)] p(1) this]]
  show "moved E U J (?A - {p}) s ?A (back_on_queue E p flags s0 s)"
    by (simp add: back_on_queue_def Let_def)
qed

lemma moved_requeue_changed:
  assumes e: "env_ok E J" and cc: "classes_contract E J" and p: "p \<in> live U" "p \<noteq> rq_idle (the_rq s)"
    and g: "\<And>t. p \<noteq> rq_idle (the_rq t) \<Longrightarrow> moved E U J (on_rqs U s - {p}) t (on_rqs U s - {p}) (g t)"
  shows "moved E U J (on_rqs U s) s (on_rqs U s) (requeue_changed E p flags g s)"
proof (rule moved_given)
  assume i: "kernel_inv E U J (on_rqs U s) s"
  note m = moved_off_queue [OF e cc p(1), of s]
  have "p \<noteq> rq_idle (the_rq (off_queue E p s))" using movedD(5) [OF m i] p(2) by simp
  note m2 = moved_trans [OF m g [OF this]]
  have "p \<noteq> rq_idle (the_rq (g (off_queue E p s)))" using movedD(5) [OF m2 i] p(2) by simp
  then show "moved E U J (on_rqs U s) s (on_rqs U s) (requeue_changed E p flags g s)"
    unfolding requeue_changed_def by (rule moved_trans [OF m2 moved_back_on_queue [OF e cc p(1)]])
qed

section \<open>Priority inheritance\<close>

definition set_prio_class :: "task_ptr \<Rightarrow> int \<Rightarrow> 'x sys \<Rightarrow> 'x sys" where
  "set_prio_class p prio s = upd_task p (t_prio_update (\<lambda>_. prio))
     (if rt_prio prio then upd_task p (t_sched_class_update (\<lambda>_. Rt_class)) s
      else upd_task p (t_sched_class_update (\<lambda>_. Fair_class)) s)"

lemma rt_mutex_setprio_alt:
  "rt_mutex_setprio E p prio s =
     (if prio < 0 \<or> MAX_PRIO < prio then None
      else if p = rq_idle (the_rq s) then
        Some (WARN_ON (x_pi_blocked_on E (ext s) p) (WARN_ON (p \<noteq> curr s) s))
      else Some (check_class_changed E p (t_sched_class (tasks s p)) (t_prio (tasks s p))
        (requeue_changed E p (if t_prio (tasks s p) < prio then ENQUEUE_HEAD else 0)
          (set_prio_class p prio) s)))"
  by (simp add: rt_mutex_setprio_def requeue_changed_def off_queue_def back_on_queue_def
      set_prio_class_def Let_def)

lemma moved_set_prio_class:
  assumes "p \<in> live U" "p \<notin> A" "0 \<le> prio" "p \<noteq> rq_idle (the_rq s)"
  shows "moved E U J A s A (set_prio_class p prio s)"
  by (rule moved_modify [OF _ assms(2,1,4)])
    (use assms(3) in \<open>auto simp: set_prio_class_def only_task_upd only_task_upd1 fits_def rt_prio_def
      MAX_RT_PRIO_def\<close>)

lemma stays_rt_mutex_setprio:
  assumes e: "env_ok E J" and cc: "classes_contract E J" and p: "p \<in> live U"
    and s': "rt_mutex_setprio E p prio s = Some s'"
  shows "stays E U J b s s'"
proof (rule stays_given)
  assume k: "kernel_at E U J b s"
  have w: "told E U J A t (WARN_ON c t)" for A c t
    by (rule told_foreign) (simp add: foreign_def quiet_intros not_rt_def not_wrr_def)
  show "stays E U J b s s'"
  proof (cases "p = rq_idle (the_rq s)")
    case True
    then show ?thesis using s' stays_told [OF told_trans [OF w w]]
      by (auto simp: rt_mutex_setprio_alt split: if_splits)
  next
    case False
    have 1: "moved E U J (on_rqs U s) s (on_rqs U s) (requeue_changed E p flags (set_prio_class p prio) s)"
      if "0 \<le> prio" for flags
      by (rule moved_requeue_changed [OF e cc p False moved_set_prio_class]) (use p that in auto)
    note 2 = moved_told [OF told_class_changed [OF e cc p not_stop [OF kernel_atD(1) [OF k] p]]]
    from s' False show ?thesis
      by (auto simp: rt_mutex_setprio_alt intro!: moved_stays moved_trans [OF 1 2] split: if_splits)
  qed
qed

section \<open>Nice values\<close>

lemma kernel_inv_static:
  assumes i: "kernel_inv E U J A s" and v: "100 \<le> v" "v < 140"
  shows "kernel_inv E U J A (upd_task p (t_static_prio_update (\<lambda>_. v)) s)"
proof -
  note d = kernel_invD [OF i]
  let ?s = "upd_task p (t_static_prio_update (\<lambda>_. v)) s"
  have cls: "t_sched_class (tasks ?s q) = t_sched_class (tasks s q)" for q by simp
  obtain Q where Q: "rt_good E U s Q" "\<And>p. rt_on Q (TaskRtSe p) \<longleftrightarrow> p \<in> of_class A s Rt_class"
    by (rule rt_holdsE [OF d(1)]) blast
  have "rt_good E U ?s Q" by (rule rt_good_outside [OF Q(1)]) simp_all
  then have "rt_holds E U ?s (of_class A ?s Rt_class)" unfolding cls
    by (rule rt_holdsI) (use Q(2) in auto)
  moreover have "rt_task_ok U ?s q = rt_task_ok U s q" for q by (simp add: rt_task_ok_def)
  then have "\<forall>q\<in>live U. task_ok U ?s q" using d(7) v by (simp add: task_ok_def)
  ultimately show ?thesis
    using d unfolding kernel_inv_def cls by (auto simp: wrr_holds_def)
qed

definition set_static :: "task_ptr \<Rightarrow> int \<Rightarrow> 'x sys \<Rightarrow> 'x sys" where
  "set_static p nice s =
     (let s = set_load_weight p (upd_task p (t_static_prio_update (\<lambda>_. NICE_TO_PRIO nice)) s)
      in upd_task p (t_prio_update (\<lambda>_. snd (effective_prio p s))) (fst (effective_prio p s)))"

lemma moved_set_static:
  assumes "p \<in> live U" "p \<notin> A" "- 20 \<le> nice" "nice \<le> 19" "p \<noteq> rq_idle (the_rq s)"
    "\<not> task_has_rt_policy (tasks s p)"
  shows "moved E U J A s A (set_static p nice s)"
  by (rule moved_modify [OF _ assms(2,1,5)])
    (use assms in \<open>auto simp: set_static_def set_load_weight_def effective_prio_def Let_def
      only_task_upd only_task_upd1 fits_def rt_prio_def MAX_RT_PRIO_def NICE_TO_PRIO_def normal_prio_def
      normal_prio'_def task_has_rt_policy_def\<close>)

lemma set_load_weight_prio [simp]: "t_prio (tasks (set_load_weight p s) q) = t_prio (tasks s q)"
  by (simp add: set_load_weight_def Let_def)

definition renice :: "'x env \<Rightarrow> task_ptr \<Rightarrow> int \<Rightarrow> 'x sys \<Rightarrow> 'x sys" where
  "renice E p nice s =
     (let on = t_on_rq (tasks s p) \<noteq> 0;
          s = set_static p nice (if on then dequeue_task E p 0 s else s)
      in if on then enqueue_task E p 0 s else s)"

lemma set_user_nice_alt:
  assumes "task_nice (tasks s p) \<noteq> nice" "- 20 \<le> nice" "nice \<le> 19" "\<not> task_has_rt_policy (tasks s p)"
  obtains "set_user_nice E p nice s = renice E p nice s"
    | "set_user_nice E p nice s = resched_task (rq_curr (the_rq (renice E p nice s))) (renice E p nice s)"
proof -
  let ?s = "set_static p nice (dequeue_task E p 0 s)"
  let ?d = "t_prio (tasks ?s p) - t_prio (tasks (dequeue_task E p 0 s) p)"
  show thesis
  proof (cases "t_on_rq (tasks s p) = 0")
    case True
    with assms show thesis
      by (intro that(1)) (simp add: set_user_nice_def renice_def set_static_def Let_def case_prod_beta)
  next
    case False
    define c where "c \<longleftrightarrow> ?d < 0 \<or> 0 < ?d \<and> task_current (enqueue_task E p 0 ?s) p"
    from False assms have eq: "set_user_nice E p nice s =
        (if c then resched_task (rq_curr (the_rq (renice E p nice s))) (renice E p nice s)
         else renice E p nice s)"
      by (simp add: c_def set_user_nice_def renice_def set_static_def Let_def case_prod_beta)
    show thesis
    proof (cases c)
      case True
      show thesis by (rule that(2)) (simp only: eq True if_True)
    next
      case False
      show thesis by (rule that(1)) (simp only: eq False if_False)
    qed
  qed
qed

lemma moved_renice:
  assumes e: "env_ok E J" and cc: "classes_contract E J" and p: "p \<in> live U" "p \<noteq> rq_idle (the_rq s)"
    and n: "- 20 \<le> nice" "nice \<le> 19" "\<not> task_has_rt_policy (tasks s p)"
  shows "moved E U J (on_rqs U s) s (on_rqs U s) (renice E p nice s)"
proof (rule moved_given)
  assume i: "kernel_inv E U J (on_rqs U s) s"
  let ?A = "on_rqs U s" and ?on = "t_on_rq (tasks s p) \<noteq> 0"
  let ?s1 = "if ?on then dequeue_task E p 0 s else s"
  have on: "?on \<longleftrightarrow> p \<in> ?A" using p(1) by (simp add: on_rqs_def)
  have m: "moved E U J ?A s (?A - {p}) ?s1" by (rule moved_dequeue [OF e cc on])
  have "t_policy (tasks ?s1 p) = t_policy (tasks s p)"
    using sys_coreD(8) [OF requeuedD(3) [OF dequeue_task_requeued [OF e cc i]], of p 0 p] on
    by (cases ?on) simp_all
  then have "\<not> task_has_rt_policy (tasks ?s1 p)" using n(3) by (simp add: task_has_rt_policy_def)
  moreover have "p \<noteq> rq_idle (the_rq ?s1)" using movedD(5) [OF m i] p(2) by simp
  ultimately have m2: "moved E U J ?A s (?A - {p}) (set_static p nice ?s1)"
    by (intro moved_trans [OF m] moved_set_static) (use p(1) n in auto)
  have "p \<noteq> rq_idle (the_rq (set_static p nice ?s1))" using movedD(5) [OF m2 i] p(2) by simp
  from moved_trans [OF m2 moved_enqueue [OF e cc on p(1) this]]
  show "moved E U J ?A s ?A (renice E p nice s)" by (simp add: renice_def Let_def)
qed

lemma stays_set_user_nice:
  assumes e: "env_ok E J" and cc: "classes_contract E J" and p: "p \<in> live U" "p \<noteq> rq_idle (the_rq s)"
  shows "stays E U J b s (set_user_nice E p nice s)"
proof (cases "task_nice (tasks s p) = nice \<or> nice < - 20 \<or> 19 < nice")
  case True
  then show ?thesis by (simp add: set_user_nice_def stays_refl)
next
  case range: False
  let ?A = "on_rqs U s"
  show ?thesis
  proof (cases "task_has_rt_policy (tasks s p)")
    case True
    have "moved E U J ?A s ?A (upd_task p (t_static_prio_update (\<lambda>_. NICE_TO_PRIO nice)) s)"
      using kernel_inv_static [of E U J ?A s "NICE_TO_PRIO nice" p] range
      by (simp add: moved_def quiet0_def NICE_TO_PRIO_def MAX_RT_PRIO_def)
    with True range show ?thesis by (simp add: set_user_nice_def moved_stays)
  next
    case False
    have m: "moved E U J ?A s ?A (renice E p nice s)"
      by (rule moved_renice [OF e cc p]) (use range False in auto)
    note m2 = moved_trans [OF m moved_told [OF told_resched [OF refl]]]
    have n: "task_nice (tasks s p) \<noteq> nice" "- 20 \<le> nice" "nice \<le> 19" using range by auto
    show ?thesis
      by (rule set_user_nice_alt [OF n False, of E]) (simp_all add: moved_stays [OF m] moved_stays [OF m2])
  qed
qed

lemma stays_sys_nice:
  assumes "env_ok E J" and "classes_contract E J" and c: "rq_curr (the_rq s) \<noteq> rq_idle (the_rq s)"
  shows "stays E U J b s (fst (sys_nice E increment s))"
proof (rule stays_given)
  assume "kernel_at E U J b s"
  then have "rq_curr (the_rq s) \<in> live U" using kernel_invD(8) kernel_atD(1) by blast
  note n = stays_set_user_nice [OF assms(1,2) this c]
  show "stays E U J b s (fst (sys_nice E increment s))"
    unfolding sys_nice_def Let_def by (simp add: n stays_refl del: split_paired_All)
qed

section \<open>Policies\<close>

text \<open>
  What the priority inheritance outside promises: a boosted priority is never negative, and
  \<open>rt_mutex_adjust_pi\<close> works through \<open>rt_mutex_setprio\<close> on tasks that exist.
\<close>

inductive boosts :: "'x env \<Rightarrow> rt_se_ptr set \<Rightarrow> 'x sys \<Rightarrow> 'x sys \<Rightarrow> bool" for E U where
  boosts_refl: "boosts E U s s"
| boosts_step: "boosts E U s t \<Longrightarrow> p \<in> live U \<Longrightarrow> rt_mutex_setprio E p prio t = Some u \<Longrightarrow> boosts E U s u"

definition pi_contract :: "'x env \<Rightarrow> rt_se_ptr set \<Rightarrow> bool" where
  "pi_contract E U \<longleftrightarrow> (\<forall>x p n. 0 \<le> n \<longrightarrow> 0 \<le> x_rt_mutex_getprio E x p n) \<and>
     (\<forall>p s. boosts E U s (x_rt_mutex_adjust_pi E p s))"

lemma stays_boosts:
  assumes e: "env_ok E J" and cc: "classes_contract E J"
  shows "boosts E U s s' \<Longrightarrow> stays E U J b s s'"
proof (induction rule: boosts.induct)
  case (boosts_step s t p prio u)
  show ?case
    by (rule stays_trans [OF boosts_step.IH stays_rt_mutex_setprio [OF e cc boosts_step.hyps(2,3)]])
qed (rule stays_refl)

lemma normal_prio_nonneg:
  assumes "0 \<le> prio" "prio < 100" "100 \<le> t_static_prio t" "t_rt_priority t = of_int prio"
  shows "0 \<le> normal_prio t"
proof -
  obtain n :: nat where n: "prio = int n" "n < 100" using assms(1,2) by (metis nonneg_int_cases of_nat_less_numeral_iff)
  have w: "of_int (MAX_RT_PRIO - 1) - (word_of_nat n :: u32) = word_of_int (99 - int n)"
    by (simp add: MAX_RT_PRIO_def)
  have "sint (word_of_int (99 - int n) :: u32) = 99 - int n"
    using n(2) unfolding sint_sbintrunc' by (intro signed_take_bit_int_eq_self) simp_all
  then show ?thesis
    using n assms(3,4) w by (simp add: normal_prio_def normal_prio'_def)
qed

lemma only_task_if: "only_task p s (if c then a else b) \<longleftrightarrow> (if c then only_task p s a else only_task p s b)"
  by simp

lemma setscheduler'_only: "only_task p s (setscheduler' E p policy prio s)"
  unfolding setscheduler'_def Let_def set_load_weight_def
  by (simp only: only_task_if only_task_upd only_task_upd1 if_cancel simp_thms)

lemma set_load_weight_task:
  "\<exists>l. tasks (set_load_weight p s) p = t_se_update (se_load_update (\<lambda>_. l)) (tasks s p)"
  by (auto simp: set_load_weight_def Let_def)

lemma setscheduler'_task:
  obtains l c t where "tasks (setscheduler' E p policy prio s) p = t_se_update (se_load_update (\<lambda>_. l))
      (t\<lparr>t_normal_prio := normal_prio t,
         t_prio := x_rt_mutex_getprio E (ext s) p (normal_prio t), t_sched_class := c\<rparr>)"
    "t = (tasks s p)\<lparr>t_policy := policy, t_rt_priority := of_int prio\<rparr>"
    "c = (if policy = 6 then Wrr_class
          else if rt_prio (x_rt_mutex_getprio E (ext s) p (normal_prio t)) then Rt_class else Fair_class)"
proof -
  define t where "t = (tasks s p)\<lparr>t_policy := policy, t_rt_priority := of_int prio\<rparr>"
  define m where "m = x_rt_mutex_getprio E (ext s) p (normal_prio t)"
  define c where "c = (if policy = 6 then Wrr_class else if rt_prio m then Rt_class else Fair_class)"
  let ?u = "upd_task p (\<lambda>_. t\<lparr>t_normal_prio := normal_prio t, t_prio := m, t_sched_class := c\<rparr>) s"
  let ?v = "upd_task p (\<lambda>t. t\<lparr>t_prio := x_rt_mutex_getprio E (ext s) p (t_normal_prio t)\<rparr>)
    (upd_task p (\<lambda>t. t\<lparr>t_normal_prio := normal_prio t\<rparr>) (upd_task p (t_rt_priority_update (\<lambda>_. of_int prio))
      (upd_task p (t_policy_update (\<lambda>_. policy)) s)))"
  have v: "?v = upd_task p (\<lambda>_. t\<lparr>t_normal_prio := normal_prio t, t_prio := m\<rparr>) s"
    unfolding upd_task_twice t_def m_def by (rule upd_task_cong) simp
  have "setscheduler' E p policy prio s = set_load_weight p (if policy = 6
      then upd_task p (t_sched_class_update (\<lambda>_. Wrr_class)) ?v
      else if rt_prio (t_prio (tasks ?v p)) then upd_task p (t_sched_class_update (\<lambda>_. Rt_class)) ?v
      else upd_task p (t_sched_class_update (\<lambda>_. Fair_class)) ?v)"
    by (simp only: setscheduler'_def Let_def upd_task_simps)
  also have "\<dots> = set_load_weight p ?u" unfolding v c_def by (simp add: upd_task_twice)
  finally have "setscheduler' E p policy prio s = set_load_weight p ?u" .
  moreover obtain l where "tasks (set_load_weight p ?u) p = t_se_update (se_load_update (\<lambda>_. l)) (tasks ?u p)"
    using set_load_weight_task by blast
  ultimately show thesis by (intro that [where l = l and t = t and c = c]) (simp_all add: t_def m_def c_def)
qed

lemma moved_setscheduler':
  assumes pi: "pi_contract E U" and p: "p \<in> live U" "p \<notin> A" "p \<noteq> rq_idle (the_rq s)"
    and prio: "0 \<le> prio" "prio < 100"
  shows "moved E U J A s A (setscheduler' E p policy prio s)"
proof -
  obtain l c t where t: "tasks (setscheduler' E p policy prio s) p = t_se_update (se_load_update (\<lambda>_. l))
      (t\<lparr>t_normal_prio := normal_prio t,
         t_prio := x_rt_mutex_getprio E (ext s) p (normal_prio t), t_sched_class := c\<rparr>)"
    "t = (tasks s p)\<lparr>t_policy := policy, t_rt_priority := of_int prio\<rparr>"
    "c = (if policy = 6 then Wrr_class
          else if rt_prio (x_rt_mutex_getprio E (ext s) p (normal_prio t)) then Rt_class else Fair_class)"
    by (rule setscheduler'_task)
  have "0 \<le> normal_prio t" if "fits (tasks s p)"
    by (rule normal_prio_nonneg [OF prio]) (use that t(2) in \<open>simp_all add: fits_def\<close>)
  moreover from this have "0 \<le> x_rt_mutex_getprio E (ext s) p (normal_prio t)" if "fits (tasks s p)"
    using pi that by (simp add: pi_contract_def)
  ultimately have "fits (tasks s p) \<Longrightarrow> fits (tasks (setscheduler' E p policy prio s) p)"
    unfolding t(1) using t(2,3) by (auto simp: fits_def rt_prio_def MAX_RT_PRIO_def)
  then show ?thesis
    by (intro moved_modify [OF setscheduler'_only p(2,1,3)]) (simp_all add: t(1,2))
qed

lemma stays_setscheduler_commit:
  assumes e: "env_ok E J" and cc: "classes_contract E J" and pi: "pi_contract E U"
    and p: "p \<in> live U" "p \<noteq> rq_idle (the_rq s)" and prio: "0 \<le> prio" "prio < 100"
    and s': "setscheduler_commit E p policy oldpolicy reset prio user s = Return s' r"
  shows "stays E U J b s s'"
proof (rule stays_given)
  assume k: "kernel_at E U J b s"
  let ?g = "\<lambda>s. setscheduler' E p policy prio (upd_task p (t_sched_reset_on_fork_update (\<lambda>_. reset)) s)"
  let ?A = "on_rqs U s"
  let ?s = "requeue_changed E p 0 ?g s"
  have up: "moved E U J (?A - {p}) t (?A - {p}) (upd_task p (t_sched_reset_on_fork_update (\<lambda>_. reset)) t)"
    if "p \<noteq> rq_idle (the_rq t)" for t
    by (rule moved_modify [OF only_task_upd1 _ p(1) that]) (simp_all add: fits_def)
  have g: "moved E U J (?A - {p}) t (?A - {p}) (?g t)" if "p \<noteq> rq_idle (the_rq t)" for t
    by (rule moved_trans [OF up moved_setscheduler' [OF pi]]) (use p that prio in auto)
  have 1: "moved E U J ?A s ?A ?s" by (rule moved_requeue_changed [OF e cc p g])
  let ?t = "upd_task p (t_sched_reset_on_fork_update (\<lambda>_. reset)) (off_queue E p s)"
  note off = moved_off_queue [OF e cc p(1), of s]
  have "p \<noteq> rq_idle (the_rq (off_queue E p s))"
    using movedD(5) [OF off kernel_atD(1) [OF k]] p(2) by simp
  from movedD(1) [OF moved_trans [OF off up [OF this]] kernel_atD(1) [OF k]]
  have "kernel_inv E U J (?A - {p}) ?t" .
  note c = not_stop [OF this p(1)]
  note 2 = moved_trans [OF 1 moved_told [OF told_class_changed [OF e cc p(1) c]]]
  let ?u = "check_class_changed E p (t_sched_class (tasks ?t p)) (t_prio (tasks ?t p)) ?s"
  have 3: "stays E U J b ?u (x_rt_mutex_adjust_pi E p ?u)"
    by (rule stays_boosts [OF e cc]) (use pi in \<open>simp add: pi_contract_def\<close>)
  have "s' = s \<or> s' = x_rt_mutex_adjust_pi E p ?u"
    using s' by (simp add: setscheduler_commit_def requeue_changed_def off_queue_def back_on_queue_def Let_def
        split: if_splits)
  then show "stays E U J b s s'"
    using stays_refl stays_trans [OF moved_stays [OF 2] 3] by auto
qed

section \<open>Fork\<close>

text \<open>INIT_LIST_HEAD of an entry that is on no list changes nothing.\<close>

lemma init_no_op:
  assumes "init_ok f" and "is_list h n []"
  shows "f n h = h"
proof
  fix m
  have "is_list (f n h) n []" by (rule init_okD(1) [OF assms(1)])
  then have "f n h n = h n" using assms(2) by (simp add: is_list_Nil)
  then show "f n h m = h m" using init_okD(2) [OF assms(1), of m n h] by (cases "m = n") simp_all
qed

lemma kernel_unlinked:
  assumes i: "kernel_inv E U J A s" and p: "p \<notin> A"
  shows "is_list (links s) (RtRun (TaskRtSe p)) []" "is_list (links s) (WrrRun p) []" "klist_ok (klist E)"
proof -
  note d = kernel_invD [OF i]
  obtain ts where ts: "wrr_inv E s ts" "set ts = of_class A s Wrr_class"
    using d(2) by (auto simp: wrr_holds_def)
  show "is_list (links s) (WrrRun p) []"
    using wrr_invD(2) [OF ts(1)] ts(2) p by (simp add: on_queue_def)
  obtain Q where Q: "rt_good E U s Q" "\<And>p. rt_on Q (TaskRtSe p) \<longleftrightarrow> p \<in> of_class A s Rt_class"
    by (rule rt_holdsE [OF d(1)]) blast
  have "\<not> rt_on Q (TaskRtSe p)" using Q(2) p by simp
  then show "is_list (links s) (RtRun (TaskRtSe p)) []"
    using rt_invD(4) [OF Q(1)] by (auto simp: rt_links_def on_queues_def rt_on_def)
  show "klist_ok (klist E)" by (rule wrr_invD(1) [OF ts(1)])
qed

text \<open>A change of a task that is not queued and does not run.\<close>

lemma stays_fresh:
  assumes o: "only_task p s s'" and p: "p \<in> live U" "p \<noteq> rq_idle (the_rq s)" "p \<noteq> rq_curr (the_rq s)"
      "t_on_rq (tasks s p) = 0" "t_on_rq (tasks s' p) = 0"
    and mm: "t_mm (tasks s' p) \<noteq> None \<Longrightarrow> t_active_mm (tasks s' p) = t_mm (tasks s' p)"
    and f: "t_need_resched (tasks s' p) \<Longrightarrow> t_need_resched (tasks s p)"
    and ok: "kernel_at E U J b s \<Longrightarrow> task_ok U s p \<Longrightarrow> task_ok U s' p"
  shows "stays E U J b s s'"
proof (rule stays_given)
  assume k: "kernel_at E U J b s"
  note k4 = kernel_atD [OF k]
  let ?s = "upd_task p (\<lambda>_. tasks s' p) s"
  have s': "s' = ?s" by (rule only_task_set [OF o])
  have t: "tasks s' q = (if q = p then tasks s' p else tasks s q)" "the_rq s' = the_rq s" for q
    by (subst s', simp)+
  have "p \<notin> on_rqs U s" using p(4) by (simp add: on_rqs_def)
  moreover have "task_ok U ?s p" using ok [OF k kernel_invD(7) [OF k4(1) p(1)]] s' by simp
  ultimately have i: "kernel_inv E U J (on_rqs U s) s'"
    by (subst s') (rule kernel_inv_modify [OF k4(1)])
  have on: "t_on_rq (tasks s' q) = t_on_rq (tasks s q)" for q
    using t(1) [of q] p(4,5) by (cases "q = p") simp_all
  have "\<forall>q\<in>live U. t_mm (tasks s' q) \<noteq> None \<longrightarrow> t_active_mm (tasks s' q) = t_mm (tasks s' q)"
    using mm k4(2) t(1) by (metis mm_ok_def)
  moreover have "tasks s' (rq_curr (the_rq s)) = tasks s (rq_curr (the_rq s))"
    "tasks s' (rq_idle (the_rq s)) = tasks s (rq_idle (the_rq s))" using t(1) p(2,3) by metis+
  ultimately have "kernel_at E U J b s'"
    using i k4(2,3,4) by (simp add: kernel_at_def mm_ok_def on_rqs_def on t(2))
  moreover have "t_need_resched (tasks s' q) \<longrightarrow> t_need_resched (tasks s q)" for q
    using t(1) [of q] f by (cases "q = p") auto
  moreover have "mm_counts s' = mm_counts s" by (subst s') simp
  moreover have "borrows s' = borrows s" using t(1) [of "curr s"] p(3) by (simp add: borrows_def t(2))
  ultimately show "stays E U J b s s'" by (simp add: stays_def t(2))
qed

definition fork_reset :: "task_ptr \<Rightarrow> 'x sys \<Rightarrow> 'x sys" where
  "fork_reset p s =
     (if t_sched_reset_on_fork (tasks s p) then
        let s = (if task_has_rt_policy (tasks s p) then
                   upd_task p (\<lambda>t. t\<lparr>t_policy := SCHED_NORMAL,
                     t_static_prio := NICE_TO_PRIO 0, t_rt_priority := 0\<rparr>) s
                 else if PRIO_TO_NICE (t_static_prio (tasks s p)) < 0 then
                   upd_task p (t_static_prio_update (\<lambda>_. NICE_TO_PRIO 0)) s
                 else s);
            s = upd_task p (\<lambda>t. t\<lparr>t_normal_prio := normal_prio' t\<rparr>) s;
            s = upd_task p (\<lambda>t. t\<lparr>t_prio := t_normal_prio t\<rparr>) s;
            s = set_load_weight p s
        in upd_task p (t_sched_reset_on_fork_update (\<lambda>_. False)) s
      else s)"

definition fork_setup :: "'x env \<Rightarrow> task_ptr \<Rightarrow> 'x sys \<Rightarrow> 'x sys" where
  "fork_setup E p s =
     (let s = upd_task p (t_state_update (\<lambda>_. TASK_RUNNING)) (sched_fork' E p s);
          s = fork_reset p (upd_task p (t_prio_update (\<lambda>_. t_normal_prio (tasks s (curr s)))) s)
      in if \<not> rt_prio (t_prio (tasks s p))
         then upd_task p (t_sched_class_update (\<lambda>_. Fair_class)) s else s)"

lemma sched_fork_alt:
  "sched_fork E p s =
     (let s = fork_setup E p s;
          s = (case co_task_fork (task_class E s p) of Some f \<Rightarrow> f p s | None \<Rightarrow> s)
      in upd_task p (t_preempt_count_update (\<lambda>_. 1)) s)"
  unfolding sched_fork_def fork_setup_def fork_reset_def Let_def by (rule refl)

text \<open>
  \<open>dup_task p t a b s\<close>: the state after \<open>dup_task_struct\<close> has copied the running task over \<open>p\<close>; the
  list heads of \<open>p\<close> hold the copies \<open>a\<close> and \<open>b\<close> of pointers into the parent's queues.
\<close>

definition dup_task :: "task_ptr \<Rightarrow> task_struct \<Rightarrow> lnode list_head \<Rightarrow> lnode list_head \<Rightarrow> 'x sys \<Rightarrow> 'x sys" where
  "dup_task p t a b s = upd_links (\<lambda>h. h(RtRun (TaskRtSe p) := a, WrrRun p := b)) (upd_task p (\<lambda>_. t) s)"

definition copied :: "'x sys \<Rightarrow> task_struct \<Rightarrow> bool" where
  "copied s t \<longleftrightarrow> (let c = tasks s (rq_curr (the_rq s)) in
     sys_core (t\<lparr>t_on_rq := 0\<rparr>) = sys_core (c\<lparr>t_on_rq := 0\<rparr>) \<and>
     t_sched_task_group t = t_sched_task_group c \<and>
     \<not> t_need_resched t \<and> (t_mm t \<noteq> None \<longrightarrow> t_active_mm t = t_mm t))"

lemma sched_fork'_only:
  assumes "kernel_inv E U J A s" and "p \<notin> A"
  shows "only_task p s (sched_fork' E p (dup_task p t a b s))"
proof -
  note u = kernel_unlinked [OF assms]
  have ok: "init_ok (kl_INIT_LIST_HEAD (klist E))" by (rule klist_okD(1) [OF u(3)])
  let ?f = "kl_INIT_LIST_HEAD (klist E)"
  let ?h = "(links s)(RtRun (TaskRtSe p) := a, WrrRun p := b)"
  have e: "is_list h n [] \<Longrightarrow> is_list h' n [] \<Longrightarrow> h n = h' n" for h h' :: "lnode links" and n
    by (simp add: is_list_Nil)
  have "?f (WrrRun p) (?f (RtRun (TaskRtSe p)) ?h) = links s"
  proof
    fix m
    show "?f (WrrRun p) (?f (RtRun (TaskRtSe p)) ?h) m = links s m"
      using e [OF init_okD(1) [OF ok] u(2)] e [OF init_okD(1) [OF ok] u(1)]
        init_okD(2) [OF ok, of m "WrrRun p"] init_okD(2) [OF ok, of m "RtRun (TaskRtSe p)"]
      by (cases "m = WrrRun p"; cases "m = RtRun (TaskRtSe p)") simp_all
  qed
  then have "sched_fork' E p (dup_task p t a b s) = upd_task p (\<lambda>_. t_se_update (\<lambda>se. se\<lparr>se_on_rq := 0,
      se_exec_start := 0, se_sum_exec_runtime := 0, se_prev_sum_exec_runtime := 0,
      se_nr_migrations := 0, se_vruntime := 0\<rparr>) (t\<lparr>t_on_rq := 0\<rparr>)) s"
    by (simp add: sched_fork'_def dup_task_def upd_task_def upd_links_def Let_def)
  then show ?thesis unfolding only_task_def by blast
qed

lemma set_load_weight_alt: "\<exists>l. set_load_weight p s = upd_task p (t_se_update (se_load_update (\<lambda>_. l))) s"
  by (auto simp: set_load_weight_def Let_def)

lemma fork_reset_task:
  obtains t where "fork_reset p s = upd_task p (\<lambda>_. t) s"
    "t_on_rq t = t_on_rq (tasks s p)" "t_mm t = t_mm (tasks s p)" "t_active_mm t = t_active_mm (tasks s p)"
    "t_need_resched t = t_need_resched (tasks s p)" "t_rt t = t_rt (tasks s p)"
    "t_sched_task_group t = t_sched_task_group (tasks s p)"
    "t_sched_class t = t_sched_class (tasks s p)" "t_state t = t_state (tasks s p)"
    "100 \<le> t_static_prio (tasks s p) \<Longrightarrow> t_static_prio (tasks s p) < 140 \<Longrightarrow>
       100 \<le> t_static_prio t \<and> t_static_prio t < 140"
    "t_prio t = t_prio (tasks s p) \<and> t_normal_prio t = t_normal_prio (tasks s p) \<or>
       t_prio t = t_static_prio t \<and> t_normal_prio t = t_static_prio t"
proof (cases "t_sched_reset_on_fork (tasks s p)")
  case False
  then show thesis by (intro that [of "tasks s p"]) (simp_all add: fork_reset_def upd_task_def)
next
  case True
  let ?u = "if task_has_rt_policy (tasks s p) then (tasks s p)\<lparr>t_policy := SCHED_NORMAL,
      t_static_prio := NICE_TO_PRIO 0, t_rt_priority := 0\<rparr>
    else if PRIO_TO_NICE (t_static_prio (tasks s p)) < 0 then (tasks s p)\<lparr>t_static_prio := NICE_TO_PRIO 0\<rparr>
    else tasks s p"
  let ?v = "?u\<lparr>t_normal_prio := t_static_prio ?u, t_prio := t_static_prio ?u\<rparr>"
  have v: "fork_reset p s = upd_task p (t_sched_reset_on_fork_update (\<lambda>_. False))
      (set_load_weight p (upd_task p (\<lambda>_. ?v) s))"
    using True by (simp add: fork_reset_def Let_def upd_task_twice normal_prio'_def)
      (simp add: upd_task_def)
  obtain l where l: "set_load_weight p (upd_task p (\<lambda>_. ?v) s) =
      upd_task p (t_se_update (se_load_update (\<lambda>_. l))) (upd_task p (\<lambda>_. ?v) s)"
    using set_load_weight_alt by blast
  show thesis
    by (rule that [of "(t_se_update (se_load_update (\<lambda>_. l)) ?v)\<lparr>t_sched_reset_on_fork := False\<rparr>"])
      (unfold v l upd_task_twice, simp_all add: NICE_TO_PRIO_def MAX_RT_PRIO_def)
qed

lemma fork_setup_task:
  assumes o: "only_task p s (sched_fork' E p s0)" and u_def: "u = tasks (sched_fork' E p s0) p"
    and c_def: "c = t_normal_prio (tasks (sched_fork' E p s0) (rq_curr (the_rq s)))"
  obtains t where "fork_setup E p s0 = upd_task p (\<lambda>_. t) s"
    "t_on_rq t = t_on_rq u" "t_mm t = t_mm u" "t_active_mm t = t_active_mm u"
    "t_need_resched t = t_need_resched u" "t_rt t = t_rt u" "t_sched_task_group t = t_sched_task_group u"
    "t_state t = TASK_RUNNING"
    "100 \<le> t_static_prio u \<and> t_static_prio u < 140 \<longrightarrow> 100 \<le> t_static_prio t \<and> t_static_prio t < 140"
    "t_prio t = c \<and> t_normal_prio t = t_normal_prio u \<or>
       t_prio t = t_static_prio t \<and> t_normal_prio t = t_static_prio t"
    "t_sched_class t = (if rt_prio (t_prio t) then t_sched_class u else Fair_class)"
proof -
  let ?f = "sched_fork' E p s0"
  have f: "?f = upd_task p (\<lambda>_. u) s" unfolding u_def by (rule only_task_set [OF o])
  have q: "rq_curr (the_rq ?f) = rq_curr (the_rq s)" by (simp add: f)
  define v where "v = upd_task p (\<lambda>_. u\<lparr>t_state := TASK_RUNNING, t_prio := c\<rparr>) s"
  have v: "upd_task p (t_prio_update (\<lambda>_. t_normal_prio (tasks
      (upd_task p (t_state_update (\<lambda>_. TASK_RUNNING)) ?f) (rq_curr (the_rq ?f)))))
      (upd_task p (t_state_update (\<lambda>_. TASK_RUNNING)) ?f) = v"
    unfolding v_def c_def by (simp add: f upd_task_twice)
  have vp: "tasks v p = u\<lparr>t_state := TASK_RUNNING, t_prio := c\<rparr>" by (simp add: v_def)
  obtain t where t: "fork_reset p v = upd_task p (\<lambda>_. t) v"
    "t_on_rq t = t_on_rq (tasks v p)" "t_mm t = t_mm (tasks v p)" "t_active_mm t = t_active_mm (tasks v p)"
    "t_need_resched t = t_need_resched (tasks v p)" "t_rt t = t_rt (tasks v p)"
    "t_sched_task_group t = t_sched_task_group (tasks v p)"
    "t_sched_class t = t_sched_class (tasks v p)" "t_state t = t_state (tasks v p)"
    "100 \<le> t_static_prio (tasks v p) \<Longrightarrow> t_static_prio (tasks v p) < 140 \<Longrightarrow>
       100 \<le> t_static_prio t \<and> t_static_prio t < 140"
    "t_prio t = t_prio (tasks v p) \<and> t_normal_prio t = t_normal_prio (tasks v p) \<or>
       t_prio t = t_static_prio t \<and> t_normal_prio t = t_static_prio t"
    using fork_reset_task [of p v] by blast
  let ?t = "if rt_prio (t_prio t) then t else t\<lparr>t_sched_class := Fair_class\<rparr>"
  have "fork_setup E p s0 = (if \<not> rt_prio (t_prio (tasks (fork_reset p v) p))
      then upd_task p (t_sched_class_update (\<lambda>_. Fair_class)) (fork_reset p v) else fork_reset p v)"
    unfolding fork_setup_def Let_def v [symmetric] by simp
  moreover have "upd_task p (\<lambda>_. t) v = upd_task p (\<lambda>_. t) s" by (simp add: v_def upd_task_twice)
  ultimately have "fork_setup E p s0 = upd_task p (\<lambda>_. ?t) s"
    unfolding t(1) by (simp add: upd_task_twice)
  then show thesis
    by (rule that [where t = ?t]) (use t(2-) vp in auto)
qed

lemma copiedD:
  assumes "copied s t" and "c = tasks s (rq_curr (the_rq s))"
  shows "t_sched_class t = t_sched_class c"
    "rse_rt_rq (t_rt t) = rse_rt_rq (t_rt c)" "rse_parent (t_rt t) = rse_parent (t_rt c)"
    "t_static_prio t = t_static_prio c" "t_normal_prio t = t_normal_prio c"
    "t_sched_task_group t = t_sched_task_group c" "\<not> t_need_resched t"
    "t_mm t \<noteq> None \<Longrightarrow> t_active_mm t = t_mm t"
  using assms(1) sys_coreD [of "t\<lparr>t_on_rq := 0\<rparr>" "c\<lparr>t_on_rq := 0\<rparr>"]
  unfolding copied_def Let_def assms(2) by auto

lemma stays_fork_setup:
  assumes p: "p \<in> live U" "p \<noteq> rq_idle (the_rq s)" "p \<noteq> rq_curr (the_rq s)" "t_on_rq (tasks s p) = 0"
    and t: "copied s t" "rt_group_ok U (t_sched_task_group t)" "rq_curr (the_rq s) \<noteq> rq_idle (the_rq s)"
  shows "stays E U J b s (fork_setup E p (dup_task p t a b' s))"
proof (rule stays_given)
  assume k: "kernel_at E U J b s"
  note i = kernel_atD(1) [OF k]
  let ?c = "tasks s (rq_curr (the_rq s))" and ?d = "dup_task p t a b' s"
  note c = copiedD [OF t(1) refl]
  have "task_ok U s (rq_curr (the_rq s))" by (rule kernel_invD(7) [OF i kernel_invD(8) [OF i]])
  then have ok: "fits ?c" "rt_task_ok U s (rq_curr (the_rq s))" using t(3) by (simp_all add: task_ok_fits)
  have "p \<notin> on_rqs U s" using p(4) by (simp add: on_rqs_def)
  note o = sched_fork'_only [OF i this, of t a b']
  define u where "u = tasks (sched_fork' E p ?d) p"
  define x where "x = t_normal_prio (tasks (sched_fork' E p ?d) (rq_curr (the_rq s)))"
  obtain v where v: "fork_setup E p ?d = upd_task p (\<lambda>_. v) s"
    "t_on_rq v = t_on_rq u" "t_mm v = t_mm u" "t_active_mm v = t_active_mm u"
    "t_need_resched v = t_need_resched u" "t_rt v = t_rt u" "t_sched_task_group v = t_sched_task_group u"
    "t_state v = TASK_RUNNING"
    "100 \<le> t_static_prio u \<and> t_static_prio u < 140 \<longrightarrow> 100 \<le> t_static_prio v \<and> t_static_prio v < 140"
    "t_prio v = x \<and> t_normal_prio v = t_normal_prio u \<or>
       t_prio v = t_static_prio v \<and> t_normal_prio v = t_static_prio v"
    "t_sched_class v = (if rt_prio (t_prio v) then t_sched_class u else Fair_class)"
    by (rule fork_setup_task [OF o u_def x_def])
  have u: "t_on_rq u = 0" "t_mm u = t_mm t" "t_active_mm u = t_active_mm t" "t_rt u = t_rt t"
    "t_need_resched u = t_need_resched t" "t_static_prio u = t_static_prio t"
    "t_normal_prio u = t_normal_prio t" "t_sched_class u = t_sched_class t"
    "t_sched_task_group u = t_sched_task_group t"
    unfolding u_def by (simp_all add: sched_fork'_def dup_task_def Let_def)
  have x: "x = t_normal_prio ?c"
    unfolding x_def using p(3) by (simp add: sched_fork'_def dup_task_def Let_def)
  have fv: "fits v"
    using ok(1) v(9-11) u c x by (auto simp: fits_def rt_prio_def MAX_RT_PRIO_def split: if_splits)
  let ?s1 = "fork_setup E p ?d"
  show "stays E U J b s ?s1"
  proof (rule stays_fresh [OF _ p])
    show "only_task p s ?s1" unfolding v(1) by (rule only_task_upd1)
    show "task_ok U ?s1 p" if "task_ok U s p"
    proof -
      have "rt_task_ok U ?s1 p"
        using ok(2) that v(6) u(4) c(2,3) unfolding v(1) rt_task_ok_def task_ok_def Let_def by simp
      then show ?thesis using that fv p(2) v(1) by (simp add: task_ok_fits)
    qed
  qed (use v u c in simp_all)
qed

text \<open>Forking leaves the child a fit task off every queue, whatever the copied list heads held.\<close>

lemma stays_sched_fork:
  assumes e: "env_ok E J" and cc: "classes_contract E J"
    and p: "p \<in> live U" "p \<noteq> rq_idle (the_rq s)" "p \<noteq> rq_curr (the_rq s)" "t_on_rq (tasks s p) = 0"
    and t: "copied s t" "rt_group_ok U (t_sched_task_group t)" "rq_curr (the_rq s) \<noteq> rq_idle (the_rq s)"
  shows "stays E U J b s (sched_fork E p (dup_task p t a b' s))"
proof (rule stays_given)
  assume k: "kernel_at E U J b s"
  let ?d = "dup_task p t a b' s"
  let ?s1 = "fork_setup E p ?d"
  have st1: "stays E U J b s ?s1" by (rule stays_fork_setup [OF p t])
  note k1 = staysD(1) [OF st1 k]
  let ?s2 = "case co_task_fork (task_class E ?s1 p) of Some f \<Rightarrow> f p ?s1 | None \<Rightarrow> ?s1"
  have t2: "told E U J A ?s1 ?s2" for A
    unfolding task_class_def by (rule told_given, rule class_told(7) [OF e cc not_stop [OF _ p(1)]])
  note st2 = stays_trans [OF st1 stays_told [OF t2]]
  have "stays E U J b u (upd_task p (t_preempt_count_update (\<lambda>_. 1)) u)" for u
    by (rule stays_upd_task) (use kernel_atD(3) in \<open>auto simp: sys_core_def\<close>)
  from stays_trans [OF st2 this] show "stays E U J b s (sched_fork E p ?d)"
    by (simp add: sched_fork_alt Let_def)
qed

end
