(* ===== verification/Kernel_Steps.thy ===== *)
theory Kernel_Steps
  imports Regroup
begin

text \<open>
  The operations of the core as the steps of one machine, and what holds in every state it
  reaches: the flags, the queues of the classes and the counters agree, every task has a class and
  priorities that fit, and \<open>schedule\<close> returns.
\<close>

section \<open>The tick and yielding\<close>

lemma told_same:
  assumes "tasks s' = tasks s" "links s' = links s" "rt_rqs s' = rt_rqs s" "ext s' = ext s"
    "mm_counts s' = mm_counts s" "rq_wrr (the_rq s') = rq_wrr (the_rq s)"
    "rq_nr_running (the_rq s') = rq_nr_running (the_rq s)" "rq_idle (the_rq s') = rq_idle (the_rq s)"
    "rq_stop (the_rq s') = rq_stop (the_rq s)" "rq_curr (the_rq s') = rq_curr (the_rq s)"
    "rq_prev_mm (the_rq s') = rq_prev_mm (the_rq s)"
  shows "told E U J A s s'"
  by (rule told_foreign) (use assms in \<open>simp add: foreign_def quiet_def quiet0_def not_rt_def not_wrr_def\<close>)

lemma told_load_update:
  assumes "update_cpu_load_active E s = Some s'"
  shows "told E U J A s s'"
proof -
  obtain t where t: "update_cpu_load E s = Some t" "s' = calc_load_account_active E t"
    using assms by (auto simp: update_cpu_load_active_def)
  have 1: "told E U J A s t"
    by (rule told_same) (use t(1) in \<open>auto simp: update_cpu_load_def Let_def split: if_splits option.splits\<close>)
  have "told E U J A t (calc_load_account_active E t)"
    by (rule told_same) (auto simp: calc_load_account_active_def calc_load_fold_active_def Let_def)
  from told_trans [OF 1 this] show ?thesis using t(2) by simp
qed

lemma stays_scheduler_tick:
  assumes e: "env_ok E J" and cc: "classes_contract E J" and s': "scheduler_tick E s = Some s'"
  shows "stays E U J b s s'"
proof (rule stays_given)
  assume "kernel_at E U J b s"
  note i = kernel_atD(1) [OF this]
  let ?c = "rq_curr (the_rq s)" and ?s1 = "update_rq_clock E (s\<lparr>ext := x_sched_clock_tick E (ext s)\<rparr>)"
  obtain t where t: "update_cpu_load_active E ?s1 = Some t" "s' = co_task_tick (task_class E t ?c) ?c 0 t"
    using s' by (auto simp: scheduler_tick_def Let_def split: option.splits)
  have 0: "told E U J A s (s\<lparr>ext := x_sched_clock_tick E (ext s)\<rparr>)" for A
    by (rule told_ext) (use e in \<open>simp add: env_ok_def\<close>)
  note 1 = told_trans [OF told_trans [OF 0 told_clock [OF e]] told_load_update [OF t(1)]]
  have "told E U J A s s'" for A
  proof (rule told_given)
    assume iA: "kernel_inv E U J A s"
    note d = toldD [OF 1 iA]
    have c: "rq_curr (the_rq t) = ?c" using quiet_curr [OF d(2)] .
    have "t_sched_class (tasks t ?c) \<noteq> Stop_class"
      using not_stop [OF d(1) kernel_invD(8) [OF d(1)]] c by simp
    then have "told E U J A t (co_task_tick (class_of E (t_sched_class (tasks t ?c))) (rq_curr (the_rq t)) 0 t)"
      by (intro class_tick_told [OF e cc]) (simp_all add: c)
    from told_trans [OF 1 this] show "told E U J A s s'" using t(2) c by (simp add: task_class_def)
  qed
  then show "stays E U J b s s'" by (rule stays_told)
qed

lemma stays_yield_task:
  assumes e: "env_ok E J" and cc: "classes_contract E J"
  shows "stays E U J b s (co_yield_task (task_class E s (rq_curr (the_rq s))) s)"
proof -
  have "told E U J A s (co_yield_task (task_class E s (rq_curr (the_rq s))) s)" for A
    unfolding task_class_def
    by (rule told_given, rule class_told(8) [OF e cc]) (rule not_stop [OF _ kernel_invD(8)])
  then show ?thesis by (rule stays_told)
qed

lemma stays_period_timer:
  assumes "env_ok E J" and "rt_group_ok U g"
  shows "stays E U J b s (fst (do_sched_rt_period_timer E g n s))"
  by (rule stays_told) (rule rt_told(8) [OF assms])

lemma stays_preempt_count: "stays E U J b s (upd_task p (t_preempt_count_update f) s)"
  by (rule stays_upd_task) (use kernel_atD(3) in \<open>auto simp: sys_core_def\<close>)

text \<open>A task starts and ends to wait for a device.\<close>

lemma stays_nr_iowait: "stays E U J b s (upd_rq (rq_nr_iowait_update f) s)"
  by (rule stays_told) (rule told_same; simp)

lemma stays_in_iowait: "stays E U J b s (upd_task p (t_in_iowait_update f) s)"
  by (rule stays_upd_task) (use kernel_atD(3) in \<open>auto simp: sys_core_def\<close>)

lemmas stays_iowait = stays_trans [OF stays_nr_iowait stays_in_iowait]
lemmas stays_iowait' = stays_trans [OF stays_in_iowait stays_nr_iowait]

lemma stays_set_state:
  "p \<noteq> rq_idle (the_rq s) \<Longrightarrow> stays E U J b s (upd_task p (t_state_update (\<lambda>_. v)) s)"
  by (rule stays_upd_task) (simp_all add: sys_core_def)

section \<open>The scheduler as one machine\<close>

text \<open>What the code outside promises, taken together.\<close>

definition contracts :: "'x env \<Rightarrow> rt_se_ptr set \<Rightarrow> 'x fair_inv \<Rightarrow> bool" where
  "contracts E U J \<longleftrightarrow> env_ok E J \<and> classes_contract E J \<and> wq_contract E U J \<and> pi_contract E U \<and>
     groups_contract E J"

text \<open>
  A task other than the idle one. The idle task runs kernel code only: it makes no system call,
  does not sleep and is not woken.
\<close>

definition proper :: "rt_se_ptr set \<Rightarrow> 'x sys \<Rightarrow> task_ptr \<Rightarrow> bool" where
  "proper U s p \<longleftrightarrow> p \<in> live U \<and> p \<noteq> rq_idle (the_rq s)"

text \<open>
  One operation of the core, from the moment the run queue lock is taken until it is released. A
  blocked \<open>sched_setscheduler\<close> is split where it drops the lock: \<open>setscheduler_commit\<close> is its locked
  part, with a priority that the checks let through.
\<close>

inductive kernel_step :: "'x env \<Rightarrow> rt_se_ptr set \<Rightarrow> 'x fair_inv \<Rightarrow> 'x sys \<Rightarrow> 'x sys \<Rightarrow> bool" for E U J where
  schedules: "schedule E s = Some s' \<Longrightarrow> kernel_step E U J s s'"
| yields: "sys_sched_yield E s = Some s' \<Longrightarrow> kernel_step E U J s s'"
| resched_enter: "cond_resched_enter E s = Some s' \<Longrightarrow> kernel_step E U J s s'"
| resched_leave: "kernel_step E U J s (cond_resched_leave E s)"
| ticks: "scheduler_tick E s = Some s' \<Longrightarrow> kernel_step E U J s s'"
| rt_period: "rt_group_ok U g \<Longrightarrow> kernel_step E U J s (fst (do_sched_rt_period_timer E g n s))"
| wakes: "proper U s p \<Longrightarrow> kernel_step E U J s (fst (try_to_wake_up E p state flags s))"
| sets_state: "proper U s (curr s) \<Longrightarrow>
    kernel_step E U J s (upd_task (curr s) (t_state_update (\<lambda>_. v)) s)"
| forks: "proper U s p \<Longrightarrow> proper U s (curr s) \<Longrightarrow> p \<noteq> curr s \<Longrightarrow> t_on_rq (tasks s p) = 0 \<Longrightarrow>
    copied s t \<Longrightarrow> rt_group_ok U (t_sched_task_group t) \<Longrightarrow>
    kernel_step E U J s (sched_fork E p (dup_task p t a b s))"
| starts: "proper U s p \<Longrightarrow> t_on_rq (tasks s p) = 0 \<Longrightarrow> kernel_step E U J s (wake_up_new_task E p s)"
| nices: "proper U s (curr s) \<Longrightarrow> kernel_step E U J s (fst (sys_nice E increment s))"
| sets_nice: "proper U s p \<Longrightarrow> kernel_step E U J s (set_user_nice E p nice s)"
| sets_scheduler: "proper U s p \<Longrightarrow> 0 \<le> prio \<Longrightarrow> prio < 100 \<Longrightarrow>
    setscheduler_commit E p policy oldpolicy reset prio user s = Return s' r \<Longrightarrow> kernel_step E U J s s'"
| inherits: "p \<in> live U \<Longrightarrow> rt_mutex_setprio E p prio s = Some s' \<Longrightarrow> kernel_step E U J s s'"
| moves_group: "proper U s p \<Longrightarrow> rt_group_ok U tg \<Longrightarrow> kernel_step E U J s (sched_move_task E tg p s)"
| normalizes: "proper U s p \<Longrightarrow> kernel_step E U J s (normalize_thread E p s)"
| io_enters: "io_schedule_enter E s = Some s' \<Longrightarrow> kernel_step E U J s s'"
| io_leaves: "kernel_step E U J s (io_schedule_leave s)"
| elsewhere: "foreign J s s' \<Longrightarrow> kernel_step E U J s s'"

lemma contractsD:
  assumes "contracts E U J"
  shows "env_ok E J" "classes_contract E J" "wq_contract E U J" "pi_contract E U" "groups_contract E J"
  using assms by (simp_all add: contracts_def)

text \<open>What a step keeps: the invariant, and the references to every address space.\<close>

definition step_ok :: "'x env \<Rightarrow> rt_se_ptr set \<Rightarrow> 'x fair_inv \<Rightarrow> 'x sys \<Rightarrow> 'x sys \<Rightarrow> bool" where
  "step_ok E U J s s' \<longleftrightarrow> kernel_ok E U J s' \<and> mm_held s' = mm_held s \<and>
     rq_idle (the_rq s') = rq_idle (the_rq s)"

lemma step_ok_stays: "kernel_ok E U J s \<Longrightarrow> stays E U J True s s' \<Longrightarrow> step_ok E U J s s'"
  by (simp add: step_ok_def staysD(1,3) stays_held)

lemma step_ok_trans: "step_ok E U J s t \<Longrightarrow> step_ok E U J t u \<Longrightarrow> step_ok E U J s u"
  by (simp add: step_ok_def)

lemma step_ok_schedule':
  assumes "contracts E U J" and "step_ok E U J s0 s" and "schedule' E s = Some s'"
  shows "step_ok E U J s0 s'"
proof -
  have "kernel_ok E U J s" using assms(2) by (simp add: step_ok_def)
  with schedule'_ok [OF contractsD(1-3) [OF assms(1)], of s] assms(2,3) show ?thesis
    by (auto simp: step_ok_def)
qed

lemma kernel_step_ok:
  assumes c: "contracts E U J" and k: "kernel_ok E U J s" and st: "kernel_step E U J s s'"
  shows "step_ok E U J s s'"
proof -
  note e = contractsD(1) [OF c] and cc = contractsD(2) [OF c] and pi = contractsD(4) [OF c]
  note st_ok = step_ok_stays [OF k] and sch = step_ok_schedule' [OF c]
  have run: "curr s \<in> live U" by (rule kernel_invD(8) [OF kernel_atD(1) [OF k]])
  show ?thesis
    using st
  proof cases
    case schedules
    then show ?thesis using sch [OF st_ok [OF stays_refl]] by (simp add: schedule_def)
  next
    case yields
    then show ?thesis using sch [OF st_ok [OF stays_yield_task [OF e cc]]]
      by (simp add: sys_sched_yield_def schedule_def Let_def)
  next
    case resched_enter
    then show ?thesis using sch [OF st_ok [OF stays_preempt_count]]
      by (simp add: cond_resched_enter_def)
  next
    case resched_leave
    then show ?thesis using st_ok [OF stays_preempt_count] by (simp add: cond_resched_leave_def)
  next
    case ticks
    then show ?thesis by (intro st_ok stays_scheduler_tick [OF e cc])
  next
    case (rt_period g n)
    then show ?thesis using st_ok [OF stays_period_timer [OF e]] by simp
  next
    case (wakes p state flags)
    then show ?thesis using st_ok [OF stays_try_to_wake_up [OF e cc]] by (simp add: proper_def)
  next
    case (sets_state v)
    then show ?thesis using st_ok [OF stays_set_state] by (simp add: proper_def)
  next
    case (forks p t a b)
    then show ?thesis using st_ok [OF stays_sched_fork [OF e cc]] by (simp add: proper_def)
  next
    case (starts p)
    then show ?thesis using st_ok [OF stays_wake_up_new_task [OF e cc]] by (simp add: proper_def)
  next
    case (nices increment)
    then show ?thesis using st_ok [OF stays_sys_nice [OF e cc]] by (simp add: proper_def)
  next
    case (sets_nice p nice)
    then show ?thesis using st_ok [OF stays_set_user_nice [OF e cc]] by (simp add: proper_def)
  next
    case (sets_scheduler p prio policy oldpolicy reset user r)
    then show ?thesis
      by (intro st_ok stays_setscheduler_commit [OF e cc pi _ _ sets_scheduler(2,3,4)]) (simp_all add: proper_def)
  next
    case (inherits p prio)
    then show ?thesis by (intro st_ok stays_rt_mutex_setprio [OF e cc])
  next
    case (moves_group p tg)
    then show ?thesis using st_ok [OF stays_sched_move_task [OF e cc contractsD(5) [OF c]]] by (simp add: proper_def)
  next
    case (normalizes p)
    then show ?thesis using st_ok [OF stays_normalize_thread [OF e cc pi]] by (simp add: proper_def)
  next
    case io_enters
    then show ?thesis using sch [OF st_ok [OF stays_iowait]]
      by (simp add: io_schedule_enter_def schedule_def Let_def)
  next
    case io_leaves
    then show ?thesis using st_ok [OF stays_iowait'] by (simp add: io_schedule_leave_def Let_def)
  next
    case elsewhere
    then show ?thesis by (intro st_ok stays_told told_foreign)
  qed
qed

inductive kernel_reachable :: "'x env \<Rightarrow> rt_se_ptr set \<Rightarrow> 'x fair_inv \<Rightarrow> 'x sys \<Rightarrow> 'x sys \<Rightarrow> bool"
  for E U J s0 where
  reach_refl: "kernel_reachable E U J s0 s0"
| reach_step: "kernel_reachable E U J s0 s \<Longrightarrow> kernel_step E U J s s' \<Longrightarrow> kernel_reachable E U J s0 s'"

lemma kernel_reachable_ok:
  assumes "kernel_reachable E U J s0 s" and "contracts E U J" and "kernel_ok E U J s0"
  shows "kernel_ok E U J s" "mm_held s = mm_held s0" "rq_idle (the_rq s) = rq_idle (the_rq s0)"
proof -
  have "kernel_ok E U J s \<and> mm_held s = mm_held s0 \<and> rq_idle (the_rq s) = rq_idle (the_rq s0)"
    using assms(1) by (induction rule: kernel_reachable.induct)
      (use assms(2,3) kernel_step_ok [of E U J] in \<open>auto simp: step_ok_def\<close>)
  then show "kernel_ok E U J s" "mm_held s = mm_held s0" "rq_idle (the_rq s) = rq_idle (the_rq s0)"
    by simp_all
qed

section \<open>What holds in every reachable state\<close>

lemma kernel_ok_queues:
  assumes k: "kernel_ok E U J s"
  shows "(\<forall>p. TaskRtSe p \<in> U \<longrightarrow>
      (on_rt_rq E (TaskRtSe p) s \<longleftrightarrow> t_on_rq (tasks s p) \<noteq> 0 \<and> t_sched_class (tasks s p) = Rt_class) \<and>
      (on_wrr_rq E p s \<longleftrightarrow> t_on_rq (tasks s p) \<noteq> 0 \<and> t_sched_class (tasks s p) = Wrr_class)) \<and>
    J (ext s) {p. TaskRtSe p \<in> U \<and> t_on_rq (tasks s p) \<noteq> 0 \<and> t_sched_class (tasks s p) = Fair_class} \<and>
    rq_nr_running (the_rq s) = of_nat (card {p. TaskRtSe p \<in> U \<and> t_on_rq (tasks s p) \<noteq> 0}) \<and>
    t_on_rq (tasks s (rq_idle (the_rq s))) = 0 \<and>
    (t_on_rq (tasks s (curr s)) \<noteq> 0 \<or> curr s = rq_idle (the_rq s))"
proof -
  note i = kernel_atD(1) [OF k]
  note d = kernel_invD [OF i]
  have on: "on_rqs U s = {p. TaskRtSe p \<in> U \<and> t_on_rq (tasks s p) \<noteq> 0}" by (simp add: on_rqs_def live_def)
  have cls: "of_class (on_rqs U s) s c =
      {p. TaskRtSe p \<in> U \<and> t_on_rq (tasks s p) \<noteq> 0 \<and> t_sched_class (tasks s p) = c}" for c
    by (auto simp: on)
  obtain ts where ts: "wrr_inv E s ts" "set ts = of_class (on_rqs U s) s Wrr_class"
    using d(2) by (auto simp: wrr_holds_def)
  obtain Q where Q: "rt_good E U s Q" "\<And>p. rt_on Q (TaskRtSe p) \<longleftrightarrow> p \<in> of_class (on_rqs U s) s Rt_class"
    by (rule rt_holdsE [OF d(1)]) blast
  have "on_rt_rq E (TaskRtSe p) s \<longleftrightarrow> p \<in> of_class (on_rqs U s) s Rt_class" for p
    using rt_on_iff [OF Q(1)] Q(2) by blast
  moreover have "on_wrr_rq E p s \<longleftrightarrow> p \<in> of_class (on_rqs U s) s Wrr_class" for p
    using on_wrr_rq_iff [OF ts(1)] ts(2) by blast
  moreover have "t_on_rq (tasks s (rq_idle (the_rq s))) = 0" using d(6,9) by (simp add: on_rqs_def)
  ultimately show ?thesis
    using d(3,4) kernel_atD(4) [OF k] unfolding cls on by auto
qed

text \<open>
  C2: In every state the scheduler reaches from a good one, by any sequence of scheduling, waking,
  forking, ticking, moving between groups and changing of nice values, priorities and policies, the
  flags, queues and counters agree: a task is linked into a real-time array exactly when \<open>on_rq\<close> is set and its class
  is the real-time one, into the round-robin queue exactly when \<open>on_rq\<close> is set and its class is
  that one, the fair class holds exactly the others with \<open>on_rq\<close> set, \<open>nr_running\<close> counts them all,
  the idle task is on no queue, and the running task is runnable or the idle one.
\<close>

theorem kernel_queues_agree:
  assumes "contracts E U J" and "kernel_ok E U J s0" and "kernel_reachable E U J s0 s"
  shows "(\<forall>p. TaskRtSe p \<in> U \<longrightarrow>
      (on_rt_rq E (TaskRtSe p) s \<longleftrightarrow> t_on_rq (tasks s p) \<noteq> 0 \<and> t_sched_class (tasks s p) = Rt_class) \<and>
      (on_wrr_rq E p s \<longleftrightarrow> t_on_rq (tasks s p) \<noteq> 0 \<and> t_sched_class (tasks s p) = Wrr_class)) \<and>
    J (ext s) {p. TaskRtSe p \<in> U \<and> t_on_rq (tasks s p) \<noteq> 0 \<and> t_sched_class (tasks s p) = Fair_class} \<and>
    rq_nr_running (the_rq s) = of_nat (card {p. TaskRtSe p \<in> U \<and> t_on_rq (tasks s p) \<noteq> 0}) \<and>
    t_on_rq (tasks s (rq_idle (the_rq s))) = 0 \<and>
    (t_on_rq (tasks s (curr s)) \<noteq> 0 \<or> curr s = rq_idle (the_rq s))"
  by (rule kernel_ok_queues [OF kernel_reachable_ok(1) [OF assms(3,1,2)]])

text \<open>
  C4: In every such state \<open>schedule\<close> returns: there is always a task to run, no BUG and no NULL
  address space is hit, and the passes end with a running task that is not marked for
  rescheduling.
\<close>

theorem schedule_returns:
  assumes "contracts E U J" and "kernel_ok E U J s0" and "kernel_reachable E U J s0 s"
  shows "\<exists>s'. schedule E s = Some s' \<and> \<not> test_tsk_need_resched (curr s') s'"
  using schedule'_ok [OF contractsD(1-3) [OF assms(1)] kernel_reachable_ok(1) [OF assms(3,1,2)]]
  by (auto simp: schedule_def)

text \<open>
  C34: In every such state a task's class and priorities fit each other: the static priority indexes
  the tables of load weights, a task of the real-time class has a priority that indexes its
  arrays, and nobody but the idle task is in the idle class.
\<close>

theorem priorities_in_range:
  assumes "contracts E U J" and "kernel_ok E U J s0" and "kernel_reachable E U J s0 s"
    and "TaskRtSe p \<in> U"
  shows "0 \<le> t_static_prio (tasks s p) - MAX_RT_PRIO \<and>
    nat (t_static_prio (tasks s p) - MAX_RT_PRIO) < length prio_to_weight \<and>
    nat (t_static_prio (tasks s p) - MAX_RT_PRIO) < length prio_to_wmult \<and>
    (t_sched_class (tasks s p) = Rt_class \<longrightarrow> 0 \<le> t_prio (tasks s p) \<and> t_prio (tasks s p) < MAX_RT_PRIO) \<and>
    (t_sched_class (tasks s p) = Idle_class \<longleftrightarrow> p = rq_idle (the_rq s)) \<and>
    t_sched_class (tasks s p) \<noteq> Stop_class"
proof -
  have "p \<in> live U" using assms(4) by (simp add: live_def)
  then have "task_ok U s p"
    using kernel_invD(7) kernel_atD(1) kernel_reachable_ok(1) [OF assms(3,1,2)] by blast
  then show ?thesis by (auto simp: task_ok_def MAX_RT_PRIO_def prio_to_weight_def prio_to_wmult_def)
qed

text \<open>
  C27: Lazy switching of address spaces keeps the reference counts balanced: in every state the
  scheduler reaches, the count of an address space is the number of references it had at first,
  less the one of the task that borrowed it then, plus one exactly when the running task borrows it
  now, having none of its own.
\<close>

theorem mm_references_balance:
  assumes "contracts E U J" and "kernel_ok E U J s0" and "kernel_reachable E U J s0 s"
  shows "mm_counts s m - (if t_mm (tasks s (curr s)) = None \<and> t_active_mm (tasks s (curr s)) = Some m then 1 else 0) =
    mm_counts s0 m - (if t_mm (tasks s0 (curr s0)) = None \<and> t_active_mm (tasks s0 (curr s0)) = Some m then 1 else 0)"
  using fun_cong [OF kernel_reachable_ok(2) [OF assms(3,1,2)], of m]
  by (simp add: mm_held_def borrows_def split: if_splits)

section \<open>The properties on a sample machine\<close>

text \<open>
  Task 0 idles, tasks 1 and 2 are round-robin tasks, task 3 is a real-time task of priority 40 and
  task 4 a fair one; all are asleep at first.
\<close>

definition kernel_sample :: "sample_ext sys" where
  "kernel_sample = sample_sys\<lparr>tasks := sample_tasks
     (3 := sample_task\<lparr>t_sched_class := Rt_class, t_policy := SCHED_FIFO, t_prio := 40,
        t_normal_prio := 40, t_rt_priority := 59\<rparr>)\<rparr>"

definition kernel_universe :: "rt_se_ptr set" where
  "kernel_universe = TaskRtSe ` {0, 1, 2, 3, 4}"

definition sample_tracks :: "sample_ext \<Rightarrow> task_ptr set \<Rightarrow> bool" where
  "sample_tracks x F \<longleftrightarrow> distinct (smp_fairq x) \<and> set (smp_fairq x) = F"

lemma foreign_refl: "foreign J s s"
  by (simp add: foreign_def)

lemma sample_contracts: "contracts sample_env kernel_universe sample_tracks"
proof -
  have "env_ok sample_env sample_tracks" by (simp add: env_ok_def sample_env_def)
  moreover have "classes_contract sample_env sample_tracks"
    unfolding classes_contract_def Let_def
    by (intro conjI)
      (auto simp: sample_class_def sample_fair_def notices_foreign_def noop_class_def sample_tracks_def
        inc_nr_running_def dec_nr_running_def quiet0_def not_rt_def not_wrr_def distinct_card foreign_refl distinct_removeAll
        split: list.splits)
  moreover have "wq_contract sample_env kernel_universe sample_tracks"
    by (simp add: wq_contract_def sample_env_def)
  moreover have "pi_contract sample_env kernel_universe"
    by (simp add: pi_contract_def boosts_refl)
  moreover have "groups_contract sample_env sample_tracks"
    by (auto simp: groups_contract_def class_of_def sample_env_def sample_class_def sample_fair_def noop_class_def
        rt_sched_class_def wrr_sched_class_def split: sched_class.splits)
  ultimately show ?thesis by (simp add: contracts_def)
qed

lemma kernel_sample_tasks:
  assumes "p \<in> live kernel_universe"
  shows "t_on_rq (tasks kernel_sample p) = 0" "task_ok kernel_universe kernel_sample p"
    "t_active_mm (tasks kernel_sample p) = t_mm (tasks kernel_sample p)"
  using assms
  by (auto simp: live_def kernel_universe_def kernel_sample_def sample_sys_def sample_tasks_def
      sample_wrr_task_def sample_task_def sample_rq_def task_ok_def rt_task_ok_def max_tasks_def)

lemma kernel_sample_ok: "kernel_ok sample_env kernel_universe sample_tracks kernel_sample"
proof -
  let ?s = kernel_sample
  have on: "on_rqs kernel_universe ?s = {}" using kernel_sample_tasks(1) by (auto simp: on_rqs_def)
  have "rt_good sample_env kernel_universe (rt_sample\<lparr>sysctl_rt_runtime := 0\<rparr>) (\<lambda>_. [])"
    by (rule rt_sample_empty) (auto simp: rt_universe_def kernel_universe_def)
  then have "rt_good sample_env kernel_universe ?s (\<lambda>_. [])"
    by (rule rt_good_outside) (simp_all add: kernel_sample_def rt_sample_def rt_on_def)
  then have rt: "rt_holds sample_env kernel_universe ?s {}" by (rule rt_holdsI) (simp_all add: rt_on_def)
  have "wrr_inv sample_env ?s []"
    by (auto simp: wrr_inv_def on_queue_def kernel_sample_def sample_sys_def sample_rq_def is_list_Nil inj_on_def)
  then have wrr: "wrr_holds sample_env ?s {}" by (auto simp: wrr_holds_def)
  have c: "rq_curr (the_rq ?s) = 0" "rq_idle (the_rq ?s) = 0" "rq_stop (the_rq ?s) = None"
    "rq_nr_running (the_rq ?s) = 0" "rq_prev_mm (the_rq ?s) = None" "sample_tracks (ext ?s) {}"
    "t_mm (tasks ?s 0) = Some 1" "t_state (tasks ?s 0) = TASK_RUNNING"
    by (simp_all add: kernel_sample_def sample_sys_def sample_rq_def sample_tracks_def sample_tasks_def
        sample_task_def TASK_RUNNING_def)
  have l: "0 \<in> live kernel_universe" by (simp add: live_def kernel_universe_def)
  have i: "kernel_inv sample_env kernel_universe sample_tracks {} ?s"
    using rt wrr c l kernel_sample_tasks(2) by (simp add: kernel_inv_def)
  have "mm_ok kernel_universe ?s" using c l kernel_sample_tasks(3) by (simp add: mm_ok_def)
  then show ?thesis using i c by (simp add: kernel_at_def on)
qed

text \<open>Tasks 1 and 3 are started.\<close>

definition kernel_sample_run :: "sample_ext sys" where
  "kernel_sample_run = wake_up_new_task sample_env 3 (wake_up_new_task sample_env 1 kernel_sample)"

lemma wake_up_new_task_flags:
  assumes c: "contracts E U J" and k: "kernel_ok E U J s" and p: "proper U s p" "t_on_rq (tasks s p) = 0"
  shows "t_on_rq (tasks (wake_up_new_task E p s) q) = (if q = p then 1 else t_on_rq (tasks s q))"
    and "t_sched_class (tasks (wake_up_new_task E p s) q) = t_sched_class (tasks s q)"
    and "rq_idle (the_rq (wake_up_new_task E p s)) = rq_idle (the_rq s)"
    and "t_active_mm (tasks (wake_up_new_task E p s) q) = t_active_mm (tasks s q)"
    and "t_policy (tasks (wake_up_new_task E p s) q) = t_policy (tasks s q)"
    and "t_sched_reset_on_fork (tasks (wake_up_new_task E p s) q) = t_sched_reset_on_fork (tasks s q)"
    and "t_sched_task_group (tasks (wake_up_new_task E p s) q) = t_sched_task_group (tasks s q)"
    and "rse_rt_rq (t_rt (tasks (wake_up_new_task E p s) q)) = rse_rt_rq (t_rt (tasks s q))"
proof -
  note e = contractsD(1) [OF c] and cc = contractsD(2) [OF c]
  let ?t = "upd_task p (t_on_rq_update (\<lambda>_. 1)) (activate_task E p 0 s)"
  have off: "p \<notin> on_rqs U s" and l: "p \<in> live U" "p \<noteq> rq_idle (the_rq s)"
    using p by (simp_all add: on_rqs_def proper_def)
  note r = requeuedD [OF activate_task_requeued [OF e cc kernel_atD(1) [OF k] l off, of 0]]
  have "kernel_inv E U J (insert p (on_rqs U s)) ?t" by (rule kernel_inv_upd_task [OF r(1)]) (simp add: sys_core_def)
  note t = toldD [OF told_check_preempt [OF e cc, where p = p and flags = WF_FORK] this]
  show "t_on_rq (tasks (wake_up_new_task E p s) q) = (if q = p then 1 else t_on_rq (tasks s q))"
    "t_sched_class (tasks (wake_up_new_task E p s) q) = t_sched_class (tasks s q)"
    using sys_coreD(1,2) [OF t(3) [of q]] r(6,7) by (simp_all add: wake_up_new_task_def Let_def)
  show "rq_idle (the_rq (wake_up_new_task E p s)) = rq_idle (the_rq s)"
    "t_active_mm (tasks (wake_up_new_task E p s) q) = t_active_mm (tasks s q)"
    using t(2) r(2,5) by (simp_all add: wake_up_new_task_def Let_def quiet_def quiet0_def)
  show "t_policy (tasks (wake_up_new_task E p s) q) = t_policy (tasks s q)"
    "t_sched_reset_on_fork (tasks (wake_up_new_task E p s) q) = t_sched_reset_on_fork (tasks s q)"
    "t_sched_task_group (tasks (wake_up_new_task E p s) q) = t_sched_task_group (tasks s q)"
    "rse_rt_rq (t_rt (tasks (wake_up_new_task E p s) q)) = rse_rt_rq (t_rt (tasks s q))"
    using sys_coreD(3,8,9,11) [OF t(3) [of q]] sys_coreD(3,8,9,11) [OF r(3)]
    by (simp_all add: wake_up_new_task_def Let_def)
qed

lemma kernel_sample_reach:
  "kernel_reachable sample_env kernel_universe sample_tracks kernel_sample kernel_sample_run"
  "\<And>p. p \<in> {0, 1, 2, 3, 4} \<Longrightarrow> t_on_rq (tasks kernel_sample_run p) = (if p = 1 \<or> p = 3 then 1 else 0)"
  "t_sched_class (tasks kernel_sample_run p) = t_sched_class (tasks kernel_sample p)"
  "t_sched_task_group (tasks kernel_sample_run p) = t_sched_task_group (tasks kernel_sample p)"
  "rse_rt_rq (t_rt (tasks kernel_sample_run p)) = rse_rt_rq (t_rt (tasks kernel_sample p))"
proof -
  let ?s = "wake_up_new_task sample_env 1 kernel_sample"
  have "rq_idle (the_rq kernel_sample) = 0" by (simp add: kernel_sample_def sample_sys_def sample_rq_def)
  then have p1: "proper kernel_universe kernel_sample 1"
    by (simp add: proper_def live_def kernel_universe_def)
  have off: "t_on_rq (tasks kernel_sample p) = 0" if "p \<in> {0, 1, 2, 3, 4}" for p
    by (rule kernel_sample_tasks(1)) (use that in \<open>auto simp: live_def kernel_universe_def\<close>)
  have off1: "t_on_rq (tasks kernel_sample 1) = 0" by (rule off) simp
  note f1 = wake_up_new_task_flags [OF sample_contracts kernel_sample_ok p1 off1]
  note 1 = reach_step [OF reach_refl starts [OF p1 off1]]
  have k1: "kernel_ok sample_env kernel_universe sample_tracks ?s"
    using kernel_reachable_ok(1) [OF 1 sample_contracts kernel_sample_ok] by simp
  have p3: "proper kernel_universe ?s 3"
    using f1(3) \<open>rq_idle (the_rq kernel_sample) = 0\<close> by (simp add: proper_def live_def kernel_universe_def)
  have off3: "t_on_rq (tasks ?s 3) = 0" unfolding f1(1) using off [of 3] by simp
  note f3 = wake_up_new_task_flags [OF sample_contracts k1 p3 off3]
  show "kernel_reachable sample_env kernel_universe sample_tracks kernel_sample kernel_sample_run"
    using reach_step [OF 1 starts [OF p3 off3]] by (simp add: kernel_sample_run_def)
  show "t_on_rq (tasks kernel_sample_run p) = (if p = 1 \<or> p = 3 then 1 else 0)" if "p \<in> {0, 1, 2, 3, 4}" for p
    unfolding kernel_sample_run_def f3(1) f1(1) using off [OF that] by simp
  show "t_sched_class (tasks kernel_sample_run p) = t_sched_class (tasks kernel_sample p)"
    "t_sched_task_group (tasks kernel_sample_run p) = t_sched_task_group (tasks kernel_sample p)"
    "rse_rt_rq (t_rt (tasks kernel_sample_run p)) = rse_rt_rq (t_rt (tasks kernel_sample p))"
    using f1(2,7,8) f3(2,7,8) by (simp_all add: kernel_sample_run_def)
qed

lemma kernel_sample_classes:
  "t_sched_class (tasks kernel_sample 1) = Wrr_class" "t_sched_class (tasks kernel_sample 2) = Wrr_class"
  "t_sched_class (tasks kernel_sample 3) = Rt_class"
  by (simp_all add: kernel_sample_def sample_tasks_def sample_wrr_task_def)

lemmas kernel_sample_run_facts = kernel_sample_reach(2) [of 1] kernel_sample_reach(2) [of 2]
  kernel_sample_reach(2) [of 3] kernel_sample_reach(3) [of 1] kernel_sample_reach(3) [of 2]
  kernel_sample_reach(3) [of 3] kernel_sample_classes

theorem kernel_queues_agree_witness:
  "on_wrr_rq sample_env 1 kernel_sample_run \<and> \<not> on_wrr_rq sample_env 2 kernel_sample_run \<and>
   on_rt_rq sample_env (TaskRtSe 3) kernel_sample_run"
proof -
  have "\<forall>p. TaskRtSe p \<in> kernel_universe \<longrightarrow>
      (on_rt_rq sample_env (TaskRtSe p) kernel_sample_run \<longleftrightarrow>
         t_on_rq (tasks kernel_sample_run p) \<noteq> 0 \<and> t_sched_class (tasks kernel_sample_run p) = Rt_class) \<and>
      (on_wrr_rq sample_env p kernel_sample_run \<longleftrightarrow>
         t_on_rq (tasks kernel_sample_run p) \<noteq> 0 \<and> t_sched_class (tasks kernel_sample_run p) = Wrr_class)"
    using kernel_queues_agree [OF sample_contracts kernel_sample_ok kernel_sample_reach(1)] by (rule conjunct1)
  then show ?thesis using kernel_sample_run_facts by (simp add: kernel_universe_def)
qed

theorem schedule_returns_witness:
  "\<exists>s'. schedule sample_env kernel_sample_run = Some s' \<and> \<not> test_tsk_need_resched (curr s') s'"
  by (rule schedule_returns [OF sample_contracts kernel_sample_ok kernel_sample_reach(1)])

theorem mm_references_balance_witness:
  "mm_counts kernel_sample_run 1 - (if t_mm (tasks kernel_sample_run (curr kernel_sample_run)) = None \<and>
      t_active_mm (tasks kernel_sample_run (curr kernel_sample_run)) = Some 1 then 1 else 0) = 1"
  using mm_references_balance [OF sample_contracts kernel_sample_ok kernel_sample_reach(1), of 1]
  by (simp add: kernel_sample_def sample_sys_def sample_rq_def sample_tasks_def sample_task_def)

theorem priorities_in_range_witness:
  "nat (t_static_prio (tasks kernel_sample_run 3) - MAX_RT_PRIO) < length prio_to_weight"
  using priorities_in_range [OF sample_contracts kernel_sample_ok kernel_sample_reach(1), of 3]
  by (simp add: kernel_universe_def)

lemma kernel_sample_run_inv:
  "kernel_inv sample_env kernel_universe sample_tracks {1, 3} kernel_sample_run"
proof -
  have "on_rqs kernel_universe kernel_sample_run =
      {p \<in> {0, 1, 2, 3, 4}. t_on_rq (tasks kernel_sample_run p) \<noteq> 0}"
    unfolding on_rqs_def live_def kernel_universe_def by blast
  also have "\<dots> = {p \<in> {0, 1, 2, 3, 4}. p = 1 \<or> p = 3}"
    by (rule Collect_cong) (metis kernel_sample_reach(2) zero_neq_one)
  finally have "on_rqs kernel_universe kernel_sample_run = {1, 3}" by auto
  then show ?thesis
    using kernel_atD(1) [OF kernel_reachable_ok(1) [OF kernel_sample_reach(1) sample_contracts kernel_sample_ok]]
    by simp
qed

theorem pick_next_task_shortcut_witness:
  "pick_next_task sample_env kernel_sample_run = pick_from sample_env (all_classes sample_env) kernel_sample_run"
  by (rule pick_next_task_shortcut [OF contractsD(2) [OF sample_contracts] kernel_sample_run_inv])

theorem pick_next_task_order_witness:
  "\<exists>s' p. pick_next_task sample_env kernel_sample_run = Some (s', p)"
  using pick_next_task_order [OF contractsD(2) [OF sample_contracts] kernel_sample_run_inv] by blast

text \<open>The fair task 4 runs.\<close>

definition kernel_busy :: "sample_ext sys" where
  "kernel_busy = upd_rq (rq_curr_update (\<lambda>_. 4)) (wake_up_new_task sample_env 4 kernel_sample)"

lemma kernel_busy_ok:
  "kernel_ok sample_env kernel_universe sample_tracks kernel_busy"
  "proper kernel_universe kernel_busy 4" "curr kernel_busy = 4"
  "t_policy (tasks kernel_busy 4) = SCHED_NORMAL" "\<not> t_sched_reset_on_fork (tasks kernel_busy 4)"
proof -
  let ?s = "wake_up_new_task sample_env 4 kernel_sample"
  have idle: "rq_idle (the_rq kernel_sample) = 0" by (simp add: kernel_sample_def sample_sys_def sample_rq_def)
  have l: "4 \<in> live kernel_universe" by (simp add: live_def kernel_universe_def)
  then have p: "proper kernel_universe kernel_sample 4" using idle by (simp add: proper_def)
  note f = wake_up_new_task_flags [OF sample_contracts kernel_sample_ok p kernel_sample_tasks(1) [OF l]]
  have k: "kernel_ok sample_env kernel_universe sample_tracks ?s"
    using kernel_reachable_ok(1) [OF reach_step [OF reach_refl starts [OF p kernel_sample_tasks(1) [OF l]]]
      sample_contracts kernel_sample_ok] .
  note k4 = kernel_atD [OF k]
  have "kernel_inv sample_env kernel_universe sample_tracks (on_rqs kernel_universe ?s) kernel_busy"
    unfolding kernel_busy_def by (rule kernel_inv_upd_rq [OF k4(1)]) (simp_all add: l)
  moreover have "on_rqs kernel_universe kernel_busy = on_rqs kernel_universe ?s"
    by (simp add: on_rqs_def kernel_busy_def)
  moreover have "t_active_mm (tasks ?s 4) \<noteq> None"
    unfolding f(4) by (simp add: kernel_sample_def sample_tasks_def sample_task_def)
  then have "mm_ok kernel_universe kernel_busy" using k4(2) by (simp add: mm_ok_def kernel_busy_def)
  ultimately show "kernel_ok sample_env kernel_universe sample_tracks kernel_busy"
    using k4(3) f(1) [of 4] by (simp add: kernel_at_def kernel_busy_def)
  show "proper kernel_universe kernel_busy 4" "curr kernel_busy = 4"
    using l f(3) idle by (simp_all add: proper_def kernel_busy_def)
  show "t_policy (tasks kernel_busy 4) = SCHED_NORMAL" "\<not> t_sched_reset_on_fork (tasks kernel_busy 4)"
    using f(5,6) by (simp_all add: kernel_busy_def kernel_sample_def sample_tasks_def sample_task_def)
qed

end
