(* ===== verification/Core_Spec.thy ===== *)
theory Core_Spec
  imports Kernel_Steps
begin

text \<open>
  What the operations of the core achieve, beyond keeping the invariant: waking a task queues it
  and preempts a task of a lower class, nice values select the load weight, and
  \<open>sched_setscheduler\<close> sets what \<open>sched_getscheduler\<close> and \<open>sched_getparam\<close> report, or changes nothing.
\<close>

section \<open>Waking a task\<close>

lemma preempt_search_rank:
  assumes "classes_contract E J"
  shows "preempt_search c d (all_classes E) \<longleftrightarrow> d < c"
  unfolding all_classes_eq [OF assms]
  by (cases c; cases d) (simp_all add: less_sched_class_def)

lemma check_preempt_rank:
  assumes "classes_contract E J" and "t_sched_class (tasks s p) < t_sched_class (tasks s (curr s))"
  shows "t_need_resched (tasks (check_preempt_curr E p flags s) (curr s))"
  using assms(2) preempt_search_rank [OF assms(1)] less_imp_neq [OF assms(2)]
  by (simp add: check_preempt_curr_def Let_def resched_task_def set_tsk_need_resched_def)

text \<open>A task is woken exactly when it sleeps in one of the states asked for.\<close>

lemma try_to_wake_up_alt:
  "try_to_wake_up E p state flags s =
     (if and (t_state (tasks s p)) state = 0 then (s, False)
      else if t_on_rq (tasks s p) \<noteq> 0 then (ttwu_do_wakeup E p flags s, True)
      else (ttwu_do_wakeup E p 0 (ttwu_activate E p ENQUEUE_WAKEUP s), True))"
  by (simp add: try_to_wake_up_def ttwu_remote_def ttwu_queue_def ttwu_do_activate_def Let_def)

lemma ttwu_do_wakeup_told:
  assumes c: "contracts E U J" and i: "kernel_inv E U J A s"
  shows "sys_core (tasks (ttwu_do_wakeup E p flags s) q) = sys_core (tasks s q)"
    "t_state (tasks (ttwu_do_wakeup E p flags s) p) = TASK_RUNNING"
    "rq_nr_running (the_rq (ttwu_do_wakeup E p flags s)) = rq_nr_running (the_rq s)"
    "t_sched_class (tasks s p) < t_sched_class (tasks s (curr s)) \<Longrightarrow>
       t_need_resched (tasks (ttwu_do_wakeup E p flags s) (curr s))"
proof -
  note t = toldD [OF told_check_preempt [OF contractsD(1,2) [OF c], where p = p and flags = flags] i]
  show "sys_core (tasks (ttwu_do_wakeup E p flags s) q) = sys_core (tasks s q)"
    unfolding t(3) [of q, symmetric] by (simp add: ttwu_do_wakeup_def Let_def sys_core_def)
  show "t_state (tasks (ttwu_do_wakeup E p flags s) p) = TASK_RUNNING"
    "rq_nr_running (the_rq (ttwu_do_wakeup E p flags s)) = rq_nr_running (the_rq s)"
    using t(2) by (simp_all add: ttwu_do_wakeup_def Let_def quiet_def)
  show "t_need_resched (tasks (ttwu_do_wakeup E p flags s) (curr s))"
    if "t_sched_class (tasks s p) < t_sched_class (tasks s (curr s))"
    using check_preempt_rank [OF contractsD(2) [OF c] that, of flags] by (auto simp: ttwu_do_wakeup_def Let_def)
qed

lemma ttwu_activate_requeued:
  assumes c: "contracts E U J" and i: "kernel_inv E U J A s" and p: "proper U s p" "p \<notin> A"
  shows "kernel_inv E U J (insert p A) (ttwu_activate E p flags s)"
    "rq_nr_running (the_rq (ttwu_activate E p flags s)) = rq_nr_running (the_rq s) + 1"
    "curr (ttwu_activate E p flags s) = curr s"
    "t_on_rq (tasks (ttwu_activate E p flags s) q) = (if q = p then 1 else t_on_rq (tasks s q))"
    "t_sched_class (tasks (ttwu_activate E p flags s) q) = t_sched_class (tasks s q)"
proof -
  note e = contractsD(1) [OF c] and cc = contractsD(2) [OF c]
  let ?t = "upd_task p (t_on_rq_update (\<lambda>_. 1)) (activate_task E p flags s)"
  let ?b = "and (t_flags (tasks ?t p)) PF_WQ_WORKER \<noteq> 0"
  have l: "p \<in> live U" "p \<noteq> rq_idle (the_rq s)" using p by (simp_all add: proper_def)
  note r = requeuedD [OF activate_task_requeued [OF e cc i l p(2), of flags]]
  have t: "kernel_inv E U J (insert p A) ?t" by (rule kernel_inv_upd_task [OF r(1)]) (simp add: sys_core_def)
  have eq: "ttwu_activate E p flags s =
      (if ?b then ?t\<lparr>ext := x_wq_worker_waking_up E p (ext ?t)\<rparr> else ?t)"
    by (simp add: ttwu_activate_def Let_def)
  note d = toldD [OF told_waking_up [OF e, of U "insert p A" ?t ?b p] t, folded eq]
  have fin: "finite A" using finite_subset [OF kernel_invD(5) [OF i] finite_live [OF i]] .
  show i': "kernel_inv E U J (insert p A) (ttwu_activate E p flags s)" by (rule d(1))
  show "rq_nr_running (the_rq (ttwu_activate E p flags s)) = rq_nr_running (the_rq s) + 1"
    using kernel_invD(4) [OF i'] kernel_invD(4) [OF i] p(2) fin by simp
  show "curr (ttwu_activate E p flags s) = curr s" using d(2) r(4) by (simp add: quiet_def quiet0_def)
  show "t_on_rq (tasks (ttwu_activate E p flags s) q) = (if q = p then 1 else t_on_rq (tasks s q))"
    "t_sched_class (tasks (ttwu_activate E p flags s) q) = t_sched_class (tasks s q)"
    using sys_coreD(1,2) [OF d(3) [of q]] r(6,7) by simp_all
qed

text \<open>
  C17: \<open>try_to_wake_up\<close> wakes a task exactly when it is in one of the states asked for, and returns
  whether it did. A woken task is runnable and in the queue of its class, whether it slept on no
  queue or was about to sleep, and is counted once; if its class goes before that of the running
  task, the running task must reschedule.
\<close>

theorem wakeup_queues_task:
  assumes c: "contracts E U J" and k: "kernel_ok E U J s" and p: "proper U s p"
    and w: "try_to_wake_up E p state flags s = (s', woken)"
  shows "(woken \<longleftrightarrow> and (t_state (tasks s p)) state \<noteq> 0) \<and> (\<not> woken \<longrightarrow> s' = s) \<and>
    (woken \<longrightarrow> t_state (tasks s' p) = TASK_RUNNING \<and> t_on_rq (tasks s' p) \<noteq> 0 \<and>
       (on_rt_rq E (TaskRtSe p) s' \<longleftrightarrow> t_sched_class (tasks s p) = Rt_class) \<and>
       (on_wrr_rq E p s' \<longleftrightarrow> t_sched_class (tasks s p) = Wrr_class) \<and>
       rq_nr_running (the_rq s') = rq_nr_running (the_rq s) + (if t_on_rq (tasks s p) = 0 then 1 else 0) \<and>
       (t_sched_class (tasks s p) < t_sched_class (tasks s (curr s)) \<longrightarrow> t_need_resched (tasks s' (curr s))))"
proof (cases "and (t_state (tasks s p)) state = 0")
  case True
  then show ?thesis using w by (simp add: try_to_wake_up_alt)
next
  case False
  have l: "p \<in> live U" "p \<noteq> rq_idle (the_rq s)" using p by (simp_all add: proper_def)
  let ?s = "if t_on_rq (tasks s p) \<noteq> 0 then s else ttwu_activate E p ENQUEUE_WAKEUP s"
  let ?f = "if t_on_rq (tasks s p) \<noteq> 0 then flags else 0"
  have s': "s' = ttwu_do_wakeup E p ?f ?s" "woken"
    using w False by (simp_all add: try_to_wake_up_alt split: if_splits)
  have 1: "kernel_inv E U J (insert p (on_rqs U s)) ?s \<and> curr ?s = curr s \<and>
      t_on_rq (tasks ?s p) \<noteq> 0 \<and> (\<forall>q. t_sched_class (tasks ?s q) = t_sched_class (tasks s q)) \<and>
      rq_nr_running (the_rq ?s) = rq_nr_running (the_rq s) + (if t_on_rq (tasks s p) = 0 then 1 else 0)"
  proof (cases "t_on_rq (tasks s p) = 0")
    case True
    then have "p \<notin> on_rqs U s" by (simp add: on_rqs_def)
    note a = ttwu_activate_requeued [OF c kernel_atD(1) [OF k] p this]
    show ?thesis using True a by simp
  next
    case False
    then have "insert p (on_rqs U s) = on_rqs U s" using l(1) by (auto simp: on_rqs_def)
    then show ?thesis using False kernel_atD(1) [OF k] by simp
  qed
  note t = ttwu_do_wakeup_told [OF c conjunct1 [OF 1], where p = p and flags = ?f, folded s'(1)]
  have "stays E U J True s s'"
    using stays_try_to_wake_up [OF contractsD(1,2) [OF c] l, where b = True and state = state and flags = flags] w by simp
  then have "kernel_ok E U J s'" using k by (rule staysD(1))
  note q = kernel_ok_queues [OF this]
  have f: "t_on_rq (tasks s' p) \<noteq> 0" "t_sched_class (tasks s' p) = t_sched_class (tasks s p)"
    using sys_coreD(1,2) [OF t(1)] 1 by simp_all
  have "TaskRtSe p \<in> U" using l(1) by (simp add: live_def)
  then have "on_rt_rq E (TaskRtSe p) s' \<longleftrightarrow> t_sched_class (tasks s p) = Rt_class"
    "on_wrr_rq E p s' \<longleftrightarrow> t_sched_class (tasks s p) = Wrr_class"
    using q f by simp_all
  then show ?thesis using False s'(2) t(2-4) f 1 by simp
qed

section \<open>What a change between two queueings leaves\<close>

definition core_same :: "'x sys \<Rightarrow> 'x sys \<Rightarrow> bool" where
  "core_same s s' \<longleftrightarrow> (\<forall>q. sys_core (tasks s' q) = sys_core (tasks s q))"

lemma core_same_refl: "core_same s s"
  by (simp add: core_same_def)

lemma core_same_trans: "core_same s t \<Longrightarrow> core_same t u \<Longrightarrow> core_same s u"
  by (simp add: core_same_def)

lemma core_same_told: "told E U J A s s' \<Longrightarrow> kernel_inv E U J A s \<Longrightarrow> core_same s s'"
  by (simp add: core_same_def toldD(3))

lemma core_same_dequeue:
  assumes "contracts E U J" and "kernel_inv E U J A s" and "on \<longleftrightarrow> p \<in> A"
  shows "core_same s (if on then dequeue_task E p flags s else s)"
  using requeuedD(3) [OF dequeue_task_requeued [OF contractsD(1,2) [OF assms(1)] assms(2)]] assms(3)
  by (simp add: core_same_def)

lemma core_same_enqueue:
  assumes "contracts E U J" and "kernel_inv E U J (A - {p}) s" and "proper U s p"
  shows "core_same s (if on then enqueue_task E p flags s else s)"
  using requeuedD(3) [OF enqueue_task_requeued [OF contractsD(1,2) [OF assms(1)] assms(2)]] assms(3)
  by (simp add: core_same_def proper_def)

lemma off_queue_core:
  assumes c: "contracts E U J" and i: "kernel_inv E U J (on_rqs U s) s" and p: "p \<in> live U"
  shows "core_same s (off_queue E p s)"
proof -
  note e = contractsD(1) [OF c] and cc = contractsD(2) [OF c]
  let ?on = "t_on_rq (tasks s p) \<noteq> 0" and ?s1 = "if t_on_rq (tasks s p) \<noteq> 0 then dequeue_task E p 0 s else s"
  have on: "?on \<longleftrightarrow> p \<in> on_rqs U s" by (rule on_queue_on_rqs [OF p])
  have 1: "core_same s ?s1" by (rule core_same_dequeue [OF c i on])
  note k1 = movedD(1) [OF moved_dequeue [OF e cc on, where s = s and flags = 0 and U = U] i]
  have "core_same ?s1 (if task_current s p then co_put_prev_task (task_class E ?s1 p) p ?s1 else ?s1)"
    by (cases "task_current s p")
      (simp_all only: if_True if_False core_same_told [OF told_class(1) [OF e cc p] k1] core_same_refl)
  from core_same_trans [OF 1 this] show ?thesis by (simp add: off_queue_def Let_def)
qed

lemma back_on_queue_core:
  assumes c: "contracts E U J" and i: "kernel_inv E U J (on_rqs U s0 - {p}) s" and p: "proper U s p"
  shows "core_same s (back_on_queue E p flags s0 s)"
proof -
  note e = contractsD(1) [OF c] and cc = contractsD(2) [OF c]
  let ?s1 = "if task_current s0 p then co_set_curr_task (task_class E s p) s else s"
  have l: "p \<in> live U" using p by (simp add: proper_def)
  have t: "told E U J B s ?s1" for B by (intro told_if told_class [OF e cc l] told_refl)
  have "proper U ?s1 p"
    using p toldD(2) [OF t i] by (simp add: proper_def quiet_def quiet0_def)
  from core_same_trans [OF core_same_told [OF t i] core_same_enqueue [OF c toldD(1) [OF t i] this]]
  show ?thesis by (simp add: back_on_queue_def Let_def)
qed

lemma requeue_changed_core:
  assumes c: "contracts E U J" and i: "kernel_inv E U J (on_rqs U s) s" and p: "proper U s p"
    and g: "\<And>t. p \<noteq> rq_idle (the_rq t) \<Longrightarrow> moved E U J (on_rqs U s - {p}) t (on_rqs U s - {p}) (g t)"
  shows "core_same s (off_queue E p s)" "core_same (g (off_queue E p s)) (requeue_changed E p flags g s)"
    "kernel_inv E U J (on_rqs U s) (requeue_changed E p flags g s)"
proof -
  note e = contractsD(1) [OF c] and cc = contractsD(2) [OF c]
  have l: "p \<in> live U" "p \<noteq> rq_idle (the_rq s)" using p by (simp_all add: proper_def)
  show "core_same s (off_queue E p s)" by (rule off_queue_core [OF c i l(1)])
  note m = moved_off_queue [OF e cc l(1), of s]
  have "p \<noteq> rq_idle (the_rq (off_queue E p s))" using movedD(5) [OF m i] l(2) by simp
  note m2 = moved_trans [OF m g [OF this]]
  have "proper U (g (off_queue E p s)) p" using movedD(5) [OF m2 i] l by (simp add: proper_def)
  then show "core_same (g (off_queue E p s)) (requeue_changed E p flags g s)"
    unfolding requeue_changed_def by (rule back_on_queue_core [OF c movedD(1) [OF m2 i]])
  show "kernel_inv E U J (on_rqs U s) (requeue_changed E p flags g s)"
    by (rule movedD(1) [OF moved_requeue_changed [OF e cc l g] i])
qed

section \<open>Nice values\<close>

lemma set_static_core:
  "t_static_prio (tasks (set_static p nice s) q) = (if q = p then NICE_TO_PRIO nice else t_static_prio (tasks s q))"
  "t_sched_class (tasks (set_static p nice s) q) = t_sched_class (tasks s q)"
  "t_on_rq (tasks (set_static p nice s) q) = t_on_rq (tasks s q)"
  by (simp_all add: set_static_def set_load_weight_def effective_prio_def Let_def)

lemma renice_core:
  assumes c: "contracts E U J" and i: "kernel_inv E U J (on_rqs U s) s" and p: "proper U s p"
    and n: "- 20 \<le> nice" "nice \<le> 19" "\<not> task_has_rt_policy (tasks s p)"
  shows "t_static_prio (tasks (renice E p nice s) q) =
      (if q = p then NICE_TO_PRIO nice else t_static_prio (tasks s q)) \<and>
    t_sched_class (tasks (renice E p nice s) q) = t_sched_class (tasks s q) \<and>
    t_on_rq (tasks (renice E p nice s) q) = t_on_rq (tasks s q)"
proof -
  note e = contractsD(1) [OF c] and cc = contractsD(2) [OF c]
  have l: "p \<in> live U" "p \<noteq> rq_idle (the_rq s)" using p by (simp_all add: proper_def)
  let ?on = "t_on_rq (tasks s p) \<noteq> 0" and ?s1 = "if t_on_rq (tasks s p) \<noteq> 0 then dequeue_task E p 0 s else s"
  have on: "?on \<longleftrightarrow> p \<in> on_rqs U s" by (rule on_queue_on_rqs [OF l(1)])
  have 1: "core_same s ?s1" by (rule core_same_dequeue [OF c i on])
  note m = moved_dequeue [OF e cc on, where s = s and flags = 0 and U = U]
  have "t_policy (tasks ?s1 p) = t_policy (tasks s p)" using 1 sys_coreD(8) unfolding core_same_def by blast
  then have "\<not> task_has_rt_policy (tasks ?s1 p)" using n(3) by (simp add: task_has_rt_policy_def)
  moreover have "p \<noteq> rq_idle (the_rq ?s1)" using movedD(5) [OF m i] l(2) by simp
  ultimately have m2: "moved E U J (on_rqs U s) s (on_rqs U s - {p}) (set_static p nice ?s1)"
    by (intro moved_trans [OF m] moved_set_static) (use l(1) n in auto)
  have "proper U (set_static p nice ?s1) p" using movedD(5) [OF m2 i] l by (simp add: proper_def)
  note 2 = core_same_enqueue [OF c movedD(1) [OF m2 i] this]
  have r: "renice E p nice s = (if ?on then enqueue_task E p 0 (set_static p nice ?s1) else set_static p nice ?s1)"
    by (simp add: renice_def Let_def)
  have f: "sys_core (tasks (renice E p nice s) q) = sys_core (tasks (set_static p nice ?s1) q)"
    using 2 unfolding r core_same_def by blast
  have "sys_core (tasks ?s1 q) = sys_core (tasks s q)" using 1 by (simp add: core_same_def)
  from sys_coreD(1,2,7) [OF f] sys_coreD(1,2,7) [OF this] show ?thesis by (simp only: set_static_core)
qed

lemma set_user_nice_core:
  assumes c: "contracts E U J" and k: "kernel_ok E U J s" and p: "proper U s p"
  shows "task_nice (tasks (set_user_nice E p nice s) q) =
      (if q = p \<and> - 20 \<le> nice \<and> nice \<le> 19 then nice else task_nice (tasks s q)) \<and>
    t_sched_class (tasks (set_user_nice E p nice s) q) = t_sched_class (tasks s q) \<and>
    t_on_rq (tasks (set_user_nice E p nice s) q) = t_on_rq (tasks s q)"
proof (cases "task_nice (tasks s p) = nice \<or> nice < - 20 \<or> 19 < nice")
  case True
  then show ?thesis by (auto simp: set_user_nice_def)
next
  case range: False
  have nice: "t_static_prio t = NICE_TO_PRIO nice \<Longrightarrow> task_nice t = nice" for t
    by (simp add: task_nice_def PRIO_TO_NICE_def NICE_TO_PRIO_def MAX_RT_PRIO_def)
  have other: "t_static_prio t = t_static_prio u \<Longrightarrow> task_nice t = task_nice u" for t u
    by (simp add: task_nice_def)
  show ?thesis
  proof (cases "task_has_rt_policy (tasks s p)")
    case True
    with range show ?thesis
      by (auto simp: set_user_nice_def task_nice_def PRIO_TO_NICE_def NICE_TO_PRIO_def MAX_RT_PRIO_def)
  next
    case False
    have n: "task_nice (tasks s p) \<noteq> nice" "- 20 \<le> nice" "nice \<le> 19" using range by auto
    note r = renice_core [OF c kernel_atD(1) [OF k] p n(2,3) False, of q]
    have r': "t_static_prio (tasks (resched_task x t) q) = t_static_prio (tasks t q) \<and>
      t_sched_class (tasks (resched_task x t) q) = t_sched_class (tasks t q) \<and>
      t_on_rq (tasks (resched_task x t) q) = t_on_rq (tasks t q)" for x and t :: "'a sys"
      by (simp add: resched_task_def set_tsk_need_resched_def)
    show ?thesis
      by (rule set_user_nice_alt [OF n False, of E])
        (use r r' nice [of "tasks (set_user_nice E p nice s) q"]
          other [of "tasks (set_user_nice E p nice s) q" "tasks s q"] n in \<open>simp_all split: if_splits\<close>)
  qed
qed

text \<open>
  C28: The system call \<open>nice\<close> moves the caller's nice value by the increment, kept within -20 and 19
  (the earlier cut of the increment to 40 never shows), and reports success; lowering it without
  permission, or against the security module, changes nothing and reports the error. No other
  task's nice value changes, and no task changes its class or leaves or enters a queue.
\<close>

theorem nice_call:
  assumes c: "contracts E U J" and k: "kernel_ok E U J s" and p: "proper U s (curr s)"
    and n: "n = max (- 20) (min 19 (task_nice (tasks s (curr s)) + increment))"
    and call: "sys_nice E increment s = (s', r)"
  shows "if increment < 0 \<and> \<not> can_nice E (curr s) n s then s' = s \<and> r = - EPERM
    else if x_security_setnice E (ext s) (curr s) n \<noteq> 0 then s' = s \<and> r = x_security_setnice E (ext s) (curr s) n
    else r = 0 \<and> (\<forall>q. task_nice (tasks s' q) = (if q = curr s then n else task_nice (tasks s q)) \<and>
      t_sched_class (tasks s' q) = t_sched_class (tasks s q) \<and> t_on_rq (tasks s' q) = t_on_rq (tasks s q))"
proof -
  have "curr s \<in> live U" using p by (simp add: proper_def)
  then have "task_ok U s (curr s)" by (rule kernel_invD(7) [OF kernel_atD(1) [OF k]])
  then have old: "- 20 \<le> task_nice (tasks s (curr s))" "task_nice (tasks s (curr s)) \<le> 19"
    by (simp_all add: task_ok_def task_nice_def PRIO_TO_NICE_def MAX_RT_PRIO_def)
  define i where "i = (if 40 < (if increment < - 40 then - 40 else increment) then 40
    else (if increment < - 40 then - 40 else increment))"
  define m where "m = task_nice (tasks s (curr s)) + i"
  have i: "(if 19 < (if m < - 20 then - 20 else m) then 19 else (if m < - 20 then - 20 else m)) = n"
    "i < 0 \<longleftrightarrow> increment < 0"
    using old unfolding n m_def i_def by (auto simp: max_def min_def)
  have call': "sys_nice E increment s = (if increment < 0 \<and> \<not> can_nice E (curr s) n s then (s, - EPERM)
      else if x_security_setnice E (ext s) (curr s) n \<noteq> 0 then (s, x_security_setnice E (ext s) (curr s) n)
      else (set_user_nice E (curr s) n s, 0))"
    unfolding sys_nice_def Let_def i_def [symmetric] m_def [symmetric] i ..
  have "- 20 \<le> n" "n \<le> 19" using n by auto
  then show ?thesis
    using call set_user_nice_core [OF c k p, of n] unfolding call' by (auto split: if_splits)
qed

section \<open>The properties on the sample machine\<close>

text \<open>Task 1 sleeps.\<close>

definition kernel_asleep :: "sample_ext sys" where
  "kernel_asleep = upd_task 1 (t_state_update (\<lambda>_. TASK_INTERRUPTIBLE)) kernel_sample"

lemma kernel_asleep_ok:
  "kernel_ok sample_env kernel_universe sample_tracks kernel_asleep" "proper kernel_universe kernel_asleep 1"
proof -
  have "rq_idle (the_rq kernel_sample) = 0" by (simp add: kernel_sample_def sample_sys_def sample_rq_def)
  then show "kernel_ok sample_env kernel_universe sample_tracks kernel_asleep"
    unfolding kernel_asleep_def by (intro staysD(1) [OF stays_set_state kernel_sample_ok]) simp
  show "proper kernel_universe kernel_asleep 1"
    using \<open>rq_idle (the_rq kernel_sample) = 0\<close>
    by (simp add: proper_def kernel_asleep_def live_def kernel_universe_def)
qed

theorem wakeup_queues_task_witness:
  "let (s', woken) = try_to_wake_up sample_env 1 TASK_NORMAL 0 kernel_asleep in
     woken \<and> on_wrr_rq sample_env 1 s' \<and> t_need_resched (tasks s' 0)"
proof -
  obtain s' woken where w: "try_to_wake_up sample_env 1 TASK_NORMAL 0 kernel_asleep = (s', woken)" by fastforce
  have "and (t_state (tasks kernel_asleep 1)) TASK_NORMAL \<noteq> 0"
    by (simp add: kernel_asleep_def TASK_NORMAL_def TASK_INTERRUPTIBLE_def TASK_UNINTERRUPTIBLE_def)
  moreover have "t_sched_class (tasks kernel_asleep 1) = Wrr_class" "curr kernel_asleep = 0"
    "t_sched_class (tasks kernel_asleep 0) = Idle_class"
    by (simp_all add: kernel_asleep_def kernel_sample_def sample_sys_def sample_rq_def sample_tasks_def
        sample_wrr_task_def)
  moreover have "Wrr_class < Idle_class" by (simp add: less_sched_class_def)
  ultimately show ?thesis
    using wakeup_queues_task [OF sample_contracts kernel_asleep_ok w] w by simp
qed

theorem nice_call_witness:
  "task_nice (tasks (fst (sys_nice sample_env 5 kernel_busy)) 4) = min 19 (task_nice (tasks kernel_busy 4) + 5)"
proof -
  obtain s' r where call: "sys_nice sample_env 5 kernel_busy = (s', r)" by fastforce
  have "x_security_setnice sample_env x p n = 0" for x p n by (simp add: sample_env_def)
  moreover have "- 20 \<le> task_nice (tasks kernel_busy 4)"
    using kernel_invD(7) [OF kernel_atD(1) [OF kernel_busy_ok(1)], of 4] kernel_busy_ok(2)
    by (simp add: proper_def task_ok_def task_nice_def PRIO_TO_NICE_def MAX_RT_PRIO_def)
  ultimately show ?thesis
    using nice_call [OF sample_contracts kernel_busy_ok(1) _ refl call] kernel_busy_ok(2,3) call
    by (simp add: max_def min_def)
qed

end
