(* ===== verification/Setsched_Spec.thy ===== *)
theory Setsched_Spec
  imports Core_Spec
begin

text \<open>
  What \<open>sched_setscheduler\<close> and the calls around it promise: an error leaves the state alone, the
  retry after a race ends, a success is what \<open>sched_getscheduler\<close> and \<open>sched_getparam\<close> report, and
  the ranges of \<open>sched_get_priority_min\<close> and \<open>_max\<close> are those accepted, but for SCHED_WRR.
\<close>

section \<open>The checks\<close>

lemma setscheduler_check_accept:
  assumes "setscheduler_check E p policy oldpolicy prio user s = Accept pol old reset"
  shows "0 \<le> prio" "prio < 100" "setscheduler_policy s p policy oldpolicy = Accept pol old reset"
  using assms
  by (auto simp: setscheduler_check_def MAX_USER_RT_PRIO_def MAX_RT_PRIO_def split: sched_check.splits if_splits)

lemma setscheduler_policy_accept:
  assumes "setscheduler_policy s p policy oldpolicy = Accept pol old reset"
  shows "policy < 0 \<Longrightarrow> pol = t_policy (tasks s p) \<and> old = t_policy (tasks s p) \<and> reset = t_sched_reset_on_fork (tasks s p)"
    "0 \<le> policy \<Longrightarrow> pol = and policy (not SCHED_RESET_ON_FORK) \<and> old = oldpolicy \<and>
      reset = (and policy SCHED_RESET_ON_FORK \<noteq> 0)"
  using assms by (auto simp: setscheduler_policy_def Let_def split: if_splits)

lemma setscheduler_policy_refuse:
  "setscheduler_policy s p policy oldpolicy = Refuse e \<Longrightarrow> e = - EINVAL"
  by (auto simp: setscheduler_policy_def Let_def split: if_splits)

text \<open>Without interference the locked part never finds that the policy has changed.\<close>

lemma setscheduler_no_recheck:
  assumes "setscheduler_check E p policy (- 1) prio user s = Accept pol old reset"
    and "t_policy (tasks t p) = t_policy (tasks s p)"
  obtains u r where "setscheduler_commit E p pol old reset prio user t = Return u r"
proof -
  have "old = - 1 \<or> old = t_policy (tasks t p)"
    using setscheduler_policy_accept [OF setscheduler_check_accept(3) [OF assms(1)]] assms(2)
    by (cases "policy < 0") auto
  then show thesis using that
    by (cases "setscheduler_commit E p pol old reset prio user t")
      (auto simp: setscheduler_commit_def Let_def split: if_splits)
qed

lemma setscheduler_attempt_unfold:
  "setscheduler_attempt E I n p policy oldpolicy prio user s =
     (case setscheduler_check E p policy oldpolicy prio user s of
        Refuse e \<Rightarrow> Some (s, e)
      | Accept policy oldpolicy reset_on_fork \<Rightarrow>
          (case setscheduler_commit E p policy oldpolicy reset_on_fork prio user (I n s) of
             Return s r \<Rightarrow> Some (s, r)
           | Recheck \<Rightarrow> setscheduler_attempt E I (Suc n) p (-1) (-1) prio user (I n s)))"
  by (subst setscheduler_attempt.simps) (simp only: Let_def)

lemma setscheduler_attempt_cases:
  "setscheduler_check E p policy oldpolicy prio user s = Refuse e \<Longrightarrow>
     setscheduler_attempt E I n p policy oldpolicy prio user s = Some (s, e)"
  "setscheduler_check E p policy oldpolicy prio user s = Accept pol old reset \<Longrightarrow>
   setscheduler_commit E p pol old reset prio user (I n s) = Return u r \<Longrightarrow>
     setscheduler_attempt E I n p policy oldpolicy prio user s = Some (u, r)"
  "setscheduler_check E p policy oldpolicy prio user s = Accept pol old reset \<Longrightarrow>
   setscheduler_commit E p pol old reset prio user (I n s) = Recheck \<Longrightarrow>
     setscheduler_attempt E I n p policy oldpolicy prio user s =
     setscheduler_attempt E I (Suc n) p (- 1) (- 1) prio user (I n s)"
  by (subst setscheduler_attempt_unfold, simp)+

section \<open>Errors\<close>

lemma setscheduler_commit_error:
  assumes "setscheduler_commit E p pol old reset prio user s = Return s' r" and "r \<noteq> 0"
  shows "s' = s" "r = - EINVAL \<or> r = - EPERM"
  using assms by (auto simp: setscheduler_commit_def Let_def split: if_splits)

lemma setscheduler_alone:
  assumes "\<not> x_in_interrupt E (ext s)"
  obtains s' r where "sched_setscheduler'' E (\<lambda>_ s. s) p policy prio user s = Some (s', r)" "r \<noteq> 0 \<longrightarrow> s' = s"
proof (cases "setscheduler_check E p policy (- 1) prio user s")
  case (Refuse e)
  then have "sched_setscheduler'' E (\<lambda>_ s. s) p policy prio user s = Some (s, e)"
    using assms by (simp add: sched_setscheduler''_def setscheduler_attempt_cases)
  then show thesis using that by blast
next
  case (Accept pol old reset)
  obtain u r where u: "setscheduler_commit E p pol old reset prio user s = Return u r"
    by (rule setscheduler_no_recheck [OF Accept refl])
  then have "sched_setscheduler'' E (\<lambda>_ s. s) p policy prio user s = Some (u, r)"
    using assms Accept by (simp add: sched_setscheduler''_def setscheduler_attempt_cases)
  then show thesis using that setscheduler_commit_error(1) [OF u] by blast
qed

text \<open>
  C25: \<open>sched_setscheduler\<close> outside an interrupt returns, and an error leaves the state exactly as
  it was. The error is EINVAL for a negative policy, a NULL parameter or a negative pid, then
  EFAULT for a parameter that cannot be read, then ESRCH for an unknown process, then EINVAL for a
  policy that is none of the six or a priority outside 0 to 99.
\<close>

theorem setscheduler_errors:
  assumes "\<not> x_in_interrupt E (ext s)"
  shows "\<exists>s' r. sys_sched_setscheduler E (\<lambda>_ s. s) pid policy param s = Some (s', r) \<and> (r \<noteq> 0 \<longrightarrow> s' = s) \<and>
    (policy < 0 \<or> param = None \<or> pid < 0 \<longrightarrow> r = - EINVAL) \<and>
    (0 \<le> policy \<and> param = Some None \<and> 0 \<le> pid \<longrightarrow> r = - EFAULT) \<and>
    (\<forall>prio. 0 \<le> policy \<and> param = Some (Some prio) \<and> 0 \<le> pid \<longrightarrow>
       (find_process_by_pid E pid s = None \<longrightarrow> r = - ESRCH) \<and>
       (find_process_by_pid E pid s \<noteq> None \<and>
          (and policy (not SCHED_RESET_ON_FORK) \<notin>
             {SCHED_NORMAL, SCHED_FIFO, SCHED_RR, SCHED_BATCH, SCHED_IDLE, SCHED_WRR} \<or> prio < 0 \<or> 99 < prio) \<longrightarrow>
        r = - EINVAL))"
proof (cases "policy < 0 \<or> param = None \<or> pid < 0")
  case True
  then show ?thesis
    by (auto simp: sys_sched_setscheduler_def do_sched_setscheduler_def split: option.split)
next
  case False
  then obtain q where q: "param = Some q" "0 \<le> policy" "0 \<le> pid" by auto
  show ?thesis
  proof (cases "q = None \<or> find_process_by_pid E pid s = None")
    case True
    then show ?thesis using q
      by (auto simp: sys_sched_setscheduler_def do_sched_setscheduler_def split: option.split)
  next
    case False
    then obtain prio p where p: "q = Some prio" "find_process_by_pid E pid s = Some p" by auto
    have call: "sys_sched_setscheduler E (\<lambda>_ s. s) pid policy param s =
        sched_setscheduler'' E (\<lambda>_ s. s) p policy prio True s"
      using p q by (simp add: sys_sched_setscheduler_def do_sched_setscheduler_def sched_setscheduler_def)
    have bad: "sched_setscheduler'' E (\<lambda>_ s. s) p policy prio True s = Some (s, - EINVAL)"
      if "and policy (not SCHED_RESET_ON_FORK) \<notin>
             {SCHED_NORMAL, SCHED_FIFO, SCHED_RR, SCHED_BATCH, SCHED_IDLE, SCHED_WRR} \<or> prio < 0 \<or> 99 < prio"
    proof -
      have "setscheduler_policy s p policy (- 1) = Refuse (- EINVAL) \<or> prio < 0 \<or> 99 < prio"
        using that q(2) by (simp add: setscheduler_policy_def Let_def) blast
      then have "setscheduler_check E p policy (- 1) prio True s = Refuse (- EINVAL)"
        using setscheduler_policy_refuse [of s p policy "- 1"]
        by (cases "setscheduler_policy s p policy (- 1)")
          (auto simp: setscheduler_check_def MAX_USER_RT_PRIO_def MAX_RT_PRIO_def)
      then show ?thesis using assms by (simp add: sched_setscheduler''_def setscheduler_attempt_cases)
    qed
    obtain s' r where r: "sched_setscheduler'' E (\<lambda>_ s. s) p policy prio True s = Some (s', r)" "r \<noteq> 0 \<longrightarrow> s' = s"
      by (rule setscheduler_alone [OF assms])
    have "r = - EINVAL" if "and policy (not SCHED_RESET_ON_FORK) \<notin>
             {SCHED_NORMAL, SCHED_FIFO, SCHED_RR, SCHED_BATCH, SCHED_IDLE, SCHED_WRR} \<or> prio < 0 \<or> 99 < prio"
      using bad [OF that] r(1) by simp
    then show ?thesis
      using call r p q by (intro exI [of _ s'] exI [of _ r]) (simp add: not_less)
  qed
qed

section \<open>What a success sets\<close>

text \<open>The part of a task that only \<open>sched_setscheduler\<close> and fork write.\<close>

definition policy_of :: "task_struct \<Rightarrow> int \<times> u32 \<times> bool" where
  "policy_of t = (t_policy t, t_rt_priority t, t_sched_reset_on_fork t)"

lemma core_same_policy: "core_same s s' \<Longrightarrow> policy_of (tasks s' q) = policy_of (tasks s q)"
  using sys_coreD(8,10,11) [of "tasks s' q" "tasks s q"] by (simp add: core_same_def policy_of_def)

lemma core_same_class: "core_same s s' \<Longrightarrow> t_sched_class (tasks s' q) = t_sched_class (tasks s q)"
  using sys_coreD(2) [of "tasks s' q" "tasks s q"] by (simp add: core_same_def)

lemma rt_mutex_setprio_core:
  assumes c: "contracts E U J" and k: "kernel_ok E U J s" and p: "p \<in> live U"
    and s': "rt_mutex_setprio E p prio s = Some s'"
  shows "policy_of (tasks s' q) = policy_of (tasks s q)"
    and "p \<noteq> rq_idle (the_rq s) \<Longrightarrow>
      t_sched_class (tasks s' p) = (if prio < 100 then Rt_class else Fair_class)"
proof -
  note e = contractsD(1) [OF c] and cc = contractsD(2) [OF c]
  have both: "policy_of (tasks s' q) = policy_of (tasks s q) \<and>
      (p \<noteq> rq_idle (the_rq s) \<longrightarrow> t_sched_class (tasks s' p) = (if prio < 100 then Rt_class else Fair_class))"
  proof (cases "p = rq_idle (the_rq s)")
    case True
    then show ?thesis using s' by (auto simp: rt_mutex_setprio_alt split: if_splits)
  next
    case False
    have prio: "0 \<le> prio" using s' by (auto simp: rt_mutex_setprio_alt split: if_splits)
    let ?f = "if t_prio (tasks s p) < prio then ENQUEUE_HEAD else 0"
    let ?u = "requeue_changed E p ?f (set_prio_class p prio) s"
    have eq: "s' = check_class_changed E p (t_sched_class (tasks s p)) (t_prio (tasks s p)) ?u"
      using s' False by (auto simp: rt_mutex_setprio_alt split: if_splits)
    have pr: "proper U s p" using p False by (simp add: proper_def)
    have g: "moved E U J (on_rqs U s - {p}) t (on_rqs U s - {p}) (set_prio_class p prio t)"
      if "p \<noteq> rq_idle (the_rq t)" for t
      by (rule moved_set_prio_class) (use p prio that in auto)
    note r = requeue_changed_core(1) [OF c kernel_atD(1) [OF k] pr g]
      requeue_changed_core(2,3) [OF c kernel_atD(1) [OF k] pr g, where flags = ?f]
    note 3 = core_same_told [OF told_class_changed [OF e cc p not_stop [OF kernel_atD(1) [OF k] p],
        where oldprio = "t_prio (tasks s p)"] r(3), folded eq]
    note 2 = core_same_trans [OF r(2) 3]
    have "policy_of (tasks (set_prio_class p prio t) q) = policy_of (tasks t q)" for t :: "'a sys"
      by (simp add: set_prio_class_def policy_of_def)
    moreover have "t_sched_class (tasks (set_prio_class p prio t) p) = (if prio < 100 then Rt_class else Fair_class)"
      for t :: "'a sys" by (simp add: set_prio_class_def rt_prio_def MAX_RT_PRIO_def)
    moreover have "t_sched_class (tasks s' p) = t_sched_class (tasks (set_prio_class p prio (off_queue E p s)) p)"
      by (rule core_same_class [OF 2])
    ultimately show ?thesis using core_same_policy [OF 2, of q] core_same_policy [OF r(1), of q] by simp
  qed
  then show "policy_of (tasks s' q) = policy_of (tasks s q)"
    "p \<noteq> rq_idle (the_rq s) \<Longrightarrow> t_sched_class (tasks s' p) = (if prio < 100 then Rt_class else Fair_class)"
    by simp_all
qed

lemma boosts_policy:
  assumes c: "contracts E U J"
  shows "boosts E U s s' \<Longrightarrow> kernel_ok E U J s \<Longrightarrow>
    kernel_ok E U J s' \<and> policy_of (tasks s' q) = policy_of (tasks s q)"
proof (induction rule: boosts.induct)
  case (boosts_step s t p prio u)
  then have t: "kernel_ok E U J t" "policy_of (tasks t q) = policy_of (tasks s q)" by simp_all
  have "kernel_ok E U J u"
    by (rule staysD(1) [OF stays_rt_mutex_setprio [OF contractsD(1,2) [OF c] boosts_step.hyps(2,3)] t(1)])
  then show ?case using rt_mutex_setprio_core(1) [OF c t(1) boosts_step.hyps(2,3), of q] t(2) by simp
qed simp

lemma setscheduler'_policy:
  "policy_of (tasks (setscheduler' E p policy prio s) q) =
     (if q = p then (policy, of_int prio, t_sched_reset_on_fork (tasks s p)) else policy_of (tasks s q))"
proof (cases "q = p")
  case True
  obtain l c t where t: "tasks (setscheduler' E p policy prio s) p = t_se_update (se_load_update (\<lambda>_. l))
      (t\<lparr>t_normal_prio := normal_prio t,
         t_prio := x_rt_mutex_getprio E (ext s) p (normal_prio t), t_sched_class := c\<rparr>)"
    "t = (tasks s p)\<lparr>t_policy := policy, t_rt_priority := of_int prio\<rparr>"
    by (rule setscheduler'_task)
  then show ?thesis using True by (simp add: policy_of_def)
next
  case False
  have "tasks (setscheduler' E p policy prio s) q = tasks s q"
    by (subst only_task_set [OF setscheduler'_only]) (use False in simp)
  then show ?thesis using False by simp
qed

lemma setscheduler_commit_policy:
  assumes c: "contracts E U J" and k: "kernel_ok E U J s" and p: "proper U s p"
    and prio: "0 \<le> prio" "prio < 100"
    and commit: "setscheduler_commit E p pol old reset prio user s = Return s' 0"
    and new: "\<not> (pol = t_policy (tasks s p) \<and> (\<not> rt_policy pol \<or> of_int prio = t_rt_priority (tasks s p)))"
  shows "policy_of (tasks s' p) = (pol, of_int prio, reset)"
proof -
  note e = contractsD(1) [OF c] and cc = contractsD(2) [OF c] and pi = contractsD(4) [OF c]
  note i = kernel_atD(1) [OF k]
  have l: "p \<in> live U" "p \<noteq> rq_idle (the_rq s)" using p by (simp_all add: proper_def)
  let ?g = "\<lambda>s. setscheduler' E p pol prio (upd_task p (t_sched_reset_on_fork_update (\<lambda>_. reset)) s)"
  let ?A = "on_rqs U s" and ?t = "upd_task p (t_sched_reset_on_fork_update (\<lambda>_. reset)) (off_queue E p s)"
  let ?u = "requeue_changed E p 0 ?g s"
  have g: "moved E U J (?A - {p}) t (?A - {p}) (?g t)" if "p \<noteq> rq_idle (the_rq t)" for t
  proof (rule moved_trans [OF _ moved_setscheduler' [OF pi l(1) _ _ prio]])
    show "moved E U J (?A - {p}) t (?A - {p}) (upd_task p (t_sched_reset_on_fork_update (\<lambda>_. reset)) t)"
      by (rule moved_modify [OF only_task_upd1 _ l(1) that]) (simp_all add: fits_def)
  qed (use that in auto)
  note r = requeue_changed_core(1) [OF c i p g] requeue_changed_core(2,3) [OF c i p g, where flags = 0]
  have cls: "t_sched_class (tasks ?t p) = t_sched_class (tasks s p)"
    using core_same_class [OF r(1), of p] by simp
  let ?v = "check_class_changed E p (t_sched_class (tasks ?t p)) (t_prio (tasks ?t p)) ?u"
  have s': "s' = x_rt_mutex_adjust_pi E p ?v"
    using commit new by (simp add: setscheduler_commit_def requeue_changed_def off_queue_def back_on_queue_def
        EINVAL_def EPERM_def Let_def split: if_splits)
  note told = told_class_changed [OF e cc l(1) not_stop [OF i l(1)], where oldprio = "t_prio (tasks ?t p)"]
  have 3: "core_same ?u ?v" unfolding cls by (rule core_same_told [OF told r(3)])
  have "moved E U J ?A s ?A ?v"
    unfolding cls by (rule moved_trans [OF moved_requeue_changed [OF e cc l g] moved_told [OF told]])
  then have kv: "kernel_ok E U J ?v" using k by (rule staysD(1) [OF moved_stays])
  have "boosts E U ?v s'" using pi s' by (simp add: pi_contract_def)
  from boosts_policy [OF c this kv, of p] have "policy_of (tasks s' p) = policy_of (tasks ?v p)" by simp
  also have "\<dots> = policy_of (tasks (?g (off_queue E p s)) p)"
    by (rule core_same_policy [OF core_same_trans [OF r(2) 3]])
  finally show ?thesis by (simp add: setscheduler'_policy)
qed

text \<open>The flag and the policy share one int; the flag is a single bit.\<close>

lemma reset_flag_split:
  "or (and policy (not SCHED_RESET_ON_FORK)) (if and policy SCHED_RESET_ON_FORK \<noteq> 0 then SCHED_RESET_ON_FORK else 0) =
     policy"
proof -
  have m: "SCHED_RESET_ON_FORK = 2 ^ 30" by (simp add: SCHED_RESET_ON_FORK_def)
  have b: "bit SCHED_RESET_ON_FORK n \<longleftrightarrow> n = 30" for n unfolding m bit_exp_iff by auto
  have "and policy SCHED_RESET_ON_FORK = (if bit policy 30 then SCHED_RESET_ON_FORK else 0)"
    by (rule bit_eqI) (auto simp: bit_simps b)
  then have "(if and policy SCHED_RESET_ON_FORK \<noteq> 0 then SCHED_RESET_ON_FORK else 0) =
      and policy SCHED_RESET_ON_FORK" by auto
  then show ?thesis
    by (simp only:) (rule bit_eqI, auto simp: bit_simps)
qed

text \<open>
  C20: Round trip. After \<open>sched_setscheduler\<close> has returned 0, \<open>sched_getscheduler\<close> reports the
  policy that was passed, with its reset-on-fork flag, and \<open>sched_getparam\<close> the priority, whatever
  priority inheritance did meanwhile; unless the task already had that policy and, for a real-time
  policy, that priority: then the call returns 0 and changes nothing, flag and parameter included.
\<close>

theorem setscheduler_roundtrip:
  assumes c: "contracts E U J" and k: "kernel_ok E U J s" and p: "proper U s p"
    and find: "find_process_by_pid E pid s = Some p" "find_process_by_pid E pid s' = Some p"
    and call: "sys_sched_setscheduler E (\<lambda>_ s. s) pid policy (Some (Some prio)) s = Some (s', 0)"
    and sec: "x_security_getscheduler E (ext s') p = 0"
  shows "if and policy (not SCHED_RESET_ON_FORK) = t_policy (tasks s p) \<and>
        (\<not> rt_policy (t_policy (tasks s p)) \<or> of_int prio = t_rt_priority (tasks s p)) then s' = s
    else sys_sched_getscheduler E pid s' = policy \<and>
      sys_sched_getparam E pid (Some True) s' = (0, Some (of_int prio))"
proof -
  have pol: "0 \<le> policy" "0 \<le> pid" and call': "sched_setscheduler'' E (\<lambda>_ s. s) p policy prio True s = Some (s', 0)"
    using call find(1) by (auto simp: sys_sched_setscheduler_def do_sched_setscheduler_def sched_setscheduler_def
        EINVAL_def split: if_splits)
  have irq: "\<not> x_in_interrupt E (ext s)" using call' by (auto simp: sched_setscheduler''_def split: if_splits)
  then have at: "setscheduler_attempt E (\<lambda>_ s. s) 0 p policy (- 1) prio True s = Some (s', 0)"
    using call' by (simp add: sched_setscheduler''_def)
  let ?pol = "and policy (not SCHED_RESET_ON_FORK)" and ?reset = "and policy SCHED_RESET_ON_FORK \<noteq> 0"
  let ?same = "?pol = t_policy (tasks s p) \<and> (\<not> rt_policy ?pol \<or> of_int prio = t_rt_priority (tasks s p))"
  show ?thesis
  proof (cases "setscheduler_check E p policy (- 1) prio True s")
    case (Refuse e)
    then have "e = 0" "s' = s" using at setscheduler_attempt_cases(1) [OF Refuse] by simp_all
    have "e \<noteq> 0"
      using Refuse setscheduler_policy_refuse [of s p policy "- 1"]
      by (auto simp: setscheduler_check_def EINVAL_def EPERM_def split: sched_check.splits if_splits)
    with \<open>e = 0\<close> show ?thesis by simp
  next
    case (Accept pl old reset)
    note a = setscheduler_check_accept [OF Accept]
    have v: "pl = ?pol" "reset = ?reset" using setscheduler_policy_accept(2) [OF a(3) pol(1)] by simp_all
    obtain u r where u: "setscheduler_commit E p pl old reset prio True s = Return u r"
      by (rule setscheduler_no_recheck [OF Accept refl])
    then have u': "setscheduler_commit E p ?pol old ?reset prio True s = Return s' 0"
      using at setscheduler_attempt_cases(2) [OF Accept, where I = "\<lambda>_ s. s" and n = 0] v by simp
    show ?thesis
    proof (cases ?same)
      case True
      have "rq_stop (the_rq s) = None" by (rule kernel_invD(10) [OF kernel_atD(1) [OF k]])
      then have "s' = s" using u' True by (auto simp: setscheduler_commit_def split: if_splits)
      then show ?thesis using True by auto
    next
      case False
      have "policy_of (tasks s' p) = (?pol, of_int prio, ?reset)"
        by (rule setscheduler_commit_policy [OF c k p a(1,2) u' False])
      then have t: "t_policy (tasks s' p) = ?pol" "t_rt_priority (tasks s' p) = of_int prio"
        "t_sched_reset_on_fork (tasks s' p) = ?reset" by (simp_all add: policy_of_def)
      have "sys_sched_getscheduler E pid s' = policy"
        using pol(2) find(2) sec t(1,3) reset_flag_split [of policy]
        by (simp add: sys_sched_getscheduler_def)
      moreover have "sys_sched_getparam E pid (Some True) s' = (0, Some (of_int prio))"
        using pol(2) find(2) sec t(2) by (simp add: sys_sched_getparam_def)
      moreover have new: "\<not> (?pol = t_policy (tasks s p) \<and>
          (\<not> rt_policy (t_policy (tasks s p)) \<or> of_int prio = t_rt_priority (tasks s p)))"
        using False by auto
      ultimately show ?thesis unfolding if_not_P [OF new] by blast
    qed
  qed
qed

section \<open>Racing with other tasks\<close>

lemma kernel_reachable_trans:
  "kernel_reachable E U J t u \<Longrightarrow> kernel_reachable E U J s t \<Longrightarrow> kernel_reachable E U J s u"
  by (induction rule: kernel_reachable.induct) (auto intro: reach_step)

lemma proper_reachable:
  assumes "kernel_reachable E U J s t" and "contracts E U J" and "kernel_ok E U J s" and "proper U s p"
  shows "proper U t p"
  using kernel_reachable_ok(3) [OF assms(1-3)] assms(4) by (simp add: proper_def)

lemma setscheduler_attempt_returns:
  assumes c: "contracts E U J" and I: "\<And>n t. kernel_reachable E U J t (I n t)"
    and N: "\<And>n t. N \<le> n \<Longrightarrow> t_policy (tasks (I n t) p) = t_policy (tasks t p)"
  shows "kernel_ok E U J s \<Longrightarrow> proper U s p \<Longrightarrow>
    \<exists>s' r. setscheduler_attempt E I n p policy (- 1) prio user s = Some (s', r) \<and> kernel_reachable E U J s s'"
proof (induction "N - n" arbitrary: n s policy rule: less_induct)
  case less
  show ?case
  proof (cases "setscheduler_check E p policy (- 1) prio user s")
    case (Refuse e)
    then show ?thesis using setscheduler_attempt_cases(1) [OF Refuse] reach_refl by blast
  next
    case (Accept pol old reset)
    note a = setscheduler_check_accept [OF Accept]
    note k = kernel_reachable_ok(1) [OF I [of s n] c less.prems(1)]
    note p = proper_reachable [OF I [of s n] c less.prems]
    show ?thesis
    proof (cases "setscheduler_commit E p pol old reset prio user (I n s)")
      case (Return u r)
      have "kernel_step E U J (I n s) u" by (rule sets_scheduler [OF p a(1,2) Return])
      from reach_step [OF I this] setscheduler_attempt_cases(2) [OF Accept, where I = I and n = n, OF Return]
      show ?thesis by blast
    next
      case Recheck
      have "\<not> N \<le> n"
      proof
        assume "N \<le> n"
        from setscheduler_no_recheck [OF Accept N [OF this]] Recheck show False
          by (metis sched_commit.distinct(1))
      qed
      then have "N - Suc n < N - n" by simp
      from less.hyps [OF this k p] obtain s' r where
        "setscheduler_attempt E I (Suc n) p (- 1) (- 1) prio user (I n s) = Some (s', r)"
        "kernel_reachable E U J (I n s) s'" by blast
      then show ?thesis
        using setscheduler_attempt_cases(3) [OF Accept, where I = I and n = n, OF Recheck]
          kernel_reachable_trans [OF _ I] by auto
    qed
  qed
qed

text \<open>
  C26: Whatever operations of the scheduler other tasks complete between the checks of
  \<open>sched_setscheduler\<close> and its locked part, it is itself a sequence of such operations; and if they
  change the task's policy only a finite number of times, its retries end and it returns.
\<close>

theorem setscheduler_returns:
  assumes c: "contracts E U J" and k: "kernel_ok E U J s" and p: "proper U s p"
    and irq: "\<not> x_in_interrupt E (ext s)"
    and I: "\<And>n t. kernel_reachable E U J t (I n t)"
    and N: "\<And>n t. N \<le> n \<Longrightarrow> t_policy (tasks (I n t) p) = t_policy (tasks t p)"
  shows "\<exists>s' r. sched_setscheduler'' E I p policy prio user s = Some (s', r) \<and> kernel_reachable E U J s s'"
  using setscheduler_attempt_returns [OF c I N k p, where n = 0 and policy = policy and prio = prio and user = user] irq
  by (simp add: sched_setscheduler''_def)

section \<open>The ranges of priorities\<close>

text \<open>
  For every policy but SCHED_WRR a kernel caller's priority is accepted exactly when it lies
  between what \<open>sched_get_priority_min\<close> and \<open>sched_get_priority_max\<close> report; for SCHED_WRR every
  priority from 0 to 99 is accepted, while both calls report EINVAL.
\<close>

lemma priority_ranges:
  assumes "policy \<in> {SCHED_NORMAL, SCHED_FIFO, SCHED_RR, SCHED_BATCH, SCHED_IDLE, SCHED_WRR}"
  shows "(\<exists>pol old reset. setscheduler_check E p policy (- 1) prio False s = Accept pol old reset) \<longleftrightarrow>
    (if policy = SCHED_WRR then 0 \<le> prio \<and> prio \<le> 99 \<and>
       sys_sched_get_priority_min policy = - EINVAL \<and> sys_sched_get_priority_max policy = - EINVAL
     else sys_sched_get_priority_min policy \<le> prio \<and> prio \<le> sys_sched_get_priority_max policy)"
proof -
  have "setscheduler_policy s p policy (- 1) = Accept policy (- 1) False"
    using assms by (auto simp: setscheduler_policy_def Let_def policy_defs SCHED_RESET_ON_FORK_def)
  then have "(\<exists>pol old reset. setscheduler_check E p policy (- 1) prio False s = Accept pol old reset) \<longleftrightarrow>
      0 \<le> prio \<and> prio \<le> 99 \<and> (rt_policy policy = (prio \<noteq> 0) \<or> policy = SCHED_WRR)"
    by (auto simp: setscheduler_check_def MAX_USER_RT_PRIO_def MAX_RT_PRIO_def)
  then show ?thesis
    using assms by (auto simp: rt_policy_def sys_sched_get_priority_min_def sys_sched_get_priority_max_def
        MAX_USER_RT_PRIO_def policy_defs)
qed

section \<open>Where SCHED_WRR tasks lose their class\<close>

text \<open>
  Priority inheritance knows only the real-time and the fair class: whatever class a task had, after
  \<open>rt_mutex_setprio\<close> it is in one of those two, and its policy is still what it was.
\<close>

lemma setprio_forgets_wrr:
  assumes "contracts E U J" and "kernel_ok E U J s" and "proper U s p"
    and "t_policy (tasks s p) = SCHED_WRR" and "rt_mutex_setprio E p prio s = Some s'"
  shows "t_sched_class (tasks s' p) \<noteq> Wrr_class \<and> t_policy (tasks s' p) = SCHED_WRR"
proof -
  have p: "p \<in> live U" "p \<noteq> rq_idle (the_rq s)" using assms(3) by (simp_all add: proper_def)
  note r = rt_mutex_setprio_core [OF assms(1,2) p(1) assms(5)]
  show ?thesis using r(1) [of p] r(2) [OF p(2)] assms(4) by (simp add: policy_of_def)
qed

text \<open>
  A child of a SCHED_WRR task starts in the fair class with that policy, and setting the policy
  again is answered with 0 and does nothing.
\<close>

lemma fork_forgets_wrr:
  assumes c: "contracts E U J" and k: "kernel_ok E U J s" and cur: "proper U s (curr s)"
    and p: "proper U s p" "p \<noteq> curr s" "t_on_rq (tasks s p) = 0"
    and t: "copied s t" "rt_group_ok U (t_sched_task_group t)" "t_policy t = SCHED_WRR"
      "\<not> t_sched_reset_on_fork t" "100 \<le> t_normal_prio (tasks s (curr s))"
    and s': "s' = sched_fork E p (dup_task p t a b s)"
  shows "t_sched_class (tasks s' p) = Fair_class \<and> t_policy (tasks s' p) = SCHED_WRR \<and>
    setscheduler_commit E p SCHED_WRR (- 1) False prio user s' = Return s' 0"
proof -
  note e = contractsD(1) [OF c] and cc = contractsD(2) [OF c]
  have l: "p \<in> live U" "p \<noteq> rq_idle (the_rq s)" "curr s \<noteq> rq_idle (the_rq s)"
    using p(1) cur by (simp_all add: proper_def)
  let ?d = "dup_task p t a b s"
  let ?s1 = "fork_setup E p ?d"
  note k1 = staysD(1) [OF stays_fork_setup [OF l(1,2) p(2,3) t(1,2) l(3)] k]
  let ?s2 = "case co_task_fork (task_class E ?s1 p) of Some f \<Rightarrow> f p ?s1 | None \<Rightarrow> ?s1"
  have "told E U J A ?s1 ?s2" for A
    unfolding task_class_def by (rule told_given, rule class_told(7) [OF e cc not_stop [OF _ l(1)]])
  note d2 = toldD(3) [OF this kernel_atD(1) [OF k1], of p]
  have "t_sched_class (tasks ?s1 p) = Fair_class" "t_policy (tasks ?s1 p) = SCHED_WRR"
    using p(2) t(3-5) by (simp_all add: fork_setup_def fork_reset_def sched_fork'_def dup_task_def rt_prio_def
        MAX_RT_PRIO_def Let_def)
  then have "t_sched_class (tasks ?s2 p) = Fair_class" "t_policy (tasks ?s2 p) = SCHED_WRR"
    using sys_coreD(2,8) [OF d2] by simp_all
  then have f: "t_sched_class (tasks s' p) = Fair_class" "t_policy (tasks s' p) = SCHED_WRR"
    unfolding s' sched_fork_alt Let_def by simp_all
  have "kernel_ok E U J s'"
    unfolding s' by (rule staysD(1) [OF stays_sched_fork [OF e cc l(1,2) p(2,3) t(1,2) l(3)] k])
  then have "rq_stop (the_rq s') = None" by (rule kernel_invD(10) [OF kernel_atD(1)])
  then show ?thesis using f by (simp add: setscheduler_commit_def rt_policy_def policy_defs)
qed

section \<open>The properties on the sample machine\<close>

theorem setscheduler_errors_witness:
  "sys_sched_setscheduler sample_env (\<lambda>_ s. s) 3 4 (Some (Some 0)) kernel_sample = Some (kernel_sample, - EINVAL)"
proof -
  have "find_process_by_pid sample_env 3 kernel_sample \<noteq> None" by (simp add: find_process_by_pid_def sample_env_def)
  moreover have "and 4 (not SCHED_RESET_ON_FORK) = 4" by (simp add: SCHED_RESET_ON_FORK_def)
  moreover have "- EINVAL \<noteq> 0" by (simp add: EINVAL_def)
  ultimately show ?thesis
    using setscheduler_errors [of sample_env kernel_sample 3 4 "Some (Some 0)"] by (auto simp: policy_defs)
qed

theorem setscheduler_roundtrip_witness:
  "\<exists>s'. sys_sched_setscheduler sample_env (\<lambda>_ s. s) 4 6 (Some (Some 0)) kernel_busy = Some (s', 0) \<and>
     sys_sched_getscheduler sample_env 4 s' = 6 \<and> sys_sched_getparam sample_env 4 (Some True) s' = (0, Some 0)"
proof -
  have find: "find_process_by_pid sample_env 4 s = Some 4" for s by (simp add: find_process_by_pid_def sample_env_def)
  have pol: "t_policy (tasks kernel_busy 4) = SCHED_NORMAL" "t_sched_reset_on_fork (tasks kernel_busy 4) = False"
    "rq_stop (the_rq kernel_busy) = None"
    using kernel_busy_ok(4,5) kernel_invD(10) [OF kernel_atD(1) [OF kernel_busy_ok(1)]] by simp_all
  have flag: "and 6 (not SCHED_RESET_ON_FORK) = (6 :: int)" "and 6 SCHED_RESET_ON_FORK = (0 :: int)"
    by (simp_all add: SCHED_RESET_ON_FORK_def)
  have ck: "setscheduler_check sample_env 4 6 (- 1) 0 True kernel_busy = Accept 6 (- 1) False"
    using pol by (simp add: setscheduler_check_def setscheduler_policy_def setscheduler_perm_def Let_def flag
        rt_policy_def policy_defs MAX_USER_RT_PRIO_def MAX_RT_PRIO_def check_same_owner_def sample_env_def)
  obtain s' r where s': "setscheduler_commit sample_env 4 6 (- 1) False 0 True kernel_busy = Return s' r"
    by (rule setscheduler_no_recheck [OF ck refl])
  then have "r = 0" using pol by (auto simp: setscheduler_commit_def rt_policy_def policy_defs Let_def)
  with s' setscheduler_attempt_cases(2) [OF ck, where I = "\<lambda>_ s. s" and n = 0]
  have call: "sys_sched_setscheduler sample_env (\<lambda>_ s. s) 4 6 (Some (Some 0)) kernel_busy = Some (s', 0)"
    by (simp add: sys_sched_setscheduler_def do_sched_setscheduler_def sched_setscheduler_def find
        sched_setscheduler''_def)
  have sec: "x_security_getscheduler sample_env (ext s') 4 = 0" by (simp add: sample_env_def)
  show ?thesis
    using setscheduler_roundtrip [OF sample_contracts kernel_busy_ok(1,2) find find call sec] call pol flag
    by (simp add: policy_defs)
qed

theorem setscheduler_returns_witness:
  "\<exists>s' r. sched_setscheduler'' sample_env (\<lambda>_ s. s) 4 6 0 True kernel_busy = Some (s', r) \<and>
     kernel_reachable sample_env kernel_universe sample_tracks kernel_busy s'"
  by (rule setscheduler_returns [OF sample_contracts kernel_busy_ok(1,2), where N = 0]) (simp_all add: reach_refl)

lemma priority_ranges_witness:
  "\<exists>pol old reset. setscheduler_check sample_env 1 SCHED_WRR (- 1) 99 False kernel_sample = Accept pol old reset"
  using priority_ranges [of SCHED_WRR sample_env 1 99 kernel_sample]
  by (simp add: sys_sched_get_priority_min_def sys_sched_get_priority_max_def policy_defs)

end
