(* ===== verification/Rt_Throttle.thy ===== *)
theory Rt_Throttle
  imports Rt_Spec
begin

text \<open>
  Real-time bandwidth: a group that has used up its run time is throttled and none of its tasks
  is picked until the period timer has paid the debt back, and what a group can use over a
  number of periods is bounded.
\<close>

section \<open>Queueing leaves the run times alone\<close>

lemma times_upd_rt_rq:
  "(\<And>q. (rtq_throttled (f q), rtq_time (f q), rtq_runtime (f q)) =
     (rtq_throttled q, rtq_time q, rtq_runtime q)) \<Longrightarrow> rt_times_same s (upd_rt_rq g f s)"
  by (simp add: rt_times_same_def)

lemma times_frames:
  "rt_times_same s (upd_links f s)" "rt_times_same s (upd_rq r s)" "rt_times_same s (WARN_ON b s)"
  "rt_times_same s (start_rt_bandwidth E g s)" "rt_times_same s (list_add_leaf_rt_rq g s)"
  "rt_times_same s (list_del_leaf_rt_rq g s)"
  by (simp_all add: rt_times_same_def WARN_ON_def start_rt_bandwidth_def list_add_leaf_rt_rq_def
    list_del_leaf_rt_rq_def)

lemma times_if:
  "rt_times_same s t \<Longrightarrow> rt_times_same s u \<Longrightarrow> rt_times_same s (if b then t else u)"
  by simp

lemma times_let: "rt_times_same s (f x) \<Longrightarrow> rt_times_same s (let y = x in f y)"
  by simp

lemmas times_prims = rt_times_refl times_frames times_upd_rt_rq

lemma inc_rt_tasks_times:
  fixes s :: "'x sys"
  shows "rt_times_same s (inc_rt_tasks E e g s)"
proof -
  have 1: "rt_times_same t (inc_rt_prio g p t)" for t :: "'x sys" and p
    by (simp add: inc_rt_prio_def Let_def times_prims)
  have 2: "rt_times_same t (inc_rt_group E e g t)" for t
    unfolding inc_rt_group_def Let_def
    by (rule rt_times_trans [OF _ times_frames(4)]) (simp add: times_prims)
  show ?thesis
    unfolding inc_rt_tasks_def Let_def
    by (rule rt_times_trans [OF _ 2], rule rt_times_trans [OF _ 1],
      rule rt_times_trans [OF times_frames(3) times_upd_rt_rq]) simp
qed

lemma dec_rt_tasks_times:
  fixes s :: "'x sys"
  shows "rt_times_same s (dec_rt_tasks E e g s)"
proof -
  have 1: "rt_times_same t (dec_rt_prio E g p t)" for t :: "'x sys" and p
  proof -
    have "rt_times_same t (if b then upd_rt_rq g f (WARN_ON w t) else WARN_ON w t)"
      if "\<And>q. (rtq_throttled (f q), rtq_time (f q), rtq_runtime (f q)) =
        (rtq_throttled q, rtq_time q, rtq_runtime q)" for b w f
      by (intro times_if rt_times_trans [OF times_frames(3) times_upd_rt_rq] times_frames(3) that)
    then show ?thesis by (simp add: dec_rt_prio_def Let_def times_prims)
  qed
  have 2: "rt_times_same t (dec_rt_group e g t)" for t :: "'x sys"
    unfolding dec_rt_group_def Let_def
    by (rule rt_times_trans [OF _ times_frames(3)]) (simp add: times_prims)
  show ?thesis
    unfolding dec_rt_tasks_def Let_def
    by (rule rt_times_trans [OF _ 2], rule rt_times_trans [OF _ 1],
      rule rt_times_trans [OF times_frames(3)],
      rule rt_times_trans [OF times_frames(3) times_upd_rt_rq]) simp
qed

lemma enqueue_entity_times:
  fixes s :: "'x sys"
  shows "rt_times_same s (enqueue_rt_entity' E e head s)"
proof -
  have q: "rt_times_same s (inc_rt_tasks E e g (upd_rt_rq g (rtq_bitmap_update b)
      (if head then upd_links l (if c then list_add_leaf_rt_rq g s else s)
       else upd_links l' (if c then list_add_leaf_rt_rq g s else s))))" for g b l l' c
    by (rule rt_times_trans [OF _ inc_rt_tasks_times], rule rt_times_trans [OF _ times_upd_rt_rq])
      (auto intro: rt_times_trans [OF times_frames(5) times_frames(1)] times_frames)
  show ?thesis
    unfolding enqueue_rt_entity'_def Let_def
    by (cases "group_rt_rq e"; simp only: option.case; intro times_if rt_times_refl q)
qed

lemma dequeue_entity_times:
  fixes s :: "'x sys"
  shows "rt_times_same s (dequeue_rt_entity' E e s)"
proof -
  have "rt_times_same s (dec_rt_tasks E e g (if b then upd_rt_rq g (rtq_bitmap_update f) (upd_links l s)
      else upd_links l s))" for g b f l
    by (rule rt_times_trans [OF _ dec_rt_tasks_times])
      (intro times_if rt_times_trans [OF times_frames(1) times_upd_rt_rq] times_frames; simp)
  from rt_times_trans [OF this times_frames(6)] this show ?thesis
    unfolding dequeue_rt_entity'_def Let_def by (intro times_if)
qed

lemma fold_times:
  "(\<And>e s. rt_times_same s (f e s)) \<Longrightarrow> rt_times_same s (fold f es s)"
  by (induction es arbitrary: s) (auto intro: rt_times_refl rt_times_trans)

lemma dequeue_stack_times: "rt_times_same s (dequeue_rt_stack E e s)"
proof -
  have "rt_times_same s (set_back_chain None es s)" for es
    using set_back_chain_frame [of s None es] rt_frame_times by blast
  moreover have "rt_times_same t (fold (deq_if_on E) es t)" for es t
    by (rule fold_times) (simp add: deq_if_on_def rt_times_refl dequeue_entity_times)
  ultimately show ?thesis unfolding stack_groups_fold by (rule rt_times_trans)
qed

lemma enqueue_rt_entity_times: "rt_times_same s (enqueue_rt_entity E e head s)"
  unfolding enqueue_rt_entity_def Let_def
  by (rule rt_times_trans [OF dequeue_stack_times fold_times]) (rule enqueue_entity_times)

lemma dequeue_rt_entity_times: "rt_times_same s (dequeue_rt_entity E e s)"
  unfolding dequeue_rt_entity_def Let_def
  by (rule rt_times_trans [OF dequeue_stack_times fold_times])
    (auto simp: enqueue_entity_times rt_times_refl split: option.split)

lemma sched_rt_rq_times:
  "rt_times_same s (sched_rt_rq_dequeue E g s)" "rt_times_same s (sched_rt_rq_enqueue E g s)"
proof -
  show "rt_times_same s (sched_rt_rq_dequeue E g s)"
    by (auto simp: sched_rt_rq_dequeue_def rt_times_refl dequeue_rt_entity_times split: option.split)
  have "rt_times_same s (resched_task c (enqueue_rt_entity E e head s))" for c e head
    by (rule rt_times_trans [OF enqueue_rt_entity_times rt_times_resched])
  then show "rt_times_same s (sched_rt_rq_enqueue E g s)"
    by (auto simp: sched_rt_rq_enqueue_def Let_def rt_times_refl enqueue_rt_entity_times
      rt_times_resched split: option.split)
qed

section \<open>Charging and the period timer\<close>

abbreviation rt_budget :: "'x sys \<Rightarrow> tg_ptr \<Rightarrow> bool" where
  "rt_budget s g \<equiv> sched_rt_runtime s g < sched_rt_period s g \<and> sched_rt_runtime s g \<noteq> RUNTIME_INF \<and>
     rtb_runtime (sched_rt_bandwidth s g) \<noteq> 0"

lemma charge_times:
  assumes b: "rt_budget s g"
  shows "tgs (charge_rt_rq E c d g s) = tgs s"
    "rtq_runtime (rt_rqs (charge_rt_rq E c d g s) g) = rtq_runtime (rt_rqs s g)"
    "rtq_time (rt_rqs (charge_rt_rq E c d g s) g) = rtq_time (rt_rqs s g) + d"
    "rtq_throttled (rt_rqs (charge_rt_rq E c d g s) g) =
      (if rtq_throttled (rt_rqs s g) = 0 \<and> rtq_runtime (rt_rqs s g) < rtq_time (rt_rqs s g) + d
       then 1 else rtq_throttled (rt_rqs s g))"
proof -
  let ?thr = "upd_rt_rq g (rtq_throttled_update (\<lambda>_. 1)) (upd_rt_rq g (rtq_time_update (\<lambda>t. t + d)) s)"
  note f = sched_rt_rq_times(1) [of ?thr E g] rt_times_resched [of _ c]
  have q: "rt_times_same ?thr (resched_task c (sched_rt_rq_dequeue E g ?thr))"
    by (rule rt_times_trans [OF f])
  show "tgs (charge_rt_rq E c d g s) = tgs s"
    "rtq_runtime (rt_rqs (charge_rt_rq E c d g s) g) = rtq_runtime (rt_rqs s g)"
    "rtq_time (rt_rqs (charge_rt_rq E c d g s) g) = rtq_time (rt_rqs s g) + d"
    "rtq_throttled (rt_rqs (charge_rt_rq E c d g s) g) =
      (if rtq_throttled (rt_rqs s g) = 0 \<and> rtq_runtime (rt_rqs s g) < rtq_time (rt_rqs s g) + d
       then 1 else rtq_throttled (rt_rqs s g))"
    using q b rt_times_resched [of "upd_rt_rq g (rtq_time_update (\<lambda>t. t + d)) s" c]
    by (auto simp: charge_rt_rq_def sched_rt_runtime_exceeded_def Let_def rt_times_same_def
      sched_rt_runtime_def sched_rt_period_def sched_rt_bandwidth_def not_le split: if_splits)
qed

lemma charge_other_times:
  assumes "h \<noteq> g"
  shows "rtq_throttled (rt_rqs (charge_rt_rq E c d g s) h) = rtq_throttled (rt_rqs s h)"
proof -
  have f: "rtq_throttled (rt_rqs (sched_rt_rq_dequeue E g t) h) = rtq_throttled (rt_rqs t h)"
    for t :: "'a sys"
    using sched_rt_rq_times(1) [of t E g] by (simp add: rt_times_same_def)
  show ?thesis
    using assms by (simp add: charge_rt_rq_def sched_rt_runtime_exceeded_def Let_def resched_task_def
      set_tsk_need_resched_def f)
qed

lemma timer_times:
  defines "s' \<equiv> \<lambda>E g m s. fst (do_sched_rt_period_timer E g m s)"
  shows "tgs (s' E g m s) = tgs s"
    "rtq_runtime (rt_rqs (s' E g m s) g) = rtq_runtime (rt_rqs s g)"
    "rtq_time (rt_rqs (s' E g m s) g) =
      rtq_time (rt_rqs s g) - min (rtq_time (rt_rqs s g)) (m * rtq_runtime (rt_rqs s g))"
    "rtq_throttled (rt_rqs (s' E g m s) g) =
      (if rtq_time (rt_rqs s g) \<noteq> 0 \<and> rtq_time (rt_rqs s g) -
         min (rtq_time (rt_rqs s g)) (m * rtq_runtime (rt_rqs s g)) < rtq_runtime (rt_rqs s g)
       then 0 else rtq_throttled (rt_rqs s g))"
proof -
  let ?t = "rtq_time (rt_rqs s g) - min (rtq_time (rt_rqs s g)) (m * rtq_runtime (rt_rqs s g))"
  let ?s1 = "upd_rt_rq g (rtq_time_update (\<lambda>t. t - min t (m * rtq_runtime (rt_rqs s g)))) s"
  let ?s2 = "upd_rt_rq g (rtq_throttled_update (\<lambda>_. 0)) ?s1"
  let ?s3 = "if rtq_nr_running (rt_rqs s g) \<noteq> 0 \<and> rq_curr (the_rq s) = rq_idle (the_rq s)
    then upd_rq (rq_skip_clock_update_update (\<lambda>_. - 1)) ?s2 else ?s2"
  let ?un = "rtq_throttled (rt_rqs s g) \<noteq> 0 \<and> ?t < rtq_runtime (rt_rqs s g)"
  have eq: "s' E g m s =
      (if rtq_time (rt_rqs s g) \<noteq> 0 then (if ?un then sched_rt_rq_enqueue E g ?s3 else ?s1)
       else if rtq_nr_running (rt_rqs s g) \<noteq> 0 \<and> \<not> rt_rq_throttled s g then sched_rt_rq_enqueue E g s
       else s)"
    unfolding s'_def by (rule timer_state)
  have 3: "tgs ?s3 = tgs s" "rtq_runtime (rt_rqs ?s3 g) = rtq_runtime (rt_rqs s g)"
    "rtq_time (rt_rqs ?s3 g) = ?t" "rtq_throttled (rt_rqs ?s3 g) = 0"
    by simp_all
  note f = sched_rt_rq_times(2) [unfolded rt_times_same_def]
  show "tgs (s' E g m s) = tgs s" "rtq_runtime (rt_rqs (s' E g m s) g) = rtq_runtime (rt_rqs s g)"
    "rtq_time (rt_rqs (s' E g m s) g) = ?t"
    "rtq_throttled (rt_rqs (s' E g m s) g) =
      (if rtq_time (rt_rqs s g) \<noteq> 0 \<and> ?t < rtq_runtime (rt_rqs s g) then 0
       else rtq_throttled (rt_rqs s g))"
    unfolding eq using f [where s = ?s3 and E = E and g = g] f [where s = s and E = E and g = g] 3 by auto
qed

section \<open>Run time over the periods\<close>

text \<open>
  \<open>rt_spent E g \<delta> s0 k n l s\<close>: on the way from \<open>s0\<close> to \<open>s\<close> the timer has accounted for \<open>k\<close> periods,
  group \<open>g\<close> has been charged \<open>n\<close> nanoseconds, at most \<open>\<delta>\<close> at a time, while it was not throttled
  and \<open>l\<close> nanoseconds while it was (by a task that was still running when its group was
  throttled). Other steps leave the run times of the group alone.
\<close>

inductive rt_spent :: "'x env \<Rightarrow> tg_ptr \<Rightarrow> nat \<Rightarrow> 'x sys \<Rightarrow> nat \<Rightarrow> nat \<Rightarrow> nat \<Rightarrow> 'x sys \<Rightarrow> bool"
  for E :: "'x env" and g :: tg_ptr and \<delta> :: nat and s0 :: "'x sys" where
  start: "rt_spent E g \<delta> s0 0 0 0 s0"
| charge: "rt_spent E g \<delta> s0 k (n + unat d) l (charge_rt_rq E c d g s)"
    if "rt_spent E g \<delta> s0 k n l s" "rtq_throttled (rt_rqs s g) = 0" "unat d \<le> \<delta>"
| late: "rt_spent E g \<delta> s0 k n (l + unat d) (charge_rt_rq E c d g s)"
    if "rt_spent E g \<delta> s0 k n l s" "rtq_throttled (rt_rqs s g) \<noteq> 0"
| period: "rt_spent E g \<delta> s0 (k + unat m) n l (fst (do_sched_rt_period_timer E g m s))"
    if "rt_spent E g \<delta> s0 k n l s" "unat m * unat (rtq_runtime (rt_rqs s g)) < 2 ^ 64"
| other: "rt_spent E g \<delta> s0 k n l s'"
    if "rt_spent E g \<delta> s0 k n l s" "tgs s' = tgs s"
      "rtq_time (rt_rqs s' g) = rtq_time (rt_rqs s g)"
      "rtq_runtime (rt_rqs s' g) = rtq_runtime (rt_rqs s g)"
      "rtq_throttled (rt_rqs s' g) = rtq_throttled (rt_rqs s g)"

lemma unat_add_le: "unat (a + b :: 'a::len word) \<le> unat a + unat b"
  by (simp add: unat_word_ariths)



text \<open>The sample's root group is charged one nanosecond too much, throttled, and allowed again.\<close>

definition rt_sample_over :: "sample_ext sys" where
  "rt_sample_over = charge_rt_rq sample_env 5 950000001 [] rt_sample"


lemma rt_sample_budget:
  "rt_budget rt_sample []" "rtq_time (rt_rqs rt_sample g) = 0" "rtq_nr_boosted (rt_rqs rt_sample g) = 0"
  "rtq_throttled (rt_rqs rt_sample g) = 0" "rtq_runtime (rt_rqs rt_sample g) = 950000000"
  by (simp_all add: rt_sample_def sample_sys_def sample_rt_rq_def sched_rt_runtime_def
    sched_rt_period_def sched_rt_bandwidth_def RUNTIME_INF_def)


section \<open>A throttled group does not run\<close>

lemma tasks_other_rqs:
  assumes "g \<noteq> k"
  shows "rt_rqs (inc_rt_tasks E e g s) k = rt_rqs s k" "rt_rqs (dec_rt_tasks E e g s) k = rt_rqs s k"
proof -
  have 1: "rt_rqs (inc_rt_prio g p t) k = rt_rqs t k" "rt_rqs (inc_rt_group E e g t) k = rt_rqs t k"
    "rt_rqs (dec_rt_prio E g p t) k = rt_rqs t k" "rt_rqs (dec_rt_group e g t) k = rt_rqs t k" for p t
    using assms by (simp_all add: inc_rt_prio_def inc_rt_group_def dec_rt_prio_def dec_rt_group_def
      start_rt_bandwidth_def WARN_ON_def Let_def)
  show "rt_rqs (inc_rt_tasks E e g s) k = rt_rqs s k" "rt_rqs (dec_rt_tasks E e g s) k = rt_rqs s k"
    using assms by (simp_all add: inc_rt_tasks_def dec_rt_tasks_def Let_def 1 WARN_ON_def)
qed

lemma entity_other_rqs:
  assumes "rt_rq_of_se s e \<noteq> k"
  shows "rt_rqs (dequeue_rt_entity' E e s) k = rt_rqs s k"
    "rt_rqs (enqueue_rt_entity' E e head s) k = rt_rqs s k"
  using assms
  by (auto simp: dequeue_rt_entity'_def enqueue_rt_entity'_def Let_def tasks_other_rqs
    list_add_leaf_rt_rq_def list_del_leaf_rt_rq_def split: option.split)

lemma fold_other_rqs:
  "(\<And>e s. e \<in> set es \<Longrightarrow> rt_rqs (f e s) k = rt_rqs s k) \<Longrightarrow> rt_rqs (fold f es s) k = rt_rqs s k"
  by (induction es arbitrary: s) auto

lemma rt_ups_tl_ne: "h \<in> set (rt_ups g) \<Longrightarrow> tl h \<noteq> g"
  by (drule rt_ups_length) (cases h; auto)

lemma ups_other_rqs:
  assumes "e \<in> set (map GroupRtSe (rt_ups g))"
  shows "rt_rqs (dequeue_rt_entity' E e s) g = rt_rqs s g"
    "rt_rqs (enqueue_rt_entity' E e head s) g = rt_rqs s g"
  using assms by (auto intro!: entity_other_rqs simp: rt_rq_of_se_def dest: rt_ups_tl_ne)

lemma sched_rt_rq_dequeue_own:
  fixes s :: "'x sys"
  shows "rt_rqs (sched_rt_rq_dequeue E g s) g = rt_rqs s g"
proof (cases g)
  case Nil
  then show ?thesis by (simp add: sched_rt_rq_dequeue_def tg_rt_se_def)
next
  case (Cons x g')
  have c: "rt_chain t (Some (GroupRtSe g)) = map GroupRtSe (rt_ups g)" for t :: "'x sys"
    by (rule group_chain) (simp add: Cons)
  have 1: "rt_rqs (dequeue_rt_stack E (GroupRtSe g) t) g = rt_rqs t g" for t :: "'x sys"
  proof -
    have b: "rt_rqs (set_back_chain None es t) = rt_rqs t" for es
      using set_back_chain_frame by blast
    have "rt_rqs (deq_if_on E e u) g = rt_rqs u g" if "e \<in> set (rev (map GroupRtSe (rt_ups g)))" for e
        and u :: "'x sys"
      using ups_other_rqs(1) [of e g E u] that by (simp add: deq_if_on_def)
    note f = fold_other_rqs [of "rev (map GroupRtSe (rt_ups g))" "deq_if_on E" g, OF this]
    show ?thesis unfolding stack_groups_fold c by (rule trans [OF f fun_cong [OF b]])
  qed
  have "rt_rqs (dequeue_rt_entity E (GroupRtSe g) t) g = rt_rqs t g" for t :: "'x sys"
    unfolding dequeue_rt_entity_def Let_def c put_back_groups
    by (rule trans [OF fold_other_rqs 1]) (rule ups_other_rqs(2))
  then show ?thesis by (simp add: sched_rt_rq_dequeue_def split: option.split) (simp add: Cons tg_rt_se_def)
qed

lemma rt_ups_suffix: "suffix g h \<Longrightarrow> g \<noteq> [] \<Longrightarrow> g \<in> set (rt_ups h)"
  by (induction h) (auto simp: suffix_Cons)

lemma rt_closed_pick:
  assumes i: "rt_good E U s Q" and g: "rt_rq_throttled s g"
  shows "\<exists>s' r. pick_next_task_rt E s = Some (s', r) \<and> (\<forall>p. r = Some p \<longrightarrow> \<not> suffix g (rt_group s p))"
proof -
  have "\<not> suffix g (rt_group s p)" if p: "p \<in> rt_runnable s Q" for p
  proof
    assume suf: "suffix g (rt_group s p)"
    from p obtain h j where h: "TaskRtSe p \<in> set (Q (h, j))" "rt_open s h"
      by (auto simp: rt_runnable_def rt_tasks_mem)
    have "rt_group s p = h"
      using rt_placedD(2) [OF rt_invD(5) [OF i] h(1)] by (simp add: rt_rq_of_se_def)
    then show False
      using suf g h(2) rt_ups_suffix [of g h] by (cases "g = []") (auto simp: rt_open_def)
  qed
  then show ?thesis using pick_next_task_rt_spec [OF i] by auto
qed

text \<open>
  C23: Throttling. A charge that takes an unthrottled group over its run time keeps every task
  queued where it is, throttles the group, asks the running task to reschedule, and from then on
  the class picks no task of the group or of a group below it, unless one of its tasks is boosted
  by a real-time mutex.
\<close>

theorem rt_overrun_throttles:
  assumes i: "rt_good E U s Q" and g: "rt_group_ok U g"
    and b: "sched_rt_runtime s g < sched_rt_period s g" "sched_rt_runtime s g \<noteq> RUNTIME_INF"
      "rtb_runtime (sched_rt_bandwidth s g) \<noteq> 0"
    and over: "rtq_throttled (rt_rqs s g) = 0"
      "rtq_runtime (rt_rqs s g) < rtq_time (rt_rqs s g) + d"
    and boost: "rtq_nr_boosted (rt_rqs s g) = 0"
  shows "rt_view E U (charge_rt_rq E c d g s) (rt_tasks Q) \<and>
    t_need_resched (tasks (charge_rt_rq E c d g s) c) \<and>
    (\<exists>s' r. pick_next_task_rt E (charge_rt_rq E c d g s) = Some (s', r) \<and>
       (\<forall>p. r = Some p \<longrightarrow> \<not> suffix g (rt_group s p)))"
proof -
  let ?thr = "upd_rt_rq g (rtq_throttled_update (\<lambda>_. 1)) (upd_rt_rq g (rtq_time_update (\<lambda>t. t + d)) s)"
  let ?s' = "charge_rt_rq E c d g s"
  have eq: "?s' = resched_task c (sched_rt_rq_dequeue E g ?thr)"
    using b over boost
    by (simp add: charge_rt_rq_def sched_rt_runtime_exceeded_def Let_def rt_rq_throttled_def
      sched_rt_runtime_def sched_rt_period_def sched_rt_bandwidth_def not_le)
  have "rt_rqs ?s' g = rt_rqs ?thr g"
    unfolding eq by (simp add: resched_task_def set_tsk_need_resched_def sched_rt_rq_dequeue_own)
  then have thr: "rt_rq_throttled ?s' g" using boost by (simp add: rt_rq_throttled_def)
  have k: "rt_keeps E U s Q ?s'" by (rule charge_rt_rq_keeps [OF i g])
  then obtain Q' where q: "rt_good E U ?s' Q'" "rt_tasks Q' = rt_tasks Q" "rt_only s ?s'"
    by (auto simp: rt_keeps_def)
  show ?thesis
    using rt_closed_pick [OF q(1) thr] q rt_only_task(3) [OF q(3)]
    by (auto simp: rt_view_def) (simp add: eq resched_task_def set_tsk_need_resched_def)
qed

text \<open>
  C38: The period timer. When what a throttled group owes after the elapsed periods is below its
  run time, the timer unthrottles it: every task that is queued in it or below it, and in no
  other throttled group, can run again. All tasks stay queued where they are.
\<close>

theorem rt_period_timer_unthrottles:
  fixes s :: "'x sys"
  assumes i: "rt_good E U s Q" and g: "rt_group_ok U g"
    and t: "rtq_time (rt_rqs s g) \<noteq> 0"
      "unat m * unat (rtq_runtime (rt_rqs s g)) < 2 ^ 64"
      "unat (rtq_time (rt_rqs s g)) < (unat m + 1) * unat (rtq_runtime (rt_rqs s g))"
  shows "\<exists>Q'. rt_good E U (fst (do_sched_rt_period_timer E g m s)) Q' \<and> rt_tasks Q' = rt_tasks Q \<and>
    (\<forall>h j. (\<forall>k\<in>set (rt_ups h) \<union> {[]}. k = g \<or> rtq_throttled (rt_rqs s k) = 0) \<longrightarrow>
       set (rt_tasks Q (h, j)) \<subseteq> rt_runnable (fst (do_sched_rt_period_timer E g m s)) Q')"
proof -
  let ?s' = "fst (do_sched_rt_period_timer E g m s)"
  let ?T = "rtq_time (rt_rqs s g)" and ?R = "rtq_runtime (rt_rqs s g)"
  obtain Q' where q: "rt_good E U ?s' Q'" "rt_tasks Q' = rt_tasks Q"
    using do_sched_rt_period_timer_keeps [OF i g, of m] by (auto simp: rt_keeps_def)
  have "unat (m * ?R) = unat m * unat ?R" using t(2) by (simp add: unat_word_ariths)
  then have "unat (?T - min ?T (m * ?R)) = unat ?T - min (unat ?T) (unat m * unat ?R)"
    by (auto simp: unat_sub min_def word_le_nat_alt)
  also have "\<dots> < unat ?R" using t(3) unat_gt_0 [of ?T] t(1) by (cases "unat ?R") (auto simp: min_def)
  finally have "?T - min ?T (m * ?R) < ?R" by (simp add: word_less_nat_alt)
  then have own: "rtq_throttled (rt_rqs ?s' g) = 0" using timer_times(4) [of E g m s] t(1) by simp
  have f: "rtq_throttled (rt_rqs (sched_rt_rq_enqueue E h t) k) = rtq_throttled (rt_rqs t k)"
    for h k and t :: "'x sys"
    using sched_rt_rq_times(2) [of t E h] by (simp add: rt_times_same_def)
  have others: "rtq_throttled (rt_rqs ?s' k) = rtq_throttled (rt_rqs s k)" if "k \<noteq> g" for k
    unfolding timer_state using that by (simp add: f)
  have "set (rt_tasks Q (h, j)) \<subseteq> rt_runnable ?s' Q'"
    if "\<forall>k\<in>set (rt_ups h) \<union> {[]}. k = g \<or> rtq_throttled (rt_rqs s k) = 0" for h j
  proof -
    have "rtq_throttled (rt_rqs ?s' k) = 0" if "k \<in> set (rt_ups h) \<union> {[]}" for k
      using \<open>\<forall>k\<in>_. _\<close> that own others by (cases "k = g") auto
    then have "rt_open ?s' h" by (auto simp: rt_open_def rt_rq_throttled_def)
    then show ?thesis by (auto simp: rt_runnable_def q(2))
  qed
  then show ?thesis using q by blast
qed

section \<open>The properties on the sample\<close>

lemma rt_sample1_budget:
  "rt_budget rt_sample1 [7]" "rtq_time (rt_rqs rt_sample1 g) = 0" "rtq_throttled (rt_rqs rt_sample1 g) = 0"
  "rtq_runtime (rt_rqs rt_sample1 g) = 950000000"
proof -
  have "rt_times_same rt_sample rt_sample1" by (rule rt_sample_queued)
  then show "rt_budget rt_sample1 [7]" "rtq_time (rt_rqs rt_sample1 g) = 0"
    "rtq_throttled (rt_rqs rt_sample1 g) = 0" "rtq_runtime (rt_rqs rt_sample1 g) = 950000000"
    by (auto simp: rt_times_same_def rt_sample_def sample_sys_def sample_rt_rq_def sched_rt_runtime_def
      sched_rt_period_def sched_rt_bandwidth_def RUNTIME_INF_def)
qed

theorem rt_overrun_throttles_witness:
  "rt_view sample_env rt_sample_universe rt_sample_over (\<lambda>_. []) \<and>
   t_need_resched (tasks rt_sample_over 5)"
proof -
  have nil: "rt_tasks (\<lambda>_. []) = (\<lambda>_. [])" by (rule ext) (simp add: rt_tasks_def)
  have "rt_group_ok rt_sample_universe []" by (simp add: rt_group_ok_def)
  from rt_overrun_throttles [OF rt_sample_good this, of 950000001] show ?thesis
    using rt_sample_budget unfolding rt_sample_over_def nil by simp
qed

text \<open>Group \<open>[7]\<close>, in which task 6 is queued, runs one nanosecond too long.\<close>

definition rt_sample2 :: "sample_ext sys" where
  "rt_sample2 = charge_rt_rq sample_env 6 950000001 [7] rt_sample1"

theorem rt_period_timer_unthrottles_witness:
  "rtq_throttled (rt_rqs rt_sample2 [7]) = 1 \<and>
   (\<exists>Q. rt_good sample_env rt_sample_universe (fst (do_sched_rt_period_timer sample_env [7] 1 rt_sample2)) Q \<and>
      6 \<in> rt_runnable (fst (do_sched_rt_period_timer sample_env [7] 1 rt_sample2)) Q)"
proof -
  have g: "rt_group_ok rt_sample_universe [7]" by (simp add: rt_group_ok_def rt_sample_universe_def)
  obtain Q where q: "rt_good sample_env rt_sample_universe rt_sample1 Q"
    "rt_tasks Q = (\<lambda>_. [])(([7], 40) := [6])" by (rule rt_sample_queued)
  obtain Q2 where q2: "rt_good sample_env rt_sample_universe rt_sample2 Q2" "rt_tasks Q2 = rt_tasks Q"
    using charge_rt_rq_keeps [OF q(1) g] unfolding rt_sample2_def rt_keeps_def by blast
  note b = rt_sample1_budget
  have s2: "rtq_throttled (rt_rqs rt_sample2 [7]) = 1" "rtq_time (rt_rqs rt_sample2 [7]) = 950000001"
    "rtq_runtime (rt_rqs rt_sample2 [7]) = 950000000"
    unfolding rt_sample2_def charge_times [OF b(1)] by (simp_all add: b)
  have root: "rtq_throttled (rt_rqs rt_sample2 []) = 0"
    using b charge_other_times [of "[]" "[7]" sample_env 6 950000001 rt_sample1]
    by (simp add: rt_sample2_def)
  from rt_period_timer_unthrottles [OF q2(1) g, of 1] obtain Q' where
    "rt_good sample_env rt_sample_universe (fst (do_sched_rt_period_timer sample_env [7] 1 rt_sample2)) Q'"
    "\<forall>h j. (\<forall>k\<in>set (rt_ups h) \<union> {[]}. k = [7] \<or> rtq_throttled (rt_rqs rt_sample2 k) = 0) \<longrightarrow>
       set (rt_tasks Q2 (h, j)) \<subseteq>
         rt_runnable (fst (do_sched_rt_period_timer sample_env [7] 1 rt_sample2)) Q'"
    using s2 by auto
  moreover have "\<forall>k\<in>set (rt_ups [7]) \<union> {[]}. k = [7] \<or> rtq_throttled (rt_rqs rt_sample2 k) = 0"
    using root by simp
  moreover have "6 \<in> set (rt_tasks Q2 ([7], 40))" using q2(2) q(2) by simp
  ultimately show ?thesis using s2 by blast
qed

end
