(* ===== verification/Rt_Round.thy ===== *)
theory Rt_Round
  imports Rt_Spec
begin

text \<open>
  SCHED_RR: on a machine without real-time groups and with the bandwidth control off, the tasks of
  the best priority form a queue with time slices, so they take turns.
\<close>

section \<open>The queue of the best priority\<close>

definition rt_flat :: "rt_se_ptr set \<Rightarrow> bool" where
  "rt_flat U \<longleftrightarrow> (\<forall>g. GroupRtSe g \<notin> U)"

text \<open>The root group's list of priority \<open>j\<close> is \<open>ts\<close>, better lists are empty, nothing is throttled.\<close>

definition rt_rr :: "'x env \<Rightarrow> rt_se_ptr set \<Rightarrow> nat \<Rightarrow> 'x sys \<Rightarrow> task_ptr list \<Rightarrow> bool" where
  "rt_rr E U j s ts \<longleftrightarrow> rt_flat U \<and> j < 100 \<and> (\<exists>Q. rt_good E U s Q \<and> rt_tasks Q ([], j) = ts \<and>
     (\<forall>i<j. rt_tasks Q ([], i) = [])) \<and> rtq_throttled (rt_rqs s []) = 0 \<and> \<not> rt_bandwidth_enabled s"

text \<open>The same without the two conditions on the machine, no real-time groups and no bandwidth control.\<close>

definition rr_queue :: "'x env \<Rightarrow> rt_se_ptr set \<Rightarrow> nat \<Rightarrow> 'x sys \<Rightarrow> task_ptr list \<Rightarrow> bool" where
  "rr_queue E U j s ts \<longleftrightarrow> j < 100 \<and> (\<exists>Q. rt_good E U s Q \<and> rt_tasks Q ([], j) = ts \<and>
     (\<forall>i<j. rt_tasks Q ([], i) = [])) \<and> rtq_throttled (rt_rqs s []) = 0"

lemma rt_rr_queue: "rt_rr E U j s ts \<longleftrightarrow> rt_flat U \<and> \<not> rt_bandwidth_enabled s \<and> rr_queue E U j s ts"
  by (auto simp: rt_rr_def rr_queue_def)

text \<open>One turn: the picked task becomes current and gets a tick.\<close>

definition rt_turn :: "'x env \<Rightarrow> task_ptr \<Rightarrow> 'x sys \<Rightarrow> 'x sys" where
  "rt_turn E p s = task_tick_rt E p 0 (upd_rq (rq_curr_update (\<lambda>_. p)) s)"

definition rr_ready :: "'x env \<Rightarrow> rt_se_ptr set \<Rightarrow> nat \<Rightarrow> 'x sys \<Rightarrow> task_ptr \<Rightarrow> bool" where
  "rr_ready E U j s p \<longleftrightarrow> t_policy (tasks s p) = SCHED_RR \<and> rt_task_ok U s p \<and>
     t_prio (tasks s p) = int j \<and> RR_TIMESLICE E \<noteq> 0"

definition rr_left :: "'x sys \<Rightarrow> task_ptr \<Rightarrow> nat" where
  "rr_left s p = (if rse_time_slice (t_rt (tasks s p)) = 0 then 2 ^ 32
     else unat (rse_time_slice (t_rt (tasks s p))))"

lemma rt_flat_tasks:
  assumes i: "rt_good E U s Q" and f: "rt_flat U"
  shows "Q k = map TaskRtSe (rt_tasks Q k)"
proof -
  have "\<exists>p. e = TaskRtSe p" if "e \<in> set (Q k)" for e
  proof -
    have "e \<in> U" using that rt_placedD(1) [OF rt_invD(5) [OF i], of e "fst k" "snd k"] by simp
    with f show ?thesis by (cases e) (simp_all add: rt_flat_def)
  qed
  then have "es = map TaskRtSe (concat (map se_task es))" if "set es \<subseteq> set (Q k)" for es
    using that by (induction es) force+
  then show ?thesis unfolding rt_tasks_def by blast
qed

lemma rt_rr_distinct:
  assumes "rt_rr E U j s ts"
  shows "distinct ts"
proof -
  obtain Q where q: "rt_good E U s Q" "rt_tasks Q ([], j) = ts" "rt_flat U" "j < 100"
    using assms by (auto simp: rt_rr_def)
  have "distinct (map TaskRtSe ts)"
    using rt_flat_tasks [OF q(1,3), of "([], j)"] q(2,4)
      on_queues_distinct [OF rt_invD(4) [OF q(1), unfolded rt_links_def], of "([], j)"]
    by simp
  then show ?thesis by (simp add: distinct_map)
qed

lemma rt_rr_pick:
  assumes "rt_rr E U j s (p # ps)"
  shows "pick_next_task_rt E s = Some (upd_task p (t_se_update (se_exec_start_update
    (\<lambda>_. rq_clock_task (the_rq s)))) s, Some p)"
proof -
  obtain Q where q: "rt_good E U s Q" "rt_tasks Q ([], j) = p # ps" "\<forall>i<j. rt_tasks Q ([], i) = []"
    and f: "rt_flat U" and j: "j < 100" and thr: "rtq_throttled (rt_rqs s []) = 0"
    using assms by (auto simp: rt_rr_def)
  note fl = rt_flat_tasks [OF q(1) f]
  have mem: "TaskRtSe p \<in> set (Q ([], j))" using q(2) rt_tasks_mem [of p Q "([], j)"] by simp
  note b = rt_nr_running_pos [OF q(1) mem]
  obtain e es where e: "pick_next_rt_entity E [] s = Some e"
      "Q ([], nat (rtq_highest_prio (rt_rqs s []))) = e # es"
    using pick_next_rt_entity_spec [OF q(1) b(1)] by blast
  have "Q ([], i) = []" if "i < j" for i using fl [of "([], i)"] q(3) that by simp
  then have "\<not> nat (rtq_highest_prio (rt_rqs s [])) < j" using e(2) by auto
  then have "nat (rtq_highest_prio (rt_rqs s [])) = j" using b(2) by simp
  then have "e = TaskRtSe p" using e(2) fl [of "([], j)"] q(2) by simp
  then have "pick_rt_loop E s [] = Some p" by (subst pick_rt_loop.simps) (simp add: e(1))
  then show ?thesis
    using b(1) thr by (simp add: pick_next_task_rt_def pick_next_task_rt'_def rt_rq_throttled_def)
qed

text \<open>What a step must keep for the queue to stay.\<close>

lemma rt_rr_moves:
  assumes "rt_rr E U j s ts" and "rt_good E U s Q"
    and m: "rt_moves E U s ((rt_tasks Q)(([], j) := ts')) s'"
    and "rtq_throttled (rt_rqs s' []) = rtq_throttled (rt_rqs s [])"
      "sysctl_rt_runtime s' = sysctl_rt_runtime s"
  shows "rt_rr E U j s' ts'"
proof -
  obtain Q0 where q: "rt_good E U s Q0" "\<forall>i<j. rt_tasks Q0 ([], i) = []"
    using assms(1) by (auto simp: rt_rr_def)
  have "Q0 = Q" using rt_links_unique rt_invD(4) [OF q(1)] rt_invD(4) [OF assms(2)] by blast
  then show ?thesis
    using assms q by (force simp: rt_rr_def rt_moves_def rt_bandwidth_enabled_def)
qed

section \<open>The tick\<close>

definition rr_same :: "'x sys \<Rightarrow> 'x sys \<Rightarrow> bool" where
  "rr_same s s' \<longleftrightarrow> rt_rqs s' = rt_rqs s \<and> sysctl_rt_runtime s' = sysctl_rt_runtime s \<and>
     (\<forall>p. rse_time_slice (t_rt (tasks s' p)) = rse_time_slice (t_rt (tasks s p)))"

lemma rr_same_update_curr: "\<not> rt_bandwidth_enabled s \<Longrightarrow> rr_same s (update_curr_rt E s)"
  by (simp add: update_curr_rt_def Let_def rr_same_def rt_bandwidth_enabled_def)

lemma rr_same_watchdog: "rr_same s (watchdog_rt E p s)"
  by (simp add: watchdog_rt_def Let_def rr_same_def)

lemma rr_same_requeue: "rr_same s (requeue_task_rt E p head s)"
proof -
  have "rr_same s (fold (\<lambda>e s. requeue_rt_entity E (rt_rq_of_se s e) e head s) es s)" for es
    by (induction es arbitrary: s) (auto simp: rr_same_def requeue_rt_entity_def Let_def)
  then show ?thesis unfolding requeue_task_rt_def .
qed

lemma rr_same_trans: "rr_same s t \<Longrightarrow> rr_same t u \<Longrightarrow> rr_same s u"
  by (simp add: rr_same_def)

lemma rr_same_curr: "rr_same s (upd_rq (rq_curr_update f) s)"
  by (simp add: rr_same_def)

text \<open>Charging the running task and its watchdog, before the slice is looked at.\<close>

definition rt_charged :: "'x env \<Rightarrow> task_ptr \<Rightarrow> 'x sys \<Rightarrow> 'x sys" where
  "rt_charged E p s = watchdog_rt E p (update_curr_rt E (upd_rq (rq_curr_update (\<lambda>_. p)) s))"

lemma rt_turn_start:
  assumes r: "rt_rr E U j s ts" and p: "rt_task_ok U s p" and q: "rt_good E U s Q"
  shows "rr_same s (rt_charged E p s)"
    "\<exists>Q'. rt_good E U (rt_charged E p s) Q' \<and> rt_tasks Q' = rt_tasks Q"
    "task_core (tasks (rt_charged E p s) u) = task_core (tasks s u)"
proof -
  let ?s1 = "upd_rq (rq_curr_update (\<lambda>_. p)) s"
  have en: "\<not> rt_bandwidth_enabled ?s1" using r by (simp add: rt_rr_def rt_bandwidth_enabled_def)
  show "rr_same s (rt_charged E p s)"
    unfolding rt_charged_def
    by (rule rr_same_trans [OF rr_same_curr rr_same_trans [OF rr_same_update_curr [OF en] rr_same_watchdog]])
  have q1: "rt_good E U ?s1 Q"
    by (rule rt_inv_same [OF q]) (simp_all add: rt_same_def rt_throttle_same_def)
  have "rt_task_ok U ?s1 p" using p by (simp add: rt_task_ok_def Let_def)
  then have "rt_keeps E U ?s1 Q (update_curr_rt E ?s1)" by (intro update_curr_rt_keeps [OF q1]) simp
  then have "rt_keeps E U ?s1 Q (rt_charged E p s)"
    unfolding rt_charged_def by (rule rt_keeps_trans) (rule watchdog_rt_keeps)
  then show "\<exists>Q'. rt_good E U (rt_charged E p s) Q' \<and> rt_tasks Q' = rt_tasks Q"
    "task_core (tasks (rt_charged E p s) u) = task_core (tasks s u)"
    by (auto simp: rt_keeps_def rt_only_def)
qed

lemma rr_same_slice: "rr_same s s' \<Longrightarrow> rr_same (set_rt_slice p v s) (set_rt_slice p v s')"
  by (simp add: rr_same_def set_rt_slice_def)

lemma rt_rr_keeps_slice:
  assumes r: "rt_rr E U j s ts" and sm: "rr_same s s2"
    and q: "rt_good E U s2 Q" "rt_tasks Q ([], j) = ts" "\<forall>i<j. rt_tasks Q ([], i) = []"
  shows "rt_rr E U j (set_rt_slice p v s2) ts"
proof -
  have "rt_good E U (set_rt_slice p v s2) Q"
    using set_rt_slice_keeps [OF q(1), of p v]
    by (intro rt_inv_same [OF q(1)]) (simp_all add: set_rt_slice_def rt_same_def rt_throttle_same_def)
  then show ?thesis
    using r sm q by (auto simp: rt_rr_def rr_same_def set_rt_slice_def rt_bandwidth_enabled_def)
qed

lemma rt_turn_runs:
  assumes r: "rt_rr E U j s ts" and p: "rr_ready E U j s p" and l: "rse_time_slice (t_rt (tasks s p)) \<noteq> 1"
  defines "s2 \<equiv> rt_charged E p s"
  shows "rt_turn E p s = set_rt_slice p (rse_time_slice (t_rt (tasks s p)) - 1) s2"
    "rt_rr E U j (rt_turn E p s) ts"
proof -
  obtain Q where q: "rt_good E U s Q" "rt_tasks Q ([], j) = ts" "\<forall>i<j. rt_tasks Q ([], i) = []"
    using r by (auto simp: rt_rr_def)
  have ok: "rt_task_ok U s p" "t_policy (tasks s p) = SCHED_RR" using p by (simp_all add: rr_ready_def)
  note c = rt_turn_start [OF r ok(1) q(1), folded s2_def]
  have sl: "rse_time_slice (t_rt (tasks s2 p)) = rse_time_slice (t_rt (tasks s p))"
    using c(1) by (simp add: rr_same_def)
  have pol: "t_policy (tasks s2 p) = SCHED_RR" using c(3) [of p] ok(2) by (simp add: task_core_def)
  show eq: "rt_turn E p s = set_rt_slice p (rse_time_slice (t_rt (tasks s p)) - 1) s2"
    using l sl pol
    by (simp add: rt_turn_def task_tick_rt_def Let_def set_rt_slice_def flip: rt_charged_def s2_def)
  obtain Q2 where "rt_good E U s2 Q2" "rt_tasks Q2 = rt_tasks Q" using c(2) by blast
  then show "rt_rr E U j (rt_turn E p s) ts"
    unfolding eq using q(2,3) by (intro rt_rr_keeps_slice [OF r c(1), of Q2]) simp_all
qed

lemma rt_flat_chain:
  "rt_flat U \<Longrightarrow> rt_task_ok U s p \<Longrightarrow>
   rt_group s p = [] \<and> rt_chain s (Some (TaskRtSe p)) = [TaskRtSe p]"
  using rt_chain_task [of U s p]
  by (auto simp: rt_task_ok_def rt_flat_def Let_def split: if_splits)

lemma rt_turn_expires:
  assumes r: "rt_rr E U j s (p # ps)" and p: "rr_ready E U j s p"
    and l: "rse_time_slice (t_rt (tasks s p)) = 1"
  defines "s4 \<equiv> set_rt_slice p (RR_TIMESLICE E) (set_rt_slice p 0 (rt_charged E p s))"
  shows "rt_turn E p s = (if ps = [] then s4 else set_tsk_need_resched p (requeue_task_rt E p 0 s4))"
    "rt_rr E U j (rt_turn E p s) (ps @ [p])"
proof -
  let ?s2 = "rt_charged E p s"
  obtain Q where q: "rt_good E U s Q" "rt_tasks Q ([], j) = p # ps" "\<forall>i<j. rt_tasks Q ([], i) = []"
    and f: "rt_flat U" and j: "j < 100" using r by (auto simp: rt_rr_def)
  have ok: "rt_task_ok U s p" "t_policy (tasks s p) = SCHED_RR" "t_prio (tasks s p) = int j"
    using p by (simp_all add: rr_ready_def)
  note c = rt_turn_start [OF r ok(1) q(1)]
  have sl: "rse_time_slice (t_rt (tasks ?s2 p)) = 1" using c(1) l by (simp add: rr_same_def)
  have pol: "t_policy (tasks ?s2 p) = SCHED_RR" using c(3) [of p] ok(2) by (simp add: task_core_def)
  obtain Q2 where q2: "rt_good E U ?s2 Q2" "rt_tasks Q2 = rt_tasks Q" using c(2) by blast
  have q4: "rt_good E U s4 Q2"
    by (rule rt_inv_same [OF q2(1)])
      (simp_all add: s4_def set_rt_slice_def rt_same_def rt_throttle_same_def)
  have core4: "task_core (tasks s4 u) = task_core (tasks s u)" for u
    unfolding c(3) [symmetric] by (cases "u = p") (simp_all add: s4_def set_rt_slice_def task_core_def)
  then have ok4: "rt_task_ok U s4 p" using ok(1) by (simp add: rt_task_ok_def task_core_def Let_def)
  note ch = rt_flat_chain [OF f ok4]
  have mem: "TaskRtSe p \<in> set (Q2 ([], j))" using q(2) rt_tasks_mem [of p Q2 "([], j)"] q2(2) by simp
  have "lh_prev (links s4 (RtRun (TaskRtSe p))) = lh_next (links s4 (RtRun (TaskRtSe p))) \<longleftrightarrow>
      Q2 ([], j) = [TaskRtSe p]"
    by (rule on_queues_neighbours_eq [OF rt_invD(4) [OF q4, unfolded rt_links_def] mem])
  also have "\<dots> \<longleftrightarrow> ps = []"
    using rt_flat_tasks [OF q4 f, of "([], j)"] q(2) q2(2) by auto
  finally show eq: "rt_turn E p s =
      (if ps = [] then s4 else set_tsk_need_resched p (requeue_task_rt E p 0 s4))"
    using sl pol ch
    by (simp add: rt_turn_def task_tick_rt_def Let_def set_rt_slice_def s4_def flip: rt_charged_def)
  have 4: "rt_rr E U j s4 (p # ps)"
    unfolding s4_def
  proof (rule rt_rr_keeps_slice [where Q = Q2 and s = "set_rt_slice p 0 s"])
    show "rt_rr E U j (set_rt_slice p 0 s) (p # ps)"
      by (rule rt_rr_keeps_slice [OF r _ q]) (simp add: rr_same_def)
    show "rr_same (set_rt_slice p 0 s) (set_rt_slice p 0 ?s2)" by (rule rr_same_slice [OF c(1)])
    show "rt_good E U (set_rt_slice p 0 ?s2) Q2"
      by (rule rt_inv_same [OF q2(1)]) (simp_all add: set_rt_slice_def rt_same_def rt_throttle_same_def)
  qed (use q q2 in simp_all)
  let ?s5 = "set_tsk_need_resched p (requeue_task_rt E p 0 s4)"
  have d: "distinct (p # ps)" by (rule rt_rr_distinct [OF r])
  have "rt_place s4 p = ([], j)" using ch core4 [of p] ok(3) by (simp add: task_core_def)
  then have "move_task s4 0 (TaskRtSe p) (rt_tasks Q2) = (rt_tasks Q2)(([], j) := ps @ [p])"
    using q(2) q2(2) d by (simp add: move_task_def move_to_def insert_at_def removeAll_id)
  with requeue_task_rt_moves [OF q4 ok4, of 0]
  have "rt_moves E U s4 ((rt_tasks Q2)(([], j) := ps @ [p])) (requeue_task_rt E p 0 s4)" by simp
  then have "rt_moves E U s4 ((rt_tasks Q2)(([], j) := ps @ [p])) ?s5"
    by (rule rt_moves_then_same) (use rt_keeps_resched in \<open>auto simp: resched_task_def\<close>)
  moreover have "rr_same s4 (requeue_task_rt E p 0 s4)" by (rule rr_same_requeue)
  ultimately have "rt_rr E U j ?s5 (ps @ [p])"
    by (intro rt_rr_moves [OF 4 q4]) (simp_all add: rr_same_def set_tsk_need_resched_def)
  with 4 show "rt_rr E U j (rt_turn E p s) (ps @ [p])" unfolding eq by auto
qed

section \<open>The class meets the interface of sliced queues\<close>

lemma rr_turn_core:
  assumes "rt_rr E U j s (p # ps)" and "rr_ready E U j s p"
  shows "task_core (tasks (rt_turn E p s) u) = task_core (tasks s u)"
    "rse_time_slice (t_rt (tasks (rt_turn E p s) u)) =
      (if u = p then
         if rse_time_slice (t_rt (tasks s p)) = 1 then RR_TIMESLICE E
         else rse_time_slice (t_rt (tasks s p)) - 1
       else rse_time_slice (t_rt (tasks s u)))"
proof -
  obtain Q where q: "rt_good E U s Q" using assms(1) by (auto simp: rt_rr_def)
  have ok: "rt_task_ok U s p" using assms(2) by (simp add: rr_ready_def)
  note c = rt_turn_start [OF assms(1) ok q]
  have sl: "task_core (tasks (set_rt_slice p v t) u) = task_core (tasks t u)" for v and t :: "'a sys"
    by (cases "u = p") (simp_all add: set_rt_slice_def task_core_def)
  have rq: "rse_time_slice (t_rt (tasks (requeue_task_rt E p 0 t) u)) = rse_time_slice (t_rt (tasks t u))"
      "task_core (tasks (requeue_task_rt E p 0 t) u) = task_core (tasks t u)" for t
  proof -
    have "tasks (fold (\<lambda>e s. requeue_rt_entity E (rt_rq_of_se s e) e 0 s) es t) = tasks t" for es
      by (induction es arbitrary: t) (auto simp: requeue_rt_entity_def Let_def)
    then have "tasks (requeue_task_rt E p 0 t) = tasks t" unfolding requeue_task_rt_def .
    then show "rse_time_slice (t_rt (tasks (requeue_task_rt E p 0 t) u)) = rse_time_slice (t_rt (tasks t u))"
      "task_core (tasks (requeue_task_rt E p 0 t) u) = task_core (tasks t u)" by simp_all
  qed
  have ne: "task_core (tasks (set_tsk_need_resched p t) u) = task_core (tasks t u)"
      "rse_time_slice (t_rt (tasks (set_tsk_need_resched p t) u)) = rse_time_slice (t_rt (tasks t u))"
    for t :: "'a sys"
    by (cases "u = p"; simp add: set_tsk_need_resched_def task_core_def)+
  have resched: "rse_time_slice (t_rt (tasks (if b then t
      else set_tsk_need_resched p (requeue_task_rt E p 0 t)) u)) = rse_time_slice (t_rt (tasks t u))" for b t
    by (simp add: ne rq)
  have c1: "rse_time_slice (t_rt (tasks (rt_charged E p s) u)) = rse_time_slice (t_rt (tasks s u))"
    using c(1) by (simp add: rr_same_def)
  show "task_core (tasks (rt_turn E p s) u) = task_core (tasks s u)"
  proof (cases "rse_time_slice (t_rt (tasks s p)) = 1")
    case True
    show ?thesis unfolding rt_turn_expires(1) [OF assms True] by (simp add: ne rq sl c(3))
  next
    case False
    show ?thesis unfolding rt_turn_runs(1) [OF assms False] by (simp add: sl c(3))
  qed
  show "rse_time_slice (t_rt (tasks (rt_turn E p s) u)) =
      (if u = p then
         if rse_time_slice (t_rt (tasks s p)) = 1 then RR_TIMESLICE E
         else rse_time_slice (t_rt (tasks s p)) - 1
       else rse_time_slice (t_rt (tasks s u)))"
  proof (cases "rse_time_slice (t_rt (tasks s p)) = 1")
    case True
    show ?thesis
      unfolding rt_turn_expires(1) [OF assms True] resched using True c1 by (simp add: set_rt_slice_def)
  next
    case False
    show ?thesis
      unfolding rt_turn_runs(1) [OF assms False] using False c1 by (simp add: set_rt_slice_def)
  qed
qed

lemma rr_ready_core:
  "task_core (tasks s' p) = task_core (tasks s p) \<Longrightarrow> rr_ready E U j s' p = rr_ready E U j s p"
  by (auto simp: rr_ready_def rt_task_ok_def task_core_def Let_def)

interpretation rt_slices: sliced_queue "rt_rr E U j" "pick_next_task_rt E" "rt_turn E"
  "rr_ready E U j" rr_left "\<lambda>_. unat (RR_TIMESLICE E)" for E :: "'x env" and U j
proof
  fix s s' :: "'x sys" and ts p u r
  show "rt_rr E U j s ts \<Longrightarrow> distinct ts" by (rule rt_rr_distinct)
  have st: "rt_rr E U j (upd_task p (t_se_update (se_exec_start_update f)) s) ts"
    if i: "rt_rr E U j s ts" for f p ts
    using i rt_same_upd_task [of "t_se_update (se_exec_start_update f)" s p]
    by (auto simp: rt_rr_def rt_bandwidth_enabled_def task_core_def intro: rt_inv_same)
  show "\<exists>s'. pick_next_task_rt E s = Some (s', Some p) \<and> rt_rr E U j s' (p # ts)"
    if "rt_rr E U j s (p # ts)"
    using rt_rr_pick [OF that] st [OF that] by blast
  show "rr_ready E U j s p \<Longrightarrow> 0 < rr_left s p" by (simp add: rr_left_def unat_gt_0)
  have pk: "task_core (tasks s' u) = task_core (tasks s u) \<and> rr_left s' u = rr_left s u"
    if i: "rt_rr E U j s ts" and p: "pick_next_task_rt E s = Some (s', r)"
  proof -
    obtain Q where "rt_good E U s Q" using i by (auto simp: rt_rr_def)
    from pick_next_task_rt_spec [OF this] p show ?thesis
      by (auto simp: task_core_def rr_left_def split: if_splits)
  qed
  show "rr_ready E U j s' u = rr_ready E U j s u" "rr_left s' u = rr_left s u"
    if "rt_rr E U j s ts" "pick_next_task_rt E s = Some (s', r)"
    by (rule rr_ready_core [OF conjunct1 [OF pk [OF that]]], rule conjunct2 [OF pk [OF that]])
  assume i: "rt_rr E U j s (p # ts)" and rd: "rr_ready E U j s p"
  note c = rr_turn_core [OF i rd]
  let ?l = "rse_time_slice (t_rt (tasks s p))"
  show "rt_rr E U j (rt_turn E p s) (p # ts) \<and> rr_left (rt_turn E p s) p = rr_left s p - 1"
    if "1 < rr_left s p"
  proof -
    have ne: "?l \<noteq> 1" using that by (auto simp: rr_left_def)
    have "rr_left (rt_turn E p s) p = rr_left s p - 1"
    proof (cases "?l = 0")
      case True
      then have "rse_time_slice (t_rt (tasks (rt_turn E p s) p)) = - 1" using c(2) [of p] by simp
      moreover have "unat (- 1 :: u32) = 2 ^ 32 - 1" by (simp add: unsigned_minus_1_eq_mask mask_eq_exp_minus_1)
      ultimately show ?thesis using True by (simp add: rr_left_def)
    next
      case False
      have "unat (?l - 1) = unat ?l - 1" by (rule unat_dec [OF False])
      moreover have "?l - 1 \<noteq> 0" using ne by auto
      ultimately show ?thesis using False ne c(2) [of p] by (simp add: rr_left_def)
    qed
    then show ?thesis using rt_turn_runs(2) [OF i rd ne] by simp
  qed
  show "rt_rr E U j (rt_turn E p s) (ts @ [p]) \<and> rr_left (rt_turn E p s) p = unat (RR_TIMESLICE E)"
    if "rr_left s p = 1"
  proof -
    have one: "?l = 1" using that by (auto simp: rr_left_def word_unat_eq_iff split: if_splits)
    then show ?thesis
      using rt_turn_expires(2) [OF i rd one] c(2) [of p] rd by (simp add: rr_left_def rr_ready_def)
  qed
  show "u \<noteq> p \<Longrightarrow> rr_left (rt_turn E p s) u = rr_left s u" using c(2) [of u] by (simp add: rr_left_def)
  show "rr_ready E U j (rt_turn E p s) u = rr_ready E U j s u" by (rule rr_ready_core [OF c(1)])
qed

section \<open>Property\<close>

text \<open>
  C36: SCHED_RR tasks of the best priority take turns, on a machine that has no real-time groups below
  the root and whose real-time bandwidth control is switched off
  (\<open>sched_rt_runtime_us\<close> is -1; by default it is on, and then the tasks may be throttled in between).
  When the queue of the best priority holds tasks of the policy with full slices, \<open>n\<close> rounds of
  ticks run them in queue order, each for \<open>RR_TIMESLICE\<close> ticks a round, and lead back to the
  same queue with full slices.
\<close>

theorem rt_round_robin:
  assumes "\<forall>g. GroupRtSe g \<notin> U" and "\<not> rt_bandwidth_enabled s" and "rr_queue E U j s ts"
    and "\<forall>p\<in>set ts. rr_ready E U j s p \<and> rr_left s p = unat (RR_TIMESLICE E)"
  shows "\<exists>s'. run_ticks (pick_next_task_rt E) (rt_turn E) (n * (length ts * unat (RR_TIMESLICE E))) s =
      Some (s', concat (replicate n (concat (map (replicate (unat (RR_TIMESLICE E))) ts)))) \<and>
    rr_queue E U j s' ts \<and> \<not> rt_bandwidth_enabled s' \<and>
    (\<forall>p\<in>set ts. rr_ready E U j s' p \<and> rr_left s' p = unat (RR_TIMESLICE E))"
proof -
  have "rt_rr E U j s ts" using assms(1-3) by (simp add: rt_rr_queue rt_flat_def)
  from rt_slices.run_rounds [OF this assms(4), of n] show ?thesis
    by (auto simp: sum_list_triv rt_rr_queue)
qed

text \<open>Tasks 5 and 8 of the sample, without groups and bandwidth control, queued in this order.\<close>

definition rr_sample0 :: "sample_ext sys" where
  "rr_sample0 = rt_sample\<lparr>sysctl_rt_runtime := - 1\<rparr>"

definition rr_sample :: "sample_ext sys" where
  "rr_sample = enqueue_task_rt sample_env 8 0 (enqueue_task_rt sample_env 5 0 rr_sample0)"

abbreviation rr_universe :: "rt_se_ptr set" where
  "rr_universe \<equiv> {TaskRtSe 5, TaskRtSe 8}"

text \<open>What enqueueing leaves of what the tick looks at.\<close>

lemma enqueue_task_rt_rr:
  assumes i: "rt_good E U s Q" and p: "rt_task_ok U s p"
    and "0 \<le> t_prio (tasks s p)" "t_prio (tasks s p) < 100"
  defines "s' \<equiv> enqueue_task_rt E p 0 s"
  shows "rse_time_slice (t_rt (tasks s' u)) = rse_time_slice (t_rt (tasks s u))"
    "rtq_throttled (rt_rqs s' g) = rtq_throttled (rt_rqs s g)"
    "sysctl_rt_runtime s' = sysctl_rt_runtime s"
proof -
  obtain t where t: "rt_frame s t" "enqueue_task_rt E p 0 s = inc_nr_running t"
    by (rule enqueue_task_rt_frame [OF assms(1-4)])
  obtain b where "tasks t u = t_rt_update (rse_back_update (\<lambda>_. b)) (tasks s u)"
    using t(1) unfolding rt_frame_def task_same_but_back_def by metis
  then show "rse_time_slice (t_rt (tasks s' u)) = rse_time_slice (t_rt (tasks s u))"
    "rtq_throttled (rt_rqs s' g) = rtq_throttled (rt_rqs s g)"
    "sysctl_rt_runtime s' = sysctl_rt_runtime s"
    using t(1) unfolding s'_def t(2)
    by (simp_all add: inc_nr_running_def rt_frame_def)
qed

lemma rr_sample_queue:
  "rt_rr sample_env rr_universe 50 rr_sample [5, 8] \<and>
   (\<forall>p\<in>{5, 8}. rr_ready sample_env rr_universe 50 rr_sample p \<and> rr_left rr_sample p = 10) \<and>
   RR_TIMESLICE sample_env = 10"
proof -
  let ?s1 = "enqueue_task_rt sample_env 5 0 rr_sample0" and ?T1 = "(\<lambda>_. [])(([], 50) := [5])"
  have slice: "RR_TIMESLICE sample_env = 10" by (simp add: RR_TIMESLICE_def)
  have g0: "rt_good sample_env rr_universe rr_sample0 (\<lambda>_. [])"
    unfolding rr_sample0_def by (rule rt_sample_empty) (simp add: rt_universe_def)
  have s0: "rt_place rr_sample0 p = ([], 50)" "t_prio (tasks rr_sample0 p) = 50"
    "rt_task_ok rr_universe rr_sample0 p" "t_policy (tasks rr_sample0 p) = SCHED_RR"
    "rse_time_slice (t_rt (tasks rr_sample0 p)) = 10" if "p \<in> {5, 8}" for p
    using that by (auto simp: rr_sample0_def rt_task_ok_def rt_sample_def rt_sample_tasks_def sample_task_def)
  have nil: "rt_tasks (\<lambda>_. []) = (\<lambda>_. [])" by (rule ext) (simp add: rt_tasks_def)
  have "rt_moves sample_env rr_universe rr_sample0 ?T1 ?s1"
    using enqueue_task_rt_moves [OF g0 s0(3) [of 5], of 0] s0 [of 5]
    by (simp add: rt_on_def nil insert_at_def)
  then obtain Q1 where q1: "rt_good sample_env rr_universe ?s1 Q1" "rt_tasks Q1 = ?T1"
      "rt_only rr_sample0 ?s1" by (auto simp: rt_moves_def)
  note f1 = enqueue_task_rt_rr [OF g0 s0(3) [of 5]] and core1 = rt_only_task [OF q1(3)]
  have ok1: "rt_task_ok rr_universe ?s1 8" using rt_task_ok_only [OF q1(3)] s0(3) by simp
  have off1: "\<not> rt_on Q1 (TaskRtSe 8)" using rt_tasks_on [of 8 Q1] q1(2) by (auto simp: fun_upd_def split: if_splits)
  have "rt_moves sample_env rr_universe ?s1 (?T1(([], 50) := [5, 8])) rr_sample"
    using enqueue_task_rt_moves [OF q1(1) ok1 off1, of 0] s0 [of 8]
    by (simp add: core1 q1(2) insert_at_def rr_sample_def)
  then obtain Q2 where q2: "rt_good sample_env rr_universe rr_sample Q2"
      "rt_tasks Q2 = ?T1(([], 50) := [5, 8])" "rt_only ?s1 rr_sample" by (auto simp: rt_moves_def)
  note f2 = enqueue_task_rt_rr [OF q1(1) ok1, folded rr_sample_def] and core2 = rt_only_task [OF q2(3)]
  have p1: "t_prio (tasks ?s1 8) = 50" using core1(1) s0(2) by simp
  have "rtq_throttled (rt_rqs rr_sample []) = 0" "sysctl_rt_runtime rr_sample = - 1"
    using f1(2,3) f2(2,3) s0(2) p1
    by (simp_all add: rr_sample0_def rt_sample_def sample_sys_def sample_rt_rq_def)
  then have "rt_rr sample_env rr_universe 50 rr_sample [5, 8]"
    using q2(1,2) by (auto simp: rt_rr_def rt_flat_def rt_bandwidth_enabled_def)
  moreover have "rr_ready sample_env rr_universe 50 rr_sample p \<and> rr_left rr_sample p = 10"
    if p: "p \<in> {5, 8}" for p
    using s0 [OF p] core1 core2 f1(1) f2(1) s0(2) [of 5] p1 slice rt_task_ok_only [OF q1(3)] rt_task_ok_only [OF q2(3)]
    by (simp add: rr_ready_def rr_left_def)
  ultimately show ?thesis using slice by blast
qed

theorem rt_round_robin_witness:
  "\<exists>s'. run_ticks (pick_next_task_rt sample_env) (rt_turn sample_env) 40 rr_sample =
      Some (s', replicate 10 5 @ replicate 10 8 @ replicate 10 5 @ replicate 10 8) \<and>
    rr_queue sample_env rr_universe 50 s' [5, 8]"
proof -
  have u: "unat (RR_TIMESLICE sample_env) = 10" using rr_sample_queue by simp
  have "\<forall>p\<in>set [5, 8]. rr_ready sample_env rr_universe 50 rr_sample p \<and>
      rr_left rr_sample p = unat (RR_TIMESLICE sample_env)"
    using rr_sample_queue unfolding u by simp
  moreover have "rr_queue sample_env rr_universe 50 rr_sample [5, 8]" "\<not> rt_bandwidth_enabled rr_sample"
    using rr_sample_queue by (simp_all add: rt_rr_queue)
  ultimately show ?thesis
    using rt_round_robin [of rr_universe rr_sample sample_env 50 "[5, 8]" "Suc (Suc 0)"] unfolding u by auto
qed

end
