(* ===== verification/Ptree.thy ===== *)
theory Ptree
  imports Klist
begin

text \<open>
  The \<open>ptree\<close> system call of \<open>Prj1\<close>: a kernel module that walks the process tree depth first
  and copies a record for every task to the caller. The tree is kept in intrusive lists: the
  head \<open>Children t\<close> of task \<open>t\<close> and the entry \<open>Sibling t\<close> of \<open>t\<close> in its parent's list. Besides
  the operations of \<open>Klist\<close> the walk uses \<open>list_for_each\<close> of \<open>linux/list.h\<close>, a parameter
  \<open>each\<close> that gives the entries it visits.

  \<open>problem2\<close> and \<open>problem3\<close> have the same module; the module of \<open>problem1\<close> lacks the depth of a
  task and is the definitions that end in \<open>1\<close>.
\<close>

section \<open>Tasks\<close>

type_synonym ptask_ptr = nat

datatype pt_node = Children ptask_ptr | Sibling ptask_ptr

record ptask =
  pt_parent :: "ptask_ptr option"
  pt_pid :: int
  pt_state :: int
  pt_uid :: int \<comment> \<open>task->cred->uid\<close>
  pt_comm :: string

record ptasks =
  pt_task :: "ptask_ptr \<Rightarrow> ptask"
  pt_links :: "pt_node links"

record prinfo =
  parent_pid :: int
  pid :: int
  first_child_pid :: int
  next_sibling_pid :: int
  state :: int
  uid :: int
  comm :: string
  depth :: int

definition zero_prinfo :: prinfo where
  "zero_prinfo = \<lparr>parent_pid = 0, pid = 0, first_child_pid = 0, next_sibling_pid = 0, state = 0,
     uid = 0, comm = [], depth = 0\<rparr>"

text \<open>
  \<open>list_entry\<close>: the task that contains the node, when the node is the member the macro is told;
  any other address gives no task. The address of the field \<open>next\<close> of a node is the address of
  the node.
\<close>

definition list_entry_children :: "pt_node \<Rightarrow> ptask_ptr option" where
  "list_entry_children n = (case n of Children t \<Rightarrow> Some t | Sibling _ \<Rightarrow> None)"

definition list_entry_sibling :: "pt_node \<Rightarrow> ptask_ptr option" where
  "list_entry_sibling n = (case n of Sibling t \<Rightarrow> Some t | Children _ \<Rightarrow> None)"

definition address_of_next :: "pt_node \<Rightarrow> pt_node" where
  "address_of_next n = n"

datatype pt_error = Out_Of_Fuel | Out_Of_Bounds | Bad_Entry

section \<open>The walk\<close>

definition pid_of :: "ptasks \<Rightarrow> ptask_ptr option \<Rightarrow> int" where
  "pid_of s t = (case t of None \<Rightarrow> 0 | Some t \<Rightarrow> pt_pid (pt_task s t))"

text \<open>The name of a task fits the 64 bytes of \<open>comm\<close>; \<open>depth\<close> is set before the call.\<close>

definition get_prinfo :: "pt_node klist_ops \<Rightarrow> ptasks \<Rightarrow> ptask_ptr \<Rightarrow> prinfo \<Rightarrow> int \<Rightarrow> prinfo \<times> int" where
  "get_prinfo L s task prinfo nr =
     (let prinfo = prinfo\<lparr>parent_pid := pid_of s (pt_parent (pt_task s task))\<rparr>;
          prinfo = prinfo\<lparr>pid := pt_pid (pt_task s task)\<rparr>;
          prinfo = (if kl_list_empty L (Children task) (pt_links s)
                    then prinfo\<lparr>first_child_pid := 0\<rparr>
                    else prinfo\<lparr>first_child_pid := pid_of s (list_entry_children (Children task))\<rparr>);
          prinfo = (if kl_list_empty L (Sibling task) (pt_links s)
                    then prinfo\<lparr>next_sibling_pid := 0\<rparr>
                    else prinfo\<lparr>next_sibling_pid :=
                      pid_of s (list_entry_sibling (address_of_next (Sibling task)))\<rparr>);
          prinfo = prinfo\<lparr>state := pt_state (pt_task s task)\<rparr>;
          prinfo = prinfo\<lparr>uid := pt_uid (pt_task s task)\<rparr>;
          prinfo = prinfo\<lparr>comm := pt_comm (pt_task s task)\<rparr>
      in (prinfo, nr + 1))"

text \<open>A loop over a list whose body may fail.\<close>

primrec for_each :: "('a \<Rightarrow> 'b \<Rightarrow> 'e + 'b) \<Rightarrow> 'a list \<Rightarrow> 'b \<Rightarrow> 'e + 'b" where
  "for_each f [] b = Inr b"
| "for_each f (x # xs) b = (case f x b of Inl e \<Rightarrow> Inl e | Inr b \<Rightarrow> for_each f xs b)"

text \<open>
  \<open>dfs_ptree\<close> on the buffer and the counter. The first argument bounds the depth of the recursion;
  a write past the end of the buffer is \<open>Out_Of_Bounds\<close>.
\<close>

primrec dfs_ptree ::
  "nat \<Rightarrow> pt_node klist_ops \<Rightarrow> (pt_node \<Rightarrow> pt_node links \<Rightarrow> pt_node list) \<Rightarrow> ptasks \<Rightarrow> ptask_ptr \<Rightarrow>
   int \<Rightarrow> prinfo list \<times> int \<Rightarrow> pt_error + prinfo list \<times> int"
where
  "dfs_ptree 0 L each s root d b = Inl Out_Of_Fuel"
| "dfs_ptree (Suc n) L each s root d b =
     (let (buf, nr) = b in
      if nr < 0 \<or> int (length buf) \<le> nr then Inl Out_Of_Bounds
      else
        let cur = (buf ! nat nr)\<lparr>depth := d\<rparr>;
            (cur, nr') = get_prinfo L s root cur nr;
            buf = buf[nat nr := cur]
        in for_each (\<lambda>pos b. case list_entry_sibling pos of
               None \<Rightarrow> Inl Bad_Entry
             | Some child \<Rightarrow> dfs_ptree n L each s child (d + 1) b)
             (each (Children root) (pt_links s)) (buf, nr'))"

primrec dfs_ptree1 ::
  "nat \<Rightarrow> pt_node klist_ops \<Rightarrow> (pt_node \<Rightarrow> pt_node links \<Rightarrow> pt_node list) \<Rightarrow> ptasks \<Rightarrow> ptask_ptr \<Rightarrow>
   prinfo list \<times> int \<Rightarrow> pt_error + prinfo list \<times> int"
where
  "dfs_ptree1 0 L each s root b = Inl Out_Of_Fuel"
| "dfs_ptree1 (Suc n) L each s root b =
     (let (buf, nr) = b in
      if nr < 0 \<or> int (length buf) \<le> nr then Inl Out_Of_Bounds
      else
        let (cur, nr') = get_prinfo L s root (buf ! nat nr) nr;
            buf = buf[nat nr := cur]
        in for_each (\<lambda>pos b. case list_entry_sibling pos of
               None \<Rightarrow> Inl Bad_Entry
             | Some child \<Rightarrow> dfs_ptree1 n L each s child b)
             (each (Children root) (pt_links s)) (buf, nr'))"

section \<open>The system call\<close>

text \<open>
  What the call leaves behind: its return value, what it copied to the two user pointers, and the
  allocations it did not free. The two allocations and the two copies may fail; the second copy is
  only tried when the first succeeds. \<open>live\<close> lists the allocations that are not freed:
  \<open>k_alloc\<close> is \<open>kcalloc\<close> and \<open>kzalloc\<close>, which may fail, and \<open>k_free\<close> is \<open>kfree\<close>.
\<close>

datatype kalloc = Ker_Buf | Ker_Nr

definition k_alloc :: "kalloc \<Rightarrow> bool \<Rightarrow> kalloc list \<Rightarrow> kalloc list" where
  "k_alloc x ok live = (if ok then x # live else live)"

definition k_free :: "kalloc \<Rightarrow> kalloc list \<Rightarrow> kalloc list" where
  "k_free x live = remove1 x live"

record pt_result =
  retval :: int
  user_buf :: "prinfo list option"
  user_nr :: "int option"
  live :: "kalloc list"

definition ptree ::
  "nat \<Rightarrow> pt_node klist_ops \<Rightarrow> (pt_node \<Rightarrow> pt_node links \<Rightarrow> pt_node list) \<Rightarrow> ptasks \<Rightarrow> ptask_ptr \<Rightarrow>
   bool \<Rightarrow> bool \<Rightarrow> bool \<Rightarrow> bool \<Rightarrow> pt_error + pt_result"
where
  "ptree n L each s init_task ker_buf ker_nr copy_buf copy_nr =
     (let live = k_alloc Ker_Buf ker_buf [];
          live = k_alloc Ker_Nr ker_nr live
      in if \<not> ker_buf \<or> \<not> ker_nr
      then Inr \<lparr>retval = 1, user_buf = None, user_nr = None, live = live\<rparr>
      else (case dfs_ptree n L each s init_task 0 (replicate 1024 zero_prinfo, 0) of
              Inl e \<Rightarrow> Inl e
            | Inr (buf, nr) \<Rightarrow>
                let to_buf = (if copy_buf then Some (take (nat nr) buf) else None);
                    to_nr = (if copy_buf \<and> copy_nr then Some nr else None)
                in if \<not> copy_buf \<or> \<not> copy_nr then
                     let live = k_free Ker_Buf live;
                         live = k_free Ker_Nr live
                     in Inr \<lparr>retval = 1, user_buf = to_buf, user_nr = to_nr, live = live\<rparr>
                   else
                     let live = k_free Ker_Buf live;
                         live = k_free Ker_Nr live
                     in Inr \<lparr>retval = 0, user_buf = to_buf, user_nr = to_nr, live = live\<rparr>))"

definition ptree1 ::
  "nat \<Rightarrow> pt_node klist_ops \<Rightarrow> (pt_node \<Rightarrow> pt_node links \<Rightarrow> pt_node list) \<Rightarrow> ptasks \<Rightarrow> ptask_ptr \<Rightarrow>
   bool \<Rightarrow> bool \<Rightarrow> bool \<Rightarrow> bool \<Rightarrow> pt_error + pt_result"
where
  "ptree1 n L each s init_task ker_buf ker_nr copy_buf copy_nr =
     (let live = k_alloc Ker_Buf ker_buf [];
          live = k_alloc Ker_Nr ker_nr live
      in if \<not> ker_buf \<or> \<not> ker_nr
      then Inr \<lparr>retval = 1, user_buf = None, user_nr = None, live = live\<rparr>
      else (case dfs_ptree1 n L each s init_task (replicate 1024 zero_prinfo, 0) of
              Inl e \<Rightarrow> Inl e
            | Inr (buf, nr) \<Rightarrow>
                let to_buf = (if copy_buf then Some (take (nat nr) buf) else None);
                    to_nr = (if copy_buf \<and> copy_nr then Some nr else None)
                in if \<not> copy_buf \<or> \<not> copy_nr then
                     let live = k_free Ker_Buf live;
                         live = k_free Ker_Nr live
                     in Inr \<lparr>retval = 1, user_buf = to_buf, user_nr = to_nr, live = live\<rparr>
                   else
                     let live = k_free Ker_Buf live;
                         live = k_free Ker_Nr live
                     in Inr \<lparr>retval = 0, user_buf = to_buf, user_nr = to_nr, live = live\<rparr>))"

definition sys_prteecall where
  "sys_prteecall n L each s init_task ker_buf ker_nr copy_buf copy_nr =
     ptree n L each s init_task ker_buf ker_nr copy_buf copy_nr"

text \<open>Loading and unloading the module on the table of system calls.\<close>

definition hellocall :: nat where "hellocall = 356"

definition addsyscall_init :: "ulong \<Rightarrow> (nat \<Rightarrow> ulong) \<Rightarrow> ulong \<times> (nat \<Rightarrow> ulong)" where
  "addsyscall_init sys_call syscall = (let oldcall = syscall hellocall in
     (oldcall, syscall(hellocall := sys_call)))"

definition addsyscall_exit :: "ulong \<Rightarrow> (nat \<Rightarrow> ulong) \<Rightarrow> (nat \<Rightarrow> ulong)" where
  "addsyscall_exit oldcall syscall = syscall(hellocall := oldcall)"

section \<open>Process trees\<close>

datatype 'a proc_tree = Node (label: 'a) (kids: "'a proc_tree list")

primrec tasks_of :: "'a proc_tree \<Rightarrow> nat" where
  "tasks_of (Node t cs) = Suc (sum_list (map tasks_of cs))"

primrec height :: "'a proc_tree \<Rightarrow> nat" where
  "height (Node t cs) = Suc (Max (insert 0 (set (map height cs))))"

text \<open>The tasks of a tree in the order of the walk, with their depths.\<close>

primrec preorder :: "int \<Rightarrow> 'a proc_tree \<Rightarrow> ('a \<times> int) list" where
  "preorder d (Node t cs) = (t, d) # concat (map (preorder (d + 1)) cs)"

text \<open>The lists of the kernel hold the tree: the children of every task are linked in order.\<close>

fun holds :: "ptasks \<Rightarrow> ptask_ptr proc_tree \<Rightarrow> bool" where
  "holds s (Node t cs) \<longleftrightarrow> is_list (pt_links s) (Children t) (map (Sibling \<circ> label) cs) \<and>
     (\<forall>c\<in>set cs. pt_parent (pt_task s (label c)) = Some t \<and> holds s c)"

text \<open>\<open>list_for_each\<close> visits the entries in order.\<close>

definition each_ok :: "(pt_node \<Rightarrow> pt_node links \<Rightarrow> pt_node list) \<Rightarrow> bool" where
  "each_ok each \<longleftrightarrow> (\<forall>h hd xs. is_list h hd xs \<longrightarrow> each hd h = xs)"

section \<open>The walk fills the buffer in order\<close>

text \<open>The record of a task, as the code computes it.\<close>

definition entry_of :: "pt_node klist_ops \<Rightarrow> ptasks \<Rightarrow> ptask_ptr \<times> int \<Rightarrow> prinfo" where
  "entry_of L s td = (case td of (t, d) \<Rightarrow>
     \<lparr>parent_pid = pid_of s (pt_parent (pt_task s t)), pid = pt_pid (pt_task s t),
      first_child_pid = (if kl_list_empty L (Children t) (pt_links s) then 0 else pt_pid (pt_task s t)),
      next_sibling_pid = (if kl_list_empty L (Sibling t) (pt_links s) then 0 else pt_pid (pt_task s t)),
      state = pt_state (pt_task s t), uid = pt_uid (pt_task s t), comm = pt_comm (pt_task s t),
      depth = d\<rparr>)"

lemma get_prinfo_eq: "get_prinfo L s t (p\<lparr>depth := d\<rparr>) nr = (entry_of L s (t, d), nr + 1)"
  by (simp add: get_prinfo_def entry_of_def Let_def list_entry_children_def list_entry_sibling_def
    address_of_next_def pid_of_def)

text \<open>The buffer with the entries \<open>es\<close> written from index \<open>n\<close> on.\<close>

definition written :: "nat \<Rightarrow> 'a list \<Rightarrow> 'a list \<Rightarrow> 'a list" where
  "written n es buf = take n buf @ es @ drop (n + length es) buf"

lemma length_written [simp]: "n + length es \<le> length buf \<Longrightarrow> length (written n es buf) = length buf"
  by (simp add: written_def)

lemma written_Nil [simp]: "written n [] buf = buf"
  by (simp add: written_def)

lemma written_one: "n < length buf \<Longrightarrow> buf[n := e] = written n [e] buf"
  by (simp add: written_def upd_conv_take_nth_drop)

lemma written_append:
  "n + length es + length fs \<le> length buf \<Longrightarrow>
   written (n + length es) fs (written n es buf) = written n (es @ fs) buf"
  by (simp add: written_def add_ac)

lemma length_preorder: "length (preorder d tr) = tasks_of tr"
proof (induction tr arbitrary: d)
  case (Node t cs)
  then have eq: "map (length \<circ> preorder (d + 1)) cs = map tasks_of cs" by simp
  show ?case by (simp add: length_concat eq)
qed

lemma length_forest: "length (concat (map (preorder d) ds)) = sum_list (map tasks_of ds)"
  by (induction ds) (simp_all add: length_preorder)

lemma tasks_of_pos: "0 < tasks_of tr"
  by (cases tr) simp

lemma dfs_ptree_tree:
  assumes each: "each_ok each"
  shows "holds s tr \<Longrightarrow> height tr \<le> n \<Longrightarrow>
   dfs_ptree n L each s (label tr) d (buf, int k) =
     (if k + tasks_of tr \<le> length buf
      then Inr (written k (map (entry_of L s) (preorder d tr)) buf, int (k + tasks_of tr))
      else Inl Out_Of_Bounds)"
proof (induction n arbitrary: tr d buf k)
  case 0
  then show ?case by (cases tr) simp
next
  case (Suc n)
  obtain t cs where tr: "tr = Node t cs" by (cases tr)
  have kids: "each (Children t) (pt_links s) = map (Sibling \<circ> label) cs"
    using Suc.prems(1) each by (simp add: tr each_ok_def)
  have sub: "holds s c \<and> height c \<le> n" if "c \<in> set cs" for c
    using that Suc.prems by (auto simp: tr)
  let ?body = "\<lambda>pos b. case list_entry_sibling pos of None \<Rightarrow> Inl Bad_Entry
    | Some child \<Rightarrow> dfs_ptree n L each s child (d + 1) b"
  have loop: "for_each ?body (map (Sibling \<circ> label) ds) (buf, int k) =
      (if k + sum_list (map tasks_of ds) \<le> length buf
       then Inr (written k (map (entry_of L s) (concat (map (preorder (d + 1)) ds))) buf,
         int (k + sum_list (map tasks_of ds)))
       else Inl Out_Of_Bounds)" if "set ds \<subseteq> set cs" "k \<le> length buf" for ds buf k
    using that
  proof (induction ds arbitrary: buf k)
    case (Cons c ds)
    let ?es = "map (entry_of L s) (preorder (d + 1) c)"
    have c: "?body (Sibling (label c)) (buf, int k) =
        (if k + tasks_of c \<le> length buf then Inr (written k ?es buf, int (k + tasks_of c))
         else Inl Out_Of_Bounds)"
      using Suc.IH [of c "d + 1" buf k] sub [of c] Cons.prems by (simp add: list_entry_sibling_def)
    show ?case
    proof (cases "k + tasks_of c \<le> length buf")
      case True
      let ?fs = "map (entry_of L s) (concat (map (preorder (d + 1)) ds))"
      have l: "length ?es = tasks_of c" "length ?fs = sum_list (map tasks_of ds)"
        by (simp_all add: length_preorder length_forest)
      have len: "length (written k ?es buf) = length buf" using True l(1) by simp
      have ih: "for_each ?body (map (Sibling \<circ> label) ds) (written k ?es buf, int (k + tasks_of c)) =
          (if k + tasks_of c + sum_list (map tasks_of ds) \<le> length buf
           then Inr (written (k + tasks_of c) ?fs (written k ?es buf),
             int (k + tasks_of c + sum_list (map tasks_of ds)))
           else Inl Out_Of_Bounds)"
        unfolding len [symmetric] by (rule Cons.IH) (use Cons.prems True len in simp_all)
      have app: "written (k + tasks_of c) ?fs (written k ?es buf) = written k (?es @ ?fs) buf"
        if "k + tasks_of c + sum_list (map tasks_of ds) \<le> length buf"
        using written_append [of k ?es ?fs buf] l that by simp
      have "for_each ?body (map (Sibling \<circ> label) (c # ds)) (buf, int k) =
          for_each ?body (map (Sibling \<circ> label) ds) (written k ?es buf, int (k + tasks_of c))"
        using c True by simp
      also have "\<dots> = (if k + sum_list (map tasks_of (c # ds)) \<le> length buf
          then Inr (written k (map (entry_of L s) (concat (map (preorder (d + 1)) (c # ds)))) buf,
            int (k + sum_list (map tasks_of (c # ds)))) else Inl Out_Of_Bounds)"
        unfolding ih using app by (simp add: add.assoc)
      finally show ?thesis .
    next
      case False
      then show ?thesis using c by simp
    qed
  qed simp
  let ?e = "entry_of L s (t, d)"
  have step: "dfs_ptree (Suc n) L each s (label tr) d (buf, int k) =
      (if length buf \<le> k then Inl Out_Of_Bounds
       else for_each ?body (map (Sibling \<circ> label) cs) (written k [?e] buf, int (k + 1)))"
    by (simp add: tr get_prinfo_eq kids written_one add.commute)
  show ?case
  proof (cases "length buf \<le> k")
    case True
    then show ?thesis using step tasks_of_pos [of tr] by simp
  next
    case False
    have len: "length (written k [?e] buf) = length buf" using False by simp
    have "written (k + 1) es (written k [?e] buf) = written k (?e # es) buf"
      if "k + 1 + length es \<le> length buf" for es
      using written_append [of k "[?e]" es buf] that by simp
    moreover have "length (map (entry_of L s) (concat (map (preorder (d + 1)) cs))) = sum_list (map tasks_of cs)"
      by (simp add: length_forest)
    ultimately show ?thesis
      unfolding step using False loop [of cs "k + 1" "written k [?e] buf"] len by (simp add: tr)
  qed
qed

section \<open>The buffer determines the tree\<close>

primrec relabel :: "('a \<Rightarrow> 'b) \<Rightarrow> 'a proc_tree \<Rightarrow> 'b proc_tree" where
  "relabel f (Node t cs) = Node (f t) (map (relabel f) cs)"

lemma preorder_relabel: "preorder d (relabel f tr) = map (\<lambda>(t, d). (f t, d)) (preorder d tr)"
proof (induction tr arbitrary: d)
  case (Node t cs)
  then have eq: "map (\<lambda>c. preorder (d + 1) (relabel f c)) cs =
      map (\<lambda>c. map (\<lambda>(t, d). (f t, d)) (preorder (d + 1) c)) cs" by simp
  show ?case by (simp add: map_concat o_def eq)
qed

text \<open>The rest of the list, after a forest at depth \<open>d\<close>, starts above that depth.\<close>

definition above :: "int \<Rightarrow> ('a \<times> int) list \<Rightarrow> bool" where
  "above d us \<longleftrightarrow> us = [] \<or> snd (hd us) < d"

lemma preorder_head: "\<exists>us. preorder d tr = (label tr, d) # us"
  by (cases tr) simp

lemma above_forest: "above (d + 1) us \<Longrightarrow> above (d + 1) (concat (map (preorder d) cs) @ us)"
proof (cases cs)
  case (Cons c cs)
  obtain vs where "preorder d c = (label c, d) # vs" using preorder_head by blast
  then show ?thesis using Cons by (simp add: above_def)
qed simp

lemma forest_injective:
  "concat (map (preorder d) cs) @ us = concat (map (preorder d) cs') @ us' \<Longrightarrow> above d us \<Longrightarrow>
   above d us' \<Longrightarrow> cs = cs' \<and> us = us'"
proof (induction "sum_list (map tasks_of cs)" arbitrary: d cs cs' us us' rule: less_induct)
  case less
  show ?case
  proof (cases cs)
    case Nil
    have "cs' = []"
    proof (cases cs')
      case (Cons c' ds')
      obtain vs where "preorder d c' = (label c', d) # vs" using preorder_head by blast
      then show ?thesis using less.prems Nil Cons by (auto simp: above_def)
    qed
    then show ?thesis using less.prems Nil by simp
  next
    case (Cons c ds)
    obtain t ks where c: "c = Node t ks" by (cases c)
    obtain c' ds' where cs': "cs' = c' # ds'"
    proof (cases cs')
      case Nil
      then have "us' = (t, d) # concat (map (preorder (d + 1)) ks) @ concat (map (preorder d) ds) @ us"
        using less.prems(1) Cons c by simp
      then show thesis using less.prems(3) by (simp add: above_def)
    qed (rule that)
    obtain t' ks' where c': "c' = Node t' ks'" by (cases c')
    have eq: "t = t'" "concat (map (preorder (d + 1)) ks) @ (concat (map (preorder d) ds) @ us) =
        concat (map (preorder (d + 1)) ks') @ (concat (map (preorder d) ds') @ us')"
      using less.prems(1) Cons c cs' c' by simp_all
    have ab: "above (d + 1) us" "above (d + 1) us'"
      using less.prems(2,3) by (auto simp: above_def)
    have "sum_list (map tasks_of ks) < sum_list (map tasks_of cs)" by (simp add: Cons c)
    from less.hyps [OF this eq(2) above_forest above_forest] ab
    have ks: "ks = ks'" "concat (map (preorder d) ds) @ us = concat (map (preorder d) ds') @ us'" by auto
    have "sum_list (map tasks_of ds) < sum_list (map tasks_of cs)" by (simp add: Cons c)
    from less.hyps [OF this ks(2) less.prems(2,3)] show ?thesis using Cons c cs' c' eq ks by simp
  qed
qed

lemma preorder_injective: "preorder d tr = preorder d tr' \<Longrightarrow> tr = tr'"
  using forest_injective [of d "[tr]" "[]" "[tr']" "[]"] by (simp add: above_def)

section \<open>Properties\<close>

text \<open>
  C33: The walk. For a process tree that the kernel's lists hold, the call succeeds if the
  allocations and copies do and the tree has at most 1024 tasks; it reports the number of tasks
  and their records in depth-first order, each with its depth and its parent's pid. The field
  for the first child is the task's own pid when it has children and the field for the next
  sibling is the task's own pid when it is on a list, for \<open>list_entry\<close> is applied to the head and
  to the entry themselves.
\<close>

theorem ptree_reports_tree:
  assumes "holds s tr" and "each_ok each" and "height tr \<le> n" and "tasks_of tr \<le> 1024"
  shows "ptree n L each s (label tr) True True True True =
    Inr \<lparr>retval = 0, user_buf = Some (map (\<lambda>(t, d).
        \<lparr>parent_pid = pid_of s (pt_parent (pt_task s t)), pid = pt_pid (pt_task s t),
         first_child_pid = (if kl_list_empty L (Children t) (pt_links s) then 0 else pt_pid (pt_task s t)),
         next_sibling_pid = (if kl_list_empty L (Sibling t) (pt_links s) then 0 else pt_pid (pt_task s t)),
         state = pt_state (pt_task s t), uid = pt_uid (pt_task s t), comm = pt_comm (pt_task s t),
         depth = d\<rparr>) (preorder 0 tr)),
      user_nr = Some (int (tasks_of tr)), live = []\<rparr>"
proof -
  have e: "(\<lambda>(t, d).
        \<lparr>parent_pid = pid_of s (pt_parent (pt_task s t)), pid = pt_pid (pt_task s t),
         first_child_pid = (if kl_list_empty L (Children t) (pt_links s) then 0 else pt_pid (pt_task s t)),
         next_sibling_pid = (if kl_list_empty L (Sibling t) (pt_links s) then 0 else pt_pid (pt_task s t)),
         state = pt_state (pt_task s t), uid = pt_uid (pt_task s t), comm = pt_comm (pt_task s t),
         depth = d\<rparr>) = entry_of L s"
    by (rule ext) (simp add: entry_of_def)
  have "length (map (entry_of L s) (preorder 0 tr)) = tasks_of tr" by (simp add: length_preorder)
  then show ?thesis
    unfolding e
    using dfs_ptree_tree [OF assms(2,1,3), of L 0 "replicate 1024 zero_prinfo" 0] assms(4)
    by (simp add: ptree_def written_def k_alloc_def k_free_def)
qed

text \<open>
  C39: A process tree with more than 1024 tasks makes the walk write past the end of the buffer:
  nothing checks the counter against the size that was allocated.
\<close>

theorem ptree_overruns_buffer:
  assumes "holds s tr" and "each_ok each" and "height tr \<le> n" and "1024 < tasks_of tr"
  shows "ptree n L each s (label tr) True True copy_buf copy_nr = Inl Out_Of_Bounds"
  using dfs_ptree_tree [OF assms(2,1,3), of L 0 "replicate 1024 zero_prinfo" 0] assms(4)
  by (simp add: ptree_def)

text \<open>
  C37: The reported records determine the tree: two systems that the call reports the same for
  have the same tree of pids, although the fields for children and siblings are of no use.
\<close>

theorem ptree_determines_tree:
  assumes "holds s tr" "holds s' tr'" and "each_ok each" and "height tr \<le> n" "height tr' \<le> n"
    and "tasks_of tr \<le> 1024" "tasks_of tr' \<le> 1024"
    and "ptree n L each s (label tr) True True True True = ptree n L each s' (label tr') True True True True"
  shows "relabel (\<lambda>t. pt_pid (pt_task s t)) tr = relabel (\<lambda>t. pt_pid (pt_task s' t)) tr'"
proof -
  have "map (entry_of L s) (preorder 0 tr) = map (entry_of L s') (preorder 0 tr')"
    using assms(8) dfs_ptree_tree [OF assms(3,1,4), of L 0 "replicate 1024 zero_prinfo" 0]
      dfs_ptree_tree [OF assms(3,2,5), of L 0 "replicate 1024 zero_prinfo" 0] assms(6,7)
    by (simp add: ptree_def written_def length_preorder)
  then have "map (\<lambda>e. (pid e, depth e)) (map (entry_of L s) (preorder 0 tr)) =
      map (\<lambda>e. (pid e, depth e)) (map (entry_of L s') (preorder 0 tr'))" by (rule arg_cong)
  then have "preorder 0 (relabel (\<lambda>t. pt_pid (pt_task s t)) tr) =
      preorder 0 (relabel (\<lambda>t. pt_pid (pt_task s' t)) tr')"
    by (simp add: preorder_relabel entry_of_def split_def o_def)
  then show ?thesis by (rule preorder_injective)
qed

text \<open>
  Failures. For a process tree the kernel's lists hold that fits the buffer the call returns, 0 exactly
  when both allocations and both copies succeeded, and 1 otherwise; on a failure it does not report
  the number of tasks, and what it wrote to the buffer is the complete list of records or
  nothing. It has freed what it allocated, unless exactly one of the allocations failed: then the
  other one is lost.
\<close>

lemma ptree_errors:
  assumes "holds s tr" and "each_ok each" and "height tr \<le> n" and "tasks_of tr \<le> 1024"
  shows "\<exists>r. ptree n L each s (label tr) ker_buf ker_nr copy_buf copy_nr = Inr r \<and>
    retval r = (if ker_buf \<and> ker_nr \<and> copy_buf \<and> copy_nr then 0 else 1) \<and>
    user_nr r = (if retval r = 0 then Some (int (tasks_of tr)) else None) \<and>
    user_buf r = (if ker_buf \<and> ker_nr \<and> copy_buf then Some (map (entry_of L s) (preorder 0 tr)) else None) \<and>
    live r = (if ker_buf \<noteq> ker_nr then [if ker_buf then Ker_Buf else Ker_Nr] else [])"
  using dfs_ptree_tree [OF assms(2,1,3), of L 0 "replicate 1024 zero_prinfo" 0] assms(4)
  by (simp add: ptree_def written_def k_alloc_def k_free_def length_preorder Let_def)

text \<open>
  Unloading the module puts back the system call it replaced when it was loaded, and in between
  only that entry of the table differs.
\<close>

lemma module_unload_restores:
  "(case addsyscall_init f tbl of (old, tbl') \<Rightarrow> tbl' hellocall = f \<and>
     (\<forall>k. k \<noteq> 356 \<longrightarrow> tbl' k = tbl k) \<and> addsyscall_exit old tbl' = tbl)"
  by (simp add: addsyscall_init_def addsyscall_exit_def hellocall_def Let_def)

section \<open>The module of problem 1\<close>

text \<open>A record without its depth, which the module of problem 1 leaves 0.\<close>

definition erase :: "prinfo \<Rightarrow> prinfo" where
  "erase p = p\<lparr>depth := 0\<rparr>"

definition erase_buf :: "prinfo list \<times> int \<Rightarrow> prinfo list \<times> int" where
  "erase_buf b = (map erase (fst b), snd b)"

lemma get_prinfo_erase:
  "get_prinfo L s t (erase p) nr = (erase (fst (get_prinfo L s t (p\<lparr>depth := d\<rparr>) nr)), nr + 1)"
  by (simp add: get_prinfo_def Let_def erase_def)

lemma for_each_erase:
  assumes "\<And>x b. g x (erase_buf b) = map_sum id erase_buf (f x b)"
  shows "for_each g xs (erase_buf b) = map_sum id erase_buf (for_each f xs b)"
proof (induction xs arbitrary: b)
  case (Cons x xs)
  then show ?case using assms [of x b] by (cases "f x b") simp_all
qed simp

lemma dfs_ptree1_erases:
  "dfs_ptree1 n L each s t (erase_buf b) = map_sum id erase_buf (dfs_ptree n L each s t d b)"
proof (induction n arbitrary: t b d)
  case (Suc n)
  obtain buf nr where b: "b = (buf, nr)" by (cases b)
  show ?case
  proof (cases "nr < 0 \<or> int (length buf) \<le> nr")
    case True
    then show ?thesis by (simp add: b erase_buf_def)
  next
    case False
    let ?g = "\<lambda>pos b. case list_entry_sibling pos of None \<Rightarrow> Inl Bad_Entry
      | Some child \<Rightarrow> dfs_ptree1 n L each s child b"
    let ?f = "\<lambda>pos b. case list_entry_sibling pos of None \<Rightarrow> Inl Bad_Entry
      | Some child \<Rightarrow> dfs_ptree n L each s child (d + 1) b"
    let ?p = "get_prinfo L s t ((buf ! nat nr)\<lparr>depth := d\<rparr>) nr"
    have "(map erase buf)[nat nr := erase (fst ?p)] = map erase (buf[nat nr := fst ?p])"
      by (simp add: map_update)
    then have "dfs_ptree1 (Suc n) L each s t (erase_buf b) =
        for_each ?g (each (Children t) (pt_links s)) (erase_buf (buf[nat nr := fst ?p], nr + 1))"
      using False get_prinfo_erase [of L s t "buf ! nat nr" nr d]
      by (auto simp: b erase_buf_def)
    also have "\<dots> = map_sum id erase_buf
        (for_each ?f (each (Children t) (pt_links s)) (buf[nat nr := fst ?p], nr + 1))"
      by (rule for_each_erase) (simp add: Suc.IH [of _ _ "d + 1"] id_def split: option.split)
    also have "\<dots> = map_sum id erase_buf (dfs_ptree (Suc n) L each s t d b)"
      using False by (auto simp: b get_prinfo_def Let_def)
    finally show ?thesis .
  qed
qed simp

text \<open>
  The module of problem 1 is the module of problem 2 without the depths: whatever the process
  tree, the fuel and the failures, it returns the same and copies the same records with depth 0.
\<close>

lemma ptree1_equivalent:
  "ptree1 n L each s i ker_buf ker_nr copy_buf copy_nr =
   map_sum id (user_buf_update (map_option (map (\<lambda>p. p\<lparr>depth := 0\<rparr>))))
     (ptree n L each s i ker_buf ker_nr copy_buf copy_nr)"
proof -
  have z: "erase_buf (replicate 1024 zero_prinfo, 0) = (replicate 1024 zero_prinfo, 0)"
    by (simp add: erase_buf_def erase_def zero_prinfo_def)
  note d = dfs_ptree1_erases [of n L each s i "(replicate 1024 zero_prinfo, 0)" 0, unfolded z]
  have e: "(\<lambda>p. p\<lparr>depth := 0\<rparr>) = erase" by (rule ext) (simp add: erase_def)
  show ?thesis
    unfolding e
    by (cases "dfs_ptree n L each s i 0 (replicate 1024 zero_prinfo, 0)")
      (auto simp: ptree_def ptree1_def Let_def d erase_buf_def take_map k_alloc_def k_free_def)
qed

section \<open>A process tree\<close>

text \<open>An implementation of \<open>list_for_each\<close>: follow \<open>next\<close> until the head comes round again.\<close>

partial_function (option) walk :: "'n \<Rightarrow> 'n links \<Rightarrow> 'n \<Rightarrow> 'n list option" where
  "walk hq h n = (if n = hq then Some []
     else Option.bind (walk hq h (lh_next (h n))) (\<lambda>xs. Some (n # xs)))"

definition ref_each :: "'n \<Rightarrow> 'n links \<Rightarrow> 'n list" where
  "ref_each hq h = (case walk hq h (lh_next (h hq)) of None \<Rightarrow> [] | Some xs \<Rightarrow> xs)"

lemma walk_seg: "seg h a xs hq \<Longrightarrow> hq \<notin> set xs \<Longrightarrow> walk hq h (lh_next (h a)) = Some xs"
proof (induction xs arbitrary: a)
  case Nil
  then show ?case by (subst walk.simps) simp
next
  case (Cons x xs)
  then have "walk hq h (lh_next (h x)) = Some xs" by simp
  with Cons.prems show ?case by (subst walk.simps) auto
qed

lemma ref_each_ok: "each_ok ref_each"
  by (auto simp: each_ok_def ref_each_def is_list_def walk_seg)

text \<open>Task 0 with the children 1 and 2, where 1 has the child 3; the pids are the names.\<close>

definition family :: "nat proc_tree" where
  "family = Node 0 [Node 1 [Node 3 []], Node 2 []]"

definition family_tasks :: ptasks where
  "family_tasks = \<lparr>
     pt_task = (\<lambda>t. \<lparr>pt_parent = (if t = 0 then Some 0 else if t = 3 then Some 1 else Some 0),
       pt_pid = int t, pt_state = 1, pt_uid = 0, pt_comm = ''sh''\<rparr>),
     pt_links = (\<lambda>n. \<lparr>lh_next = n, lh_prev = n\<rparr>)
       (Children 0 := \<lparr>lh_next = Sibling 1, lh_prev = Sibling 2\<rparr>,
        Sibling 1 := \<lparr>lh_next = Sibling 2, lh_prev = Children 0\<rparr>,
        Sibling 2 := \<lparr>lh_next = Children 0, lh_prev = Sibling 1\<rparr>,
        Children 1 := \<lparr>lh_next = Sibling 3, lh_prev = Sibling 3\<rparr>,
        Sibling 3 := \<lparr>lh_next = Children 1, lh_prev = Children 1\<rparr>)\<rparr>"

lemma family_held: "holds family_tasks family" "height family \<le> 3" "tasks_of family = 4"
  by (simp_all add: family_def family_tasks_def is_list_def)

lemma family_pid: "pt_pid (pt_task family_tasks t) = int t"
  by (simp add: family_tasks_def)

text \<open>The same processes at other addresses.\<close>

definition family2 :: "nat proc_tree" where
  "family2 = Node 10 [Node 11 [Node 13 []], Node 12 []]"

definition family2_tasks :: ptasks where
  "family2_tasks = \<lparr>
     pt_task = (\<lambda>t. \<lparr>pt_parent = (if t = 13 then Some 11 else Some 10),
       pt_pid = int t - 10, pt_state = 1, pt_uid = 0, pt_comm = ''sh''\<rparr>),
     pt_links = (\<lambda>n. \<lparr>lh_next = n, lh_prev = n\<rparr>)
       (Children 10 := \<lparr>lh_next = Sibling 11, lh_prev = Sibling 12\<rparr>,
        Sibling 11 := \<lparr>lh_next = Sibling 12, lh_prev = Children 10\<rparr>,
        Sibling 12 := \<lparr>lh_next = Children 10, lh_prev = Sibling 11\<rparr>,
        Children 11 := \<lparr>lh_next = Sibling 13, lh_prev = Sibling 13\<rparr>,
        Sibling 13 := \<lparr>lh_next = Children 11, lh_prev = Children 11\<rparr>)\<rparr>"

lemma family2_held: "holds family2_tasks family2" "height family2 \<le> 3" "tasks_of family2 = 4"
  by (simp_all add: family2_def family2_tasks_def is_list_def)

lemma family_same_report:
  "ptree 3 ref_klist ref_each family_tasks (label family) True True True True =
   ptree 3 ref_klist ref_each family2_tasks (label family2) True True True True"
  using ptree_reports_tree [OF family_held(1) ref_each_ok family_held(2), of ref_klist] family_held(3)
    ptree_reports_tree [OF family2_held(1) ref_each_ok family2_held(2), of ref_klist] family2_held(3)
  by (simp add: family_def family2_def family_tasks_def family2_tasks_def pid_of_def ref_klist_def)

text \<open>A chain of \<open>n\<close> tasks below task \<open>t\<close>, each the only child of the one above.\<close>

primrec line :: "nat \<Rightarrow> nat \<Rightarrow> nat proc_tree" where
  "line 0 t = Node t []"
| "line (Suc n) t = Node t [line n (t + 1)]"

definition line_tasks :: "nat \<Rightarrow> ptasks" where
  "line_tasks m = \<lparr>
     pt_task = (\<lambda>t. \<lparr>pt_parent = (if t = 0 then None else Some (t - 1)), pt_pid = int t, pt_state = 1,
       pt_uid = 0, pt_comm = ''sh''\<rparr>),
     pt_links = (\<lambda>n. case n of
         Children t \<Rightarrow> if t < m then \<lparr>lh_next = Sibling (t + 1), lh_prev = Sibling (t + 1)\<rparr>
           else \<lparr>lh_next = n, lh_prev = n\<rparr>
       | Sibling t \<Rightarrow> if 0 < t \<and> t \<le> m then \<lparr>lh_next = Children (t - 1), lh_prev = Children (t - 1)\<rparr>
           else \<lparr>lh_next = n, lh_prev = n\<rparr>)\<rparr>"

lemma line_held: "t + n = m \<Longrightarrow> holds (line_tasks m) (line n t) \<and> label (line n t) = t"
proof (induction n arbitrary: t)
  case (Suc n)
  then have "holds (line_tasks m) (line n (t + 1)) \<and> label (line n (t + 1)) = t + 1" by simp
  then show ?case using Suc.prems by (simp add: line_tasks_def is_list_def)
qed (simp add: line_tasks_def is_list_def)

lemma line_size: "tasks_of (line n t) = n + 1" "height (line n t) = n + 1"
  by (induction n arbitrary: t) simp_all

theorem ptree_reports_tree_witness:
  "\<exists>r. ptree 3 ref_klist ref_each family_tasks 0 True True True True = Inr r \<and> user_nr r = Some 4 \<and>
     map_option (map (\<lambda>e. (pid e, depth e))) (user_buf r) = Some [(0, 0), (1, 1), (3, 2), (2, 1)]"
  using ptree_reports_tree [OF family_held(1) ref_each_ok family_held(2), of ref_klist] family_held(3)
  by (simp add: family_def family_pid)

theorem ptree_overruns_buffer_witness:
  "ptree 1025 ref_klist ref_each (line_tasks 1024) 0 True True True True = Inl Out_Of_Bounds"
  using ptree_overruns_buffer [of "line_tasks 1024" "line 1024 0" ref_each 1025 ref_klist True True]
    line_held [of 0 1024 1024] line_size [of 1024 0] ref_each_ok
  by simp

theorem ptree_determines_tree_witness:
  "relabel (\<lambda>t. pt_pid (pt_task family_tasks t)) family =
   relabel (\<lambda>t. pt_pid (pt_task family2_tasks t)) family2"
  using ptree_determines_tree [OF family_held(1) family2_held(1) ref_each_ok family_held(2)
      family2_held(2) _ _ family_same_report] family_held(3) family2_held(3)
  by simp

end
