(* ===== verification/Burger.thy ===== *)
theory Burger
  imports Prelude "HOL-Library.Char_ord"
begin

text \<open>
  The burger shop, \<open>Prj1/problem4/BurgerBuddies.c\<close>: cooks, cashiers and customers are threads that
  synchronise through POSIX semaphores. The code of a thread is a list of instructions, one for
  each semaphore call, each line printed and each access to the shared variables; a step of the
  shop lets one thread execute its next instruction, if it is not blocked. A schedule is the
  sequence of threads that make the steps, so every interleaving is covered. A thread that
  \<open>thread_create\<close> has not started yet is one that does not occur in the schedule yet.
\<close>

section \<open>The state\<close>

datatype sem = MutexPrint | MutexRack | MutexEntry | MutexLeave
  | EmptyRack | BurgerNum | OrderNum | ProvideNum

text \<open>The lines the threads print, with the number of the thread.\<close>

datatype event = CookMakes nat | CashierAccepts nat | CashierTakes nat | CustomerComes nat

text \<open>
  A thread is known by its kind and its index in the array of its kind; \<open>cooks\<close>, \<open>cashiers\<close> and
  \<open>customers\<close> hold the program counters and \<open>regs\<close> the value of \<open>left_num\<close> a customer has loaded.
  \<open>closed\<close> says that \<open>main\<close> has left its loop; the process and its threads then end.
\<close>

datatype thread = Cook nat | Cashier nat | Customer nat | Main

record shop =
  sems :: "sem \<Rightarrow> nat"
  cooks :: "nat list"
  cashiers :: "nat list"
  customers :: "nat list"
  regs :: "int list"
  left_num :: int
  terminate_signal :: int
  cust_num :: int
  printed :: "event list"
  closed :: bool

section \<open>The threads\<close>

datatype instr = Wait sem | Post sem | Print event | LoadLeft | StoreLeft | TestLeft

definition cook_func :: "nat \<Rightarrow> instr list" where
  "cook_func n =
     [Wait EmptyRack, Wait MutexRack,
      Wait MutexPrint, Print (CookMakes n), Post MutexPrint,
      Post MutexRack, Post BurgerNum]"

definition cashier_func :: "nat \<Rightarrow> instr list" where
  "cashier_func n =
     [Wait OrderNum,
      Wait MutexPrint, Print (CashierAccepts n), Post MutexPrint,
      Wait BurgerNum, Wait MutexRack,
      Wait MutexPrint, Print (CashierTakes n), Post MutexPrint,
      Post ProvideNum, Post EmptyRack, Post MutexRack]"

definition custom_func :: "nat \<Rightarrow> instr list" where
  "custom_func n =
     [Wait MutexEntry,
      Wait MutexPrint, Print (CustomerComes n), Post MutexPrint,
      Post OrderNum, Post MutexEntry,
      Wait ProvideNum, Wait MutexLeave,
      LoadLeft, StoreLeft, TestLeft, Post MutexLeave]"

text \<open>
  One instruction of customer \<open>i\<close> or of another thread; None if it is blocked. \<open>left_num++\<close> is a
  load and a store.
\<close>

definition exec :: "nat \<Rightarrow> instr \<Rightarrow> shop \<Rightarrow> shop option" where
  "exec i ins s = (case ins of
      Wait x \<Rightarrow> if sems s x = 0 then None
        else Some (s\<lparr>sems := (sems s)(x := sems s x - 1)\<rparr>)
    | Post x \<Rightarrow> Some (s\<lparr>sems := (sems s)(x := sems s x + 1)\<rparr>)
    | Print e \<Rightarrow> Some (s\<lparr>printed := printed s @ [e]\<rparr>)
    | LoadLeft \<Rightarrow> Some (s\<lparr>regs := (regs s)[i := left_num s]\<rparr>)
    | StoreLeft \<Rightarrow> Some (s\<lparr>left_num := regs s ! i + 1\<rparr>)
    | TestLeft \<Rightarrow> Some (if left_num s = cust_num s then s\<lparr>terminate_signal := 1\<rparr> else s))"

text \<open>
  The loops of cooks and cashiers start over; a customer's thread ends. \<open>main\<close> spins until
  \<open>terminate_signal\<close> is set; its \<open>pthread_kill\<close> calls send signal 0, which does nothing, and
  returning from \<open>main\<close> ends the process. What the threads do while \<open>main\<close> calls \<open>thread_kill\<close> and
  \<open>thread_free\<close>, which they do not notice, is what they can do before it leaves its loop, so the
  step of \<open>Main\<close> stands for leaving the loop and ending the process.
\<close>

definition step :: "thread \<Rightarrow> shop \<Rightarrow> shop option" where
  "step t s =
     (if closed s then None
      else case t of
        Cook i \<Rightarrow>
          if i < length (cooks s) then
            (let pc = cooks s ! i in
             case exec i (cook_func (i + 1) ! pc) s of None \<Rightarrow> None
             | Some s \<Rightarrow> Some (s\<lparr>cooks := (cooks s)[i := (pc + 1) mod 7]\<rparr>))
          else None
      | Cashier i \<Rightarrow>
          if i < length (cashiers s) then
            (let pc = cashiers s ! i in
             case exec i (cashier_func (i + 1) ! pc) s of None \<Rightarrow> None
             | Some s \<Rightarrow> Some (s\<lparr>cashiers := (cashiers s)[i := (pc + 1) mod 12]\<rparr>))
          else None
      | Customer i \<Rightarrow>
          if i < length (customers s) \<and> customers s ! i < 12 then
            (let pc = customers s ! i in
             case exec i (custom_func (i + 1) ! pc) s of None \<Rightarrow> None
             | Some s \<Rightarrow> Some (s\<lparr>customers := (customers s)[i := pc + 1]\<rparr>))
          else None
      | Main \<Rightarrow> if terminate_signal s \<noteq> 0 then Some (s\<lparr>closed := True\<rparr>) else None)"

primrec run :: "thread list \<Rightarrow> shop \<Rightarrow> shop option" where
  "run [] s = Some s"
| "run (t # ts) s = (case step t s of None \<Rightarrow> None | Some s' \<Rightarrow> run ts s')"

section \<open>Starting the shop\<close>

text \<open>\<open>atoi\<close>: white space, a sign and decimal digits; the rest is ignored.\<close>

definition is_space :: "char \<Rightarrow> bool" where
  "is_space c \<longleftrightarrow> c \<in> {CHR '' '', CHR 0x09, CHR 0x0A, CHR 0x0B, CHR 0x0C, CHR 0x0D}"

definition is_digit :: "char \<Rightarrow> bool" where
  "is_digit c \<longleftrightarrow> CHR ''0'' \<le> c \<and> c \<le> CHR ''9''"

definition digits_val :: "string \<Rightarrow> int" where
  "digits_val ds = foldl (\<lambda>n d. 10 * n + (of_char d - 48)) 0 ds"

definition atoi :: "string \<Rightarrow> int" where
  "atoi str = (case dropWhile is_space str of
      [] \<Rightarrow> 0
    | c # cs \<Rightarrow>
        if c = CHR ''-'' then - digits_val (takeWhile is_digit cs)
        else if c = CHR ''+'' then digits_val (takeWhile is_digit cs)
        else digits_val (takeWhile is_digit (c # cs)))"

text \<open>\<open>arg_parser\<close>: the four numbers, or None when it returns 1.\<close>

definition arg_parser :: "string list \<Rightarrow> (int \<times> int \<times> int \<times> int) option" where
  "arg_parser argv =
     (if length argv \<noteq> 5 then None
      else
        let cook_num = atoi (argv ! 1); cashier_num = atoi (argv ! 2);
            cust_num = atoi (argv ! 3); rack_num = atoi (argv ! 4)
        in if \<not> (cook_num > 0 \<and> cashier_num > 0 \<and> cust_num > 0 \<and> rack_num > 0) then None
           else Some (cook_num, cashier_num, cust_num, rack_num))"

definition semaphore_init :: "int \<Rightarrow> sem \<Rightarrow> nat" where
  "semaphore_init rack_num x = (case x of
      MutexPrint \<Rightarrow> 1 | MutexRack \<Rightarrow> 1 | MutexEntry \<Rightarrow> 1 | MutexLeave \<Rightarrow> 1
    | EmptyRack \<Rightarrow> nat rack_num | BurgerNum \<Rightarrow> 0 | OrderNum \<Rightarrow> 0 | ProvideNum \<Rightarrow> 0)"

definition shop_init :: "int \<Rightarrow> int \<Rightarrow> int \<Rightarrow> int \<Rightarrow> shop" where
  "shop_init cook_num cashier_num custs rack_num =
     \<lparr>sems = semaphore_init rack_num, cooks = replicate (nat cook_num) 0,
      cashiers = replicate (nat cashier_num) 0, customers = replicate (nat custs) 0,
      regs = replicate (nat custs) 0, left_num = 0, terminate_signal = 0, cust_num = custs,
      printed = [], closed = False\<rparr>"

text \<open>
  \<open>main\<close> up to its waiting loop: an exit status, or the shop. Whether the semaphores, the arrays
  and the threads could be had is up to the system.
\<close>

definition main_start :: "string list \<Rightarrow> bool \<Rightarrow> bool \<Rightarrow> bool \<Rightarrow> int + shop" where
  "main_start argv sem_ok malloc_ok create_ok =
     (case arg_parser argv of
        None \<Rightarrow> Inl 1
      | Some (cook_num, cashier_num, custs, rack_num) \<Rightarrow>
          if \<not> sem_ok then Inl 1
          else if \<not> malloc_ok then Inl 1
          else if \<not> create_ok then Inl 1
          else Inr (shop_init cook_num cashier_num custs rack_num))"

section \<open>Weights of threads\<close>

text \<open>The sum of a weight over the program counters, and what a step does to it.\<close>

definition wsum :: "(nat \<Rightarrow> int) \<Rightarrow> nat list \<Rightarrow> int" where
  "wsum w l = (\<Sum>x\<leftarrow>l. w x)"

lemma wsum_update: "i < length l \<Longrightarrow> wsum w (l[i := y]) = wsum w l - w (l ! i) + w y"
  unfolding wsum_def
proof (induction l arbitrary: i)
  case (Cons x xs)
  then show ?case by (cases i) auto
qed simp

lemma wsum_nonneg_on: "(\<And>x. x \<in> set l \<Longrightarrow> 0 \<le> w x) \<Longrightarrow> 0 \<le> wsum w l"
  unfolding wsum_def by (rule sum_list_nonneg) auto

lemma wsum_nonneg: "(\<And>x. 0 \<le> w x) \<Longrightarrow> 0 \<le> wsum w l"
  by (rule wsum_nonneg_on)

lemma wsum_subset:
  assumes "\<And>x. 0 \<le> w x" and "K \<subseteq> {..<length l}"
  shows "(\<Sum>k\<in>K. w (l ! k)) \<le> wsum w l"
proof -
  have "wsum w l = (\<Sum>k<length l. w (l ! k))"
    by (simp add: wsum_def sum_list_sum_nth atLeast0LessThan)
  then show ?thesis using sum_mono2 [OF finite_lessThan assms(2), of "\<lambda>k. w (l ! k)"] assms(1) by simp
qed

lemma wsum_ge: "(\<And>x. 0 \<le> w x) \<Longrightarrow> x \<in> set l \<Longrightarrow> w x \<le> wsum w l"
  using wsum_subset [of w "{k}" l for k] by (auto simp: in_set_conv_nth)

lemma wsum_two:
  "(\<And>x. 0 \<le> w x) \<Longrightarrow> i < length l \<Longrightarrow> j < length l \<Longrightarrow> i \<noteq> j \<Longrightarrow> w (l ! i) + w (l ! j) \<le> wsum w l"
  using wsum_subset [of w "{i, j}" l] by simp

lemma wsum_zero: "wsum w l = 0 \<Longrightarrow> (\<And>x. 0 \<le> w x) \<Longrightarrow> x \<in> set l \<Longrightarrow> w x = 0"
  by (metis antisym wsum_ge)

lemma wsum_replicate: "wsum w (replicate n x) = int n * w x"
  by (simp add: wsum_def sum_list_replicate)

lemma wsum_all: "\<forall>x\<in>set l. w x = c \<Longrightarrow> wsum w l = int (length l) * c"
  by (induction l) (auto simp: wsum_def algebra_simps)

text \<open>1 for a program counter in a range.\<close>

definition within :: "nat \<Rightarrow> nat \<Rightarrow> nat \<Rightarrow> int" where
  "within a b pc = (if a \<le> pc \<and> pc \<le> b then 1 else 0)"

lemma within_nonneg [simp]: "0 \<le> within a b pc"
  by (simp add: within_def)

section \<open>The invariant\<close>

text \<open>
  Every mutex is free or held by one thread; the rack's places are free, hold a burger or are in
  the hands of a thread; every order is waiting, being served, ready or taken.
\<close>

definition makes :: "shop \<Rightarrow> int" where
  "makes s = int (length (filter (\<lambda>e. case e of CookMakes _ \<Rightarrow> True | _ \<Rightarrow> False) (printed s)))"

definition takes :: "shop \<Rightarrow> int" where
  "takes s = int (length (filter (\<lambda>e. case e of CashierTakes _ \<Rightarrow> True | _ \<Rightarrow> False) (printed s)))"

definition accepts :: "shop \<Rightarrow> int" where
  "accepts s = int (length (filter (\<lambda>e. case e of CashierAccepts _ \<Rightarrow> True | _ \<Rightarrow> False) (printed s)))"

definition comes :: "shop \<Rightarrow> int" where
  "comes s = int (length (filter (\<lambda>e. case e of CustomerComes _ \<Rightarrow> True | _ \<Rightarrow> False) (printed s)))"

definition printing :: "shop \<Rightarrow> int" where
  "printing s = wsum (within 3 4) (cooks s) + wsum (within 2 3) (cashiers s) +
     wsum (within 7 8) (cashiers s) + wsum (within 2 3) (customers s)"

definition at_rack :: "shop \<Rightarrow> int" where
  "at_rack s = wsum (within 2 5) (cooks s) + wsum (within 6 11) (cashiers s)"

definition shop_tokens :: "int \<Rightarrow> shop \<Rightarrow> bool" where
  "shop_tokens rack s \<longleftrightarrow>
     int (sems s MutexPrint) + printing s = 1 \<and>
     int (sems s MutexRack) + at_rack s = 1 \<and>
     int (sems s MutexEntry) + wsum (within 1 5) (customers s) = 1 \<and>
     int (sems s EmptyRack) + int (sems s BurgerNum) + wsum (within 1 6) (cooks s) +
       wsum (within 5 10) (cashiers s) = rack \<and>
     int (sems s OrderNum) + wsum (within 1 9) (cashiers s) + int (sems s ProvideNum) +
       wsum (within 7 12) (customers s) = wsum (within 5 12) (customers s) \<and>
     makes s = takes s + int (sems s BurgerNum) + wsum (within 4 6) (cooks s) +
       wsum (within 5 7) (cashiers s) \<and>
     takes s = int (sems s ProvideNum) + wsum (within 7 12) (customers s) +
       wsum (within 8 9) (cashiers s) \<and>
     accepts s = takes s + wsum (within 3 7) (cashiers s) \<and>
     comes s = wsum (within 3 12) (customers s)"

definition shop_leaving :: "shop \<Rightarrow> bool" where
  "shop_leaving s \<longleftrightarrow>
     int (sems s MutexLeave) + wsum (within 8 11) (customers s) = 1 \<and>
     left_num s = wsum (within 10 12) (customers s) \<and>
     (\<forall>i<length (customers s). customers s ! i = 9 \<longrightarrow> regs s ! i = left_num s) \<and>
     length (regs s) = length (customers s) \<and> cust_num s = int (length (customers s)) \<and>
     (terminate_signal s \<noteq> 0 \<longrightarrow> left_num s = cust_num s) \<and>
     (terminate_signal s = 0 \<longrightarrow> left_num s = cust_num s \<longrightarrow> wsum (within 10 10) (customers s) \<noteq> 0) \<and>
     (closed s \<longrightarrow> terminate_signal s \<noteq> 0)"

definition shop_inv :: "int \<Rightarrow> shop \<Rightarrow> bool" where
  "shop_inv rack s \<longleftrightarrow> (\<forall>x\<in>set (cooks s). x < 7) \<and> (\<forall>x\<in>set (cashiers s). x < 12) \<and>
     (\<forall>x\<in>set (customers s). x \<le> 12) \<and> shop_tokens rack s \<and> shop_leaving s"

text \<open>The number of steps still to be made: each thread's share, and what semaphores will cause.\<close>

definition cook_left :: "nat \<Rightarrow> int" where
  "cook_left pc = (if pc = 0 then 0 else 7 - int pc)"

definition cashier_left :: "nat \<Rightarrow> int" where
  "cashier_left pc = (if pc = 0 then 0 else if pc = 11 then 1 else 19 - int pc)"

definition customer_left :: "nat \<Rightarrow> int" where
  "customer_left pc = (if pc < 5 then 31 - int pc else 12 - int pc)"

definition potential :: "shop \<Rightarrow> int" where
  "potential s = 7 * int (sems s EmptyRack) + 19 * int (sems s OrderNum) +
     wsum cook_left (cooks s) + wsum cashier_left (cashiers s) + wsum customer_left (customers s) +
     (if closed s then 0 else 1)"

section \<open>Every step keeps the invariant\<close>

lemma set_update_memD: "x \<in> set (l[i := y]) \<Longrightarrow> x = y \<or> x \<in> set l"
  using set_update_subset_insert [of l i y] by blast

lemma logged [simp]:
  "makes (s\<lparr>printed := l @ [e]\<rparr>) = makes (s\<lparr>printed := l\<rparr>) + (case e of CookMakes _ \<Rightarrow> 1 | _ \<Rightarrow> 0)"
  "takes (s\<lparr>printed := l @ [e]\<rparr>) = takes (s\<lparr>printed := l\<rparr>) + (case e of CashierTakes _ \<Rightarrow> 1 | _ \<Rightarrow> 0)"
  "accepts (s\<lparr>printed := l @ [e]\<rparr>) = accepts (s\<lparr>printed := l\<rparr>) + (case e of CashierAccepts _ \<Rightarrow> 1 | _ \<Rightarrow> 0)"
  "comes (s\<lparr>printed := l @ [e]\<rparr>) = comes (s\<lparr>printed := l\<rparr>) + (case e of CustomerComes _ \<Rightarrow> 1 | _ \<Rightarrow> 0)"
  by (simp_all add: makes_def takes_def accepts_def comes_def split: event.split)

lemmas token_defs = shop_tokens_def printing_def at_rack_def makes_def takes_def accepts_def
  comes_def exec_def wsum_update within_def

text \<open>The part about leaving does not concern cooks and cashiers.\<close>

lemma shop_leaving_cong:
  assumes "shop_leaving s" and "customers s' = customers s" "regs s' = regs s" "left_num s' = left_num s"
    "cust_num s' = cust_num s" "terminate_signal s' = terminate_signal s" "closed s' = closed s"
    "sems s' MutexLeave = sems s MutexLeave"
  shows "shop_leaving s'"
  using assms(1) unfolding shop_leaving_def assms(2-) .

lemma below_7: "(k :: nat) < 7 \<Longrightarrow> k = 0 \<or> k = 1 \<or> k = 2 \<or> k = 3 \<or> k = 4 \<or> k = 5 \<or> k = 6"
  by presburger

lemma below_12:
  "(k :: nat) < 12 \<Longrightarrow> k = 0 \<or> k = 1 \<or> k = 2 \<or> k = 3 \<or> k = 4 \<or> k = 5 \<or> k = 6 \<or> k = 7 \<or>
   k = 8 \<or> k = 9 \<or> k = 10 \<or> k = 11"
  by presburger

lemma cook_tokens:
  assumes "shop_tokens rack s" and "i < length (cooks s)" and "cooks s ! i = pc" "pc < 7"
    and "exec i (cook_func n ! pc) s = Some t"
  defines "s' \<equiv> t\<lparr>cooks := (cooks t)[i := (pc + 1) mod 7]\<rparr>"
  shows "shop_tokens rack s' \<and> potential s' = potential s - 1"
  using below_7 [OF assms(4)] assms(1-3,5)
  unfolding s'_def
  by (elim disjE; clarsimp simp: token_defs cook_func_def potential_def cook_left_def
      split: if_splits)

lemma cashier_tokens:
  assumes "shop_tokens rack s" and "i < length (cashiers s)" and "cashiers s ! i = pc" "pc < 12"
    and "exec i (cashier_func n ! pc) s = Some t"
  defines "s' \<equiv> t\<lparr>cashiers := (cashiers t)[i := (pc + 1) mod 12]\<rparr>"
  shows "shop_tokens rack s' \<and> potential s' = potential s - 1"
  using below_12 [OF assms(4)] assms(1-3,5)
  unfolding s'_def
  by (elim disjE; clarsimp simp: token_defs cashier_func_def potential_def cashier_left_def
      split: if_splits)

lemma customer_tokens:
  assumes "shop_tokens rack s" and "i < length (customers s)" and "customers s ! i = pc" "pc < 12"
    and "exec i (custom_func n ! pc) s = Some t"
  defines "s' \<equiv> t\<lparr>customers := (customers t)[i := pc + 1]\<rparr>"
  shows "shop_tokens rack s' \<and> potential s' = potential s - 1"
  using below_12 [OF assms(4)] assms(1-3,5)
  unfolding s'_def
  by (elim disjE; clarsimp simp: token_defs custom_func_def potential_def customer_left_def
      split: if_splits)

lemma customer_leaving:
  assumes v: "shop_leaving s" and r: "\<forall>x\<in>set (customers s). x \<le> 12"
    and i: "i < length (customers s)" and pc: "customers s ! i = pc" "pc < 12" and c: "\<not> closed s"
    and e: "exec i (custom_func n ! pc) s = Some t"
  defines "s' \<equiv> t\<lparr>customers := (customers t)[i := pc + 1]\<rparr>"
  shows "shop_leaving s'"
proof -
  have mutex: "int (sems s MutexLeave) + wsum (within 8 11) (customers s) = 1"
    using v by (simp add: shop_leaving_def)
  have excl: "\<not> (8 \<le> customers s ! k \<and> customers s ! k \<le> 11)"
    if "8 \<le> pc" "k < length (customers s)" "k \<noteq> i" for k
  proof
    assume k: "8 \<le> customers s ! k \<and> customers s ! k \<le> 11"
    have "within 8 11 (customers s ! i) + within 8 11 (customers s ! k) \<le> wsum (within 8 11) (customers s)"
      by (rule wsum_two) (use that i in auto)
    then show False using k pc that mutex by (simp add: within_def)
  qed
  have pos: "0 \<le> wsum (within 10 10) (customers s)" by (rule wsum_nonneg) simp
  have nine: "pc = 9 \<Longrightarrow> k < length (customers s) \<Longrightarrow> k \<noteq> i \<Longrightarrow> customers s ! k \<noteq> 9" for k
    using excl [of k] by auto
  have "wsum (\<lambda>x. within 0 9 x + within 10 12 x) (customers s) = int (length (customers s)) * 1"
    by (rule wsum_all) (use r in \<open>auto simp: within_def\<close>)
  then have all: "wsum (within 0 9) (customers s) + wsum (within 10 12) (customers s) =
      int (length (customers s))"
    by (simp add: wsum_def sum_list_addf)
  have low: "within 0 9 pc \<le> wsum (within 0 9) (customers s)"
    and ten: "within 10 10 pc \<le> wsum (within 10 10) (customers s)"
    using i pc(1) by (auto intro!: wsum_ge)
  have "pc \<le> 7 \<or> pc = 8 \<or> pc = 9 \<or> pc = 10 \<or> pc = 11" using pc(2) by linarith
  then show ?thesis
  proof (elim disjE)
    assume p: "pc \<le> 7"
    then have "pc < 7 \<or> pc = 7" by linarith
    then have "pc = 0 \<or> pc = 1 \<or> pc = 2 \<or> pc = 3 \<or> pc = 4 \<or> pc = 5 \<or> pc = 6 \<or> pc = 7"
      using below_7 by blast
    moreover have "sems t MutexLeave = sems s MutexLeave - (if pc = 7 then 1 else 0)"
      "pc = 7 \<Longrightarrow> sems s MutexLeave \<noteq> 0" "customers t = customers s" "regs t = regs s"
      "left_num t = left_num s" "cust_num t = cust_num s" "closed t = closed s"
      "terminate_signal t = terminate_signal s"
      using calculation e by (elim disjE; auto simp: exec_def custom_func_def split: if_splits)+
    ultimately show ?thesis
      using v i pc(1) unfolding s'_def shop_leaving_def
      by (elim disjE; clarsimp simp: wsum_update within_def nth_list_update split: if_splits)
  next
    assume "pc = 8"
    then show ?thesis
      using v i pc(1) c e excl unfolding s'_def
      by (auto simp: shop_leaving_def exec_def custom_func_def wsum_update within_def nth_list_update)
  next
    assume "pc = 9"
    then show ?thesis
      using v i pc(1) c e nine all low pos
      unfolding s'_def
      by (auto simp: shop_leaving_def exec_def custom_func_def wsum_update within_def nth_list_update
        split: if_splits)
  next
    assume p: "pc = 10"
    have t: "t = (if left_num s = cust_num s then s\<lparr>terminate_signal := 1\<rparr> else s)"
      using e p by (simp add: exec_def custom_func_def)
    show ?thesis
      using v i pc(1) c p unfolding s'_def t
      by (cases "left_num s = cust_num s")
        (auto simp: shop_leaving_def wsum_update within_def nth_list_update split: if_splits)
  next
    assume "pc = 11"
    then show ?thesis
      using v i pc(1) c e unfolding s'_def
      by (auto simp: shop_leaving_def exec_def custom_func_def wsum_update within_def nth_list_update
        split: if_splits)
  qed
qed

lemma exec_frame:
  assumes "exec i ins s = Some t"
  shows "cooks t = cooks s" "cashiers t = cashiers s" "customers t = customers s" "closed t = closed s"
    "cust_num t = cust_num s"
  using assms by (auto simp: exec_def split: instr.splits if_splits)

lemma set_update_all:
  assumes "\<forall>x\<in>set l. P x" and "P y"
  shows "\<forall>x\<in>set (l[i := y]). P x"
  using set_update_subset_insert [of l i y] assms by blast

text \<open>The instructions of cooks and cashiers do not touch what the customers use for leaving.\<close>

definition plain :: "instr \<Rightarrow> bool" where
  "plain ins = (case ins of Wait x \<Rightarrow> x \<noteq> MutexLeave | Post x \<Rightarrow> x \<noteq> MutexLeave
     | Print _ \<Rightarrow> True | _ \<Rightarrow> False)"

lemma plain_leaving:
  assumes "exec i ins s = Some t" and "plain ins" and "shop_leaving s"
  shows "shop_leaving t"
  by (rule shop_leaving_cong [OF assms(3)])
    (use assms(1,2) in \<open>auto simp: exec_def plain_def split: instr.splits if_splits\<close>)

lemma plain_code:
  "pc < 7 \<Longrightarrow> plain (cook_func n ! pc)" "pc < 12 \<Longrightarrow> plain (cashier_func n ! pc)"
proof -
  have "\<forall>ins\<in>set (cook_func n). plain ins" "\<forall>ins\<in>set (cashier_func n). plain ins"
    by (simp_all add: cook_func_def cashier_func_def plain_def)
  moreover have "length (cook_func n) = 7" "length (cashier_func n) = 12"
    by (simp_all add: cook_func_def cashier_func_def)
  ultimately show "pc < 7 \<Longrightarrow> plain (cook_func n ! pc)" "pc < 12 \<Longrightarrow> plain (cashier_func n ! pc)"
    using nth_mem by metis+
qed

lemma step_inv:
  assumes v: "shop_inv rack s" and s: "step th s = Some s'"
  shows "shop_inv rack s' \<and> potential s' = potential s - 1"
proof (cases th)
  case (Cook i)
  then obtain t where i: "i < length (cooks s)" and e: "exec i (cook_func (i + 1) ! (cooks s ! i)) s = Some t"
      and s': "s' = t\<lparr>cooks := (cooks t)[i := (cooks s ! i + 1) mod 7]\<rparr>"
    using s by (auto simp: step_def Let_def split: if_splits option.splits)
  have pc: "cooks s ! i < 7" using v i by (simp add: shop_inv_def)
  have lv: "shop_leaving s'"
    unfolding s' by (rule shop_leaving_cong [OF plain_leaving [OF e plain_code(1) [OF pc]]])
      (use v in \<open>simp_all add: shop_inv_def\<close>)
  have l': "cooks s' = (cooks s)[i := (cooks s ! i + 1) mod 7]" by (simp add: s' exec_frame [OF e])
  have "\<forall>x\<in>set (cooks s'). x < 7"
    unfolding l' by (rule set_update_all)
      (use v in \<open>simp_all add: shop_inv_def\<close>)
  then show ?thesis
    using cook_tokens [OF _ i refl pc e, of rack] v lv exec_frame [OF e] unfolding s' by (simp add: shop_inv_def)
next
  case (Cashier i)
  then obtain t where i: "i < length (cashiers s)"
      and e: "exec i (cashier_func (i + 1) ! (cashiers s ! i)) s = Some t"
      and s': "s' = t\<lparr>cashiers := (cashiers t)[i := (cashiers s ! i + 1) mod 12]\<rparr>"
    using s by (auto simp: step_def Let_def split: if_splits option.splits)
  have pc: "cashiers s ! i < 12" using v i by (simp add: shop_inv_def)
  have lv: "shop_leaving s'"
    unfolding s' by (rule shop_leaving_cong [OF plain_leaving [OF e plain_code(2) [OF pc]]])
      (use v in \<open>simp_all add: shop_inv_def\<close>)
  have l': "cashiers s' = (cashiers s)[i := (cashiers s ! i + 1) mod 12]" by (simp add: s' exec_frame [OF e])
  have "\<forall>x\<in>set (cashiers s'). x < 12"
    unfolding l' by (rule set_update_all)
      (use v in \<open>simp_all add: shop_inv_def\<close>)
  then show ?thesis
    using cashier_tokens [OF _ i refl pc e, of rack] v lv exec_frame [OF e] unfolding s' by (simp add: shop_inv_def)
next
  case (Customer i)
  then obtain t where i: "i < length (customers s)" and pc: "customers s ! i < 12" and c: "\<not> closed s"
      and e: "exec i (custom_func (i + 1) ! (customers s ! i)) s = Some t"
      and s': "s' = t\<lparr>customers := (customers t)[i := customers s ! i + 1]\<rparr>"
    using s by (auto simp: step_def Let_def split: if_splits option.splits)
  have lv: "shop_leaving s'"
    unfolding s' by (rule customer_leaving [OF _ _ i refl pc c e]) (use v in \<open>simp_all add: shop_inv_def\<close>)
  have l': "customers s' = (customers s)[i := customers s ! i + 1]" by (simp add: s' exec_frame [OF e])
  have "\<forall>x\<in>set (customers s'). x \<le> 12"
    unfolding l' by (rule set_update_all)
      (use v pc in \<open>simp_all add: shop_inv_def\<close>)
  then show ?thesis
    using customer_tokens [OF _ i refl pc e, of rack] v lv exec_frame [OF e] unfolding s' by (simp add: shop_inv_def)
next
  case Main
  then show ?thesis
    using s v by (auto simp: step_def shop_inv_def shop_tokens_def printing_def at_rack_def makes_def
      takes_def accepts_def comes_def shop_leaving_def potential_def split: if_splits)
qed

lemma run_inv:
  "shop_inv rack s \<Longrightarrow> run ts s = Some s' \<Longrightarrow> shop_inv rack s' \<and> potential s' = potential s - int (length ts)"
proof (induction ts arbitrary: s)
  case (Cons th ts)
  then obtain s1 where s1: "step th s = Some s1" "run ts s1 = Some s'" by (auto split: option.splits)
  from step_inv [OF Cons.prems(1) s1(1)] Cons.IH [OF _ s1(2)] show ?case by simp
qed simp

lemma shop_init_inv:
  assumes "0 \<le> rack" and "0 < custs"
  shows "shop_inv rack (shop_init cook_num cashier_num custs rack)"
  using assms
  by (simp add: shop_inv_def shop_init_def shop_tokens_def shop_leaving_def printing_def at_rack_def
    makes_def takes_def accepts_def comes_def semaphore_init_def wsum_replicate within_def)

lemma potential_nonneg: "shop_inv rack s \<Longrightarrow> 0 \<le> potential s"
proof -
  assume i: "shop_inv rack s"
  have "0 \<le> wsum cook_left (cooks s)"
    by (rule wsum_nonneg_on) (use i in \<open>auto simp: shop_inv_def cook_left_def\<close>)
  moreover have "0 \<le> wsum cashier_left (cashiers s)"
    by (rule wsum_nonneg_on) (use i in \<open>auto simp: shop_inv_def cashier_left_def\<close>)
  moreover have "0 \<le> wsum customer_left (customers s)"
    by (rule wsum_nonneg_on) (use i in \<open>auto simp: shop_inv_def customer_left_def\<close>)
  ultimately show ?thesis by (simp add: potential_def)
qed

section \<open>The shop never gets stuck\<close>

lemma within_zero: "wsum (within a b) l = 0 \<Longrightarrow> x \<in> set l \<Longrightarrow> \<not> (a \<le> x \<and> x \<le> b)"
proof -
  assume "wsum (within a b) l = 0" "x \<in> set l"
  from wsum_zero [OF this(1) _ this(2)] have "within a b x = 0" by simp
  then show ?thesis by (simp add: within_def split: if_splits)
qed

text \<open>A thread whose next instruction is not a blocked wait can make a step.\<close>

lemma blocked:
  assumes "exec i ins s = None"
  obtains x where "ins = Wait x" "sems s x = 0"
  using assms by (auto simp: exec_def split: instr.splits if_splits)

lemma cook_blocked:
  assumes "\<not> closed s" and "step (Cook i) s = None" and "i < length (cooks s)" and "cooks s ! i < 7"
  shows "cooks s ! i = 0 \<and> sems s EmptyRack = 0 \<or> cooks s ! i = 1 \<and> sems s MutexRack = 0 \<or>
    cooks s ! i = 2 \<and> sems s MutexPrint = 0"
proof -
  have "exec i (cook_func (i + 1) ! (cooks s ! i)) s = None"
    using assms by (auto simp: step_def Let_def split: option.splits)
  then obtain x where "cook_func (i + 1) ! (cooks s ! i) = Wait x" "sems s x = 0" by (rule blocked)
  with below_7 [OF assms(4)] show ?thesis by (elim disjE) (auto simp: cook_func_def)
qed

lemma cashier_blocked:
  assumes "\<not> closed s" and "step (Cashier i) s = None" and "i < length (cashiers s)" and "cashiers s ! i < 12"
  shows "cashiers s ! i = 0 \<and> sems s OrderNum = 0 \<or> cashiers s ! i \<in> {1, 6} \<and> sems s MutexPrint = 0 \<or>
    cashiers s ! i = 4 \<and> sems s BurgerNum = 0 \<or> cashiers s ! i = 5 \<and> sems s MutexRack = 0"
proof -
  have "exec i (cashier_func (i + 1) ! (cashiers s ! i)) s = None"
    using assms by (auto simp: step_def Let_def split: option.splits)
  then obtain x where "cashier_func (i + 1) ! (cashiers s ! i) = Wait x" "sems s x = 0" by (rule blocked)
  with below_12 [OF assms(4)] show ?thesis by (elim disjE) (auto simp: cashier_func_def)
qed

lemma customer_blocked:
  assumes "\<not> closed s" and "step (Customer i) s = None" and "i < length (customers s)" and "customers s ! i < 12"
  shows "customers s ! i = 0 \<and> sems s MutexEntry = 0 \<or> customers s ! i = 1 \<and> sems s MutexPrint = 0 \<or>
    customers s ! i = 6 \<and> sems s ProvideNum = 0 \<or> customers s ! i = 7 \<and> sems s MutexLeave = 0"
proof -
  have "exec i (custom_func (i + 1) ! (customers s ! i)) s = None"
    using assms by (auto simp: step_def Let_def split: option.splits)
  then obtain x where "custom_func (i + 1) ! (customers s ! i) = Wait x" "sems s x = 0" by (rule blocked)
  with below_12 [OF assms(4)] show ?thesis by (elim disjE) (auto simp: custom_func_def)
qed

lemma wsum_none: "(\<And>x. x \<in> set l \<Longrightarrow> \<not> (a \<le> x \<and> x \<le> b)) \<Longrightarrow> wsum (within a b) l = 0"
  using wsum_all [of l "within a b" 0] by (auto simp: within_def)

lemma wsum_split:
  "b < c \<Longrightarrow> wsum (within a c) l = wsum (within a b) l + wsum (within (b + 1) c) l" if "a \<le> b"
  using that by (induction l) (auto simp: wsum_def within_def)

lemma shop_progress:
  assumes i: "shop_inv rack s" and "0 < rack" and "cooks s \<noteq> []" "cashiers s \<noteq> []" and c: "\<not> closed s"
  shows "\<exists>th. step th s \<noteq> None"
proof (rule ccontr)
  assume "\<nexists>th. step th s \<noteq> None"
  then have stuck: "step th s = None" for th by blast
  have t: "terminate_signal s = 0" using stuck [of Main] c by (auto simp: step_def split: if_splits)
  have ck: "x = 0 \<and> sems s EmptyRack = 0 \<or> x = 1 \<and> sems s MutexRack = 0 \<or> x = 2 \<and> sems s MutexPrint = 0"
    if "x \<in> set (cooks s)" for x
    using that i cook_blocked [OF c stuck] by (fastforce simp: in_set_conv_nth shop_inv_def)
  have ca: "x = 0 \<and> sems s OrderNum = 0 \<or> x \<in> {1, 6} \<and> sems s MutexPrint = 0 \<or>
      x = 4 \<and> sems s BurgerNum = 0 \<or> x = 5 \<and> sems s MutexRack = 0"
    if "x \<in> set (cashiers s)" for x
    using that i cashier_blocked [OF c stuck] by (fastforce simp: in_set_conv_nth shop_inv_def)
  have cu: "x = 0 \<and> sems s MutexEntry = 0 \<or> x = 1 \<and> sems s MutexPrint = 0 \<or>
      x = 6 \<and> sems s ProvideNum = 0 \<or> x = 7 \<and> sems s MutexLeave = 0 \<or> x = 12"
    if x: "x \<in> set (customers s)" for x
  proof -
    obtain k where k: "k < length (customers s)" "x = customers s ! k" using x by (auto simp: in_set_conv_nth)
    have "x \<le> 12" using i x by (simp add: shop_inv_def)
    then show ?thesis using customer_blocked [OF c stuck k(1)] k(2) by auto
  qed
  note tok = i [unfolded shop_inv_def shop_tokens_def shop_leaving_def printing_def at_rack_def]
  have "wsum (within 3 4) (cooks s) = 0" "wsum (within 2 3) (cashiers s) = 0"
    "wsum (within 7 8) (cashiers s) = 0" "wsum (within 2 3) (customers s) = 0"
    by (rule wsum_none; force dest: ck ca cu)+
  then have print: "sems s MutexPrint = 1" using tok by simp
  have "wsum (within 2 5) (cooks s) = 0" "wsum (within 6 11) (cashiers s) = 0"
    by (rule wsum_none; use print in \<open>force dest: ck ca\<close>)+
  then have rk: "sems s MutexRack = 1" using tok by simp
  have "wsum (within 1 5) (customers s) = 0" "wsum (within 8 11) (customers s) = 0"
    by (rule wsum_none; use print in \<open>force dest: cu\<close>)+
  then have ent: "sems s MutexEntry = 1" "sems s MutexLeave = 1" using tok by simp_all
  have ck0: "x = 0 \<and> sems s EmptyRack = 0" if "x \<in> set (cooks s)" for x
    using ck [OF that] print rk by auto
  have "sems s EmptyRack = 0" using ck0 assms(3) by (cases "cooks s") auto
  moreover have "wsum (within 1 6) (cooks s) = 0" "wsum (within 5 10) (cashiers s) = 0"
    by (rule wsum_none; use print rk in \<open>force dest: ck0 ca\<close>)+
  ultimately have "sems s BurgerNum \<noteq> 0" using tok assms(2) by auto
  then have ca0: "x = 0 \<and> sems s OrderNum = 0" if "x \<in> set (cashiers s)" for x
    using ca [OF that] print rk by auto
  have "sems s OrderNum = 0" using ca0 assms(4) by (cases "cashiers s") auto
  moreover have "wsum (within 1 9) (cashiers s) = 0" by (rule wsum_none) (use ca0 in force)
  moreover have "wsum (within 5 12) (customers s) = wsum (within 5 6) (customers s) + wsum (within 7 12) (customers s)"
    using wsum_split [of 5 6 12] by simp
  ultimately have eq: "int (sems s ProvideNum) = wsum (within 5 6) (customers s)" using tok by simp
  have "x \<noteq> 6" if x: "x \<in> set (customers s)" for x
  proof
    assume "x = 6"
    then have "sems s ProvideNum = 0" using cu [OF x] by auto
    then show False using within_zero [OF _ x, of 5 6] eq \<open>x = 6\<close> by simp
  qed
  then have all: "x = 12" if "x \<in> set (customers s)" for x
    using cu [OF that] print ent that by auto
  have "wsum (within 10 12) (customers s) = int (length (customers s)) * 1"
    by (rule wsum_all) (auto simp: within_def dest: all)
  moreover have "wsum (within 10 10) (customers s) = 0" by (rule wsum_none) (auto dest: all)
  ultimately show False using tok t by simp
qed

section \<open>Properties\<close>

lemma main_start_shop:
  assumes "main_start argv sem_ok malloc_ok create_ok = Inr s"
  obtains c a n r where "s = shop_init c a n r" "0 < c" "0 < a" "0 < n" "0 < r"
  using assms by (auto simp: main_start_def arg_parser_def Let_def split: option.splits if_splits)

lemma shop_start_inv:
  assumes "main_start argv sem_ok malloc_ok create_ok = Inr s0" and "run ts s0 = Some s"
  shows "shop_inv (int (sems s0 EmptyRack)) s" "potential s = potential s0 - int (length ts)"
    "potential s0 = 7 * int (sems s0 EmptyRack) + 31 * int (length (customers s0)) + 1"
    "0 < sems s0 EmptyRack" "cooks s \<noteq> []" "cashiers s \<noteq> []" "length (customers s) = length (customers s0)"
proof -
  obtain c a n r where i: "s0 = shop_init c a n r" "0 < c" "0 < a" "0 < n" "0 < r"
    by (rule main_start_shop [OF assms(1)])
  have r: "int (sems s0 EmptyRack) = r" using i by (simp add: shop_init_def semaphore_init_def)
  have "shop_inv r s0" unfolding i(1) by (rule shop_init_inv) (use i in simp_all)
  from run_inv [OF this assms(2)]
  show "shop_inv (int (sems s0 EmptyRack)) s" "potential s = potential s0 - int (length ts)"
    unfolding r by auto
  show "potential s0 = 7 * int (sems s0 EmptyRack) + 31 * int (length (customers s0)) + 1"
    using i by (simp add: potential_def shop_init_def semaphore_init_def wsum_replicate cook_left_def
      cashier_left_def customer_left_def)
  show "0 < sems s0 EmptyRack" using i(5) r by linarith
  have "length (cooks s) = length (cooks t) \<and> length (cashiers s) = length (cashiers t) \<and>
      length (customers s) = length (customers t)" if "run ts t = Some s" for t
    using that
  proof (induction ts arbitrary: t)
    case (Cons th ts)
    then obtain u where u: "step th t = Some u" "run ts u = Some s" by (auto split: option.splits)
    have "length (cooks u) = length (cooks t) \<and> length (cashiers u) = length (cashiers t) \<and>
        length (customers u) = length (customers t)"
      using u(1) exec_frame
      by (cases th) (auto simp: step_def Let_def split: if_splits option.splits)
    with Cons.IH [OF u(2)] show ?case by simp
  qed simp
  from this [OF assms(2)] i show "cooks s \<noteq> []" "cashiers s \<noteq> []"
    "length (customers s) = length (customers s0)"
    by (auto simp: shop_init_def)
qed

lemma wsum_mono: "(\<And>x. w x \<le> v x) \<Longrightarrow> wsum w l \<le> wsum v l"
  unfolding wsum_def by (rule sum_list_mono)

lemma wsum_within_le: "c \<le> a \<Longrightarrow> b \<le> d \<Longrightarrow> wsum (within a b) l \<le> wsum (within c d) l"
  by (rule wsum_mono) (auto simp: within_def)

lemma wsum_within_length: "wsum (within a b) l \<le> int (length l)"
proof -
  have "wsum (within a b) l \<le> wsum (\<lambda>_. 1) l" by (rule wsum_mono) (auto simp: within_def)
  then show ?thesis by (simp add: wsum_def sum_list_triv)
qed

text \<open>
  C24: Whatever the interleaving of the threads: at most one thread is between the wait and the
  post of each of the four mutexes; the burgers made and not yet taken are never negative and
  never more than the rack holds; no burger is taken without an order that was accepted, no
  order is accepted without a customer who came, and no customer leaves without a burger.
\<close>

theorem shop_safe:
  assumes "main_start argv sem_ok malloc_ok create_ok = Inr s0" and "run ts s0 = Some s"
  shows "printing s \<le> 1 \<and> at_rack s \<le> 1 \<and> wsum (within 1 5) (customers s) \<le> 1 \<and>
    wsum (within 8 11) (customers s) \<le> 1 \<and>
    0 \<le> makes s - takes s \<and> makes s - takes s \<le> int (sems s0 EmptyRack) \<and>
    takes s \<le> accepts s \<and> accepts s \<le> comes s \<and> comes s \<le> int (length (customers s0)) \<and>
    left_num s \<le> takes s"
proof -
  note st = shop_start_inv [OF assms]
  note tok = st(1) [unfolded shop_inv_def shop_tokens_def shop_leaving_def]
  have w0: "0 \<le> wsum (within a b) l" for a b l by (rule wsum_nonneg) simp
  have 1: "wsum (within 4 6) l \<le> wsum (within 1 6) l" "wsum (within 5 7) l \<le> wsum (within 5 10) l"
    "wsum (within 10 12) l \<le> wsum (within 7 12) l" "wsum (within 5 12) l \<le> wsum (within 3 12) l"
    "wsum (within 3 9) l \<le> wsum (within 1 9) l" for l
    by (simp_all add: wsum_within_le)
  have 2: "wsum (within 3 9) l = wsum (within 3 7) l + wsum (within 8 9) l" for l
    using wsum_split [of 3 7 9 l] by simp
  have "printing s \<le> 1 \<and> at_rack s \<le> 1 \<and> wsum (within 1 5) (customers s) \<le> 1 \<and>
    wsum (within 8 11) (customers s) \<le> 1" using tok by linarith
  moreover have "0 \<le> makes s - takes s"
    using tok w0 [of 4 6 "cooks s"] w0 [of 5 7 "cashiers s"] by linarith
  moreover have "makes s - takes s \<le> int (sems s0 EmptyRack)"
    using tok 1(1) [of "cooks s"] 1(2) [of "cashiers s"] by linarith
  moreover have "takes s \<le> accepts s" using tok w0 [of 3 7 "cashiers s"] by linarith
  moreover have "accepts s \<le> comes s"
    using tok 1(4) [of "customers s"] 1(5) [of "cashiers s"] 2 [of "cashiers s"] by linarith
  moreover have "comes s \<le> int (length (customers s0))"
    using tok wsum_within_length [of 3 12 "customers s"] st(7) by simp
  moreover have "left_num s \<le> takes s"
    using tok 1(3) [of "customers s"] w0 [of 8 9 "cashiers s"] by linarith
  ultimately show ?thesis by blast
qed

text \<open>
  C11: The shop always closes. However the threads are scheduled, they make at most
  \<open>7 * rack_num + 31 * cust_num + 1\<close> steps; as long as \<open>main\<close> has not left its loop some thread can
  make a step, so no run ends in a deadlock; and when \<open>main\<close> leaves its loop every customer
  has counted itself out and exactly \<open>cust_num\<close> burgers have been taken.
\<close>

theorem shop_closes:
  assumes "main_start argv sem_ok malloc_ok create_ok = Inr s0" and "run ts s0 = Some s"
  shows "length ts \<le> 7 * sems s0 EmptyRack + 31 * length (customers s0) + 1 \<and>
    (\<not> closed s \<longrightarrow> (\<exists>th. step th s \<noteq> None)) \<and>
    (closed s \<longrightarrow> left_num s = int (length (customers s0)) \<and> takes s = int (length (customers s0)))"
proof -
  note st = shop_start_inv [OF assms]
  have "length ts \<le> 7 * sems s0 EmptyRack + 31 * length (customers s0) + 1"
    using st(2,3) potential_nonneg [OF st(1)] by linarith
  moreover have "\<exists>th. step th s \<noteq> None" if "\<not> closed s"
    by (rule shop_progress [OF st(1)]) (use st that in auto)
  moreover have "left_num s = int (length (customers s0))" if "closed s"
  proof -
    have "shop_leaving s" using st(1) by (simp add: shop_inv_def)
    then have "left_num s = cust_num s" "cust_num s = int (length (customers s))"
      using that by (auto simp: shop_leaving_def)
    then show ?thesis using st(7) by simp
  qed
  ultimately show ?thesis using shop_safe [OF assms] by auto
qed

section \<open>A concrete shop\<close>

definition sample_argv :: "string list" where
  "sample_argv = [''bb'', ''1'', ''1'', ''1'', ''1'']"

definition sample_day :: "thread list" where
  "sample_day = replicate 6 (Customer 0) @ replicate 4 (Cashier 0) @ replicate 7 (Cook 0) @
     replicate 8 (Cashier 0) @ replicate 6 (Customer 0) @ [Main]"

lemma sample_start: "main_start sample_argv True True True = Inr (shop_init 1 1 1 1)"
proof -
  have "arg_parser sample_argv = Some (1, 1, 1, 1)" by code_simp
  then show ?thesis by (simp add: main_start_def)
qed

lemma sample_run: "(case run sample_day (shop_init 1 1 1 1) of None \<Rightarrow> False | Some s \<Rightarrow> closed s)"
  by code_simp

theorem shop_safe_witness:
  "\<exists>s. run sample_day (shop_init 1 1 1 1) = Some s \<and> makes s - takes s \<le> 1 \<and> left_num s \<le> takes s"
proof -
  obtain s where s: "run sample_day (shop_init 1 1 1 1) = Some s"
    using sample_run by (auto split: option.splits)
  from shop_safe [OF sample_start s] s show ?thesis by (auto simp: shop_init_def semaphore_init_def)
qed

theorem shop_closes_witness:
  "\<exists>s. run sample_day (shop_init 1 1 1 1) = Some s \<and> closed s \<and> left_num s = 1 \<and> takes s = 1"
proof -
  obtain s where s: "run sample_day (shop_init 1 1 1 1) = Some s" "closed s"
    using sample_run by (auto split: option.splits)
  from shop_closes [OF sample_start s(1)] s show ?thesis by (auto simp: shop_init_def)
qed

end
