(* ===== verification/Task_Groups.thy ===== *)
theory Task_Groups
  imports Rt Core
begin

text \<open>
  The tree of task groups and the admission of real-time bandwidth, the part of
  \<open>Prj2/kernel/sched/core.c\<close> that walks the tree (\<open>walk_tg_tree_from\<close>), creates and destroys
  groups, and sets the run time and period of a group or of the whole system. The walk, written
  with jumps in the source, is shown to be the tour of the tree; \<open>Rt_Admission\<close> holds the rest.
\<close>

section \<open>The state\<close>

text \<open>
  The tree hangs on the groups: \<open>tg->parent\<close> is the path without its first component, and
  \<open>g_children g\<close> is the list \<open>g->children\<close>, linked through \<open>siblings\<close>, first entry first.
  \<open>g_list\<close> is \<open>task_groups\<close>.
\<close>

record 'x gsys =
  g_sys :: "'x sys"
  g_children :: "tg_ptr \<Rightarrow> tg_ptr list"
  g_list :: "tg_ptr list"
  g_def :: rt_bandwidth \<comment> \<open>\<open>def_rt_bandwidth\<close>\<close>
  g_scheduler_running :: bool

definition tg_parent :: "tg_ptr \<Rightarrow> tg_ptr option" where
  "tg_parent g = (case g of [] \<Rightarrow> None | _ # up \<Rightarrow> Some up)"

section \<open>The walk\<close>

text \<open>A visitor gets a group and the data and returns the data and an int.\<close>

type_synonym 'd tg_visitor = "tg_ptr \<Rightarrow> 'd \<Rightarrow> 'd \<times> int"

text \<open>Where the walk is: at the label \<open>down\<close> with \<open>parent\<close>, or in the loop over the children of
  \<open>parent\<close> with the siblings that are left.\<close>

datatype walk_at = Down tg_ptr | Children tg_ptr "tg_ptr list"

text \<open>The siblings after \<open>child\<close>, where the jump to \<open>up\<close> continues the loop.\<close>

definition siblings_after :: "tg_ptr \<Rightarrow> tg_ptr list \<Rightarrow> tg_ptr list" where
  "siblings_after child cs = tl (dropWhile (\<lambda>c. c \<noteq> child) cs)"

partial_function (option) walk_loop ::
  "(tg_ptr \<Rightarrow> tg_ptr list) \<Rightarrow> tg_ptr \<Rightarrow> 'd tg_visitor \<Rightarrow> 'd tg_visitor \<Rightarrow> walk_at \<Rightarrow> 'd \<Rightarrow> ('d \<times> int) option" where
  "walk_loop children origin down up at d =
     (case at of
        Down parent \<Rightarrow>
          let (d, ret) = down parent d
          in if ret \<noteq> 0 then Some (d, ret)
             else walk_loop children origin down up (Children parent (children parent)) d
      | Children parent (child # _) \<Rightarrow> walk_loop children origin down up (Down child) d
      | Children parent [] \<Rightarrow>
          let (d, ret) = up parent d
          in if ret \<noteq> 0 \<or> parent = origin then Some (d, ret)
             else (case tg_parent parent of
                 None \<Rightarrow> Some (d, ret)
               | Some up_parent \<Rightarrow>
                   walk_loop children origin down up
                     (Children up_parent (siblings_after parent (children up_parent))) d))"

definition walk_tg_tree_from ::
  "(tg_ptr \<Rightarrow> tg_ptr list) \<Rightarrow> tg_ptr \<Rightarrow> 'd tg_visitor \<Rightarrow> 'd tg_visitor \<Rightarrow> 'd \<Rightarrow> ('d \<times> int) option" where
  "walk_tg_tree_from children origin down up d = walk_loop children origin down up (Down origin) d"

definition walk_tg_tree ::
  "(tg_ptr \<Rightarrow> tg_ptr list) \<Rightarrow> 'd tg_visitor \<Rightarrow> 'd tg_visitor \<Rightarrow> 'd \<Rightarrow> ('d \<times> int) option" where
  "walk_tg_tree children down up d = walk_tg_tree_from children [] down up d"

definition tg_nop :: "'d tg_visitor" where
  "tg_nop g d = (d, 0)"

section \<open>The tour of a tree\<close>

text \<open>
  The reference: entering a group, touring its children in order, leaving the group. The number
  is a bound on the height of the tree, \<open>below n children g\<close> says that it is one.
\<close>

datatype visit = Enter tg_ptr | Leave tg_ptr

primrec tour :: "nat \<Rightarrow> (tg_ptr \<Rightarrow> tg_ptr list) \<Rightarrow> tg_ptr \<Rightarrow> visit list" where
  "tour 0 children g = [Enter g, Leave g]"
| "tour (Suc n) children g = Enter g # concat (map (tour n children) (children g)) @ [Leave g]"

primrec below :: "nat \<Rightarrow> (tg_ptr \<Rightarrow> tg_ptr list) \<Rightarrow> tg_ptr \<Rightarrow> bool" where
  "below 0 children g = (children g = [])"
| "below (Suc n) children g =
     (distinct (children g) \<and> (\<forall>c\<in>set (children g). tg_parent c = Some g \<and> below n children c))"

text \<open>The visits of a tour up to the first that returns something other than 0.\<close>

primrec run_visits :: "'d tg_visitor \<Rightarrow> 'd tg_visitor \<Rightarrow> visit list \<Rightarrow> 'd \<Rightarrow> 'd \<times> int" where
  "run_visits down up [] d = (d, 0)"
| "run_visits down up (v # vs) d =
     (let (d, ret) = (case v of Enter g \<Rightarrow> down g d | Leave g \<Rightarrow> up g d)
      in if ret \<noteq> 0 then (d, ret) else run_visits down up vs d)"

lemma run_visits_append:
  "run_visits down up (us @ vs) d =
     (let (d, ret) = run_visits down up us d
      in if ret \<noteq> 0 then (d, ret) else run_visits down up vs d)"
  by (induction us arbitrary: d) (auto simp: Let_def split: prod.splits)

lemma siblings_after_split:
  "c \<notin> set xs \<Longrightarrow> siblings_after c (xs @ c # ys) = ys"
  by (induction xs) (auto simp: siblings_after_def)

lemma walk_loop_down: "walk_loop children origin down up (Down g) d =
    (let (d, ret) = down g d
     in if ret \<noteq> 0 then Some (d, ret)
        else walk_loop children origin down up (Children g (children g)) d)"
  by (subst walk_loop.simps) simp

lemma walk_loop_child: "walk_loop children origin down up (Children g (c # cs)) d =
    walk_loop children origin down up (Down c) d"
  by (subst walk_loop.simps) simp

lemma walk_loop_up: "walk_loop children origin down up (Children g []) d =
    (let (d, ret) = up g d
     in if ret \<noteq> 0 \<or> g = origin then Some (d, ret)
        else (case tg_parent g of
            None \<Rightarrow> Some (d, ret)
          | Some p \<Rightarrow> walk_loop children origin down up (Children p (siblings_after g (children p))) d))"
  by (subst walk_loop.simps) simp

lemmas walk_loop_rules = walk_loop_down walk_loop_child walk_loop_up

text \<open>What the walk does after a part of the tour: it stops at an error or at its start, and
  else goes on with the siblings.\<close>

definition after_visits :: "(tg_ptr \<Rightarrow> tg_ptr list) \<Rightarrow> tg_ptr \<Rightarrow> 'd tg_visitor \<Rightarrow> 'd tg_visitor \<Rightarrow>
    tg_ptr \<Rightarrow> 'd \<times> int \<Rightarrow> ('d \<times> int) option" where
  "after_visits children origin down up g r =
     (if snd r \<noteq> 0 \<or> g = origin then Some r
      else (case tg_parent g of
          None \<Rightarrow> Some r
        | Some p \<Rightarrow>
            walk_loop children origin down up (Children p (siblings_after g (children p))) (fst r)))"

lemma walk_loop_leave: "walk_loop children origin down up (Children g []) d =
    after_visits children origin down up g (run_visits down up [Leave g] d)"
  unfolding walk_loop_up by (auto simp: after_visits_def Let_def split: prod.splits option.splits)

text \<open>The children of \<open>g\<close> that are left, given that the walk of each is its tour.\<close>

lemma walk_children:
  assumes step: "\<And>c d. c \<in> set cs \<Longrightarrow> walk_loop children origin down up (Down c) d =
      after_visits children origin down up c (run_visits down up (t c) d)"
    and g: "children g = xs @ cs" "distinct (children g)"
      "\<forall>c\<in>set cs. tg_parent c = Some g \<and> c \<noteq> origin"
  shows "walk_loop children origin down up (Children g cs) d =
    after_visits children origin down up g
      (run_visits down up (concat (map t cs) @ [Leave g]) d)"
  using assms
proof (induction cs arbitrary: xs d)
  case Nil
  show ?case using walk_loop_leave [of children origin down up g d] by simp
next
  case (Cons c cs)
  obtain d' ret where r: "run_visits down up (t c) d = (d', ret)" by fastforce
  have c: "tg_parent c = Some g" "c \<noteq> origin" "siblings_after c (children g) = cs"
    using Cons.prems by (auto simp: siblings_after_split)
  have "walk_loop children origin down up (Children g (c # cs)) d =
      after_visits children origin down up c (d', ret)"
    using Cons.prems(1) [of c d] by (simp add: walk_loop_child r)
  also have "\<dots> = (if ret \<noteq> 0 then Some (d', ret)
      else walk_loop children origin down up (Children g cs) d')"
    using c by (simp add: after_visits_def)
  also have "walk_loop children origin down up (Children g cs) d' =
      after_visits children origin down up g
        (run_visits down up (concat (map t cs) @ [Leave g]) d')"
    using Cons.prems by (intro Cons.IH [of "xs @ [c]"]) auto
  finally have "walk_loop children origin down up (Children g (c # cs)) d =
      after_visits children origin down up g
        (run_visits down up (t c @ concat (map t cs) @ [Leave g]) d)"
    by (simp add: run_visits_append [of _ _ "t c"] r after_visits_def del: append_assoc)
  then show ?case by simp
qed

lemma child_longer: "tg_parent c = Some g \<Longrightarrow> length c = Suc (length g)"
  by (auto simp: tg_parent_def split: list.splits)

lemma walk_is_tour:
  assumes "below n children g" and "length origin \<le> length g"
  shows "walk_loop children origin down up (Down g) d =
    after_visits children origin down up g (run_visits down up (tour n children g) d)"
  using assms
proof (induction n arbitrary: g d)
  case 0
  then show ?case
    by (cases "tg_parent g")
      (auto simp: walk_loop_down walk_loop_leave after_visits_def Let_def split: prod.splits)
next
  case (Suc n)
  have longer: "length origin < length c" if "c \<in> set (children g)" for c
    using Suc.prems that child_longer [of c g] by auto
  have "walk_loop children origin down up (Children g (children g)) d' =
      after_visits children origin down up g
        (run_visits down up (concat (map (tour n children) (children g)) @ [Leave g]) d')" for d'
  proof (rule walk_children [where xs = "[]"])
    show "walk_loop children origin down up (Down c) d =
        after_visits children origin down up c (run_visits down up (tour n children c) d)"
      if "c \<in> set (children g)" for c d
      using Suc.prems(1) longer [OF that] that by (intro Suc.IH) auto
  qed (use Suc.prems longer in auto)
  then show ?case
    by (auto simp: walk_loop_down after_visits_def Let_def split: prod.splits)
qed

text \<open>The groups a tour visits.\<close>

inductive_set subtree :: "(tg_ptr \<Rightarrow> tg_ptr list) \<Rightarrow> tg_ptr \<Rightarrow> tg_ptr set"
  for children :: "tg_ptr \<Rightarrow> tg_ptr list" and g :: tg_ptr where
  here: "g \<in> subtree children g"
| down: "h \<in> subtree children g \<Longrightarrow> c \<in> set (children h) \<Longrightarrow> c \<in> subtree children g"

lemma subtree_trans:
  "k \<in> subtree children h \<Longrightarrow> h \<in> subtree children g \<Longrightarrow> k \<in> subtree children g"
  by (induction rule: subtree.induct) (auto intro: subtree.intros)

lemma subtree_cases_down:
  "h \<in> subtree children g \<Longrightarrow> h = g \<or> (\<exists>c\<in>set (children g). h \<in> subtree children c)"
  by (induction rule: subtree.induct) (auto intro: subtree.intros)

lemma tour_visits: "below n children g \<Longrightarrow>
    set (tour n children g) = Enter ` subtree children g \<union> Leave ` subtree children g"
proof (induction n arbitrary: g)
  case 0
  have "subtree children g = {g}"
    using 0 by (auto elim: subtree.induct intro: subtree.here)
  then show ?case by auto
next
  case (Suc n)
  have "subtree children g = insert g (\<Union>c\<in>set (children g). subtree children c)"
    using subtree_cases_down [of _ children g] subtree.here [of g children]
    by (auto dest: subtree.down [OF subtree.here] intro: subtree_trans)
  with Suc show ?case by auto
qed

text \<open>Groups below one another are paths that extend one another.\<close>

lemma subtree_suffix: "below n children g \<Longrightarrow> h \<in> subtree children g \<Longrightarrow> suffix g h"
proof (induction n arbitrary: g)
  case 0
  have "subtree children g = {g}"
    using 0 by (auto elim: subtree.induct intro: subtree.here)
  then show ?case using 0 by simp
next
  case (Suc n)
  from subtree_cases_down [OF Suc.prems(2)] show ?case
  proof
    assume "\<exists>c\<in>set (children g). h \<in> subtree children c"
    then obtain c where c: "c \<in> set (children g)" "h \<in> subtree children c" by blast
    then have "suffix c h" "tg_parent c = Some g" using Suc by auto
    then show ?thesis by (auto simp: tg_parent_def suffix_def split: list.splits)
  qed simp
qed

lemma sibling_suffix: "tg_parent c = Some g \<Longrightarrow> tg_parent c' = Some g \<Longrightarrow>
    suffix c h \<Longrightarrow> suffix c' h \<Longrightarrow> c = c'"
  by (auto simp: tg_parent_def split: list.splits
      dest!: suffix_same_cases elim!: suffixE)

text \<open>The tour visits nothing twice, and a child within its parent.\<close>

lemma tour_distinct: "below n children g \<Longrightarrow> distinct (tour n children g)"
proof (induction n arbitrary: g)
  case 0
  then show ?case by simp
next
  case (Suc n)
  let ?cs = "children g"
  have p: "tg_parent c = Some g" "below n children c" if "c \<in> set ?cs" for c
    using Suc.prems that by auto
  have longer: "g \<notin> subtree children c" if "c \<in> set ?cs" for c
    using subtree_suffix [OF p(2) [OF that], of g]
    child_longer [OF p(1) [OF that]] suffix_length_le [of c g] by auto
  have "distinct (concat (map (tour n children) cs))" if "set cs \<subseteq> set ?cs" "distinct cs" for cs
    using that
  proof (induction cs)
    case (Cons c cs)
    have "set (tour n children c) \<inter> set (tour n children c') = {}" if "c' \<in> set cs" for c'
    proof -
      have "c \<noteq> c'" "c \<in> set ?cs" "c' \<in> set ?cs" using Cons.prems that by auto
      then have "subtree children c \<inter> subtree children c' = {}"
        using sibling_suffix [OF p(1) p(1)] subtree_suffix [OF p(2)] by (metis disjoint_iff)
      then show ?thesis
        using tour_visits [OF p(2)] \<open>c \<in> set ?cs\<close> \<open>c' \<in> set ?cs\<close> by auto
    qed
    then show ?case using Cons Suc.IH p(2) by auto
  qed simp
  then show ?case
    using Suc.prems tour_visits [OF p(2)] longer by (auto simp: image_iff)
qed

lemma tour_nested: "below n children g \<Longrightarrow> h \<in> subtree children g \<Longrightarrow> c \<in> set (children h) \<Longrightarrow>
    subseq [Enter h, Enter c, Leave c, Leave h] (tour n children g)"
proof (induction n arbitrary: g)
  case 0
  have "subtree children g = {g}"
    using 0 by (auto elim: subtree.induct intro: subtree.here)
  then show ?case using 0 by simp
next
  case (Suc n)
  have inner: "subseq (tour n children k) (concat (map (tour n children) (children g)))"
    if "k \<in> set (children g)" for k
  proof -
    from that obtain xs ys where "children g = xs @ k # ys" by (metis split_list)
    then show ?thesis by (simp add: list_emb_append2 list_emb_prefix)
  qed
  from subtree_cases_down [OF Suc.prems(2)] show ?case
  proof
    assume hg: "h = g"
    have "subseq [Enter c, Leave c] (tour n children c)" by (cases n) (auto intro: list_emb_append2)
    then have "subseq [Enter c, Leave c] (concat (map (tour n children) (children g)))"
      using inner [of c] Suc.prems(3) hg by (metis subseq_order.order_trans)
    then have "subseq ([Enter c, Leave c] @ [Leave g])
        (concat (map (tour n children) (children g)) @ [Leave g])"
      by (rule list_emb_append_mono) simp
    then show ?thesis using hg by simp
  next
    assume "\<exists>k\<in>set (children g). h \<in> subtree children k"
    then obtain k where k: "k \<in> set (children g)" "h \<in> subtree children k" by blast
    then have "subseq [Enter h, Enter c, Leave c, Leave h] (tour n children k)"
      using Suc by auto
    then have "subseq [Enter h, Enter c, Leave c, Leave h]
        (concat (map (tour n children) (children g)))"
      using inner [OF k(1)] by (rule subseq_order.order_trans)
    then show ?thesis
      using subseq_rev_drop_many [of _ _ "[Leave g]"] by (simp only: tour.simps) (intro list_emb_Cons)
  qed
qed

text \<open>A walk with a visitor that only looks reports the first complaint of the tour.\<close>

lemma run_visits_looks:
  assumes "\<And>g. down g d = (d, f g)"
  shows "fst (run_visits down tg_nop vs d) = d"
    and "snd (run_visits down tg_nop vs d) = 0 \<longleftrightarrow> (\<forall>g. Enter g \<in> set vs \<longrightarrow> f g = 0)"
  by (induction vs) (use assms in \<open>auto simp: tg_nop_def Let_def split: visit.splits\<close>)

text \<open>C16: walk_tg_tree_from, a loop of jumps over the links of the groups, ends on every finite
  tree, and its effect and result are those of the tour of the tree: the visitors run on exactly
  the groups of the tree, each entered once and left once, a child entered after its parent is
  and left before its parent is, up to the first visitor that returns something other than 0,
  whose value is returned.\<close>

theorem walk_visits_tree:
  assumes "below n children origin"
  shows "walk_tg_tree_from children origin down up d =
      Some (run_visits down up (tour n children origin) d) \<and>
    distinct (tour n children origin) \<and>
    set (tour n children origin) = Enter ` subtree children origin \<union> Leave ` subtree children origin \<and>
    (\<forall>h c. h \<in> subtree children origin \<and> c \<in> set (children h) \<longrightarrow>
      subseq [Enter h, Enter c, Leave c, Leave h] (tour n children origin))"
  using walk_is_tour [OF assms order_refl, of down up d]
    tour_distinct [OF assms] tour_visits [OF assms] tour_nested [OF assms]
  by (simp add: walk_tg_tree_from_def after_visits_def)

text \<open>A tree of three groups, walked by a visitor that lists the groups it enters.\<close>

theorem walk_visits_tree_witness:
  "let children = (\<lambda>g. if g = [] then [[2], [1]] else []);
       enter = (\<lambda>g d. (d @ [g], 0))
   in below 1 children [] \<and> walk_tg_tree_from children [] enter tg_nop [] = Some ([[], [2], [1]], 0)"
proof -
  let ?c = "\<lambda>g :: tg_ptr. if g = [] then [[2], [1]] else []"
  have "below 1 ?c []" by (simp add: tg_parent_def)
  from walk_visits_tree [OF this, of "\<lambda>g d. (d @ [g], 0)" tg_nop "[]"] this
  show ?thesis by (simp add: tg_nop_def)
qed

end
