(* ===== verification/Rt_Admission.thy ===== *)
theory Rt_Admission
  imports Task_Groups Sample
begin

text \<open>
  The admission of real-time bandwidth: which run times and periods the groups and the system may
  be given. Every accepted setting passes \<open>tg_rt_schedulable\<close> on all groups; here this is shown to
  be an invariant that no sequence of settings, creations and removals of groups breaks, and that
  bounds the share of the processor that any disjoint groups hold together.
\<close>

section \<open>Operations\<close>

definition EBUSY :: int where "EBUSY = 16"
definition ENOMEM :: int where "ENOMEM = 12"

text \<open>
  Code outside the repository: the list of all threads, the fair class's part of a group (its
  shares, if the allocation succeeds) and its removal.
\<close>

record 'x genv =
  ge_threads :: "'x \<Rightarrow> task_ptr list"
  ge_alloc_fair :: "tg_ptr \<Rightarrow> 'x \<Rightarrow> 'x \<times> ulong option"
  ge_unregister_fair :: "tg_ptr \<Rightarrow> 'x \<Rightarrow> 'x"
  ge_free_fair :: "tg_ptr \<Rightarrow> 'x \<Rightarrow> 'x"

abbreviation upd_g_sys :: "('x sys \<Rightarrow> 'x sys) \<Rightarrow> 'x gsys \<Rightarrow> 'x gsys" where
  "upd_g_sys f S \<equiv> S\<lparr>g_sys := f (g_sys S)\<rparr>"

definition global_rt_period :: "'x sys \<Rightarrow> u64" where
  "global_rt_period s = ucast (sysctl_rt_period s) * of_nat NSEC_PER_USEC"

definition global_rt_runtime :: "'x sys \<Rightarrow> u64" where
  "global_rt_runtime s =
     (if sysctl_rt_runtime s < 0 then RUNTIME_INF
      else of_int (sysctl_rt_runtime s) * of_nat NSEC_PER_USEC)"

text \<open>\<open>to_ratio\<close> returns an unsigned long.\<close>

definition to_ratio :: "u64 \<Rightarrow> u64 \<Rightarrow> ulong" where
  "to_ratio period runtime =
     (if runtime = RUNTIME_INF then push_bit 20 1 else ucast (push_bit 20 runtime div period))"

text \<open>\<open>task_rq(p)->rt\<close> is the queue of the run queue itself, whose group is the root.\<close>

definition tg_has_rt_tasks :: "'x genv \<Rightarrow> 'x sys \<Rightarrow> tg_ptr \<Rightarrow> bool" where
  "tg_has_rt_tasks G s g =
     list_ex (\<lambda>p. rt_task (tasks s p) \<and> [] = g) (ge_threads G (ext s))"

record rt_schedulable_data =
  rsd_tg :: "tg_ptr option"
  rsd_rt_period :: u64
  rsd_rt_runtime :: u64

text \<open>The bandwidth of a group, or the one asked for.\<close>

definition planned_rt_bandwidth :: "rt_schedulable_data \<Rightarrow> 'x sys \<Rightarrow> tg_ptr \<Rightarrow> u64 \<times> u64" where
  "planned_rt_bandwidth d s g =
     (let period = rtb_period (tg_rt_bandwidth (tgs s g));
          runtime = rtb_runtime (tg_rt_bandwidth (tgs s g))
      in if Some g = rsd_tg d then (rsd_rt_period d, rsd_rt_runtime d) else (period, runtime))"

definition tg_rt_schedulable :: "'x genv \<Rightarrow> 'x gsys \<Rightarrow> rt_schedulable_data tg_visitor" where
  "tg_rt_schedulable G S g d =
     (let s = g_sys S;
          (period, runtime) = planned_rt_bandwidth d s g
      in if runtime > period \<and> runtime \<noteq> RUNTIME_INF then (d, - EINVAL)
         else if rt_bandwidth_enabled s \<and> runtime = 0 \<and> tg_has_rt_tasks G s g then (d, - EBUSY)
         else
           let total = to_ratio period runtime
           in if total > to_ratio (global_rt_period s) (global_rt_runtime s) then (d, - EINVAL)
              else
                let sum = fold (\<lambda>child sum.
                      let (period, runtime) = planned_rt_bandwidth d s child
                      in sum + to_ratio period runtime) (g_children S g) 0
                in if sum > total then (d, - EINVAL) else (d, 0))"

text \<open>None is a walk that does not end.\<close>

definition rt_schedulable' ::
  "'x genv \<Rightarrow> tg_ptr option \<Rightarrow> u64 \<Rightarrow> u64 \<Rightarrow> 'x gsys \<Rightarrow> int option" where
  "rt_schedulable' G tg period runtime S =
     (case walk_tg_tree (g_children S) (tg_rt_schedulable G S) tg_nop
             \<lparr>rsd_tg = tg, rsd_rt_period = period, rsd_rt_runtime = runtime\<rparr> of
        None \<Rightarrow> None
      | Some (_, ret) \<Rightarrow> Some ret)"

definition tg_set_rt_bandwidth ::
  "'x genv \<Rightarrow> tg_ptr \<Rightarrow> u64 \<Rightarrow> u64 \<Rightarrow> 'x gsys \<Rightarrow> ('x gsys \<times> int) option" where
  "tg_set_rt_bandwidth G g rt_period rt_runtime S =
     (case rt_schedulable' G (Some g) rt_period rt_runtime S of
        None \<Rightarrow> None
      | Some err \<Rightarrow>
          if err \<noteq> 0 then Some (S, err)
          else Some (upd_g_sys (\<lambda>s.
            upd_rt_rq g (rtq_runtime_update (\<lambda>_. rt_runtime))
              (s\<lparr>tgs := (tgs s)(g := (tgs s g)\<lparr>tg_rt_bandwidth :=
                 \<lparr>rtb_period = rt_period, rtb_runtime = rt_runtime\<rparr>\<rparr>)\<rparr>)) S, 0))"

text \<open>The argument is a long; \<open>(u64) rt_runtime_us\<close> extends the sign.\<close>

definition sched_group_set_rt_runtime ::
  "'x genv \<Rightarrow> tg_ptr \<Rightarrow> ulong \<Rightarrow> 'x gsys \<Rightarrow> ('x gsys \<times> int) option" where
  "sched_group_set_rt_runtime G g rt_runtime_us S =
     (let rt_period = rtb_period (tg_rt_bandwidth (tgs (g_sys S) g));
          rt_runtime = scast rt_runtime_us * of_nat NSEC_PER_USEC;
          rt_runtime = (if sint rt_runtime_us < 0 then RUNTIME_INF else rt_runtime)
      in tg_set_rt_bandwidth G g rt_period rt_runtime S)"

definition sched_group_rt_runtime :: "tg_ptr \<Rightarrow> 'x gsys \<Rightarrow> ulong" where
  "sched_group_rt_runtime g S =
     (let runtime = rtb_runtime (tg_rt_bandwidth (tgs (g_sys S) g))
      in if runtime = RUNTIME_INF then - 1 else ucast (runtime div of_nat NSEC_PER_USEC))"

definition sched_group_set_rt_period ::
  "'x genv \<Rightarrow> tg_ptr \<Rightarrow> ulong \<Rightarrow> 'x gsys \<Rightarrow> ('x gsys \<times> int) option" where
  "sched_group_set_rt_period G g rt_period_us S =
     (let rt_period = scast rt_period_us * of_nat NSEC_PER_USEC;
          rt_runtime = rtb_runtime (tg_rt_bandwidth (tgs (g_sys S) g))
      in if rt_period = 0 then Some (S, - EINVAL)
         else tg_set_rt_bandwidth G g rt_period rt_runtime S)"

definition sched_group_rt_period :: "tg_ptr \<Rightarrow> 'x gsys \<Rightarrow> ulong" where
  "sched_group_rt_period g S =
     ucast (rtb_period (tg_rt_bandwidth (tgs (g_sys S) g)) div of_nat NSEC_PER_USEC)"

text \<open>The files of a control group pass 64-bit values to these functions.\<close>

definition cpu_rt_runtime_write :: "'x genv \<Rightarrow> tg_ptr \<Rightarrow> u64 \<Rightarrow> 'x gsys \<Rightarrow> ('x gsys \<times> int) option" where
  "cpu_rt_runtime_write G cgrp val S = sched_group_set_rt_runtime G cgrp (ucast val) S"

definition cpu_rt_runtime_read :: "tg_ptr \<Rightarrow> 'x gsys \<Rightarrow> u64" where
  "cpu_rt_runtime_read cgrp S = scast (sched_group_rt_runtime cgrp S)"

definition cpu_rt_period_write_uint :: "'x genv \<Rightarrow> tg_ptr \<Rightarrow> u64 \<Rightarrow> 'x gsys \<Rightarrow> ('x gsys \<times> int) option" where
  "cpu_rt_period_write_uint G cgrp rt_period_us S =
     sched_group_set_rt_period G cgrp (ucast rt_period_us) S"

definition cpu_rt_period_read_uint :: "tg_ptr \<Rightarrow> 'x gsys \<Rightarrow> u64" where
  "cpu_rt_period_read_uint cgrp S = scast (sched_group_rt_period cgrp S)"

definition sched_rt_global_constraints :: "'x genv \<Rightarrow> 'x gsys \<Rightarrow> int option" where
  "sched_rt_global_constraints G S =
     (if sysctl_rt_period (g_sys S) \<le> 0 then Some (- EINVAL)
      else
        let runtime = global_rt_runtime (g_sys S);
            period = global_rt_period (g_sys S)
        in if runtime > period \<and> runtime \<noteq> RUNTIME_INF then Some (- EINVAL)
           else rt_schedulable' G None 0 0 S)"

text \<open>
  \<open>sched_rt_handler\<close>; \<open>proc\<close> is \<open>proc_dointvec\<close> on the table's variable: it gets the two
  variables and returns them and an int.
\<close>

definition sched_rt_handler ::
  "'x genv \<Rightarrow> (u32 \<Rightarrow> int \<Rightarrow> u32 \<times> int \<times> int) \<Rightarrow> bool \<Rightarrow> 'x gsys \<Rightarrow> ('x gsys \<times> int) option" where
  "sched_rt_handler G proc write S =
     (let old_period = sysctl_rt_period (g_sys S);
          old_runtime = sysctl_rt_runtime (g_sys S);
          (period, runtime, ret) = proc old_period old_runtime;
          S = upd_g_sys (\<lambda>s. s\<lparr>sysctl_rt_period := period, sysctl_rt_runtime := runtime\<rparr>) S
      in if ret = 0 \<and> write then
           (case sched_rt_global_constraints G S of
              None \<Rightarrow> None
            | Some ret \<Rightarrow>
                if ret \<noteq> 0 then
                  Some (upd_g_sys (\<lambda>s. s\<lparr>sysctl_rt_period := old_period,
                    sysctl_rt_runtime := old_runtime\<rparr>) S, ret)
                else
                  Some (S\<lparr>g_def := \<lparr>rtb_period = global_rt_period (g_sys S),
                    rtb_runtime = global_rt_runtime (g_sys S)\<rparr>\<rparr>, ret))
         else Some (S, ret))"

section \<open>Creating and destroying groups\<close>

text \<open>\<open>alloc_wrr_sched_group\<close> and \<open>free_wrr_sched_group\<close>: the class has no groups.\<close>

definition alloc_wrr_sched_group :: "tg_ptr \<Rightarrow> tg_ptr \<Rightarrow> int" where
  "alloc_wrr_sched_group tg parent = 1"

definition zero_task_group :: task_group where
  "zero_task_group = \<lparr>tg_rt_bandwidth = \<lparr>rtb_period = 0, rtb_runtime = 0\<rparr>, tg_shares = 0\<rparr>"

definition free_sched_group :: "'x genv \<Rightarrow> tg_ptr \<Rightarrow> 'x gsys \<Rightarrow> 'x gsys" where
  "free_sched_group G g = upd_g_sys (\<lambda>s. s\<lparr>ext := ge_free_fair G g (ext s)\<rparr>)"

text \<open>
  \<open>sched_create_group\<close> for the new group \<open>n # parent\<close>; \<open>mem\<close> says which of the five allocations
  made here and in \<open>alloc_rt_sched_group\<close> succeed. The result is the group or \<open>- ENOMEM\<close>.
\<close>

definition sched_create_group :: "'x env \<Rightarrow> 'x genv \<Rightarrow> bool list \<Rightarrow> nat \<Rightarrow> tg_ptr \<Rightarrow> 'x gsys \<Rightarrow>
    'x gsys \<times> (int + tg_ptr)" where
  "sched_create_group E G mem n parent S =
     (let g = n # parent
      in if \<not> mem ! 0 then (S, Inl (- ENOMEM))
      else
        let S = upd_g_sys (\<lambda>s. s\<lparr>tgs := (tgs s)(g := zero_task_group)\<rparr>) S;
            (x, shares) = ge_alloc_fair G g (ext (g_sys S));
            S = upd_g_sys (\<lambda>s. s\<lparr>ext := x\<rparr>) S
        in case shares of
             None \<Rightarrow> (free_sched_group G g S, Inl (- ENOMEM))
           | Some w \<Rightarrow>
               let S = upd_g_sys (\<lambda>s. s\<lparr>tgs := (tgs s)(g := (tgs s g)\<lparr>tg_shares := w\<rparr>)\<rparr>) S;
                   (s, ok) = alloc_rt_sched_group E (mem ! 1) (mem ! 2) (mem ! 3) (mem ! 4)
                     (rtb_period (g_def S)) g (g_sys S);
                   S = S\<lparr>g_sys := s\<rparr>
               in if ok = 0 then (free_sched_group G g S, Inl (- ENOMEM))
                  else if alloc_wrr_sched_group g parent = 0
                  then (free_sched_group G g S, Inl (- ENOMEM))
                  else
                    let S = S\<lparr>g_list := g # g_list S\<rparr>;
                        S = S\<lparr>g_children := (g_children S)(g := [])\<rparr>
                    in (S\<lparr>g_children := (g_children S)(parent := g # g_children S parent)\<rparr>, Inr g))"

text \<open>The memory of the group is freed after a grace period.\<close>

definition sched_destroy_group :: "'x genv \<Rightarrow> tg_ptr \<Rightarrow> 'x gsys \<Rightarrow> 'x gsys" where
  "sched_destroy_group G g S =
     (let S = upd_g_sys (\<lambda>s. s\<lparr>ext := ge_unregister_fair G g (ext s)\<rparr>) S;
          S = S\<lparr>g_list := remove1 g (g_list S)\<rparr>;
          S = (case g of
                 [] \<Rightarrow> S
               | _ # parent \<Rightarrow>
                   S\<lparr>g_children := (g_children S)(parent := remove1 g (g_children S parent))\<rparr>)
      in free_sched_group G g S)"

definition cpu_cgroup_create :: "'x env \<Rightarrow> 'x genv \<Rightarrow> bool list \<Rightarrow> tg_ptr \<Rightarrow> 'x gsys \<Rightarrow>
    'x gsys \<times> (int + tg_ptr)" where
  "cpu_cgroup_create E G mem cgrp S =
     (case cgrp of
        [] \<Rightarrow> (S, Inr [])
      | n # parent \<Rightarrow>
          (case sched_create_group E G mem n parent S of
             (S, Inl _) \<Rightarrow> (S, Inl (- ENOMEM))
           | (S, Inr g) \<Rightarrow> (S, Inr g)))"

definition cpu_cgroup_destroy :: "'x genv \<Rightarrow> tg_ptr \<Rightarrow> 'x gsys \<Rightarrow> 'x gsys" where
  "cpu_cgroup_destroy G cgrp S = sched_destroy_group G cgrp S"

section \<open>The tree of the groups\<close>

text \<open>The list of all groups contains the root, is closed under parents, and its groups are the
  children of their parents.\<close>

definition groups_ok :: "'x gsys \<Rightarrow> bool" where
  "groups_ok S \<longleftrightarrow> distinct (g_list S) \<and> [] \<in> set (g_list S) \<and>
     (\<forall>c up. c # up \<in> set (g_list S) \<longrightarrow> up \<in> set (g_list S)) \<and>
     (\<forall>g\<in>set (g_list S). distinct (g_children S g) \<and>
        set (g_children S g) = {c \<in> set (g_list S). tg_parent c = Some g})"

lemma groups_okD:
  assumes "groups_ok S"
  shows "distinct (g_list S)" "[] \<in> set (g_list S)"
    "i # up \<in> set (g_list S) \<Longrightarrow> up \<in> set (g_list S)"
    "g \<in> set (g_list S) \<Longrightarrow> distinct (g_children S g)"
    "g \<in> set (g_list S) \<Longrightarrow> c \<in> set (g_children S g) \<longleftrightarrow> c \<in> set (g_list S) \<and> tg_parent c = Some g"
  using assms unfolding groups_ok_def by auto

lemma groups_below:
  assumes "groups_ok S"
  shows "g \<in> set (g_list S) \<Longrightarrow> \<forall>h\<in>set (g_list S). length h \<le> length g + n \<Longrightarrow>
    below n (g_children S) g"
proof (induction n arbitrary: g)
  case 0
  have "c \<notin> set (g_children S g)" for c
    using groups_okD(5) [OF assms 0(1), of c] 0(2) child_longer [of c g] by force
  then show ?case by (cases "g_children S g") auto
next
  case (Suc n)
  have "tg_parent c = Some g \<and> below n (g_children S) c" if "c \<in> set (g_children S g)" for c
    using that groups_okD(5) [OF assms Suc.prems(1), of c] Suc child_longer [of c g] by auto
  then show ?case using groups_okD(4) [OF assms Suc.prems(1)] by auto
qed

lemma groups_height:
  assumes "groups_ok S" and "g \<in> set (g_list S)"
  obtains n where "below n (g_children S) g"
proof -
  have "\<forall>h\<in>set (g_list S). length h \<le> length g + Max (length ` set (g_list S))"
    by (simp add: trans_le_add2)
  then show ?thesis using that groups_below [OF assms] by blast
qed

lemma groups_closed:
  assumes "groups_ok S" and "g \<in> set (g_list S)"
  shows "h \<in> subtree (g_children S) g \<Longrightarrow> h \<in> set (g_list S)"
  by (induction rule: subtree.induct) (auto simp: assms groups_okD [OF assms(1)])

lemma groups_subtree:
  assumes "groups_ok S"
  shows "subtree (g_children S) [] = set (g_list S)"
proof
  have "h \<in> set (g_list S)" if "h \<in> subtree (g_children S) []" for h
    using that by induction (auto simp: groups_okD [OF assms])
  then show "subtree (g_children S) [] \<subseteq> set (g_list S)" by blast
  have "g \<in> set (g_list S) \<Longrightarrow> g \<in> subtree (g_children S) []" for g
  proof (induction g)
    case Nil
    show ?case by (rule subtree.here)
  next
    case (Cons c g)
    then have g: "g \<in> set (g_list S)" using groups_okD(3) [OF assms] by blast
    then have "c # g \<in> set (g_children S g)"
      using Cons.prems groups_okD(5) [OF assms g] by (simp add: tg_parent_def)
    then show ?case using Cons.IH [OF g] by (rule subtree.down [rotated])
  qed
  then show "set (g_list S) \<subseteq> subtree (g_children S) []" by blast
qed

lemma tg_parent_irrefl: "tg_parent g \<noteq> Some g"
  by (auto simp: tg_parent_def split: list.splits)

text \<open>The walk of the admission test ends, and accepts when every group passes.\<close>

definition passes :: "'x genv \<Rightarrow> 'x gsys \<Rightarrow> rt_schedulable_data \<Rightarrow> tg_ptr \<Rightarrow> bool" where
  "passes G S d g = (snd (tg_rt_schedulable G S g d) = 0)"

lemma tg_rt_schedulable_result:
  "tg_rt_schedulable G S g d = (d, snd (tg_rt_schedulable G S g d))"
  "snd (tg_rt_schedulable G S g d) \<in> {0, - EINVAL, - EBUSY}"
  by (auto simp: tg_rt_schedulable_def Let_def split: prod.splits)

lemma run_schedulable_errors:
  "snd (run_visits (tg_rt_schedulable G S) tg_nop vs d) \<in> {0, - EINVAL, - EBUSY}"
proof (induction vs)
  case (Cons v vs)
  show ?case
  proof (cases v)
    case (Enter g)
    obtain r where "tg_rt_schedulable G S g d = (d, r)" "r \<in> {0, - EINVAL, - EBUSY}"
      using tg_rt_schedulable_result [of G S g d] by metis
    then show ?thesis using Cons Enter by auto
  next
    case (Leave g)
    then show ?thesis using Cons by (simp add: tg_nop_def)
  qed
qed simp

lemma rt_schedulable_returns:
  assumes "groups_ok S"
  obtains ret where "rt_schedulable' G tg period runtime S = Some ret"
    "ret \<in> {0, - EINVAL, - EBUSY}"
    "ret = 0 \<longleftrightarrow> (\<forall>g\<in>set (g_list S).
       passes G S \<lparr>rsd_tg = tg, rsd_rt_period = period, rsd_rt_runtime = runtime\<rparr> g)"
proof -
  let ?d = "\<lparr>rsd_tg = tg, rsd_rt_period = period, rsd_rt_runtime = runtime\<rparr>"
  obtain n where n: "below n (g_children S) []"
    using groups_height [OF assms groups_okD(2) [OF assms]] by blast
  let ?vs = "tour n (g_children S) []"
  let ?r = "run_visits (tg_rt_schedulable G S) tg_nop ?vs ?d"
  have "walk_tg_tree (g_children S) (tg_rt_schedulable G S) tg_nop ?d = Some ?r"
    using walk_is_tour [OF n order_refl, of "tg_rt_schedulable G S" tg_nop ?d]
    by (simp add: walk_tg_tree_def walk_tg_tree_from_def after_visits_def)
  moreover have "snd ?r = 0 \<longleftrightarrow> (\<forall>g. Enter g \<in> set ?vs \<longrightarrow> passes G S ?d g)"
    unfolding passes_def using tg_rt_schedulable_result(1)
    by (rule run_visits_looks(2) [where f = "\<lambda>g. snd (tg_rt_schedulable G S g ?d)"])
  moreover have "Enter g \<in> set ?vs \<longleftrightarrow> g \<in> set (g_list S)" for g
    unfolding tour_visits [OF n] groups_subtree [OF assms] by auto
  ultimately have r: "rt_schedulable' G tg period runtime S = Some (snd ?r)"
      "snd ?r = 0 \<longleftrightarrow> (\<forall>g\<in>set (g_list S). passes G S ?d g)"
    by (simp_all add: rt_schedulable'_def split_beta Ball_def)
  show ?thesis by (rule that [OF r(1) run_schedulable_errors r(2)])
qed

section \<open>Shares of the processor\<close>

text \<open>The share of a group in units of 2^-20 of the processor.\<close>

definition rt_share :: "'x sys \<Rightarrow> tg_ptr \<Rightarrow> nat" where
  "rt_share s g = (let b = tg_rt_bandwidth (tgs s g) in unat (to_ratio (rtb_period b) (rtb_runtime b)))"

definition global_rt_share :: "'x sys \<Rightarrow> nat" where
  "global_rt_share s = unat (to_ratio (global_rt_period s) (global_rt_runtime s))"

text \<open>A run time that fits its period, with a shift by 20 that does not overflow.\<close>

definition rt_fits :: "u64 \<Rightarrow> u64 \<Rightarrow> bool" where
  "rt_fits period runtime \<longleftrightarrow> period \<noteq> 0 \<and> (runtime = RUNTIME_INF \<or> runtime \<le> period \<and> unat runtime < 2 ^ 44)"

lemma to_ratio_exact:
  assumes "rt_fits period runtime"
  shows "unat (to_ratio period runtime) =
    (if runtime = RUNTIME_INF then 2 ^ 20 else unat runtime * 2 ^ 20 div unat period)"
    and "unat (to_ratio period runtime) \<le> 2 ^ 20"
proof -
  have "unat (push_bit 20 runtime) = unat runtime * 2 ^ 20" if "unat runtime < 2 ^ 44"
    using that unat_mult_small [of runtime "2 ^ 20"] by (simp add: push_bit_eq_mult)
  moreover have le: "unat runtime * 2 ^ 20 div unat period \<le> 2 ^ 20"
    if "runtime \<le> period" "period \<noteq> 0"
    using that div_le_mono [of "unat runtime * 2 ^ 20" "unat period * 2 ^ 20" "unat period"]
    by (auto simp: word_le_nat_alt unat_gt_0)
  moreover have "unat (ucast w :: ulong) = unat w" if "unat w \<le> 2 ^ 20" for w :: u64
    using that by (simp add: unsigned_ucast_eq take_bit_nat_eq_self)
  moreover have "unat (push_bit 20 1 :: ulong) = 2 ^ 20" by (rule unat_push_bit_1) simp
  moreover have "unat (push_bit 20 runtime div period) = unat runtime * 2 ^ 20 div unat period"
    if "unat runtime < 2 ^ 44" using calculation(1) [OF that] by (simp add: unat_div)
  ultimately show "unat (to_ratio period runtime) =
    (if runtime = RUNTIME_INF then 2 ^ 20 else unat runtime * 2 ^ 20 div unat period)"
    using assms by (auto simp: to_ratio_def rt_fits_def)
  then show "unat (to_ratio period runtime) \<le> 2 ^ 20"
    using le assms by (auto simp: rt_fits_def)
qed

text \<open>The sum over the children, when it does not wrap.\<close>

lemma unat_fold_sum:
  fixes f :: "'a \<Rightarrow> 'b::len word"
  assumes "unat w + (\<Sum>c\<leftarrow>cs. unat (f c)) < 2 ^ LENGTH('b)"
  shows "unat (fold (\<lambda>c sum. sum + f c) cs w) = unat w + (\<Sum>c\<leftarrow>cs. unat (f c))"
  using assms
proof (induction cs arbitrary: w)
  case (Cons c cs)
  have "unat (w + f c) = unat w + unat (f c)" using Cons.prems by (intro unat_add_small) simp
  then show ?case using Cons by simp
qed simp

text \<open>
  The invariant: every run time fits its period and is the one of the run queue, no group has
  more than the system and the children of a group have no more than the group.
\<close>

definition group_admitted :: "'x gsys \<Rightarrow> tg_ptr \<Rightarrow> bool" where
  "group_admitted S g \<longleftrightarrow>
     (let s = g_sys S; b = tg_rt_bandwidth (tgs s g)
      in rt_fits (rtb_period b) (rtb_runtime b) \<and> rtq_runtime (rt_rqs s g) = rtb_runtime b \<and>
         rt_share s g \<le> global_rt_share s \<and>
         (\<Sum>c\<leftarrow>g_children S g. rt_share s c) \<le> rt_share s g)"

definition admitted :: "'x gsys \<Rightarrow> bool" where
  "admitted S \<longleftrightarrow>
     groups_ok S \<and> rtb_period (g_def S) \<noteq> 0 \<and> - (2 ^ 31) \<le> sysctl_rt_runtime (g_sys S) \<and>
     sysctl_rt_runtime (g_sys S) < 2 ^ 31 \<and>
     rt_fits (global_rt_period (g_sys S)) (global_rt_runtime (g_sys S)) \<and>
     (\<forall>g\<in>set (g_list S). group_admitted S g)"

lemma admittedD:
  assumes "admitted S"
  shows "groups_ok S" "rtb_period (g_def S) \<noteq> 0"
    "- (2 ^ 31) \<le> sysctl_rt_runtime (g_sys S)" "sysctl_rt_runtime (g_sys S) < 2 ^ 31"
    "rt_fits (global_rt_period (g_sys S)) (global_rt_runtime (g_sys S))"
    "g \<in> set (g_list S) \<Longrightarrow> group_admitted S g"
  using assms unfolding admitted_def by auto

lemma group_admittedD:
  assumes "group_admitted S g"
  shows "rt_fits (rtb_period (tg_rt_bandwidth (tgs (g_sys S) g))) (rtb_runtime (tg_rt_bandwidth (tgs (g_sys S) g)))"
    "rtq_runtime (rt_rqs (g_sys S) g) = rtb_runtime (tg_rt_bandwidth (tgs (g_sys S) g))"
    "rt_share (g_sys S) g \<le> global_rt_share (g_sys S)"
    "(\<Sum>c\<leftarrow>g_children S g. rt_share (g_sys S) c) \<le> rt_share (g_sys S) g"
    "rt_share (g_sys S) g \<le> 2 ^ 20"
  using assms to_ratio_exact(2) unfolding group_admitted_def Let_def rt_share_def by auto

lemma sum_over_cover:
  fixes f :: "'a \<Rightarrow> nat"
  assumes "finite C" and "finite A" and "A \<subseteq> (\<Union>c\<in>C. T c)"
  shows "(\<Sum>h\<in>A. f h) \<le> (\<Sum>c\<in>C. \<Sum>h\<in>A \<inter> T c. f h)"
  using assms
proof (induction C arbitrary: A rule: finite_induct)
  case (insert c C)
  have "(\<Sum>h\<in>A. f h) = (\<Sum>h\<in>A \<inter> T c. f h) + (\<Sum>h\<in>A - T c. f h)"
    using insert.prems by (intro sum.Int_Diff) auto
  also have "(\<Sum>h\<in>A - T c. f h) \<le> (\<Sum>k\<in>C. \<Sum>h\<in>(A - T c) \<inter> T k. f h)"
    using insert.prems by (intro insert.IH) auto
  also have "\<dots> \<le> (\<Sum>k\<in>C. \<Sum>h\<in>A \<inter> T k. f h)"
    using insert.prems by (intro sum_mono sum_mono2) auto
  finally show ?case using insert.hyps by simp
qed simp

text \<open>Disjoint groups together have no more than a group above them.\<close>

lemma disjoint_shares:
  assumes a: "admitted S"
  shows "below n (g_children S) g \<Longrightarrow> g \<in> set (g_list S) \<Longrightarrow>
    A \<subseteq> subtree (g_children S) g \<Longrightarrow> \<forall>x\<in>A. \<forall>y\<in>A. suffix x y \<longrightarrow> x = y \<Longrightarrow>
    (\<Sum>h\<in>A. rt_share (g_sys S) h) \<le> rt_share (g_sys S) g"
proof (induction n arbitrary: g A)
  case 0
  have "subtree (g_children S) g = {g}"
    using 0(1) by (auto elim: subtree.induct intro: subtree.here)
  then have "A = {} \<or> A = {g}" using 0(3) by auto
  then show ?case by auto
next
  case (Suc n)
  show ?case
  proof (cases "g \<in> A")
    case True
    have "A = {g}"
      using Suc.prems(3,4) True subtree_suffix [OF Suc.prems(1)] by blast
    then show ?thesis by simp
  next
    case False
    let ?cs = "g_children S g" and ?T = "subtree (g_children S)"
    have c: "below n (g_children S) c" "c \<in> set (g_list S)" if "c \<in> set ?cs" for c
      using Suc.prems(1) that groups_okD(5) [OF admittedD(1) [OF a] Suc.prems(2), of c] by auto
    have "A \<subseteq> set (g_list S)" using Suc.prems(3) groups_closed [OF admittedD(1) [OF a] Suc.prems(2)] by blast
    then have fin: "finite A" by (rule finite_subset) simp
    have "A \<subseteq> (\<Union>c\<in>set ?cs. ?T c)" using Suc.prems(3) False subtree_cases_down by blast
    then have "(\<Sum>h\<in>A. rt_share (g_sys S) h) \<le> (\<Sum>c\<in>set ?cs. \<Sum>h\<in>A \<inter> ?T c. rt_share (g_sys S) h)"
      by (rule sum_over_cover [OF finite_set fin])
    also have "\<dots> \<le> (\<Sum>c\<in>set ?cs. rt_share (g_sys S) c)"
      using Suc.prems(4) c by (intro sum_mono Suc.IH) auto
    also have "\<dots> = (\<Sum>c\<leftarrow>?cs. rt_share (g_sys S) c)"
      using Suc.prems(1) by (intro sum.distinct_set_conv_list) simp
    also have "\<dots> \<le> rt_share (g_sys S) g"
      by (rule group_admittedD(4) [OF admittedD(6) [OF a Suc.prems(2)]])
    finally show ?thesis .
  qed
qed

section \<open>What a setting is accepted for\<close>

text \<open>
  A share \<open>w\<close> has room for group \<open>g\<close>: the system allows it, it covers the children of the group,
  and with the siblings it stays within the parent's.
\<close>

definition has_room :: "'x gsys \<Rightarrow> tg_ptr \<Rightarrow> nat \<Rightarrow> bool" where
  "has_room S g w \<longleftrightarrow>
     w \<le> global_rt_share (g_sys S) \<and>
     (\<Sum>c\<leftarrow>g_children S g. rt_share (g_sys S) c) \<le> w \<and>
     (case tg_parent g of
        None \<Rightarrow> True
      | Some up \<Rightarrow> w + (\<Sum>c\<leftarrow>removeAll g (g_children S up). rt_share (g_sys S) c) \<le> rt_share (g_sys S) up)"

text \<open>The test for running tasks, which only ever looks at the root group.\<close>

definition starves_root :: "'x genv \<Rightarrow> 'x gsys \<Rightarrow> u64 \<Rightarrow> bool" where
  "starves_root G S root_runtime \<longleftrightarrow>
     rt_bandwidth_enabled (g_sys S) \<and> root_runtime = 0 \<and> tg_has_rt_tasks G (g_sys S) []"

definition planned_share :: "rt_schedulable_data \<Rightarrow> 'x sys \<Rightarrow> tg_ptr \<Rightarrow> nat" where
  "planned_share d s g =
     (let (period, runtime) = planned_rt_bandwidth d s g in unat (to_ratio period runtime))"

lemma passes_iff:
  assumes "(\<Sum>c\<leftarrow>g_children S g. planned_share d (g_sys S) c) < 2 ^ 32"
  shows "passes G S d g \<longleftrightarrow>
    (let (period, runtime) = planned_rt_bandwidth d (g_sys S) g
     in (runtime \<le> period \<or> runtime = RUNTIME_INF) \<and>
        \<not> (rt_bandwidth_enabled (g_sys S) \<and> runtime = 0 \<and> tg_has_rt_tasks G (g_sys S) g) \<and>
        planned_share d (g_sys S) g \<le> global_rt_share (g_sys S) \<and>
        (\<Sum>c\<leftarrow>g_children S g. planned_share d (g_sys S) c) \<le> planned_share d (g_sys S) g)"
proof -
  obtain p r where pr: "planned_rt_bandwidth d (g_sys S) g = (p, r)" by fastforce
  let ?f = "\<lambda>c. case planned_rt_bandwidth d (g_sys S) c of (p, r) \<Rightarrow> to_ratio p r"
  have f: "unat (?f c) = planned_share d (g_sys S) c" for c
    by (simp add: planned_share_def split: prod.splits)
  have "(\<lambda>child sum. case planned_rt_bandwidth d (g_sys S) child of (period, runtime) \<Rightarrow>
      sum + to_ratio period runtime) = (\<lambda>c sum. sum + ?f c)"
    by (auto simp: fun_eq_iff split: prod.splits)
  then have "unat (fold (\<lambda>child sum. case planned_rt_bandwidth d (g_sys S) child of (period, runtime) \<Rightarrow>
      sum + to_ratio period runtime) (g_children S g) 0) =
      (\<Sum>c\<leftarrow>g_children S g. planned_share d (g_sys S) c)"
    using unat_fold_sum [of 0 ?f "g_children S g"] assms by (simp add: f)
  moreover have "unat (to_ratio p r) = planned_share d (g_sys S) g"
    by (simp add: planned_share_def pr)
  ultimately show ?thesis
    by (auto simp: passes_def tg_rt_schedulable_def Let_def pr global_rt_share_def word_less_nat_alt word_le_nat_alt
        EINVAL_def EBUSY_def)
qed

lemma tg_has_rt_tasks_root: "tg_has_rt_tasks G s g \<Longrightarrow> g = [] \<and> tg_has_rt_tasks G s []"
  by (auto simp: tg_has_rt_tasks_def list_ex_iff)

lemma sum_list_removeAll:
  fixes f :: "'a \<Rightarrow> nat"
  assumes "distinct xs" and "x \<in> set xs"
  shows "(\<Sum>c\<leftarrow>xs. f c) = f x + (\<Sum>c\<leftarrow>removeAll x xs. f c)"
  using assms by (auto elim!: split_removeAll)

text \<open>What \<open>tg_set_rt_bandwidth\<close> hands to the walk.\<close>

abbreviation ask :: "tg_ptr \<Rightarrow> u64 \<Rightarrow> u64 \<Rightarrow> rt_schedulable_data" where
  "ask g period runtime \<equiv> \<lparr>rsd_tg = Some g, rsd_rt_period = period, rsd_rt_runtime = runtime\<rparr>"

lemma planned_here:
  "planned_rt_bandwidth (ask g period runtime) (g_sys S) h =
    (if h = g then (period, runtime)
     else (rtb_period (tg_rt_bandwidth (tgs (g_sys S) h)), rtb_runtime (tg_rt_bandwidth (tgs (g_sys S) h))))"
  "planned_share (ask g period runtime) (g_sys S) h =
    (if h = g then unat (to_ratio period runtime) else rt_share (g_sys S) h)"
  by (simp_all add: planned_share_def planned_rt_bandwidth_def rt_share_def Let_def)

lemma planned_sum:
  assumes adm: "admitted S" and g: "g \<in> set (g_list S)" and h: "h \<in> set (g_list S)"
  shows "(\<Sum>c\<leftarrow>g_children S h. planned_share (ask g period runtime) (g_sys S) c) =
    (if tg_parent g = Some h
     then unat (to_ratio period runtime) + (\<Sum>c\<leftarrow>removeAll g (g_children S h). rt_share (g_sys S) c)
     else (\<Sum>c\<leftarrow>g_children S h. rt_share (g_sys S) c))"
proof (cases "tg_parent g = Some h")
  case True
  then have "g \<in> set (g_children S h)" using groups_okD(5) [OF admittedD(1) [OF adm] h] g by simp
  moreover have "(\<Sum>c\<leftarrow>removeAll g (g_children S h). planned_share (ask g period runtime) (g_sys S) c) =
      (\<Sum>c\<leftarrow>removeAll g (g_children S h). rt_share (g_sys S) c)"
    by (rule arg_cong [where f = sum_list]) (auto simp: planned_here)
  ultimately show ?thesis
    using sum_list_removeAll [OF groups_okD(4) [OF admittedD(1) [OF adm] h], of g] True
    by (simp add: planned_here(2) [of g])
next
  case False
  then have "g \<notin> set (g_children S h)" using groups_okD(5) [OF admittedD(1) [OF adm] h] by simp
  then have "(\<Sum>c\<leftarrow>g_children S h. planned_share (ask g period runtime) (g_sys S) c) =
      (\<Sum>c\<leftarrow>g_children S h. rt_share (g_sys S) c)"
    by (intro arg_cong [where f = sum_list]) (auto simp: planned_here)
  then show ?thesis using False by simp
qed

lemma sum_removed: "admitted S \<Longrightarrow> h \<in> set (g_list S) \<Longrightarrow>
    (\<Sum>c\<leftarrow>removeAll g (g_children S h). rt_share (g_sys S) c) \<le> 2 ^ 20"
  using group_admittedD(4,5) [OF admittedD(6), of S h]
    sum_list_removeAll [OF groups_okD(4) [OF admittedD(1), of S h], of g "rt_share (g_sys S)"]
  by (cases "g \<in> set (g_children S h)") (auto simp: removeAll_id)

lemma passes_here:
  assumes adm: "admitted S" and g: "g \<in> set (g_list S)" and h: "h \<in> set (g_list S)" and fits: "rt_fits period runtime"
  shows "passes G S (ask g period runtime) h \<longleftrightarrow>
    \<not> (rt_bandwidth_enabled (g_sys S) \<and> snd (planned_rt_bandwidth (ask g period runtime) (g_sys S) h) = 0 \<and>
       tg_has_rt_tasks G (g_sys S) h) \<and>
    (h = g \<longrightarrow> unat (to_ratio period runtime) \<le> global_rt_share (g_sys S) \<and>
       (\<Sum>c\<leftarrow>g_children S g. rt_share (g_sys S) c) \<le> unat (to_ratio period runtime)) \<and>
    (tg_parent g = Some h \<longrightarrow> unat (to_ratio period runtime) +
       (\<Sum>c\<leftarrow>removeAll g (g_children S h). rt_share (g_sys S) c) \<le> rt_share (g_sys S) h)"
proof -
  note a = group_admittedD [OF admittedD(6) [OF adm h]]
  have "(\<Sum>c\<leftarrow>g_children S h. planned_share (ask g period runtime) (g_sys S) c) \<le> 2 ^ 20 + 2 ^ 20"
    using add_mono [OF to_ratio_exact(2) [OF fits] sum_removed [OF adm h, of g]] a(4,5) by (auto simp: planned_sum [OF adm g h])
  then have b: "(\<Sum>c\<leftarrow>g_children S h. planned_share (ask g period runtime) (g_sys S) c) < 2 ^ 32" by simp
  show ?thesis
    unfolding passes_iff [OF b] planned_sum [OF adm g h] planned_here
    using a fits tg_parent_irrefl [of g] by (auto simp: rt_fits_def)
qed

lemma all_pass_iff:
  assumes adm: "admitted S" and g: "g \<in> set (g_list S)" and small: "period \<noteq> 0" "runtime = RUNTIME_INF \<or> unat runtime < 2 ^ 44"
  shows "(\<forall>h\<in>set (g_list S). passes G S (ask g period runtime) h) \<longleftrightarrow>
    rt_fits period runtime \<and> has_room S g (unat (to_ratio period runtime)) \<and>
    \<not> starves_root G S (snd (planned_rt_bandwidth (ask g period runtime) (g_sys S) []))"
proof (cases "rt_fits period runtime")
  case False
  then have "\<not> (runtime \<le> period \<or> runtime = RUNTIME_INF)" using small by (auto simp: rt_fits_def)
  then have "\<not> passes G S (ask g period runtime) g"
    by (simp add: passes_def tg_rt_schedulable_def Let_def planned_here EINVAL_def not_le)
  then show ?thesis using g False by blast
next
  case True
  have up: "case tg_parent g of None \<Rightarrow> True | Some up \<Rightarrow> up \<in> set (g_list S)"
    using g groups_okD(3) [OF admittedD(1) [OF adm]] by (auto simp: tg_parent_def split: list.splits)
  have root: "[] \<in> set (g_list S)" by (rule groups_okD(2) [OF admittedD(1) [OF adm]])
  show ?thesis
    using passes_here [OF adm g _ True] g up root tg_has_rt_tasks_root [of G "g_sys S"]
    by (auto simp: True has_room_def starves_root_def split: option.splits)
qed

section \<open>Setting a group's bandwidth\<close>

definition with_rt_bandwidth :: "tg_ptr \<Rightarrow> u64 \<Rightarrow> u64 \<Rightarrow> 'x gsys \<Rightarrow> 'x gsys" where
  "with_rt_bandwidth g period runtime = upd_g_sys (\<lambda>s.
     upd_rt_rq g (rtq_runtime_update (\<lambda>_. runtime))
       (s\<lparr>tgs := (tgs s)(g := (tgs s g)\<lparr>tg_rt_bandwidth :=
          \<lparr>rtb_period = period, rtb_runtime = runtime\<rparr>\<rparr>)\<rparr>))"

lemma with_rt_bandwidth_simps [simp]:
  "g_children (with_rt_bandwidth g p r S) = g_children S"
  "g_list (with_rt_bandwidth g p r S) = g_list S"
  "g_def (with_rt_bandwidth g p r S) = g_def S"
  "sysctl_rt_period (g_sys (with_rt_bandwidth g p r S)) = sysctl_rt_period (g_sys S)"
  "sysctl_rt_runtime (g_sys (with_rt_bandwidth g p r S)) = sysctl_rt_runtime (g_sys S)"
  "tg_rt_bandwidth (tgs (g_sys (with_rt_bandwidth g p r S)) h) =
    (if h = g then \<lparr>rtb_period = p, rtb_runtime = r\<rparr> else tg_rt_bandwidth (tgs (g_sys S) h))"
  "rtq_runtime (rt_rqs (g_sys (with_rt_bandwidth g p r S)) h) =
    (if h = g then r else rtq_runtime (rt_rqs (g_sys S) h))"
  "global_rt_period (g_sys (with_rt_bandwidth g p r S)) = global_rt_period (g_sys S)"
  "global_rt_runtime (g_sys (with_rt_bandwidth g p r S)) = global_rt_runtime (g_sys S)"
  by (simp_all add: with_rt_bandwidth_def global_rt_period_def global_rt_runtime_def)

lemma with_rt_bandwidth_share:
  "rt_share (g_sys (with_rt_bandwidth g p r S)) = planned_share (ask g p r) (g_sys S)"
  "global_rt_share (g_sys (with_rt_bandwidth g p r S)) = global_rt_share (g_sys S)"
  by (simp_all add: fun_eq_iff rt_share_def planned_here Let_def global_rt_share_def global_rt_period_def
      global_rt_runtime_def)

lemma groups_ok_same:
  "g_children S' = g_children S \<Longrightarrow> g_list S' = g_list S \<Longrightarrow> groups_ok S' = groups_ok S"
  by (simp add: groups_ok_def)

lemma admitted_with:
  assumes adm: "admitted S" and g: "g \<in> set (g_list S)"
    and fits: "rt_fits p r" and room: "has_room S g (unat (to_ratio p r))"
  shows "admitted (with_rt_bandwidth g p r S)"
proof -
  let ?S = "with_rt_bandwidth g p r S"
  have "group_admitted ?S h" if h: "h \<in> set (g_list S)" for h
  proof -
    note a = group_admittedD [OF admittedD(6) [OF adm h]]
    have "(\<Sum>c\<leftarrow>g_children S h. planned_share (ask g p r) (g_sys S) c) \<le>
        planned_share (ask g p r) (g_sys S) h"
      unfolding planned_sum [OF adm g h] unfolding planned_here
      using a(4) room tg_parent_irrefl [of h] by (auto simp: has_room_def)
    moreover have "planned_share (ask g p r) (g_sys S) h \<le> global_rt_share (g_sys S)"
      unfolding planned_here using a(3) room by (simp add: has_room_def)
    ultimately show ?thesis
      using a(1,2) fits by (simp add: group_admitted_def Let_def with_rt_bandwidth_share)
  qed
  then show ?thesis
    using admittedD(1-5) [OF adm]
    by (simp add: admitted_def groups_ok_same [of ?S S])
qed

lemma tg_set_rt_bandwidth_result:
  assumes adm: "admitted S" and g: "g \<in> set (g_list S)"
    and small: "p \<noteq> 0" "r = RUNTIME_INF \<or> unat r < 2 ^ 44"
  obtains S' ret where "tg_set_rt_bandwidth G g p r S = Some (S', ret)" "admitted S'"
    "ret \<in> {0, - EINVAL, - EBUSY}" "ret \<noteq> 0 \<longrightarrow> S' = S"
    "ret = 0 \<longrightarrow> S' = with_rt_bandwidth g p r S"
    "ret = 0 \<longleftrightarrow> rt_fits p r \<and> has_room S g (unat (to_ratio p r)) \<and>
      \<not> starves_root G S (snd (planned_rt_bandwidth (ask g p r) (g_sys S) []))"
proof -
  obtain ret where ret: "rt_schedulable' G (Some g) p r S = Some ret" "ret \<in> {0, - EINVAL, - EBUSY}"
      "ret = 0 \<longleftrightarrow> (\<forall>h\<in>set (g_list S). passes G S (ask g p r) h)"
    by (rule rt_schedulable_returns [OF admittedD(1) [OF adm], of G "Some g" p r])
  note iff = ret(3) [unfolded all_pass_iff [OF adm g small]]
  show ?thesis
  proof (cases "ret = 0")
    case True
    have "tg_set_rt_bandwidth G g p r S = Some (with_rt_bandwidth g p r S, 0)"
      by (simp add: tg_set_rt_bandwidth_def ret(1) True with_rt_bandwidth_def)
    moreover have "admitted (with_rt_bandwidth g p r S)"
      using iff True by (intro admitted_with [OF adm g]) auto
    ultimately show ?thesis using that [of "with_rt_bandwidth g p r S" 0] iff True by simp
  next
    case False
    have "tg_set_rt_bandwidth G g p r S = Some (S, ret)"
      by (simp add: tg_set_rt_bandwidth_def ret(1) False)
    then show ?thesis by (rule that) (use ret(2) iff False adm in auto)
  qed
qed

text \<open>The run time a long of microseconds stands for; a negative one is no limit.\<close>

definition runtime_of_us :: "ulong \<Rightarrow> u64" where
  "runtime_of_us us = (if sint us < 0 then RUNTIME_INF else scast us * of_nat NSEC_PER_USEC)"

lemma scast_nonneg:
  assumes "0 \<le> sint (us :: ulong)"
  shows "unat (scast us :: u64) = unat us" "unat us < 2 ^ 31"
proof -
  have "uint us = sint us"
    unfolding uint_sint using assms sint_lt [of us] by (intro take_bit_int_eq_self) auto
  then have i: "int (unat us) = sint us" by simp
  then have "int (unat us) < 2147483648" using sint_lt [of us] by simp
  then have "unat us < 2147483648" by linarith
  with i have u: "sint us = int (unat us)" "unat us < 2 ^ 31" by simp_all
  then have "(scast us :: u64) = of_nat (unat us)" by (simp add: scast_eq)
  moreover have "(of_nat (unat us) :: u64) = ucast us" by simp
  ultimately show "unat (scast us :: u64) = unat us" "unat us < 2 ^ 31"
    using u(2) by (simp_all add: unsigned_ucast_eq take_bit_nat_eq_self)
qed

lemma runtime_of_us_small: "runtime_of_us us = RUNTIME_INF \<or> unat (runtime_of_us us) < 2 ^ 44"
proof (cases "sint us < 0")
  case False
  note u = scast_nonneg [of us]
  have "unat (scast us :: u64) * unat (of_nat NSEC_PER_USEC :: u64) < 2 ^ 44"
    using u False by (simp add: NSEC_PER_USEC_def)
  then show ?thesis
    using False unat_mult_small [of "scast us :: u64" "of_nat NSEC_PER_USEC"]
    by (simp add: runtime_of_us_def)
qed (simp add: runtime_of_us_def)

lemma runtime_of_us_back:
  assumes "0 \<le> sint us"
  shows "runtime_of_us us \<noteq> RUNTIME_INF" "ucast (runtime_of_us us div of_nat NSEC_PER_USEC) = us"
proof -
  note u = scast_nonneg [OF assms]
  have m: "unat (runtime_of_us us) = unat us * 1000"
    using u assms unat_mult_small [of "scast us :: u64" "of_nat NSEC_PER_USEC"]
    by (simp add: runtime_of_us_def NSEC_PER_USEC_def)
  have "unat RUNTIME_INF = 2 ^ 64 - 1"
    by (simp add: RUNTIME_INF_def unsigned_minus_1_eq_mask mask_eq_exp_minus_1)
  then have "unat (runtime_of_us us) \<noteq> unat RUNTIME_INF" using u(2) m by simp
  then show "runtime_of_us us \<noteq> RUNTIME_INF" by (rule contrapos_nn) simp
  have "unat (runtime_of_us us div of_nat NSEC_PER_USEC) = unat us"
    using m by (simp add: unat_div NSEC_PER_USEC_def)
  then show "ucast (runtime_of_us us div of_nat NSEC_PER_USEC) = us"
    using u(2) by (subst word_eq_iff_unsigned [where ?'a = nat]) (simp add: unsigned_ucast_eq take_bit_nat_eq_self)
qed

text \<open>The period a long of microseconds stands for.\<close>

lemma period_of_us_back:
  assumes "0 < sint (us :: ulong)"
  shows "(scast us * of_nat NSEC_PER_USEC :: u64) \<noteq> 0"
    "ucast ((scast us * of_nat NSEC_PER_USEC :: u64) div of_nat NSEC_PER_USEC) = us"
proof -
  have eq: "(scast us * of_nat NSEC_PER_USEC :: u64) = runtime_of_us us"
    using assms by (simp add: runtime_of_us_def)
  show us: "ucast ((scast us * of_nat NSEC_PER_USEC :: u64) div of_nat NSEC_PER_USEC) = us"
    unfolding eq using assms by (intro runtime_of_us_back(2)) simp
  show "(scast us * of_nat NSEC_PER_USEC :: u64) \<noteq> 0"
    using us assms by auto
qed

section \<open>The system-wide limit\<close>

text \<open>What \<open>proc_dointvec\<close> does to a variable: it stores an int when it succeeds in writing.\<close>

definition stores_int :: "(u32 \<Rightarrow> int \<Rightarrow> u32 \<times> int \<times> int) \<Rightarrow> bool \<Rightarrow> bool" where
  "stores_int proc write \<longleftrightarrow>
     (\<forall>p r. case proc p r of (p', r', ret) \<Rightarrow>
        (ret \<noteq> 0 \<or> \<not> write \<longrightarrow> p' = p \<and> r' = r) \<and>
        (- (2 ^ 31) \<le> r \<and> r < 2 ^ 31 \<longrightarrow> - (2 ^ 31) \<le> r' \<and> r' < 2 ^ 31))"

lemma global_fits:
  assumes "sysctl_rt_period s \<noteq> 0" and "sysctl_rt_runtime s < 2 ^ 31"
    and "global_rt_runtime s \<le> global_rt_period s \<or> global_rt_runtime s = RUNTIME_INF"
  shows "rt_fits (global_rt_period s) (global_rt_runtime s)"
proof -
  have "unat (ucast (sysctl_rt_period s) :: u64) = unat (sysctl_rt_period s)"
    by (simp add: unsigned_ucast_eq take_bit_nat_eq_self less_trans [OF unsigned_less_nat])
  then have "unat (global_rt_period s) = unat (sysctl_rt_period s) * 1000"
    using unat_mult_small [of "ucast (sysctl_rt_period s) :: u64" "of_nat NSEC_PER_USEC"]
      unsigned_less_nat [of "sysctl_rt_period s"]
    by (simp add: global_rt_period_def NSEC_PER_USEC_def)
  then have p: "global_rt_period s \<noteq> 0" using assms(1) by (auto simp: unat_eq_0)
  have "unat (global_rt_runtime s) < 2 ^ 44" if "\<not> sysctl_rt_runtime s < 0"
  proof -
    from that have "0 \<le> sysctl_rt_runtime s" by simp
    then obtain n where "sysctl_rt_runtime s = int n" by (rule nonneg_int_cases)
    with assms(2) have n: "sysctl_rt_runtime s = int n" "n < 2147483648" by simp_all
    then have "unat (word_of_int (sysctl_rt_runtime s) :: u64) = n"
      by (simp add: take_bit_nat_eq_self unat_of_nat)
    then show ?thesis
      using that n(2) unat_mult_small [of "word_of_int (sysctl_rt_runtime s) :: u64" "of_nat NSEC_PER_USEC"]
      by (simp add: global_rt_runtime_def NSEC_PER_USEC_def)
  qed
  then show ?thesis using p assms(3) by (auto simp: rt_fits_def global_rt_runtime_def split: if_splits)
qed

lemma passes_none:
  assumes adm: "admitted S" and g: "g \<in> set (g_list S')"
    and same: "tgs (g_sys S') = tgs (g_sys S)" "g_children S' = g_children S" "g_list S' = g_list S"
    and pass: "passes G S' \<lparr>rsd_tg = None, rsd_rt_period = p, rsd_rt_runtime = r\<rparr> g"
  shows "rt_share (g_sys S') g \<le> global_rt_share (g_sys S')"
proof -
  let ?d = "\<lparr>rsd_tg = None, rsd_rt_period = p, rsd_rt_runtime = r\<rparr>"
  have sh: "planned_share ?d (g_sys S') = rt_share (g_sys S)" "rt_share (g_sys S') = rt_share (g_sys S)"
    by (simp_all add: fun_eq_iff planned_share_def planned_rt_bandwidth_def rt_share_def Let_def same)
  have "(\<Sum>c\<leftarrow>g_children S' g. planned_share ?d (g_sys S') c) < 2 ^ 32"
    using group_admittedD(4,5) [OF admittedD(6) [OF adm], of g] g by (simp add: sh same)
  from pass [unfolded passes_iff [OF this]] show ?thesis by (auto simp: sh Let_def split: prod.splits)
qed

lemma sched_rt_handler_result:
  assumes adm: "admitted S" and st: "stores_int proc write"
  obtains S' ret where "sched_rt_handler G proc write S = Some (S', ret)" "admitted S'"
    "ret \<noteq> 0 \<Longrightarrow> S' = S"
proof -
  obtain p' r' ret0 where pr: "proc (sysctl_rt_period (g_sys S)) (sysctl_rt_runtime (g_sys S)) = (p', r', ret0)"
    by (metis prod_cases3)
  have st': "ret0 \<noteq> 0 \<or> \<not> write \<Longrightarrow> p' = sysctl_rt_period (g_sys S) \<and> r' = sysctl_rt_runtime (g_sys S)"
      "- (2 ^ 31) \<le> r'" "r' < 2 ^ 31"
    using st [unfolded stores_int_def, THEN spec, THEN spec, of "sysctl_rt_period (g_sys S)" "sysctl_rt_runtime (g_sys S)"]
      pr admittedD(3,4) [OF adm] by auto
  let ?S1 = "upd_g_sys (\<lambda>s. s\<lparr>sysctl_rt_period := p', sysctl_rt_runtime := r'\<rparr>) S"
  let ?S2 = "?S1\<lparr>g_def := \<lparr>rtb_period = global_rt_period (g_sys ?S1), rtb_runtime = global_rt_runtime (g_sys ?S1)\<rparr>\<rparr>"
  show ?thesis
  proof (cases "ret0 = 0 \<and> write")
    case False
    then have "?S1 = S" using st'(1) by auto
    then show ?thesis
      using that [of S ret0] pr False adm by (auto simp: sched_rt_handler_def Let_def)
  next
    case True
    have g1: "groups_ok ?S1" using admittedD(1) [OF adm] by (simp add: groups_ok_def)
    obtain ret1 where w: "rt_schedulable' G None 0 0 ?S1 = Some ret1"
        "ret1 = 0 \<longleftrightarrow> (\<forall>g\<in>set (g_list ?S1).
          passes G ?S1 \<lparr>rsd_tg = None, rsd_rt_period = 0, rsd_rt_runtime = 0\<rparr> g)"
      by (rule rt_schedulable_returns [OF g1, of G None 0 0])
    obtain ret where ret: "sched_rt_global_constraints G ?S1 = Some ret"
      by (cases "sched_rt_global_constraints G ?S1")
        (simp_all add: sched_rt_global_constraints_def Let_def w(1) split: if_splits)
    show ?thesis
    proof (cases "ret = 0")
      case False
      have "sched_rt_handler G proc write S = Some (S, ret)"
        using True False ret by (simp add: sched_rt_handler_def Let_def pr)
      then show ?thesis using that adm False by blast
    next
      case ok: True
      have "sched_rt_handler G proc write S = Some (?S2, 0)"
        using True ok ret by (simp add: sched_rt_handler_def Let_def pr)
      moreover have lim: "sysctl_rt_period (g_sys ?S1) \<noteq> 0" "ret1 = 0"
          "global_rt_runtime (g_sys ?S1) \<le> global_rt_period (g_sys ?S1) \<or>
           global_rt_runtime (g_sys ?S1) = RUNTIME_INF"
        using ret ok w(1)
        by (auto simp: sched_rt_global_constraints_def Let_def EINVAL_def not_less split: if_splits)
      have fits: "rt_fits (global_rt_period (g_sys ?S1)) (global_rt_runtime (g_sys ?S1))"
        using lim(1,3) st'(3) by (intro global_fits) auto
      have "group_admitted ?S2 g" if g: "g \<in> set (g_list S)" for g
      proof -
        note a = group_admittedD [OF admittedD(6) [OF adm g]]
        have "rt_share (g_sys ?S1) g \<le> global_rt_share (g_sys ?S1)"
          by (rule passes_none [OF adm, where S' = ?S1 and G = G and p = 0 and r = 0])
            (use w(2) lim(2) g in simp_all)
        then show ?thesis
          using a by (simp add: group_admitted_def Let_def rt_share_def)
      qed
      then have "admitted ?S2"
        using g1 fits st' by (simp add: admitted_def groups_ok_def rt_fits_def)
      ultimately show ?thesis using that [of ?S2 0] by blast
    qed
  qed
qed

section \<open>Creating and destroying groups\<close>

lemma init_rt_rq_fold:
  "tgs (fold (\<lambda>i s. upd_rt_rq g (rtq_bitmap_update (\<lambda>b. b(i := False)))
      (upd_links (kl_INIT_LIST_HEAD K (RtQueue g i)) s)) is s) = tgs s"
  "sysctl_rt_period (fold (\<lambda>i s. upd_rt_rq g (rtq_bitmap_update (\<lambda>b. b(i := False)))
      (upd_links (kl_INIT_LIST_HEAD K (RtQueue g i)) s)) is s) = sysctl_rt_period s"
  "sysctl_rt_runtime (fold (\<lambda>i s. upd_rt_rq g (rtq_bitmap_update (\<lambda>b. b(i := False)))
      (upd_links (kl_INIT_LIST_HEAD K (RtQueue g i)) s)) is s) = sysctl_rt_runtime s"
  "h \<noteq> g \<Longrightarrow> rt_rqs (fold (\<lambda>i s. upd_rt_rq g (rtq_bitmap_update (\<lambda>b. b(i := False)))
      (upd_links (kl_INIT_LIST_HEAD K (RtQueue g i)) s)) is s) h = rt_rqs s h"
  by (induction "is" arbitrary: s) simp_all

lemma init_rt_rq_frame:
  "tgs (init_rt_rq E g s) = tgs s" "sysctl_rt_period (init_rt_rq E g s) = sysctl_rt_period s"
  "sysctl_rt_runtime (init_rt_rq E g s) = sysctl_rt_runtime s"
  "h \<noteq> g \<Longrightarrow> rt_rqs (init_rt_rq E g s) h = rt_rqs s h"
  by (simp_all add: init_rt_rq_def Let_def init_rt_rq_fold)

lemma init_tg_rt_entry_frame:
  "tgs (init_tg_rt_entry E g s) = tgs s"
  "sysctl_rt_period (init_tg_rt_entry E g s) = sysctl_rt_period s"
  "sysctl_rt_runtime (init_tg_rt_entry E g s) = sysctl_rt_runtime s"
  "rtq_runtime (rt_rqs (init_tg_rt_entry E g s) h) = rtq_runtime (rt_rqs s h)"
  by (simp_all add: init_tg_rt_entry_def Let_def split: option.splits)

lemma alloc_rt_frame:
  assumes "alloc_rt_sched_group E a1 a2 a3 a4 p g s = (s', ok)"
  shows "h \<noteq> g \<Longrightarrow> tgs s' h = tgs s h" "sysctl_rt_period s' = sysctl_rt_period s"
    "sysctl_rt_runtime s' = sysctl_rt_runtime s"
    "h \<noteq> g \<Longrightarrow> rtq_runtime (rt_rqs s' h) = rtq_runtime (rt_rqs s h)"
    "ok \<noteq> 0 \<Longrightarrow> tg_rt_bandwidth (tgs s' g) = \<lparr>rtb_period = p, rtb_runtime = 0\<rparr>"
    "ok \<noteq> 0 \<Longrightarrow> rtq_runtime (rt_rqs s' g) = 0"
  using assms
  by (auto simp: alloc_rt_sched_group_def Let_def init_tg_rt_entry_frame init_rt_rq_frame
      init_rt_bandwidth_def split: if_splits)

text \<open>Two systems with the same bandwidth settings of the groups of the first.\<close>

definition same_bandwidth :: "'x gsys \<Rightarrow> 'x gsys \<Rightarrow> bool" where
  "same_bandwidth S S' \<longleftrightarrow>
     sysctl_rt_period (g_sys S') = sysctl_rt_period (g_sys S) \<and>
     sysctl_rt_runtime (g_sys S') = sysctl_rt_runtime (g_sys S) \<and> g_def S' = g_def S \<and>
     (\<forall>g\<in>set (g_list S). tg_rt_bandwidth (tgs (g_sys S') g) = tg_rt_bandwidth (tgs (g_sys S) g) \<and>
        rtq_runtime (rt_rqs (g_sys S') g) = rtq_runtime (rt_rqs (g_sys S) g))"

lemma same_bandwidth_share:
  assumes "same_bandwidth S S'"
  shows "global_rt_share (g_sys S') = global_rt_share (g_sys S)"
    "global_rt_period (g_sys S') = global_rt_period (g_sys S)"
    "global_rt_runtime (g_sys S') = global_rt_runtime (g_sys S)"
    "g \<in> set (g_list S) \<Longrightarrow> rt_share (g_sys S') g = rt_share (g_sys S) g"
  using assms
  by (simp_all add: same_bandwidth_def global_rt_share_def global_rt_period_def
      global_rt_runtime_def rt_share_def)

lemma children_share:
  assumes "same_bandwidth S S'" and "groups_ok S" and "g \<in> set (g_list S)"
    and "set cs \<subseteq> set (g_children S g)"
  shows "(\<Sum>c\<leftarrow>cs. rt_share (g_sys S') c) = (\<Sum>c\<leftarrow>cs. rt_share (g_sys S) c)"
  using assms groups_okD(5) [OF assms(2,3)]
  by (intro arg_cong [where f = sum_list] map_cong) (auto simp: same_bandwidth_share)

lemma admitted_same:
  assumes adm: "admitted S" and same: "same_bandwidth S S'"
    and shape: "g_children S' = g_children S" "g_list S' = g_list S"
  shows "admitted S'"
proof -
  have "group_admitted S' g" if g: "g \<in> set (g_list S)" for g
    using group_admittedD(1-4) [OF admittedD(6) [OF adm g]] same g
      children_share [OF same admittedD(1) [OF adm] g, of "g_children S g"]
    by (simp add: group_admitted_def Let_def shape same_bandwidth_share [OF same] same_bandwidth_def)
  then show ?thesis
    using admittedD(1-5) [OF adm] same same_bandwidth_share(2,3) [OF same]
    by (simp add: admitted_def groups_ok_same [OF shape] shape same_bandwidth_def)
qed

lemma to_ratio_zero: "to_ratio p 0 = 0"
  by (simp add: to_ratio_def RUNTIME_INF_def)

lemma groups_ok_grow:
  assumes ok: "groups_ok S" and new: "n # up \<notin> set (g_list S)" and up: "up \<in> set (g_list S)"
    and shape: "g_list S' = (n # up) # g_list S"
      "g_children S' = ((g_children S)(n # up := []))(up := (n # up) # g_children S up)"
  shows "groups_ok S'"
proof -
  note d = groups_okD [OF ok]
  have "set (g_children S' h) = {c \<in> set (g_list S'). tg_parent c = Some h} \<and> distinct (g_children S' h)"
    if h: "h \<in> set (g_list S')" for h
  proof -
    have no_child: "tg_parent c \<noteq> Some (n # up)" if "c \<in> set (g_list S)" for c
      using d(3) [of _ "n # up"] that new by (auto simp: tg_parent_def split: list.splits)
    have p: "tg_parent (n # up) = Some up" "n # up \<noteq> up" by (simp_all add: tg_parent_def)
    have old: "set (g_children S h) = {c \<in> set (g_list S). tg_parent c = Some h}"
        "distinct (g_children S h)" if "h \<in> set (g_list S)"
      using ok that by (auto simp: groups_ok_def)
    consider "h = n # up" | "h = up" | "h \<noteq> n # up" "h \<noteq> up" "h \<in> set (g_list S)"
      using h shape(1) up by auto
    then show ?thesis
    proof cases
      case 1
      then show ?thesis using no_child p by (auto simp: shape)
    next
      case 2
      then have "set (g_children S' h) = insert (n # up) (set (g_children S up))"
          "distinct (g_children S' h) \<longleftrightarrow> n # up \<notin> set (g_children S up) \<and> distinct (g_children S up)"
        using p(2) by (simp_all add: shape)
      then show ?thesis using old up new p(1) unfolding 2 shape(1) by auto
    next
      case 3
      then have "g_children S' h = g_children S h" by (simp add: shape)
      then show ?thesis using old [OF 3(3)] 3(2) p(1) unfolding shape(1) by auto
    qed
  qed
  then show ?thesis using d(1-3) new up by (auto simp: groups_ok_def shape)
qed

lemma admitted_grow:
  assumes adm: "admitted S" and same: "same_bandwidth S S'"
    and new: "n # up \<notin> set (g_list S)" and up: "up \<in> set (g_list S)"
    and shape: "g_list S' = (n # up) # g_list S"
      "g_children S' = ((g_children S)(n # up := []))(up := (n # up) # g_children S up)"
    and zero: "tg_rt_bandwidth (tgs (g_sys S') (n # up)) = \<lparr>rtb_period = rtb_period (g_def S), rtb_runtime = 0\<rparr>"
      "rtq_runtime (rt_rqs (g_sys S') (n # up)) = 0"
  shows "admitted S'"
proof -
  note sh = same_bandwidth_share [OF same]
  have s0: "rt_share (g_sys S') (n # up) = 0" by (simp add: rt_share_def zero to_ratio_zero)
  have "group_admitted S' h" if h: "h \<in> set (g_list S)" for h
    using group_admittedD(1-4) [OF admittedD(6) [OF adm h]] same h new
      children_share [OF same admittedD(1) [OF adm] h, of "g_children S h"]
    by (auto simp: group_admitted_def Let_def shape sh s0 same_bandwidth_def)
  moreover have "group_admitted S' (n # up)"
    using admittedD(2) [OF adm]
    by (simp add: group_admitted_def Let_def zero s0 shape rt_fits_def)
  ultimately show ?thesis
    using admittedD(1-5) [OF adm] groups_ok_grow [OF admittedD(1) [OF adm] new up shape] same sh(2,3)
    by (auto simp: admitted_def shape(1) same_bandwidth_def)
qed

lemma sched_create_admitted:
  assumes adm: "admitted S" and new: "n # up \<notin> set (g_list S)" and up: "up \<in> set (g_list S)"
    and create: "sched_create_group E G mem n up S = (S', res)"
  shows "admitted S'" "res = Inr (n # up) \<and> n # up \<in> set (g_list S') \<or> res = Inl (- ENOMEM) \<and> g_list S' = g_list S"
proof -
  let ?g = "n # up"
  have other: "h \<noteq> ?g" if "h \<in> set (g_list S)" for h using that new by blast
  obtain x w where fair: "ge_alloc_fair G ?g (ext (g_sys S)) = (x, w)" by fastforce
  let ?s1 = "(g_sys S)\<lparr>tgs := (tgs (g_sys S))(?g := zero_task_group), ext := x\<rparr>"
  let ?s2 = "?s1\<lparr>tgs := (tgs ?s1)(?g := (tgs ?s1 ?g)\<lparr>tg_shares := the w\<rparr>)\<rparr>"
  obtain s3 ok where rt: "alloc_rt_sched_group E (mem ! 1) (mem ! 2) (mem ! 3) (mem ! 4)
      (rtb_period (g_def S)) ?g ?s2 = (s3, ok)" by fastforce
  note fr = alloc_rt_frame [OF rt]
  have same3: "same_bandwidth S S2" if "g_sys S2 = s3 \<or> (\<exists>y. g_sys S2 = s3\<lparr>ext := y\<rparr>)" "g_def S2 = g_def S" for S2
    using that fr(1-4) other by (auto simp: same_bandwidth_def)
  consider "\<not> mem ! 0" "S' = S" "res = Inl (- ENOMEM)"
    | "w = None" "S' = free_sched_group G ?g (S\<lparr>g_sys := ?s1\<rparr>)" "res = Inl (- ENOMEM)"
    | "ok = 0" "S' = free_sched_group G ?g (S\<lparr>g_sys := s3\<rparr>)" "res = Inl (- ENOMEM)"
    | "ok \<noteq> 0" "S' = S\<lparr>g_sys := s3, g_list := ?g # g_list S,
        g_children := ((g_children S)(?g := []))(up := ?g # g_children S up)\<rparr>" "res = Inr ?g"
  proof (cases "mem ! 0")
    case False
    then show ?thesis using create that(1) by (simp add: sched_create_group_def Let_def)
  next
    case m: True
    show ?thesis
    proof (cases w)
      case None
      then show ?thesis using create that(2) m fair by (simp add: sched_create_group_def Let_def)
    next
      case (Some w')
      then have rt': "alloc_rt_sched_group E (mem ! 1) (mem ! 2) (mem ! 3) (mem ! 4) (rtb_period (g_def S)) ?g
          (?s1\<lparr>tgs := (tgs ?s1)(?g := (tgs ?s1 ?g)\<lparr>tg_shares := w'\<rparr>)\<rparr>) = (s3, ok)"
        using rt by simp
      show ?thesis
        using create that(3,4) m fair Some rt'
        by (cases "ok = 0") (simp_all add: sched_create_group_def Let_def alloc_wrr_sched_group_def)
    qed
  qed
  then have "admitted S' \<and> (res = Inr ?g \<and> ?g \<in> set (g_list S') \<or> res = Inl (- ENOMEM) \<and> g_list S' = g_list S)"
  proof cases
    case 1
    then show ?thesis using adm by simp
  next
    case 2
    have "same_bandwidth S S'" using 2(2) other by (auto simp: same_bandwidth_def free_sched_group_def)
    then show ?thesis using admitted_same [OF adm] 2 by (simp add: free_sched_group_def)
  next
    case 3
    have "same_bandwidth S S'" using 3(2) by (intro same3) (auto simp: free_sched_group_def)
    then show ?thesis using admitted_same [OF adm] 3 by (simp add: free_sched_group_def)
  next
    case 4
    have "same_bandwidth S S'" using 4(2) by (intro same3) auto
    then have "admitted S'"
      using admitted_grow [OF adm _ new up, of S'] fr(5,6) [OF 4(1)] 4(2) by simp
    then show ?thesis using 4 by simp
  qed
  then show "admitted S'"
    "res = Inr (n # up) \<and> n # up \<in> set (g_list S') \<or> res = Inl (- ENOMEM) \<and> g_list S' = g_list S"
    by auto
qed

lemma groups_ok_shrink:
  assumes ok: "groups_ok S" and g: "n # up \<in> set (g_list S)" and leaf: "g_children S (n # up) = []"
    and shape: "g_list S' = remove1 (n # up) (g_list S)"
      "g_children S' = (g_children S)(up := remove1 (n # up) (g_children S up))"
  shows "groups_ok S'"
proof -
  let ?g = "n # up"
  note d = groups_okD [OF ok]
  have l: "set (g_list S') = set (g_list S) - {?g}" using d(1) by (simp add: shape)
  have no_child: "tg_parent c \<noteq> Some ?g" if "c \<in> set (g_list S)" for c
    using d(5) [OF g, of c] leaf that by simp
  have p: "tg_parent ?g = Some up" "up \<noteq> ?g" by (simp_all add: tg_parent_def)
  have "distinct (g_children S' h)" "set (g_children S' h) = {c \<in> set (g_list S'). tg_parent c = Some h}"
    if h: "h \<in> set (g_list S')" for h
  proof -
    have h': "h \<in> set (g_list S)" using h l by simp
    have old: "set (g_children S h) = {c \<in> set (g_list S). tg_parent c = Some h}" "distinct (g_children S h)"
      using ok h' by (auto simp: groups_ok_def)
    show "distinct (g_children S' h)" using old(2) by (auto simp: shape)
    have "set (g_children S' h) = set (g_children S h) - {?g}"
    proof (cases "h = up")
      case True
      then show ?thesis using old(2) by (simp add: shape)
    next
      case False
      then have "?g \<notin> set (g_children S h)" unfolding old(1) using p(1) by simp
      then show ?thesis using False by (simp add: shape)
    qed
    then show "set (g_children S' h) = {c \<in> set (g_list S'). tg_parent c = Some h}"
      unfolding old(1) l by auto
  qed
  moreover have "\<forall>c up'. c # up' \<in> set (g_list S') \<longrightarrow> up' \<in> set (g_list S')"
    using d(3) no_child [of "c # ?g" for c] unfolding l by (auto simp: tg_parent_def)
  ultimately show ?thesis using d(1,2) unfolding groups_ok_def l by (simp add: shape(1))
qed

lemma sched_destroy_admitted:
  assumes adm: "admitted S" and g: "g \<in> set (g_list S)" "g \<noteq> []" and leaf: "g_children S g = []"
  shows "admitted (sched_destroy_group G g S)"
proof -
  obtain n up where nu: "g = n # up" using g(2) by (cases g) auto
  let ?S = "sched_destroy_group G g S"
  have shape: "g_list ?S = remove1 (n # up) (g_list S)"
      "g_children ?S = (g_children S)(up := remove1 (n # up) (g_children S up))"
    by (simp_all add: sched_destroy_group_def free_sched_group_def Let_def nu)
  have same: "same_bandwidth S ?S"
    by (simp add: sched_destroy_group_def free_sched_group_def Let_def nu same_bandwidth_def)
  have "group_admitted ?S h" if h: "h \<in> set (g_list S)" for h
  proof -
    have "(\<Sum>c\<leftarrow>g_children ?S h. rt_share (g_sys ?S) c) = (\<Sum>c\<leftarrow>g_children ?S h. rt_share (g_sys S) c)"
      by (rule children_share [OF same admittedD(1) [OF adm] h])
        (use set_remove1_subset [of "n # up" "g_children S up"] in \<open>simp add: shape\<close>)
    also have "\<dots> \<le> (\<Sum>c\<leftarrow>g_children S h. rt_share (g_sys S) c)"
      using sum_list_removeAll [OF groups_okD(4) [OF admittedD(1) [OF adm] h], of "n # up" "rt_share (g_sys S)"]
        groups_okD(4) [OF admittedD(1) [OF adm] h]
      by (cases "n # up \<in> set (g_children S h)") (auto simp: shape remove1_idem distinct_remove1_removeAll)
    finally show ?thesis
      using group_admittedD(1-4) [OF admittedD(6) [OF adm h]] same h same_bandwidth_share [OF same]
      by (simp add: group_admitted_def Let_def same_bandwidth_def)
  qed
  then show ?thesis
    using admittedD(1-5) [OF adm] same same_bandwidth_share(2,3) [OF same]
      groups_ok_shrink [OF admittedD(1) [OF adm], of n up ?S] g leaf shape set_remove1_subset [of g "g_list S"]
    by (auto simp: admitted_def same_bandwidth_def nu)
qed

section \<open>The system of groups\<close>

text \<open>What happens to the groups: the two settings of a group, the setting of the system, new and
  removed groups, and everything else, which leaves these settings alone.\<close>

inductive group_step :: "'x env \<Rightarrow> 'x genv \<Rightarrow> 'x gsys \<Rightarrow> 'x gsys \<Rightarrow> bool"
  for E :: "'x env" and G :: "'x genv" where
  set_runtime: "g \<in> set (g_list S) \<Longrightarrow> sched_group_set_rt_runtime G g us S = Some (S', ret) \<Longrightarrow>
    group_step E G S S'"
| set_period: "g \<in> set (g_list S) \<Longrightarrow> sched_group_set_rt_period G g us S = Some (S', ret) \<Longrightarrow>
    group_step E G S S'"
| set_limit: "stores_int proc write \<Longrightarrow> sched_rt_handler G proc write S = Some (S', ret) \<Longrightarrow>
    group_step E G S S'"
| create: "n # up \<notin> set (g_list S) \<Longrightarrow> up \<in> set (g_list S) \<Longrightarrow>
    sched_create_group E G mem n up S = (S', res) \<Longrightarrow> group_step E G S S'"
| destroy: "g \<in> set (g_list S) \<Longrightarrow> g \<noteq> [] \<Longrightarrow> g_children S g = [] \<Longrightarrow>
    group_step E G S (sched_destroy_group G g S)"
| outside: "same_bandwidth S S' \<Longrightarrow> g_children S' = g_children S \<Longrightarrow> g_list S' = g_list S \<Longrightarrow>
    group_step E G S S'"

lemma rt_period_ok:
  assumes "admitted S" and "g \<in> set (g_list S)"
  shows "rtb_period (tg_rt_bandwidth (tgs (g_sys S) g)) \<noteq> 0"
    "rtb_runtime (tg_rt_bandwidth (tgs (g_sys S) g)) = RUNTIME_INF \<or>
     unat (rtb_runtime (tg_rt_bandwidth (tgs (g_sys S) g))) < 2 ^ 44"
  using group_admittedD(1) [OF admittedD(6) [OF assms]] by (auto simp: rt_fits_def)

lemma set_runtime_alt: "sched_group_set_rt_runtime G g us S =
    tg_set_rt_bandwidth G g (rtb_period (tg_rt_bandwidth (tgs (g_sys S) g))) (runtime_of_us us) S"
  by (simp add: sched_group_set_rt_runtime_def runtime_of_us_def Let_def)

lemma group_step_admitted: "group_step E G S S' \<Longrightarrow> admitted S \<Longrightarrow> admitted S'"
proof (induction rule: group_step.induct)
  case (set_runtime g S us S' ret)
  obtain S'' ret' where "tg_set_rt_bandwidth G g (rtb_period (tg_rt_bandwidth (tgs (g_sys S) g)))
      (runtime_of_us us) S = Some (S'', ret')" "admitted S''"
    by (rule tg_set_rt_bandwidth_result [OF set_runtime(3,1) rt_period_ok(1) [OF set_runtime(3,1)]
          runtime_of_us_small])
  then show ?case using set_runtime(2) by (simp add: set_runtime_alt)
next
  case (set_period g S us S' ret)
  show ?case
  proof (cases "(scast us * of_nat NSEC_PER_USEC :: u64) = 0")
    case True
    then show ?thesis using set_period by (simp add: sched_group_set_rt_period_def Let_def)
  next
    case False
    obtain S'' ret' where "tg_set_rt_bandwidth G g (scast us * of_nat NSEC_PER_USEC)
        (rtb_runtime (tg_rt_bandwidth (tgs (g_sys S) g))) S = Some (S'', ret')" "admitted S''"
      by (rule tg_set_rt_bandwidth_result [OF set_period(3,1) False rt_period_ok(2) [OF set_period(3,1)]])
    then show ?thesis using set_period(2) False by (simp add: sched_group_set_rt_period_def Let_def)
  qed
next
  case (set_limit proc w S S' ret)
  obtain T r where "sched_rt_handler G proc w S = Some (T, r)" "admitted T"
    by (rule sched_rt_handler_result [OF set_limit(3,1)])
  then show ?case using set_limit(2) by simp
next
  case (create n up S mem S' res)
  then show ?case using sched_create_admitted(1) by blast
qed (auto intro: sched_destroy_admitted admitted_same)

lemma groups_reachable_admitted: "(group_step E G)\<^sup>*\<^sup>* S S' \<Longrightarrow> admitted S \<Longrightarrow> admitted S'"
  by (induction rule: rtranclp_induct) (auto intro: group_step_admitted)

lemma admitted_total:
  assumes adm: "admitted S" and A: "A \<subseteq> set (g_list S)" "\<forall>x\<in>A. \<forall>y\<in>A. suffix x y \<longrightarrow> x = y"
  shows "(\<Sum>h\<in>A. rt_share (g_sys S) h) \<le> global_rt_share (g_sys S)"
proof -
  note root = groups_okD(2) [OF admittedD(1) [OF adm]]
  obtain n where n: "below n (g_children S) []" by (rule groups_height [OF admittedD(1) [OF adm] root])
  have "(\<Sum>h\<in>A. rt_share (g_sys S) h) \<le> rt_share (g_sys S) []"
    using disjoint_shares [OF adm n root] A by (simp add: groups_subtree [OF admittedD(1) [OF adm]])
  also have "\<dots> \<le> global_rt_share (g_sys S)" by (rule group_admittedD(3) [OF admittedD(6) [OF adm root]])
  finally show ?thesis .
qed

section \<open>Properties\<close>

text \<open>C10: No sequence of settings of group run times and periods, of the system-wide limit, and of
  creations and removals of groups, accepted or refused, leads out of the admitted states: every
  run time fits its period, no group has more than the system, the children of a group have
  together no more than the group, and so any groups none of which is below another have
  together at most the system's share of the processor. The share computed in C, with its shift
  and its 32-bit sums, is the exact quotient of run time and period, rounded down.\<close>

theorem rt_admission_invariant:
  assumes "admitted S" and "(group_step E G)\<^sup>*\<^sup>* S S'"
    and "A \<subseteq> set (g_list S')" and "\<forall>x\<in>A. \<forall>y\<in>A. suffix x y \<longrightarrow> x = y"
  shows "admitted S' \<and> (\<Sum>h\<in>A. rt_share (g_sys S') h) \<le> global_rt_share (g_sys S') \<and>
    (\<forall>g\<in>set (g_list S'). let b = tg_rt_bandwidth (tgs (g_sys S') g)
       in rt_share (g_sys S') g =
          (if rtb_runtime b = RUNTIME_INF then 2 ^ 20
           else unat (rtb_runtime b) * 2 ^ 20 div unat (rtb_period b)))"
proof -
  have adm: "admitted S'" by (rule groups_reachable_admitted [OF assms(2,1)])
  then show ?thesis
    using admitted_total [OF adm assms(3,4)] to_ratio_exact(1) [OF group_admittedD(1) [OF admittedD(6) [OF adm]]]
    by (simp add: rt_share_def Let_def)
qed

text \<open>The settings that are accepted.\<close>

definition accepts_rt :: "'x genv \<Rightarrow> 'x gsys \<Rightarrow> tg_ptr \<Rightarrow> u64 \<Rightarrow> u64 \<Rightarrow> bool" where
  "accepts_rt G S g period runtime \<longleftrightarrow>
     rt_fits period runtime \<and> has_room S g (unat (to_ratio period runtime)) \<and>
     \<not> starves_root G S (if g = [] then runtime else rtb_runtime (tg_rt_bandwidth (tgs (g_sys S) [])))"

lemma set_bandwidth_reads:
  assumes adm: "admitted S" and g: "g \<in> set (g_list S)"
    and small: "p \<noteq> 0" "r = RUNTIME_INF \<or> unat r < 2 ^ 44"
  obtains S' ret where "tg_set_rt_bandwidth G g p r S = Some (S', ret)"
    "ret = 0 \<longleftrightarrow> accepts_rt G S g p r"
    "ret \<noteq> 0 \<longrightarrow> S' = S \<and> ret \<in> {- EINVAL, - EBUSY}"
    "ret = 0 \<longrightarrow>
      sched_group_rt_runtime g S' = (if r = RUNTIME_INF then - 1 else ucast (r div of_nat NSEC_PER_USEC)) \<and>
      sched_group_rt_period g S' = ucast (p div of_nat NSEC_PER_USEC) \<and>
      (\<forall>h. h \<noteq> g \<longrightarrow> sched_group_rt_runtime h S' = sched_group_rt_runtime h S \<and>
         sched_group_rt_period h S' = sched_group_rt_period h S)"
proof -
  obtain S' ret where r: "tg_set_rt_bandwidth G g p r S = Some (S', ret)" "admitted S'"
      "ret \<in> {0, - EINVAL, - EBUSY}" "ret \<noteq> 0 \<longrightarrow> S' = S" "ret = 0 \<longrightarrow> S' = with_rt_bandwidth g p r S"
      "ret = 0 \<longleftrightarrow> rt_fits p r \<and> has_room S g (unat (to_ratio p r)) \<and>
        \<not> starves_root G S (snd (planned_rt_bandwidth (ask g p r) (g_sys S) []))"
    by (rule tg_set_rt_bandwidth_result [OF adm g small, of G])
  show ?thesis
    by (rule that [OF r(1)])
      (use r(3-6) in \<open>auto simp: accepts_rt_def planned_here sched_group_rt_runtime_def sched_group_rt_period_def\<close>)
qed

text \<open>C15: Setting a group's run time or period returns. It succeeds exactly when the run time fits
  the period, the system allows the share, there is room for it between the group's children
  and its parent, and no real-time task would be left in a root group without run time. An error
  (EINVAL or EBUSY) changes nothing; after a success the group reports the value set, where a
  negative run time reads as -1, and everything else reports what it did before.\<close>

theorem rt_group_settings:
  assumes adm: "admitted S" and g: "g \<in> set (g_list S)"
  shows "(\<exists>S' ret. sched_group_set_rt_runtime G g us S = Some (S', ret) \<and>
      (ret = 0 \<longleftrightarrow> accepts_rt G S g (rtb_period (tg_rt_bandwidth (tgs (g_sys S) g))) (runtime_of_us us)) \<and>
      (ret \<noteq> 0 \<longrightarrow> S' = S \<and> ret \<in> {- EINVAL, - EBUSY}) \<and>
      (ret = 0 \<longrightarrow> sched_group_rt_runtime g S' = (if sint us < 0 then - 1 else us) \<and>
         sched_group_rt_period g S' = sched_group_rt_period g S \<and>
         (\<forall>h. h \<noteq> g \<longrightarrow> sched_group_rt_runtime h S' = sched_group_rt_runtime h S \<and>
            sched_group_rt_period h S' = sched_group_rt_period h S))) \<and>
    (0 < sint us \<longrightarrow> (\<exists>S' ret. sched_group_set_rt_period G g us S = Some (S', ret) \<and>
      (ret = 0 \<longleftrightarrow> accepts_rt G S g (scast us * of_nat NSEC_PER_USEC)
         (rtb_runtime (tg_rt_bandwidth (tgs (g_sys S) g)))) \<and>
      (ret \<noteq> 0 \<longrightarrow> S' = S \<and> ret \<in> {- EINVAL, - EBUSY}) \<and>
      (ret = 0 \<longrightarrow> sched_group_rt_runtime g S' = sched_group_rt_runtime g S \<and>
         sched_group_rt_period g S' = us \<and>
         (\<forall>h. h \<noteq> g \<longrightarrow> sched_group_rt_runtime h S' = sched_group_rt_runtime h S \<and>
            sched_group_rt_period h S' = sched_group_rt_period h S))))"
    (is "?A \<and> (_ \<longrightarrow> ?B)")
proof (intro conjI impI)
  let ?p = "rtb_period (tg_rt_bandwidth (tgs (g_sys S) g))" and ?r = "rtb_runtime (tg_rt_bandwidth (tgs (g_sys S) g))"
  note ok = rt_period_ok [OF adm g]
  have us: "(if runtime_of_us us = RUNTIME_INF then - 1 else ucast (runtime_of_us us div of_nat NSEC_PER_USEC)) =
      (if sint us < 0 then - 1 else us)"
    using runtime_of_us_back [of us] by (cases "sint us < 0") (simp add: runtime_of_us_def, simp)
  note old = sched_group_rt_period_def [of g S] sched_group_rt_runtime_def [of g S, unfolded Let_def]
  obtain S' ret where "tg_set_rt_bandwidth G g ?p (runtime_of_us us) S = Some (S', ret)"
    "ret = 0 \<longleftrightarrow> accepts_rt G S g ?p (runtime_of_us us)"
    "ret \<noteq> 0 \<longrightarrow> S' = S \<and> ret \<in> {- EINVAL, - EBUSY}"
    "ret = 0 \<longrightarrow> sched_group_rt_runtime g S' = (if sint us < 0 then - 1 else us) \<and>
      sched_group_rt_period g S' = sched_group_rt_period g S \<and>
      (\<forall>h. h \<noteq> g \<longrightarrow> sched_group_rt_runtime h S' = sched_group_rt_runtime h S \<and>
         sched_group_rt_period h S' = sched_group_rt_period h S)"
    unfolding old(1)
    by (rule set_bandwidth_reads [OF adm g ok(1) runtime_of_us_small, of G us, unfolded us])
  then show ?A unfolding set_runtime_alt by blast
  show ?B if pos: "0 < sint us"
  proof -
    note p = period_of_us_back [OF pos]
    obtain S' ret where r: "tg_set_rt_bandwidth G g (scast us * of_nat NSEC_PER_USEC) ?r S = Some (S', ret)"
      "ret = 0 \<longleftrightarrow> accepts_rt G S g (scast us * of_nat NSEC_PER_USEC) ?r"
      "ret \<noteq> 0 \<longrightarrow> S' = S \<and> ret \<in> {- EINVAL, - EBUSY}"
      "ret = 0 \<longrightarrow> sched_group_rt_runtime g S' = sched_group_rt_runtime g S \<and>
        sched_group_rt_period g S' = us \<and>
        (\<forall>h. h \<noteq> g \<longrightarrow> sched_group_rt_runtime h S' = sched_group_rt_runtime h S \<and>
           sched_group_rt_period h S' = sched_group_rt_period h S)"
      unfolding old(2) by (rule set_bandwidth_reads [OF adm g p(1) ok(2), of G, unfolded p(2)])
    have "sched_group_set_rt_period G g us S = Some (S', ret)"
      using p(1) r(1) by (simp add: sched_group_set_rt_period_def Let_def)
    then show ?thesis using r(2-4) by blast
  qed
qed

text \<open>
  The guard against starving real-time tasks looks at the root group only: a group below it that
  has real-time tasks is given a run time of 0 all the same.
\<close>

lemma group_tasks_not_guarded:
  assumes adm: "admitted S" and g: "g \<in> set (g_list S)" "g \<noteq> []" and leaf: "g_children S g = []"
    and root: "rtb_runtime (tg_rt_bandwidth (tgs (g_sys S) [])) \<noteq> 0"
  shows "\<exists>S'. sched_group_set_rt_runtime G g 0 S = Some (S', 0) \<and> rtq_runtime (rt_rqs (g_sys S') g) = 0"
proof -
  let ?p = "rtb_period (tg_rt_bandwidth (tgs (g_sys S) g))"
  have zero: "runtime_of_us 0 = 0" by (simp add: runtime_of_us_def)
  obtain n up where nu: "g = n # up" using g(2) by (cases g) auto
  then have up: "up \<in> set (g_list S)" using g(1) groups_okD(3) [OF admittedD(1) [OF adm]] by blast
  have "(\<Sum>c\<leftarrow>removeAll g (g_children S up). rt_share (g_sys S) c) \<le> (\<Sum>c\<leftarrow>g_children S up. rt_share (g_sys S) c)"
    using sum_list_removeAll [OF groups_okD(4) [OF admittedD(1) [OF adm] up], of g "rt_share (g_sys S)"]
    by (cases "g \<in> set (g_children S up)") (simp_all add: removeAll_id)
  also have "\<dots> \<le> rt_share (g_sys S) up" by (rule group_admittedD(4) [OF admittedD(6) [OF adm up]])
  finally have room: "has_room S g (unat (to_ratio ?p 0))"
    using leaf by (simp add: has_room_def to_ratio_zero nu tg_parent_def)
  have fits: "rt_fits ?p 0" using rt_period_ok(1) [OF adm g(1)] by (simp add: rt_fits_def)
  obtain S' ret where r: "tg_set_rt_bandwidth G g ?p 0 S = Some (S', ret)" "admitted S'"
      "ret \<in> {0, - EINVAL, - EBUSY}" "ret \<noteq> 0 \<longrightarrow> S' = S" "ret = 0 \<longrightarrow> S' = with_rt_bandwidth g ?p 0 S"
      "ret = 0 \<longleftrightarrow> rt_fits ?p 0 \<and> has_room S g (unat (to_ratio ?p 0)) \<and>
        \<not> starves_root G S (snd (planned_rt_bandwidth (ask g ?p 0) (g_sys S) []))"
    by (rule tg_set_rt_bandwidth_result [OF adm g(1) rt_period_ok(1) [OF adm g(1)], of 0 G]) simp
  have "ret = 0" using r(6) room fits root g(2) by (simp add: planned_here starves_root_def)
  then show ?thesis using r(1,5) by (simp add: set_runtime_alt zero)
qed

section \<open>A sample\<close>

text \<open>The root with 0.95 of the processor, groups 4 and 2 below it with 0.3 and 0.2, and a group
  below group 4 with 0.1.\<close>

definition sample_groups :: "sample_ext gsys" where
  "sample_groups = \<lparr>g_sys = sample_sys\<lparr>
       tgs := (\<lambda>g. \<lparr>tg_rt_bandwidth = \<lparr>rtb_period = 1000000000, rtb_runtime =
         (if g = [] then 950000000 else if g = [4] then 300000000 else if g = [2] then 200000000 else 100000000)\<rparr>,
         tg_shares = 1024\<rparr>),
       rt_rqs := (\<lambda>g. sample_rt_rq\<lparr>rtq_runtime :=
         (if g = [] then 950000000 else if g = [4] then 300000000 else if g = [2] then 200000000 else 100000000)\<rparr>)\<rparr>,
     g_children = (\<lambda>g. if g = [] then [[2], [4]] else if g = [4] then [[3, 4]] else []),
     g_list = [[3, 4], [2], [4], []],
     g_def = \<lparr>rtb_period = 1000000000, rtb_runtime = 950000000\<rparr>, g_scheduler_running = True\<rparr>"

definition sample_genv :: "sample_ext genv" where
  "sample_genv = \<lparr>ge_threads = (\<lambda>_. [1, 2]), ge_alloc_fair = (\<lambda>_ x. (x, Some 1024)),
     ge_unregister_fair = (\<lambda>_ x. x), ge_free_fair = (\<lambda>_ x. x)\<rparr>"

lemma sample_groups_shape:
  "g_list sample_groups = [[3, 4], [2], [4], []]"
  "g_children sample_groups = (\<lambda>g. if g = [] then [[2], [4]] else if g = [4] then [[3, 4]] else [])"
  by (simp_all add: sample_groups_def)

lemma sample_groups_ok: "groups_ok sample_groups"
  by (auto simp: groups_ok_def sample_groups_shape tg_parent_def)

lemma sample_ratio:
  "to_ratio 1000000000 950000000 = 996147" "to_ratio 1000000000 300000000 = 314572"
  "to_ratio 1000000000 200000000 = 209715" "to_ratio 1000000000 100000000 = 104857"
  by code_simp+

lemma sample_share:
  "rt_share (g_sys sample_groups) [] = 996147" "rt_share (g_sys sample_groups) [4] = 314572"
  "rt_share (g_sys sample_groups) [2] = 209715" "rt_share (g_sys sample_groups) [3, 4] = 104857"
  "global_rt_period (g_sys sample_groups) = 1000000000"
  "global_rt_runtime (g_sys sample_groups) = 950000000"
  "global_rt_share (g_sys sample_groups) = 996147"
  by (simp_all add: rt_share_def sample_groups_def Let_def sample_ratio global_rt_share_def
      global_rt_period_def global_rt_runtime_def sample_sys_def NSEC_PER_USEC_def)

lemma sample_groups_admitted: "admitted sample_groups"
proof -
  have inf: "(950000000 :: u64) \<noteq> RUNTIME_INF" by (simp add: RUNTIME_INF_def)
  have "group_admitted sample_groups g" if "g \<in> {[], [4], [2], [3, 4]}" for g
    using that
    by (auto simp: group_admitted_def Let_def sample_share sample_groups_shape)
      (simp_all add: sample_groups_def rt_fits_def)
  then show ?thesis
    using sample_groups_ok by (simp add: admitted_def sample_groups_shape sample_share rt_fits_def)
      (simp add: sample_groups_def sample_sys_def)
qed

lemma sample_step:
  "group_step sample_env sample_genv sample_groups (sched_destroy_group sample_genv [2] sample_groups)"
  by (rule group_step.destroy) (simp_all add: sample_groups_shape)

text \<open>After group 2 is gone the groups 4 and 3 in 4 are left; group 4 alone is within the limit.\<close>

theorem rt_admission_invariant_witness:
  "let S' = sched_destroy_group sample_genv [2] sample_groups
   in g_list S' = [[3, 4], [4], []] \<and> admitted S' \<and>
      (\<Sum>h\<in>{[4]}. rt_share (g_sys S') h) \<le> global_rt_share (g_sys S')"
proof -
  have l: "g_list (sched_destroy_group sample_genv [2] sample_groups) = [[3, 4], [4], []]"
    by (simp add: sched_destroy_group_def free_sched_group_def Let_def sample_groups_shape)
  show ?thesis
    using rt_admission_invariant [OF sample_groups_admitted r_into_rtranclp [where r = "group_step sample_env sample_genv", OF sample_step], of "{[4]}"]
    unfolding Let_def l by simp
qed

lemma sample_accepts:
  "accepts_rt sample_genv sample_groups [2] 1000000000 (runtime_of_us 600000)"
  "\<not> accepts_rt sample_genv sample_groups [2] 1000000000 (runtime_of_us 700000)"
proof -
  have r: "runtime_of_us 600000 = 600000000" "runtime_of_us 700000 = 700000000" by code_simp+
  have q: "to_ratio 1000000000 600000000 = 629145" "to_ratio 1000000000 700000000 = 734003"
    by code_simp+
  have root: "rtb_runtime (tg_rt_bandwidth (tgs (g_sys sample_groups) [])) = 950000000"
    by (simp add: sample_groups_def)
  show "accepts_rt sample_genv sample_groups [2] 1000000000 (runtime_of_us 600000)"
    "\<not> accepts_rt sample_genv sample_groups [2] 1000000000 (runtime_of_us 700000)"
    by (simp_all add: accepts_rt_def r q rt_fits_def has_room_def sample_share sample_groups_shape
        tg_parent_def starves_root_def root)
qed

text \<open>Group 2 may have 0.6 of the processor beside the 0.3 of group 4, but not 0.7.\<close>

theorem rt_group_settings_witness:
  "(\<exists>S'. sched_group_set_rt_runtime sample_genv [2] 600000 sample_groups = Some (S', 0) \<and>
      sched_group_rt_runtime [2] S' = 600000) \<and>
   (\<exists>ret. sched_group_set_rt_runtime sample_genv [2] 700000 sample_groups = Some (sample_groups, ret) \<and>
      ret \<in> {- EINVAL, - EBUSY})"
proof -
  have g: "[2] \<in> set (g_list sample_groups)" by (simp add: sample_groups_shape)
  have p: "rtb_period (tg_rt_bandwidth (tgs (g_sys sample_groups) [2])) = 1000000000"
    by (simp add: sample_groups_def)
  have s: "\<not> sint (600000 :: ulong) < 0" by simp
  show ?thesis
    using rt_group_settings [OF sample_groups_admitted g, of sample_genv 600000]
      rt_group_settings [OF sample_groups_admitted g, of sample_genv 700000]
    unfolding p using sample_accepts s by auto
qed

end
