(* ===== verification/Account.thy ===== *)
theory Account
  imports Core Sample
begin

text \<open>
  Where the time goes: the accounting of timer ticks to tasks, to the processor's statistics and
  to the CPU accounting groups, the times that \<open>times\<close> and \<open>getrusage\<close> report, and the files of
  the groups (\<open>Prj2/kernel/sched/core.c\<close>). Both the plain accounting and the one with interrupt
  times (CONFIG_IRQ_TIME_ACCOUNTING) are here; the flag \<open>sched_clock_irqtime\<close> chooses.
\<close>

section \<open>State and environment\<close>

datatype cputime_index = CPUTIME_USER | CPUTIME_NICE | CPUTIME_SYSTEM | CPUTIME_SOFTIRQ
  | CPUTIME_IRQ | CPUTIME_IDLE | CPUTIME_IOWAIT | CPUTIME_STEAL | CPUTIME_GUEST | CPUTIME_GUEST_NICE

text \<open>The per-CPU interrupt times, the flag, and the previous times of \<open>struct signal_struct\<close>.\<close>

record 'x asys =
  a_sys :: "'x sys"
  sched_clock_irqtime :: bool
  cpu_hardirq_time :: u64
  cpu_softirq_time :: u64
  irq_start_time :: u64
  rq_prev_irq_time :: u64
  sig_prev_utime :: "nat \<Rightarrow> ulong"
  sig_prev_stime :: "nat \<Rightarrow> ulong"

record task_cputime =
  tc_utime :: ulong
  tc_stime :: ulong
  tc_sum_exec_runtime :: u64

text \<open>Headers and code outside the repository: the numbers of the statistics, the units of time,
  the nesting of interrupts, the interval timers and the accounting of other subsystems.\<close>

record 'x aenv =
  ae_index :: "cputime_index \<Rightarrow> nat"
  ae_one_jiffy :: ulong
  ae_to_scaled :: "ulong \<Rightarrow> ulong"
  ae_jiffies_to_cputime :: "ulong \<Rightarrow> ulong"
  ae_nsecs_to_cputime :: "u64 \<Rightarrow> ulong"
  ae_nsecs_to_cputime64 :: "u64 \<Rightarrow> u64"
  ae_cputime64_to_clock_t :: "u64 \<Rightarrow> u64"
  ae_account_group_user_time :: "task_ptr \<Rightarrow> ulong \<Rightarrow> 'x \<Rightarrow> 'x"
  ae_account_group_system_time :: "task_ptr \<Rightarrow> ulong \<Rightarrow> 'x \<Rightarrow> 'x"
  ae_acct_update_integrals :: "task_ptr \<Rightarrow> 'x \<Rightarrow> 'x"
  ae_irq_count :: "'x sys \<Rightarrow> u32"
  ae_hardirq_count :: "'x sys \<Rightarrow> u32"
  ae_in_serving_softirq :: "'x sys \<Rightarrow> bool"
  ae_HARDIRQ_OFFSET :: u32
  ae_ksoftirqd :: "'x \<Rightarrow> task_ptr option"
  ae_thread_group_cputime :: "'x sys \<Rightarrow> task_ptr \<Rightarrow> task_cputime"

definition PF_VCPU :: u32 where "PF_VCPU = 0x10"

abbreviation upd_a_sys :: "('x sys \<Rightarrow> 'x sys) \<Rightarrow> 'x asys \<Rightarrow> 'x asys" where
  "upd_a_sys f a \<equiv> a\<lparr>a_sys := f (a_sys a)\<rparr>"

section \<open>The time of the running task\<close>

definition do_task_delta_exec :: "'x env \<Rightarrow> task_ptr \<Rightarrow> 'x sys \<Rightarrow> 'x sys \<times> u64" where
  "do_task_delta_exec E p s =
     (if task_current s p then
        let s = update_rq_clock E s;
            ns = rq_clock_task (the_rq s) - se_exec_start (t_se (tasks s p))
        in (s, if sint ns < 0 then 0 else ns)
      else (s, 0))"

definition task_delta_exec :: "'x env \<Rightarrow> task_ptr \<Rightarrow> 'x sys \<Rightarrow> 'x sys \<times> u64" where
  "task_delta_exec E p s = do_task_delta_exec E p s"

definition task_sched_runtime :: "'x env \<Rightarrow> task_ptr \<Rightarrow> 'x sys \<Rightarrow> 'x sys \<times> u64" where
  "task_sched_runtime E p s =
     (let sum = se_sum_exec_runtime (t_se (tasks s p));
          (s, ns) = do_task_delta_exec E p s
      in (s, sum + ns))"

section \<open>Statistics of the processor and of the groups\<close>

definition add_cpustat :: "nat \<Rightarrow> u64 \<Rightarrow> 'x sys \<Rightarrow> 'x sys" where
  "add_cpustat i t s = s\<lparr>kcpustat := (kcpustat s)(i := kcpustat s i + t)\<rparr>"

text \<open>The loop over the group of a task and its ancestors, without the root.\<close>

primrec account_groups :: "ca_ptr \<Rightarrow> nat \<Rightarrow> u64 \<Rightarrow> (ca_ptr \<Rightarrow> cpuacct) \<Rightarrow> ca_ptr \<Rightarrow> cpuacct" where
  "account_groups [] i t m = m"
| "account_groups (n # up) i t m =
     account_groups up i t
       (m(n # up := (m (n # up))\<lparr>ca_cpustat := (ca_cpustat (m (n # up)))(i := ca_cpustat (m (n # up)) i + t)\<rparr>))"

definition task_group_account_field :: "'x env \<Rightarrow> task_ptr \<Rightarrow> nat \<Rightarrow> u64 \<Rightarrow> 'x sys \<Rightarrow> 'x sys" where
  "task_group_account_field E p i t s =
     (let s = add_cpustat i t s
      in if \<not> x_cpuacct_active E then s
         else s\<lparr>cpuaccts := account_groups (x_task_ca E (ext s) p) i t (cpuaccts s)\<rparr>)"

definition upd_ext :: "('x \<Rightarrow> 'x) \<Rightarrow> 'x sys \<Rightarrow> 'x sys" where
  "upd_ext f s = s\<lparr>ext := f (ext s)\<rparr>"

section \<open>Accounting of ticks\<close>

definition account_user_time :: "'x env \<Rightarrow> 'x aenv \<Rightarrow> task_ptr \<Rightarrow> ulong \<Rightarrow> ulong \<Rightarrow> 'x sys \<Rightarrow> 'x sys" where
  "account_user_time E A p cputime cputime_scaled s =
     (let s = upd_task p (\<lambda>t. t\<lparr>t_utime := t_utime t + cputime\<rparr>) s;
          s = upd_task p (\<lambda>t. t\<lparr>t_utimescaled := t_utimescaled t + cputime_scaled\<rparr>) s;
          s = upd_ext (ae_account_group_user_time A p cputime) s;
          index = (if task_nice (tasks s p) > 0 then CPUTIME_NICE else CPUTIME_USER);
          s = task_group_account_field E p (ae_index A index) (ucast cputime) s
      in upd_ext (ae_acct_update_integrals A p) s)"

definition account_guest_time :: "'x aenv \<Rightarrow> task_ptr \<Rightarrow> ulong \<Rightarrow> ulong \<Rightarrow> 'x sys \<Rightarrow> 'x sys" where
  "account_guest_time A p cputime cputime_scaled s =
     (let s = upd_task p (\<lambda>t. t\<lparr>t_utime := t_utime t + cputime\<rparr>) s;
          s = upd_task p (\<lambda>t. t\<lparr>t_utimescaled := t_utimescaled t + cputime_scaled\<rparr>) s;
          s = upd_ext (ae_account_group_user_time A p cputime) s;
          s = upd_task p (\<lambda>t. t\<lparr>t_gtime := t_gtime t + cputime\<rparr>) s
      in if task_nice (tasks s p) > 0 then
           add_cpustat (ae_index A CPUTIME_GUEST_NICE) (ucast cputime)
             (add_cpustat (ae_index A CPUTIME_NICE) (ucast cputime) s)
         else
           add_cpustat (ae_index A CPUTIME_GUEST) (ucast cputime)
             (add_cpustat (ae_index A CPUTIME_USER) (ucast cputime) s))"

definition account_system_time' ::
  "'x env \<Rightarrow> 'x aenv \<Rightarrow> task_ptr \<Rightarrow> ulong \<Rightarrow> ulong \<Rightarrow> cputime_index \<Rightarrow> 'x sys \<Rightarrow> 'x sys" where
  "account_system_time' E A p cputime cputime_scaled index s =
     (let s = upd_task p (\<lambda>t. t\<lparr>t_stime := t_stime t + cputime\<rparr>) s;
          s = upd_task p (\<lambda>t. t\<lparr>t_stimescaled := t_stimescaled t + cputime_scaled\<rparr>) s;
          s = upd_ext (ae_account_group_system_time A p cputime) s;
          s = task_group_account_field E p (ae_index A index) (ucast cputime) s
      in upd_ext (ae_acct_update_integrals A p) s)"

definition account_system_time ::
  "'x env \<Rightarrow> 'x aenv \<Rightarrow> task_ptr \<Rightarrow> u32 \<Rightarrow> ulong \<Rightarrow> ulong \<Rightarrow> 'x sys \<Rightarrow> 'x sys" where
  "account_system_time E A p hardirq_offset cputime cputime_scaled s =
     (if and (t_flags (tasks s p)) PF_VCPU \<noteq> 0 \<and> ae_irq_count A s - hardirq_offset = 0
      then account_guest_time A p cputime cputime_scaled s
      else
        let index = (if ae_hardirq_count A s - hardirq_offset \<noteq> 0 then CPUTIME_IRQ
                     else if ae_in_serving_softirq A s then CPUTIME_SOFTIRQ
                     else CPUTIME_SYSTEM)
        in account_system_time' E A p cputime cputime_scaled index s)"

definition account_steal_time :: "'x aenv \<Rightarrow> ulong \<Rightarrow> 'x sys \<Rightarrow> 'x sys" where
  "account_steal_time A cputime s = add_cpustat (ae_index A CPUTIME_STEAL) (ucast cputime) s"

definition account_idle_time :: "'x aenv \<Rightarrow> ulong \<Rightarrow> 'x sys \<Rightarrow> 'x sys" where
  "account_idle_time A cputime s =
     (if rq_nr_iowait (the_rq s) > 0
      then add_cpustat (ae_index A CPUTIME_IOWAIT) (ucast cputime) s
      else add_cpustat (ae_index A CPUTIME_IDLE) (ucast cputime) s)"

text \<open>Without CONFIG_PARAVIRT no time is stolen.\<close>

definition steal_account_process_tick :: bool where
  "steal_account_process_tick = False"

definition irqtime_account_hi_update :: "'x aenv \<Rightarrow> 'x asys \<Rightarrow> bool" where
  "irqtime_account_hi_update A a =
     (ae_nsecs_to_cputime64 A (cpu_hardirq_time a) > kcpustat (a_sys a) (ae_index A CPUTIME_IRQ))"

definition irqtime_account_si_update :: "'x aenv \<Rightarrow> 'x asys \<Rightarrow> bool" where
  "irqtime_account_si_update A a =
     (ae_nsecs_to_cputime64 A (cpu_softirq_time a) > kcpustat (a_sys a) (ae_index A CPUTIME_SOFTIRQ))"

definition irqtime_account_process_tick ::
  "'x env \<Rightarrow> 'x aenv \<Rightarrow> task_ptr \<Rightarrow> bool \<Rightarrow> 'x asys \<Rightarrow> 'x asys" where
  "irqtime_account_process_tick E A p user_tick a =
     (let one = ae_one_jiffy A; one_jiffy_scaled = ae_to_scaled A one
      in if steal_account_process_tick then a
         else if irqtime_account_hi_update A a then
           upd_a_sys (add_cpustat (ae_index A CPUTIME_IRQ) (ucast one)) a
         else if irqtime_account_si_update A a then
           upd_a_sys (add_cpustat (ae_index A CPUTIME_SOFTIRQ) (ucast one)) a
         else if ae_ksoftirqd A (ext (a_sys a)) = Some p then
           upd_a_sys (account_system_time' E A p one one_jiffy_scaled CPUTIME_SOFTIRQ) a
         else if user_tick then
           upd_a_sys (account_user_time E A p one one_jiffy_scaled) a
         else if p = rq_idle (the_rq (a_sys a)) then
           upd_a_sys (account_idle_time A one) a
         else if and (t_flags (tasks (a_sys a) p)) PF_VCPU \<noteq> 0 then
           upd_a_sys (account_guest_time A p one one_jiffy_scaled) a
         else
           upd_a_sys (account_system_time' E A p one one_jiffy_scaled CPUTIME_SYSTEM) a)"

primrec irqtime_account_idle_ticks :: "'x env \<Rightarrow> 'x aenv \<Rightarrow> nat \<Rightarrow> 'x asys \<Rightarrow> 'x asys" where
  "irqtime_account_idle_ticks E A 0 a = a"
| "irqtime_account_idle_ticks E A (Suc ticks) a =
     irqtime_account_idle_ticks E A ticks
       (irqtime_account_process_tick E A (curr (a_sys a)) False a)"

definition account_process_tick ::
  "'x env \<Rightarrow> 'x aenv \<Rightarrow> task_ptr \<Rightarrow> bool \<Rightarrow> 'x asys \<Rightarrow> 'x asys" where
  "account_process_tick E A p user_tick a =
     (let one = ae_one_jiffy A; one_jiffy_scaled = ae_to_scaled A one
      in if sched_clock_irqtime a then irqtime_account_process_tick E A p user_tick a
         else if steal_account_process_tick then a
         else if user_tick then
           upd_a_sys (account_user_time E A p one one_jiffy_scaled) a
         else if p \<noteq> rq_idle (the_rq (a_sys a)) \<or> ae_irq_count A (a_sys a) \<noteq> ae_HARDIRQ_OFFSET A then
           upd_a_sys (account_system_time E A p (ae_HARDIRQ_OFFSET A) one one_jiffy_scaled) a
         else upd_a_sys (account_idle_time A one) a)"

definition account_steal_ticks :: "'x aenv \<Rightarrow> ulong \<Rightarrow> 'x asys \<Rightarrow> 'x asys" where
  "account_steal_ticks A ticks = upd_a_sys (account_steal_time A (ae_jiffies_to_cputime A ticks))"

text \<open>The int of \<open>irqtime_account_idle_ticks\<close> gets the unsigned long \<open>ticks\<close>.\<close>

definition account_idle_ticks :: "'x env \<Rightarrow> 'x aenv \<Rightarrow> ulong \<Rightarrow> 'x asys \<Rightarrow> 'x asys" where
  "account_idle_ticks E A ticks a =
     (if sched_clock_irqtime a then irqtime_account_idle_ticks E A (nat (sint ticks)) a
      else upd_a_sys (account_idle_time A (ae_jiffies_to_cputime A ticks)) a)"

section \<open>Interrupt times\<close>

definition enable_sched_clock_irqtime :: "'x asys \<Rightarrow> 'x asys" where
  "enable_sched_clock_irqtime a = a\<lparr>sched_clock_irqtime := True\<rparr>"

definition disable_sched_clock_irqtime :: "'x asys \<Rightarrow> 'x asys" where
  "disable_sched_clock_irqtime a = a\<lparr>sched_clock_irqtime := False\<rparr>"

definition irq_time_read :: "'x asys \<Rightarrow> u64" where
  "irq_time_read a = cpu_softirq_time a + cpu_hardirq_time a"

definition account_system_vtime :: "'x env \<Rightarrow> 'x aenv \<Rightarrow> task_ptr \<Rightarrow> 'x asys \<Rightarrow> 'x asys" where
  "account_system_vtime E A c a =
     (if \<not> sched_clock_irqtime a then a
      else
        let (now, x) = x_sched_clock E (ext (a_sys a));
            a = upd_a_sys (\<lambda>s. s\<lparr>ext := x\<rparr>) a;
            delta = now - irq_start_time a;
            a = a\<lparr>irq_start_time := irq_start_time a + delta\<rparr>
        in if ae_hardirq_count A (a_sys a) \<noteq> 0 then a\<lparr>cpu_hardirq_time := cpu_hardirq_time a + delta\<rparr>
           else if ae_in_serving_softirq A (a_sys a) \<and> ae_ksoftirqd A (ext (a_sys a)) \<noteq> Some c
           then a\<lparr>cpu_softirq_time := cpu_softirq_time a + delta\<rparr>
           else a)"

text \<open>\<open>update_rq_clock_task\<close> of the build with interrupt times; all values are signed 64-bit.\<close>

definition update_rq_clock_task_irq :: "u64 \<Rightarrow> 'x asys \<Rightarrow> 'x asys" where
  "update_rq_clock_task_irq delta a =
     (let irq_delta = irq_time_read a - rq_prev_irq_time a;
          irq_delta = (if sint irq_delta > sint delta then delta else irq_delta);
          a = a\<lparr>rq_prev_irq_time := rq_prev_irq_time a + irq_delta\<rparr>;
          delta = delta - irq_delta
      in upd_a_sys (upd_rq (rq_clock_task_update (\<lambda>c. c + delta))) a)"

section \<open>Reported times\<close>

text \<open>\<open>cputime_t\<close> has 4 bytes; a total of 0 is excluded by the callers.\<close>

definition scale_utime :: "ulong \<Rightarrow> ulong \<Rightarrow> ulong \<Rightarrow> ulong" where
  "scale_utime utime rtime tot =
     (let temp = (ucast rtime :: u64);
          temp = temp * ucast utime;
          temp = temp div ucast tot
      in ucast temp)"

definition task_times :: "'x aenv \<Rightarrow> task_ptr \<Rightarrow> 'x sys \<Rightarrow> 'x sys \<times> ulong \<times> ulong" where
  "task_times A p s =
     (let utime = t_utime (tasks s p);
          tot = utime + t_stime (tasks s p);
          rtime = ae_nsecs_to_cputime A (se_sum_exec_runtime (t_se (tasks s p)));
          utime = (if tot \<noteq> 0 then scale_utime utime rtime tot else rtime);
          s = upd_task p (\<lambda>t. t\<lparr>t_prev_utime := max (t_prev_utime t) utime\<rparr>) s;
          s = upd_task p (\<lambda>t. t\<lparr>t_prev_stime := max (t_prev_stime t) (rtime - t_prev_utime t)\<rparr>) s
      in (s, t_prev_utime (tasks s p), t_prev_stime (tasks s p)))"

definition thread_group_times :: "'x aenv \<Rightarrow> task_ptr \<Rightarrow> 'x asys \<Rightarrow> 'x asys \<times> ulong \<times> ulong" where
  "thread_group_times A p a =
     (let sig = t_signal (tasks (a_sys a) p);
          cputime = ae_thread_group_cputime A (a_sys a) p;
          tot = tc_utime cputime + tc_stime cputime;
          rtime = ae_nsecs_to_cputime A (tc_sum_exec_runtime cputime);
          utime = (if tot \<noteq> 0 then scale_utime (tc_utime cputime) rtime tot else rtime);
          a = a\<lparr>sig_prev_utime := (sig_prev_utime a)(sig := max (sig_prev_utime a sig) utime)\<rparr>;
          a = a\<lparr>sig_prev_stime := (sig_prev_stime a)
            (sig := max (sig_prev_stime a sig) (rtime - sig_prev_utime a sig))\<rparr>
      in (a, sig_prev_utime a sig, sig_prev_stime a sig))"

section \<open>The files of an accounting group\<close>

text \<open>The statistics of the root group are those of the processor.\<close>

definition ca_stat :: "'x sys \<Rightarrow> ca_ptr \<Rightarrow> nat \<Rightarrow> u64" where
  "ca_stat s ca i = (if ca = [] then kcpustat s i else ca_cpustat (cpuaccts s ca) i)"

definition cpuacct_cpuusage_read :: "ca_ptr \<Rightarrow> 'x sys \<Rightarrow> u64" where
  "cpuacct_cpuusage_read ca s = ca_cpuusage (cpuaccts s ca)"

definition cpuacct_cpuusage_write :: "ca_ptr \<Rightarrow> u64 \<Rightarrow> 'x sys \<Rightarrow> 'x sys" where
  "cpuacct_cpuusage_write ca val s =
     s\<lparr>cpuaccts := (cpuaccts s)(ca := (cpuaccts s ca)\<lparr>ca_cpuusage := val\<rparr>)\<rparr>"

definition cpuusage_read :: "ca_ptr \<Rightarrow> 'x sys \<Rightarrow> u64" where
  "cpuusage_read cgrp s = 0 + cpuacct_cpuusage_read cgrp s"

definition cpuusage_write :: "ca_ptr \<Rightarrow> u64 \<Rightarrow> 'x sys \<Rightarrow> 'x sys \<times> int" where
  "cpuusage_write cgrp reset s =
     (if reset \<noteq> 0 then (s, - EINVAL) else (cpuacct_cpuusage_write cgrp 0 s, 0))"

text \<open>The two lines of the file, in the order written.\<close>

definition cpuacct_stats_show :: "'x aenv \<Rightarrow> ca_ptr \<Rightarrow> 'x sys \<Rightarrow> (string \<times> u64) list" where
  "cpuacct_stats_show A cgrp s =
     (let val = 0 + ca_stat s cgrp (ae_index A CPUTIME_USER);
          val = val + ca_stat s cgrp (ae_index A CPUTIME_NICE);
          user = ae_cputime64_to_clock_t A val;
          val = 0 + ca_stat s cgrp (ae_index A CPUTIME_SYSTEM);
          val = val + ca_stat s cgrp (ae_index A CPUTIME_IRQ);
          val = val + ca_stat s cgrp (ae_index A CPUTIME_SOFTIRQ);
          system = ae_cputime64_to_clock_t A val
      in [(''user'', user), (''system'', system)])"

text \<open>Creating a group; the list says which of the three allocations succeed. Memory is zeroed.\<close>

definition cpuacct_create :: "bool list \<Rightarrow> ca_ptr \<Rightarrow> 'x sys \<Rightarrow> 'x sys \<times> (int + ca_ptr)" where
  "cpuacct_create mem cgrp s =
     (if cgrp = [] then (s, Inr [])
      else if \<not> mem ! 0 then (s, Inl (- 12))
      else if \<not> mem ! 1 then (s, Inl (- 12))
      else if \<not> mem ! 2 then (s, Inl (- 12))
      else (s\<lparr>cpuaccts := (cpuaccts s)(cgrp := \<lparr>ca_cpuusage = 0, ca_cpustat = (\<lambda>_. 0)\<rparr>)\<rparr>, Inr cgrp))"

section \<open>Where a tick goes\<close>

text \<open>
  A tick goes to one field of the statistics. \<open>ToTask\<close> is for a task, its group and the groups
  above, \<open>ToGuest\<close> is a virtual processor's time, which a second field shows again, \<open>ToCpu\<close> is
  nobody's time.
\<close>

datatype tick_target = ToTask cputime_index | ToGuest cputime_index cputime_index | ToCpu cputime_index

definition user_index :: "task_struct \<Rightarrow> cputime_index" where
  "user_index t = (if task_nice t > 0 then CPUTIME_NICE else CPUTIME_USER)"

definition guest_target :: "task_struct \<Rightarrow> tick_target" where
  "guest_target t = (if task_nice t > 0 then ToGuest CPUTIME_NICE CPUTIME_GUEST_NICE
     else ToGuest CPUTIME_USER CPUTIME_GUEST)"

definition idle_target :: "'x sys \<Rightarrow> tick_target" where
  "idle_target s = ToCpu (if rq_nr_iowait (the_rq s) > 0 then CPUTIME_IOWAIT else CPUTIME_IDLE)"

text \<open>With interrupt times, interrupts that are behind their clock go first.\<close>

definition tick_target :: "'x aenv \<Rightarrow> task_ptr \<Rightarrow> bool \<Rightarrow> 'x asys \<Rightarrow> tick_target" where
  "tick_target A p user a =
     (let s = a_sys a; t = tasks s p
      in if sched_clock_irqtime a then
           if irqtime_account_hi_update A a then ToCpu CPUTIME_IRQ
           else if irqtime_account_si_update A a then ToCpu CPUTIME_SOFTIRQ
           else if ae_ksoftirqd A (ext s) = Some p then ToTask CPUTIME_SOFTIRQ
           else if user then ToTask (user_index t)
           else if p = rq_idle (the_rq s) then idle_target s
           else if and (t_flags t) PF_VCPU \<noteq> 0 then guest_target t
           else ToTask CPUTIME_SYSTEM
         else
           if user then ToTask (user_index t)
           else if p = rq_idle (the_rq s) \<and> ae_irq_count A s = ae_HARDIRQ_OFFSET A then idle_target s
           else if and (t_flags t) PF_VCPU \<noteq> 0 \<and> ae_irq_count A s = ae_HARDIRQ_OFFSET A then guest_target t
           else if ae_hardirq_count A s \<noteq> ae_HARDIRQ_OFFSET A then ToTask CPUTIME_IRQ
           else if ae_in_serving_softirq A s then ToTask CPUTIME_SOFTIRQ
           else ToTask CPUTIME_SYSTEM)"







lemma account_groups_stat:
  "g \<noteq> [] \<Longrightarrow> ca_cpustat (account_groups ca i t m g) j =
    ca_cpustat (m g) j + (if suffix g ca \<and> j = i then t else 0)"
proof (induction ca arbitrary: m)
  case (Cons n up)
  have "\<not> suffix (n # up) up" by (auto dest: suffix_length_le)
  then show ?case using Cons by (auto simp: suffix_Cons)
qed simp

lemma add_cpustat_simps [simp]:
  "kcpustat (add_cpustat i t s) j = kcpustat s j + (if j = i then t else 0)"
  "cpuaccts (add_cpustat i t s) = cpuaccts s" "tasks (add_cpustat i t s) = tasks s"
  "ext (add_cpustat i t s) = ext s" "the_rq (add_cpustat i t s) = the_rq s"
  by (simp_all add: add_cpustat_def)

lemma upd_ext_simps [simp]:
  "kcpustat (upd_ext f s) = kcpustat s" "cpuaccts (upd_ext f s) = cpuaccts s"
  "tasks (upd_ext f s) = tasks s" "ext (upd_ext f s) = f (ext s)" "the_rq (upd_ext f s) = the_rq s"
  by (simp_all add: upd_ext_def)

lemma group_field_simps [simp]:
  "kcpustat (task_group_account_field E p i t s) j = kcpustat s j + (if j = i then t else 0)"
  "tasks (task_group_account_field E p i t s) = tasks s"
  "ext (task_group_account_field E p i t s) = ext s"
  "the_rq (task_group_account_field E p i t s) = the_rq s"
  "g \<noteq> [] \<Longrightarrow> ca_cpustat (cpuaccts (task_group_account_field E p i t s) g) j = ca_cpustat (cpuaccts s g) j +
    (if x_cpuacct_active E \<and> j = i \<and> suffix g (x_task_ca E (ext s) p) then t else 0)"
  by (auto simp: task_group_account_field_def Let_def account_groups_stat)









text \<open>A run with a number of ticks; between them anything happens that leaves the statistics alone.\<close>

inductive ticks_run :: "'x env \<Rightarrow> 'x aenv \<Rightarrow> nat \<Rightarrow> 'x asys \<Rightarrow> 'x asys \<Rightarrow> bool"
  for E :: "'x env" and A :: "'x aenv" where
  start: "ticks_run E A 0 a a"
| tick: "ticks_run E A n a b \<Longrightarrow> ticks_run E A (Suc n) a (account_process_tick E A p user b)"
| other: "ticks_run E A n a b \<Longrightarrow> kcpustat (a_sys c) = kcpustat (a_sys b) \<Longrightarrow> ticks_run E A n a c"





section \<open>Reported times\<close>

lemma scale_utime_le:
  assumes "unat utime \<le> unat tot" and "tot \<noteq> 0"
  shows "unat (scale_utime utime rtime tot) = unat rtime * unat utime div unat tot"
    and "scale_utime utime rtime tot \<le> rtime"
proof -
  have lt: "unat rtime < 2 ^ 32" "unat utime < 2 ^ 32" "unat tot < 2 ^ 32"
    using unsigned_less_nat [of rtime] unsigned_less_nat [of utime] unsigned_less_nat [of tot] by simp_all
  have prod: "unat rtime * unat utime < 2 ^ 64"
    using mult_strict_mono [OF lt(1,2)] by simp
  have le: "unat rtime * unat utime div unat tot \<le> unat rtime"
    using div_le_mono [OF mult_le_mono2 [OF assms(1)], of "unat rtime" "unat tot"] assms(2)
    by (simp add: unat_gt_0)
  have u: "unat (ucast w :: u64) = unat w" if "unat w < 2 ^ 32" for w :: ulong
    using that by (simp add: unsigned_ucast_eq take_bit_nat_eq_self)
  have "unat ((ucast rtime :: u64) * ucast utime div ucast tot) = unat rtime * unat utime div unat tot"
    using unat_mult_small [of "ucast rtime :: u64" "ucast utime"] prod lt by (simp add: unat_div u)
  then show eq: "unat (scale_utime utime rtime tot) = unat rtime * unat utime div unat tot"
    using le lt(1) by (simp add: scale_utime_def Let_def unsigned_ucast_eq take_bit_nat_eq_self)
  show "scale_utime utime rtime tot \<le> rtime" using le by (simp add: word_le_nat_alt eq)
qed

text \<open>The rule by which both functions move the times reported before.\<close>

definition next_times :: "ulong \<Rightarrow> ulong \<Rightarrow> ulong \<Rightarrow> ulong \<times> ulong \<Rightarrow> ulong \<times> ulong" where
  "next_times utime stime rtime prev =
     (let u = (if utime + stime \<noteq> 0 then scale_utime utime rtime (utime + stime) else rtime);
          pu = max (fst prev) u
      in (pu, max (snd prev) (rtime - pu)))"

lemma next_times_bounds:
  assumes "unat utime + unat stime < 2 ^ 32" and "pu \<le> rtime" and "ps \<le> rtime"
    and "next_times utime stime rtime (pu, ps) = (ut, st)"
  shows "pu \<le> ut" "ps \<le> st" "ut \<le> rtime" "st \<le> rtime" "unat rtime \<le> unat ut + unat st"
proof -
  have tot: "unat (utime + stime) = unat utime + unat stime"
    using assms(1) by (intro unat_add_small) simp
  let ?u = "if utime + stime \<noteq> 0 then scale_utime utime rtime (utime + stime) else rtime"
  have u: "?u \<le> rtime" using scale_utime_le(2) [of utime "utime + stime" rtime] tot by simp
  have eq: "ut = max pu ?u" "st = max ps (rtime - ut)"
    using assms(4) by (auto simp: next_times_def Let_def)
  show le: "pu \<le> ut" "ps \<le> st" "ut \<le> rtime" using eq u assms(2) by simp_all
  show "st \<le> rtime" unfolding eq(2) using assms(3) le(3) by (simp add: word_le_sub_le)
  have "unat (rtime - ut) = unat rtime - unat ut" using le(3) by (simp add: unat_sub)
  moreover have "rtime - ut \<le> st" unfolding eq(2) by simp
  ultimately show "unat rtime \<le> unat ut + unat st" by (simp add: word_le_nat_alt)
qed

lemma task_times_next:
  "task_times A p s = (s', ut, st) \<Longrightarrow>
    (ut, st) = next_times (t_utime (tasks s p)) (t_stime (tasks s p))
      (ae_nsecs_to_cputime A (se_sum_exec_runtime (t_se (tasks s p))))
      (t_prev_utime (tasks s p), t_prev_stime (tasks s p)) \<and>
    t_prev_utime (tasks s' p) = ut \<and> t_prev_stime (tasks s' p) = st"
  by (auto simp: task_times_def next_times_def Let_def)

lemma thread_group_times_next:
  "thread_group_times A p a = (a', ut, st) \<Longrightarrow>
    (ut, st) = next_times (tc_utime (ae_thread_group_cputime A (a_sys a) p))
      (tc_stime (ae_thread_group_cputime A (a_sys a) p))
      (ae_nsecs_to_cputime A (tc_sum_exec_runtime (ae_thread_group_cputime A (a_sys a) p)))
      (sig_prev_utime a (t_signal (tasks (a_sys a) p)), sig_prev_stime a (t_signal (tasks (a_sys a) p))) \<and>
    sig_prev_utime a' (t_signal (tasks (a_sys a) p)) = ut \<and>
    sig_prev_stime a' (t_signal (tasks (a_sys a) p)) = st"
  by (auto simp: thread_group_times_def next_times_def Let_def)

text \<open>The time a task ran, in the unit of the reports; reports so far stay within it.\<close>

definition run_time :: "'x aenv \<Rightarrow> task_ptr \<Rightarrow> 'x sys \<Rightarrow> ulong" where
  "run_time A p s = ae_nsecs_to_cputime A (se_sum_exec_runtime (t_se (tasks s p)))"

definition reports_ok :: "'x aenv \<Rightarrow> task_ptr \<Rightarrow> 'x sys \<Rightarrow> bool" where
  "reports_ok A p s \<longleftrightarrow>
     t_prev_utime (tasks s p) \<le> run_time A p s \<and> t_prev_stime (tasks s p) \<le> run_time A p s"

definition ticks_fit :: "task_ptr \<Rightarrow> 'x sys \<Rightarrow> bool" where
  "ticks_fit p s \<longleftrightarrow> unat (t_utime (tasks s p)) + unat (t_stime (tasks s p)) < 2 ^ 32"

text \<open>A task's reports in the order they are asked for; in between it may run and be accounted.\<close>

inductive report_run :: "'x aenv \<Rightarrow> task_ptr \<Rightarrow> 'x sys \<Rightarrow> (ulong \<times> ulong) list \<Rightarrow> 'x sys \<Rightarrow> bool"
  for A :: "'x aenv" and p :: task_ptr where
  start: "report_run A p s [] s"
| report: "report_run A p s rs s1 \<Longrightarrow> ticks_fit p s1 \<Longrightarrow> task_times A p s1 = (s2, r) \<Longrightarrow>
    report_run A p s (rs @ [r]) s2"
| run: "report_run A p s rs s1 \<Longrightarrow> run_time A p s1 \<le> run_time A p s2 \<Longrightarrow>
    t_prev_utime (tasks s2 p) = t_prev_utime (tasks s1 p) \<Longrightarrow>
    t_prev_stime (tasks s2 p) = t_prev_stime (tasks s1 p) \<Longrightarrow> report_run A p s rs s2"

lemma task_times_run_time: "task_times A p s = (s', r) \<Longrightarrow> run_time A p s' = run_time A p s"
  by (auto simp: task_times_def run_time_def Let_def)

lemma task_times_bounds:
  assumes "reports_ok A p s" and "ticks_fit p s" and "task_times A p s = (s', ut, st)"
  shows "t_prev_utime (tasks s p) \<le> ut" "t_prev_stime (tasks s p) \<le> st" "ut \<le> run_time A p s"
    "st \<le> run_time A p s" "unat (run_time A p s) \<le> unat ut + unat st"
    "t_prev_utime (tasks s' p) = ut" "t_prev_stime (tasks s' p) = st"
proof -
  have n: "next_times (t_utime (tasks s p)) (t_stime (tasks s p)) (run_time A p s)
      (t_prev_utime (tasks s p), t_prev_stime (tasks s p)) = (ut, st)"
    using task_times_next [OF assms(3)] by (simp add: run_time_def)
  show "t_prev_utime (tasks s p) \<le> ut" "t_prev_stime (tasks s p) \<le> st" "ut \<le> run_time A p s"
    "st \<le> run_time A p s" "unat (run_time A p s) \<le> unat ut + unat st"
    using next_times_bounds [OF _ _ _ n] assms(1,2) by (simp_all add: reports_ok_def ticks_fit_def)
  show "t_prev_utime (tasks s' p) = ut" "t_prev_stime (tasks s' p) = st"
    using task_times_next [OF assms(3)] by simp_all
qed

abbreviation no_less :: "ulong \<times> ulong \<Rightarrow> ulong \<times> ulong \<Rightarrow> bool" where
  "no_less r r' \<equiv> fst r \<le> fst r' \<and> snd r \<le> snd r'"

lemma report_run_sorted:
  assumes "report_run A p s rs s'" and "reports_ok A p s"
  shows "reports_ok A p s' \<and> sorted_wrt no_less rs \<and>
    (\<forall>r\<in>set rs. no_less r (t_prev_utime (tasks s' p), t_prev_stime (tasks s' p)))"
  using assms
proof induction
  case (report s rs s1 s2 r)
  obtain ut st where r: "r = (ut, st)" by fastforce
  have ok: "reports_ok A p s1" using report by simp
  note b = task_times_bounds [OF ok report(2) report(3) [unfolded r]]
  have "reports_ok A p s2"
    using b task_times_run_time [OF report(3)] by (simp add: reports_ok_def)
  moreover have "no_less q r" if "q \<in> set rs" for q
    using report(4,5) b(1,2) that by (auto simp: r intro: order_trans)
  ultimately show ?case
    using report(4,5) b(6,7) by (auto simp: sorted_wrt_append r)
qed (auto simp: reports_ok_def intro: order_trans)

text \<open>The times of a thread group follow the same rule.\<close>

lemma thread_group_times_bounds:
  assumes "unat (tc_utime (ae_thread_group_cputime A (a_sys a) p)) +
      unat (tc_stime (ae_thread_group_cputime A (a_sys a) p)) < 2 ^ 32"
    and "sig_prev_utime a (t_signal (tasks (a_sys a) p)) \<le> rtime"
    and "sig_prev_stime a (t_signal (tasks (a_sys a) p)) \<le> rtime"
    and "rtime = ae_nsecs_to_cputime A (tc_sum_exec_runtime (ae_thread_group_cputime A (a_sys a) p))"
    and "thread_group_times A p a = (a', ut, st)"
  shows "sig_prev_utime a (t_signal (tasks (a_sys a) p)) \<le> ut"
    "sig_prev_stime a (t_signal (tasks (a_sys a) p)) \<le> st"
    "ut \<le> rtime" "st \<le> rtime" "unat rtime \<le> unat ut + unat st"
proof -
  have n: "next_times (tc_utime (ae_thread_group_cputime A (a_sys a) p))
      (tc_stime (ae_thread_group_cputime A (a_sys a) p)) rtime
      (sig_prev_utime a (t_signal (tasks (a_sys a) p)), sig_prev_stime a (t_signal (tasks (a_sys a) p))) =
      (ut, st)"
    using thread_group_times_next [OF assms(5)] assms(4) by simp
  show "sig_prev_utime a (t_signal (tasks (a_sys a) p)) \<le> ut"
    "sig_prev_stime a (t_signal (tasks (a_sys a) p)) \<le> st"
    "ut \<le> rtime" "st \<le> rtime" "unat rtime \<le> unat ut + unat st"
    by (rule next_times_bounds [OF assms(1-3) n])+
qed

text \<open>With interrupt times the task clock of the run queue and the interrupt time taken out of it
  together advance by what the clock does.\<close>

lemma clock_task_irq:
  "rq_clock_task (the_rq (a_sys (update_rq_clock_task_irq delta a))) +
     rq_prev_irq_time (update_rq_clock_task_irq delta a) =
   rq_clock_task (the_rq (a_sys a)) + rq_prev_irq_time a + delta"
  by (simp add: update_rq_clock_task_irq_def Let_def)

text \<open>C32: The times reported for a task never go back, however often and whenever they are asked
  for while the task runs and is accounted, the user and the system time each stay within the time
  the task ran, and together they cover it, as long as its ticks fit 32 bits.\<close>

theorem reported_times:
  assumes "report_run A p s rs s'" and "reports_ok A p s" and "ticks_fit p s'"
    and "task_times A p s' = (s'', ut, st)"
  shows "sorted_wrt no_less (rs @ [(ut, st)]) \<and> ut \<le> run_time A p s' \<and> st \<le> run_time A p s' \<and>
      unat (run_time A p s') \<le> unat ut + unat st"
proof -
  note r = report_run_sorted [OF assms(1,2)]
  note b = task_times_bounds [OF conjunct1 [OF r] assms(3,4)]
  show ?thesis using r b by (auto simp: sorted_wrt_append intro: order_trans)
qed

section \<open>A sample\<close>

primrec sample_index :: "cputime_index \<Rightarrow> nat" where
  "sample_index CPUTIME_USER = 0"
| "sample_index CPUTIME_NICE = 1"
| "sample_index CPUTIME_SYSTEM = 2"
| "sample_index CPUTIME_SOFTIRQ = 3"
| "sample_index CPUTIME_IRQ = 4"
| "sample_index CPUTIME_IDLE = 5"
| "sample_index CPUTIME_IOWAIT = 6"
| "sample_index CPUTIME_STEAL = 7"
| "sample_index CPUTIME_GUEST = 8"
| "sample_index CPUTIME_GUEST_NICE = 9"


text \<open>A jiffy is 10 milliseconds; there are no interrupts but the timer's.\<close>

definition sample_aenv :: "sample_ext aenv" where
  "sample_aenv = \<lparr>ae_index = sample_index, ae_one_jiffy = 1, ae_to_scaled = (\<lambda>c. c),
     ae_jiffies_to_cputime = (\<lambda>j. j), ae_nsecs_to_cputime = (\<lambda>ns. ucast (ns div 10000000)),
     ae_nsecs_to_cputime64 = (\<lambda>ns. ns div 10000000), ae_cputime64_to_clock_t = (\<lambda>c. c),
     ae_account_group_user_time = (\<lambda>_ _ x. x), ae_account_group_system_time = (\<lambda>_ _ x. x),
     ae_acct_update_integrals = (\<lambda>_ x. x), ae_irq_count = (\<lambda>_. 0x10000),
     ae_hardirq_count = (\<lambda>_. 0x10000), ae_in_serving_softirq = (\<lambda>_. False),
     ae_HARDIRQ_OFFSET = 0x10000, ae_ksoftirqd = (\<lambda>_. None),
     ae_thread_group_cputime = (\<lambda>s p. \<lparr>tc_utime = t_utime (tasks s p), tc_stime = t_stime (tasks s p),
       tc_sum_exec_runtime = se_sum_exec_runtime (t_se (tasks s p))\<rparr>)\<rparr>"




text \<open>Task 1 after 8 jiffies of running, 3 of 4 ticks in user mode.\<close>

definition sample_busy :: "sample_ext sys" where
  "sample_busy = upd_task 1 (\<lambda>t. t\<lparr>t_utime := 3, t_stime := 1,
     t_se := (t_se t)\<lparr>se_sum_exec_runtime := 80000000\<rparr>\<rparr>) sample_sys"

lemma sample_report: "\<exists>s'. task_times sample_aenv 1 sample_busy = (s', 6, 2)"
proof -
  have r: "scale_utime 3 8 4 = 6" by code_simp
  show ?thesis
    by (simp add: task_times_def Let_def sample_busy_def sample_aenv_def sample_sys_def sample_tasks_def
        sample_wrr_task_def sample_task_def sample_se_def r)
qed

theorem reported_times_witness:
  "\<exists>s1 s2 r. task_times sample_aenv 1 sample_busy = (s1, 6, 2) \<and> task_times sample_aenv 1 s1 = (s2, r) \<and>
     sorted_wrt no_less [(6, 2), r]"
proof -
  obtain s1 where s1: "task_times sample_aenv 1 sample_busy = (s1, 6, 2)" using sample_report by blast
  obtain s2 ut st where s2: "task_times sample_aenv 1 s1 = (s2, ut, st)" by (metis prod_cases3)
  have fit: "ticks_fit 1 sample_busy" by (simp add: ticks_fit_def sample_busy_def)
  have "t_utime (tasks s1 1) = t_utime (tasks sample_busy 1)" "t_stime (tasks s1 1) = t_stime (tasks sample_busy 1)"
    using s1 by (auto simp: task_times_def Let_def)
  then have fit1: "ticks_fit 1 s1" using fit by (simp add: ticks_fit_def)
  have ok: "reports_ok sample_aenv 1 sample_busy"
    by (simp add: reports_ok_def sample_busy_def sample_sys_def sample_tasks_def sample_wrr_task_def sample_task_def)
  have "report_run sample_aenv 1 sample_busy ([] @ [(6, 2)]) s1"
    by (rule report_run.report [OF report_run.start fit s1])
  from reported_times [OF this ok fit1 s2] show ?thesis using s1 s2 by auto
qed

end
