(* ===== verification/Waitq.thy ===== *)
theory Waitq
  imports Core_Spec
begin

text \<open>
  Wait queues and completions, the part of \<open>Prj2/kernel/sched/core.c\<close> from
  \<open>default_wake_function\<close> to \<open>sleep_on_timeout\<close>. A function that blocks is split where it calls
  \<open>schedule_timeout\<close>: the first part runs up to the call, the second from its return.
\<close>

section \<open>State and environment\<close>

text \<open>\<open>'w\<close> holds the wait queues; \<open>w_done x\<close> is \<open>x->done\<close> of the completion whose \<open>wait\<close> is the
  queue \<open>x\<close>.\<close>

record ('x, 'w) wsys =
  w_sys :: "'x sys"
  w_queues :: 'w
  w_done :: "nat \<Rightarrow> u32"

datatype wait_func = Default_wake_function | Other_wake_function nat

text \<open>
  The header \<open>linux/wait.h\<close> is not in the repository: the entries of a queue in order, the fields of
  an entry, and the operations on them are parameters, and so are other wakeup functions. An
  entry on the stack of a waiting task is named by the task.
\<close>

record ('x, 'w) wait_ops =
  wq_task_list :: "nat \<Rightarrow> 'w \<Rightarrow> nat list"
  wq_flags :: "nat \<Rightarrow> 'w \<Rightarrow> u32"
  wq_private :: "nat \<Rightarrow> 'w \<Rightarrow> task_ptr"
  wq_func :: "nat \<Rightarrow> 'w \<Rightarrow> wait_func"
  wq_init_entry :: "nat \<Rightarrow> task_ptr \<Rightarrow> 'w \<Rightarrow> 'w" \<comment> \<open>DECLARE_WAITQUEUE, \<open>init_waitqueue_entry\<close>\<close>
  wq_add :: "nat \<Rightarrow> nat \<Rightarrow> 'w \<Rightarrow> 'w" \<comment> \<open>\<open>__add_wait_queue\<close>: queue, entry\<close>
  wq_add_tail_exclusive :: "nat \<Rightarrow> nat \<Rightarrow> 'w \<Rightarrow> 'w"
  wq_remove :: "nat \<Rightarrow> nat \<Rightarrow> 'w \<Rightarrow> 'w"
  wq_WQ_FLAG_EXCLUSIVE :: u32
  wq_other :: "nat \<Rightarrow> nat \<Rightarrow> ulong \<Rightarrow> u32 \<Rightarrow> nat \<Rightarrow> ('x, 'w) wsys \<Rightarrow> ('x, 'w) wsys \<times> bool"

abbreviation upd_w_sys :: "('x sys \<Rightarrow> 'x sys) \<Rightarrow> ('x, 'w) wsys \<Rightarrow> ('x, 'w) wsys" where
  "upd_w_sys f S \<equiv> S\<lparr>w_sys := f (w_sys S)\<rparr>"

abbreviation w_curr :: "('x, 'w) wsys \<Rightarrow> task_ptr" where
  "w_curr S \<equiv> curr (w_sys S)"

definition WF_SYNC :: u32 where "WF_SYNC = 1"
definition ERESTARTSYS :: ulong where "ERESTARTSYS = 512"
definition MAX_SCHEDULE_TIMEOUT :: ulong where "MAX_SCHEDULE_TIMEOUT = 0x7FFFFFFF"
definition TASK_KILLABLE :: ulong where "TASK_KILLABLE = or TASK_WAKEKILL TASK_UNINTERRUPTIBLE"

section \<open>Waking a queue\<close>

definition default_wake_function ::
  "'x env \<Rightarrow> ('x, 'w) wait_ops \<Rightarrow> nat \<Rightarrow> ulong \<Rightarrow> u32 \<Rightarrow> nat \<Rightarrow> ('x, 'w) wsys \<Rightarrow> ('x, 'w) wsys \<times> bool" where
  "default_wake_function E W c mode wake_flags key S =
     (let (s, r) = try_to_wake_up E (wq_private W c (w_queues S)) mode wake_flags (w_sys S)
      in (S\<lparr>w_sys := s\<rparr>, r))"

definition call_wait_func ::
  "'x env \<Rightarrow> ('x, 'w) wait_ops \<Rightarrow> nat \<Rightarrow> ulong \<Rightarrow> u32 \<Rightarrow> nat \<Rightarrow> ('x, 'w) wsys \<Rightarrow> ('x, 'w) wsys \<times> bool" where
  "call_wait_func E W c mode wake_flags key S =
     (case wq_func W c (w_queues S) of
        Default_wake_function \<Rightarrow> default_wake_function E W c mode wake_flags key S
      | Other_wake_function f \<Rightarrow> wq_other W f c mode wake_flags key S)"

text \<open>The first entry of a list, and the entry after \<open>c\<close>.\<close>

definition first_entry :: "nat list \<Rightarrow> nat option" where
  "first_entry es = (case es of [] \<Rightarrow> None | e # _ \<Rightarrow> Some e)"

definition next_entry :: "nat \<Rightarrow> nat list \<Rightarrow> nat option" where
  "next_entry c es = first_entry (tl (dropWhile (\<lambda>e. e \<noteq> c) es))"

text \<open>
  The loop of \<open>__wake_up_common\<close>. The next entry is read before the wakeup function runs, which
  may take its own entry off the queue; \<open>None\<close> as the entry is the head.
\<close>

partial_function (option) wake_up_loop ::
  "'x env \<Rightarrow> ('x, 'w) wait_ops \<Rightarrow> nat \<Rightarrow> ulong \<Rightarrow> u32 \<Rightarrow> nat \<Rightarrow> nat option \<Rightarrow> int \<Rightarrow> ('x, 'w) wsys \<Rightarrow>
     ('x, 'w) wsys option" where
  "wake_up_loop E W q mode wake_flags key entry nr_exclusive S =
     (case entry of
        None \<Rightarrow> Some S
      | Some c \<Rightarrow>
          let nxt = next_entry c (wq_task_list W q (w_queues S));
              flags = wq_flags W c (w_queues S);
              (S, r) = call_wait_func E W c mode wake_flags key S
          in if r \<and> and flags (wq_WQ_FLAG_EXCLUSIVE W) \<noteq> 0 then
               if nr_exclusive - 1 = 0 then Some S
               else wake_up_loop E W q mode wake_flags key nxt (nr_exclusive - 1) S
             else wake_up_loop E W q mode wake_flags key nxt nr_exclusive S)"

definition wake_up_common ::
  "'x env \<Rightarrow> ('x, 'w) wait_ops \<Rightarrow> nat \<Rightarrow> ulong \<Rightarrow> int \<Rightarrow> u32 \<Rightarrow> nat \<Rightarrow> ('x, 'w) wsys \<Rightarrow> ('x, 'w) wsys option" where
  "wake_up_common E W q mode nr_exclusive wake_flags key S =
     wake_up_loop E W q mode wake_flags key (first_entry (wq_task_list W q (w_queues S))) nr_exclusive S"

definition wake_up' ::
  "'x env \<Rightarrow> ('x, 'w) wait_ops \<Rightarrow> nat \<Rightarrow> ulong \<Rightarrow> int \<Rightarrow> nat \<Rightarrow> ('x, 'w) wsys \<Rightarrow> ('x, 'w) wsys option" where
  "wake_up' E W q mode nr_exclusive key S = wake_up_common E W q mode nr_exclusive 0 key S"

definition wake_up_locked ::
  "'x env \<Rightarrow> ('x, 'w) wait_ops \<Rightarrow> nat \<Rightarrow> ulong \<Rightarrow> int \<Rightarrow> ('x, 'w) wsys \<Rightarrow> ('x, 'w) wsys option" where
  "wake_up_locked E W q mode nr S = wake_up_common E W q mode nr 0 0 S"

definition wake_up_locked_key ::
  "'x env \<Rightarrow> ('x, 'w) wait_ops \<Rightarrow> nat \<Rightarrow> ulong \<Rightarrow> nat \<Rightarrow> ('x, 'w) wsys \<Rightarrow> ('x, 'w) wsys option" where
  "wake_up_locked_key E W q mode key S = wake_up_common E W q mode 1 0 key S"

text \<open>The queue may be NULL.\<close>

definition wake_up_sync_key ::
  "'x env \<Rightarrow> ('x, 'w) wait_ops \<Rightarrow> nat option \<Rightarrow> ulong \<Rightarrow> int \<Rightarrow> nat \<Rightarrow> ('x, 'w) wsys \<Rightarrow> ('x, 'w) wsys option" where
  "wake_up_sync_key E W q mode nr_exclusive key S =
     (case q of
        None \<Rightarrow> Some S
      | Some q \<Rightarrow>
          let wake_flags = (if nr_exclusive = 0 then 0 else WF_SYNC)
          in wake_up_common E W q mode nr_exclusive wake_flags key S)"

definition wake_up_sync ::
  "'x env \<Rightarrow> ('x, 'w) wait_ops \<Rightarrow> nat option \<Rightarrow> ulong \<Rightarrow> int \<Rightarrow> ('x, 'w) wsys \<Rightarrow> ('x, 'w) wsys option" where
  "wake_up_sync E W q mode nr_exclusive S = wake_up_sync_key E W q mode nr_exclusive 0 S"

section \<open>Completions\<close>

definition add_done :: "nat \<Rightarrow> u32 \<Rightarrow> ('x, 'w) wsys \<Rightarrow> ('x, 'w) wsys" where
  "add_done x n S = S\<lparr>w_done := (w_done S)(x := w_done S x + n)\<rparr>"

definition complete :: "'x env \<Rightarrow> ('x, 'w) wait_ops \<Rightarrow> nat \<Rightarrow> ('x, 'w) wsys \<Rightarrow> ('x, 'w) wsys option" where
  "complete E W x S = wake_up_common E W x TASK_NORMAL 1 0 0 (add_done x 1 S)"

definition complete_all :: "'x env \<Rightarrow> ('x, 'w) wait_ops \<Rightarrow> nat \<Rightarrow> ('x, 'w) wsys \<Rightarrow> ('x, 'w) wsys option" where
  "complete_all E W x S = wake_up_common E W x TASK_NORMAL 0 0 0 (add_done x (- 1 div 2) S)"

text \<open>A blocking function calls \<open>schedule_timeout\<close> with a timeout or returns a long.\<close>

datatype wait_result = Sleeps ulong | Returns ulong

definition wait_take :: "nat \<Rightarrow> ulong \<Rightarrow> ('x, 'w) wsys \<Rightarrow> ('x, 'w) wsys \<times> wait_result" where
  "wait_take x timeout S = (add_done x (- 1) S, Returns (if timeout \<noteq> 0 then timeout else 1))"

definition wait_leave ::
  "('x, 'w) wait_ops \<Rightarrow> nat \<Rightarrow> ulong \<Rightarrow> ('x, 'w) wsys \<Rightarrow> ('x, 'w) wsys \<times> wait_result" where
  "wait_leave W x timeout S =
     (let S = S\<lparr>w_queues := wq_remove W x (w_curr S) (w_queues S)\<rparr>
      in if w_done S x = 0 then (S, Returns timeout) else wait_take x timeout S)"

definition set_current_state :: "ulong \<Rightarrow> 'x sys \<Rightarrow> 'x sys" where
  "set_current_state state s = upd_task (curr s) (t_state_update (\<lambda>_. state)) s"

definition wait_round ::
  "('x, 'w) wait_ops \<Rightarrow> nat \<Rightarrow> ulong \<Rightarrow> ulong \<Rightarrow> ('x, 'w) wsys \<Rightarrow> ('x, 'w) wsys \<times> wait_result" where
  "wait_round W x timeout state S =
     (if signal_pending_state state (tasks (w_sys S) (w_curr S)) then wait_leave W x (- ERESTARTSYS) S
      else (upd_w_sys (set_current_state state) S, Sleeps timeout))"

definition do_wait_for_common ::
  "('x, 'w) wait_ops \<Rightarrow> nat \<Rightarrow> ulong \<Rightarrow> ulong \<Rightarrow> ('x, 'w) wsys \<Rightarrow> ('x, 'w) wsys \<times> wait_result" where
  "do_wait_for_common W x timeout state S =
     (if w_done S x = 0 then
        let S = S\<lparr>w_queues := wq_init_entry W (w_curr S) (w_curr S) (w_queues S)\<rparr>;
            S = S\<lparr>w_queues := wq_add_tail_exclusive W x (w_curr S) (w_queues S)\<rparr>
        in wait_round W x timeout state S
      else wait_take x timeout S)"

text \<open>The rest of the loop, with the timeout that \<open>schedule_timeout\<close> returned.\<close>

definition do_wait_resume ::
  "('x, 'w) wait_ops \<Rightarrow> nat \<Rightarrow> ulong \<Rightarrow> ulong \<Rightarrow> ('x, 'w) wsys \<Rightarrow> ('x, 'w) wsys \<times> wait_result" where
  "do_wait_resume W x timeout state S =
     (if w_done S x = 0 \<and> timeout \<noteq> 0 then wait_round W x timeout state S
      else wait_leave W x timeout S)"

definition wait_for_common ::
  "('x, 'w) wait_ops \<Rightarrow> nat \<Rightarrow> ulong \<Rightarrow> ulong \<Rightarrow> ('x, 'w) wsys \<Rightarrow> ('x, 'w) wsys \<times> wait_result" where
  "wait_for_common W x timeout state S = do_wait_for_common W x timeout state S"

text \<open>What the callers of \<open>wait_for_common\<close> make of its result.\<close>

definition interrupted :: "ulong \<Rightarrow> ulong" where
  "interrupted t = (if t = - ERESTARTSYS then t else 0)"

primrec map_result :: "(ulong \<Rightarrow> ulong) \<Rightarrow> wait_result \<Rightarrow> wait_result" where
  "map_result f (Sleeps t) = Sleeps t"
| "map_result f (Returns t) = Returns (f t)"

definition wait_for_completion ::
  "('x, 'w) wait_ops \<Rightarrow> nat \<Rightarrow> ('x, 'w) wsys \<Rightarrow> ('x, 'w) wsys \<times> wait_result" where
  "wait_for_completion W x S = wait_for_common W x MAX_SCHEDULE_TIMEOUT TASK_UNINTERRUPTIBLE S"

definition wait_for_completion_timeout ::
  "('x, 'w) wait_ops \<Rightarrow> nat \<Rightarrow> ulong \<Rightarrow> ('x, 'w) wsys \<Rightarrow> ('x, 'w) wsys \<times> wait_result" where
  "wait_for_completion_timeout W x timeout S = wait_for_common W x timeout TASK_UNINTERRUPTIBLE S"

definition wait_for_completion_interruptible ::
  "('x, 'w) wait_ops \<Rightarrow> nat \<Rightarrow> ('x, 'w) wsys \<Rightarrow> ('x, 'w) wsys \<times> wait_result" where
  "wait_for_completion_interruptible W x S =
     apsnd (map_result interrupted) (wait_for_common W x MAX_SCHEDULE_TIMEOUT TASK_INTERRUPTIBLE S)"

definition wait_for_completion_interruptible_timeout ::
  "('x, 'w) wait_ops \<Rightarrow> nat \<Rightarrow> ulong \<Rightarrow> ('x, 'w) wsys \<Rightarrow> ('x, 'w) wsys \<times> wait_result" where
  "wait_for_completion_interruptible_timeout W x timeout S =
     wait_for_common W x timeout TASK_INTERRUPTIBLE S"

definition wait_for_completion_killable ::
  "('x, 'w) wait_ops \<Rightarrow> nat \<Rightarrow> ('x, 'w) wsys \<Rightarrow> ('x, 'w) wsys \<times> wait_result" where
  "wait_for_completion_killable W x S =
     apsnd (map_result interrupted) (wait_for_common W x MAX_SCHEDULE_TIMEOUT TASK_KILLABLE S)"

definition wait_for_completion_killable_timeout ::
  "('x, 'w) wait_ops \<Rightarrow> nat \<Rightarrow> ulong \<Rightarrow> ('x, 'w) wsys \<Rightarrow> ('x, 'w) wsys \<times> wait_result" where
  "wait_for_completion_killable_timeout W x timeout S = wait_for_common W x timeout TASK_KILLABLE S"

definition try_wait_for_completion :: "nat \<Rightarrow> ('x, 'w) wsys \<Rightarrow> ('x, 'w) wsys \<times> bool" where
  "try_wait_for_completion x S =
     (if w_done S x = 0 then (S, False) else (add_done x (- 1) S, True))"

definition completion_done :: "nat \<Rightarrow> ('x, 'w) wsys \<Rightarrow> bool" where
  "completion_done x S = (if w_done S x = 0 then False else True)"

section \<open>Sleeping on a queue\<close>

definition sleep_on_common ::
  "('x, 'w) wait_ops \<Rightarrow> nat \<Rightarrow> ulong \<Rightarrow> ulong \<Rightarrow> ('x, 'w) wsys \<Rightarrow> ('x, 'w) wsys \<times> wait_result" where
  "sleep_on_common W q state timeout S =
     (let S = S\<lparr>w_queues := wq_init_entry W (w_curr S) (w_curr S) (w_queues S)\<rparr>;
          S = upd_w_sys (set_current_state state) S;
          S = S\<lparr>w_queues := wq_add W q (w_curr S) (w_queues S)\<rparr>
      in (S, Sleeps timeout))"

definition sleep_on_resume ::
  "('x, 'w) wait_ops \<Rightarrow> nat \<Rightarrow> ulong \<Rightarrow> ('x, 'w) wsys \<Rightarrow> ('x, 'w) wsys \<times> wait_result" where
  "sleep_on_resume W q timeout S =
     (S\<lparr>w_queues := wq_remove W q (w_curr S) (w_queues S)\<rparr>, Returns timeout)"

definition interruptible_sleep_on ::
  "('x, 'w) wait_ops \<Rightarrow> nat \<Rightarrow> ('x, 'w) wsys \<Rightarrow> ('x, 'w) wsys \<times> wait_result" where
  "interruptible_sleep_on W q S = sleep_on_common W q TASK_INTERRUPTIBLE MAX_SCHEDULE_TIMEOUT S"

definition interruptible_sleep_on_timeout ::
  "('x, 'w) wait_ops \<Rightarrow> nat \<Rightarrow> ulong \<Rightarrow> ('x, 'w) wsys \<Rightarrow> ('x, 'w) wsys \<times> wait_result" where
  "interruptible_sleep_on_timeout W q timeout S = sleep_on_common W q TASK_INTERRUPTIBLE timeout S"

definition sleep_on :: "('x, 'w) wait_ops \<Rightarrow> nat \<Rightarrow> ('x, 'w) wsys \<Rightarrow> ('x, 'w) wsys \<times> wait_result" where
  "sleep_on W q S = sleep_on_common W q TASK_UNINTERRUPTIBLE MAX_SCHEDULE_TIMEOUT S"

definition sleep_on_timeout ::
  "('x, 'w) wait_ops \<Rightarrow> nat \<Rightarrow> ulong \<Rightarrow> ('x, 'w) wsys \<Rightarrow> ('x, 'w) wsys \<times> wait_result" where
  "sleep_on_timeout W q timeout S = sleep_on_common W q TASK_UNINTERRUPTIBLE timeout S"

section \<open>The documented behaviour of the header\<close>

text \<open>Initialising an entry makes it one of the task with the default function; adding puts it on a
  queue it was not on; removing takes it off. Nothing else changes.\<close>

definition same_entries :: "('x, 'w) wait_ops \<Rightarrow> (nat \<Rightarrow> bool) \<Rightarrow> 'w \<Rightarrow> 'w \<Rightarrow> bool" where
  "same_entries W P w w' \<longleftrightarrow>
     (\<forall>e. P e \<longrightarrow> wq_private W e w' = wq_private W e w \<and> wq_func W e w' = wq_func W e w \<and>
        wq_flags W e w' = wq_flags W e w)"

definition same_lists :: "('x, 'w) wait_ops \<Rightarrow> (nat \<Rightarrow> bool) \<Rightarrow> 'w \<Rightarrow> 'w \<Rightarrow> bool" where
  "same_lists W P w w' \<longleftrightarrow> (\<forall>q. P q \<longrightarrow> wq_task_list W q w' = wq_task_list W q w)"

definition wait_ops_ok :: "('x, 'w) wait_ops \<Rightarrow> bool" where
  "wait_ops_ok W \<longleftrightarrow>
     (\<forall>e t w. let w' = wq_init_entry W e t w in
        wq_private W e w' = t \<and> wq_func W e w' = Default_wake_function \<and>
        same_entries W (\<lambda>e'. e' \<noteq> e) w w' \<and> same_lists W (\<lambda>_. True) w w') \<and>
     (\<forall>q e w. let w' = wq_add_tail_exclusive W q e w in
        e \<notin> set (wq_task_list W q w) \<longrightarrow>
          wq_task_list W q w' = wq_task_list W q w @ [e] \<and> same_lists W (\<lambda>q'. q' \<noteq> q) w w' \<and>
          wq_private W e w' = wq_private W e w \<and> wq_func W e w' = wq_func W e w \<and>
          and (wq_flags W e w') (wq_WQ_FLAG_EXCLUSIVE W) \<noteq> 0 \<and> same_entries W (\<lambda>e'. e' \<noteq> e) w w') \<and>
     (\<forall>q e w. let w' = wq_remove W q e w in
        e \<in> set (wq_task_list W q w) \<longrightarrow>
          wq_task_list W q w' = removeAll e (wq_task_list W q w) \<and>
          same_lists W (\<lambda>q'. q' \<noteq> q \<and> e \<notin> set (wq_task_list W q' w)) w w' \<and>
          same_entries W (\<lambda>_. True) w w')"

section \<open>Waking one task\<close>

lemma ttwu_activate_state:
  assumes c: "contracts E U J" and i: "kernel_inv E U J A s" and p: "proper U s p" "p \<notin> A"
  shows "t_state (tasks (ttwu_activate E p flags s) q) = t_state (tasks s q)"
proof -
  note e = contractsD(1) [OF c] and cc = contractsD(2) [OF c]
  let ?t = "upd_task p (t_on_rq_update (\<lambda>_. 1)) (activate_task E p flags s)"
  have l: "p \<in> live U" "p \<noteq> rq_idle (the_rq s)" using p by (simp_all add: proper_def)
  note r = requeuedD [OF activate_task_requeued [OF e cc i l p(2), of flags]]
  have t: "kernel_inv E U J (insert p A) ?t" by (rule kernel_inv_upd_task [OF r(1)]) (simp add: sys_core_def)
  have eq: "ttwu_activate E p flags s =
      (if and (t_flags (tasks ?t p)) PF_WQ_WORKER \<noteq> 0
       then ?t\<lparr>ext := x_wq_worker_waking_up E p (ext ?t)\<rparr> else ?t)"
    by (simp add: ttwu_activate_def Let_def)
  have "t_state (tasks (ttwu_activate E p flags s) q) = t_state (tasks ?t q)" unfolding eq by simp
  then show ?thesis using r(8) by simp
qed

lemma wake_state:
  assumes c: "contracts E U J" and k: "kernel_ok E U J s" and p: "proper U s p"
    and w: "try_to_wake_up E p state flags s = (s', woke)"
  shows "kernel_ok E U J s'" "rq_idle (the_rq s') = rq_idle (the_rq s)" "curr s' = curr s"
    "woke \<longleftrightarrow> and (t_state (tasks s p)) state \<noteq> 0"
    "t_state (tasks s' q) = (if q = p \<and> woke then TASK_RUNNING else t_state (tasks s q))"
    "t_on_rq (tasks s' q) = (if q = p \<and> woke \<and> t_on_rq (tasks s p) = 0 then 1 else t_on_rq (tasks s q))"
proof -
  have l: "p \<in> live U" "p \<noteq> rq_idle (the_rq s)" using p by (simp_all add: proper_def)
  have st: "stays E U J True s s'"
    using stays_try_to_wake_up [OF contractsD(1,2) [OF c] l, where b = True and state = state and flags = flags] w by simp
  show "kernel_ok E U J s'" "rq_idle (the_rq s') = rq_idle (the_rq s)"
    using staysD(1,3) [OF st k] by simp_all
  have "(woke \<longleftrightarrow> and (t_state (tasks s p)) state \<noteq> 0) \<and> curr s' = curr s \<and>
    t_state (tasks s' q) = (if q = p \<and> woke then TASK_RUNNING else t_state (tasks s q)) \<and>
    t_on_rq (tasks s' q) = (if q = p \<and> woke \<and> t_on_rq (tasks s p) = 0 then 1 else t_on_rq (tasks s q))"
  proof (cases "and (t_state (tasks s p)) state = 0")
    case True
    then show ?thesis using w by (auto simp: try_to_wake_up_alt)
  next
    case False
    let ?s = "if t_on_rq (tasks s p) \<noteq> 0 then s else ttwu_activate E p ENQUEUE_WAKEUP s"
    let ?f = "if t_on_rq (tasks s p) \<noteq> 0 then flags else 0"
    have s': "s' = ttwu_do_wakeup E p ?f ?s" "woke"
      using w False by (simp_all add: try_to_wake_up_alt split: if_splits)
    have 1: "kernel_inv E U J (insert p (on_rqs U s)) ?s \<and> curr ?s = curr s \<and>
        t_state (tasks ?s q) = t_state (tasks s q) \<and>
        t_on_rq (tasks ?s q) = (if q = p \<and> t_on_rq (tasks s p) = 0 then 1 else t_on_rq (tasks s q))"
    proof (cases "t_on_rq (tasks s p) = 0")
      case True
      then have n: "p \<notin> on_rqs U s" by (simp add: on_rqs_def)
      note a = ttwu_activate_requeued [OF c kernel_atD(1) [OF k] p n]
      show ?thesis using True a ttwu_activate_state [OF c kernel_atD(1) [OF k] p n] by simp
    next
      case False
      then have "insert p (on_rqs U s) = on_rqs U s" using l(1) by (auto simp: on_rqs_def)
      then show ?thesis using False kernel_atD(1) [OF k] by simp
    qed
    note t = ttwu_do_wakeup_told [OF c conjunct1 [OF 1], where p = p and flags = ?f, folded s'(1)]
    have d: "told E U J (insert p (on_rqs U s)) ?s (check_preempt_curr E p ?f ?s)"
      by (rule told_check_preempt [OF contractsD(1,2) [OF c]])
    have "t_state (tasks s' q) = (if q = p then TASK_RUNNING else t_state (tasks ?s q))" "curr s' = curr ?s"
      using toldD(2) [OF d conjunct1 [OF 1]]
      unfolding s'(1) by (auto simp: ttwu_do_wakeup_def Let_def quiet_def quiet0_def)
    then show ?thesis using 1 False s'(2) sys_coreD(1) [OF t(1)] by simp
  qed
  then show "woke \<longleftrightarrow> and (t_state (tasks s p)) state \<noteq> 0" "curr s' = curr s"
    "t_state (tasks s' q) = (if q = p \<and> woke then TASK_RUNNING else t_state (tasks s q))"
    "t_on_rq (tasks s' q) = (if q = p \<and> woke \<and> t_on_rq (tasks s p) = 0 then 1 else t_on_rq (tasks s q))"
    by auto
qed


section \<open>Waking a whole queue\<close>

text \<open>A queue whose entries are waiting tasks: distinct entries with the default function.\<close>

definition waiters_ok :: "rt_se_ptr set \<Rightarrow> ('x, 'w) wait_ops \<Rightarrow> nat list \<Rightarrow> ('x, 'w) wsys \<Rightarrow> bool" where
  "waiters_ok U W es S \<longleftrightarrow> distinct es \<and> inj_on (\<lambda>e. wq_private W e (w_queues S)) (set es) \<and>
     (\<forall>e\<in>set es. wq_func W e (w_queues S) = Default_wake_function \<and>
        proper U (w_sys S) (wq_private W e (w_queues S)))"

definition asleep :: "('x, 'w) wait_ops \<Rightarrow> ulong \<Rightarrow> ('x, 'w) wsys \<Rightarrow> nat \<Rightarrow> bool" where
  "asleep W mode S e \<longleftrightarrow> and (t_state (tasks (w_sys S) (wq_private W e (w_queues S)))) mode \<noteq> 0"

definition exclusive :: "('x, 'w) wait_ops \<Rightarrow> ('x, 'w) wsys \<Rightarrow> nat \<Rightarrow> bool" where
  "exclusive W S e \<longleftrightarrow> and (wq_flags W e (w_queues S)) (wq_WQ_FLAG_EXCLUSIVE W) \<noteq> 0"

text \<open>The entries a call wakes: the sleepers in order, up to the last exclusive one it may wake.\<close>

primrec woken :: "(nat \<Rightarrow> bool) \<Rightarrow> (nat \<Rightarrow> bool) \<Rightarrow> int \<Rightarrow> nat list \<Rightarrow> nat list" where
  "woken sl excl nr [] = []"
| "woken sl excl nr (e # es) =
     (if \<not> sl e then woken sl excl nr es
      else if \<not> excl e then e # woken sl excl nr es
      else if nr = 1 then [e] else e # woken sl excl (nr - 1) es)"

lemma woken_cong:
  "(\<And>e. e \<in> set es \<Longrightarrow> sl e = sl' e) \<Longrightarrow> woken sl excl nr es = woken sl' excl nr es"
  by (induction es arbitrary: nr) auto

lemma set_woken: "set (woken sl excl nr es) \<subseteq> {e \<in> set es. sl e}"
  by (induction es arbitrary: nr) auto

lemma woken_prefix:
  "\<exists>rest. filter sl es = woken sl excl nr es @ rest \<and>
     (nr \<le> 0 \<longrightarrow> rest = []) \<and>
     (0 < nr \<longrightarrow> length (filter excl (woken sl excl nr es)) \<le> nat nr \<and>
        (rest \<noteq> [] \<longrightarrow> length (filter excl (woken sl excl nr es)) = nat nr))"
proof (induction es arbitrary: nr)
  case (Cons e es)
  show ?case
  proof (cases "sl e \<and> excl e \<and> nr \<noteq> 1")
    case True
    from Cons.IH [of "nr - 1"] obtain rest where
      "filter sl es = woken sl excl (nr - 1) es @ rest" "nr - 1 \<le> 0 \<longrightarrow> rest = []"
      "0 < nr - 1 \<longrightarrow> length (filter excl (woken sl excl (nr - 1) es)) \<le> nat (nr - 1) \<and>
         (rest \<noteq> [] \<longrightarrow> length (filter excl (woken sl excl (nr - 1) es)) = nat (nr - 1))" by blast
    with True show ?thesis by (intro exI [of _ rest]) auto
  next
    case False
    with Cons.IH [of nr] show ?thesis by auto
  qed
qed simp

lemma next_entry_after:
  assumes "distinct (pre @ e # es)"
  shows "next_entry e (pre @ e # es) = first_entry es"
proof -
  have "dropWhile (\<lambda>x. x \<noteq> e) (pre @ e # es) = e # es" using assms by (induction pre) auto
  then show ?thesis by (simp add: next_entry_def)
qed

lemma wake_up_loop_None: "wake_up_loop E W q mode wfl key None nr S = Some S"
  by (simp add: wake_up_loop.simps)

text \<open>What waking the entries \<open>ws\<close> does.\<close>

definition woke :: "'x env \<Rightarrow> rt_se_ptr set \<Rightarrow> 'x fair_inv \<Rightarrow> task_ptr set \<Rightarrow> ('x, 'w) wsys \<Rightarrow> ('x, 'w) wsys \<Rightarrow> bool" where
  "woke E U J P S S' \<longleftrightarrow> kernel_ok E U J (w_sys S') \<and> w_queues S' = w_queues S \<and> w_done S' = w_done S \<and>
     w_curr S' = w_curr S \<and> rq_idle (the_rq (w_sys S')) = rq_idle (the_rq (w_sys S)) \<and>
     (\<forall>p. t_state (tasks (w_sys S') p) = (if p \<in> P then TASK_RUNNING else t_state (tasks (w_sys S) p))) \<and>
     (\<forall>p. t_on_rq (tasks (w_sys S') p) =
        (if p \<in> P \<and> t_on_rq (tasks (w_sys S) p) = 0 then 1 else t_on_rq (tasks (w_sys S) p)))"

lemma woke_refl: "kernel_ok E U J (w_sys S) \<Longrightarrow> woke E U J {} S S"
  by (simp add: woke_def)

lemma woke_trans:
  assumes "woke E U J A S T" and "woke E U J B T V"
  shows "woke E U J (A \<union> B) S V"
  using assms by (auto simp: woke_def)

lemma default_wake:
  assumes c: "contracts E U J" and k: "kernel_ok E U J (w_sys S)"
    and p: "proper U (w_sys S) (wq_private W e (w_queues S))"
    and w: "default_wake_function E W e mode wfl key S = (S', r)"
  shows "r \<longleftrightarrow> asleep W mode S e"
    "woke E U J (if asleep W mode S e then {wq_private W e (w_queues S)} else {}) S S'"
proof -
  obtain s' where t: "try_to_wake_up E (wq_private W e (w_queues S)) mode wfl (w_sys S) = (s', r)"
    and S': "S' = S\<lparr>w_sys := s'\<rparr>"
    using w by (auto simp: default_wake_function_def split: prod.splits)
  note s = wake_state [OF c k p t]
  show "r \<longleftrightarrow> asleep W mode S e" using s(4) by (simp add: asleep_def)
  with s show "woke E U J (if asleep W mode S e then {wq_private W e (w_queues S)} else {}) S S'"
    by (auto simp: woke_def S')
qed

lemma waiters_ok_woke:
  assumes "waiters_ok U W es S" and "woke E U J P S S'"
  shows "waiters_ok U W es S'"
  using assms by (simp add: waiters_ok_def woke_def proper_def)

lemma wake_up_loop_woken:
  assumes c: "contracts E U J" and k: "kernel_ok E U J (w_sys S)"
    and l: "wq_task_list W q (w_queues S) = pre @ es" "distinct (pre @ es)" and v: "waiters_ok U W es S"
  shows "\<exists>S'. wake_up_loop E W q mode wfl key (first_entry es) nr S = Some S' \<and>
    woke E U J ((\<lambda>e. wq_private W e (w_queues S)) ` set (woken (asleep W mode S) (exclusive W S) nr es)) S S'"
  using k l v
proof (induction es arbitrary: pre nr S)
  case Nil
  then show ?case using woke_refl by (auto simp: first_entry_def wake_up_loop_None)
next
  case (Cons e es)
  let ?p = "\<lambda>e. wq_private W e (w_queues S)"
  let ?A = "if asleep W mode S e then {?p e} else {}"
  obtain S1 r where d: "default_wake_function E W e mode wfl key S = (S1, r)" by fastforce
  have e: "wq_func W e (w_queues S) = Default_wake_function" "proper U (w_sys S) (?p e)"
    using Cons.prems(4) by (simp_all add: waiters_ok_def)
  note w = default_wake [OF c Cons.prems(1) e(2) d]
  have q: "w_queues S1 = w_queues S" "kernel_ok E U J (w_sys S1)" using w(2) by (simp_all add: woke_def)
  have v1: "waiters_ok U W es S1"
    by (rule waiters_ok_woke [OF _ w(2)]) (use Cons.prems(4) in \<open>simp add: waiters_ok_def\<close>)
  have sl: "asleep W mode S1 e' = asleep W mode S e'" if "e' \<in> set es" for e'
  proof -
    have "?p e \<notin> ?p ` set es" using Cons.prems(3,4) by (auto simp: waiters_ok_def)
    then have "?p e' \<noteq> ?p e" using imageI [OF that, of ?p] by metis
    then show ?thesis using w(2) by (simp add: asleep_def woke_def)
  qed
  have ex: "exclusive W S1 = exclusive W S" using q(1) by (simp add: exclusive_def fun_eq_iff)
  have wk: "woken (asleep W mode S1) (exclusive W S1) n es = woken (asleep W mode S) (exclusive W S) n es" for n
    unfolding ex by (rule woken_cong) (rule sl)
  have IH: "\<exists>S'. wake_up_loop E W q mode wfl key (first_entry es) n S1 = Some S' \<and>
    woke E U J (?p ` set (woken (asleep W mode S) (exclusive W S) n es)) S1 S'" for n
    using Cons.IH [of S1 "pre @ [e]" n] q Cons.prems(2,3) v1 unfolding wk by simp
  have nx: "next_entry e (pre @ e # es) = first_entry es" by (rule next_entry_after [OF Cons.prems(3)])
  have step: "wake_up_loop E W q mode wfl key (first_entry (e # es)) nr S =
      (if asleep W mode S e \<and> exclusive W S e then
         if nr = 1 then Some S1 else wake_up_loop E W q mode wfl key (first_entry es) (nr - 1) S1
       else wake_up_loop E W q mode wfl key (first_entry es) nr S1)"
    using w(1) by (simp add: first_entry_def [of "e # es"] wake_up_loop.simps [of _ _ _ _ _ _ "Some e"]
      call_wait_func_def e(1) d Cons.prems(2) nx exclusive_def Let_def)
  show ?case
  proof (cases "asleep W mode S e \<and> exclusive W S e \<and> nr = 1")
    case True
    then have "wake_up_loop E W q mode wfl key (first_entry (e # es)) nr S = Some S1" unfolding step by simp
    then show ?thesis using True w(2) by auto
  next
    case False
    let ?n = "if asleep W mode S e \<and> exclusive W S e then nr - 1 else nr"
    from IH [of ?n] obtain S' where S': "wake_up_loop E W q mode wfl key (first_entry es) ?n S1 = Some S'"
      "woke E U J (?p ` set (woken (asleep W mode S) (exclusive W S) ?n es)) S1 S'" by blast
    have "?p ` set (woken (asleep W mode S) (exclusive W S) nr (e # es)) =
        ?A \<union> ?p ` set (woken (asleep W mode S) (exclusive W S) ?n es)" using False by auto
    then show ?thesis using woke_trans [OF w(2) S'(2)] S'(1) False by (auto simp: step)
  qed
qed


lemma wake_up_common_wakes:
  assumes "contracts E U J" and "kernel_ok E U J (w_sys S)"
    and "waiters_ok U W (wq_task_list W q (w_queues S)) S"
  shows "\<exists>S' ws rest. wake_up_common E W q mode nr_exclusive wake_flags key S = Some S' \<and>
    filter (asleep W mode S) (wq_task_list W q (w_queues S)) = ws @ rest \<and>
    woke E U J ((\<lambda>e. wq_private W e (w_queues S)) ` set ws) S S' \<and>
    (nr_exclusive \<le> 0 \<longrightarrow> rest = []) \<and>
    (0 < nr_exclusive \<longrightarrow> length (filter (exclusive W S) ws) \<le> nat nr_exclusive \<and>
       (rest \<noteq> [] \<longrightarrow> length (filter (exclusive W S) ws) = nat nr_exclusive))"
proof -
  let ?es = "wq_task_list W q (w_queues S)"
  let ?ws = "woken (asleep W mode S) (exclusive W S) nr_exclusive ?es"
  have "distinct ?es" using assms(3) by (simp add: waiters_ok_def)
  then have "\<exists>S'. wake_up_common E W q mode nr_exclusive wake_flags key S = Some S' \<and>
      woke E U J ((\<lambda>e. wq_private W e (w_queues S)) ` set ?ws) S S'"
    unfolding wake_up_common_def using wake_up_loop_woken [OF assms(1,2), of W q "[]" ?es] assms(3) by simp
  then show ?thesis using woken_prefix [of "asleep W mode S" ?es "exclusive W S" nr_exclusive] by blast
qed

text \<open>
  C19: \<open>__wake_up_common\<close> on a queue of waiting tasks ends, and what it wakes is an initial segment
  \<open>ws\<close> of the sleepers in queue order: their state becomes \<open>TASK_RUNNING\<close> and they are put on the
  run queue, every other task keeps its state, and the invariant of the kernel holds again. With
  \<open>nr_exclusive\<close> not positive all sleepers are woken; otherwise at most \<open>nr_exclusive\<close> exclusive ones,
  and as long as fewer are, nobody stays asleep.
\<close>

theorem wake_up_order:
  assumes "contracts E U J" and "kernel_ok E U J (w_sys S)"
    and "waiters_ok U W (wq_task_list W q (w_queues S)) S"
  shows "\<exists>S' ws rest. wake_up_common E W q mode nr_exclusive wake_flags key S = Some S' \<and>
    filter (asleep W mode S) (wq_task_list W q (w_queues S)) = ws @ rest \<and>
    woke E U J ((\<lambda>e. wq_private W e (w_queues S)) ` set ws) S S' \<and>
    (nr_exclusive \<le> 0 \<longrightarrow> rest = []) \<and>
    (0 < nr_exclusive \<longrightarrow> length (filter (exclusive W S) ws) \<le> nat nr_exclusive \<and>
       (rest \<noteq> [] \<longrightarrow> length (filter (exclusive W S) ws) = nat nr_exclusive))"
  by (rule wake_up_common_wakes [OF assms])

section \<open>A completion is not lost\<close>

text \<open>The waiting tasks of a completion: each is its own entry, added as exclusive.\<close>

abbreviation waiting :: "('x, 'w) wait_ops \<Rightarrow> nat \<Rightarrow> ('x, 'w) wsys \<Rightarrow> nat list" where
  "waiting W x S \<equiv> wq_task_list W x (w_queues S)"

definition waiting_ok :: "rt_se_ptr set \<Rightarrow> ('x, 'w) wait_ops \<Rightarrow> nat \<Rightarrow> ('x, 'w) wsys \<Rightarrow> bool" where
  "waiting_ok U W x S \<longleftrightarrow> distinct (waiting W x S) \<and>
     (\<forall>e\<in>set (waiting W x S). wq_private W e (w_queues S) = e \<and>
        wq_func W e (w_queues S) = Default_wake_function \<and> exclusive W S e \<and> proper U (w_sys S) e)"

abbreviation awake :: "('x, 'w) wait_ops \<Rightarrow> nat \<Rightarrow> ('x, 'w) wsys \<Rightarrow> nat" where
  "awake W x S \<equiv> length (filter (\<lambda>e. \<not> asleep W TASK_NORMAL S e) (waiting W x S))"

text \<open>
  What happens to the completion \<open>x\<close>: the running task starts to wait, a waiting task that runs again
  goes on, a completion is signalled or taken without waiting, and the rest of the kernel runs. A
  waiting task is inside \<open>schedule_timeout\<close>: the rest of the kernel wakes it or leaves its state alone,
  and it does not touch the completion.
\<close>

inductive completion_step ::
  "'x env \<Rightarrow> rt_se_ptr set \<Rightarrow> 'x fair_inv \<Rightarrow> ('x, 'w) wait_ops \<Rightarrow> nat \<Rightarrow> ('x, 'w) wsys \<Rightarrow> ('x, 'w) wsys \<Rightarrow> bool"
  for E U J W x where
  waits: "proper U (w_sys S) (w_curr S) \<Longrightarrow> w_curr S \<notin> set (waiting W x S) \<Longrightarrow>
    state \<in> {TASK_INTERRUPTIBLE, TASK_UNINTERRUPTIBLE, TASK_KILLABLE} \<Longrightarrow>
    wait_for_common W x timeout state S = (S', r) \<Longrightarrow> completion_step E U J W x S S'"
| resumes: "w_curr S \<in> set (waiting W x S) \<Longrightarrow>
    state \<in> {TASK_INTERRUPTIBLE, TASK_UNINTERRUPTIBLE, TASK_KILLABLE} \<Longrightarrow>
    do_wait_resume W x timeout state S = (S', r) \<Longrightarrow> completion_step E U J W x S S'"
| completes: "complete E W x S = Some S' \<Longrightarrow> completion_step E U J W x S S'"
| completes_all: "complete_all E W x S = Some S' \<Longrightarrow> completion_step E U J W x S S'"
| tries: "try_wait_for_completion x S = (S', b) \<Longrightarrow> completion_step E U J W x S S'"
| kernel: "kernel_step E U J (w_sys S) s' \<Longrightarrow>
    (\<forall>e\<in>set (waiting W x S). t_state (tasks s' e) \<in> {t_state (tasks (w_sys S) e), TASK_RUNNING}) \<Longrightarrow>
    completion_step E U J W x S (S\<lparr>w_sys := s'\<rparr>)"
| other_queues: "same_lists W (\<lambda>q. q = x) (w_queues S) w' \<Longrightarrow>
    same_entries W (\<lambda>e. e \<in> set (waiting W x S)) (w_queues S) w' \<Longrightarrow> d x = w_done S x \<Longrightarrow>
    completion_step E U J W x S (S\<lparr>w_queues := w', w_done := d\<rparr>)"

text \<open>The invariant: as many waiters run as completions can be taken, or all of them.\<close>

definition completion_inv ::
  "'x env \<Rightarrow> rt_se_ptr set \<Rightarrow> 'x fair_inv \<Rightarrow> ('x, 'w) wait_ops \<Rightarrow> nat \<Rightarrow> ('x, 'w) wsys \<Rightarrow> bool" where
  "completion_inv E U J W x S \<longleftrightarrow> kernel_ok E U J (w_sys S) \<and> waiting_ok U W x S \<and>
     min (unat (w_done S x)) (length (waiting W x S)) \<le> awake W x S"


lemma completion_invD:
  assumes "completion_inv E U J W x S"
  shows "kernel_ok E U J (w_sys S)" "waiting_ok U W x S"
    "min (unat (w_done S x)) (length (waiting W x S)) \<le> awake W x S"
  using assms by (simp_all add: completion_inv_def)

lemma length_filter_mono:
  "(\<And>x. x \<in> set xs \<Longrightarrow> P x \<Longrightarrow> Q x) \<Longrightarrow> length (filter P xs) \<le> length (filter Q xs)"
  by (induction xs) (auto simp: le_SucI)

lemma awake_asleep: "awake W x S + length (filter (asleep W TASK_NORMAL S) (waiting W x S)) = length (waiting W x S)"
  using sum_length_filter_compl [of "asleep W TASK_NORMAL S" "waiting W x S"] by simp

lemma waiting_ok_waiters: "waiting_ok U W x S \<Longrightarrow> waiters_ok U W (waiting W x S) S"
  by (simp add: waiting_ok_def waiters_ok_def inj_on_def)

lemma waiting_ok_cong:
  assumes "waiting_ok U W x S" and "w_queues S' = w_queues S"
    and "rq_idle (the_rq (w_sys S')) = rq_idle (the_rq (w_sys S))"
  shows "waiting_ok U W x S'"
  using assms by (simp add: waiting_ok_def exclusive_def proper_def)

text \<open>Signalling adds to \<open>done\<close> and wakes.\<close>

lemma completion_inv_signal:
  assumes c: "contracts E U J" and i: "completion_inv E U J W x S" and n: "nr \<le> 0 \<or> nr = 1 \<and> n = 1"
    and w: "wake_up_common E W x TASK_NORMAL nr 0 0 (add_done x n S) = Some S'"
  shows "completion_inv E U J W x S'"
proof -
  let ?T = "add_done x n S" and ?L = "waiting W x S"
  note v = completion_invD [OF i]
  have T: "w_sys ?T = w_sys S" "w_queues ?T = w_queues S" "w_done ?T x = w_done S x + n"
    "asleep W TASK_NORMAL ?T = asleep W TASK_NORMAL S" "exclusive W ?T = exclusive W S"
    by (simp_all add: add_done_def asleep_def exclusive_def fun_eq_iff)
  have k: "kernel_ok E U J (w_sys ?T)" "waiters_ok U W (waiting W x ?T) ?T"
    using v(1) waiting_ok_waiters [OF v(2)] by (simp_all add: T waiters_ok_def)
  from wake_up_common_wakes [OF c k, of TASK_NORMAL nr 0 0] w
  obtain ws rest where s: "filter (asleep W TASK_NORMAL S) ?L = ws @ rest"
    "woke E U J ((\<lambda>e. wq_private W e (w_queues S)) ` set ws) ?T S'" "nr \<le> 0 \<longrightarrow> rest = []"
    "0 < nr \<longrightarrow> (rest \<noteq> [] \<longrightarrow> length (filter (exclusive W S) ws) = nat nr)"
    unfolding T by auto
  have ws: "set ws \<subseteq> set ?L" and disj: "set ws \<inter> set rest = {}"
    using s(1) v(2) filter_is_subset [of "asleep W TASK_NORMAL S" ?L] distinct_filter [of ?L "asleep W TASK_NORMAL S"]
    by (auto simp: waiting_ok_def)
  have priv: "wq_private W e (w_queues S) = e" "exclusive W S e" if "e \<in> set ?L" for e
    using v(2) that by (simp_all add: waiting_ok_def)
  have img: "(\<lambda>e. wq_private W e (w_queues S)) ` set ws = set ws" using priv(1) ws by force
  have S': "w_queues S' = w_queues S" "w_done S' x = w_done S x + n" "kernel_ok E U J (w_sys S')"
    "rq_idle (the_rq (w_sys S')) = rq_idle (the_rq (w_sys S))"
    "\<And>p. t_state (tasks (w_sys S') p) = (if p \<in> set ws then TASK_RUNNING else t_state (tasks (w_sys S) p))"
    using s(2) unfolding img by (simp_all add: woke_def T)
  have "asleep W TASK_NORMAL S' e \<longleftrightarrow> asleep W TASK_NORMAL S e \<and> e \<notin> set ws" if "e \<in> set ?L" for e
    using priv(1) [OF that] by (simp add: asleep_def S'(1,5) TASK_RUNNING_def)
  then have "filter (asleep W TASK_NORMAL S') ?L = filter (\<lambda>e. e \<notin> set ws) (filter (asleep W TASK_NORMAL S) ?L)"
    unfolding filter_filter by (auto intro: filter_cong)
  also have "\<dots> = rest" unfolding s(1) using disj by (simp add: filter_id_conv disjoint_iff) blast
  finally have a': "awake W x S' + length rest = length ?L" using awake_asleep [where W = W and x = x and S = S'] by (simp add: S'(1))
  have a: "awake W x S + (length ws + length rest) = length ?L"
    using awake_asleep [where W = W and x = x and S = S] unfolding s(1) by simp
  have "min (unat (w_done S' x)) (length ?L) \<le> awake W x S'"
  proof (cases "rest = []")
    case False
    have "filter (exclusive W S) ws = ws" using priv(2) ws by (auto simp: filter_id_conv)
    with False s(3,4) n have "length ws = 1" "n = 1" by auto
    moreover have "unat (w_done S x + 1) \<le> unat (w_done S x) + 1"
      by (simp add: unat_word_ariths)
    ultimately show ?thesis using v(3) a a' False by (auto simp: S'(2) min_def split: if_splits)
  qed (use a' in simp)
  then show ?thesis using S' waiting_ok_cong [OF v(2) S'(1,4)] by (simp add: completion_inv_def)
qed

text \<open>A step outside keeps the queue and the count and wakes waiters at most.\<close>

lemma completion_inv_outside:
  assumes i: "completion_inv E U J W x S" and k: "kernel_ok E U J (w_sys S')"
    and idle: "rq_idle (the_rq (w_sys S')) = rq_idle (the_rq (w_sys S))"
    and q: "same_lists W (\<lambda>q. q = x) (w_queues S) (w_queues S')"
      "same_entries W (\<lambda>e. e \<in> set (waiting W x S)) (w_queues S) (w_queues S')"
    and d: "unat (w_done S' x) \<le> unat (w_done S x)"
    and st: "\<And>e. e \<in> set (waiting W x S) \<Longrightarrow>
      t_state (tasks (w_sys S') e) \<in> {t_state (tasks (w_sys S) e), TASK_RUNNING}"
  shows "completion_inv E U J W x S'"
proof -
  note v = completion_invD [OF i]
  have l: "waiting W x S' = waiting W x S" using q(1) by (simp add: same_lists_def)
  have ok: "waiting_ok U W x S'"
    using v(2) q(2) idle unfolding waiting_ok_def l by (simp add: same_entries_def exclusive_def proper_def)
  have "\<not> asleep W TASK_NORMAL S' e" if "e \<in> set (waiting W x S)" "\<not> asleep W TASK_NORMAL S e" for e
    using st [OF that(1)] that v(2) q(2)
    by (auto simp: asleep_def waiting_ok_def same_entries_def TASK_RUNNING_def)
  then have "awake W x S \<le> awake W x S'" unfolding l by (rule length_filter_mono)
  then have "min (unat (w_done S' x)) (length (waiting W x S')) \<le> awake W x S'" using v(3) d by (simp add: l)
  then show ?thesis using k ok by (simp add: completion_inv_def)
qed


text \<open>Taking a completion, with the task that takes it off the queue.\<close>

lemma unat_take: "d \<noteq> (0 :: u32) \<Longrightarrow> unat (d - 1) = unat d - 1"
  by (simp add: unat_minus_one)

lemma awake_remove:
  assumes "distinct xs" and "p \<in> set xs"
  shows "length (removeAll p xs) + 1 = length xs"
    "length (filter P xs) \<le> length (filter P (removeAll p xs)) + 1"
  using assms by (induction xs) (auto simp: removeAll_id)

lemma completion_inv_leave:
  assumes o: "wait_ops_ok W" and i: "completion_inv E U J W x S" and p: "w_curr S \<in> set (waiting W x S)"
    and l: "wait_leave W x timeout S = (S', r)"
  shows "completion_inv E U J W x S'"
proof -
  note v = completion_invD [OF i]
  let ?L = "waiting W x S" and ?w = "wq_remove W x (w_curr S) (w_queues S)"
  have w: "wq_task_list W x ?w = removeAll (w_curr S) ?L" "same_entries W (\<lambda>_. True) (w_queues S) ?w"
    using o p by (simp_all add: wait_ops_ok_def Let_def)
  have S': "w_sys S' = w_sys S" "w_queues S' = ?w" "w_done S' x = (if w_done S x = 0 then 0 else w_done S x - 1)"
    using l by (auto simp: wait_leave_def wait_take_def add_done_def Let_def split: if_splits)
  have a: "asleep W TASK_NORMAL S' = asleep W TASK_NORMAL S" "exclusive W S' = exclusive W S"
    using w(2) by (simp_all add: asleep_def exclusive_def fun_eq_iff S'(1,2) same_entries_def)
  have dist: "distinct ?L" using v(2) by (simp add: waiting_ok_def)
  have ok: "waiting_ok U W x S'"
    using v(2) w(2) unfolding waiting_ok_def a(2) S'(1,2) w(1)
    by (simp add: same_entries_def distinct_removeAll)
  note r = awake_remove(1) [OF dist p] awake_remove(2) [OF dist p, of "\<lambda>e. \<not> asleep W TASK_NORMAL S e"]
  have "unat (w_done S' x) = unat (w_done S x) - 1" by (simp add: S'(3) unat_take)
  then have "min (unat (w_done S' x)) (length (waiting W x S')) \<le> awake W x S'"
    using v(3) r unfolding a(1) S'(2) w(1) by linarith
  then show ?thesis using v(1) ok by (simp add: completion_inv_def S'(1))
qed

lemma sets_state_ok:
  assumes c: "contracts E U J" and k: "kernel_ok E U J s" and p: "proper U s (curr s)"
  shows "kernel_ok E U J (set_current_state state s)" "rq_idle (the_rq (set_current_state state s)) = rq_idle (the_rq s)"
  using kernel_step_ok [OF c k kernel_step.sets_state [OF p, of E J state]]
  by (simp_all add: step_ok_def set_current_state_def)

lemma completion_inv_round:
  assumes c: "contracts E U J" and o: "wait_ops_ok W" and i: "completion_inv E U J W x S"
    and p: "w_curr S \<in> set (waiting W x S)" and d: "w_done S x = 0"
    and l: "wait_round W x timeout state S = (S', r)"
  shows "completion_inv E U J W x S'"
proof (cases "signal_pending_state state (tasks (w_sys S) (w_curr S))")
  case True
  then show ?thesis using completion_inv_leave [OF o i p] l by (simp add: wait_round_def)
next
  case False
  note v = completion_invD [OF i]
  have S': "S' = S\<lparr>w_sys := set_current_state state (w_sys S)\<rparr>" using False l by (simp add: wait_round_def)
  have "proper U (w_sys S) (w_curr S)" using v(2) p by (simp add: waiting_ok_def)
  note s = sets_state_ok [OF c v(1) this, of state]
  have "waiting_ok U W x S'" by (rule waiting_ok_cong [OF v(2)]) (simp_all add: S' s(2))
  then show ?thesis using s(1) d by (simp add: completion_inv_def S')
qed

lemma completion_inv_take:
  assumes i: "completion_inv E U J W x S" and d: "w_done S x \<noteq> 0"
  shows "completion_inv E U J W x (add_done x (- 1) S)"
  by (rule completion_inv_outside [OF i])
    (use d completion_invD(1) [OF i] in \<open>simp_all add: add_done_def same_lists_def same_entries_def unat_take\<close>)

lemma completion_inv_waits:
  assumes c: "contracts E U J" and o: "wait_ops_ok W" and i: "completion_inv E U J W x S"
    and p: "proper U (w_sys S) (w_curr S)" "w_curr S \<notin> set (waiting W x S)"
    and l: "wait_for_common W x timeout state S = (S', r)"
  shows "completion_inv E U J W x S'"
proof (cases "w_done S x = 0")
  case False
  then have "S' = add_done x (- 1) S" using l by (simp add: wait_for_common_def do_wait_for_common_def wait_take_def)
  then show ?thesis using completion_inv_take [OF i False] by simp
next
  case True
  note v = completion_invD [OF i]
  let ?c = "w_curr S" and ?w1 = "wq_init_entry W (w_curr S) (w_curr S) (w_queues S)"
  let ?w2 = "wq_add_tail_exclusive W x ?c ?w1"
  let ?T = "S\<lparr>w_queues := ?w2\<rparr>"
  have 1: "wq_private W ?c ?w1 = ?c" "wq_func W ?c ?w1 = Default_wake_function"
    "same_entries W (\<lambda>e. e \<noteq> ?c) (w_queues S) ?w1" "wq_task_list W x ?w1 = waiting W x S"
    using o by (simp_all add: wait_ops_ok_def Let_def same_lists_def)
  then have 2: "wq_task_list W x ?w2 = waiting W x S @ [?c]" "wq_private W ?c ?w2 = ?c"
    "wq_func W ?c ?w2 = Default_wake_function" "same_entries W (\<lambda>e. e \<noteq> ?c) (w_queues S) ?w2"
    "and (wq_flags W ?c ?w2) (wq_WQ_FLAG_EXCLUSIVE W) \<noteq> 0"
    using o p(2) by (simp_all add: wait_ops_ok_def Let_def same_entries_def)
  have "\<forall>e\<in>set (waiting W x S). wq_private W e ?w2 = wq_private W e (w_queues S) \<and>
      wq_func W e ?w2 = wq_func W e (w_queues S) \<and> wq_flags W e ?w2 = wq_flags W e (w_queues S)"
    using 2(4) p(2) unfolding same_entries_def by metis
  then have "waiting_ok U W x ?T"
    using v(2) p 2(1,2,3,5) by (simp add: waiting_ok_def exclusive_def)
  then have T: "completion_inv E U J W x ?T" using v(1) True by (simp add: completion_inv_def)
  have "wait_round W x timeout state ?T = (S', r)"
    using l True by (simp add: wait_for_common_def do_wait_for_common_def Let_def)
  then show ?thesis using completion_inv_round [OF c o T, where timeout = timeout and state = state] 2(1) True by simp
qed

lemma completion_inv_resumes:
  assumes c: "contracts E U J" and o: "wait_ops_ok W" and i: "completion_inv E U J W x S"
    and p: "w_curr S \<in> set (waiting W x S)" and l: "do_wait_resume W x timeout state S = (S', r)"
  shows "completion_inv E U J W x S'"
  using completion_inv_round [OF c o i p] completion_inv_leave [OF o i p] l
  by (auto simp: do_wait_resume_def split: if_splits)

lemma completion_inv_step:
  assumes c: "contracts E U J" and o: "wait_ops_ok W" and i: "completion_inv E U J W x S"
    and st: "completion_step E U J W x S S'"
  shows "completion_inv E U J W x S'"
  using st
proof cases
  case (waits state timeout r)
  then show ?thesis using completion_inv_waits [OF c o i] by blast
next
  case (resumes state timeout r)
  then show ?thesis using completion_inv_resumes [OF c o i] by blast
next
  case completes
  then show ?thesis using completion_inv_signal [OF c i, of 1 1] by (simp add: complete_def)
next
  case completes_all
  then show ?thesis using completion_inv_signal [OF c i, of 0] by (simp add: complete_all_def)
next
  case (tries b)
  then show ?thesis using completion_inv_take [OF i] i by (auto simp: try_wait_for_completion_def split: if_splits)
next
  case (kernel s')
  note k = kernel_step_ok [OF c completion_invD(1) [OF i] kernel(2)]
  show ?thesis unfolding kernel(1)
    by (rule completion_inv_outside [OF i])
      (use k kernel(3) in \<open>simp_all add: step_ok_def same_lists_def same_entries_def\<close>)
next
  case (other_queues w' d)
  show ?thesis unfolding other_queues(1)
    by (rule completion_inv_outside [OF i])
      (use other_queues(2-) completion_invD(1) [OF i] in \<open>simp_all add: same_lists_def\<close>)
qed

text \<open>
  C9: no completion is lost. From a completion nobody waits for, whatever tasks wait, are signalled,
  time out or are interrupted, and whatever the rest of the kernel does: of the tasks in the queue
  of \<open>x\<close> at least as many are awake as there are completions to take (or all of them are), so that a
  completion that can be taken never sits beside a queue of sleepers. The invariant of the kernel
  holds throughout.
\<close>

theorem completion_no_lost_wakeup:
  assumes "contracts E U J" and "wait_ops_ok W" and "kernel_ok E U J (w_sys S0)"
    and "waiting W x S0 = []" and "(completion_step E U J W x)\<^sup>*\<^sup>* S0 S"
  shows "min (unat (w_done S x)) (length (waiting W x S)) \<le> awake W x S \<and> kernel_ok E U J (w_sys S)"
proof -
  have "completion_inv E U J W x S0" using assms(3,4) by (simp add: completion_inv_def waiting_ok_def)
  with assms(5) have "completion_inv E U J W x S"
    by (induction rule: rtranclp_induct) (auto intro: completion_inv_step [OF assms(1,2)])
  then show ?thesis by (simp add: completion_inv_def)
qed


section \<open>What a wait returns\<close>

text \<open>The ways a wait ends.\<close>

definition takes :: "nat \<Rightarrow> ('x, 'w) wsys \<Rightarrow> ('x, 'w) wsys \<Rightarrow> bool" where
  "takes x S S' \<longleftrightarrow> w_done S x \<noteq> 0 \<and> w_done S' = (w_done S)(x := w_done S x - 1)"

lemma wait_leave_takes:
  assumes "wait_leave W x timeout S = (S', res)" and "0 \<le> sint timeout \<or> w_done S x = 0"
  shows "\<exists>r. res = Returns r \<and> (0 < sint r \<and> takes x S S' \<or> r = timeout \<and> w_done S x = 0 \<and> w_done S' = w_done S)"
proof (cases "w_done S x = 0")
  case True
  then show ?thesis using assms(1) by (auto simp: wait_leave_def Let_def)
next
  case False
  have "0 < sint timeout" if "timeout \<noteq> 0" using assms(2) False that
    by (metis order_le_less signed_0 signed_word_eqI)
  with False assms(1) show ?thesis
    by (auto simp: wait_leave_def wait_take_def takes_def add_done_def Let_def)
qed

text \<open>
  C29: what a wait returns says what it did, for a timeout that is not negative. Starting to wait or
  going on after a sleep, a wait returns a positive value exactly when it took one completion; it
  returns 0 when the time is over and -ERESTARTSYS when a signal is pending, and takes none then;
  and it goes to sleep, in the state asked for, only while there is no completion to take.
\<close>

theorem wait_results:
  assumes "0 \<le> sint timeout"
    and "wait_for_common W x timeout state S = (S', res) \<or> do_wait_resume W x timeout state S = (S', res)"
  shows "case res of
      Returns r \<Rightarrow>
        0 < sint r \<and> takes x S S' \<or>
        w_done S x = 0 \<and> w_done S' = w_done S \<and>
          (r = 0 \<and> timeout = 0 \<or>
           r = - ERESTARTSYS \<and> signal_pending_state state (tasks (w_sys S) (w_curr S)))
    | Sleeps t \<Rightarrow> t = timeout \<and> w_done S x = 0 \<and> w_done S' = w_done S \<and>
        t_state (tasks (w_sys S') (w_curr S')) = state"
proof -
  have round: "case res of
      Returns r \<Rightarrow> w_done T x = 0 \<and> w_done S' = w_done T \<and> r = - ERESTARTSYS \<and>
        signal_pending_state state (tasks (w_sys T) (w_curr T))
    | Sleeps t \<Rightarrow> t = timeout \<and> w_done S' = w_done T \<and> t_state (tasks (w_sys S') (w_curr S')) = state"
    if "wait_round W x timeout state T = (S', res)" "w_done T x = 0" for T
    using that by (auto simp: wait_round_def wait_leave_def set_current_state_def Let_def split: if_splits)
  from assms(2) show ?thesis
  proof
    assume w: "wait_for_common W x timeout state S = (S', res)"
    show ?thesis
    proof (cases "w_done S x = 0")
      case True
      let ?q = "wq_add_tail_exclusive W x (w_curr S) (wq_init_entry W (w_curr S) (w_curr S) (w_queues S))"
      have "wait_round W x timeout state (S\<lparr>w_queues := ?q\<rparr>) = (S', res)"
        using w True by (simp add: wait_for_common_def do_wait_for_common_def Let_def)
      from round [OF this] True show ?thesis by (auto split: wait_result.splits)
    next
      case False
      have "0 < sint timeout" if "timeout \<noteq> 0" using assms(1) that
        by (metis order_le_less signed_0 signed_word_eqI)
      then show ?thesis using w False
        by (auto simp: wait_for_common_def do_wait_for_common_def wait_take_def takes_def add_done_def)
    qed
  next
    assume w: "do_wait_resume W x timeout state S = (S', res)"
    show ?thesis
    proof (cases "w_done S x = 0 \<and> timeout \<noteq> 0")
      case True
      then show ?thesis using round [of S] w by (auto simp: do_wait_resume_def split: wait_result.splits)
    next
      case False
      then have "wait_leave W x timeout S = (S', res)" using w by (auto simp: do_wait_resume_def)
      from wait_leave_takes [OF this] assms(1) False show ?thesis by auto
    qed
  qed
qed

text \<open>
  The count wraps around: after two calls of \<open>complete_all\<close> two calls of \<open>complete\<close> bring it back to 0,
  and the next task to wait sleeps.
\<close>

lemma completions_wrap:
  assumes "waiting W x S = []" and "w_done S x = 0"
  shows "\<exists>S'. Option.bind (Option.bind (Option.bind (complete_all E W x S) (complete_all E W x))
      (complete E W x)) (complete E W x) = Some S' \<and> w_done S' x = 0"
proof -
  have w: "wake_up_common E W x m nr f k (add_done x n T) = Some (add_done x n T)"
    if "waiting W x T = []" for m nr f k n and T :: "('a, 'b) wsys"
    using that by (simp add: wake_up_common_def wake_up_loop_None first_entry_def add_done_def)
  have q: "w_queues (add_done x n T) = w_queues T" "w_done (add_done x n T) x = w_done T x + n"
    for n and T :: "('a, 'b) wsys"
    by (simp_all add: add_done_def)
  show ?thesis using assms by (simp add: complete_all_def complete_def w q)
qed

section \<open>An instance\<close>

record sample_wq =
  sw_list :: "nat \<Rightarrow> nat list"
  sw_flags :: "nat \<Rightarrow> u32"
  sw_private :: "nat \<Rightarrow> task_ptr"
  sw_func :: "nat \<Rightarrow> wait_func"

definition sample_wait_ops :: "(sample_ext, sample_wq) wait_ops" where
  "sample_wait_ops = \<lparr>
     wq_task_list = (\<lambda>q w. sw_list w q), wq_flags = (\<lambda>e w. sw_flags w e),
     wq_private = (\<lambda>e w. sw_private w e), wq_func = (\<lambda>e w. sw_func w e),
     wq_init_entry = (\<lambda>e t w. w\<lparr>sw_flags := (sw_flags w)(e := 0), sw_private := (sw_private w)(e := t),
        sw_func := (sw_func w)(e := Default_wake_function)\<rparr>),
     wq_add = (\<lambda>q e w. w\<lparr>sw_list := (sw_list w)(q := e # sw_list w q)\<rparr>),
     wq_add_tail_exclusive = (\<lambda>q e w. w\<lparr>sw_flags := (sw_flags w)(e := or (sw_flags w e) 1),
        sw_list := (sw_list w)(q := sw_list w q @ [e])\<rparr>),
     wq_remove = (\<lambda>q e w. w\<lparr>sw_list := (sw_list w)(q := removeAll e (sw_list w q))\<rparr>),
     wq_WQ_FLAG_EXCLUSIVE = 1, wq_other = (\<lambda>f e mode fl key S. (S, False))\<rparr>"

lemma or_and_one: "and (or a 1) 1 \<noteq> (0 :: u32)"
proof -
  have "bit (and (or a 1) 1) 0" by (simp add: bit_simps)
  then show ?thesis by (metis bit_0_eq bot_apply bot_bool_def)
qed

lemma sample_wait_ops_ok: "wait_ops_ok sample_wait_ops"
  using or_and_one by (auto simp: wait_ops_ok_def sample_wait_ops_def same_entries_def same_lists_def)


text \<open>The fair task 4 waits for the completion 9, which nobody has signalled.\<close>

definition sample_unwaited :: "(sample_ext, sample_wq) wsys" where
  "sample_unwaited = \<lparr>w_sys = kernel_busy,
     w_queues = \<lparr>sw_list = (\<lambda>q. []), sw_flags = (\<lambda>e. 0), sw_private = (\<lambda>e. 0), sw_func = (\<lambda>e. Default_wake_function)\<rparr>,
     w_done = (\<lambda>x. 0)\<rparr>"

definition sample_waits :: "(sample_ext, sample_wq) wsys" where
  "sample_waits = fst (wait_for_completion sample_wait_ops 9 sample_unwaited)"

lemma sample_waits_result:
  "wait_for_completion sample_wait_ops 9 sample_unwaited = (sample_waits, Sleeps MAX_SCHEDULE_TIMEOUT)"
  "w_sys sample_waits = set_current_state TASK_UNINTERRUPTIBLE kernel_busy"
  "waiting sample_wait_ops 9 sample_waits = [4]" "w_done sample_waits = (\<lambda>x. 0)"
  "wq_private sample_wait_ops 4 (w_queues sample_waits) = 4"
  "wq_func sample_wait_ops 4 (w_queues sample_waits) = Default_wake_function"
  "exclusive sample_wait_ops sample_waits 4" "asleep sample_wait_ops TASK_NORMAL sample_waits 4"
  by (simp_all add: sample_waits_def wait_for_completion_def wait_for_common_def do_wait_for_common_def
      wait_round_def sample_unwaited_def sample_wait_ops_def Let_def signal_pending_state_def kernel_busy_ok(3)
      exclusive_def asleep_def set_current_state_def TASK_UNINTERRUPTIBLE_def TASK_INTERRUPTIBLE_def
      TASK_WAKEKILL_def TASK_NORMAL_def)

lemma sample_waits_ok:
  "kernel_ok sample_env kernel_universe sample_tracks (w_sys sample_waits)"
  "waiters_ok kernel_universe sample_wait_ops (waiting sample_wait_ops 9 sample_waits) sample_waits"
proof -
  have "proper kernel_universe kernel_busy (curr kernel_busy)" using kernel_busy_ok(2,3) by simp
  note s = sets_state_ok [OF sample_contracts kernel_busy_ok(1) this, of TASK_UNINTERRUPTIBLE]
  show "kernel_ok sample_env kernel_universe sample_tracks (w_sys sample_waits)"
    using s(1) by (simp add: sample_waits_result(2))
  have "proper kernel_universe (w_sys sample_waits) 4"
    using s(2) kernel_busy_ok(2) by (simp add: proper_def sample_waits_result(2))
  then show "waiters_ok kernel_universe sample_wait_ops (waiting sample_wait_ops 9 sample_waits) sample_waits"
    by (simp add: waiters_ok_def sample_waits_result)
qed

theorem wake_up_order_witness:
  "\<exists>S'. wake_up' sample_env sample_wait_ops 9 TASK_NORMAL 1 0 sample_waits = Some S' \<and>
     t_state (tasks (w_sys S') 4) = TASK_RUNNING"
proof -
  obtain S' ws rest where s: "wake_up_common sample_env sample_wait_ops 9 TASK_NORMAL 1 0 0 sample_waits = Some S'"
    "filter (asleep sample_wait_ops TASK_NORMAL sample_waits) (waiting sample_wait_ops 9 sample_waits) = ws @ rest"
    "rest \<noteq> [] \<longrightarrow> length (filter (exclusive sample_wait_ops sample_waits) ws) = nat 1"
    "woke sample_env kernel_universe sample_tracks
       ((\<lambda>e. wq_private sample_wait_ops e (w_queues sample_waits)) ` set ws) sample_waits S'"
    using wake_up_order [OF sample_contracts sample_waits_ok, of TASK_NORMAL 1 0 0] by auto
  have "ws = [4]" using s(2,3) by (cases ws) (auto simp: sample_waits_result(3,8))
  with s show ?thesis by (simp add: wake_up'_def woke_def sample_waits_result(5))
qed

theorem wait_results_witness:
  "t_state (tasks (w_sys sample_waits) (w_curr sample_waits)) = TASK_UNINTERRUPTIBLE"
  using wait_results [of MAX_SCHEDULE_TIMEOUT sample_wait_ops 9 TASK_UNINTERRUPTIBLE sample_unwaited
      sample_waits "Sleeps MAX_SCHEDULE_TIMEOUT"] sample_waits_result(1)
  by (simp add: wait_for_completion_def MAX_SCHEDULE_TIMEOUT_def)

theorem completion_no_lost_wakeup_witness:
  "\<exists>S. complete sample_env sample_wait_ops 9 sample_waits = Some S \<and> waiting sample_wait_ops 9 S = [4] \<and>
     w_done S 9 = 1 \<and> 1 \<le> awake sample_wait_ops 9 S"
proof -
  let ?T = "add_done 9 1 sample_waits"
  have T: "w_sys ?T = w_sys sample_waits" "w_queues ?T = w_queues sample_waits" "w_done ?T 9 = 1"
    by (simp_all add: add_done_def sample_waits_result(4))
  have "waiters_ok kernel_universe sample_wait_ops (waiting sample_wait_ops 9 ?T) ?T"
    using sample_waits_ok(2) unfolding T by (simp add: waiters_ok_def T)
  then obtain S P where S: "complete sample_env sample_wait_ops 9 sample_waits = Some S"
    "woke sample_env kernel_universe sample_tracks P ?T S"
    using wake_up_common_wakes [OF sample_contracts, where S = ?T and q = 9 and mode = TASK_NORMAL and
        nr_exclusive = 1 and wake_flags = 0 and key = 0] sample_waits_ok(1) T(1)
    unfolding complete_def by fastforce
  have start: "proper kernel_universe (w_sys sample_unwaited) (w_curr sample_unwaited)"
    "waiting sample_wait_ops 9 sample_unwaited = []" "kernel_ok sample_env kernel_universe sample_tracks (w_sys sample_unwaited)"
    using kernel_busy_ok by (simp_all add: sample_unwaited_def sample_wait_ops_def)
  have "completion_step sample_env kernel_universe sample_tracks sample_wait_ops 9 sample_unwaited sample_waits"
    by (rule completion_step.waits [OF start(1) _ _ sample_waits_result(1) [unfolded wait_for_completion_def]])
      (simp_all add: start(2))
  then have "(completion_step sample_env kernel_universe sample_tracks sample_wait_ops 9)\<^sup>*\<^sup>* sample_unwaited S"
    using completion_step.completes [OF S(1), of kernel_universe sample_tracks] by simp
  note n = completion_no_lost_wakeup [OF sample_contracts sample_wait_ops_ok start(3,2) this]
  have "waiting sample_wait_ops 9 S = [4]" "w_done S 9 = 1"
    using S(2) T by (simp_all add: woke_def sample_waits_result(3))
  then show ?thesis using S(1) n by simp
qed

end
