(* ===== verification/Attach.thy ===== *)
theory Attach
  imports Core_Spec
begin

text \<open>
  What the callbacks of the cpu cgroup do to the tasks they move: \<open>cpu_cgroup_attach\<close> through
  \<open>sched_move_task\<close>.
\<close>

text \<open>
  \<open>moved_to tg P s s'\<close>: the tasks \<open>P\<close> are in the group \<open>tg\<close>, with the run queue of that group for
  their real-time entity, and the other tasks are where they were; every task keeps its class,
  policy, static and normal priority and place on or off the queue, and a real-time task its
  effective priority.
\<close>

definition moved_to :: "tg_ptr \<Rightarrow> task_ptr set \<Rightarrow> 'x sys \<Rightarrow> 'x sys \<Rightarrow> bool" where
  "moved_to tg P s s' \<longleftrightarrow> (\<forall>q.
     t_sched_task_group (tasks s' q) = (if q \<in> P then tg else t_sched_task_group (tasks s q)) \<and>
     rse_rt_rq (t_rt (tasks s' q)) = (if q \<in> P then tg else rse_rt_rq (t_rt (tasks s q))) \<and>
     t_on_rq (tasks s' q) = t_on_rq (tasks s q) \<and>
     t_sched_class (tasks s' q) = t_sched_class (tasks s q) \<and>
     t_static_prio (tasks s' q) = t_static_prio (tasks s q) \<and>
     t_normal_prio (tasks s' q) = t_normal_prio (tasks s q) \<and>
     t_policy (tasks s' q) = t_policy (tasks s q) \<and>
     (t_sched_class (tasks s q) = Rt_class \<longrightarrow> t_prio (tasks s' q) = t_prio (tasks s q)))"

lemma moved_to_trans: "moved_to tg P s t \<Longrightarrow> moved_to tg P' t u \<Longrightarrow> moved_to tg (P \<union> P') s u"
  by (simp add: moved_to_def)

lemma moved_to_core: "core_same s t \<Longrightarrow> moved_to tg {} s t"
  by (auto simp: core_same_def moved_to_def dest: sys_coreD)

lemma moved_to_set: "moved_to tg {p} s (set_task_rq p (upd_task p (t_sched_task_group_update (\<lambda>_. tg)) s))"
  by (simp add: moved_to_def set_task_rq_def Let_def)

lemma regroup_moves:
  assumes g: "groups_contract E J"
  shows "moved_to tg {p} s (regroup E tg p on s)"
proof -
  let ?t = "upd_task p (t_sched_task_group_update (\<lambda>_. tg)) s"
  show ?thesis
  proof (cases "co_task_move_group (task_class E ?t p)")
    case None
    then show ?thesis using moved_to_set [of tg p s] by (simp add: regroup_def)
  next
    case (Some f)
    then have "foreign J (set_task_rq p ?t) (f p on ?t)" using g by (simp add: groups_contract_def task_class_def)
    then have "core_same (set_task_rq p ?t) (f p on ?t)"
      using not_rt_core [of "set_task_rq p ?t" "f p on ?t"] by (simp add: foreign_def core_same_def)
    from moved_to_trans [OF moved_to_set moved_to_core [OF this]] Some show ?thesis by (simp add: regroup_def)
  qed
qed

lemma sched_move_task_moves:
  assumes c: "contracts E U J" and k: "kernel_ok E U J s" and p: "proper U s p" and tg: "rt_group_ok U tg"
  shows "moved_to tg {p} s (sched_move_task E tg p s)" "kernel_ok E U J (sched_move_task E tg p s)"
    "rq_idle (the_rq (sched_move_task E tg p s)) = rq_idle (the_rq s)"
proof -
  note st = kernel_step_ok [OF c k moves_group [OF p tg, of E J]]
  show "kernel_ok E U J (sched_move_task E tg p s)"
    "rq_idle (the_rq (sched_move_task E tg p s)) = rq_idle (the_rq s)"
    using st by (simp_all add: step_ok_def)
  let ?g = "regroup E tg p (t_on_rq (tasks s p))"
  have "moved E U J (on_rqs U s - {p}) t (on_rqs U s - {p}) (?g t)" if "p \<noteq> rq_idle (the_rq t)" for t
    by (rule moved_regroup [OF contractsD(5) [OF c] _ _ that tg]) (use p in \<open>simp_all add: proper_def\<close>)
  note r = requeue_changed_core [OF c kernel_atD(1) [OF k] p this]
  note m = regroup_moves [OF contractsD(5) [OF c]]
  from moved_to_trans [OF moved_to_core [OF r(1)] moved_to_trans [OF m moved_to_core [OF r(2)]]]
  show "moved_to tg {p} s (sched_move_task E tg p s)" by (simp add: sched_move_task_alt)
qed

text \<open>
  C18: When tasks are attached to a group, queued, sleeping or running as they are, each of them ends
  in that group with the run queue of that group for its real-time entity, and every task that is
  not attached stays in the group it was in. All keep their class, policy, static and normal
  priority and whether they are runnable, the real-time tasks their effective priority too, and the
  invariant of the kernel holds: the queues still hold exactly the runnable tasks. The check
  before it lets no real-time task join a group without real-time run time.
\<close>

theorem attach_moves_tasks:
  assumes "contracts E U J" and "kernel_ok E U J s" and "\<forall>p\<in>set tset. proper U s p" and "rt_group_ok U tg"
  shows "moved_to tg (set tset) s (cpu_cgroup_attach E tg tset s) \<and>
    kernel_ok E U J (cpu_cgroup_attach E tg tset s) \<and>
    (cpu_cgroup_can_attach tg tset s = 0 \<longrightarrow> rtb_runtime (tg_rt_bandwidth (tgs s tg)) = 0 \<longrightarrow>
       (\<forall>p\<in>set tset. 100 \<le> t_prio (tasks s p)))"
proof (intro conjI impI ballI)
  have "moved_to tg (set ps) t (fold (sched_move_task E tg) ps t) \<and>
      kernel_ok E U J (fold (sched_move_task E tg) ps t)"
    if "\<forall>p\<in>set ps. proper U t p" "kernel_ok E U J t" for ps t
    using that
  proof (induction ps arbitrary: t)
    case Nil
    then show ?case by (simp add: moved_to_def)
  next
    case (Cons p ps)
    have p: "proper U t p" using Cons.prems(1) by simp
    note m = sched_move_task_moves [OF assms(1) Cons.prems(2) p assms(4)]
    have "\<forall>q\<in>set ps. proper U (sched_move_task E tg p t) q" using Cons.prems(1) m(3) by (simp add: proper_def)
    from Cons.IH [OF this m(2)] moved_to_trans [OF m(1)] show ?case by fastforce
  qed
  from this [OF assms(3,2)]
  show "moved_to tg (set tset) s (cpu_cgroup_attach E tg tset s)" "kernel_ok E U J (cpu_cgroup_attach E tg tset s)"
    by (simp_all add: cpu_cgroup_attach_def)
  show "100 \<le> t_prio (tasks s p)" if "cpu_cgroup_can_attach tg tset s = 0"
    "rtb_runtime (tg_rt_bandwidth (tgs s tg)) = 0" "p \<in> set tset" for p
    using that by (auto simp: cpu_cgroup_can_attach_def sched_rt_can_attach_def rt_task_def rt_prio_def
        MAX_RT_PRIO_def EINVAL_def find_None_iff dest!: spec [of _ p] split: option.splits if_splits)
qed

text \<open>The invariant for a universe with one more group that has no run queue entries.\<close>

lemma kernel_ok_insert_group:
  assumes k: "kernel_ok E U J s" and u: "rt_universe (insert (GroupRtSe g) U)"
  shows "kernel_ok E (insert (GroupRtSe g) U) J s"
proof -
  let ?U = "insert (GroupRtSe g) U"
  have l: "live ?U = live U" by (simp add: live_def)
  have "rt_good E ?U s Q" if "rt_good E U s Q" for Q using that u by (auto simp: rt_inv_def rt_placed_def)
  then have "rt_holds E ?U s A" if "rt_holds E U s A" for A using that unfolding rt_holds_def by blast
  moreover have "task_ok ?U s p" if "task_ok U s p" for p
    using that by (auto simp: task_ok_def rt_task_ok_def Let_def split: if_splits)
  ultimately show ?thesis
    using k by (simp add: kernel_at_def kernel_inv_def mm_ok_def on_rqs_def l)
qed

text \<open>Task 3, a real-time task that is queued, and task 4, which sleeps, join the new group 7.\<close>

theorem attach_moves_tasks_witness:
  "let s = kernel_sample_run; s' = cpu_cgroup_attach sample_env [7] [3, 4] s in
   (t_sched_task_group (tasks s 3), t_sched_task_group (tasks s 4), rse_rt_rq (t_rt (tasks s 3))) = ([], [], []) \<and>
   (t_sched_task_group (tasks s' 3), t_sched_task_group (tasks s' 4), rse_rt_rq (t_rt (tasks s' 3))) = ([7], [7], [7]) \<and>
   (t_on_rq (tasks s' 3), t_on_rq (tasks s' 4), t_sched_task_group (tasks s' 1)) = (1, 0, [])"
proof -
  let ?U = "insert (GroupRtSe [7]) kernel_universe" and ?s = kernel_sample_run
  have idle: "rq_idle (the_rq ?s) = 0"
    using kernel_reachable_ok [OF kernel_sample_reach(1) sample_contracts kernel_sample_ok]
    by (simp add: kernel_sample_def sample_sys_def sample_rq_def)
  have c: "contracts sample_env ?U sample_tracks"
    using sample_contracts by (simp add: contracts_def wq_contract_def pi_contract_def sample_env_def boosts_refl)
  have u: "rt_universe ?U" by (auto simp: rt_universe_def kernel_universe_def)
  have k: "kernel_ok sample_env ?U sample_tracks ?s"
    using kernel_ok_insert_group [OF _ u]
      kernel_reachable_ok(1) [OF kernel_sample_reach(1) sample_contracts kernel_sample_ok] by blast
  have "\<forall>p\<in>set [3, 4]. proper ?U ?s p" by (simp add: proper_def live_def kernel_universe_def idle)
  from attach_moves_tasks [OF c k this, of "[7]"]
  have "moved_to [7] {3, 4} ?s (cpu_cgroup_attach sample_env [7] [3, 4] ?s)" by (simp add: rt_group_ok_def)
  then show ?thesis
    using kernel_sample_reach(2) [of 3] kernel_sample_reach(2) [of 4] kernel_sample_reach(4,5)
    by (simp add: moved_to_def Let_def kernel_sample_def sample_sys_def sample_tasks_def sample_task_def sample_wrr_task_def)
qed

end
