(* ===== verification/Boot.thy ===== *)
theory Boot
  imports Kernel_Steps Rt_Admission Load_Avg
begin

text \<open>
  The start of the scheduler: \<open>sched_init\<close>, \<open>init_idle\<close> and \<open>init_idle_bootup_task\<close> of
  \<open>Prj2/kernel/sched/core.c\<close>, and the invariants they establish.
\<close>

section \<open>The operations\<close>

text \<open>
  Outside the repository: the initialisation of the fair class, the architecture's part of lazy
  switching, the boot task \<open>init_task\<close>, which is \<open>current\<close> then, its \<open>init_mm\<close>, and whether the
  allocation of the root's counter succeeds.
\<close>

record 'x benv =
  be_init_cfs_rq :: "'x \<Rightarrow> 'x"
  be_init_root_cfs :: "'x \<Rightarrow> 'x" \<comment> \<open>\<open>init_cfs_bandwidth\<close> and \<open>init_tg_cfs_entry\<close> of the root group\<close>
  be_init_sched_fair_class :: "'x \<Rightarrow> 'x"
  be_enter_lazy_tlb :: "nat \<Rightarrow> task_ptr \<Rightarrow> 'x \<Rightarrow> 'x"
  be_init_task :: task_ptr
  be_init_mm :: nat
  be_cpuusage_ok :: bool

definition ROOT_TASK_GROUP_LOAD :: ulong where "ROOT_TASK_GROUP_LOAD = 1024"

definition init_idle :: "'x env \<Rightarrow> task_ptr \<Rightarrow> 'x sys \<Rightarrow> 'x sys" where
  "init_idle E idle s =
     (let s = sched_fork' E idle s;
          s = upd_task idle (t_state_update (\<lambda>_. TASK_RUNNING)) s;
          (now, x) = x_sched_clock E (ext s);
          s = upd_task idle (t_se_update (se_exec_start_update (\<lambda>_. now))) (s\<lparr>ext := x\<rparr>);
          s = set_task_rq idle s;
          s = upd_rq (\<lambda>r. r\<lparr>rq_curr := idle, rq_idle := idle\<rparr>) s;
          s = upd_task idle (t_preempt_count_update (\<lambda>_. 0)) s
      in upd_task idle (t_sched_class_update (\<lambda>_. Idle_class)) s)"

definition init_idle_bootup_task :: "task_ptr \<Rightarrow> 'x sys \<Rightarrow> 'x sys" where
  "init_idle_bootup_task idle s = upd_task idle (t_sched_class_update (\<lambda>_. Idle_class)) s"

text \<open>The body of the loop over the processors, for the one processor.\<close>

definition sched_init_rq :: "'x env \<Rightarrow> 'x benv \<Rightarrow> rt_bandwidth \<Rightarrow> 'x sys \<Rightarrow> 'x sys" where
  "sched_init_rq E B def_rt_bandwidth s =
     (let s = upd_rq (\<lambda>r. r\<lparr>rq_nr_running := 0, rq_calc_load_active := 0,
                rq_calc_load_update := x_jiffies E (ext s) + LOAD_FREQ E\<rparr>) s;
          s = s\<lparr>ext := be_init_cfs_rq B (ext s)\<rparr>;
          s = init_rt_rq E [] s;
          s = init_wrr_rq E s;
          s = s\<lparr>tgs := (tgs s)([] := (tgs s [])\<lparr>tg_shares := ROOT_TASK_GROUP_LOAD\<rparr>)\<rparr>;
          s = s\<lparr>ext := be_init_root_cfs B (ext s)\<rparr>;
          s = upd_rt_rq [] (rtq_runtime_update (\<lambda>_. rtb_runtime def_rt_bandwidth)) s;
          s = upd_rq (rq_leaf_rt_rqs_update (\<lambda>_. [])) s;
          s = init_tg_rt_entry E [] s;
          s = upd_rq (\<lambda>r. r\<lparr>rq_cpu_load := replicate 5 0, rq_last_load_update_tick := x_jiffies E (ext s)\<rparr>) s
      in upd_rq (rq_nr_iowait_update (\<lambda>_. 0)) s)"

text \<open>None is a BUG.\<close>

definition sched_init :: "'x env \<Rightarrow> 'x benv \<Rightarrow> 'x gsys \<Rightarrow> 'x gsys option" where
  "sched_init E B S =
     (let b = init_rt_bandwidth (global_rt_period (g_sys S)) (global_rt_runtime (g_sys S));
          S = S\<lparr>g_def := b\<rparr>;
          s = g_sys S;
          s = s\<lparr>tgs := (tgs s)([] := (tgs s [])\<lparr>tg_rt_bandwidth := b\<rparr>)\<rparr>;
          S = S\<lparr>g_list := [] # g_list S, g_children := (g_children S)([] := [])\<rparr>
      in if \<not> be_cpuusage_ok B then None
         else
           let s = s\<lparr>cpuaccts := (cpuaccts s)([] := (cpuaccts s [])\<lparr>ca_cpuusage := 0\<rparr>)\<rparr>;
               s = sched_init_rq E B (g_def S) s;
               s = set_load_weight (be_init_task B) s;
               s = s\<lparr>mm_counts := (mm_counts s)(be_init_mm B := mm_counts s (be_init_mm B) + 1)\<rparr>;
               s = s\<lparr>ext := be_enter_lazy_tlb B (be_init_mm B) (be_init_task B) (ext s)\<rparr>;
               s = init_idle E (be_init_task B) s;
               s = s\<lparr>calc_load_update := x_jiffies E (ext s) + LOAD_FREQ E\<rparr>;
               s = upd_task (be_init_task B) (t_sched_class_update (\<lambda>_. Fair_class)) s;
               s = s\<lparr>ext := be_init_sched_fair_class B (ext s)\<rparr>
           in Some (S\<lparr>g_sys := s, g_scheduler_running := True\<rparr>))"

section \<open>What they leave\<close>

text \<open>The list heads that are initialised, in order.\<close>

definition boot_heads :: "task_ptr \<Rightarrow> lnode list" where
  "boot_heads c = map (RtQueue []) [0..<nat MAX_RT_PRIO] @ [WrrQueue, RtRun (TaskRtSe c), WrrRun c]"

lemma init_rt_rq_links:
  "links (init_rt_rq E g s) = fold (kl_INIT_LIST_HEAD (klist E)) (map (RtQueue g) [0..<nat MAX_RT_PRIO]) (links s)"
proof -
  have "links (fold (\<lambda>i s. upd_rt_rq g (rtq_bitmap_update (\<lambda>b. b(i := False)))
      (upd_links (kl_INIT_LIST_HEAD (klist E) (RtQueue g i)) s)) is s) =
    fold (kl_INIT_LIST_HEAD (klist E)) (map (RtQueue g) is) (links s)" for "is"
    by (induction "is" arbitrary: s) simp_all
  then show ?thesis by (simp add: init_rt_rq_def Let_def)
qed

lemma init_rt_rq_root:
  "rt_rqs (init_rt_rq E g s) g = (rt_rqs s g)\<lparr>
     rtq_bitmap := (\<lambda>i. if i < 100 then False else if i = 100 then True else rtq_bitmap (rt_rqs s g) i),
     rtq_time := 0, rtq_throttled := 0, rtq_runtime := 0\<rparr>"
proof -
  have "rt_rqs (fold (\<lambda>i s. upd_rt_rq g (rtq_bitmap_update (\<lambda>b. b(i := False)))
      (upd_links (kl_INIT_LIST_HEAD (klist E) (RtQueue g i)) s)) is s) g =
    (rt_rqs s g)\<lparr>rtq_bitmap := (\<lambda>i. i \<notin> set is \<and> rtq_bitmap (rt_rqs s g) i)\<rparr>" for "is"
    by (induction "is" arbitrary: s) (auto simp: fun_eq_iff)
  then show ?thesis
    by (simp add: init_rt_rq_def Let_def MAX_RT_PRIO_def fun_eq_iff)
qed

lemma init_fold_list:
  assumes "init_ok f" and "n \<in> set ns \<or> is_list h n []"
  shows "is_list (fold f ns h) n []"
  using assms(2)
proof (induction ns arbitrary: h)
  case (Cons m ns)
  have "is_list (f m h) n []" if "n = m \<or> is_list h n []"
    using that init_okD [OF assms(1)] by (cases "n = m") (auto simp: is_list_Nil)
  then show ?case using Cons by (cases "n \<in> set ns") auto
qed simp


lemma init_rt_rq_other:
  "tasks (init_rt_rq E g s) = tasks s" "the_rq (init_rt_rq E g s) = the_rq s" "ext (init_rt_rq E g s) = ext s"
  "h \<noteq> g \<Longrightarrow> rt_rqs (init_rt_rq E g s) h = rt_rqs s h"
proof -
  have "tasks (fold (\<lambda>i s. upd_rt_rq g (rtq_bitmap_update (\<lambda>b. b(i := False)))
      (upd_links (kl_INIT_LIST_HEAD (klist E) (RtQueue g i)) s)) is s) = tasks s \<and>
    the_rq (fold (\<lambda>i s. upd_rt_rq g (rtq_bitmap_update (\<lambda>b. b(i := False)))
      (upd_links (kl_INIT_LIST_HEAD (klist E) (RtQueue g i)) s)) is s) = the_rq s \<and>
    ext (fold (\<lambda>i s. upd_rt_rq g (rtq_bitmap_update (\<lambda>b. b(i := False)))
      (upd_links (kl_INIT_LIST_HEAD (klist E) (RtQueue g i)) s)) is s) = ext s" for "is"
    by (induction "is" arbitrary: s) simp_all
  then show "tasks (init_rt_rq E g s) = tasks s" "the_rq (init_rt_rq E g s) = the_rq s"
    "ext (init_rt_rq E g s) = ext s"
    by (simp_all add: init_rt_rq_def Let_def)
qed (rule init_rt_rq_frame)

text \<open>The fields of \<open>sched_init_rq\<close> and \<open>init_idle\<close> that the invariants read.\<close>

lemma tg_rt_se_root: "tg_rt_se [] = None"
  by (simp add: tg_rt_se_def)

lemma sched_init_rq_fields:
  "tasks (sched_init_rq E B b s) = tasks s"
  "links (sched_init_rq E B b s) = fold (kl_INIT_LIST_HEAD (klist E))
     (map (RtQueue []) [0..<nat MAX_RT_PRIO] @ [WrrQueue]) (links s)"
  "rt_rqs (sched_init_rq E B b s) g = (if g = [] then
     (rt_rqs s [])\<lparr>
       rtq_bitmap := (\<lambda>i. if i < 100 then False else if i = 100 then True else rtq_bitmap (rt_rqs s []) i),
       rtq_time := 0, rtq_throttled := 0, rtq_runtime := rtb_runtime b, rtq_highest_prio := MAX_RT_PRIO,
       rtq_nr_boosted := 0\<rparr> else rt_rqs s g)"
  "tgs (sched_init_rq E B b s) = (tgs s)([] := (tgs s [])\<lparr>tg_shares := ROOT_TASK_GROUP_LOAD\<rparr>)"
  "ext (sched_init_rq E B b s) = be_init_root_cfs B (be_init_cfs_rq B (ext s))"
  "sysctl_rt_period (sched_init_rq E B b s) = sysctl_rt_period s"
  "sysctl_rt_runtime (sched_init_rq E B b s) = sysctl_rt_runtime s"
  "rq_nr_running (the_rq (sched_init_rq E B b s)) = 0"
  "rq_wrr (the_rq (sched_init_rq E B b s)) =
     (rq_wrr (the_rq s))\<lparr>wrr_time := 0, wrr_throttled := 0, wrr_runtime := 0\<rparr>"
  "rq_stop (the_rq (sched_init_rq E B b s)) = rq_stop (the_rq s)"
  "rq_prev_mm (the_rq (sched_init_rq E B b s)) = rq_prev_mm (the_rq s)"
  by (simp_all add: sched_init_rq_def init_wrr_rq_def init_tg_rt_entry_def init_rt_rq_links init_rt_rq_root
      init_rt_rq_other init_rt_rq_frame tg_rt_se_root Let_def)

lemma init_idle_fields:
  "\<exists>now. tasks (init_idle E c s) = (tasks s)(c := (tasks s c)\<lparr>t_on_rq := 0, t_state := TASK_RUNNING,
     t_se := ((t_se (tasks s c))\<lparr>se_on_rq := 0, se_exec_start := now, se_sum_exec_runtime := 0,
       se_prev_sum_exec_runtime := 0, se_nr_migrations := 0, se_vruntime := 0,
       se_cfs_rq := t_sched_task_group (tasks s c),
       se_parent := (if t_sched_task_group (tasks s c) = [] then None else Some (t_sched_task_group (tasks s c)))\<rparr>),
     t_rt := ((t_rt (tasks s c))\<lparr>rse_rt_rq := t_sched_task_group (tasks s c),
       rse_parent := (if t_sched_task_group (tasks s c) = [] then None else Some (t_sched_task_group (tasks s c)))\<rparr>),
     t_preempt_count := 0, t_sched_class := Idle_class\<rparr>)"
  "links (init_idle E c s) = kl_INIT_LIST_HEAD (klist E) (WrrRun c)
     (kl_INIT_LIST_HEAD (klist E) (RtRun (TaskRtSe c)) (links s))"
  "the_rq (init_idle E c s) = (the_rq s)\<lparr>rq_curr := c, rq_idle := c\<rparr>"
  "rt_rqs (init_idle E c s) = rt_rqs s" "tgs (init_idle E c s) = tgs s"
  "ext (init_idle E c s) = snd (x_sched_clock E (ext s))"
  "sysctl_rt_period (init_idle E c s) = sysctl_rt_period s"
  "sysctl_rt_runtime (init_idle E c s) = sysctl_rt_runtime s"
  by (rule exI [of _ "fst (x_sched_clock E (ext s))"])
    (simp_all add: init_idle_def sched_fork'_def set_task_rq_def case_prod_beta Let_def fun_eq_iff)


section \<open>The start\<close>

definition empty_rt_rq :: "rt_rq \<Rightarrow> bool" where
  "empty_rt_rq R \<longleftrightarrow> (\<forall>i<100. \<not> rtq_bitmap R i) \<and> rtq_bitmap R 100 \<and> rtq_nr_running R = 0 \<and>
     rtq_highest_prio R = 100 \<and> rtq_nr_boosted R = 0"

definition boot_task :: "'x benv \<Rightarrow> task_struct \<Rightarrow> bool" where
  "boot_task B t \<longleftrightarrow> t_sched_task_group t = [] \<and> 100 \<le> t_static_prio t \<and> t_static_prio t < 140 \<and>
     0 \<le> t_normal_prio t \<and> t_mm t = None \<and> t_active_mm t = Some (be_init_mm B)"

text \<open>
  The image of the kernel before \<open>sched_init\<close>: no group is linked, the counters of the root's queues
  and the run queue are those of zeroed memory, and the default limits are set. The links, the
  bitmaps and everything about other tasks and groups are arbitrary.
\<close>

definition boot_image :: "'x benv \<Rightarrow> 'x gsys \<Rightarrow> bool" where
  "boot_image B S \<longleftrightarrow>
     (let s = g_sys S in
      g_list S = [] \<and> sysctl_rt_period s = 1000000 \<and> sysctl_rt_runtime s = 950000 \<and>
      rtq_nr_running (rt_rqs s []) = 0 \<and> wrr_nr_running (rq_wrr (the_rq s)) = 0 \<and>
      rq_stop (the_rq s) = None \<and> rq_prev_mm (the_rq s) = None \<and> boot_task B (tasks s (be_init_task B)))"

definition fair_boots :: "'x benv \<Rightarrow> 'x fair_inv \<Rightarrow> bool" where
  "fair_boots B J \<longleftrightarrow> (\<forall>x. J (be_init_cfs_rq B x) {}) \<and>
     (\<forall>x. J x {} \<longrightarrow> J (be_init_root_cfs B x) {} \<and> J (be_init_sched_fair_class B x) {} \<and>
        (\<forall>m p. J (be_enter_lazy_tlb B m p x) {}))"

lemma boot_imageD:
  assumes "boot_image B S"
  shows "g_list S = []" "sysctl_rt_period (g_sys S) = 1000000" "sysctl_rt_runtime (g_sys S) = 950000"
    "rtq_nr_running (rt_rqs (g_sys S) []) = 0" "wrr_nr_running (rq_wrr (the_rq (g_sys S))) = 0"
    "rq_stop (the_rq (g_sys S)) = None" "rq_prev_mm (the_rq (g_sys S)) = None"
    "boot_task B (tasks (g_sys S) (be_init_task B))"
  using assms by (simp_all add: boot_image_def Let_def)

text \<open>
  The invariants speak of every task and group of a fixed universe; at the start only the boot task
  \<open>c\<close> and the root group exist. \<open>with_uncreated E c s\<close> is the system \<open>s\<close> in which the memory of the
  others holds what their creation writes: a task is a copy of the boot task, off every queue and in
  the fair class, as \<open>sched_fork\<close> leaves it; the queue of a group is that of
  \<open>alloc_rt_sched_group\<close>; their list nodes are initialised. What exists is left as it is.
\<close>

definition with_uncreated :: "'x env \<Rightarrow> task_ptr \<Rightarrow> 'x sys \<Rightarrow> 'x sys" where
  "with_uncreated E c s = s\<lparr>
     tasks := (\<lambda>p. if p = c then tasks s c else (tasks s c)\<lparr>t_on_rq := 0, t_sched_class := Fair_class\<rparr>),
     rt_rqs := (\<lambda>g. if g = [] then rt_rqs s [] else rt_rqs (fst (alloc_rt_sched_group E True True True True 0 g s)) g),
     links := (\<lambda>n. if n \<in> set (boot_heads c) then links s n else kl_INIT_LIST_HEAD (klist E) n (links s) n)\<rparr>"

lemma alloc_rt_empty: "g \<noteq> [] \<Longrightarrow> empty_rt_rq (rt_rqs (fst (alloc_rt_sched_group E True True True True d g s)) g)"
  by (cases g)
    (simp_all add: alloc_rt_sched_group_def init_tg_rt_entry_def tg_rt_se_def init_rt_rq_root zero_rt_rq_def empty_rt_rq_def
      MAX_RT_PRIO_def Let_def)

lemma with_uncreated_lists:
  assumes "init_ok (kl_INIT_LIST_HEAD (klist E))" and "\<And>n. n \<in> set (boot_heads c) \<Longrightarrow> is_list (links s) n []"
  shows "is_list (links (with_uncreated E c s)) n []"
  using assms(2) [of n] init_okD(1) [OF assms(1), of n "links s"] by (simp add: with_uncreated_def is_list_Nil)

text \<open>With empty queues the invariants of the two classes hold.\<close>

lemma rt_holds_empty:
  assumes e: "klist_ok (klist E)" "ffb_ok E" "rt_universe U"
    and l: "\<And>n. is_list (links s) n []" and q: "\<And>g. empty_rt_rq (rt_rqs s g)"
  shows "rt_holds E U s {}"
proof -
  have "arr_top (rt_array (\<lambda>_. []) g) = 100" for g by (rule arr_top_eqI) (auto simp: rt_array_def)
  then have "rq_agrees (rt_rqs s g) b (rt_array (\<lambda>_. []) g)" for g and b :: "rt_se_ptr \<Rightarrow> bool"
    using q [of g] by (simp add: rq_agrees_def empty_rt_rq_def arr_size_def arr_count_def rt_array_def)
  moreover have "rt_links s (\<lambda>_. [])" by (auto simp: rt_links_def on_queues_def l inj_on_def)
  ultimately have "rt_good E U s (\<lambda>_. [])"
    using e q by (simp add: rt_inv_def rt_placed_def rt_groups_queued_def rt_on_def rt_active_def empty_rt_rq_def)
  then show ?thesis by (rule rt_holdsI) (simp_all add: rt_on_def)
qed

lemma wrr_holds_empty:
  assumes "klist_ok (klist E)" and "\<And>n. is_list (links s) n []"
    and "wrr_nr_running (rq_wrr (the_rq s)) = 0" "wrr_throttled (rq_wrr (the_rq s)) = 0"
  shows "wrr_holds E s {}"
proof -
  have "wrr_inv E s []" using assms by (auto simp: wrr_inv_def on_queue_def inj_def)
  then show ?thesis by (auto simp: wrr_holds_def)
qed

text \<open>\<open>sched_init\<close>, and \<open>init_idle_bootup_task\<close>, which the boot task calls when it becomes the idle task.\<close>

definition boot :: "'x env \<Rightarrow> 'x benv \<Rightarrow> 'x gsys \<Rightarrow> 'x gsys option" where
  "boot E B S = map_option (\<lambda>S. S\<lparr>g_sys := init_idle_bootup_task (be_init_task B) (g_sys S)\<rparr>) (sched_init E B S)"

lemma set_load_weight_frame:
  "links (set_load_weight p s) = links s" "rt_rqs (set_load_weight p s) = rt_rqs s"
  "the_rq (set_load_weight p s) = the_rq s" "tgs (set_load_weight p s) = tgs s" "ext (set_load_weight p s) = ext s"
  "sysctl_rt_period (set_load_weight p s) = sysctl_rt_period s"
  "sysctl_rt_runtime (set_load_weight p s) = sysctl_rt_runtime s"
  by (simp_all add: set_load_weight_def Let_def)

text \<open>The state that a boot leaves, field by field.\<close>

definition booted :: "'x env \<Rightarrow> 'x benv \<Rightarrow> 'x gsys \<Rightarrow> 'x sys \<Rightarrow> bool" where
  "booted E B S s \<longleftrightarrow>
     (let c = be_init_task B; s0 = g_sys S in
      links s = fold (kl_INIT_LIST_HEAD (klist E)) (boot_heads c) (links s0) \<and>
      (\<forall>p. p \<noteq> c \<longrightarrow> tasks s p = tasks s0 p) \<and>
      (\<exists>l n. tasks s c = (tasks s0 c)\<lparr>t_on_rq := 0, t_state := TASK_RUNNING, t_se := l,
         t_rt := ((t_rt (tasks s0 c))\<lparr>rse_rt_rq := t_sched_task_group (tasks s0 c),
           rse_parent := (if t_sched_task_group (tasks s0 c) = [] then None
             else Some (t_sched_task_group (tasks s0 c)))\<rparr>),
         t_preempt_count := n, t_sched_class := Idle_class\<rparr>) \<and>
      rq_nr_running (the_rq s) = 0 \<and> rq_curr (the_rq s) = c \<and> rq_idle (the_rq s) = c \<and>
      rq_stop (the_rq s) = rq_stop (the_rq s0) \<and> rq_prev_mm (the_rq s) = rq_prev_mm (the_rq s0) \<and>
      wrr_throttled (rq_wrr (the_rq s)) = 0 \<and>
      wrr_nr_running (rq_wrr (the_rq s)) = wrr_nr_running (rq_wrr (the_rq s0)) \<and>
      sysctl_rt_period s = sysctl_rt_period s0 \<and> sysctl_rt_runtime s = sysctl_rt_runtime s0)"

lemma set_load_weight_tasks: "\<exists>l. tasks (set_load_weight p s) = (tasks s)(p := (tasks s p)\<lparr>t_se := l\<rparr>)"
proof -
  obtain l where "set_load_weight p s = upd_task p (t_se_update (se_load_update (\<lambda>_. l))) s"
    using set_load_weight_alt by blast
  then show ?thesis
    by (intro exI [of _ "se_load_update (\<lambda>_. l) (t_se (tasks s p))"]) (simp add: fun_eq_iff)
qed

lemma boot_fields:
  assumes ok: "be_cpuusage_ok B" and e: "env_ok E J" and f: "fair_boots B J"
  obtains S' where "boot E B S = Some S'" "booted E B S (g_sys S')" "J (ext (g_sys S')) {}"
    "g_list S' = [] # g_list S" "g_children S' [] = []"
    "g_def S' = \<lparr>rtb_period = global_rt_period (g_sys S), rtb_runtime = global_rt_runtime (g_sys S)\<rparr>"
    "tg_rt_bandwidth (tgs (g_sys S') []) = g_def S'" "g_scheduler_running S'"
    "rt_rqs (g_sys S') = (rt_rqs (g_sys S))([] := (rt_rqs (g_sys S) [])\<lparr>
       rtq_bitmap := (\<lambda>i. if i < 100 then False else if i = 100 then True else rtq_bitmap (rt_rqs (g_sys S) []) i),
       rtq_time := 0, rtq_throttled := 0, rtq_runtime := rtb_runtime (g_def S'), rtq_highest_prio := MAX_RT_PRIO,
       rtq_nr_boosted := 0\<rparr>)"
proof -
  define c where "c = be_init_task B"
  define b where "b = init_rt_bandwidth (global_rt_period (g_sys S)) (global_rt_runtime (g_sys S))"
  define s1 where "s1 = (g_sys S)\<lparr>tgs := (tgs (g_sys S))([] := (tgs (g_sys S) [])\<lparr>tg_rt_bandwidth := b\<rparr>),
    cpuaccts := (cpuaccts (g_sys S))([] := (cpuaccts (g_sys S) [])\<lparr>ca_cpuusage := 0\<rparr>)\<rparr>"
  define s2 where "s2 = sched_init_rq E B b s1"
  define s3 where "s3 = (set_load_weight c s2)\<lparr>mm_counts := (mm_counts (set_load_weight c s2))
    (be_init_mm B := mm_counts (set_load_weight c s2) (be_init_mm B) + 1),
    ext := be_enter_lazy_tlb B (be_init_mm B) c (ext (set_load_weight c s2))\<rparr>"
  define s4 where "s4 = init_idle E c s3"
  define s5 where "s5 = upd_task c (t_sched_class_update (\<lambda>_. Idle_class))
    (upd_task c (t_sched_class_update (\<lambda>_. Fair_class)) (s4\<lparr>calc_load_update := x_jiffies E (ext s4) + LOAD_FREQ E\<rparr>))
    \<lparr>ext := be_init_sched_fair_class B (ext s4)\<rparr>"
  have r: "boot E B S = Some (S\<lparr>g_def := b, g_list := [] # g_list S, g_children := (g_children S)([] := []),
      g_sys := s5, g_scheduler_running := True\<rparr>)"
    using ok by (simp add: boot_def sched_init_def init_idle_bootup_task_def s5_def s4_def s3_def s2_def s1_def
        b_def c_def Let_def upd_task_def)
  note i = sched_init_rq_fields [of E B b s1, folded s2_def] and j = init_idle_fields [of E c s3, folded s4_def]
    and k = set_load_weight_frame [of c s2]
  obtain l where l: "tasks (set_load_weight c s2) = (tasks s2)(c := (tasks s2 c)\<lparr>t_se := l\<rparr>)"
    using set_load_weight_tasks by blast
  have g: "t_sched_task_group (tasks s3 c) = t_sched_task_group (tasks (g_sys S) c)"
    by (simp add: s3_def l i s1_def)
  have J: "J (ext s5) {}"
    using f env_okD(1) [OF e, of "ext s3" "{}"] by (simp add: s5_def j s3_def k i fair_boots_def)
  obtain l' where l': "tasks s5 = (tasks (g_sys S))(c := (tasks (g_sys S) c)\<lparr>t_on_rq := 0, t_state := TASK_RUNNING,
      t_se := l', t_rt := ((t_rt (tasks (g_sys S) c))\<lparr>rse_rt_rq := t_sched_task_group (tasks (g_sys S) c),
         rse_parent := (if t_sched_task_group (tasks (g_sys S) c) = [] then None
           else Some (t_sched_task_group (tasks (g_sys S) c)))\<rparr>),
      t_preempt_count := 0, t_sched_class := Idle_class\<rparr>)"
  proof -
    from j(1) obtain now where now: "tasks s4 = (tasks s3)(c := (tasks s3 c)\<lparr>t_on_rq := 0, t_state := TASK_RUNNING,
        t_se := ((t_se (tasks s3 c))\<lparr>se_on_rq := 0, se_exec_start := now, se_sum_exec_runtime := 0,
          se_prev_sum_exec_runtime := 0, se_nr_migrations := 0, se_vruntime := 0,
          se_cfs_rq := t_sched_task_group (tasks s3 c),
          se_parent := (if t_sched_task_group (tasks s3 c) = [] then None else Some (t_sched_task_group (tasks s3 c)))\<rparr>),
        t_rt := ((t_rt (tasks s3 c))\<lparr>rse_rt_rq := t_sched_task_group (tasks s3 c),
          rse_parent := (if t_sched_task_group (tasks s3 c) = [] then None else Some (t_sched_task_group (tasks s3 c)))\<rparr>),
        t_preempt_count := 0, t_sched_class := Idle_class\<rparr>)" by blast
    have "tasks s3 = (tasks (g_sys S))(c := (tasks (g_sys S) c)\<lparr>t_se := l\<rparr>)"
      by (simp add: s3_def l i s1_def)
    note s4 = now [unfolded g this]
    show thesis
      by (rule that [of "l\<lparr>se_on_rq := 0, se_exec_start := now, se_sum_exec_runtime := 0,
          se_prev_sum_exec_runtime := 0, se_nr_migrations := 0, se_vruntime := 0,
          se_cfs_rq := t_sched_task_group (tasks (g_sys S) c),
          se_parent := (if t_sched_task_group (tasks (g_sys S) c) = [] then None
            else Some (t_sched_task_group (tasks (g_sys S) c)))\<rparr>"])
        (simp add: s5_def s4)
  qed
  have "booted E B S s5"
    unfolding booted_def Let_def c_def [symmetric]
    by (intro conjI exI [of _ l'] exI [of _ "0 :: u32"])
      (simp_all add: l', simp_all add: s5_def j s3_def k i s1_def boot_heads_def)
  then show thesis
    by (intro that [OF r])
      (simp_all add: J, simp_all add: s5_def j s3_def k i s1_def b_def init_rt_bandwidth_def fun_eq_iff)
qed


text \<open>
  C5: The start. From any image of the kernel with the static data of the run queue and of the boot
  task, whatever its list nodes, bitmaps and other memory hold, \<open>sched_init\<close> followed by the step
  that makes the boot task the idle task returns, and every later property can start from its
  result: the boot task runs, is the idle task and in the idle class, no task is on a queue, the tree
  of groups is the root alone with an admitted share of real-time run time, the scheduler is
  marked as running, and the invariant of the kernel holds, for a universe of tasks and groups of which
  those not created yet are in the state their creation gives them (\<open>with_uncreated\<close>).
\<close>

theorem boot_establishes_invariants:
  assumes "env_ok E J" and "klist_ok (klist E)" and "ffb_ok E" and "fair_boots B J"
    and "rt_universe U" and "be_init_task B \<in> live U" and "\<forall>p\<in>live U. p < max_tasks"
    and "boot_image B S" and "be_cpuusage_ok B"
  shows "\<exists>S'. boot E B S = Some S' \<and>
    kernel_ok E U J (with_uncreated E (be_init_task B) (g_sys S')) \<and>
    on_rqs U (with_uncreated E (be_init_task B) (g_sys S')) = {} \<and>
    curr (g_sys S') = be_init_task B \<and> rq_idle (the_rq (g_sys S')) = be_init_task B \<and>
    t_sched_class (tasks (g_sys S') (be_init_task B)) = Idle_class \<and>
    g_list S' = [[]] \<and> g_children S' [] = [] \<and> g_scheduler_running S' \<and> admitted S'"
proof -
  define c where "c = be_init_task B"
  note m = boot_imageD [OF assms(8), folded c_def]
  obtain S' where r: "boot E B S = Some S'" "booted E B S (g_sys S')" "J (ext (g_sys S')) {}"
    "g_list S' = [] # g_list S" "g_children S' [] = []"
    "g_def S' = \<lparr>rtb_period = global_rt_period (g_sys S), rtb_runtime = global_rt_runtime (g_sys S)\<rparr>"
    "tg_rt_bandwidth (tgs (g_sys S') []) = g_def S'" "g_scheduler_running S'"
    "rt_rqs (g_sys S') = (rt_rqs (g_sys S))([] := (rt_rqs (g_sys S) [])\<lparr>
       rtq_bitmap := (\<lambda>i. if i < 100 then False else if i = 100 then True else rtq_bitmap (rt_rqs (g_sys S) []) i),
       rtq_time := 0, rtq_throttled := 0, rtq_runtime := rtb_runtime (g_def S'), rtq_highest_prio := MAX_RT_PRIO,
       rtq_nr_boosted := 0\<rparr>)"
    by (rule boot_fields [OF assms(9,1,4), where S = S]) blast
  define s where "s = g_sys S'"
  define u where "u = with_uncreated E c s"
  obtain l n where t: "tasks s c = (tasks (g_sys S) c)\<lparr>t_on_rq := 0, t_state := TASK_RUNNING, t_se := l,
      t_rt := ((t_rt (tasks (g_sys S) c))\<lparr>rse_rt_rq := [], rse_parent := None\<rparr>),
      t_preempt_count := n, t_sched_class := Idle_class\<rparr>"
    and b: "links s = fold (kl_INIT_LIST_HEAD (klist E)) (boot_heads c) (links (g_sys S))"
      "rq_nr_running (the_rq s) = 0" "curr s = c"
      "rq_idle (the_rq s) = c" "rq_stop (the_rq s) = None" "rq_prev_mm (the_rq s) = None"
      "wrr_throttled (rq_wrr (the_rq s)) = 0" "wrr_nr_running (rq_wrr (the_rq s)) = 0"
      "sysctl_rt_period s = 1000000" "sysctl_rt_runtime s = 950000"
    using r(2) m(2,3,5-8) unfolding booted_def Let_def boot_task_def c_def s_def by auto
  have q: "the_rq u = the_rq s" "ext u = ext s" "tasks u c = tasks s c" by (simp_all add: u_def with_uncreated_def)
  note init = klist_okD(1) [OF assms(2)]
  have lists: "is_list (links u) n []" for n
    unfolding u_def by (rule with_uncreated_lists [OF init]) (simp add: b(1) init_fold_list [OF init])
  have rqs: "empty_rt_rq (rt_rqs u g)" for g
  proof (cases "g = []")
    case True
    then show ?thesis using m(4) r(9) by (simp add: u_def with_uncreated_def s_def empty_rt_rq_def MAX_RT_PRIO_def)
  next
    case False
    then show ?thesis using alloc_rt_empty [OF False] by (simp add: u_def with_uncreated_def)
  qed
  have tasks_ok: "task_ok U u p \<and> t_on_rq (tasks u p) = 0 \<and>
      (t_mm (tasks u p) \<noteq> None \<longrightarrow> t_active_mm (tasks u p) = t_mm (tasks u p))" if "p \<in> live U" for p
    using that assms(7) m(8) b(4)
    by (auto simp: task_ok_def rt_task_ok_def live_def u_def with_uncreated_def t boot_task_def)
  have on: "on_rqs U u = {}" using tasks_ok by (auto simp: on_rqs_def)
  have c: "c \<in> live U" using assms(6) by (simp add: c_def)
  have "kernel_inv E U J {} u"
    using rt_holds_empty [OF assms(2,3,5) lists rqs] wrr_holds_empty [OF assms(2) lists] r(3) b tasks_ok c
    by (simp add: kernel_inv_def q s_def)
  moreover have "mm_ok U u" using tasks_ok m(8) t b by (simp add: mm_ok_def boot_task_def q)
  ultimately have k: "kernel_ok E U J u" using on b(3,4) t by (simp add: kernel_at_def q)
  have g: "global_rt_period s = 1000000000" "global_rt_runtime s = 950000000"
    "global_rt_period (g_sys S) = 1000000000" "global_rt_runtime (g_sys S) = 950000000"
    using m(2,3) b(9,10)
    by (simp_all add: global_rt_period_def global_rt_runtime_def NSEC_PER_USEC_def)
  have fits: "rt_fits 1000000000 950000000" by (simp add: rt_fits_def)
  have "admitted S'"
    using fits g b(9,10) r(4-7,9) m(1)
    by (simp add: admitted_def groups_ok_def group_admitted_def rt_share_def global_rt_share_def tg_parent_def
        s_def Let_def)
  with r(1,4,5,8) m(1) k on b(3,4) t show ?thesis by (auto simp: s_def u_def c_def)
qed

section \<open>An instance\<close>

definition sample_benv :: "sample_ext benv" where
  "sample_benv = \<lparr>be_init_cfs_rq = (\<lambda>x. x\<lparr>smp_fairq := []\<rparr>), be_init_root_cfs = (\<lambda>x. x),
     be_init_sched_fair_class = (\<lambda>x. x), be_enter_lazy_tlb = (\<lambda>_ _ x. x), be_init_task = 0, be_init_mm = 9,
     be_cpuusage_ok = True\<rparr>"

text \<open>An image whose list nodes all point to one place and whose other memory is arbitrary.\<close>

definition sample_image :: "sample_ext gsys" where
  "sample_image = \<lparr>g_sys = sample_sys\<lparr>
       tasks := (\<lambda>p. sample_task\<lparr>t_on_rq := 1, t_mm := None, t_active_mm := Some 9, t_sched_class := Rt_class, t_prio := int p\<rparr>),
       links := (\<lambda>_. \<lparr>lh_next = WrrQueue, lh_prev = WrrRun 7\<rparr>),
       rt_rqs := (\<lambda>g. sample_rt_rq\<lparr>rtq_bitmap := (\<lambda>_. True), rtq_nr_running := of_nat (length g), rtq_highest_prio := 3\<rparr>),
       sysctl_rt_period := 1000000, sysctl_rt_runtime := 950000\<rparr>,
     g_children = (\<lambda>_. [[1], [2]]), g_list = [], g_def = \<lparr>rtb_period = 0, rtb_runtime = 0\<rparr>,
     g_scheduler_running = False\<rparr>"

lemma sample_image_boots: "boot_image sample_benv sample_image"
  by (simp add: boot_image_def boot_task_def sample_image_def sample_benv_def sample_task_def sample_sys_def sample_rq_def
      sample_rt_rq_def)

theorem boot_establishes_invariants_witness:
  "\<exists>S'. boot sample_env sample_benv sample_image = Some S' \<and>
     kernel_ok sample_env kernel_universe sample_tracks (with_uncreated sample_env 0 (g_sys S')) \<and>
     rq_idle (the_rq (g_sys S')) = 0 \<and> g_list S' = [[]] \<and> admitted S'"
proof -
  have "rt_universe kernel_universe" "be_init_task sample_benv \<in> live kernel_universe"
    "\<forall>p\<in>live kernel_universe. p < max_tasks"
    by (auto simp: rt_universe_def kernel_universe_def live_def sample_benv_def max_tasks_def)
  moreover have "klist_ok (klist sample_env)" "ffb_ok sample_env"
    using sample_ffb_ok rt_invD(1) [OF rt_sample_good] by simp_all
  moreover have "fair_boots sample_benv sample_tracks" by (simp add: fair_boots_def sample_benv_def sample_tracks_def)
  moreover have "be_cpuusage_ok sample_benv" "be_init_task sample_benv = 0" by (simp_all add: sample_benv_def)
  ultimately show ?thesis
    using boot_establishes_invariants [OF contractsD(1) [OF sample_contracts], where U = kernel_universe and
        B = sample_benv and S = sample_image] sample_image_boots
    by auto
qed

end
