(* ===== verification/Rt_Balance.thy ===== *)
theory Rt_Balance
  imports Sched_Types
begin

text \<open>
  The part of \<open>Prj2/kernel/sched/rt.c\<close> by which the processors of a multiprocessor build lend each
  other real-time run time: \<open>do_balance_runtime\<close>, \<open>__disable_runtime\<close>, \<open>__enable_runtime\<close> and
  the callers in the same file.
\<close>

section \<open>State and operations\<close>

text \<open>
  Every group has a queue on every processor. \<open>b_span\<close> is the root domain's \<open>span\<close> in the order of
  \<open>for_each_cpu\<close>, \<open>b_groups\<close> the list \<open>for_each_rt_rq\<close> goes through.
\<close>

record brt =
  b_rqs :: "tg_ptr \<Rightarrow> nat \<Rightarrow> rt_rq"
  b_bands :: "tg_ptr \<Rightarrow> rt_bandwidth"
  b_groups :: "tg_ptr list"
  b_span :: "nat list"
  b_scheduler_running :: bool

abbreviation upd_runtime :: "nat \<Rightarrow> (u64 \<Rightarrow> u64) \<Rightarrow> (nat \<Rightarrow> rt_rq) \<Rightarrow> nat \<Rightarrow> rt_rq" where
  "upd_runtime i f q \<equiv> q(i := rtq_runtime_update f (q i))"

text \<open>The loop of \<open>do_balance_runtime\<close> over the processors, with \<open>more\<close>; \<open>diff\<close> is signed.\<close>

fun balance_loop :: "u64 \<Rightarrow> u64 \<Rightarrow> nat \<Rightarrow> nat list \<Rightarrow> (nat \<Rightarrow> rt_rq) \<Rightarrow> int \<Rightarrow> (nat \<Rightarrow> rt_rq) \<times> int" where
  "balance_loop weight rt_period me [] q got = (q, got)"
| "balance_loop weight rt_period me (i # is) q got =
     (if i = me then balance_loop weight rt_period me is q got
      else if rtq_runtime (q i) = RUNTIME_INF then balance_loop weight rt_period me is q got
      else
        let diff = rtq_runtime (q i) - rtq_time (q i)
        in if sint diff > 0 then
             let diff = diff div weight;
                 diff = (if rtq_runtime (q me) + diff > rt_period then rt_period - rtq_runtime (q me) else diff);
                 q = upd_runtime i (\<lambda>r. r - diff) q;
                 q = upd_runtime me (\<lambda>r. r + diff) q
             in if rtq_runtime (q me) = rt_period then (q, 1)
                else balance_loop weight rt_period me is q 1
           else balance_loop weight rt_period me is q got)"

definition do_balance_runtime :: "tg_ptr \<Rightarrow> nat \<Rightarrow> brt \<Rightarrow> brt \<times> int" where
  "do_balance_runtime g me S =
     (let weight = of_nat (length (b_span S));
          rt_period = rtb_period (b_bands S g);
          (q, got) = balance_loop weight rt_period me (b_span S) (b_rqs S g) 0
      in (S\<lparr>b_rqs := (b_rqs S)(g := q)\<rparr>, got))"

text \<open>\<open>feat\<close> is \<open>sched_feat(RT_RUNTIME_SHARE)\<close>.\<close>

definition balance_runtime_smp :: "bool \<Rightarrow> tg_ptr \<Rightarrow> nat \<Rightarrow> brt \<Rightarrow> brt \<times> int" where
  "balance_runtime_smp feat g me S =
     (if \<not> feat then (S, 0)
      else if rtq_time (b_rqs S g me) > rtq_runtime (b_rqs S g me) then do_balance_runtime g me S
      else (S, 0))"

text \<open>The loop of \<open>__disable_runtime\<close>; \<open>want\<close> is signed.\<close>

fun reclaim_loop :: "nat \<Rightarrow> nat list \<Rightarrow> u64 \<Rightarrow> (nat \<Rightarrow> rt_rq) \<Rightarrow> (nat \<Rightarrow> rt_rq) \<times> u64" where
  "reclaim_loop me [] want q = (q, want)"
| "reclaim_loop me (i # is) want q =
     (if i = me \<or> rtq_runtime (q i) = RUNTIME_INF then reclaim_loop me is want q
      else
        let (q, want) =
          (if sint want > 0 then
             let diff = (if sint (rtq_runtime (q i)) < sint want then rtq_runtime (q i) else want)
             in (upd_runtime i (\<lambda>r. r - diff) q, want - diff)
           else (upd_runtime i (\<lambda>r. r - want) q, want - want))
        in if want = 0 then (q, want) else reclaim_loop me is want q)"

text \<open>The queue of one group; None is the BUG that some run time has leaked.\<close>

definition disable_group :: "tg_ptr \<Rightarrow> nat \<Rightarrow> brt \<Rightarrow> brt option" where
  "disable_group g me S =
     (let b = b_bands S g; q = b_rqs S g
      in if rtq_runtime (q me) = RUNTIME_INF \<or> rtq_runtime (q me) = rtb_runtime b then
           Some (S\<lparr>b_rqs := (b_rqs S)(g := upd_runtime me (\<lambda>_. RUNTIME_INF) q)\<rparr>)
         else
           let want = rtb_runtime b - rtq_runtime (q me);
               (q, want) = reclaim_loop me (b_span S) want q
           in if want \<noteq> 0 then None
              else Some (S\<lparr>b_rqs := (b_rqs S)(g := upd_runtime me (\<lambda>_. RUNTIME_INF) q)\<rparr>))"

primrec disable_groups :: "nat \<Rightarrow> tg_ptr list \<Rightarrow> brt \<Rightarrow> brt option" where
  "disable_groups me [] S = Some S"
| "disable_groups me (g # gs) S =
     (case disable_group g me S of None \<Rightarrow> None | Some S \<Rightarrow> disable_groups me gs S)"

definition disable_runtime' :: "nat \<Rightarrow> brt \<Rightarrow> brt option" where
  "disable_runtime' me S = (if \<not> b_scheduler_running S then Some S else disable_groups me (b_groups S) S)"

definition disable_runtime :: "nat \<Rightarrow> brt \<Rightarrow> brt option" where
  "disable_runtime me S = disable_runtime' me S"

definition enable_group :: "nat \<Rightarrow> tg_ptr \<Rightarrow> brt \<Rightarrow> brt" where
  "enable_group me g S = S\<lparr>b_rqs := (b_rqs S)(g := (b_rqs S g)(me := (b_rqs S g me)
     \<lparr>rtq_runtime := rtb_runtime (b_bands S g), rtq_time := 0, rtq_throttled := 0\<rparr>))\<rparr>"

definition enable_runtime' :: "nat \<Rightarrow> brt \<Rightarrow> brt" where
  "enable_runtime' me S = (if \<not> b_scheduler_running S then S else fold (enable_group me) (b_groups S) S)"

definition enable_runtime :: "nat \<Rightarrow> brt \<Rightarrow> brt" where
  "enable_runtime me S = enable_runtime' me S"

datatype hotplug_action = CPU_DOWN_PREPARE | CPU_DOWN_PREPARE_FROZEN | CPU_DOWN_FAILED
  | CPU_DOWN_FAILED_FROZEN | CPU_ONLINE | CPU_ONLINE_FROZEN | Other_action nat

datatype notify = NOTIFY_OK | NOTIFY_DONE

definition update_runtime :: "hotplug_action \<Rightarrow> nat \<Rightarrow> brt \<Rightarrow> (brt \<times> notify) option" where
  "update_runtime action cpu S =
     (case action of
        CPU_DOWN_PREPARE \<Rightarrow> map_option (\<lambda>S. (S, NOTIFY_OK)) (disable_runtime cpu S)
      | CPU_DOWN_PREPARE_FROZEN \<Rightarrow> map_option (\<lambda>S. (S, NOTIFY_OK)) (disable_runtime cpu S)
      | CPU_DOWN_FAILED \<Rightarrow> Some (enable_runtime cpu S, NOTIFY_OK)
      | CPU_DOWN_FAILED_FROZEN \<Rightarrow> Some (enable_runtime cpu S, NOTIFY_OK)
      | CPU_ONLINE \<Rightarrow> Some (enable_runtime cpu S, NOTIFY_OK)
      | CPU_ONLINE_FROZEN \<Rightarrow> Some (enable_runtime cpu S, NOTIFY_OK)
      | Other_action _ \<Rightarrow> Some (S, NOTIFY_DONE))"

section \<open>The run time of a group\<close>

text \<open>A queue without limit has no part in the borrowing.\<close>

definition share :: "(nat \<Rightarrow> rt_rq) \<Rightarrow> nat \<Rightarrow> int" where
  "share q i = (if rtq_runtime (q i) = RUNTIME_INF then 0 else uint (rtq_runtime (q i)))"

definition total_runtime :: "nat list \<Rightarrow> (nat \<Rightarrow> rt_rq) \<Rightarrow> int" where
  "total_runtime cpus q = (\<Sum>i\<in>set cpus. share q i)"

definition enabled :: "nat list \<Rightarrow> (nat \<Rightarrow> rt_rq) \<Rightarrow> nat set" where
  "enabled cpus q = {i \<in> set cpus. rtq_runtime (q i) \<noteq> RUNTIME_INF}"

lemma share_nonneg: "0 \<le> share q i"
  by (simp add: share_def)

lemma share_le_total: "i \<in> set cpus \<Longrightarrow> share q i \<le> total_runtime cpus q"
  unfolding total_runtime_def by (rule member_le_sum) (simp_all add: share_nonneg)

lemma two_shares_le_total:
  assumes "i \<in> set cpus" "j \<in> set cpus" "i \<noteq> j"
  shows "share q i + share q j \<le> total_runtime cpus q"
proof -
  have "sum (share q) {i, j} \<le> total_runtime cpus q"
    unfolding total_runtime_def by (rule sum_mono2) (use assms share_nonneg in auto)
  then show ?thesis using assms(3) by simp
qed

lemma total_upd:
  assumes "i \<in> set cpus"
  shows "total_runtime cpus (q(i := r)) = total_runtime cpus q - share q i + share (q(i := r)) i"
proof -
  have "total_runtime cpus p = share p i + (\<Sum>j\<in>set cpus - {i}. share p j)" for p
    unfolding total_runtime_def using assms by (simp add: sum.remove)
  moreover have "(\<Sum>j\<in>set cpus - {i}. share (q(i := r)) j) = (\<Sum>j\<in>set cpus - {i}. share q j)"
    by (rule sum.cong) (simp_all add: share_def)
  ultimately show ?thesis by simp
qed

text \<open>Word arithmetic that stays in range.\<close>

lemma uint_in_range:
  fixes w :: u64
  assumes "w = word_of_int x" "0 \<le> x" "x < 2 ^ 64"
  shows "uint w = x"
  unfolding assms(1) uint_word_of_int_eq using assms(2,3) by (intro take_bit_int_eq_self) simp_all

lemma uint_minus_signed:
  fixes a b :: u64
  assumes "uint a < 2 ^ 63" and "uint b < 2 ^ 63"
  shows "sint (a - b) = uint a - uint b"
proof -
  have "sint (word_of_int (uint a - uint b) :: u64) = signed_take_bit 63 (uint a - uint b)"
    unfolding sint_sbintrunc' by simp
  then have "sint (a - b) = signed_take_bit 63 (uint a - uint b)" by simp
  moreover have "signed_take_bit 63 (uint a - uint b) = uint a - uint b"
    using assms uint_ge_0 [of a] uint_ge_0 [of b] by (intro signed_take_bit_int_eq_self) linarith+
  ultimately show ?thesis by simp
qed


lemma sint_below: "uint (w :: u64) < 2 ^ 63 \<Longrightarrow> sint w = uint w"
  using uint_minus_signed [of w 0] by simp

section \<open>Borrowing\<close>

text \<open>\<open>sane span q\<close>: what is to be shared and the times used fit 63 bits.\<close>

definition sane :: "nat list \<Rightarrow> (nat \<Rightarrow> rt_rq) \<Rightarrow> bool" where
  "sane cpus q \<longleftrightarrow> total_runtime cpus q < 2 ^ 63 \<and> (\<forall>i\<in>set cpus. uint (rtq_time (q i)) < 2 ^ 63)"

lemma saneD:
  assumes "sane cpus q" and "i \<in> set cpus"
  shows "uint (rtq_time (q i)) < 2 ^ 63" "rtq_runtime (q i) \<noteq> RUNTIME_INF \<Longrightarrow> uint (rtq_runtime (q i)) < 2 ^ 63"
  using assms share_le_total [OF assms(2), of q] by (auto simp: sane_def share_def)

text \<open>Moving \<open>d\<close> from the queue of \<open>i\<close> to that of \<open>j\<close>.\<close>

definition shift_runtime :: "nat \<Rightarrow> nat \<Rightarrow> u64 \<Rightarrow> (nat \<Rightarrow> rt_rq) \<Rightarrow> nat \<Rightarrow> rt_rq" where
  "shift_runtime i j d q = upd_runtime j (\<lambda>r. r + d) (upd_runtime i (\<lambda>r. r - d) q)"

lemma not_INF: "uint (w :: u64) < 2 ^ 63 \<Longrightarrow> w \<noteq> RUNTIME_INF"
  by (auto simp: RUNTIME_INF_def unsigned_minus_1_eq_mask mask_eq_exp_minus_1)

lemma shift_runtime_total:
  assumes s: "sane cpus q" and ij: "i \<in> set cpus" "j \<in> set cpus" "i \<noteq> j"
    and inf: "rtq_runtime (q i) \<noteq> RUNTIME_INF" "rtq_runtime (q j) \<noteq> RUNTIME_INF"
    and d: "d = word_of_int x" "x \<le> uint (rtq_runtime (q i))" "- uint (rtq_runtime (q j)) \<le> x"
  shows "total_runtime cpus (shift_runtime i j d q) = total_runtime cpus q"
    "enabled cpus (shift_runtime i j d q) = enabled cpus q" "sane cpus (shift_runtime i j d q)"
    "uint (rtq_runtime (shift_runtime i j d q j)) = uint (rtq_runtime (q j)) + x"
proof -
  let ?a = "uint (rtq_runtime (q i))" and ?b = "uint (rtq_runtime (q j))"
  have sum: "?a + ?b < 2 ^ 63" using two_shares_le_total [OF ij, of q] s inf by (simp add: sane_def share_def)
  have i: "uint (rtq_runtime (q i) - d) = ?a - x"
    by (rule uint_in_range) (use d sum in simp_all)
  have j: "uint (rtq_runtime (q j) + d) = ?b + x"
    by (rule uint_in_range) (use d sum in simp_all)
  have n: "rtq_runtime (q i) - d \<noteq> RUNTIME_INF" "rtq_runtime (q j) + d \<noteq> RUNTIME_INF"
    by (rule not_INF, use d sum i j in simp)+
  let ?q1 = "upd_runtime i (\<lambda>r. r - d) q"
  have 1: "total_runtime cpus ?q1 = total_runtime cpus q - x"
    using n inf by (simp add: total_upd [OF ij(1)] share_def i)
  have j1: "?q1 j = q j" using ij(3) by simp
  show t: "total_runtime cpus (shift_runtime i j d q) = total_runtime cpus q"
    using n inf ij(3) by (simp add: shift_runtime_def total_upd [OF ij(2)] 1 share_def j j1)
  show "enabled cpus (shift_runtime i j d q) = enabled cpus q"
    using n inf ij(3) by (auto simp: enabled_def shift_runtime_def)
  show "sane cpus (shift_runtime i j d q)"
    using s t by (auto simp: sane_def shift_runtime_def)
  show "uint (rtq_runtime (shift_runtime i j d q j)) = ?b + x"
    using ij(3) by (simp add: shift_runtime_def j)
qed

text \<open>What one neighbour lends: at most what it has left.\<close>

lemma lent_bounds:
  assumes s: "sane cpus q" and i: "i \<in> set cpus" "me \<in> set cpus" "i \<noteq> me"
    and inf: "rtq_runtime (q i) \<noteq> RUNTIME_INF" "rtq_runtime (q me) \<noteq> RUNTIME_INF"
    and pos: "sint (rtq_runtime (q i) - rtq_time (q i)) > 0" and per: "uint rt_period < 2 ^ 63"
    and d: "d = (let diff = (rtq_runtime (q i) - rtq_time (q i)) div weight
       in if rtq_runtime (q me) + diff > rt_period then rt_period - rtq_runtime (q me) else diff)"
  shows "\<exists>x. d = word_of_int x \<and> x \<le> uint (rtq_runtime (q i)) \<and> - uint (rtq_runtime (q me)) \<le> x"
proof -
  let ?v = "rtq_runtime (q i) - rtq_time (q i)" and ?a = "uint (rtq_runtime (q i))" and ?b = "uint (rtq_runtime (q me))"
  note si = saneD [OF s i(1)] and sm = saneD [OF s i(2)]
  have v: "0 < ?a - uint (rtq_time (q i))"
    using pos uint_minus_signed [OF si(2) [OF inf(1)] si(1)] by simp
  have uv: "uint ?v = ?a - uint (rtq_time (q i))"
    by (rule uint_in_range) (use v si(2) [OF inf(1)] uint_ge_0 [of "rtq_time (q i)"] in \<open>simp_all, linarith\<close>)
  have "uint (?v div weight) \<le> uint ?v"
    unfolding word_le_def [symmetric] by (simp add: word_le_nat_alt unat_div)
  then have le: "uint (?v div weight) \<le> ?a" using uv uint_ge_0 [of "rtq_time (q i)"] by linarith
  show ?thesis
  proof (cases "rtq_runtime (q me) + ?v div weight > rt_period")
    case True
    have "uint (rtq_runtime (q me) + ?v div weight) = ?b + uint (?v div weight)"
      by (rule uint_in_range)
        (use le sm(2) [OF inf(2)] si(2) [OF inf(1)] uint_ge_0 [of "?v div weight"] in \<open>simp_all\<close>)
    with True have "uint rt_period < ?b + uint (?v div weight)" by (simp add: word_less_def)
    then have "uint rt_period - ?b \<le> ?a" using le by linarith
    moreover have "d = word_of_int (uint rt_period - ?b)" using True by (simp add: d Let_def)
    ultimately show ?thesis using uint_ge_0 [of rt_period] by (intro exI [of _ "uint rt_period - ?b"]) simp
  next
    case False
    then have "d = word_of_int (uint (?v div weight))" by (simp add: d Let_def)
    then show ?thesis using le uint_ge_0 [of "?v div weight"] uint_ge_0 [of "rtq_runtime (q me)"]
      by (intro exI [of _ "uint (?v div weight)"]) linarith
  qed
qed

lemma balance_loop_conserves:
  assumes "sane cpus q" and "me \<in> set cpus" and "set is \<subseteq> set cpus" and "rtq_runtime (q me) \<noteq> RUNTIME_INF"
    and per: "uint rt_period < 2 ^ 63" and r: "balance_loop weight rt_period me is q got = (q', got')"
  shows "total_runtime cpus q' = total_runtime cpus q \<and> enabled cpus q' = enabled cpus q \<and> sane cpus q'"
  using assms(1-4) r
proof (induction "is" arbitrary: q got)
  case (Cons i "is")
  show ?case
  proof (cases "i = me \<or> rtq_runtime (q i) = RUNTIME_INF \<or> \<not> sint (rtq_runtime (q i) - rtq_time (q i)) > 0")
    case True
    then have "\<exists>g. balance_loop weight rt_period me is q g = (q', got')"
      using Cons.prems(5) by (auto split: if_splits simp: Let_def)
    then show ?thesis using Cons.IH [OF Cons.prems(1,2) _ Cons.prems(4)] Cons.prems(3) by auto
  next
    case False
    define d where "d = (let diff = (rtq_runtime (q i) - rtq_time (q i)) div weight
       in if rtq_runtime (q me) + diff > rt_period then rt_period - rtq_runtime (q me) else diff)"
    let ?q = "shift_runtime i me d q"
    have i: "i \<in> set cpus" "i \<noteq> me" "rtq_runtime (q i) \<noteq> RUNTIME_INF"
      "sint (rtq_runtime (q i) - rtq_time (q i)) > 0" using False Cons.prems(3) by auto
    obtain x where x: "d = word_of_int x" "x \<le> uint (rtq_runtime (q i))" "- uint (rtq_runtime (q me)) \<le> x"
      using lent_bounds [OF Cons.prems(1) i(1) Cons.prems(2) i(2,3) Cons.prems(4) i(4) per d_def] by blast
    note m = shift_runtime_total [OF Cons.prems(1) i(1) Cons.prems(2) i(2,3) Cons.prems(4) x]
    have me: "rtq_runtime (?q me) \<noteq> RUNTIME_INF"
      using m(2) Cons.prems(2,4) by (auto simp: enabled_def)
    have "(q', got') = (if rtq_runtime (?q me) = rt_period then (?q, 1)
        else balance_loop weight rt_period me is ?q 1)"
      using Cons.prems(5) i(2-4) unfolding d_def shift_runtime_def
      by (simp add: Let_def cong: if_cong split del: if_split)
    then show ?thesis
      using m Cons.IH [OF m(3) Cons.prems(2) _ me, of 1] Cons.prems(3) by (auto split: if_splits)
  qed
qed simp


section \<open>Taking run time back\<close>

lemma enabled_upd:
  assumes "rtq_runtime (q i) \<noteq> RUNTIME_INF" and "f (rtq_runtime (q i)) \<noteq> RUNTIME_INF"
  shows "enabled cpus (upd_runtime i f q) = enabled cpus q"
  using assms by (auto simp: enabled_def)

lemma others_upd:
  assumes "i \<notin> A"
  shows "(\<Sum>j\<in>A. share (upd_runtime i f q) j) = (\<Sum>j\<in>A. share q j)"
  by (rule sum.cong) (use assms in \<open>auto simp: share_def\<close>)

text \<open>Run time that was lent comes back when the others have as much.\<close>

lemma reclaim_lent:
  assumes "sane cpus q" and "set is \<subseteq> set cpus" and "distinct is"
    and "want = word_of_int w" "0 \<le> w" "w < 2 ^ 63" and "w \<le> (\<Sum>i\<in>set is - {me}. share q i)"
  shows "\<exists>q'. reclaim_loop me is want q = (q', 0) \<and> total_runtime cpus q' = total_runtime cpus q - w \<and>
    enabled cpus q' = enabled cpus q \<and> q' me = q me \<and> (\<forall>i. rtq_time (q' i) = rtq_time (q i))"
  using assms
proof (induction "is" arbitrary: q want w)
  case (Cons i "is")
  let ?A = "set is - {me}" and ?r = "rtq_runtime (q i)"
  have sum: "(\<Sum>j\<in>set (i # is) - {me}. share q j) = (if i = me then 0 else share q i) + (\<Sum>j\<in>?A. share q j)"
    using Cons.prems(3) by (auto simp: insert_Diff_if)
  show ?case
  proof (cases "i = me \<or> ?r = RUNTIME_INF")
    case True
    then have "(if i = me then 0 else share q i) = 0" by (auto simp: share_def)
    then have "w \<le> (\<Sum>j\<in>?A. share q j)" using Cons.prems(7) sum by simp
    with Cons.IH [OF Cons.prems(1) _ _ Cons.prems(4-6)] Cons.prems(2,3) True show ?thesis by auto
  next
    case False
    have i: "i \<in> set cpus" "i \<noteq> me" "i \<notin> ?A" using Cons.prems(2,3) False by auto
    have r: "uint ?r < 2 ^ 63" using saneD(2) [OF Cons.prems(1) i(1)] False by simp
    have uw: "uint want = w" by (rule uint_in_range) (use Cons.prems(4-6) in simp_all)
    have sw: "sint want = w" using sint_below [of want] uw Cons.prems(6) by simp
    define d where "d = min (uint ?r) w"
    define q1 where "q1 = upd_runtime i (\<lambda>x. x - word_of_int d) q"
    have d: "0 \<le> d" "d \<le> uint ?r" "d \<le> w" using Cons.prems(5) by (auto simp: d_def)
    have u1: "uint (?r - word_of_int d) = uint ?r - d"
      by (rule uint_in_range) (use d r in simp_all)
    have n1: "?r - word_of_int d \<noteq> RUNTIME_INF" by (rule not_INF) (use u1 d r in simp)
    have t1: "total_runtime cpus q1 = total_runtime cpus q - d"
      using n1 False by (simp add: q1_def total_upd [OF i(1)] share_def u1)
    have e1: "enabled cpus q1 = enabled cpus q" unfolding q1_def by (rule enabled_upd) (use False n1 in auto)
    have s1: "sane cpus q1" using Cons.prems(1) t1 d(1) by (auto simp: sane_def q1_def)
    have same: "q1 me = q me" "rtq_time (q1 j) = rtq_time (q j)" for j using i(2) by (simp_all add: q1_def)
    have w': "want - word_of_int d = word_of_int (w - d)" by (simp add: Cons.prems(4))
    have body: "reclaim_loop me (i # is) want q =
        (if want - word_of_int d = 0 then (q1, want - word_of_int d) else reclaim_loop me is (want - word_of_int d) q1)"
    proof (cases "0 < w")
      case True
      have "(if sint ?r < sint want then ?r else want) = word_of_int d"
        using sint_below [OF r] sw Cons.prems(4) by (auto simp: d_def min_def)
      then show ?thesis using False True by (simp add: q1_def sw Let_def)
    next
      case False': False
      then have "w = 0" using Cons.prems(5) by simp
      moreover then have "d = 0" using d by simp
      ultimately show ?thesis using False Cons.prems(4) by (simp add: q1_def Let_def)
    qed
    show ?thesis
    proof (cases "w - d = 0")
      case True
      then show ?thesis using body w' t1 e1 same by (simp del: reclaim_loop.simps)
    next
      case False': False
      have "want - word_of_int d \<noteq> 0"
      proof
        assume "want - word_of_int d = 0"
        moreover have "uint (want - word_of_int d) = w - d"
          by (rule uint_in_range [OF w']) (use d Cons.prems(6) in simp_all)
        ultimately show False using False' by simp
      qed
      then have b: "reclaim_loop me (i # is) want q = reclaim_loop me is (want - word_of_int d) q1"
        using body by simp
      have "d = uint ?r" using False' by (simp add: d_def min_def split: if_splits)
      then have "w - d \<le> (\<Sum>j\<in>?A. share q1 j)"
        using Cons.prems(7) sum i False unfolding q1_def others_upd [OF i(3)] by (simp add: share_def)
      from Cons.IH [OF s1 _ _ w' _ _ this] Cons.prems(2,3,6) d
      obtain q' where "reclaim_loop me is (want - word_of_int d) q1 = (q', 0)"
        "total_runtime cpus q' = total_runtime cpus q1 - (w - d)" "enabled cpus q' = enabled cpus q1"
        "q' me = q1 me" "\<forall>i. rtq_time (q' i) = rtq_time (q1 i)" by auto
      then show ?thesis using b t1 e1 same by (simp del: reclaim_loop.simps)
    qed
  qed
qed simp

text \<open>Run time that was borrowed goes to the first of the others.\<close>

lemma reclaim_borrowed:
  assumes "set is \<subseteq> set cpus" and "want = word_of_int (- w)" "0 < w" "w < 2 ^ 63"
    and "\<exists>i\<in>set is - {me}. rtq_runtime (q i) \<noteq> RUNTIME_INF"
    and "\<forall>i\<in>set is - {me}. rtq_runtime (q i) \<noteq> RUNTIME_INF \<longrightarrow> uint (rtq_runtime (q i)) + w < 2 ^ 63"
  shows "\<exists>q'. reclaim_loop me is want q = (q', 0) \<and> total_runtime cpus q' = total_runtime cpus q + w \<and>
    enabled cpus q' = enabled cpus q \<and> q' me = q me \<and> (\<forall>i. rtq_time (q' i) = rtq_time (q i))"
  using assms(1,5,6)
proof (induction "is")
  case (Cons i "is")
  let ?r = "rtq_runtime (q i)"
  show ?case
  proof (cases "i = me \<or> ?r = RUNTIME_INF")
    case True
    then show ?thesis using Cons by auto
  next
    case False
    have i: "i \<in> set cpus" "i \<noteq> me" using Cons.prems(1) False by auto
    have "sint want = - w"
      unfolding assms(2) sint_sbintrunc' by (intro signed_take_bit_int_eq_self) (use assms(3,4) in simp_all)
    then have neg: "\<not> 0 < sint want" using assms(3) by simp
    have b: "uint ?r + w < 2 ^ 63" using Cons.prems(3) False by auto
    have u: "uint (?r - want) = uint ?r + w"
      by (rule uint_in_range) (use b assms(2,3) uint_ge_0 [of ?r] in \<open>simp_all\<close>)
    have n: "?r - want \<noteq> RUNTIME_INF" by (rule not_INF) (use u b in simp)
    have "total_runtime cpus (upd_runtime i (\<lambda>x. x - want) q) = total_runtime cpus q + w"
      using n False by (simp add: total_upd [OF i(1)] share_def u)
    moreover have "enabled cpus (upd_runtime i (\<lambda>x. x - want) q) = enabled cpus q"
      by (rule enabled_upd) (use False n in auto)
    ultimately show ?thesis using False neg i(2) by (simp add: Let_def)
  qed
qed simp


section \<open>No run time leaks\<close>

text \<open>
  \<open>lends_ok S\<close>: in every group, the processors that are not disabled have together exactly one run
  time of the group each, and the numbers fit 63 bits.
\<close>

definition group_lends_ok :: "brt \<Rightarrow> tg_ptr \<Rightarrow> bool" where
  "group_lends_ok S g \<longleftrightarrow>
     (let cpus = b_span S; q = b_rqs S g; r = rtb_runtime (b_bands S g)
      in uint (rtb_period (b_bands S g)) < 2 ^ 63 \<and> (\<forall>i. uint (rtq_time (q i)) < 2 ^ 63) \<and>
         (if r = RUNTIME_INF then enabled cpus q = {}
          else total_runtime cpus q = int (card (enabled cpus q)) * uint r \<and>
            int (length cpus) * uint r < 2 ^ 63))"

definition lends_ok :: "brt \<Rightarrow> bool" where
  "lends_ok S \<longleftrightarrow> distinct (b_span S) \<and> (\<forall>g\<in>set (b_groups S). group_lends_ok S g)"

lemma enabled_le: "distinct cpus \<Longrightarrow> card (enabled cpus q) \<le> length cpus"
  using card_mono [of "set cpus" "enabled cpus q"] by (auto simp: enabled_def distinct_card)

lemma group_sane:
  assumes "distinct (b_span S)" and "group_lends_ok S g"
  shows "sane (b_span S) (b_rqs S g)"
proof (cases "rtb_runtime (b_bands S g) = RUNTIME_INF")
  case True
  then have "enabled (b_span S) (b_rqs S g) = {}" using assms(2) by (simp add: group_lends_ok_def Let_def)
  then have "total_runtime (b_span S) (b_rqs S g) = 0"
    unfolding total_runtime_def by (intro sum.neutral) (auto simp: enabled_def share_def)
  then show ?thesis using assms(2) by (simp add: sane_def group_lends_ok_def Let_def)
next
  case False
  have "int (card (enabled (b_span S) (b_rqs S g))) * uint (rtb_runtime (b_bands S g)) \<le>
      int (length (b_span S)) * uint (rtb_runtime (b_bands S g))"
    by (intro mult_right_mono) (use enabled_le [OF assms(1)] in auto)
  then show ?thesis using assms(2) False by (simp add: sane_def group_lends_ok_def Let_def)
qed

text \<open>\<open>with_rqs g q S\<close>: the queues of the group \<open>g\<close> are \<open>q\<close>.\<close>

definition with_rqs :: "tg_ptr \<Rightarrow> (nat \<Rightarrow> rt_rq) \<Rightarrow> brt \<Rightarrow> brt" where
  "with_rqs g q S = S\<lparr>b_rqs := (b_rqs S)(g := q)\<rparr>"

lemma with_rqs_fields [simp]:
  "b_rqs (with_rqs g q S) h = (if h = g then q else b_rqs S h)" "b_bands (with_rqs g q S) = b_bands S"
  "b_groups (with_rqs g q S) = b_groups S" "b_span (with_rqs g q S) = b_span S"
  "b_scheduler_running (with_rqs g q S) = b_scheduler_running S"
  by (simp_all add: with_rqs_def)

lemma group_lends_ok_other: "h \<noteq> g \<Longrightarrow> group_lends_ok (with_rqs g q S) h = group_lends_ok S h"
  by (simp add: group_lends_ok_def Let_def)

lemma balance_times:
  "balance_loop weight rt_period me is q got = (q', got') \<Longrightarrow> rtq_time (q' j) = rtq_time (q j)"
proof (induction "is" arbitrary: q got)
  case (Cons i "is")
  define d where "d = (let diff = (rtq_runtime (q i) - rtq_time (q i)) div weight
     in if rtq_runtime (q me) + diff > rt_period then rt_period - rtq_runtime (q me) else diff)"
  let ?q = "shift_runtime i me d q"
  have "\<exists>p g. rtq_time (p j) = rtq_time (q j) \<and> (balance_loop weight rt_period me is p g = (q', got') \<or> q' = p)"
  proof (cases "i = me \<or> rtq_runtime (q i) = RUNTIME_INF \<or> \<not> sint (rtq_runtime (q i) - rtq_time (q i)) > 0")
    case True
    then show ?thesis using Cons.prems by (auto simp: Let_def split: if_splits)
  next
    case False
    then have "(q', got') = (if rtq_runtime (?q me) = rt_period then (?q, 1)
        else balance_loop weight rt_period me is ?q 1)"
      using Cons.prems unfolding d_def shift_runtime_def by (simp add: Let_def cong: if_cong split del: if_split)
    moreover have "rtq_time (?q j) = rtq_time (q j)" by (simp add: shift_runtime_def)
    ultimately show ?thesis by (auto split: if_splits)
  qed
  then show ?case using Cons.IH by auto
qed simp

lemma balance_lends_ok:
  assumes d: "distinct (b_span S)" and ok: "group_lends_ok S g" and me: "me \<in> set (b_span S)"
    and r: "balance_runtime_smp feat g me S = (S', got)"
  shows "\<exists>q. S' = with_rqs g q S \<and> group_lends_ok S' g"
proof (cases "feat \<and> rtq_time (b_rqs S g me) > rtq_runtime (b_rqs S g me)")
  case False
  then have "S' = S" using r by (auto simp: balance_runtime_smp_def split: if_splits)
  then show ?thesis using ok by (intro exI [of _ "b_rqs S g"]) (simp add: with_rqs_def)
next
  case True
  let ?q = "b_rqs S g" and ?b = "b_bands S g"
  obtain q' where q: "balance_loop (of_nat (length (b_span S))) (rtb_period ?b) me (b_span S) ?q 0 = (q', got)"
    "S' = with_rqs g q' S"
    using r True by (auto simp: balance_runtime_smp_def do_balance_runtime_def with_rqs_def Let_def split: prod.splits)
  have "rtq_runtime (?q me) < rtq_time (?q me)" using True by simp
  then have "rtq_runtime (?q me) \<noteq> RUNTIME_INF"
    using word_order.extremum_strict [of "rtq_time (?q me)"] by (auto simp: RUNTIME_INF_def)
  from balance_loop_conserves [OF group_sane [OF d ok] me subset_refl this _ q(1)] ok
  have "total_runtime (b_span S) q' = total_runtime (b_span S) ?q" "enabled (b_span S) q' = enabled (b_span S) ?q"
    by (simp_all add: group_lends_ok_def Let_def)
  moreover have "rtq_time (q' i) = rtq_time (?q i)" for i by (rule balance_times [OF q(1)])
  ultimately have "group_lends_ok S' g" using ok by (simp add: group_lends_ok_def Let_def q(2) cong: if_cong)
  then show ?thesis using q(2) by blast
qed

text \<open>Disabling the queue of a processor finds all the run time it has lent.\<close>

lemma total_disabled:
  assumes "distinct cpus" and "me \<in> set cpus"
  shows "total_runtime cpus (upd_runtime me (\<lambda>_. RUNTIME_INF) q) = total_runtime cpus q - share q me"
    "enabled cpus (upd_runtime me (\<lambda>_. RUNTIME_INF) q) = enabled cpus q - {me}"
  using assms by (auto simp: total_upd share_def enabled_def)

lemma disable_lends_ok:
  assumes dist: "distinct (b_span S)" and ok: "group_lends_ok S g" and me: "me \<in> set (b_span S)"
  shows "\<exists>q. disable_group g me S = Some (with_rqs g q S) \<and> group_lends_ok (with_rqs g q S) g"
proof -
  let ?q = "b_rqs S g" and ?cpus = "b_span S" and ?r = "rtb_runtime (b_bands S g)"
  let ?off = "upd_runtime me (\<lambda>_. RUNTIME_INF)"
  let ?n = "int (card (enabled ?cpus ?q))"
  have fin: "finite (enabled ?cpus p)" for p by (simp add: enabled_def)
  have close: "group_lends_ok (with_rqs g (?off q) S) g"
    if "total_runtime ?cpus q - share q me = int (card (enabled ?cpus q - {me})) * uint ?r"
      "enabled ?cpus q = enabled ?cpus ?q" "\<forall>i. rtq_time (q i) = rtq_time (?q i)" for q
    using that ok total_disabled [OF dist me, of q] by (auto simp: group_lends_ok_def Let_def)
  show ?thesis
  proof (cases "rtq_runtime (?q me) = RUNTIME_INF \<or> rtq_runtime (?q me) = ?r")
    case True
    have "total_runtime ?cpus ?q - share ?q me = int (card (enabled ?cpus ?q - {me})) * uint ?r"
    proof (cases "rtq_runtime (?q me) = RUNTIME_INF")
      case True
      then have "me \<notin> enabled ?cpus ?q" "share ?q me = 0" by (simp_all add: enabled_def share_def)
      moreover from this have "total_runtime ?cpus ?q = ?n * uint ?r"
      proof (cases "?r = RUNTIME_INF")
        case True
        then have e: "enabled ?cpus ?q = {}" using ok by (simp add: group_lends_ok_def Let_def)
        then have "total_runtime ?cpus ?q = 0"
          unfolding total_runtime_def by (intro sum.neutral) (auto simp: enabled_def share_def)
        then show ?thesis using e by simp
      qed (use ok in \<open>simp add: group_lends_ok_def Let_def\<close>)
      ultimately show ?thesis by simp
    next
      case False
      then have "me \<in> enabled ?cpus ?q" "share ?q me = uint ?r" "?r \<noteq> RUNTIME_INF"
        using True me by (auto simp: enabled_def share_def)
      moreover from this have "total_runtime ?cpus ?q = ?n * uint ?r" "0 < card (enabled ?cpus ?q)"
        using ok fin [of ?q] card_gt_0_iff by (auto simp: group_lends_ok_def Let_def)
      ultimately show ?thesis by (simp add: card_Diff_singleton of_nat_diff left_diff_distrib)
    qed
    from close [OF this] True show ?thesis
      by (intro exI [of _ "?off ?q"]) (auto simp: disable_group_def with_rqs_def Let_def)
  next
    case False
    let ?a = "uint (rtq_runtime (?q me))" and ?R = "uint ?r"
    have mine: "me \<in> enabled ?cpus ?q" "share ?q me = ?a" using False me by (auto simp: enabled_def share_def)
    have fin_r: "?r \<noteq> RUNTIME_INF" using ok mine(1) by (auto simp: group_lends_ok_def Let_def)
    have tot: "total_runtime ?cpus ?q = ?n * ?R" "int (length ?cpus) * ?R < 2 ^ 63"
      using ok fin_r by (simp_all add: group_lends_ok_def Let_def)
    note s = group_sane [OF dist ok]
    have n1: "1 \<le> ?n" using mine(1) fin [of ?q] card_gt_0_iff [of "enabled ?cpus ?q"] by auto
    have card: "int (card (enabled ?cpus ?q - {me})) = ?n - 1" using mine(1) n1 by (simp add: card_Diff_singleton of_nat_diff)
    have others: "(\<Sum>i\<in>set ?cpus - {me}. share ?q i) = ?n * ?R - ?a"
      using tot(1) mine(2) me by (simp add: total_runtime_def sum_diff1)
    have R: "?R \<le> ?n * ?R" using n1 mult_right_mono [of 1 ?n ?R] by simp
    have bound: "?n * ?R < 2 ^ 63" using s tot(1) by (simp add: sane_def)
    have want: "?r - rtq_runtime (?q me) = word_of_int (?R - ?a)" by simp
    have neq: "?R \<noteq> ?a" using False by (metis word_uint_eq_iff)
    have a0: "0 \<le> ?a" "?a \<le> ?n * ?R" using share_le_total [OF me, of ?q] mine(2) tot(1) by auto
    obtain q' where q': "reclaim_loop me ?cpus (?r - rtq_runtime (?q me)) ?q = (q', 0)"
      "total_runtime ?cpus q' = total_runtime ?cpus ?q - (?R - ?a)" "enabled ?cpus q' = enabled ?cpus ?q"
      "q' me = ?q me" "\<forall>i. rtq_time (q' i) = rtq_time (?q i)"
    proof (cases "?R > ?a")
      case True
      have "\<exists>q'. reclaim_loop me ?cpus (?r - rtq_runtime (?q me)) ?q = (q', 0) \<and>
          total_runtime ?cpus q' = total_runtime ?cpus ?q - (?R - ?a) \<and> enabled ?cpus q' = enabled ?cpus ?q \<and>
          q' me = ?q me \<and> (\<forall>i. rtq_time (q' i) = rtq_time (?q i))"
        by (rule reclaim_lent [OF s subset_refl dist want]) (use True R bound a0 others in linarith)+
      then show thesis using that by blast
    next
      case False
      define w where "w = ?a - ?R"
      have w: "0 < w" using False neq by (simp add: w_def)
      have n2: "2 \<le> ?n"
      proof (rule ccontr)
        assume "\<not> 2 \<le> ?n"
        with n1 have "?n = 1" by linarith
        then have "?n * ?R = ?R" by simp
        with a0 False neq show False by linarith
      qed
      have "enabled ?cpus ?q - {me} \<noteq> {}"
      proof
        assume "enabled ?cpus ?q - {me} = {}"
        then have "int (card (enabled ?cpus ?q - {me})) = 0" by (simp only: card.empty of_nat_0)
        with card n2 show False by linarith
      qed
      then have ex: "\<exists>i\<in>set ?cpus - {me}. rtq_runtime (?q i) \<noteq> RUNTIME_INF" by (auto simp: enabled_def)
      have le: "\<forall>i\<in>set ?cpus - {me}. rtq_runtime (?q i) \<noteq> RUNTIME_INF \<longrightarrow> uint (rtq_runtime (?q i)) + w < 2 ^ 63"
      proof (intro ballI impI)
        fix i assume "i \<in> set ?cpus - {me}" "rtq_runtime (?q i) \<noteq> RUNTIME_INF"
        then have "uint (rtq_runtime (?q i)) + ?a \<le> ?n * ?R"
          using two_shares_le_total [of i ?cpus me ?q] me mine(2) tot(1) by (auto simp: share_def)
        then show "uint (rtq_runtime (?q i)) + w < 2 ^ 63" using bound uint_ge_0 [of ?r] unfolding w_def by linarith
      qed
      have "?r - rtq_runtime (?q me) = word_of_int (- w)" using want by (simp add: w_def)
      moreover have "w < 2 ^ 63" using a0 bound uint_ge_0 [of ?r] unfolding w_def by linarith
      ultimately
      have "\<exists>q'. reclaim_loop me ?cpus (?r - rtq_runtime (?q me)) ?q = (q', 0) \<and>
          total_runtime ?cpus q' = total_runtime ?cpus ?q + w \<and> enabled ?cpus q' = enabled ?cpus ?q \<and>
          q' me = ?q me \<and> (\<forall>i. rtq_time (q' i) = rtq_time (?q i))"
        using reclaim_borrowed [OF subset_refl _ w _ ex le] by blast
      then show thesis using that unfolding w_def by auto
    qed
    have "total_runtime ?cpus q' - share q' me = int (card (enabled ?cpus q' - {me})) * ?R"
      using q'(2,3,4) mine(2) tot(1) card by (simp add: share_def left_diff_distrib split: if_splits)
    from close [OF this q'(3,5)] q'(1) False show ?thesis
      by (intro exI [of _ "?off q'"]) (auto simp: disable_group_def with_rqs_def Let_def)
  qed
qed

lemma lends_ok_with:
  assumes ok: "lends_ok S" and g: "group_lends_ok (with_rqs g q S) g"
  shows "lends_ok (with_rqs g q S)"
proof -
  have "group_lends_ok (with_rqs g q S) h" if "h \<in> set (b_groups S)" for h
  proof (cases "h = g")
    case False
    then show ?thesis using ok that group_lends_ok_other [OF False, of q S] by (simp add: lends_ok_def)
  qed (use g in simp)
  then show ?thesis using ok by (simp add: lends_ok_def)
qed

lemma disable_groups_lends_ok:
  assumes "lends_ok S" and "me \<in> set (b_span S)" and "set gs \<subseteq> set (b_groups S)"
  shows "\<exists>S'. disable_groups me gs S = Some S' \<and> lends_ok S' \<and> b_span S' = b_span S \<and> b_groups S' = b_groups S"
  using assms
proof (induction gs arbitrary: S)
  case (Cons g gs)
  have g: "distinct (b_span S)" "group_lends_ok S g" using Cons.prems(1,3) by (auto simp: lends_ok_def)
  obtain q where q: "disable_group g me S = Some (with_rqs g q S)" "group_lends_ok (with_rqs g q S) g"
    using disable_lends_ok [OF g Cons.prems(2)] by blast
  have "lends_ok (with_rqs g q S)" by (rule lends_ok_with [OF Cons.prems(1) q(2)])
  from Cons.IH [OF this] Cons.prems(2,3) q(1) show ?case by simp
qed simp

lemma disable_runtime_lends_ok:
  assumes "lends_ok S" and "me \<in> set (b_span S)"
  shows "\<exists>S'. disable_runtime me S = Some S' \<and> lends_ok S'"
  using disable_groups_lends_ok [OF assms subset_refl] assms(1)
  by (auto simp: disable_runtime_def disable_runtime'_def)

text \<open>
  Enabling a queue that is disabled gives it one run time of its group; enabling one that has exactly
  its run time, neither borrowed nor lent, leaves that.
\<close>

definition own_or_disabled :: "nat \<Rightarrow> tg_ptr \<Rightarrow> brt \<Rightarrow> bool" where
  "own_or_disabled me g S \<longleftrightarrow>
     rtq_runtime (b_rqs S g me) = RUNTIME_INF \<or> rtq_runtime (b_rqs S g me) = rtb_runtime (b_bands S g)"

lemma enable_group_lends_ok:
  assumes dist: "distinct (b_span S)" and ok: "group_lends_ok S g" and me: "me \<in> set (b_span S)"
    and own: "own_or_disabled me g S"
  shows "group_lends_ok (enable_group me g S) g"
proof (cases "rtq_runtime (b_rqs S g me) = RUNTIME_INF")
  case False
  let ?q = "b_rqs S g"
  let ?q' = "?q(me := (?q me)\<lparr>rtq_runtime := rtb_runtime (b_bands S g), rtq_time := 0, rtq_throttled := 0\<rparr>)"
  have same: "rtq_runtime (?q' i) = rtq_runtime (?q i)" for i using False own by (simp add: own_or_disabled_def)
  have "enabled cpus ?q' = enabled cpus ?q" "total_runtime cpus ?q' = total_runtime cpus ?q" for cpus
    by (simp_all only: enabled_def total_runtime_def share_def same)
  moreover have "\<forall>i. uint (rtq_time (?q' i)) < 2 ^ 63" using ok by (simp add: group_lends_ok_def Let_def)
  moreover have "rtb_runtime (b_bands S g) \<noteq> RUNTIME_INF" using False own by (simp add: own_or_disabled_def)
  ultimately show ?thesis using ok by (simp add: group_lends_ok_def enable_group_def Let_def cong: if_cong)
next
  case off: True
  let ?q = "b_rqs S g" and ?cpus = "b_span S" and ?r = "rtb_runtime (b_bands S g)"
  let ?x = "(?q me)\<lparr>rtq_runtime := ?r, rtq_time := 0, rtq_throttled := 0\<rparr>"
  let ?q' = "?q(me := ?x)"
  have times: "\<forall>i. uint (rtq_time (?q' i)) < 2 ^ 63" using ok by (simp add: group_lends_ok_def Let_def)
  have not: "me \<notin> enabled ?cpus ?q" using off by (simp add: enabled_def)
  show ?thesis
  proof (cases "?r = RUNTIME_INF")
    case True
    then have "enabled ?cpus ?q' = enabled ?cpus ?q" using off by (auto simp: enabled_def)
    then show ?thesis using ok times True by (simp add: group_lends_ok_def enable_group_def Let_def)
  next
    case False
    have "enabled ?cpus ?q' = insert me (enabled ?cpus ?q)" using me False by (auto simp: enabled_def)
    moreover have "finite (enabled ?cpus ?q)" by (simp add: enabled_def)
    ultimately have "int (card (enabled ?cpus ?q')) = int (card (enabled ?cpus ?q)) + 1" using not by simp
    moreover have "total_runtime ?cpus ?q' = total_runtime ?cpus ?q + uint ?r"
      using total_upd [OF me, of ?q ?x] off False by (simp add: share_def)
    ultimately show ?thesis
      using ok times False by (simp add: group_lends_ok_def enable_group_def distrib_right Let_def cong: if_cong)
  qed
qed

lemma enable_groups_lends_ok:
  assumes "distinct (b_span S)" and "\<forall>g\<in>set (b_groups S). group_lends_ok S g" and "me \<in> set (b_span S)"
    and "set gs \<subseteq> set (b_groups S)" and "distinct gs" and "\<forall>g\<in>set gs. own_or_disabled me g S"
  shows "lends_ok (fold (enable_group me) gs S)"
  using assms
proof (induction gs arbitrary: S)
  case (Cons g gs)
  let ?S = "enable_group me g S"
  obtain q where eq: "?S = with_rqs g q S" by (rule that) (simp only: enable_group_def with_rqs_def)
  have f: "b_span ?S = b_span S" "b_groups ?S = b_groups S" "h \<noteq> g \<Longrightarrow> b_rqs ?S h = b_rqs S h"
    "b_bands ?S = b_bands S" for h
    by (simp_all add: enable_group_def)
  have mine: "group_lends_ok ?S g" by (rule enable_group_lends_ok) (use Cons.prems in auto)
  have "\<forall>h\<in>set (b_groups ?S). group_lends_ok ?S h"
  proof
    fix h assume "h \<in> set (b_groups ?S)"
    then have "group_lends_ok S h" using Cons.prems(2) f(2) by simp
    then show "group_lends_ok ?S h"
      using mine group_lends_ok_other [of h g q S] unfolding eq by (cases "h = g") simp_all
  qed
  moreover have "\<forall>h\<in>set gs. own_or_disabled me h ?S"
  proof
    fix h assume h: "h \<in> set gs"
    then have "h \<noteq> g" using Cons.prems(5) by auto
    from f(3) [OF this] h Cons.prems(6) show "own_or_disabled me h ?S"
      by (simp add: own_or_disabled_def f(4))
  qed
  ultimately have "lends_ok (fold (enable_group me) gs ?S)"
    by (intro Cons.IH) (use Cons.prems in \<open>simp_all add: f(1,2)\<close>)
  then show ?case by simp
qed (simp add: lends_ok_def)

section \<open>Properties\<close>

text \<open>
  What happens to the run times: a processor borrows; it is disabled before it goes down; it is
  enabled when it comes up, once or, as \<open>rq_online_rt\<close> and the notifier \<open>update_runtime\<close> do, a second
  time, as long as it has not borrowed or lent since (\<open>own_or_disabled\<close>; \<open>enabling_twice_leaks\<close> below
  shows what happens otherwise); a group gets a new bandwidth on all processors (the loop of
  \<open>tg_set_rt_bandwidth\<close>); time is used or refilled; a processor that is disabled enters or leaves
  the span.
\<close>

definition set_group_bandwidth :: "tg_ptr \<Rightarrow> rt_bandwidth \<Rightarrow> brt \<Rightarrow> brt" where
  "set_group_bandwidth g b S =
     S\<lparr>b_bands := (b_bands S)(g := b),
       b_rqs := (b_rqs S)(g := \<lambda>i. (b_rqs S g i)\<lparr>rtq_runtime := rtb_runtime b\<rparr>)\<rparr>"

definition room :: "nat list \<Rightarrow> rt_bandwidth \<Rightarrow> bool" where
  "room cpus b \<longleftrightarrow> uint (rtb_period b) < 2 ^ 63 \<and>
     (rtb_runtime b \<noteq> RUNTIME_INF \<longrightarrow> int (length cpus) * uint (rtb_runtime b) < 2 ^ 63)"

inductive runtime_step :: "brt \<Rightarrow> brt \<Rightarrow> bool" where
  borrows: "g \<in> set (b_groups S) \<Longrightarrow> me \<in> set (b_span S) \<Longrightarrow>
    balance_runtime_smp feat g me S = (S', got) \<Longrightarrow> runtime_step S S'"
| disables: "me \<in> set (b_span S) \<Longrightarrow> disable_runtime me S = Some S' \<Longrightarrow> runtime_step S S'"
| enables: "me \<in> set (b_span S) \<Longrightarrow> distinct (b_groups S) \<Longrightarrow>
    \<forall>g\<in>set (b_groups S). own_or_disabled me g S \<Longrightarrow> runtime_step S (enable_runtime me S)"
| sets: "room (b_span S) b \<Longrightarrow> runtime_step S (set_group_bandwidth g b S)"
| runs: "\<forall>g i. rtq_runtime (q g i) = rtq_runtime (b_rqs S g i) \<and> uint (rtq_time (q g i)) < 2 ^ 63 \<Longrightarrow>
    runtime_step S (S\<lparr>b_rqs := q\<rparr>)"
| moves_span: "distinct cpus \<Longrightarrow>
    \<forall>i g. g \<in> set (b_groups S) \<longrightarrow> (i \<in> set cpus) \<noteq> (i \<in> set (b_span S)) \<longrightarrow> rtq_runtime (b_rqs S g i) = RUNTIME_INF \<Longrightarrow>
    \<forall>g\<in>set (b_groups S). room cpus (b_bands S g) \<Longrightarrow> runtime_step S (S\<lparr>b_span := cpus\<rparr>)"

lemma group_lends_ok_same:
  assumes "group_lends_ok S g" and "enabled (b_span S') (b_rqs S' g) = enabled (b_span S) (b_rqs S g)"
    and "total_runtime (b_span S') (b_rqs S' g) = total_runtime (b_span S) (b_rqs S g)"
    and "b_bands S' g = b_bands S g" and "room (b_span S') (b_bands S g)"
    and "\<forall>i. uint (rtq_time (b_rqs S' g i)) < 2 ^ 63"
  shows "group_lends_ok S' g"
  using assms by (simp add: group_lends_ok_def room_def Let_def cong: if_cong)

lemma group_lends_ok_room: "group_lends_ok S g \<Longrightarrow> room (b_span S) (b_bands S g)"
  by (auto simp: group_lends_ok_def room_def Let_def split: if_splits)

lemma set_lends_ok:
  assumes "distinct (b_span S)" and "room (b_span S) b" and "group_lends_ok S g"
  shows "group_lends_ok (set_group_bandwidth g b S) g"
proof (cases "rtb_runtime b = RUNTIME_INF")
  case True
  then show ?thesis using assms by (simp add: group_lends_ok_def set_group_bandwidth_def enabled_def room_def Let_def)
next
  case False
  let ?q = "\<lambda>i. (b_rqs S g i)\<lparr>rtq_runtime := rtb_runtime b\<rparr>"
  have "enabled (b_span S) ?q = set (b_span S)" using False by (simp add: enabled_def)
  moreover have "total_runtime (b_span S) ?q = int (card (set (b_span S))) * uint (rtb_runtime b)"
    using False by (simp add: total_runtime_def share_def)
  ultimately show ?thesis
    using assms False by (simp add: group_lends_ok_def set_group_bandwidth_def room_def Let_def cong: if_cong)
qed

lemma runtime_step_ok:
  assumes ok: "lends_ok S" and st: "runtime_step S S'"
  shows "lends_ok S'"
  using st
proof cases
  case (borrows g me feat got)
  obtain q where q: "S' = with_rqs g q S" "group_lends_ok S' g"
    using balance_lends_ok [OF _ _ borrows(2,3)] ok borrows(1) by (auto simp: lends_ok_def)
  from lends_ok_with [OF ok, of g q] q show ?thesis by simp
next
  case (disables me)
  then show ?thesis using disable_runtime_lends_ok [OF ok disables(1)] by simp
next
  case (enables me)
  then show ?thesis using enable_groups_lends_ok [of S me "b_groups S"] ok
    by (auto simp: enable_runtime_def enable_runtime'_def lends_ok_def)
next
  case (sets b g)
  have "group_lends_ok S' h" if "h \<noteq> g" "group_lends_ok S h" for h
    using that by (simp add: sets(1) group_lends_ok_def set_group_bandwidth_def Let_def cong: if_cong)
  moreover have "group_lends_ok S' g" if "group_lends_ok S g"
    using set_lends_ok [OF _ sets(2) that] ok by (simp add: sets(1) lends_ok_def)
  moreover have "b_span S' = b_span S" "b_groups S' = b_groups S" by (simp_all add: sets(1) set_group_bandwidth_def)
  ultimately show ?thesis using ok unfolding lends_ok_def by metis
next
  case (runs q)
  have "enabled cpus (q g) = enabled cpus (b_rqs S g)" "total_runtime cpus (q g) = total_runtime cpus (b_rqs S g)"
    for cpus g
  proof -
    have same: "rtq_runtime (q g i) = rtq_runtime (b_rqs S g i)" for i using runs(2) by blast
    show "enabled cpus (q g) = enabled cpus (b_rqs S g)" "total_runtime cpus (q g) = total_runtime cpus (b_rqs S g)"
      by (simp_all add: enabled_def total_runtime_def share_def same cong: if_cong)
  qed
  then have "group_lends_ok S' g" if "group_lends_ok S g" for g
    by (intro group_lends_ok_same [OF that]) (use runs group_lends_ok_room [OF that] in simp_all)
  then show ?thesis using ok by (simp add: runs(1) lends_ok_def)
next
  case (moves_span cpus)
  have "group_lends_ok S' g" if g: "g \<in> set (b_groups S)" "group_lends_ok S g" for g
  proof (rule group_lends_ok_same [OF g(2)])
    show "enabled (b_span S') (b_rqs S' g) = enabled (b_span S) (b_rqs S g)"
      using moves_span(3) g(1) by (auto simp: moves_span(1) enabled_def)
    have "total_runtime cs (b_rqs S g) = (\<Sum>i\<in>enabled cs (b_rqs S g). share (b_rqs S g) i)" for cs
      unfolding total_runtime_def by (rule sum.mono_neutral_right) (auto simp: enabled_def share_def)
    moreover have "enabled cpus (b_rqs S g) = enabled (b_span S) (b_rqs S g)"
      using moves_span(3) g(1) by (auto simp: enabled_def)
    ultimately show "total_runtime (b_span S') (b_rqs S' g) = total_runtime (b_span S) (b_rqs S g)"
      by (simp add: moves_span(1))
    show "\<forall>i. uint (rtq_time (b_rqs S' g i)) < 2 ^ 63" using g(2) by (simp add: moves_span(1) group_lends_ok_def Let_def)
  qed (use moves_span(4) g(1) in \<open>simp_all add: moves_span(1)\<close>)
  then show ?thesis using ok moves_span(2) by (simp add: moves_span(1) lends_ok_def)
qed

text \<open>
  C14: Run time is neither lost nor made by lending it, provided that no processor is enabled while it
  holds borrowed run time or has lent some. However processors borrow, are disabled, are enabled under
  that condition and use their time, and whatever bandwidths are set, the processors of a group that
  are not disabled have together exactly one run time of the group each; therefore a processor that
  goes down then finds what it has lent, and \<open>BUG_ON(want)\<close> does not fire. The hotplug code does not
  ensure the condition: it enables a processor that comes up twice.
\<close>

theorem runtime_conserved:
  assumes "lends_ok S0" and "runtime_step\<^sup>*\<^sup>* S0 S"
  shows "(\<forall>g\<in>set (b_groups S). rtb_runtime (b_bands S g) \<noteq> RUNTIME_INF \<longrightarrow>
       total_runtime (b_span S) (b_rqs S g) =
         int (card (enabled (b_span S) (b_rqs S g))) * uint (rtb_runtime (b_bands S g))) \<and>
    (\<forall>me\<in>set (b_span S). disable_runtime me S \<noteq> None)"
proof -
  from assms(2,1) have ok: "lends_ok S"
    by (induction rule: rtranclp_induct) (auto intro: runtime_step_ok)
  then have "\<forall>me\<in>set (b_span S). disable_runtime me S \<noteq> None"
    using disable_runtime_lends_ok [OF ok] by fastforce
  with ok show ?thesis by (simp add: lends_ok_def group_lends_ok_def Let_def)
qed

text \<open>Two processors with one group of 50 in 100; processor 0 has used 60 and borrows 25.\<close>

definition two_processors :: brt where
  "two_processors = \<lparr>b_rqs = \<lambda>_ i. \<lparr>rtq_bitmap = \<lambda>_. False, rtq_nr_running = 0,
       rtq_highest_prio = 100, rtq_throttled = 0, rtq_time = (if i = 0 then 60 else 0),
       rtq_runtime = 50, rtq_nr_boosted = 0\<rparr>,
     b_bands = \<lambda>_. \<lparr>rtb_period = 100, rtb_runtime = 50\<rparr>, b_groups = [[]], b_span = [0, 1],
     b_scheduler_running = True\<rparr>"

definition after_borrowing :: brt where
  "after_borrowing = fst (balance_runtime_smp True [] 0 two_processors)"

lemma runtimes_after:
  "rtq_runtime (b_rqs two_processors g i) = 50" "rtq_runtime (b_rqs after_borrowing [] 0) = 75"
  "rtq_runtime (b_rqs after_borrowing [] (Suc 0)) = 25"
  by (simp_all add: after_borrowing_def balance_runtime_smp_def do_balance_runtime_def two_processors_def
      RUNTIME_INF_def Let_def)

lemma two_processors_ok: "lends_ok two_processors"
  by (simp add: lends_ok_def group_lends_ok_def two_processors_def enabled_def total_runtime_def share_def
      RUNTIME_INF_def Let_def)

theorem runtime_conserved_witness:
  "rtq_runtime (b_rqs after_borrowing [] 0) = 75 \<and> total_runtime [0, 1] (b_rqs after_borrowing []) = 100 \<and>
   disable_runtime 1 after_borrowing \<noteq> None"
proof -
  have "runtime_step two_processors after_borrowing"
    by (rule runtime_step.borrows [of "[]" _ 0 True _ "snd (balance_runtime_smp True [] 0 two_processors)"])
      (simp_all add: after_borrowing_def two_processors_def)
  then have "runtime_step\<^sup>*\<^sup>* two_processors after_borrowing" by blast
  note r = runtime_conserved [OF two_processors_ok this]
  have f: "b_groups after_borrowing = [[]]" "b_span after_borrowing = [0, Suc 0]"
    "rtb_runtime (b_bands after_borrowing []) = 50"
    by (simp_all add: after_borrowing_def balance_runtime_smp_def do_balance_runtime_def two_processors_def
        Let_def split: prod.splits)
  have "enabled [0, Suc 0] (b_rqs after_borrowing []) = {0, Suc 0}"
    by (auto simp: enabled_def runtimes_after RUNTIME_INF_def)
  then show ?thesis using r by (simp add: f runtimes_after RUNTIME_INF_def)
qed

text \<open>
  The condition of the rule \<open>enables\<close> matters: for a processor that comes up, \<open>rq_online_rt\<close> and
  then the notifier \<open>update_runtime\<close> both enable the queue. What the processor has borrowed or lent
  in between is lost to the group or made for it: here 25 of 100 are lost.
\<close>

lemma enabling_twice_leaks:
  "total_runtime [0, 1] (b_rqs after_borrowing []) = 100"
  "total_runtime [0, 1] (b_rqs (enable_runtime 0 after_borrowing) []) = 75"
proof -
  have f: "b_groups after_borrowing = [[]]" "b_scheduler_running after_borrowing"
    "rtb_runtime (b_bands after_borrowing []) = 50"
    by (simp_all add: after_borrowing_def balance_runtime_smp_def do_balance_runtime_def two_processors_def
        Let_def split: prod.splits)
  show "total_runtime [0, 1] (b_rqs after_borrowing []) = 100"
    "total_runtime [0, 1] (b_rqs (enable_runtime 0 after_borrowing) []) = 75"
    by (simp_all add: total_runtime_def share_def enable_runtime_def enable_runtime'_def enable_group_def
        f runtimes_after RUNTIME_INF_def)
qed

end
