(* ===== verification/Cfs_Quota.thy ===== *)
theory Cfs_Quota
  imports Rt_Admission
begin

text \<open>
  The limits of groups in the fair class (CONFIG_CFS_BANDWIDTH), the part of
  \<open>Prj2/kernel/sched/core.c\<close> behind the files \<open>cpu.cfs_quota_us\<close> and \<open>cpu.cfs_period_us\<close>: which
  quotas and periods a group may be given, with the walk over the tree of groups that decides it.
\<close>

section \<open>State and operations\<close>

text \<open>\<open>hierarchal_quota\<close> is an s64, kept as its word.\<close>

record cfs_bandwidth =
  cfb_period :: u64
  cfb_quota :: u64
  cfb_hierarchal_quota :: u64
  cfb_timer_active :: int

record cfs_rq_limit =
  cfr_runtime_enabled :: int
  cfr_runtime_remaining :: u64
  cfr_throttled :: int

record 'x csys =
  c_groups :: "'x gsys"
  c_bands :: "tg_ptr \<Rightarrow> cfs_bandwidth"
  c_rqs :: "tg_ptr \<Rightarrow> nat \<Rightarrow> cfs_rq_limit"
  c_possible_cpus :: "nat list"

text \<open>The functions of the fair class, whose source is not in the repository.\<close>

record 'x cfs_ops =
  cf_account_cfs_bandwidth_used :: "bool \<Rightarrow> bool \<Rightarrow> 'x csys \<Rightarrow> 'x csys"
  cf_refill_cfs_bandwidth_runtime :: "tg_ptr \<Rightarrow> 'x csys \<Rightarrow> 'x csys"
  cf_start_cfs_bandwidth :: "tg_ptr \<Rightarrow> 'x csys \<Rightarrow> 'x csys"
  cf_unthrottle_cfs_rq :: "tg_ptr \<Rightarrow> nat \<Rightarrow> 'x csys \<Rightarrow> 'x csys"
  cf_init_cfs_bandwidth :: cfs_bandwidth

abbreviation upd_band :: "tg_ptr \<Rightarrow> (cfs_bandwidth \<Rightarrow> cfs_bandwidth) \<Rightarrow> 'x csys \<Rightarrow> 'x csys" where
  "upd_band g f S \<equiv> S\<lparr>c_bands := (c_bands S)(g := f (c_bands S g))\<rparr>"

definition max_cfs_quota_period :: u64 where "max_cfs_quota_period = 1000000000"
definition min_cfs_quota_period :: u64 where "min_cfs_quota_period = 1000000"

record cfs_schedulable_data =
  csd_tg :: tg_ptr
  csd_period :: u64
  csd_quota :: u64

text \<open>The results are longs.\<close>

definition tg_get_cfs_quota :: "tg_ptr \<Rightarrow> 'x csys \<Rightarrow> ulong" where
  "tg_get_cfs_quota g S =
     (if cfb_quota (c_bands S g) = RUNTIME_INF then - 1
      else ucast (cfb_quota (c_bands S g) div of_nat NSEC_PER_USEC))"

definition tg_get_cfs_period :: "tg_ptr \<Rightarrow> 'x csys \<Rightarrow> ulong" where
  "tg_get_cfs_period g S = ucast (cfb_period (c_bands S g) div of_nat NSEC_PER_USEC)"

definition normalize_cfs_quota :: "cfs_schedulable_data \<Rightarrow> 'x csys \<Rightarrow> tg_ptr \<Rightarrow> u64" where
  "normalize_cfs_quota d S tg =
     (let (period, quota) =
        (if tg = csd_tg d then (csd_period d, csd_quota d)
         else (scast (tg_get_cfs_period tg S), scast (tg_get_cfs_quota tg S)))
      in if quota = RUNTIME_INF \<or> quota = - 1 then RUNTIME_INF else ucast (to_ratio period quota))"

text \<open>The visitor writes \<open>hierarchal_quota\<close>, so the state is the data of the walk.\<close>

definition tg_cfs_schedulable_down :: "cfs_schedulable_data \<Rightarrow> 'x csys tg_visitor" where
  "tg_cfs_schedulable_down d tg S =
     (case tg_parent tg of
        None \<Rightarrow> (upd_band tg (cfb_hierarchal_quota_update (\<lambda>_. RUNTIME_INF)) S, 0)
      | Some up \<Rightarrow>
          let quota = normalize_cfs_quota d S tg;
              parent_quota = cfb_hierarchal_quota (c_bands S up)
          in if quota \<noteq> RUNTIME_INF \<and> parent_quota \<noteq> RUNTIME_INF \<and> sint quota > sint parent_quota
             then (S, - EINVAL)
             else
               let quota = (if quota = RUNTIME_INF then parent_quota else quota)
               in (upd_band tg (cfb_hierarchal_quota_update (\<lambda>_. quota)) S, 0))"

text \<open>None is a walk that does not end.\<close>

definition cfs_schedulable' :: "tg_ptr \<Rightarrow> u64 \<Rightarrow> u64 \<Rightarrow> 'x csys \<Rightarrow> ('x csys \<times> int) option" where
  "cfs_schedulable' tg period quota S =
     (let d = \<lparr>csd_tg = tg, csd_period = period, csd_quota = quota\<rparr>;
          d = (if quota \<noteq> RUNTIME_INF then
                 d\<lparr>csd_period := csd_period d div of_nat NSEC_PER_USEC,
                   csd_quota := csd_quota d div of_nat NSEC_PER_USEC\<rparr>
               else d)
      in walk_tg_tree (g_children (c_groups S)) (tg_cfs_schedulable_down d) tg_nop S)"

text \<open>The body of the loop over the possible processors.\<close>

definition reset_cfs_rq :: "'x cfs_ops \<Rightarrow> tg_ptr \<Rightarrow> bool \<Rightarrow> nat \<Rightarrow> 'x csys \<Rightarrow> 'x csys" where
  "reset_cfs_rq F tg runtime_enabled i S =
     (let S = S\<lparr>c_rqs := (c_rqs S)(tg := (c_rqs S tg)(i := (c_rqs S tg i)
                \<lparr>cfr_runtime_enabled := of_bool runtime_enabled, cfr_runtime_remaining := 0\<rparr>))\<rparr>
      in if cfr_throttled (c_rqs S tg i) \<noteq> 0 then cf_unthrottle_cfs_rq F tg i S else S)"

definition tg_set_cfs_bandwidth ::
  "'x cfs_ops \<Rightarrow> tg_ptr \<Rightarrow> u64 \<Rightarrow> u64 \<Rightarrow> 'x csys \<Rightarrow> ('x csys \<times> int) option" where
  "tg_set_cfs_bandwidth F tg period quota S =
     (if tg = [] then Some (S, - EINVAL)
      else if quota < min_cfs_quota_period \<or> period < min_cfs_quota_period then Some (S, - EINVAL)
      else if period > max_cfs_quota_period then Some (S, - EINVAL)
      else
        case cfs_schedulable' tg period quota S of
          None \<Rightarrow> None
        | Some (S, ret) \<Rightarrow>
            if ret \<noteq> 0 then Some (S, ret)
            else
              let runtime_enabled = (quota \<noteq> RUNTIME_INF);
                  runtime_was_enabled = (cfb_quota (c_bands S tg) \<noteq> RUNTIME_INF);
                  S = cf_account_cfs_bandwidth_used F runtime_enabled runtime_was_enabled S;
                  S = upd_band tg (\<lambda>b. b\<lparr>cfb_period := period, cfb_quota := quota\<rparr>) S;
                  S = cf_refill_cfs_bandwidth_runtime F tg S;
                  S = (if runtime_enabled \<and> cfb_timer_active (c_bands S tg) \<noteq> 0 then
                         cf_start_cfs_bandwidth F tg (upd_band tg (cfb_timer_active_update (\<lambda>_. 0)) S)
                       else S)
              in Some (fold (reset_cfs_rq F tg runtime_enabled) (c_possible_cpus S) S, 0))"

text \<open>The arguments are longs.\<close>

definition tg_set_cfs_quota :: "'x cfs_ops \<Rightarrow> tg_ptr \<Rightarrow> ulong \<Rightarrow> 'x csys \<Rightarrow> ('x csys \<times> int) option" where
  "tg_set_cfs_quota F tg cfs_quota_us S =
     (let period = cfb_period (c_bands S tg);
          quota = (if sint cfs_quota_us < 0 then RUNTIME_INF
                   else scast cfs_quota_us * of_nat NSEC_PER_USEC)
      in tg_set_cfs_bandwidth F tg period quota S)"

definition tg_set_cfs_period :: "'x cfs_ops \<Rightarrow> tg_ptr \<Rightarrow> ulong \<Rightarrow> 'x csys \<Rightarrow> ('x csys \<times> int) option" where
  "tg_set_cfs_period F tg cfs_period_us S =
     (let period = scast cfs_period_us * of_nat NSEC_PER_USEC;
          quota = cfb_quota (c_bands S tg)
      in tg_set_cfs_bandwidth F tg period quota S)"

text \<open>The files of a control group have 64-bit values.\<close>

definition cpu_cfs_quota_read_s64 :: "tg_ptr \<Rightarrow> 'x csys \<Rightarrow> u64" where
  "cpu_cfs_quota_read_s64 cgrp S = scast (tg_get_cfs_quota cgrp S)"

definition cpu_cfs_quota_write_s64 :: "'x cfs_ops \<Rightarrow> tg_ptr \<Rightarrow> u64 \<Rightarrow> 'x csys \<Rightarrow> ('x csys \<times> int) option" where
  "cpu_cfs_quota_write_s64 F cgrp cfs_quota_us S = tg_set_cfs_quota F cgrp (ucast cfs_quota_us) S"

definition cpu_cfs_period_read_u64 :: "tg_ptr \<Rightarrow> 'x csys \<Rightarrow> u64" where
  "cpu_cfs_period_read_u64 cgrp S = scast (tg_get_cfs_period cgrp S)"

definition cpu_cfs_period_write_u64 :: "'x cfs_ops \<Rightarrow> tg_ptr \<Rightarrow> u64 \<Rightarrow> 'x csys \<Rightarrow> ('x csys \<times> int) option" where
  "cpu_cfs_period_write_u64 F cgrp cfs_period_us S = tg_set_cfs_period F cgrp (ucast cfs_period_us) S"

section \<open>Limits\<close>

text \<open>A limit is a share in units of 2^-20 of a processor, as the code computes it, or none.\<close>

definition limit_of :: "u64 \<Rightarrow> u64 \<Rightarrow> nat option" where
  "limit_of period quota =
     (if quota = RUNTIME_INF then None
      else Some (unat (to_ratio (period div of_nat NSEC_PER_USEC) (quota div of_nat NSEC_PER_USEC))))"








section \<open>The walk\<close>










text \<open>\<open>with_hier H S\<close>: the stored limits of the groups are \<open>H\<close>.\<close>

definition with_hier :: "(tg_ptr \<Rightarrow> u64) \<Rightarrow> 'x csys \<Rightarrow> 'x csys" where
  "with_hier H S = S\<lparr>c_bands := \<lambda>g. (c_bands S g)\<lparr>cfb_hierarchal_quota := H g\<rparr>\<rparr>"

lemma with_hier_fields [simp]:
  "cfb_period (c_bands (with_hier H S) g) = cfb_period (c_bands S g)"
  "cfb_quota (c_bands (with_hier H S) g) = cfb_quota (c_bands S g)"
  "cfb_timer_active (c_bands (with_hier H S) g) = cfb_timer_active (c_bands S g)"
  "cfb_hierarchal_quota (c_bands (with_hier H S) g) = H g"
  "c_groups (with_hier H S) = c_groups S" "c_rqs (with_hier H S) = c_rqs S"
  "c_possible_cpus (with_hier H S) = c_possible_cpus S"
  by (simp_all add: with_hier_def)













section \<open>The test\<close>

















section \<open>Setting a bandwidth\<close>

text \<open>The bandwidths and the tree are the same.\<close>

definition same_limits :: "'x csys \<Rightarrow> 'x csys \<Rightarrow> bool" where
  "same_limits S S' \<longleftrightarrow> g_children (c_groups S') = g_children (c_groups S) \<and>
     g_list (c_groups S') = g_list (c_groups S) \<and>
     (\<forall>g. cfb_period (c_bands S' g) = cfb_period (c_bands S g) \<and> cfb_quota (c_bands S' g) = cfb_quota (c_bands S g) \<and>
        cfb_hierarchal_quota (c_bands S' g) = cfb_hierarchal_quota (c_bands S g))"

























section \<open>Reachable settings\<close>

text \<open>
  What happens to the limits: the two files of a group are written, groups are created, with what
  \<open>init_cfs_bandwidth\<close> sets, and removed, and the rest leaves the limits alone.
\<close>

inductive cfs_step :: "'x env \<Rightarrow> 'x genv \<Rightarrow> 'x cfs_ops \<Rightarrow> 'x csys \<Rightarrow> 'x csys \<Rightarrow> bool"
  for E :: "'x env" and G :: "'x genv" and F :: "'x cfs_ops" where
  writes_quota: "g \<in> set (g_list (c_groups S)) \<Longrightarrow> cpu_cfs_quota_write_s64 F g v S = Some (S', r) \<Longrightarrow> cfs_step E G F S S'"
| writes_period: "g \<in> set (g_list (c_groups S)) \<Longrightarrow> cpu_cfs_period_write_u64 F g v S = Some (S', r) \<Longrightarrow> cfs_step E G F S S'"
| creates: "n # up \<notin> set (g_list (c_groups S)) \<Longrightarrow> up \<in> set (g_list (c_groups S)) \<Longrightarrow>
    sched_create_group E G mem n up (c_groups S) = (T, res) \<Longrightarrow>
    cfs_step E G F S (S\<lparr>c_groups := T, c_bands := (c_bands S)(n # up := cf_init_cfs_bandwidth F)\<rparr>)"
| destroys: "g \<in> set (g_list (c_groups S)) \<Longrightarrow> g \<noteq> [] \<Longrightarrow> g_children (c_groups S) g = [] \<Longrightarrow>
    cfs_step E G F S (S\<lparr>c_groups := sched_destroy_group G g (c_groups S)\<rparr>)"
| other: "same_limits S S' \<Longrightarrow> cfs_step E G F S S'"










lemma limit_of_us:
  "quota \<noteq> RUNTIME_INF \<Longrightarrow> limit_of period quota = Some (unat (to_ratio (period div 1000) (quota div 1000)))"
  by (simp add: limit_of_def NSEC_PER_USEC_def)





section \<open>Where the units end\<close>

text \<open>
  The share is computed with 64 bits and returned as an unsigned long (\<open>to_ratio\<close>), so where
  these have 32 bits a quota of 4096 periods counts as no share at all and passes below any limit.
\<close>

lemma large_quota_counts_as_nothing: "limit_of 1000000 4096000000 = Some 0"
proof -
  have "to_ratio 1000 4096000 = 0" by code_simp
  moreover have "(4096000000 :: u64) \<noteq> RUNTIME_INF" by (simp add: RUNTIME_INF_def)
  ultimately show ?thesis by (simp add: limit_of_us)
qed

text \<open>
  The s64 written to the file is passed on as a long: \<open>2^32 + 5000\<close> microseconds set 5000.
\<close>

lemma quota_file_truncates:
  "cpu_cfs_quota_write_s64 F g (2 ^ 32 + 5000) S = cpu_cfs_quota_write_s64 F g 5000 S"
proof -
  have "(ucast (2 ^ 32 + 5000 :: u64) :: ulong) = ucast (5000 :: u64)" by code_simp
  then show ?thesis by (simp only: cpu_cfs_quota_write_s64_def)
qed

end
