(* ===== verification/Spec2Isabelle.thy ===== *)
theory Spec2Isabelle
  imports Load_Avg Wrr Setsched_Spec Rt_Throttle Rt_Round Ptree Burger Rt_Admission Account Waitq
    Attach Boot Rt_Balance Cfs_Quota
begin

text \<open>
  A verification development for the operating-system projects of this repository: the kernel
  scheduler with a weighted round-robin class (\<open>Prj2/kernel/sched\<close>, \<open>Prj2/include/linux/sched.h\<close>),
  the \<open>ptree\<close> system call (\<open>Prj1/problem1\<close> to \<open>problem3\<close>) and the burger shop
  (\<open>Prj1/problem4\<close>). The three are independent programs; most of the development is the scheduler.

  \<^bold>\<open>The scheduler.\<close> The core (\<open>core.c\<close>) decides when a task runs and calls a scheduling class for how:
  a class is a table of handlers (\<open>struct sched_class\<close>), and the classes form a chain from stop over
  real-time (\<open>rt.c\<close>), weighted round-robin (\<open>wrr.c\<close>) and fair to idle. The core puts a task that wakes
  up into the queue of its class, takes it out when it sleeps, asks the chain for the next task in
  \<open>schedule\<close>, and passes the timer tick on. The real-time class keeps a priority array for every task
  group and limits the run time of a group in a period; which limits may be set is decided over the
  tree of groups in the core. Configuration: the uniprocessor 32-bit ARM build, with group scheduling
  for the fair and the real-time class, CONFIG_CGROUP_CPUACCT, CONFIG_NO_HZ, CONFIG_RT_MUTEXES;
  without CONFIG_SCHEDSTATS, CONFIG_SCHED_HRTICK and CONFIG_CFS_BANDWIDTH. Three things outside that
  configuration are modelled beside it: accounting with interrupt times (in \<open>Account\<close>), the
  balancing of run times between processors (\<open>Rt_Balance\<close>) and the limits of groups in the fair class
  (\<open>Cfs_Quota\<close>).

  \<^bold>\<open>State.\<close> \<open>Sched_Types\<close> has the records: \<open>task_struct\<close>, \<open>rq\<close>, \<open>rt_rq\<close>, the entities and
  groups, with the fields the code names. \<open>'x sys\<close> is the machine: the tasks, the one run queue, the
  real-time queue of every group, and the heap of links of the intrusive lists, whose nodes
  (\<open>lnode\<close>) are the list heads and entries embedded in those structures. A task group is its path
  from the root. Machine integers are words of their width where the code can wrap, and C's
  signed values are integers where it cannot. Errors are negative results as in the code, and \<open>None\<close>
  is a BUG or an access through NULL. \<open>gsys\<close> adds the tree of groups, \<open>asys\<close> the accounting, \<open>wsys\<close>
  the wait queues, \<open>csys\<close> the fair-class limits; \<open>brt\<close> holds one real-time queue for every group and
  processor.

  \<^bold>\<open>What is outside the repository\<close> is a parameter: \<open>klist_ops\<close> for \<open>linux/list.h\<close>, \<open>wait_ops\<close> for
  \<open>linux/wait.h\<close>, \<open>'x env\<close> for the clocks, credentials, the handlers of the fair, idle and stop class,
  the callbacks of the architecture and so on, over a state \<open>'x\<close> of their own. What the code
  relies on is a predicate: \<open>klist_ok\<close>, \<open>env_ok\<close>, \<open>classes_contract\<close>, \<open>wq_contract\<close>, \<open>pi_contract\<close>,
  \<open>groups_contract\<close>. \<open>Sample\<close> has a concrete environment that meets them all, on which the witnesses run.
\<close>

section \<open>The theories\<close>

text \<open>
  \<^item> \<open>Prelude\<close>: integer types, C division, collections of rules. \<open>Klist\<close>, \<open>Klists\<close>: the intrusive
    lists, alone and as a family of queues. \<open>Run_Queue\<close>: the interfaces between core and classes as
    locales (\<open>picked_queue\<close>, \<open>run_queue\<close>, \<open>sliced_queue\<close>, \<open>picking_class\<close>, \<open>queued_class\<close>), with what
    follows from them for rounds of slices; they are interpreted on the two classes in \<open>Wrr\<close>, \<open>Rt_Round\<close>
    and \<open>System\<close>.
  \<^item> \<open>Wrr\<close>: \<open>wrr.c\<close>. The list is a queue of distinct tasks that agrees with the counter; a tick that
    ends a slice rotates it; n rounds give every task exactly its slices.
  \<^item> \<open>Rt\<close>: the operations of \<open>rt.c\<close>. \<open>Rt_Queues\<close>, \<open>Rt_Hierarchy\<close>, \<open>Rt_Pick\<close>, \<open>Rt_Class\<close>: the
    invariant of the nested priority arrays and what each operation does to the tasks of every list.
    \<open>Rt_Spec\<close>: the refinement to lists of tasks, safety, and the choice of the best task. \<open>Rt_Throttle\<close>:
    throttling, the period timer, and the bound on the run time of a group. \<open>Rt_Round\<close>: SCHED_RR.
  \<^item> \<open>Core\<close>, \<open>Switch\<close>, \<open>Setsched\<close>: the operations of \<open>core.c\<close>: dispatch over the classes, wakeup; fork,
    \<open>__schedule\<close>, the tick; nice values, policies and their system calls. \<open>System\<close>, \<open>Kernel_Inv\<close>:
    the invariant \<open>kernel_inv\<close> of core and classes together. \<open>Dispatch\<close>: \<open>pick_next_task\<close>. \<open>Kernel\<close>,
    \<open>Kernel_Ops\<close>, \<open>Regroup\<close>: every operation keeps the invariant; \<open>Regroup\<close> also has \<open>sched_move_task\<close>,
    the cgroup callbacks and \<open>normalize_rt_tasks\<close>. \<open>Kernel_Steps\<close>: the machine whose steps are these
    operations, what all its states satisfy, and that \<open>schedule\<close> returns. \<open>Core_Spec\<close>, \<open>Setsched_Spec\<close>,
    \<open>Attach\<close>: what waking, \<open>nice\<close>, \<open>sched_setscheduler\<close> and a move between groups achieve.
    \<open>Boot\<close>: \<open>sched_init\<close> establishes the invariants, from a memory image of which only the static data
    is fixed.
  \<^item> \<open>Waitq\<close>: wait queues, completions and the \<open>sleep_on\<close> family. A function that blocks is split at
    its call of \<open>schedule_timeout\<close>, so that anything may happen in between.
  \<^item> \<open>Load_Avg\<close>: \<open>avenrun\<close>, its tickless bookkeeping and \<open>cpu_load\<close>. \<open>Account\<close>: the accounting of ticks
    and the times reported to user space.
  \<^item> \<open>Task_Groups\<close>, \<open>Rt_Admission\<close>: the walk over the tree of groups, the settings of real-time
    bandwidth, the creation and removal of groups. \<open>Cfs_Quota\<close>: the quotas and periods of groups in
    the fair class, which no setting makes larger than those above. \<open>Rt_Balance\<close>: lending run time
    between processors, as long as a processor is not enabled twice.
  \<^item> \<open>Ptree\<close>: the kernel modules \<open>hello.c\<close>; the walk reports the process tree in depth-first order.
    \<open>Burger\<close>: \<open>BurgerBuddies.c\<close>, threads as lists of instructions under any schedule.
\<close>

section \<open>Loops, bounds and fuel\<close>

text \<open>
  Loops that the code writes without a bound are \<open>partial_function\<close>s, and each is proved to return
  in the states it is called in: the pass of \<open>schedule\<close> until nobody asks for another
  (\<open>schedule_returns\<close>), the descent of the real-time pick, the retry of \<open>sched_setscheduler\<close>
  (\<open>setscheduler_returns\<close>, under interference that ends), the walk over the groups
  (\<open>walk_visits_tree\<close>) and the walk over a wait queue (\<open>wake_up_order\<close>). Two recursions
  have fuel: \<open>class_chain\<close> follows the \<open>next\<close> pointers of the classes 5 times, and there are five
  classes; \<open>dfs_ptree\<close> recurses as deep as the process tree, and its property holds for every fuel
  that is not below the height of the tree. The burger shop has no bound but a theorem: no run has
  more than \<open>7 * rack_num + 31 * cust_num + 1\<close> steps. Words keep the width of the code: the bounds on
  run times (below 2 to the 63), counters and loads that a property needs are its hypotheses.
\<close>

section \<open>Not modelled\<close>

text \<open>
  \<^item> Multiprocessor code other than the balancing of run times: pushing and pulling of real-time tasks,
    \<open>cpupri\<close>, affinity masks, migration, scheduling domains, hotplug of tasks. The program is built
    for one processor.
  \<^item> The fair class with the throttling of its groups, the stop and the idle class: their sources are
    not in the repository; they appear through their handlers.
  \<^item> Output and configuration: debugging files, the sysctl tables of domains, feature flags,
    \<open>show_state\<close>, statistics; high-resolution ticks; preempt notifiers; the time a hypervisor steals.
  \<^item> Locks and the nesting of \<open>preempt_disable\<close>: an operation under the run queue lock is one
    step. What can happen between the locked sections of a function is modelled where the code
    checks for it (\<open>sched_setscheduler\<close>, blocking functions).
  \<^item> The user programs under \<open>jni\<close>, which print what the system call returns.
\<close>

end
